(* ===== verification/Prelude.thy ===== *)
theory Prelude
  imports Main
begin

unbundle bit_operations_syntax

text \<open>
  Shared ground of the development: Python exceptions as values, the sequencing of
  computations that may raise, and the facts about bits of unbounded integers that the
  components share.

  Python integers are unbounded two's-complement numbers, so they are HOL's \<open>int\<close>; Python's shifts
  are \<open>push_bit\<close> and \<open>drop_bit\<close>, its bitwise operators those of the bundle opened above. A Python exception is a value of \<open>py_error\<close>; a computation that
  may raise returns \<open>py_error + 'a\<close>.
\<close>

section \<open>Exceptions\<close>

datatype py_error =
    ValueError
  | TypeError
  | IndexError
  | KeyError
  | AttributeError
  | OverflowError
  | RuntimeError
  | StopSimulation
  | OSError
  | NotImplementedError
  | DisableBlock
  | Unmodelled

type_synonym 'a res = "py_error + 'a"

definition rbind :: "'a res \<Rightarrow> ('a \<Rightarrow> 'b res) \<Rightarrow> 'b res" where
  "rbind m f = (case m of Inl e \<Rightarrow> Inl e | Inr x \<Rightarrow> f x)"

definition rmap :: "('a \<Rightarrow> 'b) \<Rightarrow> 'a res \<Rightarrow> 'b res" where
  "rmap f m = rbind m (\<lambda>x. Inr (f x))"

definition opt_or :: "'a option \<Rightarrow> 'a \<Rightarrow> 'a" where
  "opt_or x d = (case x of Some y \<Rightarrow> y | None \<Rightarrow> d)"

named_theorems val4_simps \<open>unfolding of the operations on 4-state values\<close>
named_theorems wf_intros \<open>operations preserve well-formedness of 4-state values\<close>
named_theorems width_simps \<open>widths of the results of the operations\<close>

lemma rbind_simps [simp]:
  "rbind (Inl e) f = Inl e"
  "rbind (Inr x) f = f x"
  by (simp_all add: rbind_def)

lemma rmap_simps [simp]:
  "rmap f (Inl e) = Inl e"
  "rmap f (Inr x) = Inr (f x)"
  by (simp_all add: rmap_def)

lemma rbind_eq_Inr_iff: "rbind m f = Inr y \<longleftrightarrow> (\<exists>x. m = Inr x \<and> f x = Inr y)"
  by (cases m) auto

lemma rmap_eq_Inr_iff: "rmap f m = Inr y \<longleftrightarrow> (\<exists>x. m = Inr x \<and> f x = y)"
  by (cases m) auto

lemma rbind_cong [fundef_cong]:
  "m = m' \<Longrightarrow> (\<And>x. m' = Inr x \<Longrightarrow> f x = g x) \<Longrightarrow> rbind m f = rbind m' g"
  by (cases m') auto

lemma opt_or_simps [simp]: "opt_or (Some x) d = x" "opt_or None d = d"
  by (simp_all add: opt_or_def)

section \<open>Bits of integers\<close>

text \<open>\<open>(1 << width) - 1\<close>, the all-ones mask of a width.\<close>

definition width_mask :: "nat \<Rightarrow> int" where
  "width_mask w = push_bit w 1 - 1"

lemma width_mask_eq: "width_mask w = mask w"
  by (simp add: width_mask_def mask_eq_exp_minus_1 push_bit_of_1)

lemma bit_width_mask [simp]: "bit (width_mask w) i \<longleftrightarrow> i < w"
  by (simp add: width_mask_eq bit_mask_iff)

lemma width_mask_nonneg [simp]: "0 \<le> width_mask w"
  by (simp add: width_mask_eq)

lemma and_width_mask: "x AND width_mask w = take_bit w x"
  by (simp add: width_mask_eq take_bit_eq_mask)

lemma width_mask_and: "width_mask w AND x = take_bit w x"
  by (simp add: and_width_mask and.commute)

lemma int_eqI: "(\<And>i. bit (a::int) i = bit b i) \<Longrightarrow> a = b"
  by (rule bit_eqI) simp

lemma bit_eq_zero_iff: "(a::int) = 0 \<longleftrightarrow> (\<forall>i. \<not> bit a i)"
  by (auto intro: int_eqI)

lemma bit_int_nonneg_bound:
  assumes "0 \<le> (a::int)" "\<And>i. w \<le> i \<Longrightarrow> \<not> bit a i"
  shows "a < 2 ^ w"
proof -
  have "take_bit w a = a"
    by (rule int_eqI) (metis assms(2) bit_take_bit_iff not_le)
  then show ?thesis
    by (metis take_bit_int_less_exp)
qed

lemma bit_eq_0_above: "0 \<le> (a::int) \<Longrightarrow> a < 2 ^ w \<Longrightarrow> w \<le> i \<Longrightarrow> \<not> bit a i"
  by (metis bit_take_bit_iff not_less take_bit_int_eq_self)

lemma bit_neg_one [simp]: "bit (- 1 :: int) i"
  by simp

end
