(* ===== verification/Value4.thy ===== *)
theory Value4
  imports Prelude
begin

text \<open>
  The 4-state bit vector of \<open>sim/value.py\<close>, class \<open>Value\<close>: two unbounded integers, the known
  bits and the x/z mask, and a width. Every operation of the class is one definition below, in
  the order of the source. An operation that Python would leave with an exception (a negative
  shift count of a zero-width value, an index out of range) returns \<open>py_error + val4\<close>.

  The slot \<open>type_info\<close> is not modelled: no operation reads it. Operands that may be plain
  integers in the source are first passed through \<open>coerce\<close>, as there.
\<close>

section \<open>Data and construction\<close>

record val4 =
  v_val :: int
  v_mask :: int
  v_width :: nat

definition mk_value :: "int \<Rightarrow> nat \<Rightarrow> int \<Rightarrow> val4" where
  "mk_value v w m =
     \<lparr>v_val = v AND width_mask w AND NOT m, v_mask = m AND width_mask w, v_width = w\<rparr>"

definition known :: "int \<Rightarrow> nat \<Rightarrow> val4" where
  "known v w = mk_value v w 0"

definition from_int :: "int \<Rightarrow> nat \<Rightarrow> val4" where
  "from_int n w = known n w"

definition v_x :: "nat \<Rightarrow> val4" where
  "v_x w = mk_value 0 w (width_mask w)"

definition v_z :: "nat \<Rightarrow> val4" where
  "v_z w = v_x w"

text \<open>Python's \<open>int.bit_length\<close>.\<close>

function int_bits :: "int \<Rightarrow> nat" where
  "int_bits n = (if n \<le> 0 then 0 else Suc (int_bits (n div 2)))"
  by pat_completeness auto
termination
  by (relation "measure nat") auto

declare int_bits.simps [simp del]

definition bit_length :: "int \<Rightarrow> nat" where
  "bit_length n = int_bits \<bar>n\<bar>"

definition signed_literal_width :: "int \<Rightarrow> nat" where
  "signed_literal_width n =
     (if 0 < n then max 32 (bit_length n + 1)
      else if n < 0 then max 32 (bit_length (- n - 1) + 1)
      else 32)"

text \<open>IEEE 1364-2005 Table 5-6; \<open>None\<close> is the undefined cell \<open>0 ** negative\<close>.\<close>

definition verilog_pow :: "int \<Rightarrow> int \<Rightarrow> nat option \<Rightarrow> int option" where
  "verilog_pow base e width =
     (if e = 0 then Some 1
      else if 0 < e then
        (case width of
           Some w \<Rightarrow> Some (base ^ nat e mod push_bit w 1)
         | None \<Rightarrow> Some (base ^ nat e))
      else if base = 0 then None
      else if base = 1 then Some 1
      else if base = - 1 then Some (if e mod 2 \<noteq> 0 then - 1 else 1)
      else Some 0)"

definition coerce :: "int + val4 \<Rightarrow> nat \<Rightarrow> val4" where
  "coerce v w = (case v of Inl n \<Rightarrow> known n w | Inr x \<Rightarrow> x)"

section \<open>Properties and conversions\<close>

definition is_defined :: "val4 \<Rightarrow> bool" where
  "is_defined v \<longleftrightarrow> v_mask v = 0"

definition is_x :: "val4 \<Rightarrow> bool" where
  "is_x v \<longleftrightarrow> v_mask v \<noteq> 0"

definition to_int :: "val4 \<Rightarrow> int res" where
  "to_int v = (if v_mask v \<noteq> 0 then Inl ValueError else Inr (v_val v))"

definition to_bool :: "val4 \<Rightarrow> bool res" where
  "to_bool v = (if v_mask v \<noteq> 0 then Inl ValueError else Inr (v_val v \<noteq> 0))"

definition v_eq :: "val4 \<Rightarrow> int + val4 \<Rightarrow> bool" where
  "v_eq v other = (case other of
       Inl n \<Rightarrow> v_mask v = 0 \<and> v_val v = n
     | Inr u \<Rightarrow> v_val v = v_val u \<and> v_mask v = v_mask u \<and> v_width v = v_width u)"

definition xz_fill_to :: "val4 \<Rightarrow> nat \<Rightarrow> val4" where
  "xz_fill_to v w =
     (if w \<le> v_width v then v
      else (let fill = (push_bit w 1 - 1) XOR (push_bit (v_width v) 1 - 1)
            in mk_value (v_val v) w (v_mask v OR fill)))"

section \<open>Bit and range access\<close>

definition get_bit :: "val4 \<Rightarrow> int \<Rightarrow> val4" where
  "get_bit v i =
     (if i < 0 \<or> int (v_width v) \<le> i then v_x 1
      else mk_value (drop_bit (nat i) (v_val v) AND 1) 1 (drop_bit (nat i) (v_mask v) AND 1))"

definition get_range :: "val4 \<Rightarrow> int \<Rightarrow> int \<Rightarrow> val4" where
  "get_range v start stop =
     (let msb = (if start < stop then stop else start);
          lsb = (if start < stop then start else stop);
          w = nat (msb - lsb + 1);
          full = push_bit w 1 - 1;
          vv = (if 0 \<le> lsb then drop_bit (nat lsb) (v_val v) else push_bit (nat (- lsb)) (v_val v));
          mm = (if 0 \<le> lsb then drop_bit (nat lsb) (v_mask v) else push_bit (nat (- lsb)) (v_mask v));
          oor1 = (if lsb + int w > int (v_width v)
                  then full AND NOT (push_bit (nat (max 0 (int (v_width v) - lsb))) 1 - 1) else 0);
          oor = (if lsb < 0 then oor1 OR (push_bit (nat (min (int w) (- lsb))) 1 - 1) else oor1)
      in mk_value (vv AND NOT oor AND full) w ((mm OR oor) AND full))"

definition set_bit4 :: "val4 \<Rightarrow> int \<Rightarrow> int \<Rightarrow> int \<Rightarrow> val4 res" where
  "set_bit4 v index bit_val bit_mask =
     (if index < 0 \<or> int (v_width v) \<le> index then Inl IndexError
      else (let i = nat index;
                new_mask = (v_mask v AND NOT (push_bit i 1)) OR push_bit i (bit_mask AND 1);
                b = (if bit_mask AND 1 \<noteq> 0 then 0 else bit_val);
                new_val = (if b \<noteq> 0 then v_val v OR push_bit i 1
                           else v_val v AND NOT (push_bit i 1))
            in Inr (mk_value new_val (v_width v) new_mask)))"

definition set_range :: "val4 \<Rightarrow> int \<Rightarrow> int \<Rightarrow> val4 \<Rightarrow> val4" where
  "set_range v msb lsb0 part0 =
     (let part = (if lsb0 < 0
                  then mk_value (drop_bit (nat (- lsb0)) (v_val part0))
                         (nat (max (int (v_width part0) + lsb0) 1))
                         (drop_bit (nat (- lsb0)) (v_mask part0))
                  else part0);
          lsb = (if lsb0 < 0 then 0 else lsb0)
      in if msb < lsb then v
         else (let w = nat (msb - lsb + 1);
                   range_mask = push_bit (nat lsb) (width_mask w)
               in mk_value
                    ((v_val v AND NOT range_mask) OR push_bit (nat lsb) (v_val part AND width_mask w))
                    (v_width v)
                    ((v_mask v AND NOT range_mask) OR push_bit (nat lsb) (v_mask part AND width_mask w))))"

section \<open>Arithmetic\<close>

definition v_add :: "val4 \<Rightarrow> val4 \<Rightarrow> val4" where
  "v_add a b =
     (let w = max (v_width a) (v_width b)
      in if v_mask a \<noteq> 0 \<or> v_mask b \<noteq> 0 then v_x w else known (v_val a + v_val b) w)"

definition v_sub :: "val4 \<Rightarrow> val4 \<Rightarrow> val4" where
  "v_sub a b =
     (let w = max (v_width a) (v_width b)
      in if v_mask a \<noteq> 0 \<or> v_mask b \<noteq> 0 then v_x w else known (v_val a - v_val b) w)"

definition v_mul :: "val4 \<Rightarrow> val4 \<Rightarrow> val4" where
  "v_mul a b =
     (let w = max (v_width a) (v_width b)
      in if v_mask a \<noteq> 0 \<or> v_mask b \<noteq> 0 then v_x w
         else known ((v_val a * v_val b) AND (push_bit w 1 - 1)) w)"

definition v_mod :: "val4 \<Rightarrow> val4 \<Rightarrow> val4" where
  "v_mod a b =
     (let w = max (v_width a) (v_width b)
      in if v_mask a \<noteq> 0 \<or> v_mask b \<noteq> 0 then v_x w
         else if v_val b = 0 then v_x w
         else known (v_val a mod v_val b) w)"

definition v_floordiv :: "val4 \<Rightarrow> val4 \<Rightarrow> val4" where
  "v_floordiv a b =
     (let w = max (v_width a) (v_width b)
      in if v_mask a \<noteq> 0 \<or> v_mask b \<noteq> 0 then v_x w
         else if v_val b = 0 then v_x w
         else known (v_val a div v_val b) w)"

definition v_neg :: "val4 \<Rightarrow> val4" where
  "v_neg a = (if v_mask a \<noteq> 0 then v_x (v_width a) else known (- v_val a) (v_width a))"

definition v_pow :: "val4 \<Rightarrow> val4 \<Rightarrow> val4" where
  "v_pow a b =
     (let w = v_width a
      in if v_mask a \<noteq> 0 \<or> v_mask b \<noteq> 0 then v_x w
         else (case verilog_pow (v_val a) (v_val b) (Some w) of
                 None \<Rightarrow> v_x w
               | Some r \<Rightarrow> known r w))"

text \<open>The reflected forms, for a plain integer on the left.\<close>

definition v_radd :: "val4 \<Rightarrow> int \<Rightarrow> val4" where
  "v_radd a n = v_add a (coerce (Inl n) (v_width a))"

definition v_rsub :: "val4 \<Rightarrow> int \<Rightarrow> val4" where
  "v_rsub a n = v_sub (coerce (Inl n) (v_width a)) a"

definition v_rmul :: "val4 \<Rightarrow> int \<Rightarrow> val4" where
  "v_rmul a n = v_mul a (coerce (Inl n) (v_width a))"

section \<open>Bitwise operators and shifts\<close>

definition v_and :: "val4 \<Rightarrow> val4 \<Rightarrow> val4" where
  "v_and a b =
     (let w = max (v_width a) (v_width b)
      in if v_mask a = 0 \<and> v_mask b = 0 then known (v_val a AND v_val b) w
         else (let definite_zero = (NOT (v_val a) AND NOT (v_mask a)) OR (NOT (v_val b) AND NOT (v_mask b));
                   new_mask = (v_mask a OR v_mask b) AND NOT definite_zero AND width_mask w;
                   new_val = v_val a AND v_val b AND NOT new_mask
               in mk_value new_val w new_mask))"

definition v_or :: "val4 \<Rightarrow> val4 \<Rightarrow> val4" where
  "v_or a b =
     (let w = max (v_width a) (v_width b)
      in if v_mask a = 0 \<and> v_mask b = 0 then known (v_val a OR v_val b) w
         else (let definite_one = (v_val a AND NOT (v_mask a)) OR (v_val b AND NOT (v_mask b));
                   new_mask = (v_mask a OR v_mask b) AND NOT definite_one AND width_mask w;
                   new_val = (v_val a OR v_val b OR definite_one) AND NOT new_mask
               in mk_value new_val w new_mask))"

definition v_xor :: "val4 \<Rightarrow> val4 \<Rightarrow> val4" where
  "v_xor a b =
     (let w = max (v_width a) (v_width b)
      in if v_mask a \<noteq> 0 \<or> v_mask b \<noteq> 0
         then (let new_mask = (v_mask a OR v_mask b) AND width_mask w;
                   new_val = (v_val a XOR v_val b) AND NOT new_mask
               in mk_value new_val w new_mask)
         else known (v_val a XOR v_val b) w)"

definition v_invert :: "val4 \<Rightarrow> val4" where
  "v_invert a =
     (if v_mask a \<noteq> 0
      then mk_value (NOT (v_val a) AND NOT (v_mask a) AND width_mask (v_width a)) (v_width a) (v_mask a)
      else known (NOT (v_val a)) (v_width a))"

definition v_lshift :: "val4 \<Rightarrow> val4 \<Rightarrow> val4" where
  "v_lshift a b =
     (if v_mask b \<noteq> 0 then v_x (v_width a)
      else if int (v_width a) \<le> v_val b then known 0 (v_width a)
      else if v_mask a \<noteq> 0
        then mk_value (push_bit (nat (v_val b)) (v_val a)) (v_width a) (push_bit (nat (v_val b)) (v_mask a))
      else known (push_bit (nat (v_val b)) (v_val a)) (v_width a))"

definition v_rshift :: "val4 \<Rightarrow> val4 \<Rightarrow> val4" where
  "v_rshift a b =
     (if v_mask b \<noteq> 0 then v_x (v_width a)
      else if int (v_width a) \<le> v_val b then known 0 (v_width a)
      else if v_mask a \<noteq> 0
        then mk_value (drop_bit (nat (v_val b)) (v_val a)) (v_width a) (drop_bit (nat (v_val b)) (v_mask a))
      else known (drop_bit (nat (v_val b)) (v_val a)) (v_width a))"

section \<open>Comparison\<close>

datatype cmp_op = CmpEq | CmpNe | CmpLt | CmpLe | CmpGt | CmpGe

definition bool_val :: "bool \<Rightarrow> val4" where
  "bool_val b = known (if b then 1 else 0) 1"

definition v_cmp :: "val4 \<Rightarrow> val4 \<Rightarrow> cmp_op \<Rightarrow> val4" where
  "v_cmp a b oper =
     (if oper = CmpEq \<or> oper = CmpNe then
        (let known_diff = (v_val a XOR v_val b) AND NOT (v_mask a) AND NOT (v_mask b)
         in if known_diff \<noteq> 0 then bool_val (oper = CmpNe)
            else if v_mask a \<noteq> 0 \<or> v_mask b \<noteq> 0 then v_x 1
            else bool_val (if oper = CmpEq then v_val a = v_val b else v_val a \<noteq> v_val b))
      else if v_mask a \<noteq> 0 \<or> v_mask b \<noteq> 0 then v_x 1
      else bool_val (case oper of
               CmpLt \<Rightarrow> v_val a < v_val b
             | CmpLe \<Rightarrow> v_val a \<le> v_val b
             | CmpGt \<Rightarrow> v_val a > v_val b
             | CmpGe \<Rightarrow> v_val a \<ge> v_val b
             | _ \<Rightarrow> False))"

definition eq4 :: "val4 \<Rightarrow> val4 \<Rightarrow> val4" where "eq4 a b = v_cmp a b CmpEq"
definition ne4 :: "val4 \<Rightarrow> val4 \<Rightarrow> val4" where "ne4 a b = v_cmp a b CmpNe"
definition lt4 :: "val4 \<Rightarrow> val4 \<Rightarrow> val4" where "lt4 a b = v_cmp a b CmpLt"
definition le4 :: "val4 \<Rightarrow> val4 \<Rightarrow> val4" where "le4 a b = v_cmp a b CmpLe"
definition gt4 :: "val4 \<Rightarrow> val4 \<Rightarrow> val4" where "gt4 a b = v_cmp a b CmpGt"
definition ge4 :: "val4 \<Rightarrow> val4 \<Rightarrow> val4" where "ge4 a b = v_cmp a b CmpGe"

definition case_eq :: "val4 \<Rightarrow> val4 \<Rightarrow> val4" where
  "case_eq a b = bool_val (v_val a = v_val b \<and> v_mask a = v_mask b)"

definition case_ne :: "val4 \<Rightarrow> val4 \<Rightarrow> val4" where
  "case_ne a b = bool_val (v_val a \<noteq> v_val b \<or> v_mask a \<noteq> v_mask b)"

section \<open>Reduction and logical operators\<close>

text \<open>\<open>bin(n).count("1")\<close> of a number below \<open>2 ^ w\<close>.\<close>

definition popcount :: "nat \<Rightarrow> int \<Rightarrow> nat" where
  "popcount w n = length (filter (\<lambda>i. bit n i) [0..<w])"

definition reduce_and :: "val4 \<Rightarrow> val4" where
  "reduce_and a =
     (let wmask = width_mask (v_width a)
      in if v_mask a \<noteq> 0
         then (let known_mask = wmask AND NOT (v_mask a)
               in if v_val a AND known_mask \<noteq> known_mask then known 0 1 else v_x 1)
         else bool_val (v_val a AND wmask = wmask))"

definition reduce_or :: "val4 \<Rightarrow> val4" where
  "reduce_or a =
     (if v_mask a \<noteq> 0
      then (if v_val a AND NOT (v_mask a) \<noteq> 0 then known 1 1 else v_x 1)
      else bool_val (v_val a \<noteq> 0))"

definition reduce_xor :: "val4 \<Rightarrow> val4" where
  "reduce_xor a =
     (if v_mask a \<noteq> 0 then v_x 1
      else known (int (popcount (v_width a) (v_val a AND width_mask (v_width a))) AND 1) 1)"

definition reduce_nand :: "val4 \<Rightarrow> val4" where "reduce_nand a = v_invert (reduce_and a)"
definition reduce_nor :: "val4 \<Rightarrow> val4" where "reduce_nor a = v_invert (reduce_or a)"
definition reduce_xnor :: "val4 \<Rightarrow> val4" where "reduce_xnor a = v_invert (reduce_xor a)"

definition logical_and :: "val4 \<Rightarrow> val4 \<Rightarrow> val4" where
  "logical_and a b =
     (if (v_mask a = 0 \<and> v_val a = 0) \<or> (v_mask b = 0 \<and> v_val b = 0) then known 0 1
      else if v_val a AND NOT (v_mask a) \<noteq> 0 \<and> v_val b AND NOT (v_mask b) \<noteq> 0 then known 1 1
      else v_x 1)"

definition logical_or :: "val4 \<Rightarrow> val4 \<Rightarrow> val4" where
  "logical_or a b =
     (if v_val a AND NOT (v_mask a) \<noteq> 0 \<or> v_val b AND NOT (v_mask b) \<noteq> 0 then known 1 1
      else if v_mask a = 0 \<and> v_mask b = 0 then known 0 1
      else v_x 1)"

definition logical_not :: "val4 \<Rightarrow> val4" where
  "logical_not a =
     (if v_val a AND NOT (v_mask a) \<noteq> 0 then known 0 1
      else if v_mask a \<noteq> 0 then v_x 1
      else known 1 1)"

section \<open>Concatenation, replication, chunk reversal\<close>

definition concat_step :: "int \<times> int \<times> nat \<Rightarrow> val4 \<Rightarrow> int \<times> int \<times> nat" where
  "concat_step s u = (case s of (rv, rm, tw) \<Rightarrow>
     (push_bit (v_width u) rv OR v_val u, push_bit (v_width u) rm OR v_mask u, tw + v_width u))"

definition v_concat :: "val4 \<Rightarrow> val4 list \<Rightarrow> val4" where
  "v_concat v others =
     (case foldl concat_step (v_val v, v_mask v, v_width v) others of
        (rv, rm, tw) \<Rightarrow> mk_value rv tw rm)"

fun replicate_loop :: "nat \<Rightarrow> val4 \<Rightarrow> int \<Rightarrow> int \<Rightarrow> int \<times> int" where
  "replicate_loop 0 v rv rm = (rv, rm)"
| "replicate_loop (Suc n) v rv rm =
     replicate_loop n v (push_bit (v_width v) rv OR v_val v) (push_bit (v_width v) rm OR v_mask v)"

definition v_replicate :: "val4 \<Rightarrow> nat \<Rightarrow> val4" where
  "v_replicate v count =
     (case replicate_loop count v 0 0 of (rv, rm) \<Rightarrow> mk_value rv (v_width v * count) rm)"

text \<open>The chunks of \<open>stream_reverse\<close>, most significant first: the loop cuts \<open>[pos-1 : lo]\<close>.\<close>

function stream_chunks :: "val4 \<Rightarrow> nat \<Rightarrow> nat \<Rightarrow> val4 list" where
  "stream_chunks v slice pos =
     (if pos = 0 \<or> slice = 0 then []
      else (let lo = pos - slice
            in get_range v (int pos - 1) (int lo) # stream_chunks v slice lo))"
  by pat_completeness auto
termination
  by (relation "measure (\<lambda>(v, slice, pos). pos)") auto

declare stream_chunks.simps [simp del]

definition stream_reverse :: "val4 \<Rightarrow> int \<Rightarrow> val4 res" where
  "stream_reverse v slice_size =
     (if slice_size \<le> 0 then Inl ValueError
      else (let chunks = stream_chunks v (nat slice_size) (v_width v)
            in if length chunks = 1 then Inr (hd chunks)
               else if chunks = [] then Inl IndexError
               else Inr (v_concat (last chunks) (tl (rev chunks)))))"

section \<open>Width and sign\<close>

definition resize :: "val4 \<Rightarrow> nat \<Rightarrow> val4" where
  "resize v w = mk_value (v_val v) w (v_mask v)"

text \<open>
  \<open>sext\<close> is the body of \<open>sign_extend\<close> for a non-zero width; a zero-width value that has to be
  widened makes Python shift by \<open>-1\<close>.
\<close>

definition sext :: "val4 \<Rightarrow> nat \<Rightarrow> val4" where
  "sext v w =
     (if w \<le> v_width v then mk_value (v_val v) w (v_mask v)
      else (let ext = width_mask w AND NOT (width_mask (v_width v))
            in if v_mask v \<noteq> 0 then
                 (if drop_bit (v_width v - 1) (v_mask v) AND 1 \<noteq> 0
                    then mk_value (v_val v) w (v_mask v OR ext)
                  else if drop_bit (v_width v - 1) (v_val v) AND 1 \<noteq> 0
                    then mk_value (v_val v OR ext) w (v_mask v)
                  else mk_value (v_val v) w (v_mask v))
               else if drop_bit (v_width v - 1) (v_val v) AND 1 \<noteq> 0
                 then known (v_val v OR ext) w
               else known (v_val v) w))"

definition sign_extend :: "val4 \<Rightarrow> nat \<Rightarrow> val4 res" where
  "sign_extend v w = (if v_width v = 0 \<and> 0 < w then Inl ValueError else Inr (sext v w))"

definition signed_of :: "val4 \<Rightarrow> int" where
  "signed_of v =
     (if drop_bit (v_width v - 1) (v_val v) AND 1 \<noteq> 0 then v_val v - push_bit (v_width v) 1
      else v_val v)"

definition as_signed :: "val4 \<Rightarrow> int res" where
  "as_signed v =
     (if v_mask v \<noteq> 0 then Inl ValueError
      else if v_width v = 0 then Inl ValueError
      else Inr (signed_of v))"

end
