(* ===== verification/Value4_Spec.thy ===== *)
theory Value4_Spec
  imports Value4
begin

text \<open>
  What a 4-state value means: the bit at a position is known 0, known 1 or unknown. This theory
  holds the invariant of the class (no bit outside the width, no bit both 1 and unknown), the
  extensionality principle that the proofs about the operations use, and the information order
  (\<open>refines c a\<close>: \<open>c\<close> agrees with \<open>a\<close> on every bit that \<open>a\<close> knows).
\<close>

section \<open>Bits\<close>

datatype bit4 = B0 | B1 | BX

definition bit_at :: "val4 \<Rightarrow> nat \<Rightarrow> bit4" where
  "bit_at v i = (if bit (v_mask v) i then BX else if bit (v_val v) i then B1 else B0)"

definition to_bits :: "val4 \<Rightarrow> bit4 list" where
  "to_bits v = map (bit_at v) (rev [0..<v_width v])"

fun kleene_and :: "bit4 \<Rightarrow> bit4 \<Rightarrow> bit4" where
  "kleene_and B0 _ = B0"
| "kleene_and _ B0 = B0"
| "kleene_and B1 B1 = B1"
| "kleene_and _ _ = BX"

fun kleene_or :: "bit4 \<Rightarrow> bit4 \<Rightarrow> bit4" where
  "kleene_or B1 _ = B1"
| "kleene_or _ B1 = B1"
| "kleene_or B0 B0 = B0"
| "kleene_or _ _ = BX"

fun kleene_xor :: "bit4 \<Rightarrow> bit4 \<Rightarrow> bit4" where
  "kleene_xor BX _ = BX"
| "kleene_xor _ BX = BX"
| "kleene_xor a b = (if a = b then B0 else B1)"

fun kleene_not :: "bit4 \<Rightarrow> bit4" where
  "kleene_not B0 = B1"
| "kleene_not B1 = B0"
| "kleene_not BX = BX"

definition wf_val :: "val4 \<Rightarrow> bool" where
  "wf_val v \<longleftrightarrow> (v_val v OR v_mask v) AND NOT (width_mask (v_width v)) = 0
     \<and> v_val v AND v_mask v = 0"

definition refines :: "val4 \<Rightarrow> val4 \<Rightarrow> bool" where
  "refines c a \<longleftrightarrow> v_width c = v_width a
     \<and> NOT (v_mask a) AND (v_mask c OR (v_val c XOR v_val a)) = 0"

section \<open>The invariant\<close>

lemma mk_value_sel [simp]:
  "v_width (mk_value v w m) = w"
  "bit (v_val (mk_value v w m)) i \<longleftrightarrow> i < w \<and> bit v i \<and> \<not> bit m i"
  "bit (v_mask (mk_value v w m)) i \<longleftrightarrow> i < w \<and> bit m i"
  by (auto simp: mk_value_def bit_simps)

lemma known_sel [simp]:
  "v_width (known v w) = w"
  "bit (v_val (known v w)) i \<longleftrightarrow> i < w \<and> bit v i"
  "v_mask (known v w) = 0"
  by (auto simp: known_def) (simp add: mk_value_def)

lemma v_x_sel [simp]:
  "v_width (v_x w) = w"
  "v_val (v_x w) = 0"
  "v_mask (v_x w) = width_mask w"
  by (auto simp: v_x_def intro!: int_eqI)

lemma val4_eqI:
  assumes "v_width a = v_width b"
    "\<And>i. bit (v_val a) i = bit (v_val b) i"
    "\<And>i. bit (v_mask a) i = bit (v_mask b) i"
  shows "a = (b :: val4)"
proof -
  have "v_val a = v_val b" "v_mask a = v_mask b"
    using assms(2,3) by (auto intro: int_eqI)
  with assms(1) show ?thesis by simp
qed

lemma wf_val_iff:
  "wf_val v \<longleftrightarrow> (\<forall>i. (bit (v_val v) i \<longrightarrow> i < v_width v \<and> \<not> bit (v_mask v) i)
     \<and> (bit (v_mask v) i \<longrightarrow> i < v_width v))"
  unfolding wf_val_def bit_eq_zero_iff by (auto simp: bit_simps)

lemma wf_valD:
  assumes "wf_val v"
  shows "bit (v_val v) i \<Longrightarrow> i < v_width v"
    and "bit (v_mask v) i \<Longrightarrow> i < v_width v"
    and "bit (v_val v) i \<Longrightarrow> \<not> bit (v_mask v) i"
  using assms by (auto simp: wf_val_iff)

lemma wf_mk_value [simp, wf_intros]: "wf_val (mk_value v w m)"
  by (simp add: wf_val_iff)

lemma wf_known [simp, wf_intros]: "wf_val (known v w)"
  by (simp add: known_def)

lemma wf_v_x [simp, wf_intros]: "wf_val (v_x w)"
  by (simp add: v_x_def)

lemma wf_bool_val [simp, wf_intros]: "wf_val (bool_val b)"
  by (simp add: bool_val_def)

lemma width_bool_val [simp]: "v_width (bool_val b) = 1"
  by (simp add: bool_val_def)

lemma mk_value_wf_id: "wf_val v \<Longrightarrow> mk_value (v_val v) (v_width v) (v_mask v) = v"
  by (rule val4_eqI) (auto dest: wf_valD)

lemma wf_val_bounds:
  assumes "wf_val v"
  shows "0 \<le> v_val v" "v_val v < 2 ^ v_width v" "0 \<le> v_mask v" "v_mask v < 2 ^ v_width v"
proof -
  have v: "v_val v = take_bit (v_width v) (v_val v AND NOT (v_mask v))"
    and m: "v_mask v = take_bit (v_width v) (v_mask v)"
    using assms by (auto intro!: int_eqI simp: bit_simps dest: wf_valD)
  show "0 \<le> v_val v" "v_val v < 2 ^ v_width v"
    by (subst v, simp)+
  show "0 \<le> v_mask v" "v_mask v < 2 ^ v_width v"
    by (subst m, simp)+
qed

lemma wf_defined_eqI:
  "wf_val a \<Longrightarrow> wf_val b \<Longrightarrow> v_mask a = 0 \<Longrightarrow> v_mask b = 0 \<Longrightarrow>
     v_width a = v_width b \<Longrightarrow> v_val a = v_val b \<Longrightarrow> a = b"
  by simp

lemma known_val: "v_val (known n w) = n mod 2 ^ w"
  by (simp add: known_def mk_value_def and_width_mask take_bit_eq_mod)

lemma known_of_wf: "wf_val v \<Longrightarrow> v_mask v = 0 \<Longrightarrow> known (v_val v) (v_width v) = v"
  by (metis known_def mk_value_wf_id)

lemma bit_at_eqI:
  assumes "wf_val a" "wf_val b" "v_width a = v_width b"
    "\<And>i. i < v_width a \<Longrightarrow> bit_at a i = bit_at b i"
  shows "a = b"
proof (rule val4_eqI)
  show "bit (v_val a) i = bit (v_val b) i" for i
    using assms(4)[of i] assms(1-3) wf_valD[OF assms(1)] wf_valD[OF assms(2)]
    by (cases "i < v_width a") (auto simp: bit_at_def split: if_splits)
  show "bit (v_mask a) i = bit (v_mask b) i" for i
    using assms(4)[of i] assms(1-3) wf_valD[OF assms(1)] wf_valD[OF assms(2)]
    by (cases "i < v_width a") (auto simp: bit_at_def split: if_splits)
qed (rule assms(3))

section \<open>Widths and well-formedness of the operations\<close>

lemmas val4_ops_defs =
  v_add_def v_sub_def v_mul_def v_mod_def v_floordiv_def v_neg_def v_pow_def
  v_and_def v_or_def v_xor_def v_invert_def v_lshift_def v_rshift_def
  v_cmp_def case_eq_def case_ne_def
  reduce_and_def reduce_or_def reduce_xor_def
  logical_and_def logical_or_def logical_not_def resize_def sext_def

lemma wf_ops [simp, wf_intros]:
  "wf_val (v_add a b)" "wf_val (v_sub a b)" "wf_val (v_mul a b)" "wf_val (v_mod a b)"
  "wf_val (v_floordiv a b)" "wf_val (v_neg a)" "wf_val (v_pow a b)"
  "wf_val (v_and a b)" "wf_val (v_or a b)" "wf_val (v_xor a b)" "wf_val (v_invert a)"
  "wf_val (v_lshift a b)" "wf_val (v_rshift a b)"
  "wf_val (v_cmp a b c)" "wf_val (case_eq a b)" "wf_val (case_ne a b)"
  "wf_val (reduce_and a)" "wf_val (reduce_or a)" "wf_val (reduce_xor a)"
  "wf_val (logical_and a b)" "wf_val (logical_or a b)" "wf_val (logical_not a)"
  "wf_val (resize a w)" "wf_val (sext a w)"
  by (simp_all add: val4_ops_defs Let_def split: option.split)

lemma width_ops [simp, width_simps]:
  "v_width (v_add a b) = max (v_width a) (v_width b)"
  "v_width (v_sub a b) = max (v_width a) (v_width b)"
  "v_width (v_mul a b) = max (v_width a) (v_width b)"
  "v_width (v_mod a b) = max (v_width a) (v_width b)"
  "v_width (v_floordiv a b) = max (v_width a) (v_width b)"
  "v_width (v_neg a) = v_width a"
  "v_width (v_pow a b) = v_width a"
  "v_width (v_and a b) = max (v_width a) (v_width b)"
  "v_width (v_or a b) = max (v_width a) (v_width b)"
  "v_width (v_xor a b) = max (v_width a) (v_width b)"
  "v_width (v_invert a) = v_width a"
  "v_width (v_lshift a b) = v_width a"
  "v_width (v_rshift a b) = v_width a"
  "v_width (v_cmp a b c) = 1"
  "v_width (case_eq a b) = 1"
  "v_width (case_ne a b) = 1"
  "v_width (reduce_and a) = 1"
  "v_width (reduce_or a) = 1"
  "v_width (reduce_xor a) = 1"
  "v_width (logical_and a b) = 1"
  "v_width (logical_or a b) = 1"
  "v_width (logical_not a) = 1"
  "v_width (resize a w) = w"
  "v_width (sext a w) = w"
  by (simp_all add: val4_ops_defs Let_def split: option.split)

lemma wf_named_ops [simp, wf_intros]:
  "wf_val (eq4 a b)" "wf_val (ne4 a b)" "wf_val (lt4 a b)" "wf_val (le4 a b)"
  "wf_val (gt4 a b)" "wf_val (ge4 a b)"
  "wf_val (reduce_nand a)" "wf_val (reduce_nor a)" "wf_val (reduce_xnor a)"
  by (simp_all add: eq4_def ne4_def lt4_def le4_def gt4_def ge4_def
      reduce_nand_def reduce_nor_def reduce_xnor_def)

lemma width_named_ops [simp, width_simps]:
  "v_width (eq4 a b) = 1" "v_width (ne4 a b) = 1" "v_width (lt4 a b) = 1" "v_width (le4 a b) = 1"
  "v_width (gt4 a b) = 1" "v_width (ge4 a b) = 1"
  "v_width (reduce_nand a) = 1" "v_width (reduce_nor a) = 1" "v_width (reduce_xnor a) = 1"
  by (simp_all add: eq4_def ne4_def lt4_def le4_def gt4_def ge4_def
      reduce_nand_def reduce_nor_def reduce_xnor_def)

lemma wf_get_bit [simp, wf_intros]: "wf_val (get_bit v i)"
  and width_get_bit [simp, width_simps]: "v_width (get_bit v i) = 1"
  by (simp_all add: get_bit_def)

lemma wf_get_range [simp, wf_intros]: "wf_val (get_range v m l)"
  and width_get_range [simp, width_simps]: "v_width (get_range v m l) = nat (\<bar>m - l\<bar> + 1)"
  by (auto simp: get_range_def Let_def abs_if)

lemma wf_set_range [simp, wf_intros]: "wf_val v \<Longrightarrow> wf_val (set_range v m l p)"
  and width_set_range [simp, width_simps]: "v_width (set_range v m l p) = v_width v"
  by (auto simp: set_range_def Let_def)

lemma set_bit4_wf: "set_bit4 v i b m = Inr u \<Longrightarrow> wf_val u \<and> v_width u = v_width v"
  by (auto simp: set_bit4_def Let_def split: if_splits)

lemma resize_id [simp]: "wf_val v \<Longrightarrow> v_width v = w \<Longrightarrow> resize v w = v"
  by (auto simp: resize_def mk_value_wf_id)

lemma sext_id [simp]: "wf_val v \<Longrightarrow> v_width v = w \<Longrightarrow> sext v w = v"
  by (auto simp: sext_def mk_value_wf_id)

lemma sign_extend_ok [simp]: "0 < v_width v \<Longrightarrow> sign_extend v w = Inr (sext v w)"
  by (simp add: sign_extend_def)

end
