(* ===== verification/Value4_Order.thy ===== *)
theory Value4_Order
  imports Value4_Spec
begin

text \<open>
  The operations of \<open>Value\<close> against their meaning on single bits, and their monotonicity in the
  information order: a simulation that carries unknown bits never reports a known result that
  some resolution of the unknown bits would contradict. The two locales state what every
  operator of the class promises; each operator is an interpretation.
\<close>

section \<open>The information order\<close>

lemma refines_iff:
  "refines c a \<longleftrightarrow> v_width c = v_width a
     \<and> (\<forall>i. \<not> bit (v_mask a) i \<longrightarrow> \<not> bit (v_mask c) i \<and> bit (v_val c) i = bit (v_val a) i)"
  unfolding refines_def bit_eq_zero_iff by (auto simp: bit_simps)

lemma refines_bit_at:
  "refines c a \<longleftrightarrow> v_width c = v_width a \<and> (\<forall>i. bit_at a i \<noteq> BX \<longrightarrow> bit_at c i = bit_at a i)"
  unfolding refines_iff bit_at_def by auto

lemma refines_refl [simp]: "refines a a"
  by (simp add: refines_iff)

lemma refines_trans: "refines a b \<Longrightarrow> refines b c \<Longrightarrow> refines a c"
  by (auto simp: refines_iff)

lemma refines_width: "refines c a \<Longrightarrow> v_width c = v_width a"
  by (simp add: refines_iff)

lemma refines_v_x [intro]: "wf_val c \<Longrightarrow> v_width c = w \<Longrightarrow> refines c (v_x w)"
  by (auto simp: refines_iff dest: wf_valD)

lemma refines_defined_eq:
  assumes "refines c a" "v_mask a = 0"
  shows "c = a"
proof -
  have "\<not> bit (v_mask c) i \<and> bit (v_val c) i = bit (v_val a) i" for i
    using assms by (simp add: refines_iff)
  then show ?thesis
    using assms by (intro val4_eqI) (simp_all add: refines_iff)
qed

lemma refines_antisym:
  assumes "refines a b" "refines b a" "wf_val a" "wf_val b"
  shows "a = b"
proof (rule val4_eqI)
  note r = assms(1,2) [unfolded refines_iff, THEN conjunct2, rule_format]
  show m: "bit (v_mask a) i = bit (v_mask b) i" for i
    using r(1)[of i] r(2)[of i] by blast
  show "bit (v_val a) i = bit (v_val b) i" for i
    using r(1)[of i] r(2)[of i] m[of i] wf_valD(3)[OF assms(3), of i] wf_valD(3)[OF assms(4), of i]
    by blast
qed (use assms(1) in \<open>simp add: refines_iff\<close>)

section \<open>What an operator promises\<close>

locale val4_binop =
  fixes f :: "val4 \<Rightarrow> val4 \<Rightarrow> val4"
    and wd :: "nat \<Rightarrow> nat \<Rightarrow> nat"
  assumes f_wf: "wf_val (f a b)"
    and f_width: "v_width (f a b) = wd (v_width a) (v_width b)"
    and f_mono: "wf_val c \<Longrightarrow> wf_val d \<Longrightarrow> wf_val a \<Longrightarrow> wf_val b \<Longrightarrow>
      refines c a \<Longrightarrow> refines d b \<Longrightarrow> refines (f c d) (f a b)"
begin

lemma known_result_stable:
  assumes "wf_val c" "wf_val d" "wf_val a" "wf_val b" "refines c a" "refines d b"
    and "v_mask (f a b) = 0"
  shows "f c d = f a b"
  using f_mono[OF assms(1-6)] assms(7) by (rule refines_defined_eq)

end

locale val4_unop =
  fixes g :: "val4 \<Rightarrow> val4"
    and ud :: "nat \<Rightarrow> nat"
  assumes g_wf: "wf_val (g a)"
    and g_width: "v_width (g a) = ud (v_width a)"
    and g_mono: "wf_val c \<Longrightarrow> wf_val a \<Longrightarrow> refines c a \<Longrightarrow> refines (g c) (g a)"
begin

lemma known_result_stable:
  assumes "wf_val c" "wf_val a" "refines c a" and "v_mask (g a) = 0"
  shows "g c = g a"
  using g_mono[OF assms(1-3)] assms(4) by (rule refines_defined_eq)

end

text \<open>
  A strict operator (all-x result when an operand has an unknown bit) is monotone whatever it
  computes on known operands.
\<close>

lemma strict_binop_mono:
  assumes x: "\<And>a b. v_mask a \<noteq> 0 \<or> v_mask b \<noteq> 0 \<Longrightarrow> f a b = v_x (wd (v_width a) (v_width b))"
    and wf: "\<And>a b. wf_val (f a b)"
    and w: "\<And>a b. v_width (f a b) = wd (v_width a) (v_width b)"
    and r: "refines c a" "refines d b"
  shows "refines (f c d) (f a b)"
proof (cases "v_mask a \<noteq> 0 \<or> v_mask b \<noteq> 0")
  case True
  then have "f a b = v_x (wd (v_width a) (v_width b))" by (rule x)
  moreover have "v_width (f c d) = wd (v_width a) (v_width b)"
    using r by (simp add: w refines_width)
  ultimately show ?thesis using wf by auto
next
  case False
  with r have "c = a" "d = b" by (auto intro: refines_defined_eq)
  then show ?thesis by simp
qed

section \<open>Bitwise operators against Kleene logic\<close>

lemma bit_val_and:
  "wf_val a \<Longrightarrow> wf_val b \<Longrightarrow> bit_at (v_and a b) i = kleene_and (bit_at a i) (bit_at b i)"
  by (cases "i < v_width a"; cases "i < v_width b")
    (auto simp: v_and_def bit_at_def Let_def bit_simps wf_val_iff max_def bit_eq_zero_iff)

lemma bit_val_or:
  "wf_val a \<Longrightarrow> wf_val b \<Longrightarrow> bit_at (v_or a b) i = kleene_or (bit_at a i) (bit_at b i)"
  by (cases "i < v_width a"; cases "i < v_width b")
    (auto simp: v_or_def bit_at_def Let_def bit_simps wf_val_iff max_def bit_eq_zero_iff)

lemma bit_val_xor:
  "wf_val a \<Longrightarrow> wf_val b \<Longrightarrow> bit_at (v_xor a b) i = kleene_xor (bit_at a i) (bit_at b i)"
  by (cases "i < v_width a"; cases "i < v_width b")
    (auto simp: v_xor_def bit_at_def Let_def bit_simps wf_val_iff max_def bit_eq_zero_iff)

lemma bit_val_invert:
  "wf_val a \<Longrightarrow> i < v_width a \<Longrightarrow> bit_at (v_invert a) i = kleene_not (bit_at a i)"
  by (auto simp: v_invert_def bit_at_def bit_simps wf_val_iff)

lemma bit_val_invert_out: "wf_val a \<Longrightarrow> \<not> i < v_width a \<Longrightarrow> bit_at (v_invert a) i = B0"
  by (auto simp: v_invert_def bit_at_def bit_simps wf_val_iff)

lemma kleene_mono:
  "(x \<noteq> BX \<longrightarrow> x' = x) \<Longrightarrow> (y \<noteq> BX \<longrightarrow> y' = y) \<Longrightarrow> kleene_and x y \<noteq> BX \<Longrightarrow> kleene_and x' y' = kleene_and x y"
  "(x \<noteq> BX \<longrightarrow> x' = x) \<Longrightarrow> (y \<noteq> BX \<longrightarrow> y' = y) \<Longrightarrow> kleene_or x y \<noteq> BX \<Longrightarrow> kleene_or x' y' = kleene_or x y"
  "(x \<noteq> BX \<longrightarrow> x' = x) \<Longrightarrow> (y \<noteq> BX \<longrightarrow> y' = y) \<Longrightarrow> kleene_xor x y \<noteq> BX \<Longrightarrow> kleene_xor x' y' = kleene_xor x y"
  by (cases x; cases y; cases x'; cases y'; simp)+

section \<open>Every operator is an instance\<close>

interpretation add_op: val4_binop v_add max
  by unfold_locales (simp_all, rule strict_binop_mono [where f = v_add and wd = max], auto simp: v_add_def Let_def)

interpretation sub_op: val4_binop v_sub max
  by unfold_locales (simp_all, rule strict_binop_mono [where f = v_sub and wd = max], auto simp: v_sub_def Let_def)

interpretation mul_op: val4_binop v_mul max
  by unfold_locales (simp_all, rule strict_binop_mono [where f = v_mul and wd = max], auto simp: v_mul_def Let_def)

interpretation mod_op: val4_binop v_mod max
  by unfold_locales (simp_all, rule strict_binop_mono [where f = v_mod and wd = max], auto simp: v_mod_def Let_def)

interpretation div_op: val4_binop v_floordiv max
  by unfold_locales (simp_all, rule strict_binop_mono [where f = v_floordiv and wd = max], auto simp: v_floordiv_def Let_def)

interpretation pow_op: val4_binop v_pow "\<lambda>a b. a"
  by unfold_locales (simp_all, rule strict_binop_mono [where f = v_pow and wd = "\<lambda>a b. a"], auto simp: v_pow_def Let_def split: option.split)

interpretation and_op: val4_binop v_and max
  by unfold_locales (auto simp: refines_bit_at bit_val_and intro: kleene_mono)

interpretation or_op: val4_binop v_or max
  by unfold_locales (auto simp: refines_bit_at bit_val_or intro: kleene_mono)

interpretation xor_op: val4_binop v_xor max
  by unfold_locales (auto simp: refines_bit_at bit_val_xor intro: kleene_mono)

lemma invert_mono: "wf_val c \<Longrightarrow> wf_val a \<Longrightarrow> refines c a \<Longrightarrow> refines (v_invert c) (v_invert a)"
  unfolding refines_bit_at
proof (intro conjI allI impI)
  fix i
  assume wf: "wf_val c" "wf_val a" and r: "v_width c = v_width a \<and> (\<forall>i. bit_at a i \<noteq> BX \<longrightarrow> bit_at c i = bit_at a i)"
    and x: "bit_at (v_invert a) i \<noteq> BX"
  show "bit_at (v_invert c) i = bit_at (v_invert a) i"
  proof (cases "i < v_width a")
    case True
    with wf r x show ?thesis
      by (cases "bit_at a i") (auto simp: bit_val_invert)
  next
    case False
    with wf r show ?thesis by (simp add: bit_val_invert_out)
  qed
qed simp

interpretation invert_op: val4_unop v_invert "\<lambda>w. w"
  by unfold_locales (simp_all add: invert_mono)

interpretation neg_op: val4_unop v_neg "\<lambda>w. w"
proof unfold_locales
  fix c a assume r: "wf_val c" "wf_val a" "refines c a"
  show "refines (v_neg c) (v_neg a)"
  proof (cases "v_mask a = 0")
    case True
    with r show ?thesis by (simp add: refines_defined_eq [of c a])
  next
    case False
    then have "v_neg a = v_x (v_width a)" by (simp add: v_neg_def)
    with r show ?thesis by (auto simp: refines_width)
  qed
qed simp_all

section \<open>Shifts, comparisons, truth values\<close>

lemma lshift_eq:
  "v_mask b = 0 \<Longrightarrow> v_val b < int (v_width a) \<Longrightarrow>
     v_lshift a b = mk_value (push_bit (nat (v_val b)) (v_val a)) (v_width a) (push_bit (nat (v_val b)) (v_mask a))"
  by (auto simp: v_lshift_def known_def)

lemma rshift_eq:
  "v_mask b = 0 \<Longrightarrow> v_val b < int (v_width a) \<Longrightarrow>
     v_rshift a b = mk_value (drop_bit (nat (v_val b)) (v_val a)) (v_width a) (drop_bit (nat (v_val b)) (v_mask a))"
  by (auto simp: v_rshift_def known_def)

lemma lshift_trivial:
  "v_mask b \<noteq> 0 \<Longrightarrow> v_lshift a b = v_x (v_width a)"
  "v_mask b = 0 \<Longrightarrow> int (v_width a) \<le> v_val b \<Longrightarrow> v_lshift a b = known 0 (v_width a)"
  by (simp_all add: v_lshift_def)

lemma rshift_trivial:
  "v_mask b \<noteq> 0 \<Longrightarrow> v_rshift a b = v_x (v_width a)"
  "v_mask b = 0 \<Longrightarrow> int (v_width a) \<le> v_val b \<Longrightarrow> v_rshift a b = known 0 (v_width a)"
  by (simp_all add: v_rshift_def)

lemma shift_mono:
  assumes r: "refines c a" "refines d b"
    and x: "v_mask b \<noteq> 0 \<Longrightarrow> f a b = v_x (v_width a)"
    and out: "\<And>a. v_mask b = 0 \<Longrightarrow> int (v_width a) \<le> v_val b \<Longrightarrow> f a b = known 0 (v_width a)"
    and inr: "\<And>a. v_mask b = 0 \<Longrightarrow> v_val b < int (v_width a) \<Longrightarrow>
        f a b = mk_value (g (nat (v_val b)) (v_val a)) (v_width a) (g (nat (v_val b)) (v_mask a))"
    and g: "\<And>k i m. bit (g k m) i \<longleftrightarrow> p k i \<and> bit m (q k i)"
    and wf: "\<And>c d. wf_val (f c d)" and w: "\<And>c d. v_width (f c d) = v_width c"
  shows "refines (f c d) (f a b)"
proof (cases "v_mask b \<noteq> 0")
  case True
  with r show ?thesis by (auto simp: x wf w refines_width)
next
  case False
  then have d: "d = b" using r by (auto intro: refines_defined_eq)
  show ?thesis
  proof (cases "int (v_width a) \<le> v_val b")
    case True
    with False r d show ?thesis by (simp add: out refines_width)
  next
    case out: False
    have "v_width c = v_width a" and i: "\<And>i. \<not> bit (v_mask a) i \<Longrightarrow> \<not> bit (v_mask c) i \<and> bit (v_val c) i = bit (v_val a) i"
      using r(1) by (auto simp: refines_iff)
    with False out show ?thesis
      by (auto simp: d inr refines_iff g)
  qed
qed

interpretation lshift_op: val4_binop v_lshift "\<lambda>a b. a"
proof unfold_locales
  fix c d a b assume "refines c a" "refines d b"
  then show "refines (v_lshift c d) (v_lshift a b)"
    by (rule shift_mono [where f = v_lshift and g = push_bit and p = "\<lambda>k i. k \<le> i" and q = "\<lambda>k i. i - k"])
      (simp_all add: lshift_eq bit_push_bit_iff lshift_trivial)
qed simp_all

interpretation rshift_op: val4_binop v_rshift "\<lambda>a b. a"
proof unfold_locales
  fix c d a b assume "refines c a" "refines d b"
  then show "refines (v_rshift c d) (v_rshift a b)"
    by (rule shift_mono [where f = v_rshift and g = drop_bit and p = "\<lambda>k i. True" and q = "\<lambda>k i. k + i"])
      (simp_all add: rshift_eq bit_drop_bit_eq rshift_trivial)
qed simp_all

text \<open>A value with a known 1 is true whatever its unknown bits are; only a known 0 is false.\<close>

definition truthy :: "val4 \<Rightarrow> bool" where
  "truthy v \<longleftrightarrow> v_val v AND NOT (v_mask v) \<noteq> 0"

definition falsy :: "val4 \<Rightarrow> bool" where
  "falsy v \<longleftrightarrow> v_mask v = 0 \<and> v_val v = 0"

lemma truthy_iff: "truthy v \<longleftrightarrow> (\<exists>i. bit (v_val v) i \<and> \<not> bit (v_mask v) i)"
  by (auto simp: truthy_def bit_eq_zero_iff bit_simps)

lemma truthy_refines: "refines c a \<Longrightarrow> truthy a \<Longrightarrow> truthy c"
  by (auto simp: truthy_iff refines_iff)

lemma falsy_refines: "refines c a \<Longrightarrow> falsy a \<Longrightarrow> falsy c"
  using refines_defined_eq by (auto simp: falsy_def)

lemma truthy_not_falsy: "truthy v \<Longrightarrow> \<not> falsy v"
  by (auto simp: truthy_def falsy_def)

lemma truthy_defined: "v_mask v = 0 \<Longrightarrow> truthy v \<longleftrightarrow> v_val v \<noteq> 0"
  by (simp add: truthy_def)

lemma logical_ops_eq:
  "logical_and a b = (if falsy a \<or> falsy b then known 0 1 else if truthy a \<and> truthy b then known 1 1 else v_x 1)"
  "logical_or a b = (if truthy a \<or> truthy b then known 1 1 else if falsy a \<and> falsy b then known 0 1 else v_x 1)"
  "logical_not a = (if truthy a then known 0 1 else if falsy a then known 1 1 else v_x 1)"
  "reduce_or a = (if truthy a then known 1 1 else if falsy a then known 0 1 else v_x 1)"
  by (auto simp: logical_and_def logical_or_def logical_not_def reduce_or_def truthy_def falsy_def bool_val_def)

interpretation land_op: val4_binop logical_and "\<lambda>a b. 1"
  by unfold_locales
    (auto simp: logical_ops_eq dest: truthy_refines falsy_refines truthy_not_falsy)

interpretation lor_op: val4_binop logical_or "\<lambda>a b. 1"
  by unfold_locales
    (auto simp: logical_ops_eq dest: truthy_refines falsy_refines truthy_not_falsy)

interpretation lnot_op: val4_unop logical_not "\<lambda>w. 1"
  by unfold_locales
    (auto simp: logical_ops_eq dest: truthy_refines falsy_refines truthy_not_falsy)

interpretation red_or_op: val4_unop reduce_or "\<lambda>w. 1"
  by unfold_locales
    (auto simp: logical_ops_eq dest: truthy_refines falsy_refines truthy_not_falsy)

lemma cmp_eq_mono:
  assumes r: "refines c a" "refines d b" and e: "e = CmpEq \<or> e = CmpNe"
  shows "refines (v_cmp c d e) (v_cmp a b e)"
proof (cases "(v_val a XOR v_val b) AND NOT (v_mask a) AND NOT (v_mask b) \<noteq> 0")
  case True
  then obtain i where "bit (v_val a) i \<noteq> bit (v_val b) i" "\<not> bit (v_mask a) i" "\<not> bit (v_mask b) i"
    by (auto simp: bit_eq_zero_iff bit_simps)
  with r have "bit (v_val c) i \<noteq> bit (v_val d) i" "\<not> bit (v_mask c) i" "\<not> bit (v_mask d) i"
    by (auto simp: refines_iff)
  then have "(v_val c XOR v_val d) AND NOT (v_mask c) AND NOT (v_mask d) \<noteq> 0"
    by (auto simp: bit_eq_zero_iff bit_simps)
  with True e show ?thesis by (auto simp: v_cmp_def Let_def)
next
  case False
  show ?thesis
  proof (cases "v_mask a \<noteq> 0 \<or> v_mask b \<noteq> 0")
    case True
    with False e have "v_cmp a b e = v_x 1" by (auto simp: v_cmp_def Let_def)
    then show ?thesis by auto
  next
    case False
    with r have "c = a" "d = b" by (auto intro: refines_defined_eq)
    then show ?thesis by simp
  qed
qed

lemma cmp_mono:
  assumes "refines c a" "refines d b"
  shows "refines (v_cmp c d e) (v_cmp a b e)"
proof (cases "e = CmpEq \<or> e = CmpNe")
  case True
  with assms show ?thesis by (intro cmp_eq_mono)
next
  case False
  with assms show ?thesis
    by (intro strict_binop_mono [where f = "\<lambda>a b. v_cmp a b e" and wd = "\<lambda>a b. 1"]) (auto simp: v_cmp_def)
qed

interpretation cmp_op: val4_binop "\<lambda>a b. v_cmp a b e" "\<lambda>a b. 1" for e
  by unfold_locales (simp_all add: cmp_mono)

lemma strict_unop_mono:
  assumes x: "\<And>a. v_mask a \<noteq> 0 \<Longrightarrow> g a = v_x (ud (v_width a))"
    and wf: "\<And>a. wf_val (g a)" and w: "\<And>a. v_width (g a) = ud (v_width a)" and r: "refines c a"
  shows "refines (g c) (g a)"
proof (cases "v_mask a \<noteq> 0")
  case True
  with r show ?thesis by (auto simp: x wf w refines_width)
next
  case False
  with r have "c = a" by (auto intro: refines_defined_eq)
  then show ?thesis by simp
qed

interpretation red_xor_op: val4_unop reduce_xor "\<lambda>w. 1"
  by unfold_locales
    (simp_all, rule strict_unop_mono [where g = reduce_xor and ud = "\<lambda>w. 1"], auto simp: reduce_xor_def)

definition some_known_zero :: "val4 \<Rightarrow> bool" where
  "some_known_zero a \<longleftrightarrow> (\<exists>i < v_width a. \<not> bit (v_mask a) i \<and> \<not> bit (v_val a) i)"

lemma reduce_and_eq:
  assumes "wf_val a"
  shows "reduce_and a = (if some_known_zero a then known 0 1 else if v_mask a = 0 then known 1 1 else v_x 1)"
proof -
  have "v_val a AND (width_mask (v_width a) AND NOT (v_mask a)) = width_mask (v_width a) AND NOT (v_mask a)
      \<longleftrightarrow> \<not> some_known_zero a"
    unfolding some_known_zero_def
    by (auto simp: bit_simps bit_eq_iff intro!: int_eqI dest!: fun_cong)
  moreover have "v_mask a = 0 \<Longrightarrow> v_val a AND width_mask (v_width a) = width_mask (v_width a)
      \<longleftrightarrow> \<not> some_known_zero a"
    unfolding some_known_zero_def
    by (auto simp: bit_simps bit_eq_iff)
  ultimately show ?thesis
    by (auto simp: reduce_and_def Let_def bool_val_def)
qed

lemma some_known_zero_refines: "refines c a \<Longrightarrow> some_known_zero a \<Longrightarrow> some_known_zero c"
  by (auto simp: some_known_zero_def refines_iff)

lemma reduce_and_mono: "wf_val c \<Longrightarrow> wf_val a \<Longrightarrow> refines c a \<Longrightarrow> refines (reduce_and c) (reduce_and a)"
  by (auto simp: reduce_and_eq dest: some_known_zero_refines refines_defined_eq)

interpretation red_and_op: val4_unop reduce_and "\<lambda>w. 1"
  by unfold_locales (simp_all add: reduce_and_mono)

text \<open>The negated reductions are compositions of two operators.\<close>

lemma unop_comp:
  assumes "val4_unop g ud" "val4_unop h ue"
  shows "val4_unop (\<lambda>a. h (g a)) (\<lambda>w. ue (ud w))"
  using assms unfolding val4_unop_def by auto

interpretation red_nand_op: val4_unop reduce_nand "\<lambda>w. 1"
  unfolding reduce_nand_def
  by (rule unop_comp [OF red_and_op.val4_unop_axioms invert_op.val4_unop_axioms])

interpretation red_nor_op: val4_unop reduce_nor "\<lambda>w. 1"
  unfolding reduce_nor_def
  by (rule unop_comp [OF red_or_op.val4_unop_axioms invert_op.val4_unop_axioms])

interpretation red_xnor_op: val4_unop reduce_xnor "\<lambda>w. 1"
  unfolding reduce_xnor_def
  by (rule unop_comp [OF red_xor_op.val4_unop_axioms invert_op.val4_unop_axioms])

end
