(* ===== verification/Value4_Bits.thy ===== *)
theory Value4_Bits
  imports Value4_Order
begin

text \<open>
  Selection, insertion, concatenation, replication and chunk reversal of \<open>Value\<close>, against lists
  of bits. \<open>to_bits\<close> is the abstraction function: the bits of a value, most significant first,
  as \<open>__str__\<close> prints them. Each operation on the pair of integers is shown to be the list
  operation of the same name.
\<close>

section \<open>The abstraction function\<close>

lemma length_to_bits [simp]: "length (to_bits v) = v_width v"
  by (simp add: to_bits_def)

lemma to_bits_nth: "i < v_width v \<Longrightarrow> to_bits v ! i = bit_at v (v_width v - 1 - i)"
  by (simp add: to_bits_def rev_nth)

lemma to_bits_inject:
  assumes "wf_val a" "wf_val b" "to_bits a = to_bits b"
  shows "a = b"
proof (rule bit_at_eqI)
  show w: "v_width a = v_width b"
    using assms(3) by (metis length_to_bits)
  show "bit_at a i = bit_at b i" if "i < v_width a" for i
    using assms(3) to_bits_nth [of "v_width a - 1 - i" a] to_bits_nth [of "v_width a - 1 - i" b] that w
    by simp
qed (use assms in auto)

lemma bit_at_out: "wf_val v \<Longrightarrow> v_width v \<le> i \<Longrightarrow> bit_at v i = B0"
  by (auto simp: bit_at_def dest: wf_valD)

section \<open>Selecting and replacing bits\<close>

lemma drop_bit_and_1: "drop_bit n (x::int) AND 1 = (if bit x n then 1 else 0)"
  by (simp add: bit_iff_odd_drop_bit and_one_eq odd_iff_mod_2_eq_one)

lemma bit_at_get_bit:
  "bit_at (get_bit v i) 0 = (if 0 \<le> i \<and> i < int (v_width v) then bit_at v (nat i) else BX)"
  by (auto simp: get_bit_def bit_at_def drop_bit_and_1)

text \<open>
  The positions of \<open>v[start:stop]\<close> that fall outside the value, as the loop-free computation of
  the source gathers them.
\<close>

lemma bit_out_of_range_mask:
  fixes lsb :: int and w W :: nat
  defines "full \<equiv> push_bit w 1 - 1 :: int"
  defines "oor1 \<equiv> (if lsb + int w > int W
       then full AND NOT (push_bit (nat (max 0 (int W - lsb))) 1 - 1) else 0)"
  shows "bit (if lsb < 0 then oor1 OR (push_bit (nat (min (int w) (- lsb))) 1 - 1) else oor1) i
     \<longleftrightarrow> i < w \<and> (lsb + int i < 0 \<or> int W \<le> lsb + int i)"
proof -
  have "bit oor1 i \<longleftrightarrow> i < w \<and> int W \<le> lsb + int i"
    unfolding oor1_def full_def width_mask_def [symmetric]
    by (cases "lsb + int w > int W") (auto simp: bit_and_iff bit_not_iff)
  moreover have "bit (push_bit (nat (min (int w) (- lsb))) 1 - 1 :: int) i \<longleftrightarrow> i < w \<and> lsb + int i < 0"
    unfolding width_mask_def [symmetric] by auto
  ultimately show ?thesis by (auto simp: bit_or_iff)
qed

lemma bit_shifted:
  fixes x :: int
  assumes "0 \<le> lsb + int i"
  shows "bit (if 0 \<le> lsb then drop_bit (nat lsb) x else push_bit (nat (- lsb)) x) i = bit x (nat (lsb + int i))"
proof (cases "0 \<le> lsb")
  case True
  then have "nat (lsb + int i) = nat lsb + i" by linarith
  with True show ?thesis by (simp add: bit_drop_bit_eq)
next
  case False
  with assms have "nat (lsb + int i) = i - nat (- lsb)" "nat (- lsb) \<le> i" by linarith+
  with False show ?thesis by (simp add: bit_push_bit_iff)
qed

lemma bit_at_get_range:
  assumes "i < nat (\<bar>m - l\<bar> + 1)"
  shows "bit_at (get_range v m l) i =
     (if 0 \<le> min m l + int i \<and> min m l + int i < int (v_width v)
      then bit_at v (nat (min m l + int i)) else BX)"
proof -
  let ?w = "nat (\<bar>m - l\<bar> + 1)" and ?l = "min m l"
  define sh where "sh = (\<lambda>x::int. if 0 \<le> ?l then drop_bit (nat ?l) x else push_bit (nat (- ?l)) x)"
  define oor where "oor = (let oor1 = (if ?l + int ?w > int (v_width v)
                  then (push_bit ?w 1 - 1) AND NOT (push_bit (nat (max 0 (int (v_width v) - ?l))) 1 - 1) else (0::int))
      in if ?l < 0 then oor1 OR (push_bit (nat (min (int ?w) (- ?l))) 1 - 1) else oor1)"
  have w: "nat ((if m < l then l else m) - min m l + 1) = ?w"
    and l: "(if m < l then m else l) = ?l" by auto
  have gr: "get_range v m l = mk_value (sh (v_val v) AND NOT oor AND (push_bit ?w 1 - 1)) ?w
      ((sh (v_mask v) OR oor) AND (push_bit ?w 1 - 1))"
    unfolding get_range_def Let_def l w sh_def oor_def ..
  have full: "bit (push_bit ?w 1 - 1 :: int) i"
    using assms unfolding width_mask_def [symmetric] by simp
  have o: "bit oor i \<longleftrightarrow> ?l + int i < 0 \<or> int (v_width v) \<le> ?l + int i"
    unfolding oor_def Let_def bit_out_of_range_mask using assms by blast
  have b: "bit (sh x) i = bit x (nat (?l + int i))" if "0 \<le> ?l + int i" for x
    unfolding sh_def by (rule bit_shifted [OF that])
  have iw: "i < ?w" by (rule assms)
  show ?thesis
  proof (cases "0 \<le> ?l + int i \<and> ?l + int i < int (v_width v)")
    case True
    then have no: "\<not> bit oor i" and b': "\<And>x. bit (sh x) i = bit x (nat (?l + int i))"
      using o b by auto
    show ?thesis
      unfolding bit_at_def gr mk_value_sel bit_and_iff bit_or_iff bit_not_iff
      using True no full iw by (simp only: b') auto
  next
    case False
    then have "bit oor i" using o by linarith
    then have "bit (v_mask (get_range v m l)) i"
      unfolding gr mk_value_sel bit_and_iff bit_or_iff using full iw by blast
    with False show ?thesis by (simp only: bit_at_def if_True if_False)
  qed
qed

lemma to_bits_get_range:
  assumes "0 \<le> l" "l \<le> m" "m < int (v_width v)"
  shows "to_bits (get_range v m l) = take (nat (m - l + 1)) (drop (v_width v - 1 - nat m) (to_bits v))"
proof (rule nth_equalityI)
  have w: "v_width (get_range v m l) = nat (m - l + 1)"
    using assms by simp
  show len: "length (to_bits (get_range v m l)) = length (take (nat (m - l + 1)) (drop (v_width v - 1 - nat m) (to_bits v)))"
    using assms by (simp add: w)
  fix i assume "i < length (to_bits (get_range v m l))"
  then have i: "i < nat (m - l + 1)" using assms by simp
  have "to_bits (get_range v m l) ! i = bit_at (get_range v m l) (nat (m - l + 1) - 1 - i)"
    using i w by (simp add: to_bits_nth)
  also have "\<dots> = bit_at v (nat (l + int (nat (m - l + 1) - 1 - i)))"
    using assms i by (subst bit_at_get_range) auto
  also have "nat (l + int (nat (m - l + 1) - 1 - i)) = nat m - i"
    using assms i by (simp add: of_nat_diff nat_diff_distrib)
  also have "\<dots> = v_width v - 1 - (v_width v - 1 - nat m + i)"
    using assms by simp
  also have "bit_at v \<dots> = take (nat (m - l + 1)) (drop (v_width v - 1 - nat m) (to_bits v)) ! i"
    using assms i by (subst nth_take) (auto simp: nth_drop to_bits_nth)
  finally show "to_bits (get_range v m l) ! i = take (nat (m - l + 1)) (drop (v_width v - 1 - nat m) (to_bits v)) ! i" .
qed

text \<open>Writing a range: the bits of the range come from the part, the others are kept.\<close>

lemma bit_insert_range:
  fixes x p :: int
  shows "bit ((x AND NOT (push_bit k (width_mask w))) OR push_bit k (p AND width_mask w)) i =
     (if k \<le> i \<and> i < k + w then bit p (i - k) else bit x i)"
  unfolding bit_or_iff bit_and_iff bit_not_iff bit_push_bit_iff bit_width_mask by auto

lemma bit_at_mk_value:
  assumes "i < w" "\<And>j. bit v j \<Longrightarrow> \<not> bit m j"
  shows "bit_at (mk_value v w m) i = (if bit m i then BX else if bit v i then B1 else B0)"
  using assms by (simp add: bit_at_def)

lemma bit_at_set_range_nonneg:
  assumes "i < v_width v" "0 \<le> l"
  shows "bit_at (set_range v m l p) i =
     (if l \<le> int i \<and> int i \<le> m then bit_at p (nat (int i - l)) else bit_at v i)"
proof (cases "m < l")
  case True
  then have "\<not> (l \<le> int i \<and> int i \<le> m)" by linarith
  moreover have "set_range v m l p = v" using True assms by (simp add: set_range_def)
  ultimately show ?thesis by (simp only: if_False)
next
  case False
  have r: "nat l \<le> i \<and> i < nat l + nat (m - l + 1) \<longleftrightarrow> l \<le> int i \<and> int i \<le> m"
    using assms False by linarith
  have d: "i - nat l = nat (int i - l)" using assms by linarith
  have e: "set_range v m l p = mk_value
      ((v_val v AND NOT (push_bit (nat l) (width_mask (nat (m - l + 1))))) OR push_bit (nat l) (v_val p AND width_mask (nat (m - l + 1))))
      (v_width v)
      ((v_mask v AND NOT (push_bit (nat l) (width_mask (nat (m - l + 1))))) OR push_bit (nat l) (v_mask p AND width_mask (nat (m - l + 1))))"
    using assms False by (simp add: set_range_def Let_def)
  show ?thesis
    unfolding bit_at_def e mk_value_sel bit_insert_range r d using assms(1) by simp
qed

lemma bit_at_set_range:
  assumes "wf_val p" "i < v_width v"
  shows "bit_at (set_range v m l p) i =
     (if l \<le> int i \<and> int i \<le> m then bit_at p (nat (int i - l)) else bit_at v i)"
proof (cases "0 \<le> l")
  case True
  with assms show ?thesis by (simp add: bit_at_set_range_nonneg)
next
  case False
  define q where "q = mk_value (drop_bit (nat (- l)) (v_val p)) (nat (max (int (v_width p) + l) 1))
      (drop_bit (nat (- l)) (v_mask p))"
  have "set_range v m l p = set_range v m 0 q"
    using False by (simp add: set_range_def q_def)
  moreover have "bit_at q j = bit_at p (nat (int j - l))" for j
  proof -
    have "nat (- l) + j = nat (int j - l)" using False by linarith
    moreover have "bit_at p (nat (int j - l)) = B0" if "\<not> j < nat (max (int (v_width p) + l) 1)"
      by (rule bit_at_out) (use assms False that in auto)
    ultimately show ?thesis
      using wf_valD(3) [OF assms(1), of "nat (int j - l)"]
      unfolding bit_at_def q_def mk_value_sel bit_drop_bit_eq o_def
      by (auto split: if_splits)
  qed
  ultimately show ?thesis
    using assms False bit_at_set_range_nonneg [of i v 0 m q] by simp
qed

lemma get_set_range:
  assumes "wf_val p" "0 \<le> l" "l \<le> m" "m < int (v_width v)"
  shows "get_range (set_range v m l p) m l = resize p (nat (m - l + 1))"
proof (rule bit_at_eqI)
  show w: "v_width (get_range (set_range v m l p) m l) = v_width (resize p (nat (m - l + 1)))"
    using assms by simp
  fix i assume "i < v_width (get_range (set_range v m l p) m l)"
  then have i: "i < nat (m - l + 1)" using w by simp
  have p: "nat (l + int i) < v_width v" "l \<le> int (nat (l + int i))" "int (nat (l + int i)) \<le> m"
    "nat (int (nat (l + int i)) - l) = i"
    using assms i by linarith+
  have "bit_at (get_range (set_range v m l p) m l) i = bit_at (set_range v m l p) (nat (l + int i))"
    using assms i by (subst bit_at_get_range) auto
  also have "\<dots> = bit_at p i"
    using assms p by (subst bit_at_set_range) auto
  also have "\<dots> = bit_at (resize p (nat (m - l + 1))) i"
    using i wf_valD[OF assms(1), of i] by (auto simp: bit_at_def resize_def)
  finally show "bit_at (get_range (set_range v m l p) m l) i = bit_at (resize p (nat (m - l + 1))) i" .
qed simp_all

section \<open>Concatenation and replication\<close>

text \<open>One step of the loop of \<open>concat\<close>, as a value: the accumulator shifted up, the part below it.\<close>

definition glue :: "val4 \<Rightarrow> val4 \<Rightarrow> val4" where
  "glue a b = mk_value (push_bit (v_width b) (v_val a) OR v_val b) (v_width a + v_width b)
     (push_bit (v_width b) (v_mask a) OR v_mask b)"

lemma wf_glue [simp]: "wf_val (glue a b)"
  and width_glue [simp]: "v_width (glue a b) = v_width a + v_width b"
  by (simp_all add: glue_def)

lemma bit_glue_raw:
  assumes "wf_val b"
  shows "bit (push_bit (v_width b) x OR v_val b) i = (if i < v_width b then bit (v_val b) i else bit x (i - v_width b))"
    and "bit (push_bit (v_width b) x OR v_mask b) i = (if i < v_width b then bit (v_mask b) i else bit x (i - v_width b))"
  using wf_valD [OF assms, of i] by (auto simp: bit_or_iff bit_push_bit_iff)

lemma glue_sel:
  assumes "wf_val a" "wf_val b"
  shows "v_val (glue a b) = push_bit (v_width b) (v_val a) OR v_val b"
    and "v_mask (glue a b) = push_bit (v_width b) (v_mask a) OR v_mask b"
proof -
  note ab = wf_valD [OF assms(1), of "i - v_width b" for i] wf_valD [OF assms(2)]
  show "v_val (glue a b) = push_bit (v_width b) (v_val a) OR v_val b"
    by (rule int_eqI, unfold glue_def mk_value_sel bit_glue_raw [OF assms(2)])
      (use ab in force)
  show "v_mask (glue a b) = push_bit (v_width b) (v_mask a) OR v_mask b"
    by (rule int_eqI, unfold glue_def mk_value_sel bit_glue_raw [OF assms(2)])
      (use ab in force)
qed

lemma bit_at_glue:
  assumes "wf_val a" "wf_val b"
  shows "bit_at (glue a b) i = (if i < v_width b then bit_at b i else bit_at a (i - v_width b))"
  unfolding bit_at_def glue_sel [OF assms] bit_glue_raw [OF assms(2)] by simp

lemma to_bits_glue:
  assumes "wf_val a" "wf_val b"
  shows "to_bits (glue a b) = to_bits a @ to_bits b"
proof (rule nth_equalityI)
  fix i assume "i < length (to_bits (glue a b))"
  then have i: "i < v_width a + v_width b" by simp
  have d: "v_width a + v_width b - 1 - i - v_width b = v_width a - 1 - i" if "i < v_width a"
    using that by linarith
  show "to_bits (glue a b) ! i = (to_bits a @ to_bits b) ! i"
  proof (cases "i < v_width a")
    case True
    then have "\<not> v_width a + v_width b - 1 - i < v_width b" by linarith
    with True i show ?thesis
      by (simp add: to_bits_nth nth_append bit_at_glue [OF assms] d)
  next
    case False
    then have "v_width a + v_width b - 1 - i < v_width b"
      "v_width a + v_width b - 1 - i = v_width b - 1 - (i - v_width a)" "i - v_width a < v_width b"
      using i by linarith+
    with False i show ?thesis
      by (simp add: to_bits_nth nth_append bit_at_glue [OF assms])
  qed
qed simp

lemma foldl_concat_step:
  assumes "wf_val a" "\<forall>u\<in>set us. wf_val u"
  shows "foldl concat_step (v_val a, v_mask a, v_width a) us =
     (let r = foldl glue a us in (v_val r, v_mask r, v_width r))"
  using assms
proof (induction us arbitrary: a)
  case (Cons u us)
  have "concat_step (v_val a, v_mask a, v_width a) u = (v_val (glue a u), v_mask (glue a u), v_width (glue a u))"
    using Cons.prems by (simp add: concat_step_def glue_sel)
  with Cons show ?case by (simp del: width_glue)
qed (simp add: Let_def)

lemma wf_foldl_glue: "wf_val a \<Longrightarrow> wf_val (foldl glue a us)"
  by (induction us arbitrary: a) auto

lemma v_concat_eq:
  assumes "wf_val a" "\<forall>u\<in>set us. wf_val u"
  shows "v_concat a us = foldl glue a us"
  using mk_value_wf_id [OF wf_foldl_glue [OF assms(1)]]
  by (simp add: v_concat_def foldl_concat_step [OF assms] Let_def)

lemma to_bits_v_concat:
  assumes "wf_val a" "\<forall>u\<in>set us. wf_val u"
  shows "to_bits (v_concat a us) = concat (map to_bits (a # us))"
  unfolding v_concat_eq [OF assms] using assms
  by (induction us arbitrary: a) (simp_all add: to_bits_glue)

lemma wf_v_concat [simp, wf_intros]: "wf_val (v_concat a us)"
  by (simp add: v_concat_def split: prod.split)

lemma width_v_concat [simp, width_simps]: "v_width (v_concat a us) = sum_list (map v_width (a # us))"
proof -
  have "snd (snd (foldl concat_step (rv, rm, w) us)) = w + sum_list (map v_width us)" for rv rm w
    by (induction us arbitrary: rv rm w) (auto simp: concat_step_def)
  then show ?thesis by (simp add: v_concat_def split: prod.split) (metis snd_conv)
qed

lemma replicate_loop_glue:
  assumes "wf_val a" "wf_val v"
  shows "replicate_loop n v (v_val a) (v_mask a) =
     (let r = foldl glue a (replicate n v) in (v_val r, v_mask r))"
  using assms
proof (induction n arbitrary: a)
  case (Suc n)
  then have "replicate_loop (Suc n) v (v_val a) (v_mask a) =
      replicate_loop n v (v_val (glue a v)) (v_mask (glue a v))"
    by (simp add: glue_sel)
  then show ?case using Suc by (simp del: width_glue)
qed (simp add: Let_def)

lemma wf_v_replicate [simp, wf_intros]: "wf_val (v_replicate v n)"
  and width_v_replicate [simp, width_simps]: "v_width (v_replicate v n) = v_width v * n"
  by (simp_all add: v_replicate_def split: prod.split)

lemma width_foldl_glue: "v_width (foldl glue a us) = v_width a + sum_list (map v_width us)"
  by (induction us arbitrary: a) auto

lemma to_bits_foldl_glue:
  "wf_val a \<Longrightarrow> \<forall>u\<in>set us. wf_val u \<Longrightarrow> to_bits (foldl glue a us) = to_bits a @ concat (map to_bits us)"
  by (induction us arbitrary: a) (simp_all add: to_bits_glue)

lemma to_bits_v_replicate:
  assumes "wf_val v"
  shows "to_bits (v_replicate v n) = concat (replicate n (to_bits v))"
proof -
  define e where "e = known 0 0"
  have e: "wf_val e" "v_val e = 0" "v_mask e = 0" "v_width e = 0" "to_bits e = []"
    by (simp_all add: e_def known_val to_bits_def)
  let ?r = "foldl glue e (replicate n v)"
  have "v_width ?r = v_width v * n"
    by (simp add: width_foldl_glue e sum_list_replicate)
  moreover have "replicate_loop n v 0 0 = (v_val ?r, v_mask ?r)"
    using replicate_loop_glue [OF e(1) assms, of n] e by (simp add: Let_def)
  ultimately have "v_replicate v n = ?r"
    using mk_value_wf_id [OF wf_foldl_glue [OF e(1), of "replicate n v"]]
    by (simp add: v_replicate_def)
  then show ?thesis
    using assms to_bits_foldl_glue [OF e(1), of "replicate n v"] e by simp
qed

section \<open>Streaming reversal\<close>

text \<open>A list cut from the left in pieces of \<open>n\<close>; the last piece may be shorter.\<close>

function chop :: "nat \<Rightarrow> 'a list \<Rightarrow> 'a list list" where
  "chop n xs = (if n = 0 \<or> xs = [] then [] else take n xs # chop n (drop n xs))"
  by pat_completeness auto
termination
  by (relation "measure (\<lambda>(n, xs). length xs)") auto

declare chop.simps [simp del]

lemma to_bits_empty_iff: "to_bits v = [] \<longleftrightarrow> v_width v = 0"
  by (metis length_0_conv length_to_bits)

lemma stream_chunks_bits:
  assumes "0 < n" "pos \<le> v_width v"
  shows "map to_bits (stream_chunks v n pos) = chop n (drop (v_width v - pos) (to_bits v))"
  using assms(2)
proof (induction pos rule: less_induct)
  case (less pos)
  show ?case
  proof (cases "pos = 0")
    case True
    then show ?thesis
      using assms(1) by (simp add: stream_chunks.simps [of v n 0] chop.simps [of n "[]"])
  next
    case False
    let ?bs = "drop (v_width v - pos) (to_bits v)"
    have ne: "?bs \<noteq> []" using False less.prems by simp
    have lo: "0 \<le> int (pos - n)" "int (pos - n) \<le> int pos - 1" "int pos - 1 < int (v_width v)"
      using False assms(1) less.prems by linarith+
    have w: "nat (int pos - 1 - int (pos - n) + 1) = min n pos"
      "v_width v - 1 - nat (int pos - 1) = v_width v - pos"
      using False less.prems by auto
    have hd: "to_bits (get_range v (int pos - 1) (int (pos - n))) = take n ?bs"
      unfolding to_bits_get_range [OF lo] w using less.prems by (auto simp: min_def)
    have tl: "drop n ?bs = drop (v_width v - (pos - n)) (to_bits v)"
    proof (cases "n \<le> pos")
      case True
      then have "n + (v_width v - pos) = v_width v - (pos - n)" using less.prems by linarith
      then show ?thesis by simp
    next
      case False
      then show ?thesis by simp
    qed
    have "map to_bits (stream_chunks v n (pos - n)) = chop n (drop n ?bs)"
      unfolding tl using False assms(1) less.prems by (intro less.IH) auto
    then show ?thesis
      using False assms(1) ne hd
      by (subst stream_chunks.simps, subst chop.simps) (simp add: Let_def)
  qed
qed

lemma wf_stream_chunks: "u \<in> set (stream_chunks v n pos) \<Longrightarrow> wf_val u"
  by (induction v n pos rule: stream_chunks.induct)
    (subst (asm) stream_chunks.simps, auto simp: Let_def split: if_splits)

lemma stream_chunks_empty_iff: "0 < n \<Longrightarrow> stream_chunks v n pos = [] \<longleftrightarrow> pos = 0"
  by (subst stream_chunks.simps) (simp add: Let_def)

lemma stream_reverse_bits:
  assumes "0 < s" "0 < v_width v"
  shows "\<exists>r. stream_reverse v s = Inr r \<and> wf_val r
     \<and> to_bits r = concat (rev (chop (nat s) (to_bits v)))"
proof -
  let ?cs = "stream_chunks v (nat s) (v_width v)"
  have cs: "map to_bits ?cs = chop (nat s) (to_bits v)"
    using assms stream_chunks_bits [of "nat s" "v_width v" v] by simp
  have ne: "?cs \<noteq> []"
    using assms by (simp add: stream_chunks_empty_iff)
  have wf: "\<forall>u\<in>set ?cs. wf_val u"
    using wf_stream_chunks by blast
  show ?thesis
  proof (cases "length ?cs = 1")
    case True
    then obtain c where c: "?cs = [c]" by (auto simp: length_Suc_conv)
    then have "chop (nat s) (to_bits v) = [to_bits c]" using cs by simp
    then show ?thesis using assms(1) c wf by (simp add: stream_reverse_def)
  next
    case False
    have r: "rev ?cs = last ?cs # tl (rev ?cs)"
      using ne by (metis hd_rev list.collapse rev_is_Nil_conv)
    then have w': "wf_val (last ?cs)" "\<forall>u\<in>set (tl (rev ?cs)). wf_val u"
      using wf ne last_in_set by (auto dest: list.set_sel(2) [rotated] simp: ne)
    have "stream_reverse v s = Inr (v_concat (last ?cs) (tl (rev ?cs)))"
      using assms(1) False ne by (simp add: stream_reverse_def Let_def)
    moreover have "to_bits (v_concat (last ?cs) (tl (rev ?cs))) = concat (rev (chop (nat s) (to_bits v)))"
      unfolding to_bits_v_concat [OF w'] r [symmetric] rev_map [symmetric] cs ..
    ultimately show ?thesis by simp
  qed
qed

lemma chop_append:
  "0 < n \<Longrightarrow> length xs = n \<Longrightarrow> chop n (xs @ ys) = xs # chop n ys"
  by (subst chop.simps) auto

lemma chop_concat:
  "0 < n \<Longrightarrow> \<forall>x\<in>set xss. length x = n \<Longrightarrow> chop n (concat xss) = xss"
  by (induction xss) (simp_all add: chop.simps [of n "[]"] chop_append)

lemma chop_lengths:
  assumes "n dvd length xs" "x \<in> set (chop n xs)"
  shows "length x = n"
  using assms
proof (induction n xs rule: chop.induct)
  case (1 n xs)
  show ?case
  proof (cases "n = 0 \<or> xs = []")
    case False
    then have "n \<le> length xs" using 1(2) by (auto intro: dvd_imp_le)
    moreover have "n dvd length (drop n xs)" using 1(2) calculation by (simp add: dvd_diff_nat)
    moreover have "x = take n xs \<or> x \<in> set (chop n (drop n xs))"
      using 1(3) False by (subst (asm) chop.simps) auto
    ultimately show ?thesis using 1(1) [OF False] by auto
  qed (use 1(3) in \<open>simp add: chop.simps [of n xs]\<close>)
qed

lemma concat_chop: "0 < n \<Longrightarrow> concat (chop n xs) = xs"
  by (induction n xs rule: chop.induct) (subst chop.simps, simp)

lemma stream_reverse_twice:
  assumes "wf_val v" "0 < s" "0 < v_width v" "nat s dvd v_width v"
    and "stream_reverse v s = Inr r"
  shows "stream_reverse r s = Inr v"
proof -
  have r: "wf_val r" "to_bits r = concat (rev (chop (nat s) (to_bits v)))"
    using stream_reverse_bits [OF assms(2,3)] assms(5) by auto
  have len: "\<forall>x\<in>set (rev (chop (nat s) (to_bits v))). length x = nat s"
    using chop_lengths [of "nat s" "to_bits v"] assms(4) by simp
  have "length (to_bits r) = length (concat (chop (nat s) (to_bits v)))"
    by (simp add: r length_concat rev_map [symmetric])
  then have w: "v_width r = v_width v"
    using assms(2) by (simp add: concat_chop)
  obtain q where q: "stream_reverse r s = Inr q" "wf_val q"
    "to_bits q = concat (rev (chop (nat s) (to_bits r)))"
    using stream_reverse_bits [OF assms(2), of r] assms(3) w by auto
  have "to_bits q = to_bits v"
    using assms(2) by (simp add: q r chop_concat [OF _ len] concat_chop)
  then show ?thesis
    using to_bits_inject [OF q(2) assms(1)] q(1) by simp
qed

end
