(* ===== verification/Py_Text.thy ===== *)
theory Py_Text
  imports Prelude
begin

text \<open>
  The few operations of Python's \<open>str\<close> and \<open>int\<close> that the modelled code calls, on ASCII text:
  \<open>strip\<close>, \<open>lower\<close>, \<open>isdigit\<close>, \<open>replace("_", "")\<close>, \<open>join\<close>, and \<open>int(text, base)\<close> for the
  bases 2, 8, 10 and 16, which raises \<open>ValueError\<close> on anything that is not a number.
\<close>

definition ord_char :: "char \<Rightarrow> nat" where
  "ord_char c = of_char c"

definition is_space :: "char \<Rightarrow> bool" where
  "is_space c \<longleftrightarrow> ord_char c = 32 \<or> (9 \<le> ord_char c \<and> ord_char c \<le> 13) \<or> (28 \<le> ord_char c \<and> ord_char c \<le> 31)"

definition strip :: "string \<Rightarrow> string" where
  "strip s = rev (dropWhile is_space (rev (dropWhile is_space s)))"

definition lower_char :: "char \<Rightarrow> char" where
  "lower_char c = (if 65 \<le> ord_char c \<and> ord_char c \<le> 90 then char_of (ord_char c + 32) else c)"

definition lower :: "string \<Rightarrow> string" where
  "lower s = map lower_char s"

definition is_digit :: "char \<Rightarrow> bool" where
  "is_digit c \<longleftrightarrow> 48 \<le> ord_char c \<and> ord_char c \<le> 57"

definition isdigit :: "string \<Rightarrow> bool" where
  "isdigit s \<longleftrightarrow> s \<noteq> [] \<and> list_all is_digit s"

definition remove_underscores :: "string \<Rightarrow> string" where
  "remove_underscores s = filter (\<lambda>c. c \<noteq> CHR ''_'') s"

fun join_with :: "string \<Rightarrow> string list \<Rightarrow> string" where
  "join_with sep [] = []"
| "join_with sep [s] = s"
| "join_with sep (s # ss) = s @ sep @ join_with sep ss"

text \<open>The value of one digit in base up to 16.\<close>

definition digit_val :: "char \<Rightarrow> nat option" where
  "digit_val c =
     (if is_digit c then Some (ord_char c - 48)
      else if 97 \<le> ord_char c \<and> ord_char c \<le> 102 then Some (ord_char c - 87)
      else if 65 \<le> ord_char c \<and> ord_char c \<le> 70 then Some (ord_char c - 55)
      else None)"

definition base_digit :: "nat \<Rightarrow> char \<Rightarrow> nat option" where
  "base_digit b c = (case digit_val c of Some d \<Rightarrow> if d < b then Some d else None | None \<Rightarrow> None)"

fun digits_val :: "nat \<Rightarrow> string \<Rightarrow> int \<Rightarrow> int option" where
  "digits_val b [] acc = Some acc"
| "digits_val b (c # cs) acc = (case base_digit b c of
     Some d \<Rightarrow> digits_val b cs (acc * int b + int d) | None \<Rightarrow> None)"

text \<open>\<open>int(text, base)\<close> on text without underscores and without a base prefix.\<close>

definition py_int :: "nat \<Rightarrow> string \<Rightarrow> int res" where
  "py_int b s =
     (let t = strip s;
          neg = (t \<noteq> [] \<and> hd t = CHR ''-'');
          u = (if t \<noteq> [] \<and> (hd t = CHR ''-'' \<or> hd t = CHR ''+'') then tl t else t)
      in if u = [] then Inl ValueError
         else (case digits_val b u 0 of
                 Some n \<Rightarrow> Inr (if neg then - n else n) | None \<Rightarrow> Inl ValueError))"

text \<open>\<open>int(text, 0)\<close>: the base comes from a prefix; a decimal number has no leading zero.\<close>

definition py_int_auto :: "string \<Rightarrow> int res" where
  "py_int_auto s =
     (let t = strip s;
          neg = (t \<noteq> [] \<and> hd t = CHR ''-'');
          u = (if t \<noteq> [] \<and> (hd t = CHR ''-'' \<or> hd t = CHR ''+'') then tl t else t);
          p = lower (take 2 u);
          r = (if p = ''0x'' then (if drop 2 u = [] then None else digits_val 16 (drop 2 u) 0)
               else if p = ''0o'' then (if drop 2 u = [] then None else digits_val 8 (drop 2 u) 0)
               else if p = ''0b'' then (if drop 2 u = [] then None else digits_val 2 (drop 2 u) 0)
               else if u = [] \<or> (hd u = CHR ''0'' \<and> \<not> list_all (\<lambda>c. c = CHR ''0'') u) then None
               else digits_val 10 u 0)
      in case r of Some n \<Rightarrow> Inr (if neg then - n else n) | None \<Rightarrow> Inl ValueError)"

section \<open>Facts\<close>

lemma ord_char_inject: "ord_char c = ord_char d \<longleftrightarrow> c = d"
  by (auto simp: ord_char_def)

lemma length_lower [simp]: "length (lower s) = length s"
  by (simp_all add: lower_def)

lemma digits_val_append:
  "digits_val b (s @ t) acc = (case digits_val b s acc of Some n \<Rightarrow> digits_val b t n | None \<Rightarrow> None)"
  by (induction b s acc rule: digits_val.induct) (auto split: option.split)

lemma isdigit_not_space: "is_digit c \<Longrightarrow> \<not> is_space c"
  by (simp add: is_digit_def is_space_def)

lemma strip_id:
  assumes "s \<noteq> []" "\<not> is_space (hd s)" "\<not> is_space (last s)"
  shows "strip s = s"
proof -
  have "dropWhile is_space s = s"
    using assms by (cases s) auto
  moreover have "dropWhile is_space (rev s) = rev s"
    using assms by (cases s rule: rev_cases) auto
  ultimately show ?thesis by (simp add: strip_def)
qed

lemma strip_all: "list_all (\<lambda>c. \<not> is_space c) s \<Longrightarrow> strip s = s"
  by (cases "s = []") (simp add: strip_def, rule strip_id, auto simp: list_all_iff)

text \<open>Python's \<open>str(n)\<close> for a natural number.\<close>

fun dec_digits :: "nat \<Rightarrow> string" where
  "dec_digits n = (if n < 10 then [char_of (48 + n)] else dec_digits (n div 10) @ [char_of (48 + n mod 10)])"

declare dec_digits.simps [simp del]

lemma digit_char: "d < 10 \<Longrightarrow> ord_char (char_of (48 + d)) = 48 + d"
  by (simp add: ord_char_def)

lemma base_digit_dec [simp]: "d < 10 \<Longrightarrow> base_digit 10 (char_of (48 + d)) = Some d"
  by (simp add: base_digit_def digit_val_def is_digit_def digit_char)

lemma dec_digits_nonempty [simp]: "dec_digits n \<noteq> []"
  by (subst dec_digits.simps) simp

lemma dec_digits_all: "list_all is_digit (dec_digits n)"
proof (induction n rule: dec_digits.induct)
  case (1 n)
  have "is_digit (char_of (48 + n mod 10))"
    by (simp add: is_digit_def digit_char)
  moreover have "is_digit (char_of (48 + n))" if "n < 10"
    using that by (simp add: is_digit_def digit_char)
  ultimately show ?case
    using 1 by (subst dec_digits.simps) simp
qed

lemma digits_val_dec: "digits_val 10 (dec_digits n) 0 = Some (int n)"
proof (induction n rule: dec_digits.induct)
  case (1 n)
  show ?case
  proof (cases "n < 10")
    case False
    then have "digits_val 10 (dec_digits (n div 10)) 0 = Some (int (n div 10))"
      using 1 by simp
    moreover have "int (n div 10) * 10 + int (n mod 10) = int n" by presburger
    ultimately show ?thesis
      using False by (subst dec_digits.simps) (simp add: digits_val_append)
  qed (subst dec_digits.simps, simp)
qed

lemma py_int_dec: "py_int 10 (dec_digits n) = Inr (int n)"
proof -
  have d: "list_all is_digit (dec_digits n)" by (rule dec_digits_all)
  then have s: "strip (dec_digits n) = dec_digits n"
    by (intro strip_all) (auto simp: list_all_iff dest: isdigit_not_space)
  have "is_digit (hd (dec_digits n))" using d by (cases "dec_digits n") auto
  then have "hd (dec_digits n) \<noteq> CHR ''-''" "hd (dec_digits n) \<noteq> CHR ''+''"
    by (auto simp: is_digit_def ord_char_def)
  then show ?thesis by (simp add: py_int_def Let_def s digits_val_dec)
qed

end
