(* ===== verification/Verilog_Literal.thy ===== *)
theory Verilog_Literal
  imports Value4_Bits Py_Text
begin

text \<open>
  Text and 4-state values: \<open>Value.from_verilog\<close>, which reads a Verilog number such as
  \<open>8'hFF\<close>, \<open>4'b10xz\<close> or \<open>-5\<close>, and \<open>Value.__str__\<close> and \<open>Value.to_hex\<close>, which print one.
  Reading back what is printed gives the value.
\<close>

section \<open>Reading\<close>

definition is_xz_char :: "char \<Rightarrow> bool" where
  "is_xz_char c \<longleftrightarrow> c = CHR ''x'' \<or> c = CHR ''z'' \<or> c = CHR ''?''"

fun parse_binary_loop :: "string \<Rightarrow> int \<times> int \<Rightarrow> int \<times> int" where
  "parse_binary_loop [] s = s"
| "parse_binary_loop (c # cs) (v, m) =
     parse_binary_loop cs
       (if c = CHR ''1'' then (push_bit 1 v OR 1, push_bit 1 m)
        else if is_xz_char c then (push_bit 1 v, push_bit 1 m OR 1)
        else (push_bit 1 v, push_bit 1 m))"

definition parse_binary :: "string \<Rightarrow> nat \<Rightarrow> val4" where
  "parse_binary digits w = (case parse_binary_loop (lower digits) (0, 0) of (v, m) \<Rightarrow> mk_value v w m)"

text \<open>The loops of \<open>_parse_hex\<close> (\<open>k = 4\<close>) and \<open>_parse_octal\<close> (\<open>k = 3\<close>).\<close>

fun parse_digits_loop :: "nat \<Rightarrow> string \<Rightarrow> int \<times> int \<Rightarrow> (int \<times> int) res" where
  "parse_digits_loop k [] s = Inr s"
| "parse_digits_loop k (c # cs) (v, m) =
     (if is_xz_char c then parse_digits_loop k cs (push_bit k v, push_bit k m OR (2 ^ k - 1))
      else (case base_digit (2 ^ k) c of
              None \<Rightarrow> Inl ValueError
            | Some d \<Rightarrow> parse_digits_loop k cs (push_bit k v OR int d, push_bit k m)))"

definition parse_hex :: "string \<Rightarrow> nat \<Rightarrow> val4 res" where
  "parse_hex digits w = rmap (\<lambda>(v, m). mk_value v w m) (parse_digits_loop 4 (lower digits) (0, 0))"

definition parse_octal :: "string \<Rightarrow> nat \<Rightarrow> val4 res" where
  "parse_octal digits w = rmap (\<lambda>(v, m). mk_value v w m) (parse_digits_loop 3 (lower digits) (0, 0))"

definition xz_extend :: "val4 \<Rightarrow> string \<Rightarrow> nat \<Rightarrow> val4" where
  "xz_extend v digits bits_per_digit =
     (let n_bits = length digits * bits_per_digit
      in if digits = [] \<or> \<not> is_xz_char (lower_char (hd digits)) \<or> v_width v \<le> n_bits then v
         else (let fill = (push_bit (v_width v) 1 - 1) XOR (push_bit n_bits 1 - 1)
               in mk_value (v_val v) (v_width v) (v_mask v OR fill)))"

text \<open>
  The regular expression \<open>(\d+)?'([sS])?([bBoOdDhH])([0-9a-fA-FxXzZ?_]+)$\<close>: width text, base
  letter in lower case, digits.
\<close>

definition is_literal_digit :: "char \<Rightarrow> bool" where
  "is_literal_digit c \<longleftrightarrow> digit_val c \<noteq> None \<or> is_xz_char (lower_char c) \<or> c = CHR ''_''"

definition is_base_char :: "char \<Rightarrow> bool" where
  "is_base_char c \<longleftrightarrow> lower_char c \<in> {CHR ''b'', CHR ''o'', CHR ''d'', CHR ''h''}"

definition skip_sign_char :: "string \<Rightarrow> string" where
  "skip_sign_char s = (if s \<noteq> [] \<and> lower_char (hd s) = CHR ''s'' then tl s else s)"

definition match_based :: "string \<Rightarrow> (string \<times> char \<times> string) option" where
  "match_based text =
     (let width_str = takeWhile is_digit text;
          rest = dropWhile is_digit text
      in if rest = [] \<or> hd rest \<noteq> CHR 0x27 then None
         else (let r = skip_sign_char (tl rest)
               in if r = [] \<or> \<not> is_base_char (hd r) \<or> tl r = [] \<or> \<not> list_all is_literal_digit (tl r)
                  then None
                  else Some (width_str, lower_char (hd r), tl r)))"

definition from_verilog :: "string \<Rightarrow> val4 res" where
  "from_verilog text0 =
     (let text = remove_underscores (strip text0)
      in if isdigit text \<or> (text \<noteq> [] \<and> hd text = CHR ''-'' \<and> isdigit (tl text))
         then rmap (\<lambda>n. known n (signed_literal_width n)) (py_int 10 text)
         else (case match_based text of
             None \<Rightarrow> Inl ValueError
           | Some (width_str, base_ch, digits) \<Rightarrow>
               rbind (if width_str = [] then Inr 32 else py_int 10 width_str) (\<lambda>wi.
                 (let width = nat wi
                  in if base_ch = CHR ''b'' then Inr (xz_extend (parse_binary digits width) digits 1)
                     else if base_ch = CHR ''o'' then
                       rmap (\<lambda>v. xz_extend v digits 3) (parse_octal digits width)
                     else if base_ch = CHR ''h'' then
                       rmap (\<lambda>v. xz_extend v digits 4) (parse_hex digits width)
                     else if base_ch = CHR ''d'' then
                       (if list_ex is_xz_char (lower digits) then Inr (v_x width)
                        else rmap (\<lambda>n. known n width) (py_int 10 digits))
                     else Inl ValueError))))"

definition is_unsized_xz_literal :: "string \<Rightarrow> bool" where
  "is_unsized_xz_literal text =
     (let t = dropWhile is_space text
      in t \<noteq> [] \<and> hd t = CHR 0x27 \<and>
         (let r = skip_sign_char (tl t)
          in r \<noteq> [] \<and> is_base_char (hd r) \<and>
             (let d = dropWhile is_space (tl r)
              in d \<noteq> [] \<and> is_xz_char (lower_char (hd d)))))"

section \<open>Printing\<close>

definition bit_char :: "bit4 \<Rightarrow> char" where
  "bit_char b = (case b of BX \<Rightarrow> CHR ''x'' | B1 \<Rightarrow> CHR ''1'' | B0 \<Rightarrow> CHR ''0'')"

definition val_str :: "val4 \<Rightarrow> string" where
  "val_str v = dec_digits (v_width v) @ [CHR 0x27, CHR ''b''] @
     map (\<lambda>i. if bit (v_mask v) i then CHR ''x'' else if bit (v_val v) i then CHR ''1'' else CHR ''0'')
       (rev [0..<v_width v])"

definition hex_char :: "nat \<Rightarrow> char" where
  "hex_char d = (if d < 10 then char_of (48 + d) else char_of (87 + d))"

text \<open>\<open>f"{n:0{nib}x}"\<close>: hexadecimal, padded with zeros on the left to \<open>nib\<close> characters.\<close>

fun hex_digits :: "nat \<Rightarrow> string" where
  "hex_digits n = (if n < 16 then [hex_char n] else hex_digits (n div 16) @ [hex_char (n mod 16)])"

declare hex_digits.simps [simp del]

definition rjust :: "char \<Rightarrow> nat \<Rightarrow> string \<Rightarrow> string" where
  "rjust c n s = replicate (n - length s) c @ s"

definition val_to_hex :: "val4 \<Rightarrow> string" where
  "val_to_hex v =
     (if v_mask v = 0
      then dec_digits (v_width v) @ [CHR 0x27, CHR ''h'']
             @ rjust (CHR ''0'') ((v_width v + 3) div 4) (hex_digits (nat (v_val v)))
      else val_str v)"

section \<open>Reading back what is printed\<close>

definition bit_val4 :: "bit4 \<Rightarrow> val4" where
  "bit_val4 b = mk_value (if b = B1 then 1 else 0) 1 (if b = BX then 1 else 0)"

lemma bit_val4_sel [simp]:
  "wf_val (bit_val4 b)" "v_width (bit_val4 b) = 1"
  "v_val (bit_val4 b) = (if b = B1 then 1 else 0)" "v_mask (bit_val4 b) = (if b = BX then 1 else 0)"
proof -
  show "v_val (bit_val4 b) = (if b = B1 then 1 else 0)"
    by (rule int_eqI) (cases b, auto simp: bit_val4_def bit_1_iff)
  show "v_mask (bit_val4 b) = (if b = BX then 1 else 0)"
    by (rule int_eqI) (cases b, auto simp: bit_val4_def bit_1_iff)
qed (simp_all add: bit_val4_def)

lemma to_bits_bit_val4 [simp]: "to_bits (bit_val4 b) = [b]"
  by (cases b) (simp_all add: to_bits_def bit_at_def)

lemma lower_bit_char [simp]: "lower_char (bit_char b) = bit_char b"
  by (cases b) (simp_all add: bit_char_def lower_char_def ord_char_def)

lemma bit_char_distinct [simp]:
  "bit_char b = CHR ''1'' \<longleftrightarrow> b = B1"
  "is_xz_char (bit_char b) \<longleftrightarrow> b = BX"
  by (cases b; simp add: bit_char_def is_xz_char_def)+

lemma parse_binary_loop_bits:
  "wf_val a \<Longrightarrow> parse_binary_loop (map bit_char bs) (v_val a, v_mask a) =
     (let r = foldl glue a (map bit_val4 bs) in (v_val r, v_mask r))"
proof (induction bs arbitrary: a)
  case (Cons b bs)
  have "parse_binary_loop (map bit_char (b # bs)) (v_val a, v_mask a) =
      parse_binary_loop (map bit_char bs) (v_val (glue a (bit_val4 b)), v_mask (glue a (bit_val4 b)))"
    using Cons.prems by (simp add: glue_sel del: push_bit_Suc)
  also have "\<dots> = (let r = foldl glue (glue a (bit_val4 b)) (map bit_val4 bs) in (v_val r, v_mask r))"
    by (rule Cons.IH) simp
  finally show ?case by simp
qed (simp add: Let_def)

lemma parse_binary_to_bits:
  assumes "wf_val v"
  shows "parse_binary (map bit_char (to_bits v)) (v_width v) = v"
proof -
  define e where "e = known 0 0"
  have e: "wf_val e" "v_val e = 0" "v_mask e = 0" "to_bits e = []"
    by (simp_all add: e_def known_val to_bits_def)
  let ?r = "foldl glue e (map bit_val4 (to_bits v))"
  have "to_bits ?r = to_bits v"
    by (subst to_bits_foldl_glue) (simp_all add: e comp_def)
  then have r: "?r = v"
    using assms e(1) by (intro to_bits_inject wf_foldl_glue) auto
  have "lower (map bit_char (to_bits v)) = map bit_char (to_bits v)"
    by (simp add: lower_def)
  then show ?thesis
    using parse_binary_loop_bits [OF e(1), of "to_bits v"] assms
    by (simp add: parse_binary_def e r Let_def mk_value_wf_id)
qed

lemma val_str_bits: "val_str v = dec_digits (v_width v) @ CHR 0x27 # CHR ''b'' # map bit_char (to_bits v)"
  by (simp add: val_str_def to_bits_def bit_at_def bit_char_def)

lemma bit_char_props:
  "is_literal_digit (bit_char b)" "\<not> is_space (bit_char b)" "bit_char b \<noteq> CHR ''_''"
  by (cases b; simp add: bit_char_def is_literal_digit_def digit_val_def is_digit_def ord_char_def
      is_xz_char_def lower_char_def is_space_def)+

lemma takeWhile_digits:
  "list_all is_digit s \<Longrightarrow> takeWhile is_digit (s @ CHR 0x27 # t) = s"
  "list_all is_digit s \<Longrightarrow> dropWhile is_digit (s @ CHR 0x27 # t) = CHR 0x27 # t"
  by (induction s) (auto simp: is_digit_def ord_char_def)

lemma match_based_printed:
  assumes "list_all is_digit w" "is_base_char b" "lower_char b \<noteq> CHR ''s''" "ds \<noteq> []"
    "list_all is_literal_digit ds"
  shows "match_based (w @ CHR 0x27 # b # ds) = Some (w, lower_char b, ds)"
  using assms by (simp add: match_based_def Let_def takeWhile_digits skip_sign_char_def)

lemma printed_text:
  assumes "list_all is_digit w" "w \<noteq> []" "ds \<noteq> []" "list_all (\<lambda>c. \<not> is_space c \<and> c \<noteq> CHR ''_'') ds"
    "\<not> is_space b" "b \<noteq> CHR ''_''"
  shows "remove_underscores (strip (w @ CHR 0x27 # b # ds)) = w @ CHR 0x27 # b # ds"
    and "\<not> isdigit (w @ CHR 0x27 # b # ds)"
    and "hd (w @ CHR 0x27 # b # ds) \<noteq> CHR ''-''"
proof -
  have w: "\<forall>c\<in>set w. is_digit c" using assms(1) by (simp add: list_all_iff)
  have q: "\<not> is_space (CHR 0x27)" by (simp add: is_space_def ord_char_def)
  have "\<forall>c\<in>set w. \<not> is_space c" using w by (blast dest: isdigit_not_space)
  then have "list_all (\<lambda>c. \<not> is_space c) (w @ CHR 0x27 # b # ds)"
    using assms(4,5) q by (simp add: list_all_iff ball_Un)
  moreover have "\<forall>c\<in>set w. c \<noteq> CHR ''_''"
    using w by (auto simp: is_digit_def ord_char_def)
  then have "remove_underscores (w @ CHR 0x27 # b # ds) = w @ CHR 0x27 # b # ds"
    using assms(4,6) unfolding remove_underscores_def filter_id_conv list_all_iff
    by (simp add: ball_Un)
  ultimately show "remove_underscores (strip (w @ CHR 0x27 # b # ds)) = w @ CHR 0x27 # b # ds"
    by (simp add: strip_all)
  show "\<not> isdigit (w @ CHR 0x27 # b # ds)"
    by (simp add: isdigit_def is_digit_def ord_char_def)
  show "hd (w @ CHR 0x27 # b # ds) \<noteq> CHR ''-''"
    using w assms(2) by (cases w) (auto simp: is_digit_def ord_char_def)
qed

lemma from_verilog_printed:
  assumes "b = CHR ''b'' \<or> b = CHR ''h''" "ds \<noteq> []" "list_all is_literal_digit ds"
    "list_all (\<lambda>c. \<not> is_space c \<and> c \<noteq> CHR ''_'') ds"
  shows "from_verilog (dec_digits w @ CHR 0x27 # b # ds) =
     (if b = CHR ''b'' then Inr (xz_extend (parse_binary ds w) ds 1)
      else rmap (\<lambda>v. xz_extend v ds 4) (parse_hex ds w))"
proof -
  have b: "\<not> is_space b" "b \<noteq> CHR ''_''" "is_base_char b" "lower_char b = b" "b \<noteq> CHR ''s''"
    using assms(1) by (auto simp: is_space_def ord_char_def is_base_char_def lower_char_def)
  note pt = printed_text [OF dec_digits_all dec_digits_nonempty assms(2,4) b(1,2), of w]
  have m: "match_based (dec_digits w @ CHR 0x27 # b # ds) = Some (dec_digits w, b, ds)"
    using match_based_printed [OF dec_digits_all b(3) _ assms(2,3), of w] b(4,5) by simp
  have "from_verilog (dec_digits w @ CHR 0x27 # b # ds) =
     (case Some (dec_digits w, b, ds) of
        None \<Rightarrow> Inl ValueError
      | Some (width_str, base_ch, digits) \<Rightarrow>
          (if base_ch = CHR ''b'' then Inr (xz_extend (parse_binary digits w) digits 1)
           else rmap (\<lambda>v. xz_extend v digits 4) (parse_hex digits w)))"
    unfolding from_verilog_def Let_def pt(1) m using pt(2,3) assms(1)
    by (auto simp: py_int_dec)
  then show ?thesis by simp
qed

lemma length_pos_width: "0 < v_width v \<Longrightarrow> map bit_char (to_bits v) \<noteq> []"
  using to_bits_empty_iff [of v] by simp

lemma from_verilog_val_str:
  assumes "wf_val v" "0 < v_width v"
  shows "from_verilog (val_str v) = Inr v"
proof -
  let ?ds = "map bit_char (to_bits v)"
  have "from_verilog (val_str v) = Inr (xz_extend (parse_binary ?ds (v_width v)) ?ds 1)"
    unfolding val_str_bits using length_pos_width [OF assms(2)]
    by (subst from_verilog_printed) (auto simp: list_all_iff bit_char_props)
  also have "\<dots> = Inr v"
    unfolding parse_binary_to_bits [OF assms(1)] by (simp add: xz_extend_def Let_def)
  finally show ?thesis .
qed

text \<open>The same for the hexadecimal form of a defined value.\<close>

lemma hex_char_props:
  assumes "d < 16"
  shows "base_digit 16 (hex_char d) = Some d" "lower_char (hex_char d) = hex_char d"
    "is_literal_digit (hex_char d)" "\<not> is_space (hex_char d)" "hex_char d \<noteq> CHR ''_''"
    "\<not> is_xz_char (hex_char d)"
proof -
  have c: "ord_char (hex_char d) = (if d < 10 then 48 + d else 87 + d)"
    using assms by (simp add: hex_char_def ord_char_def)
  have d: "digit_val (hex_char d) = Some d"
    using assms by (auto simp: digit_val_def is_digit_def c)
  then show "base_digit 16 (hex_char d) = Some d" "is_literal_digit (hex_char d)"
    using assms by (simp_all add: base_digit_def is_literal_digit_def)
  show "lower_char (hex_char d) = hex_char d" "\<not> is_space (hex_char d)"
    using assms by (auto simp: lower_char_def is_space_def c)
  show "hex_char d \<noteq> CHR ''_''" "\<not> is_xz_char (hex_char d)"
    using d by (auto simp: is_xz_char_def digit_val_def is_digit_def ord_char_def)
qed

lemma hex_digits_mem: "c \<in> set (hex_digits n) \<Longrightarrow> \<exists>d<16. c = hex_char d"
proof (induction n rule: hex_digits.induct)
  case (1 n)
  have "hex_digits n = (if n < 16 then [hex_char n] else hex_digits (n div 16) @ [hex_char (n mod 16)])"
    by (rule hex_digits.simps)
  moreover have "\<exists>d<16. hex_char (n mod 16) = hex_char d" by (rule exI [of _ "n mod 16"]) simp
  ultimately show ?case using 1 by (auto split: if_splits)
qed

lemma hex_digits_nonempty [simp]: "hex_digits n \<noteq> []"
  by (subst hex_digits.simps) simp

lemma parse_digits_append:
  "parse_digits_loop k (s @ t) a = rbind (parse_digits_loop k s a) (\<lambda>b. parse_digits_loop k t b)"
  by (induction k s a rule: parse_digits_loop.induct) (auto split: option.split)

lemma push_or_digit: "d < 16 \<Longrightarrow> 0 \<le> v \<Longrightarrow> push_bit 4 v OR int d = v * 16 + int d"
proof -
  assume d: "d < 16"
  have "push_bit 4 v AND int d = 0"
  proof (rule int_eqI)
    fix i
    have "\<not> bit (int d) i" if "4 \<le> i"
      by (rule bit_eq_0_above [where w = 4]) (use d that in auto)
    then show "bit (push_bit 4 v AND int d) i = bit (0::int) i"
      by (auto simp: bit_and_iff bit_push_bit_iff)
  qed
  then show ?thesis by (simp flip: disjunctive_add_eq_or) (simp add: push_bit_eq_mult)
qed

lemma parse_hex_digits: "parse_digits_loop 4 (hex_digits n) (0, 0) = Inr (int n, 0)"
proof (induction n rule: hex_digits.induct)
  case (1 n)
  show ?case
  proof (cases "n < 16")
    case True
    then show ?thesis by (subst hex_digits.simps) (simp add: hex_char_props)
  next
    case False
    have m: "n mod 16 < 16" by simp
    have "int (n div 16) * 16 + int (n mod 16) = int n" by presburger
    then show ?thesis
      using 1 False push_or_digit [OF m, of "int (n div 16)"]
      by (subst hex_digits.simps) (simp add: parse_digits_append hex_char_props [OF m])
  qed
qed

lemma parse_zeros: "parse_digits_loop 4 (replicate k (CHR ''0'') @ s) (0, 0) = parse_digits_loop 4 s (0, 0)"
  by (induction k) (simp_all add: is_xz_char_def base_digit_def digit_val_def is_digit_def ord_char_def)

lemma from_verilog_val_to_hex:
  assumes "wf_val v" "0 < v_width v"
  shows "from_verilog (val_to_hex v) = Inr v"
proof (cases "v_mask v = 0")
  case False
  then show ?thesis using from_verilog_val_str [OF assms] by (simp add: val_to_hex_def)
next
  case True
  let ?n = "(v_width v + 3) div 4" and ?ds = "rjust (CHR ''0'') ((v_width v + 3) div 4) (hex_digits (nat (v_val v)))"
  have z: "CHR ''0'' = hex_char 0"
    by (simp add: hex_char_def flip: ord_char_inject) (simp add: ord_char_def)
  have mem: "\<exists>d<16. c = hex_char d" if "c \<in> set ?ds" for c
    using that hex_digits_mem [of c "nat (v_val v)"] unfolding rjust_def z
    by (metis Un_iff in_set_replicate set_append zero_less_numeral)
  then have ds: "?ds \<noteq> []" "list_all is_literal_digit ?ds"
    "list_all (\<lambda>c. \<not> is_space c \<and> c \<noteq> CHR ''_'') ?ds" "lower ?ds = ?ds" "\<not> is_xz_char (lower_char (hd ?ds))"
    subgoal by (simp add: rjust_def)
    subgoal using mem by (auto simp: list_all_iff dest!: mem intro: hex_char_props)
    subgoal using mem by (auto simp: list_all_iff dest!: mem dest: hex_char_props)
    subgoal unfolding lower_def using mem by (intro map_idI) (auto dest!: mem simp: hex_char_props)
    subgoal
    proof -
      have "hd ?ds \<in> set ?ds" by (rule hd_in_set) (simp add: rjust_def)
      then show ?thesis using mem hex_char_props by fastforce
    qed
    done
  have "parse_digits_loop 4 ?ds (0, 0) = Inr (v_val v, 0)"
    using wf_val_bounds(1) [OF assms(1)] by (simp add: rjust_def parse_zeros parse_hex_digits)
  then have "parse_hex ?ds (v_width v) = Inr v"
    using mk_value_wf_id [OF assms(1)] True by (simp add: parse_hex_def ds(4))
  moreover have "xz_extend v ?ds 4 = v"
    by (simp add: xz_extend_def Let_def ds(5))
  moreover have "from_verilog (val_to_hex v) = rmap (\<lambda>v. xz_extend v ?ds 4) (parse_hex ?ds (v_width v))"
    using from_verilog_printed [of "CHR ''h''" ?ds "v_width v"] ds True by (simp add: val_to_hex_def)
  ultimately show ?thesis by simp
qed

end
