(* ===== verification/Expr.thy ===== *)
theory Expr
  imports Verilog_Literal
begin

text \<open>
  The expression tree of \<open>model/expressions.py\<close>. Each class is a constructor, each slot a field;
  an operator string is a constructor of \<open>unop\<close> or \<open>binop\<close>, with one constructor for every other
  string. The slot \<open>resolved\<close> of an identifier, which name resolution fills, is the identity of
  the parameter it refers to. The slot \<open>inferred_width\<close>, which width inference fills, is an
  argument of the functions that read it. Source locations are left out. The value of a literal
  is an integer or a text; the float that a real literal holds is not modelled.
\<close>

section \<open>Operators\<close>

datatype unop =
    UPlus | UMinus | UInv | UNot
  | URedAnd | URedOr | URedXor | URedNand | URedNor | URedXnor | URedXnor2
  | UOther string

datatype binop =
    Add | Sub | Mul | Div | Mod | Pow
  | BAnd | BOr | BXor | BXnor | BXnor2
  | Shl | Shr | AShl | AShr
  | Eq | Ne | CaseEq | CaseNe | Lt | Le | Gt | Ge
  | LAnd | LOr
  | BOther string

text \<open>
  The operator sets that the modules write out at each use: one-bit results, and shifts, whose
  width comes from the left operand.
\<close>

definition is_compare :: "binop \<Rightarrow> bool" where
  "is_compare op \<longleftrightarrow> op \<in> {Eq, Ne, CaseEq, CaseNe, Lt, Le, Gt, Ge}"

definition is_logical :: "binop \<Rightarrow> bool" where
  "is_logical op \<longleftrightarrow> op \<in> {LAnd, LOr}"

definition is_shift :: "binop \<Rightarrow> bool" where
  "is_shift op \<longleftrightarrow> op \<in> {Shl, Shr, AShl, AShr}"

definition is_bitwise :: "binop \<Rightarrow> bool" where
  "is_bitwise op \<longleftrightarrow> op \<in> {BAnd, BOr, BXor, BXnor, BXnor2}"

definition is_one_bit_binary :: "binop \<Rightarrow> bool" where
  "is_one_bit_binary op \<longleftrightarrow> op \<in> {Eq, Ne, CaseEq, CaseNe, Lt, Le, Gt, Ge, LAnd, LOr}"

definition is_one_bit_unary :: "unop \<Rightarrow> bool" where
  "is_one_bit_unary op \<longleftrightarrow>
     op \<in> {UNot, URedAnd, URedOr, URedXor, URedNand, URedNor, URedXnor, URedXnor2}"

lemmas op_class_defs =
  is_compare_def is_logical_def is_shift_def is_bitwise_def is_one_bit_binary_def is_one_bit_unary_def

lemma one_bit_binary_iff: "is_one_bit_binary op \<longleftrightarrow> is_compare op \<or> is_logical op"
  by (auto simp: op_class_defs)

section \<open>Trees\<close>

datatype lit_value = LitInt int | LitText string

record literal =
  lit_value :: lit_value
  lit_width :: "nat option"
  lit_signed :: bool
  lit_is_x :: bool
  lit_is_z :: bool
  original_text :: string

datatype direction = PlusColon | MinusColon

type_synonym param_id = nat

datatype expr =
    Identifier string "string list" "param_id option"
  | Literal literal
  | StringLiteral string
  | UnaryOp unop expr
  | BinaryOp binop expr expr
  | TernaryOp expr expr expr
  | Concatenation "expr list"
  | StreamingConcatenation "expr list" "expr option"
  | AssignmentPattern "(string \<times> expr) list" "expr list" "expr option"
  | Replication expr expr
  | WidthCast expr expr
  | BitSelect expr expr
  | RangeSelect expr expr expr
  | PartSelect expr expr expr direction
  | FunctionCall string "expr list"
  | Mintypmax expr expr expr

text \<open>The key \<open>".".join(hierarchy) + "." + name\<close> under which an identifier is looked up.\<close>

definition identifier_name :: "string \<Rightarrow> string list \<Rightarrow> string" where
  "identifier_name name hier = (if hier = [] then name else join_with ''.'' hier @ ''.'' @ name)"

text \<open>The literals that programs build from a Python integer: \<open>Literal(n)\<close>.\<close>

definition int_literal :: "int \<Rightarrow> literal" where
  "int_literal n = \<lparr>lit_value = LitInt n, lit_width = None, lit_signed = False, lit_is_x = False,
     lit_is_z = False, original_text = []\<rparr>"

definition sized_literal :: "int \<Rightarrow> nat \<Rightarrow> bool \<Rightarrow> literal" where
  "sized_literal n w s = \<lparr>lit_value = LitInt n, lit_width = Some w, lit_signed = s, lit_is_x = False,
     lit_is_z = False, original_text = []\<rparr>"

section \<open>Calls with effects\<close>

definition pure_system_functions :: "string list" where
  "pure_system_functions =
     [''$signed'', ''$unsigned'', ''$__2state'', ''$clog2'', ''$bits'', ''$size'', ''$countones'',
      ''$onehot'', ''$onehot0'', ''$isunknown'', ''$high'', ''$low'', ''$left'', ''$right'']"

fun has_impure_call :: "expr \<Rightarrow> bool" where
  "has_impure_call (Identifier _ _ _) = False"
| "has_impure_call (Literal _) = False"
| "has_impure_call (StringLiteral _) = False"
| "has_impure_call (UnaryOp _ a) = has_impure_call a"
| "has_impure_call (BinaryOp _ a b) = (has_impure_call a \<or> has_impure_call b)"
| "has_impure_call (TernaryOp c a b) = (has_impure_call c \<or> has_impure_call a \<or> has_impure_call b)"
| "has_impure_call (Concatenation es) = list_ex has_impure_call es"
| "has_impure_call (StreamingConcatenation es s) =
     (list_ex has_impure_call es \<or> (case s of None \<Rightarrow> False | Some e \<Rightarrow> has_impure_call e))"
| "has_impure_call (AssignmentPattern ps es d) =
     (list_ex (\<lambda>(_, e). has_impure_call e) ps \<or> list_ex has_impure_call es
      \<or> (case d of None \<Rightarrow> False | Some e \<Rightarrow> has_impure_call e))"
| "has_impure_call (Replication c v) = (has_impure_call c \<or> has_impure_call v)"
| "has_impure_call (WidthCast w e) = (has_impure_call w \<or> has_impure_call e)"
| "has_impure_call (BitSelect t i) = (has_impure_call t \<or> has_impure_call i)"
| "has_impure_call (RangeSelect t m l) = (has_impure_call t \<or> has_impure_call m \<or> has_impure_call l)"
| "has_impure_call (PartSelect t b w _) = (has_impure_call t \<or> has_impure_call b \<or> has_impure_call w)"
| "has_impure_call (FunctionCall f args) =
     (f \<notin> set pure_system_functions \<or> list_ex has_impure_call args)"
| "has_impure_call (Mintypmax a b c) = (has_impure_call a \<or> has_impure_call b \<or> has_impure_call c)"

text \<open>\<open>while isinstance(inner, FunctionCall) and inner.name in ("$signed", "$unsigned")\<close>.\<close>

definition is_sign_cast :: "string \<Rightarrow> bool" where
  "is_sign_cast f \<longleftrightarrow> lower f = ''$signed'' \<or> lower f = ''$unsigned''"

fun strip_casts :: "expr \<Rightarrow> expr" where
  "strip_casts (FunctionCall f (a # args)) =
     (if is_sign_cast f then strip_casts a else FunctionCall f (a # args))"
| "strip_casts e = e"

lemma size_strip_casts [simp]: "size (strip_casts e) \<le> size e"
  by (induction e rule: strip_casts.induct) auto

section \<open>Literals and sums of widths\<close>

text \<open>
  \<open>int(literal.value)\<close>, \<open>literal.width or 32\<close> and the self-determined width of a literal, which
  both engines' width functions spell out in the same words; sums and maxima of widths that may
  fail.
\<close>

definition lit_int :: "literal \<Rightarrow> int res" where
  "lit_int l = (case lit_value l of LitInt n \<Rightarrow> Inr n | LitText t \<Rightarrow> py_int 10 t)"

definition lit_width_or_32 :: "literal \<Rightarrow> nat" where
  "lit_width_or_32 l = (case lit_width l of Some w \<Rightarrow> if w = 0 then 32 else w | None \<Rightarrow> 32)"

definition lit_self_width :: "literal \<Rightarrow> nat" where
  "lit_self_width l = (case (lit_width l, lit_value l) of
     (None, LitInt n) \<Rightarrow> if lit_signed l then signed_literal_width n else 32
   | _ \<Rightarrow> lit_width_or_32 l)"

fun sum_res :: "int res list \<Rightarrow> int res" where
  "sum_res [] = Inr 0"
| "sum_res (x # xs) = rbind x (\<lambda>a. rmap (\<lambda>b. a + b) (sum_res xs))"

definition max_res :: "int res \<Rightarrow> int res \<Rightarrow> int res" where
  "max_res x y = rbind x (\<lambda>a. rmap (\<lambda>b. max a b) y)"

end
