(* ===== verification/Eval_Ops.thy ===== *)
theory Eval_Ops
  imports Expr
begin

text \<open>
  The operator level of \<open>sim/evaluator.py\<close>: what one operator does to evaluated operands. The
  signed forms read the operands as two's complement numbers; signed division goes through
  Python's \<open>int(a / b)\<close>, a division of integers that is rounded to a double before it is
  truncated, and \<open>py_trunc_div\<close> models that rounding.
\<close>

section \<open>Python's \<open>int(a / b)\<close>\<close>

definition round_half_even :: "int \<Rightarrow> int \<Rightarrow> int" where
  "round_half_even n m =
     (let q = n div m; r = n mod m
      in if 2 * r > m \<or> (2 * r = m \<and> odd q) then q + 1 else q)"

text \<open>
  The quotient of two positive integers as a double: a significand of 53 bits and an exponent.
\<close>

definition float_exponent :: "int \<Rightarrow> int \<Rightarrow> int" where
  "float_exponent n d =
     (let e = int (bit_length n) - int (bit_length d) - 53
      in if (if 0 \<le> e then d * 2 ^ nat e * 2 ^ 53 \<le> n else d * 2 ^ 53 \<le> n * 2 ^ nat (- e))
         then e + 1 else e)"

definition float_quotient :: "int \<Rightarrow> int \<Rightarrow> int \<times> int" where
  "float_quotient n d =
     (let e = float_exponent n d
      in (if 0 \<le> e then round_half_even n (d * 2 ^ nat e)
          else round_half_even (n * 2 ^ nat (- e)) d, e))"

definition float_trunc :: "int \<times> int \<Rightarrow> int" where
  "float_trunc f = (case f of (q, e) \<Rightarrow> if 0 \<le> e then q * 2 ^ nat e else q div 2 ^ nat (- e))"

definition py_trunc_div :: "int \<Rightarrow> int \<Rightarrow> int res" where
  "py_trunc_div a b =
     (if b = 0 then Inl ValueError
      else if a = 0 then Inr 0
      else (let t = float_trunc (float_quotient \<bar>a\<bar> \<bar>b\<bar>)
            in if 2 ^ 1024 \<le> t then Inl OverflowError
               else Inr (if (a < 0) = (b < 0) then t else - t)))"

text \<open>What the docstring of \<open>_eval_signed_divmod\<close> asks for: truncation toward zero.\<close>

definition trunc_div :: "int \<Rightarrow> int \<Rightarrow> int" where
  "trunc_div a b = (let t = \<bar>a\<bar> div \<bar>b\<bar> in if (a < 0) = (b < 0) then t else - t)"

section \<open>Binary operators\<close>

definition eval_signed_cmp :: "binop \<Rightarrow> val4 \<Rightarrow> val4 \<Rightarrow> val4 res" where
  "eval_signed_cmp op l r =
     (if v_mask l \<noteq> 0 \<or> v_mask r \<noteq> 0 then Inr (v_x 1)
      else rbind (as_signed l) (\<lambda>a. rbind (as_signed r) (\<lambda>b.
        (case op of
           Lt \<Rightarrow> Inr (bool_val (a < b))
         | Le \<Rightarrow> Inr (bool_val (a \<le> b))
         | Gt \<Rightarrow> Inr (bool_val (a > b))
         | Ge \<Rightarrow> Inr (bool_val (a \<ge> b))
         | _ \<Rightarrow> Inl ValueError))))"

definition eval_signed_divmod :: "binop \<Rightarrow> val4 \<Rightarrow> val4 \<Rightarrow> val4 res" where
  "eval_signed_divmod op l r =
     (if v_mask l \<noteq> 0 \<or> v_mask r \<noteq> 0 then Inr (v_x (v_width l))
      else if v_val r = 0 then Inr (v_x (v_width l))
      else rbind (as_signed l) (\<lambda>a. rbind (as_signed r) (\<lambda>b.
        (let w = max (v_width l) (v_width r)
         in case op of
              Div \<Rightarrow> rmap (\<lambda>q. known q w) (py_trunc_div a b)
            | Mod \<Rightarrow> rmap (\<lambda>q. known (a - b * q) w) (py_trunc_div a b)
            | _ \<Rightarrow> Inl ValueError))))"

definition eval_signed_pow :: "val4 \<Rightarrow> val4 \<Rightarrow> val4 res" where
  "eval_signed_pow l r =
     (let w = v_width l
      in if v_mask l \<noteq> 0 \<or> v_mask r \<noteq> 0 then Inr (v_x w)
         else rbind (as_signed l) (\<lambda>a. rbind (as_signed r) (\<lambda>b.
           Inr (case verilog_pow a b (Some w) of None \<Rightarrow> v_x w | Some n \<Rightarrow> known n w))))"

text \<open>The branch \<open>>>>\<close> of \<open>_eval_binary_op\<close>.\<close>

definition ashr_val :: "val4 \<Rightarrow> val4 \<Rightarrow> val4" where
  "ashr_val l r =
     (if v_mask r \<noteq> 0 then v_x (v_width l)
      else (let shift = v_val r; width = v_width l
            in if width = 0 then known 0 0
               else if int width \<le> shift then
                 (if drop_bit (width - 1) (v_mask l) AND 1 \<noteq> 0 then v_x width
                  else if drop_bit (width - 1) (v_val l) AND 1 \<noteq> 0
                    then known (push_bit width 1 - 1) width
                  else known 0 width)
               else resize (v_rshift (sext l (width + nat shift)) r) width))"

definition eval_binary_op :: "binop \<Rightarrow> val4 \<Rightarrow> val4 \<Rightarrow> val4 res" where
  "eval_binary_op op l r = (case op of
     Add \<Rightarrow> Inr (v_add l r)
   | Sub \<Rightarrow> Inr (v_sub l r)
   | Mul \<Rightarrow> Inr (v_mul l r)
   | Div \<Rightarrow> Inr (v_floordiv l r)
   | Mod \<Rightarrow> Inr (v_mod l r)
   | Pow \<Rightarrow> Inr (v_pow l r)
   | BAnd \<Rightarrow> Inr (v_and l r)
   | BOr \<Rightarrow> Inr (v_or l r)
   | BXor \<Rightarrow> Inr (v_xor l r)
   | BXnor \<Rightarrow> Inr (v_invert (v_xor l r))
   | BXnor2 \<Rightarrow> Inr (v_invert (v_xor l r))
   | Shl \<Rightarrow> Inr (v_lshift l r)
   | Shr \<Rightarrow> Inr (v_rshift l r)
   | AShl \<Rightarrow> Inr (v_lshift l r)
   | AShr \<Rightarrow> Inr (ashr_val l r)
   | Eq \<Rightarrow> Inr (eq4 l r)
   | Ne \<Rightarrow> Inr (ne4 l r)
   | Lt \<Rightarrow> Inr (lt4 l r)
   | Le \<Rightarrow> Inr (le4 l r)
   | Gt \<Rightarrow> Inr (gt4 l r)
   | Ge \<Rightarrow> Inr (ge4 l r)
   | CaseEq \<Rightarrow> Inr (case_eq l r)
   | CaseNe \<Rightarrow> Inr (case_ne l r)
   | LAnd \<Rightarrow> Inr (logical_and l r)
   | LOr \<Rightarrow> Inr (logical_or l r)
   | BOther _ \<Rightarrow> Inl ValueError)"

section \<open>Unary operators and the merge of two branches\<close>

definition eval_unary_op :: "unop \<Rightarrow> val4 \<Rightarrow> val4 res" where
  "eval_unary_op op a = (case op of
     UInv \<Rightarrow> Inr (v_invert a)
   | UNot \<Rightarrow> Inr (logical_not a)
   | UMinus \<Rightarrow> Inr (v_neg a)
   | UPlus \<Rightarrow> Inr a
   | URedAnd \<Rightarrow> Inr (reduce_and a)
   | URedOr \<Rightarrow> Inr (reduce_or a)
   | URedXor \<Rightarrow> Inr (reduce_xor a)
   | URedNand \<Rightarrow> Inr (reduce_nand a)
   | URedNor \<Rightarrow> Inr (reduce_nor a)
   | URedXnor \<Rightarrow> Inr (reduce_xnor a)
   | URedXnor2 \<Rightarrow> Inr (reduce_xnor a)
   | UOther _ \<Rightarrow> Inl ValueError)"

definition merge_xz :: "val4 \<Rightarrow> val4 \<Rightarrow> val4" where
  "merge_xz a b =
     (let w = max (v_width a) (v_width b);
          wmask = push_bit w 1 - 1;
          both_known = NOT (v_mask a) AND NOT (v_mask b) AND wmask;
          same_value = NOT (v_val a XOR v_val b) AND wmask;
          agree = both_known AND same_value;
          new_mask = NOT agree AND wmask;
          new_val = v_val a AND v_val b AND NOT new_mask
      in mk_value new_val w new_mask)"

end
