(* ===== verification/Value_Words.thy ===== *)
theory Value_Words
  imports Eval_Ops Value4_Order Value4_Bits "HOL-Library.Word"
begin

text \<open>
  Fully known values are machine words. \<open>word_val\<close> embeds \<open>'a word\<close>; on its image every operator of
  the class \<open>Value\<close>, and the signed operators of the evaluator, is the operation of the word library.
\<close>

section \<open>The embedding\<close>


lemma known_mod [simp]: "known (x mod 2 ^ w) w = known x w"
  by (rule val4_eqI) (auto simp: take_bit_eq_mod [symmetric] bit_take_bit_iff)

lemma known_and_mask [simp]: "known (x AND (push_bit w 1 - 1)) w = known x w"
  unfolding width_mask_def [symmetric] by (rule val4_eqI) (auto simp: bit_and_iff)

lemma known_cong: "x mod 2 ^ w = y mod 2 ^ w \<Longrightarrow> known x w = known y w"
  by (metis known_mod)

definition word_val :: "'a::len word \<Rightarrow> val4" where
  "word_val x = known (uint x) LENGTH('a)"

lemma word_val_sel [simp]:
  "v_width (word_val (x :: 'a::len word)) = LENGTH('a)" "v_mask (word_val x) = 0" "v_val (word_val x) = uint x"
  "wf_val (word_val x)"
  using unsigned_less [of x] by (simp_all add: word_val_def known_val)

lemma word_val_of_int: "word_val (word_of_int n :: 'a::len word) = known n LENGTH('a)"
  by (simp add: word_val_def uint_word_of_int)

lemma word_val_eqI: "(\<And>i. i < LENGTH('a) \<Longrightarrow> bit (v_val v) i = bit x i) \<Longrightarrow> v_mask v = 0 \<Longrightarrow> v_width v = LENGTH('a)
    \<Longrightarrow> wf_val v \<Longrightarrow> v = word_val (x :: 'a::len word)"
  by (rule val4_eqI) (auto simp: bit_uint_iff dest: wf_valD)

lemma ring_ops:
  fixes x y :: "'a::len word"
  shows "v_add (word_val x) (word_val y) = word_val (x + y)"
    "v_sub (word_val x) (word_val y) = word_val (x - y)"
    "v_mul (word_val x) (word_val y) = word_val (x * y)"
    "v_neg (word_val x) = word_val (- x)"
  by (simp_all add: v_add_def v_sub_def v_mul_def v_neg_def Let_def word_val_def [of "_ + _"] word_val_def [of "_ - _"]
      word_val_def [of "_ * _"] word_val_def [of "- _"] uint_word_ariths del: push_bit_of_1)

lemma div_ops:
  fixes x y :: "'a::len word"
  shows "y \<noteq> 0 \<Longrightarrow> v_floordiv (word_val x) (word_val y) = word_val (x div y)"
    "y \<noteq> 0 \<Longrightarrow> v_mod (word_val x) (word_val y) = word_val (x mod y)"
  by (simp_all add: v_floordiv_def v_mod_def Let_def word_val_def [of "_ div _"] word_val_def [of "_ mod _"] uint_div_distrib uint_mod_distrib uint_0_iff)

lemma bit_ops:
  fixes x y :: "'a::len word"
  shows "v_and (word_val x) (word_val y) = word_val (x AND y)"
    "v_or (word_val x) (word_val y) = word_val (x OR y)"
    "v_xor (word_val x) (word_val y) = word_val (x XOR y)"
    "v_invert (word_val x) = word_val (NOT x)"
proof -
  show "v_and (word_val x) (word_val y) = word_val (x AND y)"
    by (rule word_val_eqI) (auto simp: v_and_def Let_def bit_simps intro!: int_eqI)
  show "v_or (word_val x) (word_val y) = word_val (x OR y)"
    by (rule word_val_eqI) (auto simp: v_or_def Let_def bit_simps intro!: int_eqI)
  show "v_xor (word_val x) (word_val y) = word_val (x XOR y)"
    by (rule word_val_eqI) (auto simp: v_xor_def Let_def bit_simps intro!: int_eqI)
  show "v_invert (word_val x) = word_val (NOT x)"
    by (rule word_val_eqI) (auto simp: v_invert_def Let_def bit_simps intro!: int_eqI)
qed

lemma int_xor_0: "(a::int) XOR b = 0 \<longleftrightarrow> a = b"
  by (auto simp: bit_eq_iff bit_xor_iff)

lemma compare_ops:
  fixes x y :: "'a::len word"
  shows "eq4 (word_val x) (word_val y) = bool_val (x = y)"
    "ne4 (word_val x) (word_val y) = bool_val (x \<noteq> y)"
    "lt4 (word_val x) (word_val y) = bool_val (x < y)"
    "le4 (word_val x) (word_val y) = bool_val (x \<le> y)"
    "gt4 (word_val x) (word_val y) = bool_val (x > y)"
    "ge4 (word_val x) (word_val y) = bool_val (x \<ge> y)"
  by (auto simp: int_xor_0 eq4_def ne4_def lt4_def le4_def gt4_def ge4_def v_cmp_def Let_def word_less_def word_le_def word_uint_eq_iff)

lemma drop_bit_and_1': "drop_bit n (x::int) AND 1 \<noteq> 0 \<longleftrightarrow> bit x n"
  by (simp add: bit_iff_odd_drop_bit and_one_eq odd_iff_mod_2_eq_one)

lemma as_signed_word: "as_signed (word_val (x :: 'a::len word)) = Inr (sint x)"
proof -
  have L: "Suc (LENGTH('a) - 1) = LENGTH('a)" by simp
  have "sint x = uint x - 2 ^ LENGTH('a) * of_bool (bit (uint x) (LENGTH('a) - 1))"
    unfolding sint_uint signed_take_bit_eq_take_bit_minus L using unsigned_less [of x]
    by (simp add: take_bit_eq_mod)
  then show ?thesis
    by (simp add: as_signed_def signed_of_def drop_bit_and_1' push_bit_eq_mult)
qed

lemma uint_unat_le: "int n \<le> uint k \<longleftrightarrow> n \<le> unat k"
proof -
  have "uint k = int (unat k)" by simp
  then show ?thesis by (simp only: of_nat_le_iff)
qed

lemma top_bit:
  fixes x :: "'a::len word"
  shows "LENGTH('a) - Suc 0 \<le> i \<Longrightarrow> bit x i \<longleftrightarrow> i = LENGTH('a) - Suc 0 \<and> bit x (LENGTH('a) - Suc 0)"
proof -
  assume "LENGTH('a) - Suc 0 \<le> i"
  moreover have "i < LENGTH('a)" if "bit x i" using that by (rule bit_imp_le_length)
  ultimately have "i = LENGTH('a) - Suc 0" if "bit x i" using that by force
  then show ?thesis by auto
qed

lemma shift_ops:
  fixes x :: "'a::len word" and k :: "'b::len word"
  shows "v_lshift (word_val x) (word_val k) = word_val (push_bit (unat k) x)"
    "v_rshift (word_val x) (word_val k) = word_val (drop_bit (unat k) x)"
proof -
  have big: "int LENGTH('a) \<le> uint k \<longleftrightarrow> LENGTH('a) \<le> unat k" by (rule uint_unat_le)
  have n: "nat (uint k) = unat k" by simp
  show "v_lshift (word_val x) (word_val k) = word_val (push_bit (unat k) x)"
    by (rule word_val_eqI) (auto simp: v_lshift_def big n bit_simps)
  show "v_rshift (word_val x) (word_val k) = word_val (drop_bit (unat k) x)"
    by (rule word_val_eqI) (auto simp: v_rshift_def big n bit_simps dest: bit_imp_le_length)
qed

lemma resize_word: "resize (word_val (x :: 'a::len word)) LENGTH('b::len) = word_val (ucast x :: 'b word)"
  by (rule word_val_eqI) (auto simp: resize_def bit_simps intro!: int_eqI)

lemma sign_extend_word:
  "sign_extend (word_val (x :: 'a::len word)) LENGTH('b::len) = Inr (word_val (scast x :: 'b word))"
proof -
  have "sext (word_val x) LENGTH('b) = word_val (scast x :: 'b word)"
  proof (rule word_val_eqI)
    fix i assume "i < LENGTH('b)"
    then show "bit (v_val (sext (word_val x) LENGTH('b))) i = bit (scast x :: 'b word) i"
      by (cases "i < LENGTH('a) - Suc 0")
        (auto simp: sext_def Let_def bit_simps drop_bit_and_1' min_def top_bit [of i x] not_less split: if_splits)
  qed (auto simp: sext_def Let_def intro!: int_eqI)
  then show ?thesis by (simp add: sign_extend_def)
qed

lemma ashr_word:
  fixes x :: "'a::len word" and k :: "'b::len word"
  shows "ashr_val (word_val x) (word_val k) = word_val (signed_drop_bit (unat k) x)"
proof -
  have big: "int LENGTH('a) \<le> uint k \<longleftrightarrow> LENGTH('a) \<le> unat k" by (rule uint_unat_le)
  show ?thesis
    by (rule word_val_eqI)
      (auto simp: ashr_val_def v_rshift_def sext_def resize_def Let_def big bit_simps drop_bit_and_1' min_def
        mask_eq_exp_minus_1 [symmetric] intro!: int_eqI dest: bit_imp_le_length)
qed

section \<open>The operators of the class are the word operations\<close>

text \<open>C24: On known operands of one width the arithmetic and bitwise operators of \<open>Value\<close> are the
  wrapping operations of machine words.\<close>

theorem value_ops_are_word_ops:
  fixes x y :: "'a::len word"
  shows "v_add (word_val x) (word_val y) = word_val (x + y)
    \<and> v_sub (word_val x) (word_val y) = word_val (x - y)
    \<and> v_mul (word_val x) (word_val y) = word_val (x * y)
    \<and> v_neg (word_val x) = word_val (- x)
    \<and> v_and (word_val x) (word_val y) = word_val (x AND y)
    \<and> v_or (word_val x) (word_val y) = word_val (x OR y)
    \<and> v_xor (word_val x) (word_val y) = word_val (x XOR y)
    \<and> v_invert (word_val x) = word_val (NOT x)
    \<and> v_floordiv (word_val x) (word_val y) = (if y = 0 then v_x LENGTH('a) else word_val (x div y))
    \<and> v_mod (word_val x) (word_val y) = (if y = 0 then v_x LENGTH('a) else word_val (x mod y))"
  by (auto simp: ring_ops bit_ops div_ops) (simp_all add: v_floordiv_def v_mod_def Let_def)

text \<open>C26: Shifts by a known amount, of any width, are the logical shifts of machine words, and the
  evaluator's \<open>>>>\<close> is the arithmetic shift: amounts past the width give zero or copies of the sign.\<close>

theorem shifts_are_word_shifts:
  fixes x :: "'a::len word" and k :: "'b::len word"
  shows "v_lshift (word_val x) (word_val k) = word_val (push_bit (unat k) x)
    \<and> v_rshift (word_val x) (word_val k) = word_val (drop_bit (unat k) x)
    \<and> ashr_val (word_val x) (word_val k) = word_val (signed_drop_bit (unat k) x)"
  by (simp add: shift_ops ashr_word)

text \<open>C25: Comparisons of known operands of one width are the unsigned comparisons of machine words,
  and the evaluator's signed comparisons are the signed ones.\<close>

theorem comparisons_are_word_comparisons:
  fixes x y :: "'a::len word"
  shows "eq4 (word_val x) (word_val y) = bool_val (x = y)
    \<and> lt4 (word_val x) (word_val y) = bool_val (x < y)
    \<and> le4 (word_val x) (word_val y) = bool_val (x \<le> y)
    \<and> gt4 (word_val x) (word_val y) = bool_val (y < x)
    \<and> ge4 (word_val x) (word_val y) = bool_val (y \<le> x)
    \<and> eval_signed_cmp Lt (word_val x) (word_val y) = Inr (bool_val (x <s y))
    \<and> eval_signed_cmp Le (word_val x) (word_val y) = Inr (bool_val (x \<le>s y))
    \<and> eval_signed_cmp Gt (word_val x) (word_val y) = Inr (bool_val (y <s x))
    \<and> eval_signed_cmp Ge (word_val x) (word_val y) = Inr (bool_val (y \<le>s x))"
  by (simp add: compare_ops eval_signed_cmp_def as_signed_word word_sless_alt word_sle_eq)


lemma concat_word:
  fixes x :: "'a::len word" and y :: "'b::len word"
  assumes "LENGTH('c::len) = LENGTH('a) + LENGTH('b)"
  shows "v_concat (word_val x) [word_val y] = word_val (word_cat x y :: 'c word)"
proof -
  have "v_concat (word_val x) [word_val y] = glue (word_val x) (word_val y)"
    by (subst v_concat_eq) auto
  moreover have "glue (word_val x) (word_val y) = word_val (word_cat x y :: 'c word)"
    by (rule word_val_eqI) (use assms in \<open>auto simp: glue_sel bit_simps bit_word_cat_iff intro!: int_eqI dest: bit_imp_le_length\<close>)
  ultimately show ?thesis by simp
qed

end
