(* ===== verification/Signed_Divide.thy ===== *)
theory Signed_Divide
  imports Value_Words "HOL-Library.Signed_Division"
begin

text \<open>
  The evaluator's signed division and modulus. Python's \<open>int(a / b)\<close> rounds the quotient to a double
  before it truncates; the rounding is harmless for a dividend below \<open>2 ^ 53\<close>, whatever the divisor,
  and visible beyond.
\<close>

section \<open>Signed division\<close>

lemma int_bits_bounds: "0 < n \<Longrightarrow> 2 ^ (int_bits n - 1) \<le> n \<and> n < 2 ^ int_bits n \<and> 0 < int_bits n"
proof (induction n rule: int_bits.induct)
  case (1 n)
  show ?case
  proof (cases "n div 2 = 0")
    case True
    then have "n = 1" using 1(2) by simp
    then show ?thesis by (simp add: int_bits.simps)
  next
    case False
    then have "0 < n div 2" using 1(2) by simp
    moreover have b: "int_bits n = Suc (int_bits (n div 2))"
      using 1(2) by (subst int_bits.simps) simp
    ultimately have h: "2 ^ (int_bits (n div 2) - 1) \<le> n div 2" "n div 2 < 2 ^ int_bits (n div 2)" "0 < int_bits (n div 2)"
      using 1 by auto
    have "(2::int) ^ int_bits (n div 2) = 2 * 2 ^ (int_bits (n div 2) - 1)"
      using h(3) by (cases "int_bits (n div 2)") simp_all
    moreover have "int_bits n - 1 = Suc (int_bits (n div 2) - 1)" using h(3) b by simp
    ultimately show ?thesis using h b by (simp, linarith)
  qed
qed

lemma bit_length_bounds:
  assumes "0 < (n::int)"
  shows "2 ^ (bit_length n - 1) \<le> n" "n < 2 ^ bit_length n" "0 < bit_length n"
  using int_bits_bounds [OF assms] assms by (simp_all add: bit_length_def)

lemma float_exponent_lower:
  assumes "0 < n" "n < 2 ^ 53" "0 < d"
  shows "float_exponent n d \<le> 0" "d * 2 ^ 52 \<le> n * 2 ^ nat (- float_exponent n d)"
proof -
  define L where "L = bit_length n"
  define M where "M = bit_length d"
  have L: "2 ^ (L - 1) \<le> n" "0 < L" and M: "d < 2 ^ M" "0 < M"
    using bit_length_bounds [OF assms(1)] bit_length_bounds [OF assms(3)] by (simp_all add: L_def M_def)
  have "(2::int) ^ (L - 1) < 2 ^ 53" using L(1) assms(2) by linarith
  then have "L - 1 < 53" by (rule power_less_imp_less_exp [rotated]) simp
  then have L53: "L \<le> 53" by simp
  define k where "k = M + 53 - L"
  have k: "nat (- (int L - int M - 53)) = k" "\<not> 0 \<le> int L - int M - 53" "0 < k"
    using L53 M(2) by (auto simp: k_def)
  have e: "float_exponent n d = (if d * 2 ^ 53 \<le> n * 2 ^ k then - int k + 1 else - int k)"
    using k L53 by (simp add: float_exponent_def Let_def L_def [symmetric] M_def [symmetric] k_def)
  then show "float_exponent n d \<le> 0" using k(3) by auto
  show "d * 2 ^ 52 \<le> n * 2 ^ nat (- float_exponent n d)"
  proof (cases "d * 2 ^ 53 \<le> n * 2 ^ k")
    case True
    then have "nat (- float_exponent n d) = k - 1" using e by simp
    moreover have "(2::int) ^ k = 2 * 2 ^ (k - 1)" using k(3) by (cases k) simp_all
    ultimately show ?thesis using True by simp
  next
    case False
    then have nk: "nat (- float_exponent n d) = k" using e by simp
    have "d * 2 ^ 52 \<le> 2 ^ M * 2 ^ 52" using M(1) by simp
    moreover have "(2::int) ^ M * 2 ^ 52 = 2 ^ (L - 1) * 2 ^ k"
      unfolding power_add [symmetric] using L(2) L53 by (simp only: k_def) simp
    moreover have "2 ^ (L - 1) * 2 ^ k \<le> n * 2 ^ k" using L(1) by simp
    ultimately show ?thesis unfolding nk by linarith
  qed
qed

lemma div_step:
  assumes "0 < (m::int)"
  shows "(q + 1) div m = q div m \<or> (q + 1) div m = q div m + 1 \<and> m dvd q + 1"
proof (cases "q mod m + 1 = m")
  case True
  then have "q + 1 = m * (q div m) + m" using mult_div_mod_eq [of m q] by linarith
  then have "q + 1 = m * (q div m + 1)" by (simp add: algebra_simps)
  then show ?thesis using assms by simp
next
  case False
  then have "q mod m + 1 < m" using pos_mod_bound [OF assms, of q] by linarith
  moreover have "q + 1 = m * (q div m) + (q mod m + 1)" using mult_div_mod_eq [of m q] by simp
  ultimately show ?thesis
    using assms pos_mod_sign [OF assms, of q] by (metis add_nonneg_nonneg int_div_pos_eq zero_le_one)
qed

lemma float_trunc_exact:
  assumes n: "0 < n" "n < 2 ^ 53" and d: "0 < d"
  shows "float_trunc (float_quotient n d) = n div d"
proof (cases "float_exponent n d = 0")
  case True
  have "d * 2 ^ 52 \<le> n" using float_exponent_lower(2) [OF assms] True by simp
  then have "d = 1" using n(2) d by simp
  then show ?thesis using True by (simp add: float_trunc_def float_quotient_def round_half_even_def)
next
  case False
  define k where "k = nat (- float_exponent n d)"
  define q where "q = n * 2 ^ k div d"
  have k: "float_exponent n d = - int k" "0 < k" and low: "d * 2 ^ 52 \<le> n * 2 ^ k"
    using float_exponent_lower [OF assms] False by (auto simp: k_def)
  have q: "q div 2 ^ k = n div d"
    by (simp add: q_def zdiv_zmult2_eq [symmetric] mult.commute)
  have "(q + 1) div 2 ^ k = q div 2 ^ k" if "d \<le> 2 * (n * 2 ^ k mod d)"
  proof (rule ccontr)
    assume "(q + 1) div 2 ^ k \<noteq> q div 2 ^ k"
    then have "2 ^ k dvd q + 1" using div_step [of "2 ^ k" q] by auto
    then have "q + 1 = (q + 1) div 2 ^ k * 2 ^ k" by simp
    moreover have "(q + 1) div 2 ^ k = n div d + 1"
      using div_step [of "2 ^ k" q] \<open>(q + 1) div 2 ^ k \<noteq> q div 2 ^ k\<close> q by simp
    ultimately have t: "q + 1 = (n div d + 1) * 2 ^ k" by simp
    have "n * 2 ^ k = d * q + n * 2 ^ k mod d" by (simp add: q_def)
    then have "2 * (d * (q + 1) - n * 2 ^ k) \<le> d" using that by (simp add: algebra_simps)
    then have le: "2 * 2 ^ k * (d * (n div d + 1) - n) \<le> d" unfolding t by (simp add: algebra_simps)
    have one: "1 \<le> d * (n div d + 1) - n"
      using pos_mod_bound [OF d, of n] mult_div_mod_eq [of d n]
      unfolding distrib_left mult_1_right by linarith
    have "2 * 2 ^ k * 1 \<le> 2 * 2 ^ k * (d * (n div d + 1) - n)"
      by (rule mult_left_mono [OF one]) simp
    then have "2 * 2 ^ k \<le> d" unfolding mult_1_right using le by (rule order_trans)
    then have "2 ^ 53 * 2 ^ k \<le> d * 2 ^ 52" by simp
    then have "2 ^ 53 * 2 ^ k \<le> n * (2::int) ^ k" using low by linarith
    then show False using n(2) by simp
  qed
  then show ?thesis
    using k q by (auto simp: float_trunc_def float_quotient_def round_half_even_def Let_def
        q_def [symmetric])
qed

lemma py_trunc_div_exact:
  assumes "b \<noteq> 0" "\<bar>a\<bar> < 2 ^ 53"
  shows "py_trunc_div a b = Inr (trunc_div a b)"
proof (cases "a = 0")
  case False
  have "float_trunc (float_quotient \<bar>a\<bar> \<bar>b\<bar>) = \<bar>a\<bar> div \<bar>b\<bar>"
    using float_trunc_exact [of "\<bar>a\<bar>" "\<bar>b\<bar>"] False assms by simp
  moreover have "\<bar>a\<bar> div \<bar>b\<bar> < 2 ^ 1024"
  proof -
    have "\<bar>a\<bar> div \<bar>b\<bar> \<le> \<bar>a\<bar>" using zdiv_mono2 [of "\<bar>a\<bar>" 1 "\<bar>b\<bar>"] assms(1) by simp
    moreover have "(2::int) ^ 53 < 2 ^ 1024" by (rule power_strict_increasing) simp_all
    ultimately show ?thesis using assms(2) by linarith
  qed
  ultimately show ?thesis using False assms(1) by (simp add: py_trunc_div_def trunc_div_def Let_def)
qed (use assms in \<open>simp add: py_trunc_div_def trunc_div_def\<close>)

lemma trunc_div_sdiv: "trunc_div a b = a sdiv b"
  by (auto simp: trunc_div_def signed_divide_int_def sgn_if)

text \<open>C34: Signed division and modulus truncate toward zero on operands of up to 53 bits, where
  Python's float quotient is exact enough: on machine words the result is the word of the truncating
  quotient and remainder of the two's complement numbers, and unknown when the divisor is zero.\<close>

theorem signed_divmod_exact:
  fixes x y :: "'a::len word"
  assumes "LENGTH('a) \<le> 53"
  shows "eval_signed_divmod Div (word_val x) (word_val y)
      = Inr (if y = 0 then v_x LENGTH('a) else word_val (word_of_int (sint x sdiv sint y) :: 'a word))
    \<and> eval_signed_divmod Mod (word_val x) (word_val y)
      = Inr (if y = 0 then v_x LENGTH('a) else word_val (word_of_int (sint x smod sint y) :: 'a word))"
proof -
  have "- (2 ^ (LENGTH('a) - 1)) \<le> sint x" "sint x < 2 ^ (LENGTH('a) - 1)"
    using sint_ge [of x] sint_lt [of x] by simp_all
  moreover have "(2::int) ^ (LENGTH('a) - 1) < 2 ^ 53"
    using assms len_gt_0 [where 'a = 'a] by (intro power_strict_increasing) linarith+
  ultimately have "\<bar>sint x\<bar> < 2 ^ 53" by linarith
  then have "y \<noteq> 0 \<Longrightarrow> py_trunc_div (sint x) (sint y) = Inr (sint x sdiv sint y)"
    using py_trunc_div_exact [of "sint y" "sint x"] by (simp add: trunc_div_sdiv signed_eq_0_iff)
  then show ?thesis
    by (simp add: eval_signed_divmod_def as_signed_word word_val_of_int minus_mult_sdiv_eq_smod uint_0_iff)
qed

theorem signed_divmod_exact_witness:
  "eval_signed_divmod Div (word_val (-7 :: 8 word)) (word_val (2 :: 8 word)) = Inr (word_val (-3 :: 8 word))"
  using signed_divmod_exact [of "-7 :: 8 word" 2] by (simp add: signed_divide_int_def)


end
