(* ===== verification/Value_Properties.thy ===== *)
theory Value_Properties
  imports Value4_Bits Value4_Order Verilog_Literal
begin

text \<open>
  What the class \<open>Value\<close> promises about bits, slices, concatenation and text, over the bit-string
  reading \<open>to_bits\<close> of a value.
\<close>


section \<open>Bits\<close>

text \<open>C37: The bitwise operators are the Kleene connectives, bit by bit: at every position the result
  of \<open>&\<close>, \<open>|\<close> and \<open>^\<close> on two well-formed values is the three-valued connective of the two bits, the
  narrower operand being zero-extended.\<close>

theorem bitwise_is_kleene:
  assumes "wf_val a" "wf_val b"
  shows "bit_at (v_and a b) i = kleene_and (bit_at a i) (bit_at b i)
    \<and> bit_at (v_or a b) i = kleene_or (bit_at a i) (bit_at b i)
    \<and> bit_at (v_xor a b) i = kleene_xor (bit_at a i) (bit_at b i)"
  using bit_val_and [OF assms] bit_val_or [OF assms] bit_val_xor [OF assms] by simp

theorem bitwise_is_kleene_witness:
  "bit_at (v_and (mk_value 5 4 2) (known 3 3)) 1 = kleene_and (bit_at (mk_value 5 4 2) 1) (bit_at (known 3 3) 1)"
  using bitwise_is_kleene [of "mk_value 5 4 2" "known 3 3" 1] by simp


lemma resolved_stable:
  assumes "val4_binop f wd" "wf_val a" "wf_val b" "wf_val c" "wf_val d" "refines c a" "refines d b"
  shows "refines (f c d) (f a b) \<and> (v_mask (f a b) = 0 \<longrightarrow> f c d = f a b)"
  using val4_binop.f_mono [OF assms(1,4,5,2,3,6,7)] refines_defined_eq by blast

text \<open>C19: Unknown bits are conservative. If the operands \<open>c\<close>, \<open>d\<close> resolve unknown bits of \<open>a\<close>, \<open>b\<close>,
  then the result on \<open>c\<close>, \<open>d\<close> resolves the result on \<open>a\<close>, \<open>b\<close>, and a result without unknown bits stays
  the same: no operator reports a known bit that a resolution of the unknown inputs contradicts. The
  case equalities, which read unknown bits as values, are the exception.\<close>

theorem unknowns_conservative:
  assumes "wf_val a" "wf_val b" "wf_val c" "wf_val d" "refines c a" "refines d b"
  shows "list_all (\<lambda>f. refines (f c d) (f a b) \<and> (v_mask (f a b) = 0 \<longrightarrow> f c d = f a b))
     [v_add, v_sub, v_mul, v_floordiv, v_mod, v_pow, v_and, v_or, v_xor, v_lshift, v_rshift,
      eq4, ne4, lt4, le4, gt4, ge4, logical_and, logical_or]"
proof -
  note m = resolved_stable [OF _ assms]
  show ?thesis
    using m [OF add_op.val4_binop_axioms] m [OF sub_op.val4_binop_axioms] m [OF mul_op.val4_binop_axioms]
      m [OF div_op.val4_binop_axioms] m [OF mod_op.val4_binop_axioms] m [OF pow_op.val4_binop_axioms]
      m [OF and_op.val4_binop_axioms] m [OF or_op.val4_binop_axioms] m [OF xor_op.val4_binop_axioms]
      m [OF lshift_op.val4_binop_axioms] m [OF rshift_op.val4_binop_axioms]
      m [OF cmp_op.val4_binop_axioms]
      m [OF land_op.val4_binop_axioms] m [OF lor_op.val4_binop_axioms]
    by (simp add: eq4_def ne4_def lt4_def le4_def gt4_def ge4_def)
qed

theorem unknowns_conservative_witness:
  "refines (v_and (known 5 3) (known 3 3)) (v_and (mk_value 4 3 1) (known 3 3))"
proof -
  have "refines (known 5 3) (mk_value 4 3 1)" by code_simp
  from unknowns_conservative [OF _ _ _ _ this refines_refl [of "known 3 3"]]
  show ?thesis by simp
qed

text \<open>C20: Writing a slice and reading it back returns what was written: for a slice inside the value,
  the bits read are the written value cut or zero-extended to the slice's width.\<close>

theorem slice_write_read:
  assumes "wf_val p" "0 \<le> l" "l \<le> m" "m < int (v_width v)"
  shows "get_range (set_range v m l p) m l = resize p (nat (m - l + 1))"
  by (rule get_set_range [OF assms])

theorem slice_write_read_witness:
  "get_range (set_range (v_x 16) 11 4 (known 200 8)) 11 4 = resize (known 200 8) (nat (11 - 4 + 1))"
  by (rule slice_write_read) simp_all

text \<open>C21: A slice write touches nothing else: every bit outside the written positions keeps its value,
  for any bounds, in or out of range.\<close>

theorem slice_write_frame:
  assumes "wf_val p" "i < v_width v" "int i < l \<or> m < int i"
  shows "bit_at (set_range v m l p) i = bit_at v i"
  using assms by (subst bit_at_set_range) auto

theorem slice_write_frame_witness:
  "bit_at (set_range (v_x 16) 11 4 (known 200 8)) 3 = bit_at (v_x 16) 3"
  by (rule slice_write_frame) simp_all

text \<open>Concatenation is concatenation of bit strings, most significant part first.\<close>

theorem concat_joins_bits:
  assumes "wf_val a" "\<forall>u\<in>set us. wf_val u"
  shows "to_bits (v_concat a us) = concat (map to_bits (a # us))"
  by (rule to_bits_v_concat [OF assms])

theorem concat_joins_bits_witness:
  "to_bits (v_concat (known 2 2) [v_x 1, known 1 3]) = concat (map to_bits [known 2 2, v_x 1, known 1 3])"
  by (rule concat_joins_bits) simp_all

text \<open>Streaming reversal is an involution when the chunk size divides the width: reversing the
  chunks twice gives the value back, unknown bits included.\<close>

theorem streaming_involution:
  assumes "wf_val v" "0 < s" "0 < v_width v" "nat s dvd v_width v" "stream_reverse v s = Inr r"
  shows "stream_reverse r s = Inr v"
  by (rule stream_reverse_twice [OF assms])

theorem streaming_involution_witness: "stream_reverse (mk_value 0x4321 16 0x800) 4 = Inr (mk_value 0x1234 16 0x80)"
proof (rule streaming_involution)
  show "stream_reverse (mk_value 0x1234 16 0x80) 4 = Inr (mk_value 0x4321 16 0x800)" by code_simp
qed simp_all

section \<open>Text\<close>



text \<open>C23: The hexadecimal form round-trips too: \<open>to_hex\<close> prints known values in hexadecimal and falls
  back to binary digits when a bit is unknown, and \<open>from_verilog\<close> reads both back exactly.\<close>

theorem hex_literal_roundtrip:
  assumes "wf_val v" "0 < v_width v"
  shows "from_verilog (val_to_hex v) = Inr v"
  by (rule from_verilog_val_to_hex [OF assms])

theorem hex_literal_roundtrip_witness: "from_verilog (val_to_hex (known 0xBEEF 20)) = Inr (known 0xBEEF 20)"
  by (rule hex_literal_roundtrip) simp_all

end
