(* ===== verification/Semantics.thy ===== *)
theory Semantics
  imports Expr
begin

text \<open>
  \<open>semantics.py\<close>, the module that all engines share for constant expressions, self-determined
  widths and signedness.

  \<open>env\<close> maps parameter names to values. \<open>iw\<close> is the slot \<open>inferred_width\<close> of a node. \<open>params\<close> lists
  the parameters of the design with their default-value expressions; an identifier that name
  resolution bound to a parameter carries its identity. The guard \<open>_RESOLVING_PARAMS\<close> is the
  argument \<open>resolving\<close>.
\<close>

section \<open>Integer operators of constant expressions\<close>

definition fold_bits :: nat where
  "fold_bits = 65536"

definition const_pow :: "int \<Rightarrow> int \<Rightarrow> int option" where
  "const_pow a b =
     (if b < 0 then
        (if a = 0 then None
         else if a = 1 then Some 1
         else if a = - 1 then Some (if b mod 2 \<noteq> 0 then - 1 else 1)
         else Some 0)
      else if \<bar>a\<bar> > 1 \<and> b * int (bit_length a) > int fold_bits
        then Some (a ^ nat b mod push_bit fold_bits 1)
      else Some (a ^ nat b))"

definition const_div :: "int \<Rightarrow> int \<Rightarrow> int option" where
  "const_div a b =
     (if b = 0 then None
      else (let q = \<bar>a\<bar> div \<bar>b\<bar> in Some (if (a < 0) = (b < 0) then q else - q)))"

definition const_mod :: "int \<Rightarrow> int \<Rightarrow> int option" where
  "const_mod a b = (case const_div a b of None \<Rightarrow> None | Some q \<Rightarrow> Some (a - b * q))"

definition const_shl :: "int \<Rightarrow> int \<Rightarrow> int option" where
  "const_shl a b =
     (if b < 0 then None
      else if int fold_bits \<le> b then Some 0
      else Some (push_bit (nat b) a))"

definition const_shr :: "int \<Rightarrow> int \<Rightarrow> int option" where
  "const_shr a b = (if 0 \<le> b then Some (drop_bit (nat b) a) else None)"

function bit_count :: "int \<Rightarrow> int" where
  "bit_count n = (if n \<le> 0 then 0 else n mod 2 + bit_count (n div 2))"
  by pat_completeness auto
termination
  by (relation "measure nat") auto

declare bit_count.simps [simp del]

definition of_truth :: "bool \<Rightarrow> int" where
  "of_truth b = (if b then 1 else 0)"

definition unary_const :: "unop \<Rightarrow> int \<Rightarrow> int res" where
  "unary_const op v = (case op of
     UPlus \<Rightarrow> Inr v
   | UMinus \<Rightarrow> Inr (- v)
   | UInv \<Rightarrow> Inr (NOT v)
   | UNot \<Rightarrow> Inr (of_truth (v = 0))
   | URedOr \<Rightarrow> Inr (of_truth (v \<noteq> 0))
   | URedNor \<Rightarrow> Inr (of_truth (v = 0))
   | URedXor \<Rightarrow> (if 0 \<le> v then Inr (bit_count v mod 2) else Inl ValueError)
   | _ \<Rightarrow> Inl ValueError)"

definition from_opt :: "'a option \<Rightarrow> 'a res" where
  "from_opt x = (case x of Some y \<Rightarrow> Inr y | None \<Rightarrow> Inl ValueError)"

definition binary_const :: "binop \<Rightarrow> int \<Rightarrow> int \<Rightarrow> int res" where
  "binary_const op a b = (case op of
     Add \<Rightarrow> Inr (a + b)
   | Sub \<Rightarrow> Inr (a - b)
   | Mul \<Rightarrow> Inr (a * b)
   | Div \<Rightarrow> from_opt (const_div a b)
   | Mod \<Rightarrow> from_opt (const_mod a b)
   | Pow \<Rightarrow> from_opt (const_pow a b)
   | BAnd \<Rightarrow> Inr (a AND b)
   | BOr \<Rightarrow> Inr (a OR b)
   | BXor \<Rightarrow> Inr (a XOR b)
   | BXnor \<Rightarrow> Inr (NOT (a XOR b))
   | BXnor2 \<Rightarrow> Inr (NOT (a XOR b))
   | Shl \<Rightarrow> from_opt (const_shl a b)
   | AShl \<Rightarrow> from_opt (const_shl a b)
   | Shr \<Rightarrow> from_opt (const_shr a b)
   | AShr \<Rightarrow> from_opt (const_shr a b)
   | Eq \<Rightarrow> Inr (of_truth (a = b))
   | Ne \<Rightarrow> Inr (of_truth (a \<noteq> b))
   | CaseEq \<Rightarrow> Inr (of_truth (a = b))
   | CaseNe \<Rightarrow> Inr (of_truth (a \<noteq> b))
   | Lt \<Rightarrow> Inr (of_truth (a < b))
   | Le \<Rightarrow> Inr (of_truth (a \<le> b))
   | Gt \<Rightarrow> Inr (of_truth (a > b))
   | Ge \<Rightarrow> Inr (of_truth (a \<ge> b))
   | LAnd \<Rightarrow> Inr (of_truth (a \<noteq> 0 \<and> b \<noteq> 0))
   | LOr \<Rightarrow> Inr (of_truth (a \<noteq> 0 \<or> b \<noteq> 0))
   | BOther _ \<Rightarrow> Inl ValueError)"

section \<open>Constant expressions\<close>

type_synonym env = "string \<Rightarrow> int option"
type_synonym annotation = "expr \<Rightarrow> int option"
type_synonym param_table = "(param_id \<times> expr) list"

fun const_part_width :: "annotation \<Rightarrow> expr \<Rightarrow> int option" where
  "const_part_width iw e =
     (case iw e of
        Some w \<Rightarrow> Some w
      | None \<Rightarrow> (case e of
          Literal l \<Rightarrow> map_option int (lit_width l)
        | Concatenation parts \<Rightarrow>
            foldr (\<lambda>x acc. case x of None \<Rightarrow> None | Some w \<Rightarrow> map_option ((+) w) acc)
              (map (const_part_width iw) parts) (Some 0)
        | _ \<Rightarrow> None))"

declare const_part_width.simps [simp del]

text \<open>Python's shifts raise on a negative count.\<close>

definition py_shl :: "int \<Rightarrow> int \<Rightarrow> int res" where
  "py_shl a n = (if n < 0 then Inl ValueError else Inr (push_bit (nat n) a))"

definition py_shr :: "int \<Rightarrow> int \<Rightarrow> int res" where
  "py_shr a n = (if n < 0 then Inl ValueError else Inr (drop_bit (nat n) a))"

text \<open>\<open>x & ((1 << w) - 1)\<close>.\<close>

definition low_bits :: "int \<Rightarrow> int \<Rightarrow> int res" where
  "low_bits x w = rmap (\<lambda>p. x AND (p - 1)) (py_shl 1 w)"

definition const_literal :: "literal \<Rightarrow> int res" where
  "const_literal l = (case lit_value l of
     LitText t \<Rightarrow> py_int 10 t
   | LitInt n \<Rightarrow>
       (case lit_width l of
          Some w \<Rightarrow>
            Inr (if lit_signed l \<and> w \<noteq> 0 \<and> 0 \<le> n \<and> drop_bit (w - 1) n \<noteq> 0 then n - push_bit w 1 else n)
        | None \<Rightarrow> Inr n))"

definition const_lookup :: "env \<Rightarrow> string \<Rightarrow> string list \<Rightarrow> int option" where
  "const_lookup env n h =
     (case env (identifier_name n h) of Some v \<Rightarrow> Some v | None \<Rightarrow> env n)"

text \<open>The loop over the parts of a concatenation, and the loop of a replication.\<close>

fun const_concat :: "(int res \<times> int option) list \<Rightarrow> int \<Rightarrow> int res" where
  "const_concat [] acc = Inr acc"
| "const_concat ((v, w) # ps) acc =
     rbind v (\<lambda>part_val. (case w of
        None \<Rightarrow> Inl ValueError
      | Some part_width \<Rightarrow>
          rbind (py_shl acc part_width) (\<lambda>a. rbind (low_bits part_val part_width) (\<lambda>b.
            const_concat ps (a OR b)))))"

fun const_replicate :: "nat \<Rightarrow> nat \<Rightarrow> int \<Rightarrow> int \<Rightarrow> int" where
  "const_replicate 0 w v acc = acc"
| "const_replicate (Suc n) w v acc = const_replicate n w v (push_bit w acc OR v)"

definition unresolved :: "param_table \<Rightarrow> param_id list \<Rightarrow> nat" where
  "unresolved params resolving = length (filter (\<lambda>p. fst p \<notin> set resolving) params)"

lemma unresolved_less [termination_simp]:
  assumes "map_of params p = Some e" "p \<notin> set resolving"
  shows "unresolved params (p # resolving) < unresolved params resolving"
proof -
  have e: "(p, e) \<in> set params" using assms(1) by (rule map_of_SomeD)
  have "length (filter (\<lambda>q. fst q \<noteq> p) (filter (\<lambda>q. fst q \<notin> set resolving) params))
      < length (filter (\<lambda>q. fst q \<notin> set resolving) params)"
    by (rule length_filter_less [where x = "(p, e)"]) (use e assms(2) in auto)
  then show ?thesis
    by (simp add: unresolved_def conj_commute)
qed

function eval_const :: "env \<Rightarrow> annotation \<Rightarrow> param_table \<Rightarrow> param_id list \<Rightarrow> expr \<Rightarrow> int res" where
  "eval_const env iw ps R (StringLiteral s) = Inl ValueError"
| "eval_const env iw ps R (Literal l) = const_literal l"
| "eval_const env iw ps R (Identifier n h r) =
     (case const_lookup env n h of
        Some v \<Rightarrow> Inr v
      | None \<Rightarrow> (case r of
          None \<Rightarrow> Inl ValueError
        | Some p \<Rightarrow> (case map_of ps p of
            None \<Rightarrow> Inl ValueError
          | Some dflt \<Rightarrow> (if p \<in> set R then Inl ValueError else eval_const env iw ps (p # R) dflt))))"
| "eval_const env iw ps R (UnaryOp op a) = rbind (eval_const env iw ps R a) (unary_const op)"
| "eval_const env iw ps R (BinaryOp op a b) =
     rbind (eval_const env iw ps R a) (\<lambda>x. rbind (eval_const env iw ps R b) (binary_const op x))"
| "eval_const env iw ps R (TernaryOp c a b) =
     rbind (eval_const env iw ps R c) (\<lambda>x.
       if x \<noteq> 0 then eval_const env iw ps R a else eval_const env iw ps R b)"
| "eval_const env iw ps R (Concatenation parts) =
     (let vs = map (\<lambda>p. (eval_const env iw ps R p, const_part_width iw p)) parts
      in if length parts = 1 then fst (hd vs) else const_concat vs 0)"
| "eval_const env iw ps R (Replication c v) =
     rbind (eval_const env iw ps R c) (\<lambda>cnt.
     rbind (eval_const env iw ps R v) (\<lambda>value.
       (case const_part_width iw v of
          None \<Rightarrow> Inl ValueError
        | Some w \<Rightarrow> rmap (\<lambda>masked. const_replicate (nat cnt) (nat w) masked 0) (low_bits value w))))"
| "eval_const env iw ps R (RangeSelect t m l) =
     rbind (eval_const env iw ps R t) (\<lambda>base.
     rbind (eval_const env iw ps R m) (\<lambda>msb.
     rbind (eval_const env iw ps R l) (\<lambda>lsb.
     rbind (py_shr base (min msb lsb)) (\<lambda>x. low_bits x (\<bar>msb - lsb\<bar> + 1)))))"
| "eval_const env iw ps R (PartSelect t b w dir) =
     rbind (eval_const env iw ps R t) (\<lambda>target_val.
     rbind (eval_const env iw ps R b) (\<lambda>base_val.
     rbind (eval_const env iw ps R w) (\<lambda>width_val.
     rbind (py_shr target_val (if dir = PlusColon then base_val else base_val - width_val + 1))
       (\<lambda>x. low_bits x width_val))))"
| "eval_const env iw ps R (Mintypmax a b c) = eval_const env iw ps R b"
| "eval_const env iw ps R (WidthCast w e) =
     rbind (eval_const env iw ps R e) (\<lambda>v. rbind (eval_const env iw ps R w) (low_bits v))"
| "eval_const env iw ps R (FunctionCall f args) =
     (let vs = map (eval_const env iw ps R) args
      in if f = ''$clog2'' \<and> length args = 1 then
           rmap (\<lambda>v. if 0 < v then int (bit_length (v - 1)) else 0) (hd vs)
         else if f = ''$bits'' \<and> length args = 1 then
           (case iw (hd args) of
              Some w \<Rightarrow> Inr w
            | None \<Rightarrow> (case hd args of
                Identifier n _ _ \<Rightarrow> from_opt (env (''$bits:'' @ n))
              | _ \<Rightarrow> Inl ValueError))
         else if (f = ''$signed'' \<or> f = ''$unsigned'') \<and> length args = 1 then hd vs
         else if f = ''$pow'' \<and> length args = 2 then
           rbind (vs ! 0) (\<lambda>b. rbind (vs ! 1) (\<lambda>e. if e < 0 then Inl ValueError else Inr (b ^ nat e)))
         else Inl ValueError)"
| "eval_const env iw ps R (StreamingConcatenation _ _) = Inl ValueError"
| "eval_const env iw ps R (AssignmentPattern _ _ _) = Inl ValueError"
| "eval_const env iw ps R (BitSelect _ _) = Inl ValueError"
  by pat_completeness auto
termination
  by (relation "measures [\<lambda>(env, iw, ps, R, e). unresolved ps R, \<lambda>(env, iw, ps, R, e). size e]")
    (auto simp: termination_simp less_Suc_eq_le size_list_estimation' dest: unresolved_less)

definition const_int :: "env \<Rightarrow> annotation \<Rightarrow> param_table \<Rightarrow> expr option \<Rightarrow> int option" where
  "const_int env iw ps e = (case e of
     None \<Rightarrow> None
   | Some x \<Rightarrow> (case eval_const env iw ps [] x of Inr v \<Rightarrow> Some v | Inl _ \<Rightarrow> None))"

section \<open>Widths\<close>

type_synonym range_decl = "expr \<times> expr"

definition range_width :: "env \<Rightarrow> annotation \<Rightarrow> param_table \<Rightarrow> range_decl option \<Rightarrow> int" where
  "range_width env iw ps r = (case r of
     None \<Rightarrow> 1
   | Some (m, l) \<Rightarrow> (case (const_int env iw ps (Some m), const_int env iw ps (Some l)) of
       (Some msb, Some lsb) \<Rightarrow> \<bar>msb - lsb\<bar> + 1
     | _ \<Rightarrow> 1))"

datatype variable_kind =
    KReg | KLogic | KBit | KInteger | KReal | KRealtime | KTime | KByte | KShortint | KInt | KLongint | KEvent

definition kind_width :: "variable_kind \<Rightarrow> int option" where
  "kind_width k = (case k of
     KInteger \<Rightarrow> Some 32 | KReal \<Rightarrow> Some 64 | KRealtime \<Rightarrow> Some 64 | KTime \<Rightarrow> Some 64
   | KByte \<Rightarrow> Some 8 | KShortint \<Rightarrow> Some 16 | KInt \<Rightarrow> Some 32 | KLongint \<Rightarrow> Some 64
   | _ \<Rightarrow> None)"

definition var_width ::
    "env \<Rightarrow> annotation \<Rightarrow> param_table \<Rightarrow> variable_kind \<Rightarrow> range_decl option \<Rightarrow> int" where
  "var_width env iw ps k r = (case kind_width k of Some w \<Rightarrow> w | None \<Rightarrow> range_width env iw ps r)"

definition sem_literal_width :: "literal \<Rightarrow> int" where
  "sem_literal_width l = (case (lit_width l, lit_value l) of
     (None, LitInt n) \<Rightarrow> (if lit_signed l \<and> 0 < n then max 32 (int (bit_length n) + 1) else 32)
   | (None, _) \<Rightarrow> 32
   | (Some w, _) \<Rightarrow> int w)"

definition is_real_compare :: "expr \<Rightarrow> bool" where
  "is_real_compare op = (case op of
     Literal l \<Rightarrow> lit_value l \<in> {LitInt 7, LitInt 8, LitInt 9} | _ \<Rightarrow> False)"

fun expr_width :: "(string \<Rightarrow> int) \<Rightarrow> env \<Rightarrow> annotation \<Rightarrow> param_table \<Rightarrow> expr \<Rightarrow> int" where
  "expr_width wof env iw ps (Literal l) = sem_literal_width l"
| "expr_width wof env iw ps (StringLiteral s) = 8 * int (length s)"
| "expr_width wof env iw ps (Identifier n h _) = wof (identifier_name n h)"
| "expr_width wof env iw ps (UnaryOp op a) = (if is_one_bit_unary op then 1 else expr_width wof env iw ps a)"
| "expr_width wof env iw ps (BinaryOp op a b) =
     (if is_one_bit_binary op then 1
      else if is_shift op then expr_width wof env iw ps a
      else if op = Pow then expr_width wof env iw ps a
      else max (expr_width wof env iw ps a) (expr_width wof env iw ps b))"
| "expr_width wof env iw ps (TernaryOp c a b) = max (expr_width wof env iw ps a) (expr_width wof env iw ps b)"
| "expr_width wof env iw ps (Concatenation parts) = sum_list (map (expr_width wof env iw ps) parts)"
| "expr_width wof env iw ps (Replication c v) =
     (case const_int env iw ps (Some c) of Some n \<Rightarrow> n | None \<Rightarrow> 1) * expr_width wof env iw ps v"
| "expr_width wof env iw ps (BitSelect _ _) = 1"
| "expr_width wof env iw ps (RangeSelect t m l) =
     (case (const_int env iw ps (Some m), const_int env iw ps (Some l)) of (Some msb, Some lsb) \<Rightarrow> \<bar>msb - lsb\<bar> + 1 | _ \<Rightarrow> 1)"
| "expr_width wof env iw ps (PartSelect t b w _) = (case const_int env iw ps (Some w) of Some n \<Rightarrow> n | None \<Rightarrow> 1)"
| "expr_width wof env iw ps (FunctionCall f []) = 32"
| "expr_width wof env iw ps (FunctionCall f (a # args)) =
     (if is_sign_cast f \<or> lower f = ''$__2state'' then expr_width wof env iw ps a
      else if lower f = ''$__vf_real'' then (if is_real_compare a then 1 else 64)
      else 32)"
| "expr_width wof env iw ps (Mintypmax a b c) = expr_width wof env iw ps b"
| "expr_width wof env iw ps (WidthCast w e) = (case const_int env iw ps (Some w) of Some n \<Rightarrow> n | None \<Rightarrow> expr_width wof env iw ps e)"
| "expr_width wof env iw ps (StreamingConcatenation _ _) = 32"
| "expr_width wof env iw ps (AssignmentPattern _ _ _) = 32"

section \<open>Signedness\<close>

text \<open>
  \<open>mems\<close> are the signed memories. As in the source, the recursive call on the right operand of a
  binary operator, and on the false branch of a conditional, does not pass them on.
\<close>

fun sem_signed :: "(string \<Rightarrow> bool) \<Rightarrow> (string \<Rightarrow> bool) option \<Rightarrow> string list \<Rightarrow> expr \<Rightarrow> bool" where
  "sem_signed sof fs mems (Identifier n h _) = sof (identifier_name n h)"
| "sem_signed sof fs mems (Literal l) = lit_signed l"
| "sem_signed sof fs mems (BitSelect t i) = (case t of
     Identifier n h _ \<Rightarrow> identifier_name n h \<in> set mems | _ \<Rightarrow> False)"
| "sem_signed sof fs mems (RangeSelect _ _ _) = False"
| "sem_signed sof fs mems (PartSelect _ _ _ _) = False"
| "sem_signed sof fs mems (UnaryOp op a) = (\<not> is_one_bit_unary op \<and> sem_signed sof fs mems a)"
| "sem_signed sof fs mems (BinaryOp op a b) =
     (if is_shift op \<or> op = Pow then sem_signed sof fs mems a
      else if is_one_bit_binary op then False
      else sem_signed sof fs mems a \<and> sem_signed sof fs [] b)"
| "sem_signed sof fs mems (TernaryOp c a b) = (sem_signed sof fs mems a \<and> sem_signed sof fs [] b)"
| "sem_signed sof fs mems (Concatenation _) = False"
| "sem_signed sof fs mems (Replication _ _) = False"
| "sem_signed sof fs mems (FunctionCall f []) =
     (if take 1 (lower f) = ''$'' then lower f = ''$signed''
      else (case fs of Some g \<Rightarrow> g f | None \<Rightarrow> False))"
| "sem_signed sof fs mems (FunctionCall f (a # args)) =
     (if lower f = ''$__2state'' then sem_signed sof fs mems a
      else if take 1 (lower f) = ''$'' then lower f = ''$signed''
      else (case fs of Some g \<Rightarrow> g f | None \<Rightarrow> False))"
| "sem_signed sof fs mems (WidthCast w e) = sem_signed sof fs mems e"
| "sem_signed sof fs mems (StringLiteral _) = False"
| "sem_signed sof fs mems (StreamingConcatenation _ _) = False"
| "sem_signed sof fs mems (AssignmentPattern _ _ _) = False"
| "sem_signed sof fs mems (Mintypmax _ _ _) = False"

end
