(* ===== verification/Semantics_Properties.thy ===== *)
theory Semantics_Properties
  imports Semantics
begin

text \<open>
  What constant expressions promise: the integer operators of \<open>eval_const\<close>, and the treatment of
  parameters that are defined in terms of each other.
\<close>

section \<open>Constant arithmetic\<close>

lemma const_div_abs: "const_div a b = Some q \<Longrightarrow> \<bar>q\<bar> = \<bar>a\<bar> div \<bar>b\<bar>"
proof -
  assume d: "const_div a b = Some q"
  define t where "t = \<bar>a\<bar> div \<bar>b\<bar>"
  have b: "b \<noteq> 0" using d by (auto simp: const_div_def)
  then have "0 \<le> t" by (simp add: t_def pos_imp_zdiv_nonneg_iff)
  moreover have "q = (if (a < 0) = (b < 0) then t else - t)"
    using d b unfolding const_div_def Let_def t_def by simp
  ultimately show ?thesis by (simp add: t_def [symmetric])
qed

lemma const_div_sign: "b \<noteq> 0 \<Longrightarrow> \<exists>q. const_div a b = Some q \<and> \<bar>a - b * q\<bar> = \<bar>a\<bar> mod \<bar>b\<bar> \<and> 0 \<le> a * (a - b * q)"
proof -
  assume b: "b \<noteq> 0"
  define t r where "t = \<bar>a\<bar> div \<bar>b\<bar>" and "r = \<bar>a\<bar> mod \<bar>b\<bar>"
  have a: "\<bar>a\<bar> = \<bar>b\<bar> * t + r" and r: "0 \<le> r" "r < \<bar>b\<bar>"
    using b by (simp_all add: t_def r_def)
  let ?q = "if (a < 0) = (b < 0) then t else - t"
  have bq: "b * ?q = (if a < 0 then - (\<bar>b\<bar> * t) else \<bar>b\<bar> * t)"
    by (auto simp: abs_if)
  have "a - b * ?q = (if a < 0 then - r else r)"
    unfolding bq using a by (auto simp: abs_if)
  then have "\<bar>a - b * ?q\<bar> = r \<and> 0 \<le> a * (a - b * ?q)"
    using r by (auto simp: zero_le_mult_iff mult_le_0_iff)
  then show ?thesis
    using b by (intro exI [of _ ?q]) (simp add: const_div_def Let_def t_def r_def)
qed

text \<open>C40: Constant division truncates toward zero and the remainder takes the sign of the dividend, for
  integers of any size: the two satisfy the division identity, the remainder is smaller than the divisor
  and has the dividend's sign.\<close>

theorem const_divmod_truncates:
  assumes "b \<noteq> 0"
  shows "\<exists>q r. const_div a b = Some q \<and> const_mod a b = Some r \<and> a = b * q + r \<and> \<bar>q\<bar> = \<bar>a\<bar> div \<bar>b\<bar>
    \<and> \<bar>r\<bar> < \<bar>b\<bar> \<and> 0 \<le> a * r"
proof -
  obtain q where q: "const_div a b = Some q" "\<bar>a - b * q\<bar> = \<bar>a\<bar> mod \<bar>b\<bar>" "0 \<le> a * (a - b * q)"
    using const_div_sign [OF assms] by blast
  then show ?thesis
    using assms const_div_abs [OF q(1)] by (auto simp: const_mod_def)
qed

theorem const_divmod_truncates_witness:
  "\<exists>q r. const_div (-7) 2 = Some q \<and> const_mod (-7) 2 = Some r \<and> -7 = 2 * q + r \<and> \<bar>q\<bar> = \<bar>-7\<bar> div \<bar>2\<bar>
    \<and> \<bar>r\<bar> < \<bar>2\<bar> \<and> 0 \<le> -7 * r"
  by (rule const_divmod_truncates) simp

text \<open>Constant exponentiation is exact in every bit that can survive: for a non-negative exponent the
  result agrees with the mathematical power modulo two to any width up to the folding bound, however
  large the power is.\<close>

theorem const_pow_low_bits:
  assumes "0 \<le> b" "w \<le> fold_bits"
  shows "\<exists>r. const_pow a b = Some r \<and> r mod 2 ^ w = a ^ nat b mod 2 ^ w"
proof -
  have "(2::int) ^ w dvd 2 ^ fold_bits" using assms(2) by (rule le_imp_power_dvd)
  then have "a ^ nat b mod push_bit fold_bits 1 mod 2 ^ w = a ^ nat b mod 2 ^ w"
    by (simp add: push_bit_of_1 mod_mod_cancel)
  then show ?thesis using assms(1) by (auto simp: const_pow_def)
qed

theorem const_pow_low_bits_witness: "\<exists>r. const_pow 3 100000000 = Some r \<and> r mod 2 ^ 64 = 3 ^ nat 100000000 mod 2 ^ 64"
  by (rule const_pow_low_bits) (simp_all add: fold_bits_def)

section \<open>Circular parameters\<close>

text \<open>
  \<open>needs env C e\<close>: the value of \<open>e\<close> cannot be had without the value of a parameter in \<open>C\<close>.
\<close>

fun needs :: "env \<Rightarrow> param_id set \<Rightarrow> expr \<Rightarrow> bool" where
  "needs env C (Identifier n h r) = (const_lookup env n h = None \<and> (\<exists>p\<in>C. r = Some p))"
| "needs env C (UnaryOp op a) = needs env C a"
| "needs env C (BinaryOp op a b) = (needs env C a \<or> needs env C b)"
| "needs env C (TernaryOp c a b) = (needs env C c \<or> needs env C a \<and> needs env C b)"
| "needs env C (Concatenation parts) = list_ex (needs env C) parts"
| "needs env C (Replication c v) = (needs env C c \<or> needs env C v)"
| "needs env C (RangeSelect t m l) = (needs env C t \<or> needs env C m \<or> needs env C l)"
| "needs env C (PartSelect t b w d) = (needs env C t \<or> needs env C b \<or> needs env C w)"
| "needs env C (Mintypmax a b c) = needs env C b"
| "needs env C (WidthCast w e) = (needs env C e \<or> needs env C w)"
| "needs env C _ = False"

lemma const_concat_raises: "\<exists>x\<in>set ps. isl (fst x) \<Longrightarrow> isl (const_concat ps acc)"
proof (induction ps acc rule: const_concat.induct)
  case (2 v w ps acc)
  show ?case
  proof (cases v)
    case (Inr x)
    then show ?thesis
      using 2 by (auto simp: rbind_def split: option.split sum.split)
  qed simp
qed simp

lemma rbind_isl [simp]: "isl (rbind m f) \<longleftrightarrow> (\<forall>x. m = Inr x \<longrightarrow> isl (f x))"
  by (cases m) auto

lemma rmap_isl [simp]: "isl (rmap f m) \<longleftrightarrow> isl m"
  by (cases m) auto

lemma circular_raises:
  assumes "\<forall>p\<in>C. case map_of ps p of None \<Rightarrow> True | Some d \<Rightarrow> needs env C d"
  shows "needs env C e \<Longrightarrow> isl (eval_const env iw ps R e)"
  using assms
proof (induction env iw ps R e rule: eval_const.induct)
  case (3 env iw ps R n h r)
  then obtain p where p: "r = Some p" "p \<in> C" "const_lookup env n h = None" by auto
  show ?case
  proof (cases "map_of ps p")
    case (Some d)
    then have "needs env C d" using 3(3) p(2) by auto
    then show ?thesis using 3(1) [OF p(3,1) Some] 3(3) p Some by auto
  qed (use p in simp)
next
  case (7 env iw ps R parts)
  then obtain p where p: "p \<in> set parts" "needs env C p" by (auto simp: list_ex_iff)
  then have i: "isl (eval_const env iw ps R p)" using 7 by blast
  show ?case
  proof (cases "length parts = 1")
    case True
    then have "parts = [p]" using p(1) by (cases parts) auto
    then show ?thesis using i by simp
  next
    case False
    have "isl (const_concat (map (\<lambda>p. (eval_const env iw ps R p, const_part_width iw p)) parts) 0)"
      by (rule const_concat_raises) (use p(1) i in force)
    then show ?thesis using False by (simp add: Let_def)
  qed
next
  case (9 env iw ps R t m l)
  show ?case
    using 9(4) 9(1) [OF _ 9(5)] 9(2) [OF _ _ 9(5)] 9(3) [OF _ _ _ 9(5)] by (auto split: option.splits) blast+
next
  case (10 env iw ps R t b w d)
  show ?case
    using 10(4) 10(1) [OF _ 10(5)] 10(2) [OF _ _ 10(5)] 10(3) [OF _ _ _ 10(5)] by (auto split: option.splits) blast+
qed (auto split: option.splits)

text \<open>C39: Circular parameters have no value, and finding that out terminates: if every parameter of a
  set has a default that needs a parameter of the set, then an expression that needs one of them folds
  to no constant.\<close>

theorem circular_parameters_unknown:
  assumes "\<forall>p\<in>C. case map_of ps p of None \<Rightarrow> True | Some d \<Rightarrow> needs env C d" "needs env C e"
  shows "const_int env iw ps (Some e) = None"
  using circular_raises [OF assms, of iw "[]"]
  by (auto simp: const_int_def isl_def split: sum.split)

theorem circular_parameters_unknown_witness:
  "const_int (\<lambda>s. None) (\<lambda>e. None)
     [(1, BinaryOp Add (Identifier ''B'' [] (Some 2)) (Literal (int_literal 1))), (2, UnaryOp UMinus (Identifier ''A'' [] (Some 1)))]
     (Some (BinaryOp Mul (Literal (int_literal 2)) (Identifier ''A'' [] (Some 1)))) = None"
  by (rule circular_parameters_unknown [where C = "{1, 2}"]) (auto simp: const_lookup_def)
end
