(* ===== verification/Evaluator.thy ===== *)
theory Evaluator
  imports Eval_Ops
begin

text \<open>
  The tree-walking reference engine, \<open>sim/evaluator.py\<close>: the evaluation context, the
  self-determined width and the signedness of an expression, and \<open>ExpressionEvaluator.eval\<close>.

  The contexts are those of a module without struct-typed signals and without user functions
  (\<open>_struct_types\<close>, \<open>_struct_type_map\<close>, \<open>_functions\<close> empty and no executor): a dotted name that is
  not a signal reads x, a named assignment pattern finds no layout. \<open>$random\<close> and the real-number
  call \<open>$__vf_real\<close> return the error \<open>Unmodelled\<close>. Every other expression is evaluated as the
  source does. One definition per kind of expression follows the order of \<open>eval\<close>; it takes the
  evaluators of the sub-expressions as functions of the context width and of \<open>signed_override\<close>.
\<close>

section \<open>Contexts\<close>

record eval_ctx =
  signals :: "string \<Rightarrow> val4 option"
  signal_signed :: "string \<Rightarrow> bool"
  signal_bases :: "string \<Rightarrow> int"
  memories :: "string \<Rightarrow> (val4 list \<times> nat) option"
  memory_bases :: "string \<Rightarrow> int"
  ctx_time :: int

type_synonym evaluator = "int \<Rightarrow> bool option \<Rightarrow> val4 res"

definition concat_values :: "val4 list \<Rightarrow> val4" where
  "concat_values parts = (case parts of
     [] \<Rightarrow> known 0 0
   | p # ps \<Rightarrow> foldl (\<lambda>r q. v_concat r [q]) p ps)"

definition read_whole_memory :: "eval_ctx \<Rightarrow> string \<Rightarrow> val4 option" where
  "read_whole_memory ctx name = (case memories ctx name of
     None \<Rightarrow> None
   | Some (data, _) \<Rightarrow>
       Some (if data = [] then v_x 0
             else foldl (\<lambda>r k. v_concat r [data ! k]) (last data) (rev [0..<length data - 1])))"

text \<open>The slices that a whole-array write gives the elements; index 0 gets the low one.\<close>

definition split_whole :: "val4 \<Rightarrow> nat \<Rightarrow> nat \<Rightarrow> val4 list" where
  "split_whole value depth elem_width =
     (let full_width = depth * elem_width;
          v = (if v_width value \<noteq> full_width then resize value full_width else value)
      in map (\<lambda>k. get_range v (int (k * elem_width) + int elem_width - 1) (int (k * elem_width)))
           [0..<depth])"

definition write_whole_memory :: "eval_ctx \<Rightarrow> string \<Rightarrow> val4 \<Rightarrow> eval_ctx option" where
  "write_whole_memory ctx name value = (case memories ctx name of
     None \<Rightarrow> None
   | Some (data, elem_width) \<Rightarrow>
       Some (if data = [] then ctx
             else ctx\<lparr>memories := (memories ctx)(name \<mapsto> (split_whole value (length data) elem_width, elem_width))\<rparr>))"

section \<open>Self-determined width and signedness\<close>

definition range_self_width :: "expr \<Rightarrow> expr \<Rightarrow> int res" where
  "range_self_width m l = (case (m, l) of
     (Literal a, Literal b) \<Rightarrow> rbind (lit_int a) (\<lambda>x. rmap (\<lambda>y. x - y + 1) (lit_int b))
   | _ \<Rightarrow> Inr 1)"

fun expr_self_width :: "eval_ctx \<Rightarrow> expr \<Rightarrow> int res" where
  "expr_self_width ctx (Identifier n h _) =
     (let name = identifier_name n h
      in case signals ctx name of
           Some v \<Rightarrow> Inr (int (v_width v))
         | None \<Rightarrow> (case memories ctx name of
             Some (data, elem_width) \<Rightarrow> Inr (int (elem_width * length data))
           | None \<Rightarrow> Inr 32))"
| "expr_self_width ctx (Literal l) = Inr (int (lit_self_width l))"
| "expr_self_width ctx (BitSelect t i) = (case t of
     Identifier n h _ \<Rightarrow> (case memories ctx (identifier_name n h) of
         Some (data, elem_width) \<Rightarrow> Inr (int elem_width) | None \<Rightarrow> Inr 1)
   | _ \<Rightarrow> Inr 1)"
| "expr_self_width ctx (RangeSelect t m l) = range_self_width m l"
| "expr_self_width ctx (PartSelect t b w d) = (case w of Literal l \<Rightarrow> lit_int l | _ \<Rightarrow> Inr 1)"
| "expr_self_width ctx (Concatenation parts) = sum_res (map (expr_self_width ctx) parts)"
| "expr_self_width ctx (StreamingConcatenation parts _) = sum_res (map (expr_self_width ctx) parts)"
| "expr_self_width ctx (Replication c v) = (case c of
     Literal l \<Rightarrow> rbind (lit_int l) (\<lambda>n. rmap (\<lambda>w. n * w) (expr_self_width ctx v))
   | _ \<Rightarrow> expr_self_width ctx v)"
| "expr_self_width ctx (BinaryOp op l r) =
     (if is_one_bit_binary op then Inr 1
      else if is_shift op \<or> op = Pow then expr_self_width ctx l
      else max_res (expr_self_width ctx l) (expr_self_width ctx r))"
| "expr_self_width ctx (UnaryOp op a) =
     (if is_one_bit_unary op then Inr 1 else expr_self_width ctx a)"
| "expr_self_width ctx (TernaryOp c t f) = max_res (expr_self_width ctx t) (expr_self_width ctx f)"
| "expr_self_width ctx (AssignmentPattern named pos dflt) =
     (if named \<noteq> [] then Inr 32
      else if pos \<noteq> [] then sum_res (map (expr_self_width ctx) pos)
      else (case dflt of Some e \<Rightarrow> expr_self_width ctx e | None \<Rightarrow> Inr 32))"
| "expr_self_width ctx (FunctionCall f []) = Inr 32"
| "expr_self_width ctx (FunctionCall f (a # args)) =
     (if is_sign_cast f \<or> lower f = ''$__2state'' then expr_self_width ctx a
      else if lower f = ''$__vf_real'' then Inl Unmodelled
      else Inr 32)"
| "expr_self_width ctx (StringLiteral s) = Inr (int (length s * 8))"
| "expr_self_width ctx (WidthCast w e) = Inr 32"
| "expr_self_width ctx (Mintypmax a b c) = Inr 32"

fun expr_signed :: "eval_ctx \<Rightarrow> expr \<Rightarrow> bool" where
  "expr_signed ctx (Identifier n h _) = signal_signed ctx (identifier_name n h)"
| "expr_signed ctx (Literal l) = lit_signed l"
| "expr_signed ctx (BitSelect t i) = (case t of
     Identifier n h _ \<Rightarrow>
       memories ctx (identifier_name n h) \<noteq> None \<and> signal_signed ctx (identifier_name n h)
   | _ \<Rightarrow> False)"
| "expr_signed ctx (UnaryOp op a) = (\<not> is_one_bit_unary op \<and> expr_signed ctx a)"
| "expr_signed ctx (BinaryOp op l r) =
     (if is_shift op \<or> op = Pow then expr_signed ctx l
      else if is_one_bit_binary op then False
      else expr_signed ctx l \<and> expr_signed ctx r)"
| "expr_signed ctx (TernaryOp c t f) = (expr_signed ctx t \<and> expr_signed ctx f)"
| "expr_signed ctx (FunctionCall f []) = (lower f = ''$signed'')"
| "expr_signed ctx (FunctionCall f (a # args)) =
     (if lower f = ''$signed'' then True
      else if lower f = ''$unsigned'' then False
      else if lower f = ''$__2state'' then expr_signed ctx a
      else False)"
| "expr_signed ctx (RangeSelect _ _ _) = False"
| "expr_signed ctx (PartSelect _ _ _ _) = False"
| "expr_signed ctx (Concatenation _) = False"
| "expr_signed ctx (Replication _ _) = False"
| "expr_signed ctx (StreamingConcatenation _ _) = False"
| "expr_signed ctx (AssignmentPattern _ _ _) = False"
| "expr_signed ctx (StringLiteral _) = False"
| "expr_signed ctx (WidthCast _ _) = False"
| "expr_signed ctx (Mintypmax _ _ _) = False"

section \<open>The kinds of expression\<close>

text \<open>\<open>if width and v.width < width: v.sign_extend(width) if signed else v.resize(width)\<close>.\<close>

definition widen :: "val4 \<Rightarrow> int \<Rightarrow> bool \<Rightarrow> val4 res" where
  "widen v width sg =
     (if width \<noteq> 0 \<and> int (v_width v) < width
      then (if sg then sign_extend v (nat width) else Inr (resize v (nat width)))
      else Inr v)"

text \<open>The same with \<open>!=\<close>: the value is also cut down; a negative width raises.\<close>

definition adjust :: "val4 \<Rightarrow> int \<Rightarrow> bool \<Rightarrow> val4 res" where
  "adjust v width sg =
     (if int (v_width v) = width then Inr v
      else if width < 0 then Inl ValueError
      else if sg then sign_extend v (nat width)
      else Inr (resize v (nat width)))"

definition adjust_if :: "val4 \<Rightarrow> int \<Rightarrow> bool \<Rightarrow> val4 res" where
  "adjust_if v width sg = (if width \<noteq> 0 then adjust v width sg else Inr v)"

definition eval_identifier :: "eval_ctx \<Rightarrow> string \<Rightarrow> evaluator" where
  "eval_identifier ctx name width so =
     (case signals ctx name of
        Some v \<Rightarrow> widen v width (opt_or so (signal_signed ctx name))
      | None \<Rightarrow> (case read_whole_memory ctx name of
          Some whole \<Rightarrow> widen whole width (opt_or so (signal_signed ctx name))
        | None \<Rightarrow> Inr (v_x 1)))"

definition eval_literal :: "literal \<Rightarrow> val4 res" where
  "eval_literal l =
     (let width = lit_width_or_32 l;
          from_value =
            (if lit_is_x l \<or> lit_is_z l then Inr (v_x width)
             else (case lit_value l of
                LitInt n \<Rightarrow>
                  Inr (known n (if lit_width l = None \<and> lit_signed l then signed_literal_width n else width))
              | LitText t \<Rightarrow> (case py_int_auto (strip t) of
                  Inr n \<Rightarrow> Inr (known n width) | Inl _ \<Rightarrow> Inr (v_x width))))
      in if original_text l \<noteq> [] then
           (case from_verilog (original_text l) of Inr v \<Rightarrow> Inr v | Inl _ \<Rightarrow> from_value)
         else from_value)"

definition eval_literal_expr :: "literal \<Rightarrow> evaluator" where
  "eval_literal_expr l width so =
     rbind (eval_literal l) (\<lambda>v.
       if width \<noteq> 0 \<and> int (v_width v) < width then
         (if is_unsized_xz_literal (original_text l) then Inr (xz_fill_to v (nat width))
          else widen v width (opt_or so (lit_signed l)))
       else Inr v)"

text \<open>\<open>&&\<close> and \<open>||\<close>, with the short circuit: \<open>_SHORT_CIRCUIT_RHS\<close> is \<open>Value(0, width=1)\<close>.\<close>

definition eval_logical_operands ::
    "binop \<Rightarrow> evaluator \<Rightarrow> evaluator \<Rightarrow> (val4 \<times> val4) res" where
  "eval_logical_operands op ev_l ev_r =
     rbind (ev_l 0 None) (\<lambda>l.
       (let t = (if op = LOr then v_val l AND NOT (v_mask l) else v_val l OR v_mask l)
                  AND (push_bit (v_width l) 1 - 1)
        in rmap (\<lambda>r. (l, r))
             (if t \<noteq> 0 then (if op = LAnd then ev_r 0 None else Inr (known 0 1))
              else (if op = LAnd then Inr (known 0 1) else ev_r 0 None))))"

text \<open>Comparisons: both operands at the larger self-determined width, with one combined sign.\<close>

definition eval_compare_operands ::
    "int res \<Rightarrow> int res \<Rightarrow> bool \<Rightarrow> evaluator \<Rightarrow> evaluator \<Rightarrow> (val4 \<times> val4) res" where
  "eval_compare_operands wl wr both_signed ev_l ev_r =
     rbind (max_res wl wr) (\<lambda>target.
     rbind (ev_l target (Some both_signed)) (\<lambda>l.
     rbind (ev_r target (Some both_signed)) (\<lambda>r.
     rbind (if int (v_width l) < target then adjust l target both_signed else Inr l) (\<lambda>l.
     rbind (if int (v_width r) < target then adjust r target both_signed else Inr r) (\<lambda>r.
       Inr (l, r))))))"

text \<open>Shifts: only the left operand is determined by the context.\<close>

definition eval_shift_operands ::
    "int \<Rightarrow> bool option \<Rightarrow> int res \<Rightarrow> bool \<Rightarrow> evaluator \<Rightarrow> evaluator \<Rightarrow> (val4 \<times> val4) res" where
  "eval_shift_operands width so wl sl ev_l ev_r =
     rbind wl (\<lambda>wl.
       (let target = (if width \<noteq> 0 then max width wl else wl);
            eff_signed = opt_or so sl
        in rbind (ev_l target (Some eff_signed)) (\<lambda>l.
           rbind (if int (v_width l) < target then adjust l target eff_signed else Inr l) (\<lambda>l.
           rbind (ev_r 0 None) (\<lambda>r. Inr (l, r))))))"

definition eval_pow_operands ::
    "int \<Rightarrow> bool option \<Rightarrow> int res \<Rightarrow> int res \<Rightarrow> bool \<Rightarrow> evaluator \<Rightarrow> evaluator \<Rightarrow> (val4 \<times> val4) res" where
  "eval_pow_operands width so wl wr sl ev_l ev_r =
     rbind wl (\<lambda>wl.
       (let target = (if width \<noteq> 0 then max width wl else wl);
            eff_signed = opt_or so sl
        in rbind (ev_l target (Some eff_signed)) (\<lambda>l.
           rbind (if int (v_width l) < target then adjust l target eff_signed else Inr l) (\<lambda>l.
           rbind wr (\<lambda>wr. rbind (ev_r wr None) (\<lambda>r. Inr (l, r)))))))"

text \<open>Bitwise operators: both operands at the context's width, or their own if it is larger.\<close>

definition eval_bitwise ::
    "binop \<Rightarrow> int \<Rightarrow> bool option \<Rightarrow> int res \<Rightarrow> int res \<Rightarrow> bool \<Rightarrow> evaluator \<Rightarrow> evaluator \<Rightarrow> val4 res" where
  "eval_bitwise op width so wl wr both_signed ev_l ev_r =
     rbind (max_res wl wr) (\<lambda>natural_op_width.
       (let op_width = max natural_op_width width;
            eff_signed = opt_or so both_signed
        in rbind (ev_l op_width (Some eff_signed)) (\<lambda>l.
           rbind (ev_r op_width (Some eff_signed)) (\<lambda>r.
           rbind (adjust l op_width eff_signed) (\<lambda>l.
           rbind (adjust r op_width eff_signed) (\<lambda>r.
           rbind (eval_binary_op op l r) (\<lambda>result.
             adjust_if result width eff_signed)))))))"

text \<open>Arithmetic: both operands at one target width with one sign.\<close>

definition eval_arith_operands ::
    "int \<Rightarrow> bool option \<Rightarrow> int res \<Rightarrow> int res \<Rightarrow> bool \<Rightarrow> evaluator \<Rightarrow> evaluator \<Rightarrow> (val4 \<times> val4) res" where
  "eval_arith_operands width so wl wr both ev_l ev_r =
     rbind (max_res wl wr) (\<lambda>w.
       (let target = max width w;
            both_signed = opt_or so both
        in rbind (ev_l target (Some both_signed)) (\<lambda>l.
           rbind (ev_r target (Some both_signed)) (\<lambda>r.
           rbind (if int (v_width l) < target then adjust l target both_signed else Inr l) (\<lambda>l.
           rbind (if int (v_width r) < target then adjust r target both_signed else Inr r) (\<lambda>r.
             Inr (l, r)))))))"

text \<open>The operator on the evaluated operands, and the result brought to the context's width.\<close>

definition apply_binary_op ::
    "binop \<Rightarrow> bool option \<Rightarrow> bool \<Rightarrow> bool \<Rightarrow> val4 \<Rightarrow> val4 \<Rightarrow> val4 res" where
  "apply_binary_op op so sl sr l r =
     (if op \<in> {Lt, Le, Gt, Ge} \<and> sl \<and> sr then eval_signed_cmp op l r
      else if op \<in> {Div, Mod} \<and> sl \<and> sr then eval_signed_divmod op l r
      else if op = Pow \<and> sl \<and> sr then eval_signed_pow l r
      else if op = AShr \<and> \<not> opt_or so sl then eval_binary_op Shr l r
      else eval_binary_op op l r)"

definition eval_operands ::
    "eval_ctx \<Rightarrow> binop \<Rightarrow> expr \<Rightarrow> expr \<Rightarrow> evaluator \<Rightarrow> evaluator \<Rightarrow> int \<Rightarrow> bool option \<Rightarrow> (val4 \<times> val4) res" where
  "eval_operands ctx op el er ev_l ev_r width so =
     (let wl = expr_self_width ctx el; wr = expr_self_width ctx er;
          sl = expr_signed ctx el; sr = expr_signed ctx er
      in if is_logical op then eval_logical_operands op ev_l ev_r
         else if is_compare op then eval_compare_operands wl wr (sl \<and> sr) ev_l ev_r
         else if is_shift op then eval_shift_operands width so wl sl ev_l ev_r
         else if op = Pow then eval_pow_operands width so wl wr sl ev_l ev_r
         else eval_arith_operands width so wl wr (sl \<and> sr) ev_l ev_r)"

definition eval_binary ::
    "eval_ctx \<Rightarrow> binop \<Rightarrow> expr \<Rightarrow> expr \<Rightarrow> evaluator \<Rightarrow> evaluator \<Rightarrow> evaluator" where
  "eval_binary ctx op el er ev_l ev_r width so =
     (let sl = expr_signed ctx el; sr = expr_signed ctx er
      in if is_bitwise op
         then eval_bitwise op width so (expr_self_width ctx el) (expr_self_width ctx er) (sl \<and> sr) ev_l ev_r
         else rbind (eval_operands ctx op el er ev_l ev_r width so) (\<lambda>(l, r).
              rbind (apply_binary_op op so sl sr l r) (\<lambda>result.
                adjust_if result width (opt_or so (expr_signed ctx (BinaryOp op el er))))))"

definition eval_unary :: "eval_ctx \<Rightarrow> unop \<Rightarrow> expr \<Rightarrow> evaluator \<Rightarrow> evaluator" where
  "eval_unary ctx op e ev width so =
     (if op \<in> {UInv, UPlus, UMinus} then
        rbind (ev width so) (\<lambda>operand.
        rbind (if width \<noteq> 0 \<and> int (v_width operand) \<noteq> width
               then rbind (expr_self_width ctx e) (\<lambda>w.
                      adjust operand (max width w) (opt_or so (expr_signed ctx e)))
               else Inr operand) (\<lambda>operand.
          eval_unary_op op operand))
      else
        rbind (expr_self_width ctx e) (\<lambda>w.
        rbind (ev w None) (\<lambda>operand.
        rbind (eval_unary_op op operand) (\<lambda>result.
          widen result width (opt_or so (expr_signed ctx (UnaryOp op e)))))))"

definition eval_ternary :: "eval_ctx \<Rightarrow> expr \<Rightarrow> expr \<Rightarrow> expr \<Rightarrow> evaluator \<Rightarrow> evaluator \<Rightarrow> evaluator \<Rightarrow> evaluator" where
  "eval_ternary ctx c t f ev_c ev_t ev_f width so =
     (let own_signed = opt_or so (expr_signed ctx (TernaryOp c t f))
      in rbind (expr_self_width ctx c) (\<lambda>wc.
         rbind (ev_c wc None) (\<lambda>cv.
         (let cond = reduce_or cv
          in rbind (max_res (expr_self_width ctx t) (expr_self_width ctx f)) (\<lambda>wb.
             (let own_width = max width wb
              in if is_defined cond then
                   (if v_val cond \<noteq> 0 then ev_t own_width (Some own_signed)
                    else ev_f own_width (Some own_signed))
                 else rbind (ev_t own_width (Some own_signed)) (\<lambda>tv.
                      rbind (ev_f own_width (Some own_signed)) (\<lambda>fv.
                        Inr (merge_xz tv fv)))))))))"

fun seq_res :: "'a res list \<Rightarrow> 'a list res" where
  "seq_res [] = Inr []"
| "seq_res (x # xs) = rbind x (\<lambda>a. rmap (\<lambda>as. a # as) (seq_res xs))"

definition eval_concat :: "val4 res list \<Rightarrow> evaluator" where
  "eval_concat parts width so =
     (if parts = [] then Inr (known 0 0)
      else rbind (seq_res parts) (\<lambda>vs. widen (concat_values vs) width (so = Some True)))"

definition eval_streaming :: "val4 res list \<Rightarrow> evaluator option \<Rightarrow> evaluator" where
  "eval_streaming parts ev_slice width so =
     (if parts = [] then Inr (known 0 0)
      else rbind (seq_res parts) (\<lambda>vs.
           rbind (case ev_slice of None \<Rightarrow> Inr 1 | Some ev \<Rightarrow> rbind (ev 0 None) to_int) (\<lambda>slice_size.
           rbind (stream_reverse (concat_values vs) slice_size) (\<lambda>result.
             widen result width (so = Some True)))))"

text \<open>\<open>_index_int\<close> and \<open>_select_base\<close>: an index as a number, and the declared low bound.\<close>

definition index_int :: "eval_ctx \<Rightarrow> evaluator \<Rightarrow> val4 \<Rightarrow> expr \<Rightarrow> int res" where
  "index_int ctx ev v e =
     (if \<not> expr_signed ctx e then to_int v
      else rbind (expr_self_width ctx e) (\<lambda>w.
           rbind (if int (v_width v) < w then ev w (Some True) else Inr v) as_signed))"

definition select_base :: "eval_ctx \<Rightarrow> expr \<Rightarrow> int" where
  "select_base ctx target = (case target of
     Identifier n h _ \<Rightarrow> signal_bases ctx (identifier_name n h)
   | BitSelect t _ \<Rightarrow> (case t of
       Identifier n h _ \<Rightarrow>
         (if memories ctx (identifier_name n h) \<noteq> None then memory_bases ctx (identifier_name n h) else 0)
     | _ \<Rightarrow> 0)
   | _ \<Rightarrow> 0)"

definition eval_memory_select ::
    "eval_ctx \<Rightarrow> string \<Rightarrow> val4 list \<Rightarrow> nat \<Rightarrow> expr \<Rightarrow> evaluator \<Rightarrow> evaluator" where
  "eval_memory_select ctx name mem_data elem_w i ev_i width so =
     rbind (ev_i 0 None) (\<lambda>index.
     rbind (if is_defined index then
              rmap (\<lambda>idx. if 0 \<le> idx \<and> idx < int (length mem_data) then mem_data ! nat idx else v_x elem_w)
                (index_int ctx ev_i index i)
            else Inr (v_x elem_w)) (\<lambda>result.
       widen result width (opt_or so (signal_signed ctx name))))"

definition eval_bit_select ::
    "eval_ctx \<Rightarrow> expr \<Rightarrow> expr \<Rightarrow> evaluator \<Rightarrow> evaluator \<Rightarrow> evaluator" where
  "eval_bit_select ctx t i ev_t ev_i width so =
     rbind (ev_t 0 None) (\<lambda>target.
     rbind (ev_i 0 None) (\<lambda>index.
     rbind (if is_defined index then
              rmap (\<lambda>idx. get_bit target (idx - select_base ctx t)) (index_int ctx ev_i index i)
            else Inr (v_x 1)) (\<lambda>result.
       widen result width (so = Some True))))"

definition eval_range_select ::
    "eval_ctx \<Rightarrow> expr \<Rightarrow> expr \<Rightarrow> expr \<Rightarrow> evaluator \<Rightarrow> evaluator \<Rightarrow> evaluator \<Rightarrow> evaluator" where
  "eval_range_select ctx t m l ev_t ev_m ev_l width so =
     rbind (case t of
              Identifier n h _ \<Rightarrow>
                (if h = [] then (case signals ctx n of Some v \<Rightarrow> Inr v | None \<Rightarrow> ev_t 0 None)
                 else ev_t 0 None)
            | _ \<Rightarrow> ev_t 0 None) (\<lambda>target.
     rbind (ev_m 0 None) (\<lambda>msb.
     rbind (ev_l 0 None) (\<lambda>lsb.
     rbind (if is_defined msb \<and> is_defined lsb then
              rbind (index_int ctx ev_m msb m) (\<lambda>mi.
              rmap (\<lambda>li. get_range target (mi - select_base ctx t) (li - select_base ctx t))
                (index_int ctx ev_l lsb l))
            else Inr (v_x 1)) (\<lambda>result.
       widen result width (so = Some True)))))"

definition eval_replication :: "int res \<Rightarrow> evaluator \<Rightarrow> evaluator \<Rightarrow> evaluator" where
  "eval_replication wv ev_c ev_v width so =
     rbind (ev_c 0 None) (\<lambda>count_val.
     rbind wv (\<lambda>w.
     rbind (ev_v w None) (\<lambda>inner.
       widen (if is_defined count_val then v_replicate inner (nat (v_val count_val)) else v_x (v_width inner))
         width (so = Some True))))"

definition eval_part_select ::
    "eval_ctx \<Rightarrow> expr \<Rightarrow> expr \<Rightarrow> direction \<Rightarrow> evaluator \<Rightarrow> evaluator \<Rightarrow> evaluator \<Rightarrow> evaluator" where
  "eval_part_select ctx t b dir ev_t ev_b ev_w width so =
     rbind (ev_t 0 None) (\<lambda>target.
     rbind (ev_b 0 None) (\<lambda>base.
     rbind (ev_w 0 None) (\<lambda>part_w.
     rbind (if is_defined base \<and> is_defined part_w then
              (let w = v_val part_w
               in if expr_signed ctx b \<and> v_width base = 0 then Inl ValueError
                  else (let b0 = (if expr_signed ctx b \<and> drop_bit (v_width base - 1) (v_val base) \<noteq> 0
                                  then v_val base - push_bit (v_width base) 1 else v_val base);
                            b1 = b0 - select_base ctx t
                        in Inr (if dir = PlusColon then get_range target (b1 + w - 1) b1
                                else get_range target b1 (b1 - w + 1))))
            else Inr (v_x (if is_defined part_w \<and> 0 < v_val part_w then nat (v_val part_w) else 1)))
       (\<lambda>result. widen result width (so = Some True)))))"

definition string_value :: "string \<Rightarrow> val4" where
  "string_value s = known (foldl (\<lambda>v c. push_bit 8 v OR int (ord_char c)) 0 s) (length s * 8)"

definition eval_pattern :: "bool \<Rightarrow> val4 res list \<Rightarrow> evaluator option \<Rightarrow> evaluator" where
  "eval_pattern is_named parts ev_dflt width so =
     (if is_named then Inl ValueError
      else if parts \<noteq> [] then
        rbind (seq_res parts) (\<lambda>vs. adjust_if (concat_values vs) width (so = Some True))
      else (case ev_dflt of
         Some ev \<Rightarrow>
           rbind (if width \<noteq> 0 then Inr width else rmap (\<lambda>v. int (v_width v)) (ev 0 None)) (\<lambda>dw.
           rbind (ev dw None) (\<lambda>v. adjust_if v width (so = Some True)))
       | None \<Rightarrow> (if width < 0 then Inl ValueError
                  else Inr (known 0 (if width = 0 then 1 else nat width)))))"

text \<open>System functions on evaluated arguments, \<open>_eval_function_call\<close>.\<close>

definition clog2_int :: "int \<Rightarrow> int" where
  "clog2_int n = (if n \<le> 0 then 0 else int (bit_length (n - 1)))"

definition eval_function_call :: "eval_ctx \<Rightarrow> string \<Rightarrow> val4 list \<Rightarrow> val4 res" where
  "eval_function_call ctx f args =
     (let name = lower f
      in if name = ''$clog2'' then
           Inr (case args of
                  a # _ \<Rightarrow> if is_defined a then known (clog2_int (v_val a)) 32 else v_x 32
                | [] \<Rightarrow> v_x 32)
         else if name = ''$signed'' \<or> name = ''$unsigned'' then
           Inr (case args of a # _ \<Rightarrow> a | [] \<Rightarrow> v_x 32)
         else if name = ''$bits'' then
           Inr (case args of a # _ \<Rightarrow> known (int (v_width a)) 32 | [] \<Rightarrow> v_x 32)
         else if name = ''$time'' \<or> name = ''$realtime'' then Inr (known (ctx_time ctx) 64)
         else if name = ''$stime'' then Inr (known (ctx_time ctx AND 0xFFFFFFFF) 32)
         else if name = ''$random'' then Inl Unmodelled
         else if name = ''$__vf_real'' \<and> length args = 3 then Inl Unmodelled
         else Inr (v_x 32))"

text \<open>\<open>$signed\<close> and \<open>$unsigned\<close>: the argument at its own width, then widened to the context.\<close>

definition eval_cast :: "bool \<Rightarrow> int res \<Rightarrow> evaluator \<Rightarrow> evaluator" where
  "eval_cast is_signed w ev width so =
     rbind w (\<lambda>w. rbind (ev w None) (\<lambda>result. widen result width (opt_or so is_signed)))"

section \<open>Evaluation\<close>

lemma size_strip_casts_less [termination_simp]: "size (strip_casts a) < Suc (size a + n)"
  using size_strip_casts [of a] by linarith

function eval :: "eval_ctx \<Rightarrow> expr \<Rightarrow> evaluator" where
  "eval ctx (Identifier n h _) = eval_identifier ctx (identifier_name n h)"
| "eval ctx (Literal l) = eval_literal_expr l"
| "eval ctx (BinaryOp op l r) = eval_binary ctx op l r (eval ctx l) (eval ctx r)"
| "eval ctx (UnaryOp op e) = eval_unary ctx op e (eval ctx e)"
| "eval ctx (TernaryOp c t f) = eval_ternary ctx c t f (eval ctx c) (eval ctx t) (eval ctx f)"
| "eval ctx (Concatenation parts) =
     eval_concat (map (\<lambda>p. rbind (expr_self_width ctx p) (\<lambda>w. eval ctx p w None)) parts)"
| "eval ctx (StreamingConcatenation parts slice) =
     eval_streaming (map (\<lambda>p. rbind (expr_self_width ctx p) (\<lambda>w. eval ctx p w None)) parts)
       (map_option (eval ctx) slice)"
| "eval ctx (BitSelect t i) =
     (case t of
        Identifier n h _ \<Rightarrow>
          (case memories ctx (identifier_name n h) of
             Some (data, elem_w) \<Rightarrow> eval_memory_select ctx (identifier_name n h) data elem_w i (eval ctx i)
           | None \<Rightarrow> eval_bit_select ctx t i (eval ctx t) (eval ctx i))
      | _ \<Rightarrow> eval_bit_select ctx t i (eval ctx t) (eval ctx i))"
| "eval ctx (RangeSelect t m l) = eval_range_select ctx t m l (eval ctx t) (eval ctx m) (eval ctx l)"
| "eval ctx (Replication c v) = eval_replication (expr_self_width ctx v) (eval ctx c) (eval ctx v)"
| "eval ctx (AssignmentPattern named pos dflt) =
     eval_pattern (named \<noteq> []) (map (\<lambda>p. rbind (expr_self_width ctx p) (\<lambda>w. eval ctx p w None)) pos)
       (map_option (eval ctx) dflt)"
| "eval ctx (PartSelect t b w dir) =
     eval_part_select ctx t b dir (eval ctx t) (eval ctx b) (eval ctx w)"
| "eval ctx (FunctionCall f []) = (\<lambda>width so. eval_function_call ctx f [])"
| "eval ctx (FunctionCall f (a # args)) =
     (if lower f = ''$__2state'' then
        (\<lambda>width so. rmap (\<lambda>v. if v_mask v \<noteq> 0 then known (v_val v) (v_width v) else v) (eval ctx a width so))
      else if is_sign_cast f then
        eval_cast (lower f = ''$signed'') (expr_self_width ctx (strip_casts a)) (eval ctx (strip_casts a))
      else (\<lambda>width so. rbind (seq_res (map (\<lambda>a. eval ctx a 0 None) (a # args))) (eval_function_call ctx f)))"
| "eval ctx (StringLiteral s) = (\<lambda>width so. Inr (string_value s))"
| "eval ctx (Mintypmax mn typ mx) = (\<lambda>width so. eval ctx typ 0 None)"
| "eval ctx (WidthCast w e) = (\<lambda>width so. Inl TypeError)"
  by pat_completeness auto
termination
  by (relation "measure (size \<circ> snd)")
    (auto simp: termination_simp less_Suc_eq_le size_list_estimation' trans_le_add1)

end
