(* ===== verification/Opcodes.thy ===== *)
theory Opcodes
  imports Eval_Ops
begin

text \<open>
  The bytecode of the VM engine, \<open>sim/vm/opcodes.py\<close>: the opcodes, the instruction triples, the
  stack effect of each opcode and the stack-depth analysis that decides whether a program fits
  the fixed stack of the fast interpreter.
\<close>

section \<open>Instructions\<close>

text \<open>
  \<open>class Op(IntEnum)\<close> with \<open>auto()\<close>: the opcodes are the numbers from 1 on, in order. A number
  without a name is an unknown opcode, for which the tables have a default.
\<close>

type_synonym opcode = nat

abbreviation LOAD_SIG :: opcode where "LOAD_SIG \<equiv> 1"
abbreviation LOAD_CONST :: opcode where "LOAD_CONST \<equiv> 2"
abbreviation STORE_SIG :: opcode where "STORE_SIG \<equiv> 3"
abbreviation NBA_SIG :: opcode where "NBA_SIG \<equiv> 4"
abbreviation STORE_BIT :: opcode where "STORE_BIT \<equiv> 5"
abbreviation NBA_BIT :: opcode where "NBA_BIT \<equiv> 6"
abbreviation STORE_RANGE :: opcode where "STORE_RANGE \<equiv> 7"
abbreviation NBA_RANGE :: opcode where "NBA_RANGE \<equiv> 8"
abbreviation RESIZE :: opcode where "RESIZE \<equiv> 9"
abbreviation ADD :: opcode where "ADD \<equiv> 10"
abbreviation SUB :: opcode where "SUB \<equiv> 11"
abbreviation MUL :: opcode where "MUL \<equiv> 12"
abbreviation DIV :: opcode where "DIV \<equiv> 13"
abbreviation MOD :: opcode where "MOD \<equiv> 14"
abbreviation POW :: opcode where "POW \<equiv> 15"
abbreviation BIT_AND :: opcode where "BIT_AND \<equiv> 16"
abbreviation BIT_OR :: opcode where "BIT_OR \<equiv> 17"
abbreviation BIT_XOR :: opcode where "BIT_XOR \<equiv> 18"
abbreviation BIT_XNOR :: opcode where "BIT_XNOR \<equiv> 19"
abbreviation BIT_NOT :: opcode where "BIT_NOT \<equiv> 20"
abbreviation SHL :: opcode where "SHL \<equiv> 21"
abbreviation SHR :: opcode where "SHR \<equiv> 22"
abbreviation ASHL :: opcode where "ASHL \<equiv> 23"
abbreviation ASHR :: opcode where "ASHR \<equiv> 24"
abbreviation CMP_EQ :: opcode where "CMP_EQ \<equiv> 25"
abbreviation CMP_NE :: opcode where "CMP_NE \<equiv> 26"
abbreviation CMP_LT :: opcode where "CMP_LT \<equiv> 27"
abbreviation CMP_LE :: opcode where "CMP_LE \<equiv> 28"
abbreviation CMP_GT :: opcode where "CMP_GT \<equiv> 29"
abbreviation CMP_GE :: opcode where "CMP_GE \<equiv> 30"
abbreviation CMP_CASE_EQ :: opcode where "CMP_CASE_EQ \<equiv> 31"
abbreviation CMP_CASE_NE :: opcode where "CMP_CASE_NE \<equiv> 32"
abbreviation LOG_AND :: opcode where "LOG_AND \<equiv> 33"
abbreviation LOG_OR :: opcode where "LOG_OR \<equiv> 34"
abbreviation LOG_NOT :: opcode where "LOG_NOT \<equiv> 35"
abbreviation NEG :: opcode where "NEG \<equiv> 36"
abbreviation UPLUS :: opcode where "UPLUS \<equiv> 37"
abbreviation RED_AND :: opcode where "RED_AND \<equiv> 38"
abbreviation RED_OR :: opcode where "RED_OR \<equiv> 39"
abbreviation RED_XOR :: opcode where "RED_XOR \<equiv> 40"
abbreviation RED_NAND :: opcode where "RED_NAND \<equiv> 41"
abbreviation RED_NOR :: opcode where "RED_NOR \<equiv> 42"
abbreviation RED_XNOR :: opcode where "RED_XNOR \<equiv> 43"
abbreviation BIT_SELECT :: opcode where "BIT_SELECT \<equiv> 44"
abbreviation RANGE_SELECT :: opcode where "RANGE_SELECT \<equiv> 45"
abbreviation PART_SEL_UP :: opcode where "PART_SEL_UP \<equiv> 46"
abbreviation PART_SEL_DOWN :: opcode where "PART_SEL_DOWN \<equiv> 47"
abbreviation CONCAT :: opcode where "CONCAT \<equiv> 48"
abbreviation REPLICATE :: opcode where "REPLICATE \<equiv> 49"
abbreviation JUMP :: opcode where "JUMP \<equiv> 50"
abbreviation JUMP_IF_ZERO :: opcode where "JUMP_IF_ZERO \<equiv> 51"
abbreviation JUMP_IF_NONZERO :: opcode where "JUMP_IF_NONZERO \<equiv> 52"
abbreviation DUP :: opcode where "DUP \<equiv> 53"
abbreviation POP :: opcode where "POP \<equiv> 54"
abbreviation NOP :: opcode where "NOP \<equiv> 55"
abbreviation SYS_DISPLAY :: opcode where "SYS_DISPLAY \<equiv> 56"
abbreviation SYS_FINISH :: opcode where "SYS_FINISH \<equiv> 57"
abbreviation SYS_TIME :: opcode where "SYS_TIME \<equiv> 58"
abbreviation PROC_END :: opcode where "PROC_END \<equiv> 59"
abbreviation FUNC_CLOG2 :: opcode where "FUNC_CLOG2 \<equiv> 60"
abbreviation CMP_CASEX :: opcode where "CMP_CASEX \<equiv> 61"
abbreviation CMP_CASEZ :: opcode where "CMP_CASEZ \<equiv> 62"
abbreviation CMP_SLT :: opcode where "CMP_SLT \<equiv> 63"
abbreviation CMP_SLE :: opcode where "CMP_SLE \<equiv> 64"
abbreviation CMP_SGT :: opcode where "CMP_SGT \<equiv> 65"
abbreviation CMP_SGE :: opcode where "CMP_SGE \<equiv> 66"
abbreviation LOAD_MEM :: opcode where "LOAD_MEM \<equiv> 67"
abbreviation STORE_MEM :: opcode where "STORE_MEM \<equiv> 68"
abbreviation NBA_MEM :: opcode where "NBA_MEM \<equiv> 69"
abbreviation STORE_MEM_RANGE :: opcode where "STORE_MEM_RANGE \<equiv> 70"
abbreviation NBA_MEM_RANGE :: opcode where "NBA_MEM_RANGE \<equiv> 71"
abbreviation FUNC_RANDOM :: opcode where "FUNC_RANDOM \<equiv> 72"
abbreviation SIGN_EXT :: opcode where "SIGN_EXT \<equiv> 73"
abbreviation SYS_READMEM :: opcode where "SYS_READMEM \<equiv> 74"
abbreviation TERNARY :: opcode where "TERNARY \<equiv> 75"
abbreviation SYS_MONITOR :: opcode where "SYS_MONITOR \<equiv> 76"
abbreviation SYS_FOPEN :: opcode where "SYS_FOPEN \<equiv> 77"
abbreviation SYS_FCLOSE :: opcode where "SYS_FCLOSE \<equiv> 78"
abbreviation SYS_FDISPLAY :: opcode where "SYS_FDISPLAY \<equiv> 79"
abbreviation SYS_FWRITE :: opcode where "SYS_FWRITE \<equiv> 80"
abbreviation SYS_FEOF :: opcode where "SYS_FEOF \<equiv> 81"
abbreviation SDIV :: opcode where "SDIV \<equiv> 82"
abbreviation SMOD :: opcode where "SMOD \<equiv> 83"
abbreviation SPOW :: opcode where "SPOW \<equiv> 84"
abbreviation STREAM_REVERSE :: opcode where "STREAM_REVERSE \<equiv> 85"
abbreviation CLEAR_MASK :: opcode where "CLEAR_MASK \<equiv> 86"
abbreviation FUNC_REAL1 :: opcode where "FUNC_REAL1 \<equiv> 87"
abbreviation FUNC_REAL2 :: opcode where "FUNC_REAL2 \<equiv> 88"

type_synonym instr = "opcode \<times> int \<times> int"
type_synonym program = "instr list"

definition instr :: "opcode \<Rightarrow> int \<Rightarrow> instr" where
  "instr op a = (op, a, 0)"

section \<open>Stack effects\<close>

definition stack_effect :: "opcode \<Rightarrow> int \<Rightarrow> nat \<times> nat" where
  "stack_effect op arg1 =
     (if op = CONCAT then (nat arg1, 1)
      else if op = SYS_DISPLAY \<or> op = SYS_MONITOR then (nat (arg1 AND 0xFFFF), 0)
      else if op = SYS_FDISPLAY \<or> op = SYS_FWRITE then (nat (arg1 AND 0xFFFF) + 1, 0)
      else if op \<in> {LOAD_SIG, LOAD_CONST, DUP, SYS_TIME, FUNC_RANDOM, SYS_FOPEN} then (0, 1)
      else if op \<in> {RESIZE, SIGN_EXT, STREAM_REVERSE, CLEAR_MASK, FUNC_REAL1, BIT_NOT, LOG_NOT, NEG, UPLUS,
            RED_AND, RED_OR, RED_XOR, RED_NAND, RED_NOR, RED_XNOR, FUNC_CLOG2, LOAD_MEM, SYS_FEOF} then (1, 1)
      else if op \<in> {ADD, SUB, MUL, DIV, MOD, POW, SDIV, SMOD, FUNC_REAL2, SPOW, BIT_AND, BIT_OR, BIT_XOR,
            BIT_XNOR, SHL, SHR, ASHL, ASHR, CMP_EQ, CMP_NE, CMP_LT, CMP_LE, CMP_GT, CMP_GE, CMP_CASE_EQ,
            CMP_CASE_NE, CMP_CASEX, CMP_CASEZ, CMP_SLT, CMP_SLE, CMP_SGT, CMP_SGE, LOG_AND, LOG_OR,
            BIT_SELECT, REPLICATE} then (2, 1)
      else if op \<in> {RANGE_SELECT, PART_SEL_UP, PART_SEL_DOWN, TERNARY} then (3, 1)
      else if op \<in> {STORE_SIG, NBA_SIG, JUMP_IF_ZERO, JUMP_IF_NONZERO, POP, SYS_FCLOSE} then (1, 0)
      else if op \<in> {STORE_BIT, NBA_BIT, STORE_MEM, NBA_MEM} then (2, 0)
      else if op \<in> {STORE_RANGE, NBA_RANGE} then (3, 0)
      else if op \<in> {STORE_MEM_RANGE, NBA_MEM_RANGE} then (4, 0)
      else if op \<in> {JUMP, NOP, SYS_FINISH, PROC_END, SYS_READMEM} then (0, 0)
      else (0, 1))"

section \<open>The depth analysis\<close>

text \<open>
  The two nested loops of \<open>max_stack_depth\<close> are one loop over the state: the work list, the path
  in progress (\<open>None\<close> between two paths), the deepest depth seen at each instruction (\<open>-1\<close>: not
  reached) and the worst depth. The early return gives \<open>Inl\<close>.
\<close>

record depth_state =
  d_work :: "(int \<times> int) list"
  d_path :: "(int \<times> int) option"
  d_at :: "int list"
  d_worst :: int

definition depth_path_step :: "program \<Rightarrow> int \<Rightarrow> int \<Rightarrow> depth_state \<Rightarrow> int + depth_state" where
  "depth_path_step prog pc depth s =
     (case prog ! nat pc of (op, arg1, _) \<Rightarrow>
        (let eff = stack_effect op arg1;
             depth' = max (depth - int (fst eff)) 0 + int (snd eff);
             worst = max (d_worst s) depth';
             at = (d_at s)[nat pc := depth]
         in if worst > int (length prog) then Inl (int (length prog) + 1)
            else if op = PROC_END \<or> op = SYS_FINISH
              then Inr (s\<lparr>d_path := None, d_at := at, d_worst := worst\<rparr>)
            else if op = JUMP
              then Inr (s\<lparr>d_path := Some (arg1, depth'), d_at := at, d_worst := worst\<rparr>)
            else Inr (s\<lparr>d_path := Some (pc + 1, depth'), d_at := at, d_worst := worst,
                        d_work := (if op = JUMP_IF_ZERO \<or> op = JUMP_IF_NONZERO
                                   then (arg1, depth') # d_work s else d_work s)\<rparr>)))"

definition depth_step :: "program \<Rightarrow> depth_state \<Rightarrow> int + depth_state" where
  "depth_step prog s = (case d_path s of
       None \<Rightarrow> (case d_work s of
           [] \<Rightarrow> Inl (d_worst s)
         | p # rest \<Rightarrow> Inr (s\<lparr>d_path := Some p, d_work := rest\<rparr>))
     | Some (pc, depth) \<Rightarrow>
         (if pc < int (length prog) \<and> depth > d_at s ! nat pc then depth_path_step prog pc depth s
          else Inr (s\<lparr>d_path := None\<rparr>)))"

end
