(* ===== verification/Interpreter.thy ===== *)
theory Interpreter
  imports Opcodes
begin

text \<open>
  The bytecode interpreter, \<open>sim/vm/interpreter.py\<close>, class \<open>Interpreter\<close>. The attributes of the
  object are the record \<open>machine\<close>; the locals of \<open>execute\<close> (program counter, value stack, loop
  counter) are the record \<open>vm_config\<close>, and one turn of its \<open>while\<close> loop is \<open>vm_step\<close>.

  Display output is kept as the evaluated arguments and the number of the format string; file
  handles, \<open>$readmem\<close>, \<open>$random\<close> and the real-number opcodes stop the model with the error
  \<open>Unmodelled\<close>. Signal, memory and constant numbers are the non-negative indices that the compiler
  emits; one out of range raises, as the list access does.
\<close>

section \<open>State\<close>

datatype nba_entry =
    NbaWhole nat val4
  | NbaPart nat int int val4

record machine =
  sig_val :: "int list"
  sig_mask :: "int list"
  sig_width :: "nat list"
  const_pool :: "val4 list"
  nba_queue :: "nba_entry list"
  nba_mem_queue :: "(nat \<times> int \<times> int \<times> int \<times> val4) list"
  display_output :: "(int \<times> val4 list) list"
  m_time :: int
  dirty :: "nat set"
  mem_val :: "int list"
  mem_mask :: "int list"
  mem_info :: "(nat \<times> nat \<times> nat) list"
  active_monitor_id :: int
  loop_limit :: nat

record vm_config =
  c_pc :: int
  c_stack :: "val4 list"
  c_iters :: nat
  c_mach :: machine

datatype outcome =
    Running vm_config
  | Halted machine
  | Raised py_error machine

section \<open>Signals\<close>

definition sig_value :: "machine \<Rightarrow> nat \<Rightarrow> val4" where
  "sig_value m i = mk_value (sig_val m ! i) (sig_width m ! i) (sig_mask m ! i)"

definition valid_sig :: "machine \<Rightarrow> int \<Rightarrow> bool" where
  "valid_sig m a \<longleftrightarrow> 0 \<le> a \<and> nat a < length (sig_val m) \<and> nat a < length (sig_mask m)
     \<and> nat a < length (sig_width m)"

text \<open>\<open>if sig_val[i] != v or sig_mask[i] != k: ...; dirty.add(i)\<close>.\<close>

definition set_signal :: "machine \<Rightarrow> nat \<Rightarrow> int \<Rightarrow> int \<Rightarrow> machine" where
  "set_signal m i v k =
     (if sig_val m ! i \<noteq> v \<or> sig_mask m ! i \<noteq> k
      then m\<lparr>sig_val := (sig_val m)[i := v], sig_mask := (sig_mask m)[i := k], dirty := insert i (dirty m)\<rparr>
      else m)"

definition vm_pos :: "val4 \<Rightarrow> int" where
  "vm_pos v = (if v_width v = 64 \<and> drop_bit 63 (v_val v) \<noteq> 0 then v_val v - push_bit 64 1 else v_val v)"

definition store_sig :: "machine \<Rightarrow> nat \<Rightarrow> val4 \<Rightarrow> machine" where
  "store_sig m i v =
     (let wmask = width_mask (sig_width m ! i)
      in set_signal m i (v_val v AND wmask AND NOT (v_mask v)) (v_mask v AND wmask))"

definition nba_sig :: "machine \<Rightarrow> nat \<Rightarrow> val4 \<Rightarrow> machine" where
  "nba_sig m i v =
     (let w = sig_width m ! i; wmask = width_mask w
      in m\<lparr>nba_queue := nba_queue m @ [NbaWhole i (mk_value (v_val v AND wmask) w (v_mask v AND wmask))]\<rparr>)"

definition store_bit :: "machine \<Rightarrow> nat \<Rightarrow> val4 \<Rightarrow> val4 \<Rightarrow> machine res" where
  "store_bit m i v idx =
     (if is_defined idx \<and> 0 \<le> v_val idx \<and> v_val idx < int (sig_width m ! i)
      then rmap (\<lambda>u. set_signal m i (v_val u) (v_mask u))
             (set_bit4 (sig_value m i) (v_val idx) (v_val v AND 1) (v_mask v AND 1))
      else Inr m)"

definition nba_bit :: "machine \<Rightarrow> nat \<Rightarrow> val4 \<Rightarrow> val4 \<Rightarrow> machine" where
  "nba_bit m i v idx =
     (if is_defined idx \<and> 0 \<le> v_val idx \<and> v_val idx < int (sig_width m ! i)
      then m\<lparr>nba_queue := nba_queue m @
             [NbaPart i (v_val idx) (v_val idx) (mk_value (v_val v AND 1) 1 (v_mask v AND 1))]\<rparr>
      else m)"

definition store_range :: "machine \<Rightarrow> nat \<Rightarrow> val4 \<Rightarrow> val4 \<Rightarrow> val4 \<Rightarrow> machine" where
  "store_range m i v msb lsb =
     (if is_defined msb \<and> is_defined lsb
      then (let u = set_range (sig_value m i) (vm_pos msb) (vm_pos lsb) v
            in set_signal m i (v_val u) (v_mask u))
      else m)"

definition nba_range :: "machine \<Rightarrow> nat \<Rightarrow> val4 \<Rightarrow> val4 \<Rightarrow> val4 \<Rightarrow> machine" where
  "nba_range m i v msb lsb =
     (if is_defined msb \<and> is_defined lsb
      then m\<lparr>nba_queue := nba_queue m @ [NbaPart i (vm_pos msb) (vm_pos lsb) v]\<rparr>
      else m)"

section \<open>Memories\<close>

definition valid_mem :: "machine \<Rightarrow> int \<Rightarrow> bool" where
  "valid_mem m a \<longleftrightarrow> 0 \<le> a \<and> nat a < length (mem_info m)"

definition load_mem :: "machine \<Rightarrow> int \<Rightarrow> val4 \<Rightarrow> val4" where
  "load_mem m a idx =
     (if valid_mem m a then
        (case mem_info m ! nat a of (ew, depth, base) \<Rightarrow>
           (if is_defined idx \<and> 0 \<le> v_val idx \<and> v_val idx < int depth
            then (let flat = base + nat (v_val idx)
                  in mk_value (mem_val m ! flat) ew (mem_mask m ! flat))
            else v_x ew))
      else v_x 1)"

definition set_cell :: "machine \<Rightarrow> nat \<Rightarrow> nat \<Rightarrow> int \<Rightarrow> int \<Rightarrow> machine" where
  "set_cell m marker flat v k =
     (if mem_val m ! flat \<noteq> v \<or> mem_mask m ! flat \<noteq> k
      then m\<lparr>mem_val := (mem_val m)[flat := v], mem_mask := (mem_mask m)[flat := k],
             dirty := insert marker (dirty m)\<rparr>
      else m)"

definition mem_arg :: "int \<Rightarrow> int \<times> nat" where
  "mem_arg arg1 = (arg1 AND 0xFFFF, nat (drop_bit 16 arg1))"

definition store_mem :: "machine \<Rightarrow> int \<Rightarrow> val4 \<Rightarrow> val4 \<Rightarrow> machine" where
  "store_mem m arg1 v idx =
     (case mem_arg arg1 of (mid, marker) \<Rightarrow>
        if is_defined idx \<and> valid_mem m mid then
          (case mem_info m ! nat mid of (ew, depth, base) \<Rightarrow>
             (if 0 \<le> v_val idx \<and> v_val idx < int depth
              then (let wmask = width_mask ew
                    in set_cell m marker (base + nat (v_val idx))
                         (v_val v AND wmask AND NOT (v_mask v)) (v_mask v AND wmask))
              else m))
        else m)"

definition nba_mem :: "machine \<Rightarrow> int \<Rightarrow> val4 \<Rightarrow> val4 \<Rightarrow> machine" where
  "nba_mem m arg1 v idx =
     (case mem_arg arg1 of (mid, _) \<Rightarrow>
        if is_defined idx \<and> valid_mem m mid then
          (case mem_info m ! nat mid of (ew, depth, base) \<Rightarrow>
             (if 0 \<le> v_val idx \<and> v_val idx < int depth
              then (let wmask = width_mask ew;
                        nv = mk_value (v_val v AND wmask) ew (v_mask v AND wmask)
                    in m\<lparr>nba_mem_queue := nba_mem_queue m @ [(nat mid, v_val idx, int ew - 1, 0, nv)]\<rparr>)
              else m))
        else m)"

definition store_mem_range :: "machine \<Rightarrow> int \<Rightarrow> val4 \<Rightarrow> val4 \<Rightarrow> val4 \<Rightarrow> val4 \<Rightarrow> machine" where
  "store_mem_range m arg1 v idx msb lsb =
     (case mem_arg arg1 of (mid, marker) \<Rightarrow>
        if is_defined idx \<and> is_defined msb \<and> is_defined lsb \<and> valid_mem m mid then
          (case mem_info m ! nat mid of (ew, depth, base) \<Rightarrow>
             (if 0 \<le> v_val idx \<and> v_val idx < int depth
              then (let flat = base + nat (v_val idx); wmask = width_mask ew;
                        current = mk_value (mem_val m ! flat AND wmask) ew (mem_mask m ! flat AND wmask);
                        updated = set_range current (vm_pos msb) (vm_pos lsb) v
                    in set_cell m marker flat (v_val updated AND wmask AND NOT (v_mask updated))
                         (v_mask updated AND wmask))
              else m))
        else m)"

definition nba_mem_range :: "machine \<Rightarrow> int \<Rightarrow> val4 \<Rightarrow> val4 \<Rightarrow> val4 \<Rightarrow> val4 \<Rightarrow> machine" where
  "nba_mem_range m arg1 v idx msb lsb =
     (case mem_arg arg1 of (mid, _) \<Rightarrow>
        if is_defined idx \<and> is_defined msb \<and> is_defined lsb \<and> valid_mem m mid then
          (case mem_info m ! nat mid of (ew, depth, base) \<Rightarrow>
             (if 0 \<le> v_val idx \<and> v_val idx < int depth
              then m\<lparr>nba_mem_queue := nba_mem_queue m @ [(nat mid, v_val idx, vm_pos msb, vm_pos lsb, v)]\<rparr>
              else m))
        else m)"

section \<open>Opcodes that compute a value\<close>

definition sign_ext_op :: "val4 \<Rightarrow> int \<Rightarrow> val4 res" where
  "sign_ext_op v w = (if w < 0 then Inl ValueError else sign_extend v (nat w))"

definition resize_op :: "val4 \<Rightarrow> int \<Rightarrow> val4 res" where
  "resize_op v w = (if w < 0 then Inl ValueError else Inr (resize v (nat w)))"

definition vm_sdiv :: "val4 \<Rightarrow> val4 \<Rightarrow> val4 res" where
  "vm_sdiv a b =
     (if v_mask a \<noteq> 0 \<or> v_mask b \<noteq> 0 \<or> v_val b = 0 then Inr (v_x (v_width a))
      else rbind (as_signed a) (\<lambda>sa. rbind (as_signed b) (\<lambda>sb.
        rmap (\<lambda>q. known q (v_width a)) (py_trunc_div sa sb))))"

definition vm_smod :: "val4 \<Rightarrow> val4 \<Rightarrow> val4 res" where
  "vm_smod a b =
     (if v_mask a \<noteq> 0 \<or> v_mask b \<noteq> 0 \<or> v_val b = 0 then Inr (v_x (v_width a))
      else rbind (as_signed a) (\<lambda>sa. rbind (as_signed b) (\<lambda>sb.
        rmap (\<lambda>q. known (sa - sb * q) (v_width a)) (py_trunc_div sa sb))))"

definition vm_spow :: "val4 \<Rightarrow> val4 \<Rightarrow> val4 res" where
  "vm_spow a b =
     (if v_mask a \<noteq> 0 \<or> v_mask b \<noteq> 0 then Inr (v_x (v_width a))
      else rbind (as_signed a) (\<lambda>sa. rbind (as_signed b) (\<lambda>sb.
        Inr (case verilog_pow sa sb (Some (v_width a)) of
               None \<Rightarrow> v_x (v_width a) | Some r \<Rightarrow> known r (v_width a)))))"

definition vm_ashr :: "val4 \<Rightarrow> val4 \<Rightarrow> val4" where
  "vm_ashr a b =
     (if v_mask b \<noteq> 0 then v_x (v_width a)
      else (let shift = v_val b; width = v_width a
            in if width = 0 then known 0 0
               else if int width \<le> shift then
                 (if drop_bit (width - 1) (v_mask a) AND 1 \<noteq> 0 then v_x width
                  else if drop_bit (width - 1) (v_val a) AND 1 \<noteq> 0 then known (push_bit width 1 - 1) width
                  else known 0 width)
               else resize (v_rshift (sext a (width + nat shift)) b) width))"

definition vm_signed_cmp :: "val4 \<Rightarrow> val4 \<Rightarrow> cmp_op \<Rightarrow> val4 res" where
  "vm_signed_cmp a b op =
     (if v_mask a \<noteq> 0 \<or> v_mask b \<noteq> 0 then Inr (v_x 1)
      else rbind (as_signed a) (\<lambda>sa. rbind (as_signed b) (\<lambda>sb.
        Inr (bool_val (if op = CmpLt then sa < sb
                       else if op = CmpLe then sa \<le> sb
                       else if op = CmpGt then sa > sb
                       else sa \<ge> sb)))))"

definition vm_casex :: "val4 \<Rightarrow> val4 \<Rightarrow> val4" where
  "vm_casex a b =
     (let combined_mask = v_mask a OR v_mask b
      in bool_val ((v_val a XOR v_val b) AND NOT combined_mask = 0))"

definition vm_bit_select :: "val4 \<Rightarrow> val4 \<Rightarrow> val4" where
  "vm_bit_select target index = (if is_defined index then get_bit target (v_val index) else v_x 1)"

definition vm_replicate :: "val4 \<Rightarrow> val4 \<Rightarrow> val4" where
  "vm_replicate cnt v =
     (if is_defined cnt then v_replicate v (nat (v_val cnt)) else v_x (v_width v))"

text \<open>Two operands: \<open>b = s_pop(); a = s_pop(); s_append(f a b)\<close>.\<close>

definition binary_fun :: "opcode \<Rightarrow> (val4 \<Rightarrow> val4 \<Rightarrow> val4 res) option" where
  "binary_fun op =
     (if op = ADD then Some (\<lambda>a b. Inr (v_add a b))
      else if op = SUB then Some (\<lambda>a b. Inr (v_sub a b))
      else if op = MUL then Some (\<lambda>a b. Inr (v_mul a b))
      else if op = DIV then Some (\<lambda>a b. Inr (v_floordiv a b))
      else if op = MOD then Some (\<lambda>a b. Inr (v_mod a b))
      else if op = SDIV then Some vm_sdiv
      else if op = SMOD then Some vm_smod
      else if op = POW then Some (\<lambda>a b. Inr (v_pow a b))
      else if op = SPOW then Some vm_spow
      else if op = BIT_AND then Some (\<lambda>a b. Inr (v_and a b))
      else if op = BIT_OR then Some (\<lambda>a b. Inr (v_or a b))
      else if op = BIT_XOR then Some (\<lambda>a b. Inr (v_xor a b))
      else if op = BIT_XNOR then Some (\<lambda>a b. Inr (v_invert (v_xor a b)))
      else if op = SHL then Some (\<lambda>a b. Inr (v_lshift a b))
      else if op = SHR then Some (\<lambda>a b. Inr (v_rshift a b))
      else if op = ASHL then Some (\<lambda>a b. Inr (v_lshift a b))
      else if op = ASHR then Some (\<lambda>a b. Inr (vm_ashr a b))
      else if op = CMP_EQ then Some (\<lambda>a b. Inr (eq4 a b))
      else if op = CMP_NE then Some (\<lambda>a b. Inr (ne4 a b))
      else if op = CMP_LT then Some (\<lambda>a b. Inr (lt4 a b))
      else if op = CMP_LE then Some (\<lambda>a b. Inr (le4 a b))
      else if op = CMP_GT then Some (\<lambda>a b. Inr (gt4 a b))
      else if op = CMP_GE then Some (\<lambda>a b. Inr (ge4 a b))
      else if op = CMP_CASE_EQ then Some (\<lambda>a b. Inr (case_eq a b))
      else if op = CMP_CASE_NE then Some (\<lambda>a b. Inr (case_ne a b))
      else if op = CMP_SLT then Some (\<lambda>a b. vm_signed_cmp a b CmpLt)
      else if op = CMP_SLE then Some (\<lambda>a b. vm_signed_cmp a b CmpLe)
      else if op = CMP_SGT then Some (\<lambda>a b. vm_signed_cmp a b CmpGt)
      else if op = CMP_SGE then Some (\<lambda>a b. vm_signed_cmp a b CmpGe)
      else if op = LOG_AND then Some (\<lambda>a b. Inr (logical_and a b))
      else if op = LOG_OR then Some (\<lambda>a b. Inr (logical_or a b))
      else if op = BIT_SELECT then Some (\<lambda>a b. Inr (vm_bit_select a b))
      else if op = REPLICATE then Some (\<lambda>a b. Inr (vm_replicate a b))
      else if op = CMP_CASEX \<or> op = CMP_CASEZ then Some (\<lambda>a b. Inr (vm_casex a b))
      else None)"

definition unary_fun :: "opcode \<Rightarrow> int \<Rightarrow> (val4 \<Rightarrow> val4 res) option" where
  "unary_fun op arg1 =
     (if op = RESIZE then Some (\<lambda>v. resize_op v arg1)
      else if op = SIGN_EXT then Some (\<lambda>v. sign_ext_op v arg1)
      else if op = STREAM_REVERSE then Some (\<lambda>v. stream_reverse v arg1)
      else if op = CLEAR_MASK then Some (\<lambda>v. Inr (if v_mask v \<noteq> 0 then known (v_val v) (v_width v) else v))
      else if op = BIT_NOT then Some (\<lambda>v. Inr (v_invert v))
      else if op = LOG_NOT then Some (\<lambda>v. Inr (logical_not v))
      else if op = NEG then Some (\<lambda>v. Inr (v_neg v))
      else if op = RED_AND then Some (\<lambda>v. Inr (reduce_and v))
      else if op = RED_OR then Some (\<lambda>v. Inr (reduce_or v))
      else if op = RED_XOR then Some (\<lambda>v. Inr (reduce_xor v))
      else if op = RED_NAND then Some (\<lambda>v. Inr (reduce_nand v))
      else if op = RED_NOR then Some (\<lambda>v. Inr (reduce_nor v))
      else if op = RED_XNOR then Some (\<lambda>v. Inr (reduce_xnor v))
      else if op = FUNC_CLOG2 then
        Some (\<lambda>v. Inr (if is_defined v
                       then known (if v_val v \<le> 1 then 0 else int (bit_length (v_val v - 1))) 32
                       else v_x 32))
      else None)"

definition vm_range_select :: "val4 \<Rightarrow> val4 \<Rightarrow> val4 \<Rightarrow> val4" where
  "vm_range_select target msb lsb =
     (if is_defined msb \<and> is_defined lsb then get_range target (vm_pos msb) (vm_pos lsb) else v_x 1)"

definition vm_part_select :: "bool \<Rightarrow> val4 \<Rightarrow> val4 \<Rightarrow> val4 \<Rightarrow> val4" where
  "vm_part_select up target base width =
     (if is_defined base \<and> is_defined width
      then (let w = v_val width;
                b = (if v_width base = 64 \<and> drop_bit 63 (v_val base) \<noteq> 0
                     then v_val base - push_bit 64 1 else v_val base)
            in if up then get_range target (b + w - 1) b else get_range target b (b - w + 1))
      else v_x (if is_defined width \<and> 0 < v_val width then nat (v_val width) else 1))"

definition vm_ternary :: "val4 \<Rightarrow> val4 \<Rightarrow> val4 \<Rightarrow> val4" where
  "vm_ternary cnd tv fv =
     (if v_val cnd AND NOT (v_mask cnd) \<noteq> 0 then tv
      else if v_mask cnd = 0 then fv
      else (let w = max (v_width tv) (v_width fv); wmask = width_mask w;
                t = resize tv w; f = resize fv w;
                both_known = NOT (v_mask t) AND NOT (v_mask f) AND wmask;
                same_value = NOT (v_val t XOR v_val f) AND wmask;
                agree = both_known AND same_value;
                new_mask = NOT agree AND wmask;
                new_val = v_val t AND v_val f AND NOT new_mask AND wmask
            in mk_value new_val w new_mask))"

definition ternary_fun :: "opcode \<Rightarrow> (val4 \<Rightarrow> val4 \<Rightarrow> val4 \<Rightarrow> val4) option" where
  "ternary_fun op =
     (if op = RANGE_SELECT then Some vm_range_select
      else if op = PART_SEL_UP then Some (vm_part_select True)
      else if op = PART_SEL_DOWN then Some (vm_part_select False)
      else if op = TERNARY then Some vm_ternary
      else None)"

definition vm_concat :: "val4 list \<Rightarrow> val4" where
  "vm_concat parts = (case parts of
     [] \<Rightarrow> known 0 0
   | p # ps \<Rightarrow> foldl (\<lambda>r q. v_concat r [q]) p ps)"

text \<open>Pops the operands of a value opcode and pushes its result; \<open>None\<close> for the other opcodes.\<close>

definition value_op :: "machine \<Rightarrow> instr \<Rightarrow> val4 list \<Rightarrow> val4 list res option" where
  "value_op m i stack = (case i of (op, arg1, _) \<Rightarrow>
     (if op = LOAD_SIG then
        Some (if valid_sig m arg1 then Inr (sig_value m (nat arg1) # stack) else Inl IndexError)
      else if op = LOAD_CONST then
        Some (if 0 \<le> arg1 \<and> nat arg1 < length (const_pool m) then Inr (const_pool m ! nat arg1 # stack)
              else Inl IndexError)
      else if op = LOAD_MEM then
        Some (case stack of idx # st \<Rightarrow> Inr (load_mem m arg1 idx # st) | [] \<Rightarrow> Inl IndexError)
      else if op = SYS_TIME then Some (Inr (known (m_time m) 64 # stack))
      else if op = UPLUS \<or> op = NOP then Some (Inr stack)
      else if op = DUP then Some (case stack of v # st \<Rightarrow> Inr (v # v # st) | [] \<Rightarrow> Inl IndexError)
      else if op = POP then Some (Inr (tl stack))
      else if op = CONCAT then
        Some (if length stack < nat arg1 then Inl IndexError
              else Inr (vm_concat (rev (take (nat arg1) stack)) # drop (nat arg1) stack))
      else (case binary_fun op of
          Some f \<Rightarrow> Some (case stack of b # a # st \<Rightarrow> rmap (\<lambda>v. v # st) (f a b) | _ \<Rightarrow> Inl IndexError)
        | None \<Rightarrow> (case unary_fun op arg1 of
            Some f \<Rightarrow> Some (case stack of a # st \<Rightarrow> rmap (\<lambda>v. v # st) (f a) | _ \<Rightarrow> Inl IndexError)
          | None \<Rightarrow> (case ternary_fun op of
              Some f \<Rightarrow> Some (case stack of c # b # a # st \<Rightarrow> Inr (f a b c # st) | _ \<Rightarrow> Inl IndexError)
            | None \<Rightarrow> None)))))"

section \<open>Opcodes that change the machine\<close>

definition store_op :: "machine \<Rightarrow> instr \<Rightarrow> val4 list \<Rightarrow> (machine \<times> val4 list) res option" where
  "store_op m i stack = (case i of (op, arg1, arg2) \<Rightarrow>
     (let sid = nat arg1 in
      if op = STORE_SIG then
        Some (case stack of
            v # st \<Rightarrow> if valid_sig m arg1 then Inr (store_sig m sid v, st) else Inl IndexError
          | _ \<Rightarrow> Inl IndexError)
      else if op = NBA_SIG then
        Some (case stack of
            v # st \<Rightarrow> if valid_sig m arg1 then Inr (nba_sig m sid v, st) else Inl IndexError
          | _ \<Rightarrow> Inl IndexError)
      else if op = STORE_BIT then
        Some (case stack of
            idx # v # st \<Rightarrow>
              (if is_defined idx \<and> \<not> valid_sig m arg1 then Inl IndexError
               else rmap (\<lambda>m'. (m', st)) (store_bit m sid v idx))
          | _ \<Rightarrow> Inl IndexError)
      else if op = NBA_BIT then
        Some (case stack of
            idx # v # st \<Rightarrow>
              (if is_defined idx \<and> \<not> valid_sig m arg1 then Inl IndexError else Inr (nba_bit m sid v idx, st))
          | _ \<Rightarrow> Inl IndexError)
      else if op = STORE_RANGE then
        Some (case stack of
            lsb # msb # v # st \<Rightarrow>
              (if is_defined msb \<and> is_defined lsb \<and> \<not> valid_sig m arg1 then Inl IndexError
               else Inr (store_range m sid v msb lsb, st))
          | _ \<Rightarrow> Inl IndexError)
      else if op = NBA_RANGE then
        Some (case stack of lsb # msb # v # st \<Rightarrow> Inr (nba_range m sid v msb lsb, st) | _ \<Rightarrow> Inl IndexError)
      else if op = STORE_MEM then
        Some (case stack of idx # v # st \<Rightarrow> Inr (store_mem m arg1 v idx, st) | _ \<Rightarrow> Inl IndexError)
      else if op = NBA_MEM then
        Some (case stack of idx # v # st \<Rightarrow> Inr (nba_mem m arg1 v idx, st) | _ \<Rightarrow> Inl IndexError)
      else if op = STORE_MEM_RANGE then
        Some (case stack of
            lsb # msb # idx # v # st \<Rightarrow> Inr (store_mem_range m arg1 v idx msb lsb, st) | _ \<Rightarrow> Inl IndexError)
      else if op = NBA_MEM_RANGE then
        Some (case stack of
            lsb # msb # idx # v # st \<Rightarrow> Inr (nba_mem_range m arg1 v idx msb lsb, st) | _ \<Rightarrow> Inl IndexError)
      else if op = SYS_DISPLAY then
        (let n = nat (arg1 AND 0xFFFF) in
         Some (if length stack < n then Inl IndexError
               else Inr (m\<lparr>display_output := display_output m @ [(arg2, rev (take n stack))]\<rparr>, drop n stack)))
      else if op = SYS_MONITOR then
        (let n = nat (arg1 AND 0xFFFF) in
         Some (if length stack < n then Inl IndexError
               else Inr (m\<lparr>display_output := display_output m @ [(drop_bit 16 arg1, rev (take n stack))],
                          active_monitor_id := arg2\<rparr>, drop n stack)))
      else None))"

section \<open>The loop of \<open>execute\<close>\<close>

definition exec_instr :: "instr \<Rightarrow> vm_config \<Rightarrow> outcome" where
  "exec_instr i c =
     (let m = c_mach c; stack = c_stack c; pc = c_pc c; next = c\<lparr>c_pc := pc + 1\<rparr>
      in case i of (op, arg1, arg2) \<Rightarrow>
        (if op = JUMP then
           (if arg1 \<le> pc then
              (if Suc (c_iters c) > loop_limit m then Raised RuntimeError m
               else Running (c\<lparr>c_pc := arg1, c_iters := Suc (c_iters c)\<rparr>))
            else Running (c\<lparr>c_pc := arg1\<rparr>))
         else if op = JUMP_IF_ZERO then
           (case stack of
              v # st \<Rightarrow> Running (next\<lparr>c_pc := (if v_val v AND NOT (v_mask v) = 0 then arg1 else pc + 1),
                                      c_stack := st\<rparr>)
            | [] \<Rightarrow> Raised IndexError m)
         else if op = JUMP_IF_NONZERO then
           (case stack of
              v # st \<Rightarrow> Running (next\<lparr>c_pc := (if v_val v AND NOT (v_mask v) \<noteq> 0 then arg1 else pc + 1),
                                      c_stack := st\<rparr>)
            | [] \<Rightarrow> Raised IndexError m)
         else if op = SYS_FINISH then Raised StopSimulation m
         else if op = PROC_END then Halted m
         else (case value_op m i stack of
             Some r \<Rightarrow> (case r of Inr st \<Rightarrow> Running (next\<lparr>c_stack := st\<rparr>) | Inl e \<Rightarrow> Raised e m)
           | None \<Rightarrow> (case store_op m i stack of
               Some r \<Rightarrow> (case r of Inr (m', st) \<Rightarrow> Running (next\<lparr>c_stack := st, c_mach := m'\<rparr>)
                        | Inl e \<Rightarrow> Raised e m)
             | None \<Rightarrow>
                 (if op \<in> {FUNC_REAL1, FUNC_REAL2, FUNC_RANDOM, SYS_READMEM, SYS_FOPEN, SYS_FCLOSE,
                           SYS_FDISPLAY, SYS_FWRITE, SYS_FEOF}
                  then Raised Unmodelled m
                  else Running next)))))"

definition vm_step :: "program \<Rightarrow> vm_config \<Rightarrow> outcome" where
  "vm_step prog c =
     (if c_pc c < int (length prog) then exec_instr (prog ! nat (c_pc c)) c else Halted (c_mach c))"

text \<open>The loop, with a bound on the number of turns; \<open>None\<close> when the bound is reached.\<close>

fun vm_run :: "nat \<Rightarrow> program \<Rightarrow> vm_config \<Rightarrow> outcome option" where
  "vm_run 0 prog c = None"
| "vm_run (Suc n) prog c = (case vm_step prog c of Running c' \<Rightarrow> vm_run n prog c' | out \<Rightarrow> Some out)"

definition vm_init :: "machine \<Rightarrow> vm_config" where
  "vm_init m = \<lparr>c_pc = 0, c_stack = [], c_iters = 0, c_mach = m\<rparr>"

definition execute :: "nat \<Rightarrow> program \<Rightarrow> machine \<Rightarrow> outcome option" where
  "execute fuel prog m = vm_run fuel prog (vm_init m)"

end
