(* ===== verification/Vm_Compiler.thy ===== *)
theory Vm_Compiler
  imports Interpreter Semantics
begin

text \<open>
  The expression compiler of the VM engine, \<open>sim/vm/compiler.py\<close>: \<open>_compile_expr\<close> with the width
  and signedness queries, the constant pool and the operator tables it uses.

  Compilation appends to the program and to the constant pool, which with the flag
  \<open>exceeds_fast_width\<close> are the state \<open>comp_state\<close>. The tables built when the module was declared
  are the record \<open>comp_env\<close>. As for the evaluator, the module has no struct-typed signals and no
  user functions; a name that was never declared (for which the source registers a one-bit
  signal on the fly), \<open>$random\<close>, \<open>$feof\<close>, \<open>$fopen\<close> and \<open>$__vf_real\<close> give \<open>Unmodelled\<close>.
\<close>

section \<open>Tables and state\<close>

record comp_env =
  signal_map :: "string \<Rightarrow> nat option"
  ce_sig_width :: "nat list"
  ce_sig_signed :: "bool list"
  mem_map :: "string \<Rightarrow> nat option"
  ce_mem_info :: "(nat \<times> nat \<times> nat) list"
  ce_signal_bases :: "string \<Rightarrow> int"
  ce_memory_bases :: "string \<Rightarrow> int"
  signed_memories :: "string list"
  param_env :: env
  ce_annotation :: annotation
  ce_params :: param_table

record comp_state =
  cs_prog :: program
  cs_pool :: "val4 list"
  cs_exceeds :: bool

type_synonym compiler = "int \<Rightarrow> bool option \<Rightarrow> comp_state \<Rightarrow> comp_state res"

definition emit :: "opcode \<Rightarrow> int \<Rightarrow> comp_state \<Rightarrow> comp_state" where
  "emit op a st = st\<lparr>cs_prog := cs_prog st @ [instr op a]\<rparr>"

text \<open>\<open>program[idx] = instr(op, len(program))\<close>: fills in a jump emitted earlier.\<close>

definition patch :: "nat \<Rightarrow> opcode \<Rightarrow> comp_state \<Rightarrow> comp_state" where
  "patch idx op st = st\<lparr>cs_prog := (cs_prog st)[idx := instr op (int (length (cs_prog st)))]\<rparr>"

fun find_const :: "val4 \<Rightarrow> val4 list \<Rightarrow> nat \<Rightarrow> nat option" where
  "find_const v [] i = None"
| "find_const v (u # us) i = (if u = v then Some i else find_const v us (Suc i))"

definition add_const :: "val4 \<Rightarrow> comp_state \<Rightarrow> nat \<times> comp_state" where
  "add_const v st = (case find_const v (cs_pool st) 0 of
     Some i \<Rightarrow> (i, st)
   | None \<Rightarrow> (length (cs_pool st), st\<lparr>cs_pool := cs_pool st @ [v]\<rparr>))"

definition emit_const :: "val4 \<Rightarrow> comp_state \<Rightarrow> comp_state" where
  "emit_const v st = (case add_const v st of (cid, st') \<Rightarrow> emit LOAD_CONST (int cid) st')"

text \<open>\<open>instr(Op.SIGN_EXT if signed else Op.RESIZE, width, 0)\<close>.\<close>

definition emit_ext :: "bool \<Rightarrow> int \<Rightarrow> comp_state \<Rightarrow> comp_state" where
  "emit_ext sg width st = emit (if sg then SIGN_EXT else RESIZE) width st"

definition emit_ext_if :: "bool \<Rightarrow> bool \<Rightarrow> int \<Rightarrow> comp_state \<Rightarrow> comp_state" where
  "emit_ext_if b sg width st = (if b then emit_ext sg width st else st)"

definition binary_opcode :: "binop \<Rightarrow> opcode option" where
  "binary_opcode op = (case op of
     Add \<Rightarrow> Some ADD | Sub \<Rightarrow> Some SUB | Mul \<Rightarrow> Some MUL | Div \<Rightarrow> Some DIV | Mod \<Rightarrow> Some MOD
   | Pow \<Rightarrow> Some POW | BAnd \<Rightarrow> Some BIT_AND | BOr \<Rightarrow> Some BIT_OR | BXor \<Rightarrow> Some BIT_XOR
   | BXnor \<Rightarrow> Some BIT_XNOR | BXnor2 \<Rightarrow> Some BIT_XNOR | Shl \<Rightarrow> Some SHL | Shr \<Rightarrow> Some SHR
   | AShl \<Rightarrow> Some ASHL | AShr \<Rightarrow> Some ASHR | Eq \<Rightarrow> Some CMP_EQ | Ne \<Rightarrow> Some CMP_NE
   | Lt \<Rightarrow> Some CMP_LT | Le \<Rightarrow> Some CMP_LE | Gt \<Rightarrow> Some CMP_GT | Ge \<Rightarrow> Some CMP_GE
   | CaseEq \<Rightarrow> Some CMP_CASE_EQ | CaseNe \<Rightarrow> Some CMP_CASE_NE | LAnd \<Rightarrow> Some LOG_AND | LOr \<Rightarrow> Some LOG_OR
   | BOther _ \<Rightarrow> None)"

definition unary_opcode :: "unop \<Rightarrow> opcode option" where
  "unary_opcode op = (case op of
     UInv \<Rightarrow> Some BIT_NOT | UNot \<Rightarrow> Some LOG_NOT | UMinus \<Rightarrow> Some NEG | UPlus \<Rightarrow> Some UPLUS
   | URedAnd \<Rightarrow> Some RED_AND | URedOr \<Rightarrow> Some RED_OR | URedXor \<Rightarrow> Some RED_XOR
   | URedNand \<Rightarrow> Some RED_NAND | URedNor \<Rightarrow> Some RED_NOR | URedXnor \<Rightarrow> Some RED_XNOR
   | URedXnor2 \<Rightarrow> Some RED_XNOR | UOther _ \<Rightarrow> None)"

text \<open>\<open>_SIGNED_CMP_MAP\<close>, \<open>_SIGNED_DIVMOD_MAP\<close> and \<open>_SIGNED_POW_MAP\<close>.\<close>

definition signed_opcode :: "binop \<Rightarrow> opcode option" where
  "signed_opcode op = (case op of
     Lt \<Rightarrow> Some CMP_SLT | Le \<Rightarrow> Some CMP_SLE | Gt \<Rightarrow> Some CMP_SGT | Ge \<Rightarrow> Some CMP_SGE
   | Div \<Rightarrow> Some SDIV | Mod \<Rightarrow> Some SMOD | Pow \<Rightarrow> Some SPOW | _ \<Rightarrow> None)"

section \<open>Width and signedness queries\<close>

definition vm_const_int :: "comp_env \<Rightarrow> expr \<Rightarrow> int option" where
  "vm_const_int ce e = const_int (param_env ce) (ce_annotation ce) (ce_params ce) (Some e)"

definition vm_signal_width :: "comp_env \<Rightarrow> string \<Rightarrow> int res" where
  "vm_signal_width ce name = (case signal_map ce name of
     Some sid \<Rightarrow> (if sid < length (ce_sig_width ce) then Inr (int (ce_sig_width ce ! sid)) else Inl IndexError)
   | None \<Rightarrow> (case mem_map ce name of
       Some mid \<Rightarrow> (if mid < length (ce_mem_info ce)
                    then (case ce_mem_info ce ! mid of (ew, depth, _) \<Rightarrow> Inr (int (ew * depth)))
                    else Inl IndexError)
     | None \<Rightarrow> Inl Unmodelled))"

fun vm_expr_width :: "comp_env \<Rightarrow> expr \<Rightarrow> int res" where
  "vm_expr_width ce (Identifier n h _) = vm_signal_width ce (identifier_name n h)"
| "vm_expr_width ce (Literal l) = Inr (int (lit_self_width l))"
| "vm_expr_width ce (BitSelect t i) = (case t of
     Identifier n h _ \<Rightarrow> (case mem_map ce (identifier_name n h) of
         Some mid \<Rightarrow> (if mid < length (ce_mem_info ce) then Inr (int (fst (ce_mem_info ce ! mid)))
                      else Inl IndexError)
       | None \<Rightarrow> Inr 1)
   | _ \<Rightarrow> Inr 1)"
| "vm_expr_width ce (RangeSelect t m l) =
     (case (m, l) of
        (Literal a, Literal b) \<Rightarrow> rbind (lit_int a) (\<lambda>x. rmap (\<lambda>y. x - y + 1) (lit_int b))
      | _ \<Rightarrow> (case (vm_const_int ce m, vm_const_int ce l) of
          (Some msb, Some lsb) \<Rightarrow> Inr (msb - lsb + 1)
        | _ \<Rightarrow> vm_expr_width ce t))"
| "vm_expr_width ce (PartSelect t b w d) = (case w of
     Literal l \<Rightarrow> lit_int l
   | _ \<Rightarrow> (case vm_const_int ce w of Some n \<Rightarrow> Inr n | None \<Rightarrow> vm_expr_width ce t))"
| "vm_expr_width ce (Concatenation parts) = sum_res (map (vm_expr_width ce) parts)"
| "vm_expr_width ce (StreamingConcatenation parts _) = sum_res (map (vm_expr_width ce) parts)"
| "vm_expr_width ce (Replication c v) = (case c of
     Literal l \<Rightarrow> rbind (lit_int l) (\<lambda>n. rmap (\<lambda>w. n * w) (vm_expr_width ce v))
   | _ \<Rightarrow> (case vm_const_int ce c of
       Some n \<Rightarrow> rmap (\<lambda>w. n * w) (vm_expr_width ce v)
     | None \<Rightarrow> vm_expr_width ce v))"
| "vm_expr_width ce (AssignmentPattern named pos dflt) =
     (if pos \<noteq> [] then sum_res (map (vm_expr_width ce) pos)
      else (case dflt of Some e \<Rightarrow> vm_expr_width ce e | None \<Rightarrow> Inr 1))"
| "vm_expr_width ce (BinaryOp op l r) =
     (if is_one_bit_binary op then Inr 1
      else if is_shift op \<or> op = Pow then vm_expr_width ce l
      else max_res (vm_expr_width ce l) (vm_expr_width ce r))"
| "vm_expr_width ce (UnaryOp op a) = (if is_one_bit_unary op then Inr 1 else vm_expr_width ce a)"
| "vm_expr_width ce (TernaryOp c t f) = max_res (vm_expr_width ce t) (vm_expr_width ce f)"
| "vm_expr_width ce (StringLiteral s) = Inr (int (length s * 8))"
| "vm_expr_width ce (FunctionCall f []) = Inr 32"
| "vm_expr_width ce (FunctionCall f (a # args)) =
     (if is_sign_cast f \<or> lower f = ''$__2state'' then vm_expr_width ce a
      else if lower f = ''$__vf_real'' then Inl Unmodelled
      else Inr 32)"
| "vm_expr_width ce (WidthCast w e) = Inr 32"
| "vm_expr_width ce (Mintypmax a b c) = Inr 32"

fun vm_expr_signed :: "comp_env \<Rightarrow> expr \<Rightarrow> bool" where
  "vm_expr_signed ce (Identifier n h _) = (case signal_map ce (identifier_name n h) of
     Some sid \<Rightarrow> sid < length (ce_sig_signed ce) \<and> ce_sig_signed ce ! sid | None \<Rightarrow> False)"
| "vm_expr_signed ce (Literal l) = lit_signed l"
| "vm_expr_signed ce (BitSelect t i) = (case t of
     Identifier n h _ \<Rightarrow> identifier_name n h \<in> set (signed_memories ce) | _ \<Rightarrow> False)"
| "vm_expr_signed ce (UnaryOp op a) = (\<not> is_one_bit_unary op \<and> vm_expr_signed ce a)"
| "vm_expr_signed ce (BinaryOp op l r) =
     (if is_shift op \<or> op = Pow then vm_expr_signed ce l
      else if is_one_bit_binary op then False
      else vm_expr_signed ce l \<and> vm_expr_signed ce r)"
| "vm_expr_signed ce (TernaryOp c t f) = (vm_expr_signed ce t \<and> vm_expr_signed ce f)"
| "vm_expr_signed ce (FunctionCall f []) = (lower f = ''$signed'')"
| "vm_expr_signed ce (FunctionCall f (a # args)) =
     (if lower f = ''$signed'' then True
      else if lower f = ''$unsigned'' then False
      else if lower f = ''$__2state'' then vm_expr_signed ce a
      else False)"
| "vm_expr_signed ce (RangeSelect _ _ _) = False"
| "vm_expr_signed ce (PartSelect _ _ _ _) = False"
| "vm_expr_signed ce (Concatenation _) = False"
| "vm_expr_signed ce (Replication _ _) = False"
| "vm_expr_signed ce (StreamingConcatenation _ _) = False"
| "vm_expr_signed ce (AssignmentPattern _ _ _) = False"
| "vm_expr_signed ce (StringLiteral _) = False"
| "vm_expr_signed ce (WidthCast _ _) = False"
| "vm_expr_signed ce (Mintypmax _ _ _) = False"

section \<open>The kinds of expression\<close>

definition compile_identifier :: "comp_env \<Rightarrow> string \<Rightarrow> compiler" where
  "compile_identifier ce name width so st =
     (case signal_map ce name of
        Some sid \<Rightarrow>
          (if sid < length (ce_sig_width ce)
           then Inr (emit_ext_if (width \<noteq> 0 \<and> int (ce_sig_width ce ! sid) < width)
                       (opt_or so (sid < length (ce_sig_signed ce) \<and> ce_sig_signed ce ! sid)) width
                       (emit LOAD_SIG (int sid) st))
           else Inl IndexError)
      | None \<Rightarrow> (case mem_map ce name of
          None \<Rightarrow> Inl Unmodelled
        | Some mid \<Rightarrow>
            (if mid < length (ce_mem_info ce) then
               (case ce_mem_info ce ! mid of (ew, depth, _) \<Rightarrow>
                  Inr (emit_ext_if (width \<noteq> 0 \<and> int (depth * ew) < width) (opt_or so False) width
                        (emit CONCAT (int depth)
                          (foldl (\<lambda>st k. emit_ext_if (ew \<noteq> 0) (name \<in> set (signed_memories ce)) (int ew)
                                   (emit LOAD_MEM (int mid) (emit_const (known (int k) 32) st)))
                            st (rev [0..<depth])))))
             else Inl IndexError)))"

definition compile_literal :: "literal \<Rightarrow> val4" where
  "compile_literal l =
     (let width = lit_width_or_32 l;
          from_value =
            (if lit_is_x l \<or> lit_is_z l then v_x width
             else (case lit_value l of
                LitInt n \<Rightarrow> known n width
              | LitText t \<Rightarrow> (case py_int_auto (strip t) of Inr n \<Rightarrow> known n width | Inl _ \<Rightarrow> v_x width)))
      in if original_text l \<noteq> [] then
           (case from_verilog (original_text l) of Inr v \<Rightarrow> v | Inl _ \<Rightarrow> from_value)
         else from_value)"

definition compile_literal_expr :: "literal \<Rightarrow> compiler" where
  "compile_literal_expr l width so st =
     (let val0 = compile_literal l;
          val = (if width \<noteq> 0 \<and> int (v_width val0) < width \<and> is_unsized_xz_literal (original_text l)
                 then xz_fill_to val0 (nat width) else val0)
      in Inr (emit_ext_if (width \<noteq> 0 \<and> int (v_width val) < width) (opt_or so (lit_signed l)) width
               (emit_const val st)))"

text \<open>\<open>_compile_short_circuit\<close>: the left operand of \<open>&&\<close> or \<open>||\<close> is on the stack.\<close>

definition compile_short_circuit :: "binop \<Rightarrow> int res \<Rightarrow> compiler \<Rightarrow> comp_state \<Rightarrow> comp_state res" where
  "compile_short_circuit bop wl comp_r st0 =
     (let is_or = (bop = LOr); op = (if is_or then LOG_OR else LOG_AND); st1 = emit DUP 0 st0
      in rbind (if is_or then Inr st1
                else rmap (\<lambda>w. emit CMP_CASE_EQ 0 (emit_const (known 0 (nat (max w 1))) st1)) wl) (\<lambda>st2.
         (let skip_idx = length (cs_prog st2)
          in rbind (comp_r 0 None (emit JUMP_IF_NONZERO 0 st2)) (\<lambda>st3.
             (let st4 = emit op 0 st3;
                  end_idx = length (cs_prog st4);
                  st5 = patch skip_idx JUMP_IF_NONZERO (emit JUMP 0 st4)
              in Inr (patch end_idx JUMP (emit op 0 (emit_const (known 0 1) st5))))))))"

definition compile_logical ::
    "binop \<Rightarrow> bool \<Rightarrow> int res \<Rightarrow> compiler \<Rightarrow> compiler \<Rightarrow> compiler" where
  "compile_logical op sg wl comp_l comp_r width so st =
     rbind (comp_l 0 None st) (\<lambda>st1.
     rbind (comp_r 0 None st1) (\<lambda>st2.
       Inr (emit_ext_if (width \<noteq> 0 \<and> width \<noteq> 1) (opt_or so sg) width
              (emit (if op = LOr then LOG_OR else LOG_AND) 0 st2))))"

text \<open>The operands of the other operators, and the width that the operator leaves (\<open>static_result_w\<close>).\<close>

definition compile_compare_operands ::
    "int res \<Rightarrow> int res \<Rightarrow> bool \<Rightarrow> compiler \<Rightarrow> compiler \<Rightarrow> comp_state \<Rightarrow> (int \<times> comp_state) res" where
  "compile_compare_operands wl wr both_signed comp_l comp_r st =
     rbind (max_res wl wr) (\<lambda>target.
     rbind (comp_l target (Some both_signed) st) (\<lambda>st1.
     rmap (\<lambda>st2. (1, st2)) (comp_r target (Some both_signed) st1)))"

definition compile_shift_operands ::
    "int \<Rightarrow> bool option \<Rightarrow> int res \<Rightarrow> bool \<Rightarrow> compiler \<Rightarrow> compiler \<Rightarrow> comp_state \<Rightarrow> (int \<times> comp_state) res" where
  "compile_shift_operands width so wl sl comp_l comp_r st =
     rbind (if width \<noteq> 0 then rmap (max width) wl else Inr width) (\<lambda>target.
     rbind (comp_l target so st) (\<lambda>st1.
     rmap (\<lambda>st3. (if width \<noteq> 0 then target else 0, st3))
       (comp_r 0 None (emit_ext_if (width \<noteq> 0) (opt_or so sl) target st1))))"

definition compile_pow_operands ::
    "int \<Rightarrow> bool option \<Rightarrow> int res \<Rightarrow> int res \<Rightarrow> bool \<Rightarrow> compiler \<Rightarrow> compiler \<Rightarrow> comp_state
      \<Rightarrow> (int \<times> comp_state) res" where
  "compile_pow_operands width so wl wr sl comp_l comp_r st =
     rbind (rmap (max width) wl) (\<lambda>target.
     rbind (comp_l (if width \<noteq> 0 then target else 0) so st) (\<lambda>st1.
     rbind wr (\<lambda>wr.
     rmap (\<lambda>st3. (if width \<noteq> 0 then target else 0, st3))
       (comp_r wr None (emit_ext_if (width \<noteq> 0) (opt_or so sl) target st1)))))"

definition compile_arith_operands ::
    "int \<Rightarrow> bool option \<Rightarrow> int res \<Rightarrow> int res \<Rightarrow> bool \<Rightarrow> compiler \<Rightarrow> compiler \<Rightarrow> comp_state
      \<Rightarrow> (int \<times> comp_state) res" where
  "compile_arith_operands width so wl wr both comp_l comp_r st =
     rbind (max_res wl wr) (\<lambda>w.
       (let target = max width w; both_signed = opt_or so both
        in rbind (comp_l target (Some both_signed) st) (\<lambda>st1.
           rmap (\<lambda>st2. (target, st2)) (comp_r target (Some both_signed) st1))))"

definition compile_bitwise ::
    "binop \<Rightarrow> int res \<Rightarrow> int res \<Rightarrow> bool \<Rightarrow> compiler \<Rightarrow> compiler \<Rightarrow> compiler" where
  "compile_bitwise op wl wr both_signed comp_l comp_r width so st =
     rbind (max_res wl wr) (\<lambda>natural_op_width.
       (let op_width = max natural_op_width width; eff_signed = opt_or so both_signed
        in rbind (comp_l op_width (Some eff_signed) st) (\<lambda>st1.
           rbind (comp_r op_width (Some eff_signed) (emit_ext eff_signed op_width st1)) (\<lambda>st2.
           (case binary_opcode op of
              None \<Rightarrow> Inl ValueError
            | Some opc \<Rightarrow>
                Inr (emit_ext_if (width \<noteq> 0 \<and> width \<noteq> op_width) eff_signed width
                       (emit opc 0 (emit_ext eff_signed op_width st2))))))))"

definition select_binary_opcode :: "binop \<Rightarrow> bool option \<Rightarrow> bool \<Rightarrow> bool \<Rightarrow> opcode res" where
  "select_binary_opcode op so sl sr =
     (if op \<in> {Lt, Le, Gt, Ge} \<and> sl \<and> sr then from_opt (signed_opcode op)
      else if op \<in> {Div, Mod} \<and> sl \<and> sr then from_opt (signed_opcode op)
      else if op = Pow \<and> sl \<and> sr then from_opt (signed_opcode op)
      else if op = AShr \<and> \<not> opt_or so sl then Inr SHR
      else from_opt (binary_opcode op))"

definition compile_operands ::
    "comp_env \<Rightarrow> binop \<Rightarrow> expr \<Rightarrow> expr \<Rightarrow> compiler \<Rightarrow> compiler \<Rightarrow> int \<Rightarrow> bool option \<Rightarrow> comp_state
      \<Rightarrow> (int \<times> comp_state) res" where
  "compile_operands ce op el er comp_l comp_r width so st =
     (let wl = vm_expr_width ce el; wr = vm_expr_width ce er;
          sl = vm_expr_signed ce el; sr = vm_expr_signed ce er
      in if is_compare op then compile_compare_operands wl wr (sl \<and> sr) comp_l comp_r st
         else if is_shift op then compile_shift_operands width so wl sl comp_l comp_r st
         else if op = Pow then compile_pow_operands width so wl wr sl comp_l comp_r st
         else compile_arith_operands width so wl wr (sl \<and> sr) comp_l comp_r st)"

definition compile_binary ::
    "comp_env \<Rightarrow> binop \<Rightarrow> expr \<Rightarrow> expr \<Rightarrow> compiler \<Rightarrow> compiler \<Rightarrow> compiler" where
  "compile_binary ce op el er comp_l comp_r width so st =
     (let wl = vm_expr_width ce el; wr = vm_expr_width ce er;
          sl = vm_expr_signed ce el; sr = vm_expr_signed ce er;
          sg = vm_expr_signed ce (BinaryOp op el er)
      in if is_bitwise op then compile_bitwise op wl wr (sl \<and> sr) comp_l comp_r width so st
         else if is_logical op then
           (if has_impure_call er
            then rbind (comp_l 0 None st) (compile_short_circuit op wl comp_r)
            else compile_logical op sg wl comp_l comp_r width so st)
         else rbind (compile_operands ce op el er comp_l comp_r width so st)
           (\<lambda>(result_w, st1). rmap (\<lambda>opc.
              emit_ext_if (width \<noteq> 0 \<and> result_w \<noteq> width) (opt_or so sg) width (emit opc 0 st1))
              (select_binary_opcode op so sl sr)))"

definition compile_unary :: "comp_env \<Rightarrow> unop \<Rightarrow> expr \<Rightarrow> compiler \<Rightarrow> compiler" where
  "compile_unary ce op e compf width so st =
     (case unary_opcode op of
        None \<Rightarrow> Inl ValueError
      | Some opc \<Rightarrow>
          (if op \<in> {UInv, UPlus, UMinus} then
             rbind (if width \<noteq> 0 then rmap (max width) (vm_expr_width ce e) else Inr width) (\<lambda>target.
             rmap (\<lambda>st1. emit opc 0
                      (emit_ext_if (width \<noteq> 0) (opt_or so (vm_expr_signed ce e)) target st1))
               (compf target so st))
           else
             rbind (vm_expr_width ce e) (\<lambda>w.
             rmap (\<lambda>st1. emit_ext_if (width > 1) (opt_or so (vm_expr_signed ce (UnaryOp op e))) width
                      (emit opc 0 st1))
               (compf w None st))))"

text \<open>\<open>_compile_lazy_ternary\<close>: the condition is on the stack; only the chosen branch runs.\<close>

definition compile_lazy_branch ::
    "nat \<Rightarrow> compiler \<Rightarrow> int \<Rightarrow> bool option \<Rightarrow> comp_state \<Rightarrow> (nat \<times> comp_state) res" where
  "compile_lazy_branch idx comp_b width so st =
     rmap (\<lambda>st1. (let st2 = emit TERNARY 0 (emit DUP 0 st1)
                  in (length (cs_prog st2), emit JUMP 0 st2)))
       (comp_b width so (patch idx JUMP_IF_NONZERO st))"

definition compile_lazy_ternary ::
    "int res \<Rightarrow> compiler \<Rightarrow> compiler \<Rightarrow> int \<Rightarrow> bool option \<Rightarrow> comp_state \<Rightarrow> comp_state res" where
  "compile_lazy_ternary wc comp_t comp_f width so st0 =
     (let st1 = emit DUP 0 st0;
          true_idx = length (cs_prog st1);
          st2 = emit DUP 0 (emit JUMP_IF_NONZERO 0 st1)
      in rbind wc (\<lambda>w.
         (let st3 = emit CMP_CASE_EQ 0 (emit_const (known 0 (nat (max w 1))) st2);
              false_idx = length (cs_prog st3)
          in rbind (comp_t width so (emit JUMP_IF_NONZERO 0 st3)) (\<lambda>st4.
             rbind (comp_f width so st4) (\<lambda>st5.
             (let st6 = emit TERNARY 0 st5;
                  end1 = length (cs_prog st6)
              in rbind (compile_lazy_branch true_idx comp_t width so (emit JUMP 0 st6)) (\<lambda>(end2, st7).
                 rbind (compile_lazy_branch false_idx comp_f width so st7) (\<lambda>(end3, st8).
                   Inr (patch end3 JUMP (patch end2 JUMP (patch end1 JUMP st8)))))))))))"

definition compile_ternary ::
    "comp_env \<Rightarrow> expr \<Rightarrow> expr \<Rightarrow> expr \<Rightarrow> compiler \<Rightarrow> compiler \<Rightarrow> compiler \<Rightarrow> compiler" where
  "compile_ternary ce c t f comp_c comp_t comp_f width so st =
     (let own_signed = opt_or so (vm_expr_signed ce (TernaryOp c t f))
      in rbind (vm_expr_width ce c) (\<lambda>wc.
         rbind (comp_c wc None st) (\<lambda>st1.
         rbind (max_res (vm_expr_width ce t) (vm_expr_width ce f)) (\<lambda>wb.
           (let own_width = max width wb
            in if has_impure_call t \<or> has_impure_call f
               then compile_lazy_ternary (vm_expr_width ce c) comp_t comp_f own_width (Some own_signed) st1
               else rbind (comp_t own_width (Some own_signed) st1) (\<lambda>st2.
                    rmap (emit TERNARY 0) (comp_f own_width (Some own_signed) st2)))))))"

text \<open>The parts of a concatenation, each at its own width.\<close>

fun compile_parts :: "(int res \<times> compiler) list \<Rightarrow> comp_state \<Rightarrow> comp_state res" where
  "compile_parts [] st = Inr st"
| "compile_parts ((w, c) # cs) st = rbind w (\<lambda>w. rbind (c w None st) (compile_parts cs))"

definition compile_concat :: "(int res \<times> compiler) list \<Rightarrow> compiler" where
  "compile_concat parts width so st =
     rmap (\<lambda>st1. emit_ext_if (width \<noteq> 0) (so = Some True) width (emit CONCAT (int (length parts)) st1))
       (compile_parts parts st)"

definition compile_streaming ::
    "(int res \<times> compiler) list \<Rightarrow> int option option \<Rightarrow> compiler" where
  "compile_streaming parts slice width so st =
     rbind (compile_parts parts st) (\<lambda>st1.
     rbind (case slice of None \<Rightarrow> Inr 1
              | Some r \<Rightarrow> (case r of Some n \<Rightarrow> Inr n | None \<Rightarrow> Inl NotImplementedError)) (\<lambda>slice_size.
       if slice_size \<le> 0 then Inl ValueError
       else (let st2 = emit CONCAT (int (length parts)) st1;
                 st3 = (if slice_size > 64 then st2\<lparr>cs_exceeds := True\<rparr> else st2)
             in Inr (emit_ext_if (width \<noteq> 0) (so = Some True) width (emit STREAM_REVERSE slice_size st3)))))"

definition append_base_adjust :: "int \<Rightarrow> comp_state \<Rightarrow> comp_state" where
  "append_base_adjust base st =
     (if base = 0 then st else emit SUB 0 (emit_const (known base 32) st))"

definition vm_select_base :: "comp_env \<Rightarrow> expr \<Rightarrow> int" where
  "vm_select_base ce target = (case target of
     Identifier n h _ \<Rightarrow> ce_signal_bases ce (identifier_name n h)
   | BitSelect t _ \<Rightarrow> (case t of
       Identifier n h _ \<Rightarrow>
         (if mem_map ce (identifier_name n h) \<noteq> None then ce_memory_bases ce (identifier_name n h) else 0)
     | _ \<Rightarrow> 0)
   | _ \<Rightarrow> 0)"

definition compile_memory_select :: "nat \<Rightarrow> bool \<Rightarrow> compiler \<Rightarrow> compiler" where
  "compile_memory_select mid sg comp_i width so st =
     rmap (\<lambda>st1. emit_ext_if (width \<noteq> 0) (opt_or so sg) width (emit LOAD_MEM (int mid) st1))
       (comp_i 0 None st)"

definition compile_bit_select :: "comp_env \<Rightarrow> expr \<Rightarrow> compiler \<Rightarrow> compiler \<Rightarrow> compiler" where
  "compile_bit_select ce t comp_t comp_i width so st =
     rbind (comp_t 0 None st) (\<lambda>st1.
     rmap (\<lambda>st2. emit_ext_if (width \<noteq> 0) (so = Some True) width
              (emit BIT_SELECT 0 (append_base_adjust (vm_select_base ce t) st2)))
       (comp_i 0 None st1))"

definition compile_range_select ::
    "comp_env \<Rightarrow> expr \<Rightarrow> compiler \<Rightarrow> compiler \<Rightarrow> compiler \<Rightarrow> compiler" where
  "compile_range_select ce t comp_t comp_m comp_l width so st =
     (let base = vm_select_base ce t
      in rbind (comp_t 0 None st) (\<lambda>st1.
         rbind (comp_m 0 None st1) (\<lambda>st2.
         rmap (\<lambda>st3. emit_ext_if (width \<noteq> 0) (so = Some True) width
                  (emit RANGE_SELECT 0 (append_base_adjust base st3)))
           (comp_l 0 None (append_base_adjust base st2)))))"

definition compile_replication :: "int res \<Rightarrow> compiler \<Rightarrow> compiler \<Rightarrow> compiler" where
  "compile_replication wv comp_c comp_v width so st =
     rbind (comp_c 0 None st) (\<lambda>st1.
     rbind wv (\<lambda>w.
     rmap (\<lambda>st2. emit_ext_if (width \<noteq> 0) (so = Some True) width (emit REPLICATE 0 st2))
       (comp_v w None st1)))"

definition compile_select_base :: "int res \<Rightarrow> bool \<Rightarrow> compiler \<Rightarrow> comp_state \<Rightarrow> comp_state res" where
  "compile_select_base wb sg comp_b st =
     rbind wb (\<lambda>w. rmap (emit_ext sg 64) (comp_b w None st))"

definition compile_part_select ::
    "comp_env \<Rightarrow> expr \<Rightarrow> expr \<Rightarrow> direction \<Rightarrow> compiler \<Rightarrow> compiler \<Rightarrow> compiler \<Rightarrow> compiler" where
  "compile_part_select ce t b dir comp_t comp_b comp_w width so st =
     rbind (comp_t 0 None st) (\<lambda>st1.
     rbind (compile_select_base (vm_expr_width ce b) (vm_expr_signed ce b) comp_b st1) (\<lambda>st2.
     rmap (\<lambda>st3. emit_ext_if (width \<noteq> 0) (so = Some True) width
              (emit (if dir = PlusColon then PART_SEL_UP else PART_SEL_DOWN) 0 st3))
       (comp_w 0 None (emit RESIZE 64 (append_base_adjust (vm_select_base ce t) st2)))))"

definition compile_pattern ::
    "bool \<Rightarrow> (int res \<times> compiler) list \<Rightarrow> (int res \<times> compiler) option \<Rightarrow> compiler" where
  "compile_pattern is_named parts dflt width so st =
     (if is_named then Inl ValueError
      else if parts \<noteq> [] then
        rbind (compile_parts parts st) (\<lambda>st1.
        rmap (\<lambda>total. emit_ext_if (width \<noteq> 0 \<and> total \<noteq> width) False width
                 (emit CONCAT (int (length parts)) st1))
          (sum_res (map fst parts)))
      else (case dflt of
          Some (w, c) \<Rightarrow>
            rbind (c width None st) (\<lambda>st1.
            if width \<noteq> 0 then rmap (\<lambda>w. emit_ext_if (w \<noteq> width) False width st1) w else Inr st1)
        | None \<Rightarrow> (if width < 0 then Inl ValueError
                   else Inr (emit_const (known 0 (if width = 0 then 1 else nat width)) st))))"

definition compile_cast :: "bool \<Rightarrow> int res \<Rightarrow> compiler \<Rightarrow> compiler" where
  "compile_cast is_signed wi compi width so st =
     rbind wi (\<lambda>inner_w.
     rmap (emit_ext_if (width \<noteq> 0 \<and> inner_w \<noteq> width) (opt_or so is_signed) width)
       (compi inner_w None st))"

text \<open>\<open>_compile_function_call\<close>: the system functions other than the casts.\<close>

definition bits_width :: "comp_env \<Rightarrow> expr \<Rightarrow> int res" where
  "bits_width ce a = (case a of
     Identifier n h _ \<Rightarrow>
       (case param_env ce (''$bits:'' @ n) of Some w \<Rightarrow> Inr w | None \<Rightarrow> vm_expr_width ce a)
   | _ \<Rightarrow> vm_expr_width ce a)"

definition compile_function_call ::
    "comp_env \<Rightarrow> string \<Rightarrow> expr list \<Rightarrow> compiler list \<Rightarrow> comp_state \<Rightarrow> comp_state res" where
  "compile_function_call ce f args comps st =
     (let name = lower f
      in if name = ''$clog2'' then
           rmap (emit FUNC_CLOG2 0)
             (case comps of c # _ \<Rightarrow> c 0 None st | [] \<Rightarrow> Inr (emit_const (known 0 32) st))
         else if name = ''$signed'' \<or> name = ''$unsigned'' then
           (case comps of c # _ \<Rightarrow> c 0 None st | [] \<Rightarrow> Inr (emit_const (v_x 32) st))
         else if name = ''$bits'' then
           (case args of
              a # _ \<Rightarrow> rmap (\<lambda>w. emit_const (known w 32) st) (bits_width ce a)
            | [] \<Rightarrow> Inr (emit_const (known 0 32) st))
         else if name = ''$time'' \<or> name = ''$realtime'' then Inr (emit SYS_TIME 0 st)
         else if name = ''$stime'' then Inr (emit RESIZE 32 (emit SYS_TIME 0 st))
         else if name = ''$random'' \<or> name = ''$fopen'' \<or> name = ''$feof''
              \<or> (name = ''$__vf_real'' \<and> length args = 3) then Inl Unmodelled
         else Inl NotImplementedError)"

section \<open>Compilation\<close>

text \<open>\<open>_VM_FAST_WIDE_WORDS * 64\<close>: wider code cannot run on the fast interpreter.\<close>

definition fast_width_limit :: int where
  "fast_width_limit = 8 * 64"

definition note_width :: "int \<Rightarrow> int res \<Rightarrow> comp_state \<Rightarrow> comp_state res" where
  "note_width width w st =
     (if width > fast_width_limit then Inr (st\<lparr>cs_exceeds := True\<rparr>)
      else rmap (\<lambda>w. if w > fast_width_limit then st\<lparr>cs_exceeds := True\<rparr> else st) w)"

definition noting :: "int res \<Rightarrow> compiler \<Rightarrow> compiler" where
  "noting w c width so st = rbind (note_width width w st) (c width so)"

lemma vm_size_strip_casts_less [termination_simp]: "size (strip_casts a) < Suc (size a + n)"
  using size_strip_casts [of a] by linarith

function compile_expr :: "comp_env \<Rightarrow> expr \<Rightarrow> compiler" where
  "compile_expr ce (Identifier n h _) = noting (Inr 0) (compile_identifier ce (identifier_name n h))"
| "compile_expr ce (Literal l) = noting (Inr 0) (compile_literal_expr l)"
| "compile_expr ce (BinaryOp op l r) =
     noting (Inr 0) (compile_binary ce op l r (compile_expr ce l) (compile_expr ce r))"
| "compile_expr ce (UnaryOp op e) = noting (Inr 0) (compile_unary ce op e (compile_expr ce e))"
| "compile_expr ce (TernaryOp c t f) =
     noting (Inr 0) (compile_ternary ce c t f (compile_expr ce c) (compile_expr ce t) (compile_expr ce f))"
| "compile_expr ce (Concatenation parts) =
     noting (vm_expr_width ce (Concatenation parts))
       (compile_concat (map (\<lambda>p. (vm_expr_width ce p, compile_expr ce p)) parts))"
| "compile_expr ce (StreamingConcatenation parts slice) =
     noting (vm_expr_width ce (StreamingConcatenation parts slice))
       (compile_streaming (map (\<lambda>p. (vm_expr_width ce p, compile_expr ce p)) parts)
         (map_option (vm_const_int ce) slice))"
| "compile_expr ce (BitSelect t i) = noting (Inr 0)
     (case t of
        Identifier n h _ \<Rightarrow>
          (case mem_map ce (identifier_name n h) of
             Some mid \<Rightarrow> compile_memory_select mid (vm_expr_signed ce (BitSelect t i)) (compile_expr ce i)
           | None \<Rightarrow> compile_bit_select ce t (compile_expr ce t) (compile_expr ce i))
      | _ \<Rightarrow> compile_bit_select ce t (compile_expr ce t) (compile_expr ce i))"
| "compile_expr ce (RangeSelect t m l) =
     noting (Inr 0) (compile_range_select ce t (compile_expr ce t) (compile_expr ce m) (compile_expr ce l))"
| "compile_expr ce (Replication c v) =
     noting (vm_expr_width ce (Replication c v))
       (compile_replication (vm_expr_width ce v) (compile_expr ce c) (compile_expr ce v))"
| "compile_expr ce (AssignmentPattern named pos dflt) =
     noting (Inr 0) (compile_pattern (named \<noteq> []) (map (\<lambda>p. (vm_expr_width ce p, compile_expr ce p)) pos)
       (map_option (\<lambda>e. (vm_expr_width ce e, compile_expr ce e)) dflt))"
| "compile_expr ce (PartSelect t b w dir) =
     noting (Inr 0)
       (compile_part_select ce t b dir (compile_expr ce t) (compile_expr ce b) (compile_expr ce w))"
| "compile_expr ce (FunctionCall f []) =
     noting (Inr 0) (\<lambda>width so st. compile_function_call ce f [] [] st)"
| "compile_expr ce (FunctionCall f (a # args)) = noting (Inr 0)
     (if lower f = ''$__2state'' then (\<lambda>width so st. rmap (emit CLEAR_MASK 0) (compile_expr ce a width so st))
      else if is_sign_cast f then
        compile_cast (lower f = ''$signed'') (vm_expr_width ce (strip_casts a)) (compile_expr ce (strip_casts a))
      else (\<lambda>width so st. compile_function_call ce f (a # args) (map (compile_expr ce) (a # args)) st))"
| "compile_expr ce (StringLiteral s) = noting (Inr 0)
     (\<lambda>width so st. Inr (emit_const
        (known (foldl (\<lambda>v c. push_bit 8 v OR int (ord_char c)) 0 s) (length s * 8)) st))"
| "compile_expr ce (Mintypmax mn typ mx) = noting (Inr 0) (\<lambda>width so. compile_expr ce typ 0 None)"
| "compile_expr ce (WidthCast w e) = noting (Inr 0) (\<lambda>width so st. Inl TypeError)"
  by pat_completeness auto
termination
  by (relation "measure (size \<circ> snd)")
    (auto simp: termination_simp less_Suc_eq_le size_list_estimation' trans_le_add1)

end
