(* ===== verification/Engine_Equiv.thy ===== *)
theory Engine_Equiv
  imports Evaluator Vm_Compiler "HOL-Library.Sublist"
begin

text \<open>
  The two engines agree: running the code that the VM compiler emits for an expression pushes
  the value that the reference evaluator computes for it.

  The theory first gives a big-step reading of straight-line code (\<open>exec_list\<close>) and shows that
  the interpreter's loop follows it. \<open>runs m st st' s s'\<close> says that the code emitted between two
  compiler states takes the stack \<open>s\<close> to \<open>s'\<close>; it composes along the compiler's own composition.
\<close>

section \<open>Straight-line code\<close>

fun exec_list :: "machine \<Rightarrow> program \<Rightarrow> val4 list \<Rightarrow> val4 list res" where
  "exec_list m [] s = Inr s"
| "exec_list m (i # is) s = (case value_op m i s of
     None \<Rightarrow> Inl Unmodelled
   | Some r \<Rightarrow> rbind r (exec_list m is))"

lemma exec_list_append: "exec_list m (c1 @ c2) s = rbind (exec_list m c1 s) (exec_list m c2)"
proof (induction c1 arbitrary: s)
  case (Cons i c1)
  show ?case
  proof (cases "value_op m i s")
    case (Some r)
    then show ?thesis using Cons by (cases r) simp_all
  qed simp
qed simp

definition control_op :: "opcode \<Rightarrow> bool" where
  "control_op op \<longleftrightarrow> op \<in> {JUMP, JUMP_IF_ZERO, JUMP_IF_NONZERO, SYS_FINISH, PROC_END}"

lemma value_op_not_control: "value_op m i s = Some r \<Longrightarrow> \<not> control_op (fst i)"
  by (cases i) (auto simp: value_op_def control_op_def binary_fun_def unary_fun_def ternary_fun_def)

lemma exec_instr_value:
  assumes "value_op m i (c_stack c) = Some (Inr s')" "c_mach c = m"
  shows "exec_instr i c = Running (c\<lparr>c_pc := c_pc c + 1, c_stack := s'\<rparr>)"
proof -
  obtain op a1 a2 where i: "i = (op, a1, a2)" by (cases i)
  have "\<not> control_op op" using value_op_not_control [OF assms(1)] by (simp add: i)
  then have "op \<noteq> JUMP" "op \<noteq> JUMP_IF_ZERO" "op \<noteq> JUMP_IF_NONZERO" "op \<noteq> SYS_FINISH" "op \<noteq> PROC_END"
    by (simp_all add: control_op_def)
  then show ?thesis using assms by (simp add: exec_instr_def i Let_def)
qed

lemma vm_run_exec_list:
  assumes "exec_list m code s = Inr s'"
  shows "vm_run (length code + fuel) (pre @ code @ post)
       \<lparr>c_pc = int (length pre), c_stack = s, c_iters = k, c_mach = m\<rparr>
     = vm_run fuel (pre @ code @ post)
       \<lparr>c_pc = int (length pre + length code), c_stack = s', c_iters = k, c_mach = m\<rparr>"
  using assms
proof (induction code arbitrary: s pre)
  case (Cons i code)
  then obtain t where t: "value_op m i s = Some (Inr t)" "exec_list m code t = Inr s'"
    by (auto split: option.splits simp: rbind_eq_Inr_iff)
  have "vm_step (pre @ (i # code) @ post) \<lparr>c_pc = int (length pre), c_stack = s, c_iters = k, c_mach = m\<rparr>
      = Running \<lparr>c_pc = int (length pre) + 1, c_stack = t, c_iters = k, c_mach = m\<rparr>"
    using t(1) by (simp add: vm_step_def exec_instr_value nth_append)
  moreover have "vm_run (length code + fuel) ((pre @ [i]) @ code @ post)
       \<lparr>c_pc = int (length (pre @ [i])), c_stack = t, c_iters = k, c_mach = m\<rparr>
     = vm_run fuel ((pre @ [i]) @ code @ post)
       \<lparr>c_pc = int (length (pre @ [i]) + length code), c_stack = s', c_iters = k, c_mach = m\<rparr>"
    by (rule Cons.IH [OF t(2)])
  ultimately show ?case by (simp add: add.commute)
qed simp

section \<open>Code between compiler states\<close>

definition extends :: "comp_state \<Rightarrow> comp_state \<Rightarrow> bool" where
  "extends st st' \<longleftrightarrow> prefix (cs_prog st) (cs_prog st') \<and> prefix (cs_pool st) (cs_pool st')"

definition code_between :: "comp_state \<Rightarrow> comp_state \<Rightarrow> program" where
  "code_between st st' = drop (length (cs_prog st)) (cs_prog st')"

definition runs :: "machine \<Rightarrow> comp_state \<Rightarrow> comp_state \<Rightarrow> val4 list \<Rightarrow> val4 list \<Rightarrow> bool" where
  "runs m st st' s s' \<longleftrightarrow> extends st st' \<and>
     (prefix (cs_pool st') (const_pool m) \<longrightarrow> exec_list m (code_between st st') s = Inr s')"

lemma runs_trans [trans]:
  assumes "runs m a b s t" "runs m b c t u"
  shows "runs m a c s u"
proof -
  obtain p q where p: "cs_prog b = cs_prog a @ p" and q: "cs_prog c = cs_prog b @ q"
    using assms by (auto simp: runs_def extends_def prefix_def)
  have pools: "prefix (cs_pool a) (cs_pool b)" "prefix (cs_pool b) (cs_pool c)"
    using assms by (auto simp: runs_def extends_def)
  have "exec_list m (p @ q) s = Inr u" if "prefix (cs_pool c) (const_pool m)"
  proof -
    have "prefix (cs_pool b) (const_pool m)" using pools(2) that by (rule prefix_order.trans)
    then have "exec_list m p s = Inr t" "exec_list m q t = Inr u"
      using assms that p q by (auto simp: runs_def code_between_def)
    then show ?thesis by (simp add: exec_list_append)
  qed
  then show ?thesis
    using p q prefix_order.trans [OF pools] by (simp add: runs_def extends_def code_between_def)
qed

lemma runs_refl [simp]: "runs m st st s s"
  by (simp add: runs_def extends_def code_between_def)

lemma runs_exceeds [simp]: "runs m st (st\<lparr>cs_exceeds := b\<rparr>) s s"
  by (simp add: runs_def extends_def code_between_def)

lemma runs_emit:
  assumes "value_op m (instr op a) s = Some (Inr s')"
  shows "runs m st (emit op a st) s s'"
  using assms by (simp add: runs_def extends_def code_between_def emit_def)

lemma find_const_Some: "find_const v us i = Some j \<Longrightarrow> i \<le> j \<and> j < i + length us \<and> us ! (j - i) = v"
proof (induction v us i rule: find_const.induct)
  case (2 v u us i)
  show ?case
  proof (cases "u = v")
    case False
    then have "Suc i \<le> j \<and> j < Suc i + length us \<and> us ! (j - Suc i) = v" using 2 by simp
    moreover from this have "j - i = Suc (j - Suc i)" by linarith
    ultimately show ?thesis by simp
  qed (use 2 in auto)
qed simp

lemma runs_emit_const: "runs m st (emit_const v st) s (v # s)"
proof (cases "find_const v (cs_pool st) 0")
  case None
  have "value_op m (instr LOAD_CONST (int (length (cs_pool st)))) s = Some (Inr (v # s))"
    if "prefix (cs_pool st @ [v]) (const_pool m)"
    using that by (auto simp: value_op_def instr_def prefix_def nth_append)
  then show ?thesis
    using None by (auto simp: runs_def extends_def code_between_def emit_const_def add_const_def emit_def)
next
  case (Some j)
  have "value_op m (instr LOAD_CONST (int j)) s = Some (Inr (v # s))"
    if "prefix (cs_pool st) (const_pool m)"
    using that find_const_Some [OF Some] by (auto simp: value_op_def instr_def prefix_def nth_append)
  then show ?thesis
    using Some by (auto simp: runs_def extends_def code_between_def emit_const_def add_const_def emit_def)
qed

lemma runs_emit_ext:
  assumes "0 \<le> w" "0 < v_width v"
  shows "runs m st (emit_ext sg w st) (v # s) ((if sg then sext v (nat w) else resize v (nat w)) # s)"
  using assms
  by (auto simp: emit_ext_def value_op_def instr_def binary_fun_def unary_fun_def sign_ext_op_def resize_op_def
      intro!: runs_emit)

lemma runs_emit_ext_id:
  assumes "wf_val v" "w = int (v_width v)" "0 < v_width v"
  shows "runs m st (emit_ext sg w st) (v # s) (v # s)"
  using runs_emit_ext [of w v m st sg s] assms by (cases sg) simp_all

lemma runs_emit_binary:
  assumes "binary_fun op = Some f" "f a b = Inr v" "op \<noteq> LOAD_SIG" "op \<noteq> LOAD_CONST"
  shows "runs m st (emit op x st) (b # a # s) (v # s)"
  using assms
  by (intro runs_emit) (auto simp: value_op_def instr_def binary_fun_def split: if_splits)

lemma runs_emit_unary:
  assumes "unary_fun op x = Some f" "f a = Inr v" "binary_fun op = None"
  shows "runs m st (emit op x st) (a # s) (v # s)"
  using assms
  by (intro runs_emit) (auto simp: value_op_def instr_def unary_fun_def split: if_splits)

section \<open>Related states, and the expressions compared\<close>

definition same_signal :: "comp_env \<Rightarrow> eval_ctx \<Rightarrow> machine \<Rightarrow> string \<Rightarrow> bool" where
  "same_signal ce ctx m name \<longleftrightarrow> (case signals ctx name of
     None \<Rightarrow> True
   | Some v \<Rightarrow> (case signal_map ce name of
       None \<Rightarrow> False
     | Some sid \<Rightarrow> valid_sig m (int sid) \<and> v = sig_value m sid \<and> sid < length (ce_sig_signed ce)
         \<and> signal_signed ctx name = ce_sig_signed ce ! sid))"

definition same_memory :: "comp_env \<Rightarrow> eval_ctx \<Rightarrow> machine \<Rightarrow> string \<Rightarrow> bool" where
  "same_memory ce ctx m name \<longleftrightarrow> (case memories ctx name of
     None \<Rightarrow> mem_map ce name = None \<and> name \<notin> set (signed_memories ce)
   | Some (data, ew) \<Rightarrow> (case mem_map ce name of
       None \<Rightarrow> False
     | Some mid \<Rightarrow> mid < length (mem_info m) \<and>
         (case mem_info m ! mid of (ew', depth, base) \<Rightarrow> ew' = ew \<and> depth = length data \<and>
            data = map (\<lambda>k. mk_value (mem_val m ! (base + k)) ew (mem_mask m ! (base + k))) [0..<depth]) \<and>
         signal_signed ctx name = (name \<in> set (signed_memories ce))))"

definition same_state :: "comp_env \<Rightarrow> eval_ctx \<Rightarrow> machine \<Rightarrow> bool" where
  "same_state ce ctx m \<longleftrightarrow>
     ce_sig_width ce = sig_width m \<and> ce_mem_info ce = mem_info m \<and>
     ce_signal_bases ce = signal_bases ctx \<and> ce_memory_bases ce = memory_bases ctx \<and>
     (\<forall>name. same_signal ce ctx m name \<and> same_memory ce ctx m name)"

text \<open>Literals that both engines read the same way, and those that can be an index or a count.\<close>

definition agree_literal :: "literal \<Rightarrow> bool" where
  "agree_literal l \<longleftrightarrow>
     eval_literal l = Inr (compile_literal l) \<and> v_width (compile_literal l) = lit_self_width l"

definition index_literal :: "literal \<Rightarrow> bool" where
  "index_literal l \<longleftrightarrow> agree_literal l \<and> v_mask (compile_literal l) = 0
     \<and> lit_int l = Inr (v_val (compile_literal l)) \<and> lit_self_width l < 64
     \<and> (lit_signed l \<longrightarrow> v_val (compile_literal l) < 2 ^ (lit_self_width l - 1))"

definition known_unop :: "unop \<Rightarrow> bool" where
  "known_unop op = (case op of UOther _ \<Rightarrow> False | _ \<Rightarrow> True)"

definition known_binop :: "binop \<Rightarrow> bool" where
  "known_binop op = (case op of BOther _ \<Rightarrow> False | _ \<Rightarrow> True)"

definition literal_of :: "expr \<Rightarrow> literal option" where
  "literal_of e = (case e of Literal l \<Rightarrow> Some l | _ \<Rightarrow> None)"

text \<open>
  The expressions compared: declared signals, literals, memory elements, all operators except
  the signed division and modulus, conditionals, concatenations, replications, casts, and bit,
  range and part selects whose index is unsigned.
\<close>

fun agree_expr :: "eval_ctx \<Rightarrow> expr \<Rightarrow> bool" where
  "agree_expr ctx (Identifier n h _) =
     (case signals ctx (identifier_name n h) of Some v \<Rightarrow> 0 < v_width v | None \<Rightarrow> False)"
| "agree_expr ctx (Literal l) = agree_literal l"
| "agree_expr ctx (UnaryOp op a) = (known_unop op \<and> agree_expr ctx a)"
| "agree_expr ctx (BinaryOp op a b) =
     (known_binop op \<and> agree_expr ctx a \<and> agree_expr ctx b
      \<and> \<not> (op \<in> {Div, Mod} \<and> expr_signed ctx a \<and> expr_signed ctx b))"
| "agree_expr ctx (TernaryOp c a b) = (agree_expr ctx c \<and> agree_expr ctx a \<and> agree_expr ctx b)"
| "agree_expr ctx (Concatenation parts) = (parts \<noteq> [] \<and> list_all (agree_expr ctx) parts)"
| "agree_expr ctx (Replication c v) =
     (case literal_of c of
        Some l \<Rightarrow> index_literal l \<and> 0 < v_val (compile_literal l) \<and> agree_expr ctx v
      | None \<Rightarrow> False)"
| "agree_expr ctx (BitSelect t i) =
     (agree_expr ctx i \<and> \<not> expr_signed ctx i \<and>
      (case t of
         Identifier n h _ \<Rightarrow>
           (case memories ctx (identifier_name n h) of
              Some (data, ew) \<Rightarrow> 0 < ew
            | None \<Rightarrow> select_base ctx t = 0 \<and> agree_expr ctx t)
       | _ \<Rightarrow> select_base ctx t = 0 \<and> agree_expr ctx t))"
| "agree_expr ctx (RangeSelect t m l) =
     (agree_expr ctx t \<and> select_base ctx t = 0 \<and>
      (case (literal_of m, literal_of l) of
         (Some a, Some b) \<Rightarrow> index_literal a \<and> index_literal b
            \<and> v_val (compile_literal b) \<le> v_val (compile_literal a)
       | _ \<Rightarrow> False))"
| "agree_expr ctx (FunctionCall f [a]) = ((f = ''$signed'' \<or> f = ''$unsigned'') \<and> agree_expr ctx a)"
| "agree_expr ctx _ = False"

lemma agree_no_impure: "agree_expr ctx e \<Longrightarrow> \<not> has_impure_call e"
proof (induction ctx e rule: agree_expr.induct)
  case (6 ctx parts)
  then show ?case by (auto simp: list_all_iff list_ex_iff)
next
  case (7 ctx c v)
  then show ?case by (auto simp: literal_of_def split: expr.splits option.splits)
next
  case (8 ctx t i)
  have "\<not> has_impure_call t"
    using 8 by (cases t) (auto split: option.splits prod.splits)
  then show ?case using 8 by simp
next
  case (9 ctx t m l)
  then show ?case by (auto simp: literal_of_def split: expr.splits option.splits)
next
  case (10 ctx f a)
  then show ?case by (auto simp: pure_system_functions_def)
qed auto

lemma lower_casts [simp]: "lower ''$signed'' = ''$signed''" "lower ''$unsigned'' = ''$unsigned''"
  by (simp_all add: lower_def lower_char_def ord_char_def)

lemma is_sign_cast_names [simp]: "is_sign_cast ''$signed''" "is_sign_cast ''$unsigned''"
  by (simp_all add: is_sign_cast_def)

lemma agree_strip_casts:
  assumes "agree_expr ctx e"
  shows "agree_expr ctx (strip_casts e)"
    and "expr_self_width ctx (strip_casts e) = expr_self_width ctx e"
    and "vm_expr_width ce (strip_casts e) = vm_expr_width ce e"
proof -
  have "agree_expr ctx (strip_casts e) \<and> expr_self_width ctx (strip_casts e) = expr_self_width ctx e
      \<and> vm_expr_width ce (strip_casts e) = vm_expr_width ce e"
    using assms
  proof (induction ctx e rule: agree_expr.induct)
    case (10 ctx f a)
    then show ?case by auto
  qed auto
  then show "agree_expr ctx (strip_casts e)"
    "expr_self_width ctx (strip_casts e) = expr_self_width ctx e"
    "vm_expr_width ce (strip_casts e) = vm_expr_width ce e" by auto
qed

section \<open>Widths and signs\<close>

definition same_static :: "comp_env \<Rightarrow> eval_ctx \<Rightarrow> expr \<Rightarrow> int \<Rightarrow> bool" where
  "same_static ce ctx e n \<longleftrightarrow> 0 < n \<and> expr_self_width ctx e = Inr n \<and> vm_expr_width ce e = Inr n
     \<and> vm_expr_signed ce e = expr_signed ctx e"

lemma lit_self_width_pos [simp]: "0 < lit_self_width l"
  by (auto simp: lit_self_width_def lit_width_or_32_def signed_literal_width_def
      split: option.split lit_value.split)

lemma literal_of_Some [simp]: "literal_of e = Some l \<longleftrightarrow> e = Literal l"
  by (cases e) (auto simp: literal_of_def)

lemma same_signalD:
  assumes "same_state ce ctx m" "signals ctx name = Some v"
  obtains sid where "signal_map ce name = Some sid" "valid_sig m (int sid)" "v = sig_value m sid"
    "sid < length (ce_sig_signed ce)" "signal_signed ctx name = ce_sig_signed ce ! sid"
    "sid < length (ce_sig_width ce)" "ce_sig_width ce ! sid = v_width v" "wf_val v"
proof -
  have "same_signal ce ctx m name" using assms(1) by (simp add: same_state_def)
  then obtain sid where "signal_map ce name = Some sid" "valid_sig m (int sid)" "v = sig_value m sid"
    "sid < length (ce_sig_signed ce)" "signal_signed ctx name = ce_sig_signed ce ! sid"
    using assms(2) by (auto simp: same_signal_def split: option.splits)
  moreover have "ce_sig_width ce = sig_width m" using assms(1) by (simp add: same_state_def)
  ultimately show ?thesis using that by (simp add: valid_sig_def sig_value_def)
qed

lemma same_memoryD:
  assumes "same_state ce ctx m" "memories ctx name = Some (data, ew)"
  obtains mid base where "mem_map ce name = Some mid" "mid < length (mem_info m)"
    "mem_info m ! mid = (ew, length data, base)" "ce_mem_info ce = mem_info m"
    "\<And>k. k < length data \<Longrightarrow> data ! k = mk_value (mem_val m ! (base + k)) ew (mem_mask m ! (base + k))"
    "signal_signed ctx name = (name \<in> set (signed_memories ce))"
proof -
  have sm: "same_memory ce ctx m name" "ce_mem_info ce = mem_info m"
    using assms(1) by (simp_all add: same_state_def)
  then obtain mid where mid: "mem_map ce name = Some mid" "mid < length (mem_info m)"
    using assms(2) by (auto simp: same_memory_def split: option.splits)
  obtain ew' depth base where i: "mem_info m ! mid = (ew', depth, base)" by (metis prod_cases3)
  have d: "ew' = ew" "depth = length data" "signal_signed ctx name = (name \<in> set (signed_memories ce))"
    and m: "data = map (\<lambda>k. mk_value (mem_val m ! (base + k)) ew (mem_mask m ! (base + k))) [0..<depth]"
    using sm(1) unfolding same_memory_def assms(2) mid(1) option.case prod.case i by blast+
  have "data ! k = mk_value (mem_val m ! (base + k)) ew (mem_mask m ! (base + k))" if "k < length data" for k
    by (subst m) (use that d in simp)
  with d i show ?thesis by (intro that [OF mid _ sm(2)]) simp_all
qed

lemma no_memory:
  "same_state ce ctx m \<Longrightarrow> memories ctx name = None
     \<Longrightarrow> mem_map ce name = None \<and> name \<notin> set (signed_memories ce)"
  by (auto simp: same_state_def same_memory_def dest!: spec [of _ name])

lemma same_select_base:
  assumes "same_state ce ctx m"
  shows "vm_select_base ce t = select_base ctx t"
proof -
  have b: "ce_signal_bases ce = signal_bases ctx" "ce_memory_bases ce = memory_bases ctx"
    using assms by (simp_all add: same_state_def)
  have m: "mem_map ce name \<noteq> None \<longleftrightarrow> memories ctx name \<noteq> None" for name
  proof (cases "memories ctx name")
    case (Some p)
    then obtain data ew where "memories ctx name = Some (data, ew)" by (cases p) auto
    from same_memoryD [OF assms this] show ?thesis using Some by auto
  qed (simp add: no_memory [OF assms])
  show ?thesis unfolding vm_select_base_def select_base_def b m ..
qed

lemma sum_res_map:
  "(\<And>x. x \<in> set xs \<Longrightarrow> f x = Inr (g x)) \<Longrightarrow> sum_res (map f xs) = Inr (sum_list (map g xs))"
  by (induction xs) auto

lemma same_static_concat:
  assumes "parts \<noteq> []" "\<And>p. p \<in> set parts \<Longrightarrow> \<exists>n. same_static ce ctx p n"
  shows "\<exists>n. same_static ce ctx (Concatenation parts) n"
proof -
  from assms(2) obtain g where g: "\<And>p. p \<in> set parts \<Longrightarrow> same_static ce ctx p (g p)" by metis
  have s: "sum_res (map (expr_self_width ctx) parts) = Inr (sum_list (map g parts))"
    "sum_res (map (vm_expr_width ce) parts) = Inr (sum_list (map g parts))"
    by (rule sum_res_map, use g in \<open>simp add: same_static_def\<close>)+
  obtain p ps where "parts = p # ps" using assms(1) by (cases parts) auto
  moreover have "0 \<le> sum_list (map g ps)"
    by (rule sum_list_nonneg) (use g calculation in \<open>auto simp: same_static_def less_imp_le\<close>)
  ultimately have "0 < sum_list (map g parts)"
    using g [of p] by (simp add: same_static_def)
  then show ?thesis using s by (auto simp: same_static_def)
qed

lemma lit_int_index: "index_literal l \<Longrightarrow> lit_int l = Inr (v_val (compile_literal l))"
  by (simp add: index_literal_def)

lemma agree_static:
  assumes "same_state ce ctx m" "agree_expr ctx e"
  shows "\<exists>n. same_static ce ctx e n"
  using assms
proof (induction ctx e rule: agree_expr.induct)
  case (1 ctx n h r)
  from 1(2) obtain v where v: "signals ctx (identifier_name n h) = Some v" "0 < v_width v"
    by (auto split: option.splits)
  obtain sid where "signal_map ce (identifier_name n h) = Some sid"
    "sid < length (ce_sig_signed ce)" "signal_signed ctx (identifier_name n h) = ce_sig_signed ce ! sid"
    "sid < length (ce_sig_width ce)" "ce_sig_width ce ! sid = v_width v"
    using same_signalD [OF 1(1) v(1)] by metis
  then show ?case using v by (auto simp: same_static_def vm_signal_width_def)
next
  case (2 ctx l)
  show ?case by (intro exI [of _ "int (lit_self_width l)"]) (simp add: same_static_def)
next
  case (3 ctx op a)
  then obtain x where "same_static ce ctx a x" by auto
  then show ?case
    by (intro exI [of _ "if is_one_bit_unary op then 1 else x"]) (simp add: same_static_def)
next
  case (4 ctx op a b)
  then obtain x y where "same_static ce ctx a x" "same_static ce ctx b y" by auto
  then show ?case by (auto simp: same_static_def max_res_def)
next
  case (5 ctx c a b)
  then obtain x y where "same_static ce ctx a x" "same_static ce ctx b y" by auto
  then show ?case by (auto simp: same_static_def max_res_def)
next
  case (6 ctx parts)
  then show ?case by (intro same_static_concat) (auto simp: list_all_iff)
next
  case (7 ctx c v)
  then obtain l w where l: "c = Literal l" "index_literal l" "0 < v_val (compile_literal l)"
    and w: "same_static ce ctx v w"
    by (auto split: option.splits)
  then show ?case by (auto simp: same_static_def lit_int_index)
next
  case (8 ctx t i)
  show ?case
  proof (cases "\<exists>n h r d ew. t = Identifier n h r \<and> memories ctx (identifier_name n h) = Some (d, ew)")
    case True
    then obtain n h r d ew where t: "t = Identifier n h r" "memories ctx (identifier_name n h) = Some (d, ew)"
      by blast
    obtain mid base where "mem_map ce (identifier_name n h) = Some mid" "mid < length (mem_info m)"
      "mem_info m ! mid = (ew, length d, base)" "ce_mem_info ce = mem_info m"
      "signal_signed ctx (identifier_name n h) = (identifier_name n h \<in> set (signed_memories ce))"
      using same_memoryD [OF "8.prems"(1) t(2)] by metis
    then show ?thesis using "8.prems"(2) t by (auto simp: same_static_def)
  next
    case False
    then show ?thesis using no_memory [OF "8.prems"(1)]
      by (cases t) (auto simp: same_static_def split: option.splits)
  qed
next
  case (9 ctx t m l)
  then show ?case by (auto simp: same_static_def lit_int_index range_self_width_def split: option.splits)
next
  case (10 ctx f a)
  then show ?case by (auto simp: same_static_def)
qed (auto simp: same_static_def)

section \<open>Values and code\<close>

definition compiles_to :: "machine \<Rightarrow> compiler \<Rightarrow> int \<Rightarrow> bool option \<Rightarrow> val4 \<Rightarrow> bool" where
  "compiles_to m c w so v \<longleftrightarrow> (\<forall>st. \<exists>st'. c w so st = Inr st' \<and> (\<forall>s. runs m st st' s (v # s)))"

definition in_context :: "int \<Rightarrow> int \<Rightarrow> bool option \<Rightarrow> bool" where
  "in_context n w so \<longleftrightarrow> (w = 0 \<and> so = None) \<or> n \<le> w"

definition same_value :: "machine \<Rightarrow> int \<Rightarrow> evaluator \<Rightarrow> compiler \<Rightarrow> int \<Rightarrow> bool option \<Rightarrow> bool" where
  "same_value m n ev c w so \<longleftrightarrow> (\<exists>v. ev w so = Inr v \<and> wf_val v \<and> int (v_width v) = (if w = 0 then n else w)
     \<and> compiles_to m c w so v)"

text \<open>Evaluating at the own width, or with the own sign, is evaluating without a context.\<close>

definition own_context :: "eval_ctx \<Rightarrow> expr \<Rightarrow> int \<Rightarrow> bool" where
  "own_context ctx e n \<longleftrightarrow> eval ctx e 0 None = eval ctx e n None
     \<and> (\<forall>w. eval ctx e w (Some (expr_signed ctx e)) = eval ctx e w None)"

definition engine_ok :: "comp_env \<Rightarrow> eval_ctx \<Rightarrow> machine \<Rightarrow> expr \<Rightarrow> int \<Rightarrow> bool" where
  "engine_ok ce ctx m e n \<longleftrightarrow> same_static ce ctx e n \<and> own_context ctx e n
     \<and> (\<forall>w so. in_context n w so \<longrightarrow> same_value m n (eval ctx e) (compile_expr ce e) w so)"

text \<open>
  A context narrower than the expression, as when a wide expression is assigned to a narrow signal:
  the two engines may keep different high bits, but agree on the low ones.
\<close>

definition cut_at :: "comp_env \<Rightarrow> eval_ctx \<Rightarrow> machine \<Rightarrow> expr \<Rightarrow> int \<Rightarrow> bool" where
  "cut_at ce ctx m e w \<longleftrightarrow> (\<exists>u u'. eval ctx e w None = Inr u \<and> compiles_to m (compile_expr ce e) w None u'
     \<and> wf_val u \<and> wf_val u' \<and> w \<le> int (v_width u) \<and> w \<le> int (v_width u') \<and> resize u (nat w) = resize u' (nat w))"

definition cuts :: "comp_env \<Rightarrow> eval_ctx \<Rightarrow> machine \<Rightarrow> expr \<Rightarrow> int \<Rightarrow> bool" where
  "cuts ce ctx m e n \<longleftrightarrow> (\<forall>w. 0 < w \<and> w < n \<longrightarrow> cut_at ce ctx m e w)"

lemma cut_atI:
  "eval ctx e w None = Inr u \<Longrightarrow> compiles_to m (compile_expr ce e) w None u' \<Longrightarrow> wf_val u \<Longrightarrow> wf_val u' \<Longrightarrow>
     w \<le> int (v_width u) \<Longrightarrow> w \<le> int (v_width u') \<Longrightarrow> resize u (nat w) = resize u' (nat w) \<Longrightarrow> cut_at ce ctx m e w"
  by (auto simp: cut_at_def)

lemma cuts_one [simp]: "cuts ce ctx m e 1"
  by (auto simp: cuts_def)

lemma same_valueI:
  "ev w so = Inr v \<Longrightarrow> wf_val v \<Longrightarrow> int (v_width v) = (if w = 0 then n else w) \<Longrightarrow>
     compiles_to m c w so v \<Longrightarrow> same_value m n ev c w so"
  by (auto simp: same_value_def)

lemma in_context_simps [simp]: "in_context n 0 None" "in_context n n so" "n \<le> w \<Longrightarrow> in_context n w so"
  by (simp_all add: in_context_def)

lemma compiles_noting:
  assumes "compiles_to m c w so v"
  shows "compiles_to m (noting (Inr k) c) w so v"
  unfolding compiles_to_def
proof
  fix st :: comp_state
  let ?st = "if w > fast_width_limit \<or> k > fast_width_limit then st\<lparr>cs_exceeds := True\<rparr> else st"
  have n: "noting (Inr k) c w so st = c w so ?st"
    by (simp add: noting_def note_width_def)
  obtain st' where "c w so ?st = Inr st'" "\<forall>s. runs m ?st st' s (v # s)"
    using assms by (force simp: compiles_to_def)
  moreover have "runs m st ?st s s" for s by simp
  ultimately show "\<exists>st'. noting (Inr k) c w so st = Inr st' \<and> (\<forall>s. runs m st st' s (v # s))"
    unfolding n using runs_trans by blast
qed

definition widened :: "val4 \<Rightarrow> int \<Rightarrow> bool \<Rightarrow> val4" where
  "widened v w b =
     (if w \<noteq> 0 \<and> int (v_width v) < w then (if b then sext v (nat w) else resize v (nat w)) else v)"

lemma widen_eq: "0 < v_width v \<Longrightarrow> widen v w b = Inr (widened v w b)"
  by (simp add: widen_def widened_def)

lemma adjust_if_eq:
  "0 < v_width v \<Longrightarrow> w = 0 \<or> int (v_width v) \<le> w \<Longrightarrow> adjust_if v w b = Inr (widened v w b)"
  by (auto simp: adjust_if_def adjust_def widened_def)

lemma wf_widened [simp]: "wf_val v \<Longrightarrow> wf_val (widened v w b)"
  by (simp add: widened_def)

lemma width_widened:
  "w = 0 \<or> int (v_width v) \<le> w \<Longrightarrow> int (v_width (widened v w b)) = (if w = 0 then int (v_width v) else w)"
  by (auto simp: widened_def)

lemma runs_widened:
  assumes "wf_val v" "0 < v_width v" "w = 0 \<or> int (v_width v) \<le> w" "int (v_width v) < w \<longrightarrow> c"
  shows "runs m st (emit_ext_if (w \<noteq> 0 \<and> c) b w st) (v # s) (widened v w b # s)"
  using assms runs_emit_ext [of w v m st b s] runs_emit_ext_id [of v w m st b s]
  by (auto simp: emit_ext_if_def widened_def)

lemma runs_widened':
  assumes "wf_val v" "0 < v_width v" "w = 0 \<or> int (v_width v) \<le> w"
  shows "runs m st (emit_ext_if (w \<noteq> 0) b w st) (v # s) (widened v w b # s)"
  using runs_widened [OF assms, of True] by simp

lemma adjust_id [simp]: "int (v_width v) = w \<Longrightarrow> adjust v w b = Inr v"
  by (simp add: adjust_def)

lemma adjust_if_id [simp]: "int (v_width v) = w \<Longrightarrow> adjust_if v w b = Inr v"
  by (simp add: adjust_if_def)

lemma adjust_if_0 [simp]: "adjust_if v 0 b = Inr v"
  by (simp add: adjust_if_def)

lemma widen_id [simp]: "w \<le> int (v_width v) \<Longrightarrow> widen v w b = Inr v"
  by (simp add: widen_def)

lemma widen_0 [simp]: "widen v 0 b = Inr v"
  by (simp add: widen_def)

section \<open>Leaves\<close>

lemma engine_ok_identifier:
  assumes "same_state ce ctx m" "signals ctx (identifier_name n h) = Some v" "0 < v_width v"
  shows "engine_ok ce ctx m (Identifier n h r) (int (v_width v))"
proof -
  let ?e = "Identifier n h r"
  obtain sid where sid: "signal_map ce (identifier_name n h) = Some sid" "valid_sig m (int sid)"
    "v = sig_value m sid" "sid < length (ce_sig_signed ce)"
    "signal_signed ctx (identifier_name n h) = ce_sig_signed ce ! sid"
    "sid < length (ce_sig_width ce)" "ce_sig_width ce ! sid = v_width v" "wf_val v"
    by (rule same_signalD [OF assms(1,2)])
  have ev: "eval ctx ?e w so = widen v w (opt_or so (ce_sig_signed ce ! sid))" for w so
    using assms(2) sid by (simp add: eval_identifier_def)
  have load: "runs m st (emit LOAD_SIG (int sid) st) s (v # s)" for st s
    using sid by (intro runs_emit) (simp add: value_op_def instr_def)
  have "same_value m (int (v_width v)) (eval ctx ?e) (compile_expr ce ?e) w so"
    if ic: "in_context (int (v_width v)) w so" for w so
  proof -
    let ?b = "opt_or so (ce_sig_signed ce ! sid)"
    have wd: "w = 0 \<or> int (v_width v) \<le> w" using ic by (auto simp: in_context_def)
    have "runs m st (emit_ext_if (w \<noteq> 0 \<and> int (v_width v) < w) ?b w (emit LOAD_SIG (int sid) st)) s
        (widened v w ?b # s)" for st s
      by (rule runs_trans [OF load runs_widened]) (use sid(8) assms(3) wd in auto)
    then have "compiles_to m (compile_identifier ce (identifier_name n h)) w so (widened v w ?b)"
      using sid by (simp add: compiles_to_def compile_identifier_def)
    then show ?thesis
      using ev sid(8) wd assms(3)
      by (auto simp: same_value_def compiles_noting widen_eq width_widened)
  qed
  moreover have "own_context ctx ?e (int (v_width v))"
    unfolding own_context_def ev using sid(5) by simp
  moreover have "same_static ce ctx ?e (int (v_width v))"
    using assms sid by (simp add: same_static_def vm_signal_width_def)
  ultimately show ?thesis by (simp add: engine_ok_def)
qed

lemma wf_from_verilog: "from_verilog t = Inr v \<Longrightarrow> wf_val v"
proof -
  have x: "wf_val u \<Longrightarrow> wf_val (xz_extend u ds k)" for u ds k
    by (simp add: xz_extend_def Let_def)
  have p: "wf_val (parse_binary ds w)" "parse_octal ds w = Inr u \<Longrightarrow> wf_val u"
    "parse_hex ds w = Inr u \<Longrightarrow> wf_val u" for ds w u
    by (auto simp: parse_binary_def parse_octal_def parse_hex_def rmap_eq_Inr_iff split: prod.splits)
  assume "from_verilog t = Inr v"
  then show "wf_val v"
    by (auto simp: from_verilog_def Let_def rmap_eq_Inr_iff rbind_eq_Inr_iff x p
        split: if_splits option.splits prod.splits dest!: p(2,3))
qed

lemma wf_compile_literal: "wf_val (compile_literal l)"
  by (auto simp: compile_literal_def Let_def wf_from_verilog
      split: sum.split lit_value.split)

lemma xz_fill_to_ok:
  assumes "v_width v < w"
  shows "wf_val (xz_fill_to v w)" "v_width (xz_fill_to v w) = w"
  using assms by (simp_all add: xz_fill_to_def Let_def)

lemma engine_ok_literal:
  assumes "agree_literal l"
  shows "engine_ok ce ctx m (Literal l) (int (lit_self_width l))"
proof -
  let ?v = "compile_literal l" and ?n = "int (lit_self_width l)"
  have v: "eval_literal l = Inr ?v" "v_width ?v = lit_self_width l" "wf_val ?v" "0 < v_width ?v"
    using assms by (simp_all add: agree_literal_def wf_compile_literal)
  have ev: "eval ctx (Literal l) w so =
      (if w \<noteq> 0 \<and> ?n < w \<and> is_unsized_xz_literal (original_text l) then Inr (xz_fill_to ?v (nat w))
       else Inr (widened ?v w (opt_or so (lit_signed l))))" for w so
    using v by (simp add: eval_literal_expr_def widen_eq) (simp add: widened_def)
  have "same_value m ?n (eval ctx (Literal l)) (compile_expr ce (Literal l)) w so"
    if ic: "in_context ?n w so" for w so
  proof -
    let ?b = "opt_or so (lit_signed l)"
    have wd: "w = 0 \<or> int (v_width ?v) \<le> w" using ic v by (auto simp: in_context_def)
    show ?thesis
    proof (cases "w \<noteq> 0 \<and> ?n < w \<and> is_unsized_xz_literal (original_text l)")
      case True
      then have u: "wf_val (xz_fill_to ?v (nat w))" "v_width (xz_fill_to ?v (nat w)) = nat w"
        using v(2) by (auto intro!: xz_fill_to_ok)
      have "compiles_to m (compile_literal_expr l) w so (xz_fill_to ?v (nat w))"
        using True u v by (simp add: compiles_to_def compile_literal_expr_def Let_def emit_ext_if_def runs_emit_const)
      moreover have "eval ctx (Literal l) w so = Inr (xz_fill_to ?v (nat w))"
        unfolding ev using True by simp
      ultimately show ?thesis
        using True u by (intro same_valueI [where v = "xz_fill_to ?v (nat w)"]) (auto intro: compiles_noting)
    next
      case False
      have "runs m st (emit_ext_if (w \<noteq> 0 \<and> int (v_width ?v) < w) ?b w (emit_const ?v st)) s
          (widened ?v w ?b # s)" for st s
        by (rule runs_trans [OF runs_emit_const runs_widened]) (use v wd in auto)
      then have "compiles_to m (compile_literal_expr l) w so (widened ?v w ?b)"
        using False v by (auto simp: compiles_to_def compile_literal_expr_def Let_def)
      moreover have "eval ctx (Literal l) w so = Inr (widened ?v w ?b)"
        unfolding ev using False by (simp only: if_False)
      ultimately show ?thesis
        using v wd by (intro same_valueI [where v = "widened ?v w ?b"]) (auto intro: compiles_noting simp: width_widened)
    qed
  qed
  moreover have "own_context ctx (Literal l) ?n"
    unfolding own_context_def ev using v by (simp add: widened_def)
  ultimately show ?thesis by (simp add: engine_ok_def same_static_def)
qed

section \<open>Unary operators\<close>

lemma engine_okD:
  assumes "engine_ok ce ctx m e n" "in_context n w so"
  obtains v where "eval ctx e w so = Inr v" "wf_val v" "int (v_width v) = (if w = 0 then n else w)"
    "0 < v_width v" "compiles_to m (compile_expr ce e) w so v"
proof -
  have "0 < n" using assms(1) by (simp add: engine_ok_def same_static_def)
  moreover have "same_value m n (eval ctx e) (compile_expr ce e) w so"
    using assms by (simp add: engine_ok_def)
  ultimately show ?thesis
    using assms(2) that by (auto simp: same_value_def in_context_def split: if_splits)
qed

lemma engine_ok_static:
  assumes "engine_ok ce ctx m e n"
  shows "0 < n" "expr_self_width ctx e = Inr n" "vm_expr_width ce e = Inr n"
    "vm_expr_signed ce e = expr_signed ctx e" "same_static ce ctx e n"
  using assms by (auto simp: engine_ok_def same_static_def)

lemma engine_ok_own:
  assumes "engine_ok ce ctx m e n"
  shows "eval ctx e 0 None = eval ctx e n None" "eval ctx e w (Some (expr_signed ctx e)) = eval ctx e w None"
  using assms by (auto simp: engine_ok_def own_context_def)

lemma compilesE:
  assumes "compiles_to m c w so v"
  obtains st' where "c w so st = Inr st'" "\<And>s. runs m st st' s (v # s)"
  using assms by (auto simp: compiles_to_def)

lemma unary_opcode_fun:
  assumes "known_unop op"
  obtains opc where "unary_opcode op = Some opc"
    "\<And>v st s. runs m st (emit opc 0 st) (v # s)
       ((case eval_unary_op op v of Inr u \<Rightarrow> u | Inl _ \<Rightarrow> v) # s)"
    "\<And>v. \<exists>u. eval_unary_op op v = Inr u"
    "\<And>v u. eval_unary_op op v = Inr u \<Longrightarrow> wf_val v \<Longrightarrow> wf_val u \<and>
       v_width u = (if is_one_bit_unary op then 1 else v_width v)"
proof -
  obtain opc where o: "unary_opcode op = Some opc"
    using assms by (cases op) (auto simp: known_unop_def unary_opcode_def)
  show ?thesis
  proof (rule that [OF o])
    show "runs m st (emit opc 0 st) (v # s) ((case eval_unary_op op v of Inr u \<Rightarrow> u | Inl _ \<Rightarrow> v) # s)" for v st s
      using assms o
      by (intro runs_emit)
        (cases op; auto simp: known_unop_def unary_opcode_def eval_unary_op_def value_op_def instr_def
          binary_fun_def unary_fun_def)
    show "\<exists>u. eval_unary_op op v = Inr u" for v
      using assms by (cases op) (auto simp: known_unop_def eval_unary_op_def)
    show "wf_val u \<and> v_width u = (if is_one_bit_unary op then 1 else v_width v)"
      if "eval_unary_op op v = Inr u" "wf_val v" for v u
      using that by (cases op) (auto simp: eval_unary_op_def is_one_bit_unary_def)
  qed
qed

lemma runs_ext_id:
  assumes "wf_val v" "0 < v_width v" "w = 0 \<or> int (v_width v) = w"
  shows "runs m st (emit_ext_if (w \<noteq> 0) b w st) (v # s) (v # s)"
  using assms runs_emit_ext_id [of v w m st b s] by (auto simp: emit_ext_if_def)

lemma engine_ok_unary_value:
  assumes ok: "engine_ok ce ctx m a n" and op: "known_unop op" "\<not> is_one_bit_unary op"
  shows "engine_ok ce ctx m (UnaryOp op a) n"
proof -
  let ?e = "UnaryOp op a"
  have ops: "op \<in> {UInv, UPlus, UMinus}"
    using op by (cases op) (auto simp: known_unop_def is_one_bit_unary_def)
  note st = engine_ok_static [OF ok]
  obtain opc where opc: "unary_opcode op = Some opc"
    "\<And>v st s. runs m st (emit opc 0 st) (v # s)
       ((case eval_unary_op op v of Inr u \<Rightarrow> u | Inl _ \<Rightarrow> v) # s)"
    "\<And>v. \<exists>u. eval_unary_op op v = Inr u"
    "\<And>v u. eval_unary_op op v = Inr u \<Longrightarrow> wf_val v \<Longrightarrow> wf_val u \<and>
       v_width u = (if is_one_bit_unary op then 1 else v_width v)"
    by (rule unary_opcode_fun [OF op(1)]) blast
  have ev: "eval ctx ?e w so = rbind (eval ctx a w so) (eval_unary_op op)"
    if "w = 0 \<or> (\<exists>v. eval ctx a w so = Inr v \<and> int (v_width v) = w)" for w so
    using that ops by (auto simp: eval_unary_def rbind_def split: sum.split)
  have "same_value m n (eval ctx ?e) (compile_expr ce ?e) w so" if ic: "in_context n w so" for w so
  proof -
    obtain v where v: "eval ctx a w so = Inr v" "wf_val v" "int (v_width v) = (if w = 0 then n else w)"
      "0 < v_width v" "compiles_to m (compile_expr ce a) w so v"
      by (rule engine_okD [OF ok ic])
    obtain u where u: "eval_unary_op op v = Inr u" using opc(3) by blast
    have "compiles_to m (compile_unary ce op a (compile_expr ce a)) w so u"
      unfolding compiles_to_def
    proof
      fix st0
      obtain st1 where st1: "compile_expr ce a w so st0 = Inr st1" "\<And>s. runs m st0 st1 s (v # s)"
        using compilesE [OF v(5)] by blast
      have target: "(if w \<noteq> 0 then max w n else w) = w" using ic by (auto simp: in_context_def)
      let ?st2 = "emit opc 0 (emit_ext_if (w \<noteq> 0) (opt_or so (expr_signed ctx a)) w st1)"
      have "compile_unary ce op a (compile_expr ce a) w so st0 = Inr ?st2"
        using target st1(1) opc(1) ops st by (auto simp: compile_unary_def)
      moreover have "runs m st0 ?st2 s (u # s)" for s
        using runs_trans [OF st1(2) runs_trans [OF runs_ext_id opc(2)]] v u by auto
      ultimately show "\<exists>st'. compile_unary ce op a (compile_expr ce a) w so st0 = Inr st' \<and>
          (\<forall>s. runs m st0 st' s (u # s))" by blast
    qed
    moreover have "eval ctx ?e w so = Inr u"
      using ev [of w so] v(1,3) u by auto
    ultimately show ?thesis
      using opc(4) [OF u v(2)] op(2) v(3)
      by (intro same_valueI [where v = u]) (auto intro: compiles_noting)
  qed
  moreover have "own_context ctx ?e n"
  proof -
    have own: "eval ctx a w (Some (expr_signed ctx a)) = eval ctx a w None" "eval ctx a 0 None = eval ctx a n None" for w
      using engine_ok_own [OF ok] by auto
    have es: "expr_signed ctx ?e = expr_signed ctx a" using op(2) by simp
    have "eval ctx ?e w (Some (expr_signed ctx ?e)) = eval ctx ?e w None" for w
      unfolding es using ops by (simp add: eval_unary_def own(1) cong: if_cong)
    moreover have "eval ctx ?e 0 None = eval ctx ?e n None"
    proof -
      obtain v where "eval ctx a n None = Inr v" "int (v_width v) = n"
        by (rule engine_okD [OF ok, of n None]) (use st(1) in auto)
      then show ?thesis using ev [of 0 None] ev [of n None] own(2) by auto
    qed
    ultimately show ?thesis by (simp add: own_context_def)
  qed
  ultimately show ?thesis
    using st op(2) by (simp add: engine_ok_def same_static_def)
qed

lemma engine_ok_unary_reduce:
  assumes ok: "engine_ok ce ctx m a n" and op: "known_unop op" "is_one_bit_unary op"
  shows "engine_ok ce ctx m (UnaryOp op a) 1"
proof -
  let ?e = "UnaryOp op a"
  have ops: "op \<notin> {UInv, UPlus, UMinus}"
    using op by (auto simp: is_one_bit_unary_def)
  note st = engine_ok_static [OF ok]
  obtain opc where opc: "unary_opcode op = Some opc"
    "\<And>v st s. runs m st (emit opc 0 st) (v # s)
       ((case eval_unary_op op v of Inr u \<Rightarrow> u | Inl _ \<Rightarrow> v) # s)"
    "\<And>v. \<exists>u. eval_unary_op op v = Inr u"
    "\<And>v u. eval_unary_op op v = Inr u \<Longrightarrow> wf_val v \<Longrightarrow> wf_val u \<and>
       v_width u = (if is_one_bit_unary op then 1 else v_width v)"
    by (rule unary_opcode_fun [OF op(1)]) blast
  obtain v where v: "eval ctx a n None = Inr v" "wf_val v" "compiles_to m (compile_expr ce a) n None v"
    by (rule engine_okD [OF ok, of n None]) auto
  obtain u where u: "eval_unary_op op v = Inr u" using opc(3) by blast
  have uw: "wf_val u" "v_width u = 1" using opc(4) [OF u v(2)] op(2) by auto
  have ev: "eval ctx ?e w so = Inr (widened u w (opt_or so False))" for w so
    using ops st v u uw op(2) by (simp add: eval_unary_def widen_eq)
  have "same_value m 1 (eval ctx ?e) (compile_expr ce ?e) w so" if ic: "in_context 1 w so" for w so
  proof -
    have wd: "w = 0 \<or> int (v_width u) \<le> w" using ic uw by (auto simp: in_context_def)
    have "compiles_to m (compile_unary ce op a (compile_expr ce a)) w so (widened u w (opt_or so False))"
      unfolding compiles_to_def
    proof
      fix st0
      obtain st1 where st1: "compile_expr ce a n None st0 = Inr st1" "\<And>s. runs m st0 st1 s (v # s)"
        using compilesE [OF v(3)] by blast
      let ?st2 = "emit_ext_if (w \<noteq> 0 \<and> w > 1) (opt_or so False) w (emit opc 0 st1)"
      have "(w \<noteq> 0 \<and> 1 < w) = (1 < w)" by auto
      then have "compile_unary ce op a (compile_expr ce a) w so st0 = Inr ?st2"
        using st1(1) opc(1) ops st op(2) by (simp add: compile_unary_def)
      moreover have "runs m st0 ?st2 s (widened u w (opt_or so False) # s)" for s
      proof (rule runs_trans [OF st1(2) runs_trans])
        show "runs m st1 (emit opc 0 st1) (v # s) (u # s)" using opc(2) [of st1 v s] u by simp
        show "runs m (emit opc 0 st1) ?st2 (u # s) (widened u w (opt_or so False) # s)"
          by (rule runs_widened) (use uw wd in auto)
      qed
      ultimately show "\<exists>st'. compile_unary ce op a (compile_expr ce a) w so st0 = Inr st' \<and>
          (\<forall>s. runs m st0 st' s (widened u w (opt_or so False) # s))" by blast
    qed
    then show ?thesis
      using ev [of w so] uw wd
      by (intro same_valueI [where v = "widened u w (opt_or so False)"])
        (auto intro: compiles_noting simp: width_widened)
  qed
  moreover have "own_context ctx ?e 1"
    unfolding own_context_def ev using op(2) uw by (simp add: widened_def)
  ultimately show ?thesis using op(2) by (simp add: engine_ok_def same_static_def)
qed

end
