(* ===== verification/Engine_Binary.thy ===== *)
theory Engine_Binary
  imports Engine_Equiv
begin

text \<open>
  The engines agree on the binary operators that do not short-circuit: comparisons, shifts, the
  power and the arithmetic operators. One lemma, \<open>engine_ok_plain\<close>, reduces each group to what
  the two engines do to its operands.
\<close>

section \<open>The operators\<close>

lemma as_signed_ok [simp]: "v_mask v = 0 \<Longrightarrow> 0 < v_width v \<Longrightarrow> as_signed v = Inr (signed_of v)"
  by (simp add: as_signed_def)

lemma vm_signed_cmp_eq:
  "0 < v_width l \<Longrightarrow> 0 < v_width r \<Longrightarrow> vm_signed_cmp l r CmpLt = eval_signed_cmp Lt l r"
  "0 < v_width l \<Longrightarrow> 0 < v_width r \<Longrightarrow> vm_signed_cmp l r CmpLe = eval_signed_cmp Le l r"
  "0 < v_width l \<Longrightarrow> 0 < v_width r \<Longrightarrow> vm_signed_cmp l r CmpGt = eval_signed_cmp Gt l r"
  "0 < v_width l \<Longrightarrow> 0 < v_width r \<Longrightarrow> vm_signed_cmp l r CmpGe = eval_signed_cmp Ge l r"
  by (simp_all add: vm_signed_cmp_def eval_signed_cmp_def)

lemma vm_spow_eq: "vm_spow = eval_signed_pow"
  by (intro ext) (simp add: vm_spow_def eval_signed_pow_def Let_def)

lemma vm_ashr_eq: "vm_ashr = ashr_val"
  by (intro ext) (simp add: vm_ashr_def ashr_val_def Let_def)

lemma signed_cmp_ok:
  assumes "op \<in> {Lt, Le, Gt, Ge}" "0 < v_width l" "0 < v_width r"
  shows "\<exists>u. eval_signed_cmp op l r = Inr u \<and> wf_val u \<and> v_width u = 1"
  using assms by (auto simp: eval_signed_cmp_def)

lemma signed_pow_ok:
  assumes "0 < v_width l" "0 < v_width r"
  shows "\<exists>u. eval_signed_pow l r = Inr u \<and> wf_val u \<and> v_width u = v_width l"
  using assms by (auto simp: eval_signed_pow_def Let_def split: option.split)

lemma ashr_val_ok [simp]: "wf_val (ashr_val l r)" "v_width (ashr_val l r) = v_width l"
  by (auto simp: ashr_val_def Let_def)

definition binary_result_width :: "binop \<Rightarrow> nat \<Rightarrow> nat \<Rightarrow> nat" where
  "binary_result_width op a b =
     (if is_one_bit_binary op then 1 else if is_shift op \<or> op = Pow then a else max a b)"

lemma eval_binary_op_ok:
  assumes "known_binop op"
  shows "\<exists>u. eval_binary_op op l r = Inr u \<and> wf_val u
     \<and> v_width u = binary_result_width op (v_width l) (v_width r)"
  using assms
  by (cases op) (simp_all add: known_binop_def eval_binary_op_def binary_result_width_def op_class_defs)

lemma binary_opcode_runs:
  assumes "known_binop op"
  obtains opc where "binary_opcode op = Some opc"
    "\<And>l r u st s. eval_binary_op op l r = Inr u \<Longrightarrow> runs m st (emit opc 0 st) (r # l # s) (u # s)"
proof -
  obtain opc where o: "binary_opcode op = Some opc"
    using assms by (cases op) (auto simp: known_binop_def binary_opcode_def)
  have "runs m st (emit opc 0 st) (r # l # s) (u # s)" if "eval_binary_op op l r = Inr u" for l r u st s
    using assms o that
    by (intro runs_emit)
      (cases op; auto simp: known_binop_def binary_opcode_def eval_binary_op_def value_op_def instr_def
        binary_fun_def vm_ashr_eq)
  with o show ?thesis by (rule that)
qed

lemma apply_binary_ok:
  assumes "known_binop op" "\<not> (op \<in> {Div, Mod} \<and> sl \<and> sr)" "0 < v_width l" "0 < v_width r"
  obtains u opc where "apply_binary_op op so sl sr l r = Inr u" "select_binary_opcode op so sl sr = Inr opc"
    "wf_val u" "v_width u = binary_result_width op (v_width l) (v_width r)"
    "\<And>st s. runs m st (emit opc 0 st) (r # l # s) (u # s)"
proof -
  consider (cmp) "op \<in> {Lt, Le, Gt, Ge} \<and> sl \<and> sr" | (pow) "op = Pow \<and> sl \<and> sr"
    | (shr) "op = AShr \<and> \<not> opt_or so sl"
    | (plain) "\<not> (op \<in> {Lt, Le, Gt, Ge} \<and> sl \<and> sr)" "\<not> (op = Pow \<and> sl \<and> sr)" "\<not> (op = AShr \<and> \<not> opt_or so sl)"
    by blast
  then show ?thesis
  proof cases
    case cmp
    then have c: "op \<in> {Lt, Le, Gt, Ge}" by blast
    obtain u where u: "eval_signed_cmp op l r = Inr u" "wf_val u" "v_width u = 1"
      using signed_cmp_ok [OF c assms(3,4)] by blast
    obtain opc where opc: "signed_opcode op = Some opc" using c by (auto simp: signed_opcode_def)
    have "runs m st (emit opc 0 st) (r # l # s) (u # s)" for st s
      using c u(1) opc assms(3,4)
      by (intro runs_emit)
        (elim insertE emptyE; simp add: signed_opcode_def value_op_def instr_def binary_fun_def vm_signed_cmp_eq)
    moreover have "apply_binary_op op so sl sr l r = Inr u" "select_binary_opcode op so sl sr = Inr opc"
      using cmp u(1) opc by (simp_all add: apply_binary_op_def select_binary_opcode_def from_opt_def)
    moreover have "v_width u = binary_result_width op (v_width l) (v_width r)"
      using c u(3) by (auto simp: binary_result_width_def is_one_bit_binary_def)
    ultimately show ?thesis using u(2) that by blast
  next
    case pow
    obtain u where u: "eval_signed_pow l r = Inr u" "wf_val u" "v_width u = v_width l"
      using signed_pow_ok [OF assms(3,4)] by blast
    have "runs m st (emit SPOW 0 st) (r # l # s) (u # s)" for st s
      using u by (intro runs_emit) (simp add: value_op_def instr_def binary_fun_def vm_spow_eq)
    moreover have "apply_binary_op op so sl sr l r = Inr u" "select_binary_opcode op so sl sr = Inr SPOW"
      using pow u(1)
      by (simp_all add: apply_binary_op_def select_binary_opcode_def from_opt_def signed_opcode_def)
    moreover have "v_width u = binary_result_width op (v_width l) (v_width r)"
      using pow u(3) by (simp add: binary_result_width_def is_one_bit_binary_def)
    ultimately show ?thesis using u(2) that by blast
  next
    case shr
    have "runs m st (emit SHR 0 st) (r # l # s) (v_rshift l r # s)" for st s
      by (intro runs_emit) (simp add: value_op_def instr_def binary_fun_def)
    moreover have "apply_binary_op op so sl sr l r = Inr (v_rshift l r)"
      "select_binary_opcode op so sl sr = Inr SHR"
      using shr by (simp_all add: apply_binary_op_def select_binary_opcode_def eval_binary_op_def)
    moreover have "v_width (v_rshift l r) = binary_result_width op (v_width l) (v_width r)"
      using shr by (simp add: binary_result_width_def is_one_bit_binary_def is_shift_def)
    moreover have "wf_val (v_rshift l r)" by simp
    ultimately show ?thesis using that by blast
  next
    case plain
    obtain u where u: "eval_binary_op op l r = Inr u" "wf_val u"
      "v_width u = binary_result_width op (v_width l) (v_width r)"
      using eval_binary_op_ok [OF assms(1)] by blast
    obtain opc where opc: "binary_opcode op = Some opc"
      "\<And>l r u st s. eval_binary_op op l r = Inr u \<Longrightarrow> runs m st (emit opc 0 st) (r # l # s) (u # s)"
      by (rule binary_opcode_runs [OF assms(1), where m = m]) blast
    have "apply_binary_op op so sl sr l r = Inr u"
      unfolding apply_binary_op_def using plain assms(2) u(1) by auto
    moreover have "select_binary_opcode op so sl sr = Inr opc"
      unfolding select_binary_opcode_def using plain assms(2) opc(1) by (auto simp: from_opt_def)
    ultimately show ?thesis using u(2,3) opc(2) [OF u(1)] by (rule that)
  qed
qed

definition plain_binop :: "binop \<Rightarrow> bool" where
  "plain_binop op \<longleftrightarrow> known_binop op \<and> \<not> is_bitwise op \<and> \<not> is_logical op"

text \<open>Both engines leave the operands on the same footing: values and a result width.\<close>

definition same_operands ::
    "comp_env \<Rightarrow> eval_ctx \<Rightarrow> machine \<Rightarrow> binop \<Rightarrow> expr \<Rightarrow> expr \<Rightarrow> int \<Rightarrow> int \<Rightarrow> bool option \<Rightarrow> bool" where
  "same_operands ce ctx m op a b n w so \<longleftrightarrow> (\<exists>l r rw.
     eval_operands ctx op a b (eval ctx a) (eval ctx b) w so = Inr (l, r) \<and>
     0 < v_width l \<and> 0 < v_width r \<and>
     (let k = int (binary_result_width op (v_width l) (v_width r))
      in (w = 0 \<longrightarrow> k = n) \<and> (w \<noteq> 0 \<longrightarrow> k \<le> w) \<and> (k < w \<longrightarrow> rw \<noteq> w)) \<and>
     (\<forall>st. \<exists>st1. compile_operands ce op a b (compile_expr ce a) (compile_expr ce b) w so st = Inr (rw, st1)
        \<and> (\<forall>s. runs m st st1 s (r # l # s))))"

lemma own_sign_binary:
  assumes "plain_binop op"
  shows "eval ctx (BinaryOp op a b) w (Some (expr_signed ctx (BinaryOp op a b))) = eval ctx (BinaryOp op a b) w None"
proof -
  have o: "eval_operands ctx op a b ea eb w (Some (expr_signed ctx (BinaryOp op a b)))
      = eval_operands ctx op a b ea eb w None" for ea eb
    using assms
    by (auto simp: eval_operands_def plain_binop_def eval_shift_operands_def eval_pow_operands_def
        eval_arith_operands_def one_bit_binary_iff is_shift_def Let_def)
  have p: "apply_binary_op op (Some (expr_signed ctx (BinaryOp op a b))) (expr_signed ctx a) (expr_signed ctx b)
      = apply_binary_op op None (expr_signed ctx a) (expr_signed ctx b)"
    by (intro ext) (auto simp: apply_binary_op_def is_shift_def)
  show ?thesis
    using assms unfolding eval.simps eval_binary_def Let_def o p opt_or_simps plain_binop_def by simp
qed

lemma engine_ok_plain:
  assumes op: "plain_binop op" "\<not> (op \<in> {Div, Mod} \<and> expr_signed ctx a \<and> expr_signed ctx b)"
    and st: "same_static ce ctx (BinaryOp op a b) n" "vm_expr_signed ce a = expr_signed ctx a"
      "vm_expr_signed ce b = expr_signed ctx b"
    and ops: "\<And>w so. in_context n w so \<Longrightarrow> same_operands ce ctx m op a b n w so"
    and own: "eval_operands ctx op a b (eval ctx a) (eval ctx b) 0 None
      = eval_operands ctx op a b (eval ctx a) (eval ctx b) n None"
  shows "engine_ok ce ctx m (BinaryOp op a b) n"
proof -
  let ?e = "BinaryOp op a b" and ?sl = "expr_signed ctx a" and ?sr = "expr_signed ctx b"
  have pb: "\<not> is_bitwise op" "\<not> is_logical op" "known_binop op"
    using op(1) by (auto simp: plain_binop_def)
  have npos: "0 < n" using st(1) by (simp add: same_static_def)
  have key: "\<exists>u rest. eval ctx ?e w so = Inr (widened u w (opt_or so (expr_signed ctx ?e)))
      \<and> wf_val u \<and> 0 < v_width u \<and> (w = 0 \<longrightarrow> int (v_width u) = n) \<and> (w \<noteq> 0 \<longrightarrow> int (v_width u) \<le> w)
      \<and> (\<exists>l r. eval_operands ctx op a b (eval ctx a) (eval ctx b) w so = Inr (l, r)
          \<and> apply_binary_op op so ?sl ?sr l r = Inr u)
      \<and> compiles_to m (compile_binary ce op a b (compile_expr ce a) (compile_expr ce b)) w so
          (widened u w (opt_or so (expr_signed ctx ?e)))"
    if ic: "in_context n w so" for w so
  proof -
    let ?b = "opt_or so (expr_signed ctx ?e)"
    obtain l r rw where lr: "eval_operands ctx op a b (eval ctx a) (eval ctx b) w so = Inr (l, r)"
      "0 < v_width l" "0 < v_width r"
      "w = 0 \<longrightarrow> int (binary_result_width op (v_width l) (v_width r)) = n"
      "w \<noteq> 0 \<longrightarrow> int (binary_result_width op (v_width l) (v_width r)) \<le> w"
      "int (binary_result_width op (v_width l) (v_width r)) < w \<longrightarrow> rw \<noteq> w"
      and c: "\<And>st. \<exists>st1. compile_operands ce op a b (compile_expr ce a) (compile_expr ce b) w so st = Inr (rw, st1)
        \<and> (\<forall>s. runs m st st1 s (r # l # s))"
      using ops [OF ic] unfolding same_operands_def Let_def by blast
    obtain u opc where u: "apply_binary_op op so ?sl ?sr l r = Inr u" "select_binary_opcode op so ?sl ?sr = Inr opc"
      "wf_val u" "v_width u = binary_result_width op (v_width l) (v_width r)"
      "\<And>st s. runs m st (emit opc 0 st) (r # l # s) (u # s)"
      by (rule apply_binary_ok [OF pb(3) op(2) lr(2,3), where m = m and so = so]) blast
    have uw: "0 < v_width u" "w = 0 \<or> int (v_width u) \<le> w"
      using u(4) lr(2-5) npos by (auto simp: binary_result_width_def)
    have ev: "eval ctx ?e w so = Inr (widened u w ?b)"
      unfolding eval.simps eval_binary_def Let_def lr(1) using pb(1) u(1) uw
      by (simp add: adjust_if_eq)
    have "compiles_to m (compile_binary ce op a b (compile_expr ce a) (compile_expr ce b)) w so (widened u w ?b)"
      unfolding compiles_to_def
    proof
      fix st0
      obtain st1 where st1: "compile_operands ce op a b (compile_expr ce a) (compile_expr ce b) w so st0 = Inr (rw, st1)"
        "\<And>s. runs m st0 st1 s (r # l # s)"
        using c by blast
      let ?st2 = "emit_ext_if (w \<noteq> 0 \<and> rw \<noteq> w) ?b w (emit opc 0 st1)"
      have sg: "vm_expr_signed ce ?e = expr_signed ctx ?e" using st(1) by (simp add: same_static_def)
      have "compile_binary ce op a b (compile_expr ce a) (compile_expr ce b) w so st0 = Inr ?st2"
        unfolding compile_binary_def Let_def st1(1) st(2,3) sg using pb u(2) by simp
      moreover have "runs m st0 ?st2 s (widened u w ?b # s)" for s
        by (rule runs_trans [OF st1(2) runs_trans [OF u(5) runs_widened]]) (use u uw lr(6) in auto)
      ultimately show "\<exists>st'. compile_binary ce op a b (compile_expr ce a) (compile_expr ce b) w so st0 = Inr st' \<and>
          (\<forall>s. runs m st0 st' s (widened u w ?b # s))" by blast
    qed
    then show ?thesis using ev u(1,3,4) uw lr(1,4,5) by auto
  qed
  have "same_value m n (eval ctx ?e) (compile_expr ce ?e) w so" if "in_context n w so" for w so
    using key [OF that]
    by (auto intro!: same_valueI [where v = "widened u w (opt_or so (expr_signed ctx ?e))" for u]
        compiles_noting simp: width_widened simp del: eval.simps(3))
  moreover have "eval ctx ?e 0 None = eval ctx ?e n None"
  proof -
    obtain u l r where 1: "eval ctx ?e 0 None = Inr (widened u 0 (opt_or None (expr_signed ctx ?e)))"
      "eval_operands ctx op a b (eval ctx a) (eval ctx b) 0 None = Inr (l, r)"
      "apply_binary_op op None ?sl ?sr l r = Inr u" "int (v_width u) = n"
      using key [of 0 None] by auto
    obtain u' l' r' where 2: "eval ctx ?e n None = Inr (widened u' n (opt_or None (expr_signed ctx ?e)))"
      "eval_operands ctx op a b (eval ctx a) (eval ctx b) n None = Inr (l', r')"
      "apply_binary_op op None ?sl ?sr l' r' = Inr u'"
      using key [of n None] by auto
    have "u' = u" using 1(2,3) 2(2,3) own by simp
    then show ?thesis using 1 2 by (simp add: widened_def)
  qed
  ultimately show ?thesis
    using st(1) own_sign_binary [OF op(1)] by (simp add: engine_ok_def own_context_def)
qed

lemma same_operandsI:
  assumes "eval_operands ctx op a b (eval ctx a) (eval ctx b) w so = Inr (l, r)" "0 < v_width l" "0 < v_width r"
    "k = int (binary_result_width op (v_width l) (v_width r))"
    "w = 0 \<longrightarrow> k = n" "w \<noteq> 0 \<longrightarrow> k \<le> w" "k < w \<longrightarrow> rw \<noteq> w"
    "\<And>st. \<exists>st1. compile_operands ce op a b (compile_expr ce a) (compile_expr ce b) w so st = Inr (rw, st1)
        \<and> (\<forall>s. runs m st st1 s (r # l # s))"
  shows "same_operands ce ctx m op a b n w so"
  unfolding same_operands_def Let_def using assms by blast

text \<open>The left operand's code, then (an extension that changes nothing and) the right operand's code.\<close>

lemma two_operands:
  assumes "compiles_to m cl wl sl l" "compiles_to m cr wr sr r"
  obtains st1 st2 where "cl wl sl st = Inr st1" "cr wr sr st1 = Inr st2" "\<And>s. runs m st st2 s (r # l # s)"
proof -
  obtain st1 where 1: "cl wl sl st = Inr st1" "\<And>s. runs m st st1 s (l # s)"
    using compilesE [OF assms(1)] by blast
  obtain st2 where 2: "cr wr sr st1 = Inr st2" "\<And>s. runs m st1 st2 s (r # s)"
    using compilesE [OF assms(2)] by blast
  show ?thesis using that [OF 1(1) 2(1)] runs_trans [OF 1(2) 2(2)] by blast
qed

lemma two_operands_ext:
  assumes "compiles_to m cl wl sl l" "compiles_to m cr wr sr r"
    "wf_val l" "0 < v_width l" "x = 0 \<or> int (v_width l) = x"
  obtains st1 st2 where "cl wl sl st = Inr st1" "cr wr sr (emit_ext_if (x \<noteq> 0) e x st1) = Inr st2"
    "\<And>s. runs m st st2 s (r # l # s)"
proof -
  obtain st1 where 1: "cl wl sl st = Inr st1" "\<And>s. runs m st st1 s (l # s)"
    using compilesE [OF assms(1)] by blast
  let ?st = "emit_ext_if (x \<noteq> 0) e x st1"
  obtain st2 where 2: "cr wr sr ?st = Inr st2" "\<And>s. runs m ?st st2 s (r # s)"
    using compilesE [OF assms(2)] by blast
  have "runs m st st2 s (r # l # s)" for s
    using runs_trans [OF 1(2) runs_trans [OF runs_ext_id 2(2)]] assms(3-5) by blast
  then show ?thesis using that [OF 1(1) 2(1)] by blast
qed

lemma engine_ok_compare:
  assumes ok: "engine_ok ce ctx m a na" "engine_ok ce ctx m b nb" and op: "is_compare op"
  shows "engine_ok ce ctx m (BinaryOp op a b) 1"
proof -
  note sa = engine_ok_static [OF ok(1)] and sb = engine_ok_static [OF ok(2)]
  have ops: "plain_binop op" "is_one_bit_binary op" "op \<noteq> Pow" "\<not> is_logical op" "\<not> is_shift op" "op \<notin> {Div, Mod}"
    using op by (auto simp: op_class_defs plain_binop_def known_binop_def)
  let ?t = "max na nb" and ?s = "expr_signed ctx a \<and> expr_signed ctx b"
  have t: "?t \<noteq> 0" "na \<le> ?t" "nb \<le> ?t" using sa(1) by auto
  obtain l where l: "eval ctx a ?t (Some ?s) = Inr l" "wf_val l" "int (v_width l) = ?t" "0 < v_width l"
      "compiles_to m (compile_expr ce a) ?t (Some ?s) l"
    by (rule engine_okD [OF ok(1), of ?t "Some ?s"]) (use t in auto)
  obtain r where r: "eval ctx b ?t (Some ?s) = Inr r" "wf_val r" "int (v_width r) = ?t" "0 < v_width r"
      "compiles_to m (compile_expr ce b) ?t (Some ?s) r"
    by (rule engine_okD [OF ok(2), of ?t "Some ?s"]) (use t in auto)
  have ev: "eval_operands ctx op a b (eval ctx a) (eval ctx b) w so = Inr (l, r)" for w so
    using op ops(4) l r sa sb by (simp add: eval_operands_def eval_compare_operands_def max_res_def)
  have comp: "\<exists>st1. compile_operands ce op a b (compile_expr ce a) (compile_expr ce b) w so st = Inr (1, st1)
        \<and> (\<forall>s. runs m st st1 s (r # l # s))" for w so st
  proof -
    obtain st1 st2 where "compile_expr ce a ?t (Some ?s) st = Inr st1" "compile_expr ce b ?t (Some ?s) st1 = Inr st2"
      "\<And>s. runs m st st2 s (r # l # s)"
      by (rule two_operands [OF l(5) r(5), where st = st]) blast
    then show ?thesis
      using op sa sb by (simp add: compile_operands_def compile_compare_operands_def max_res_def)
  qed
  show ?thesis
  proof (rule engine_ok_plain)
    show "same_operands ce ctx m op a b 1 w so" if "in_context 1 w so" for w so
      by (rule same_operandsI [OF ev l(4) r(4) refl _ _ _ comp])
        (use that ops(2) in \<open>auto simp: binary_result_width_def in_context_def\<close>)
  qed (use ops sa sb ev in \<open>auto simp: same_static_def\<close>)
qed

lemma own_sign_left:
  assumes "engine_ok ce ctx m a n" "in_context n w so"
  shows "eval ctx a (if w \<noteq> 0 then max w n else n) (Some (opt_or so (expr_signed ctx a))) = eval ctx a w so"
proof (cases so)
  case None
  have "eval ctx a (if w \<noteq> 0 then max w n else n) None = eval ctx a w None"
    using engine_ok_own(1) [OF assms(1)] assms(2) by (auto simp: in_context_def max_def)
  then show ?thesis using engine_ok_own(2) [OF assms(1)] None by simp
next
  case (Some x)
  then have "n \<le> w" "0 < n" using assms engine_ok_static(1) [OF assms(1)] by (auto simp: in_context_def)
  then show ?thesis using Some by (simp add: max_def)
qed

lemma engine_ok_shift:
  assumes ok: "engine_ok ce ctx m a na" "engine_ok ce ctx m b nb" and op: "is_shift op"
  shows "engine_ok ce ctx m (BinaryOp op a b) na"
proof -
  note sa = engine_ok_static [OF ok(1)] and sb = engine_ok_static [OF ok(2)]
  have ops: "plain_binop op" "\<not> is_one_bit_binary op" "op \<noteq> Pow" "\<not> is_logical op" "\<not> is_compare op" "op \<notin> {Div, Mod}"
    using op by (auto simp: op_class_defs plain_binop_def known_binop_def)
  obtain r where r: "eval ctx b 0 None = Inr r" "0 < v_width r" "compiles_to m (compile_expr ce b) 0 None r"
    by (rule engine_okD [OF ok(2), of 0 None]) auto
  have ops_ok: "\<exists>l. eval_operands ctx op a b (eval ctx a) (eval ctx b) w so = Inr (l, r)
      \<and> eval ctx a w so = Inr l \<and> same_operands ce ctx m op a b na w so" if ic: "in_context na w so" for w so
  proof -
    let ?t = "if w \<noteq> 0 then max w na else na"
    obtain l where l: "eval ctx a w so = Inr l" "wf_val l" "int (v_width l) = (if w = 0 then na else w)"
      "0 < v_width l" "compiles_to m (compile_expr ce a) w so l"
      by (rule engine_okD [OF ok(1) ic])
    have t: "?t = (if w = 0 then na else w)" using ic by (auto simp: in_context_def)
    have ev: "eval_operands ctx op a b (eval ctx a) (eval ctx b) w so = Inr (l, r)"
      using op ops(4,5) l(1,3) r(1) sa own_sign_left [OF ok(1) ic] t
      by (simp add: eval_operands_def eval_shift_operands_def Let_def)
    have comp: "\<exists>st1. compile_operands ce op a b (compile_expr ce a) (compile_expr ce b) w so st
        = Inr (if w \<noteq> 0 then ?t else 0, st1) \<and> (\<forall>s. runs m st st1 s (r # l # s))" for st
    proof -
      have x: "w = 0 \<or> int (v_width l) = w" using l(3) by auto
      obtain st1 st2 where "compile_expr ce a w so st = Inr st1"
        "compile_expr ce b 0 None (emit_ext_if (w \<noteq> 0) (opt_or so (expr_signed ctx a)) w st1) = Inr st2"
        "\<And>s. runs m st st2 s (r # l # s)"
        by (rule two_operands_ext [OF l(5) r(3) l(2,4) x, where st = st and e = "opt_or so (expr_signed ctx a)"]) blast
      then show ?thesis
        using op ops(5) sa t by (auto simp: compile_operands_def compile_shift_operands_def)
    qed
    have "same_operands ce ctx m op a b na w so"
      by (rule same_operandsI [OF ev l(4) r(2) refl _ _ _ comp])
        (use t l(3) op ops(2) in \<open>auto simp: binary_result_width_def\<close>)
    then show ?thesis using ev l(1) by blast
  qed
  show ?thesis
  proof (rule engine_ok_plain)
    show "same_operands ce ctx m op a b na w so" if "in_context na w so" for w so
      using ops_ok [OF that] by blast
    show "eval_operands ctx op a b (eval ctx a) (eval ctx b) 0 None = eval_operands ctx op a b (eval ctx a) (eval ctx b) na None"
      using ops_ok [of 0 None] ops_ok [of na None] engine_ok_own(1) [OF ok(1)] by auto
  qed (use op ops sa sb in \<open>auto simp: same_static_def\<close>)
qed

lemma engine_ok_pow:
  assumes ok: "engine_ok ce ctx m a na" "engine_ok ce ctx m b nb"
  shows "engine_ok ce ctx m (BinaryOp Pow a b) na"
proof -
  note sa = engine_ok_static [OF ok(1)] and sb = engine_ok_static [OF ok(2)]
  have ops: "plain_binop Pow" "\<not> is_one_bit_binary Pow" "\<not> is_logical Pow" "\<not> is_compare Pow" "\<not> is_shift Pow"
    by (auto simp: op_class_defs plain_binop_def known_binop_def)
  obtain r where r: "eval ctx b nb None = Inr r" "0 < v_width r" "compiles_to m (compile_expr ce b) nb None r"
    by (rule engine_okD [OF ok(2), of nb None]) auto
  have ops_ok: "\<exists>l. eval_operands ctx Pow a b (eval ctx a) (eval ctx b) w so = Inr (l, r)
      \<and> eval ctx a w so = Inr l \<and> same_operands ce ctx m Pow a b na w so" if ic: "in_context na w so" for w so
  proof -
    let ?t = "if w \<noteq> 0 then max w na else na"
    obtain l where l: "eval ctx a w so = Inr l" "wf_val l" "int (v_width l) = (if w = 0 then na else w)"
      "0 < v_width l" "compiles_to m (compile_expr ce a) w so l"
      by (rule engine_okD [OF ok(1) ic])
    have t: "?t = (if w = 0 then na else w)" "w \<noteq> 0 \<longrightarrow> max w na = w" using ic by (auto simp: in_context_def)
    have ev: "eval_operands ctx Pow a b (eval ctx a) (eval ctx b) w so = Inr (l, r)"
      using ops l(1,3) r(1) sa sb own_sign_left [OF ok(1) ic] t
      by (simp add: eval_operands_def eval_pow_operands_def Let_def)
    have comp: "\<exists>st1. compile_operands ce Pow a b (compile_expr ce a) (compile_expr ce b) w so st
        = Inr (w, st1) \<and> (\<forall>s. runs m st st1 s (r # l # s))" for st
    proof -
      have x: "w = 0 \<or> int (v_width l) = w" using l(3) by auto
      obtain st1 st2 where "compile_expr ce a w so st = Inr st1"
        "compile_expr ce b nb None (emit_ext_if (w \<noteq> 0) (opt_or so (expr_signed ctx a)) w st1) = Inr st2"
        "\<And>s. runs m st st2 s (r # l # s)"
        by (rule two_operands_ext [OF l(5) r(3) l(2,4) x, where st = st and e = "opt_or so (expr_signed ctx a)"]) blast
      then show ?thesis
        using ops sa sb t(2) by (cases "w = 0") (simp_all add: compile_operands_def compile_pow_operands_def emit_ext_if_def)
    qed
    have "same_operands ce ctx m Pow a b na w so"
      by (rule same_operandsI [OF ev l(4) r(2) refl _ _ _ comp])
        (use l(3) ops(2) in \<open>auto simp: binary_result_width_def\<close>)
    then show ?thesis using ev l(1) by blast
  qed
  show ?thesis
  proof (rule engine_ok_plain)
    show "same_operands ce ctx m Pow a b na w so" if "in_context na w so" for w so
      using ops_ok [OF that] by blast
    show "eval_operands ctx Pow a b (eval ctx a) (eval ctx b) 0 None = eval_operands ctx Pow a b (eval ctx a) (eval ctx b) na None"
      using ops_ok [of 0 None] ops_ok [of na None] engine_ok_own(1) [OF ok(1)] by auto
  qed (use ops sa sb in \<open>auto simp: same_static_def\<close>)
qed

lemma engine_ok_arith:
  assumes ok: "engine_ok ce ctx m a na" "engine_ok ce ctx m b nb"
    and op: "op \<in> {Add, Sub, Mul, Div, Mod}" "\<not> (op \<in> {Div, Mod} \<and> expr_signed ctx a \<and> expr_signed ctx b)"
  shows "engine_ok ce ctx m (BinaryOp op a b) (max na nb)"
proof -
  note sa = engine_ok_static [OF ok(1)] and sb = engine_ok_static [OF ok(2)]
  have ops: "plain_binop op" "\<not> is_one_bit_binary op" "\<not> is_logical op" "\<not> is_compare op" "\<not> is_shift op" "op \<noteq> Pow"
    using op(1) by (auto simp: op_class_defs plain_binop_def known_binop_def)
  let ?n = "max na nb"
  have ops_ok: "\<exists>l r. eval_operands ctx op a b (eval ctx a) (eval ctx b) w so = Inr (l, r)
      \<and> eval ctx a (max w ?n) (Some (opt_or so (expr_signed ctx a \<and> expr_signed ctx b))) = Inr l
      \<and> eval ctx b (max w ?n) (Some (opt_or so (expr_signed ctx a \<and> expr_signed ctx b))) = Inr r
      \<and> same_operands ce ctx m op a b ?n w so" if ic: "in_context ?n w so" for w so
  proof -
    let ?t = "max w ?n" and ?s = "Some (opt_or so (expr_signed ctx a \<and> expr_signed ctx b))"
    have t: "?t \<noteq> 0" "na \<le> ?t" "nb \<le> ?t" using sa(1) by auto
    obtain l where l: "eval ctx a ?t ?s = Inr l" "wf_val l" "int (v_width l) = ?t" "0 < v_width l"
        "compiles_to m (compile_expr ce a) ?t ?s l"
      by (rule engine_okD [OF ok(1), of ?t ?s]) (use t in auto)
    obtain r where r: "eval ctx b ?t ?s = Inr r" "wf_val r" "int (v_width r) = ?t" "0 < v_width r"
        "compiles_to m (compile_expr ce b) ?t ?s r"
      by (rule engine_okD [OF ok(2), of ?t ?s]) (use t in auto)
    have ev: "eval_operands ctx op a b (eval ctx a) (eval ctx b) w so = Inr (l, r)"
      using ops l(1,3) r(1,3) sa sb
      by (simp add: eval_operands_def eval_arith_operands_def Let_def max_res_def)
    have comp: "\<exists>st1. compile_operands ce op a b (compile_expr ce a) (compile_expr ce b) w so st
        = Inr (?t, st1) \<and> (\<forall>s. runs m st st1 s (r # l # s))" for st
    proof -
      obtain st1 st2 where "compile_expr ce a ?t ?s st = Inr st1" "compile_expr ce b ?t ?s st1 = Inr st2"
        "\<And>s. runs m st st2 s (r # l # s)"
        by (rule two_operands [OF l(5) r(5), where st = st]) blast
      then show ?thesis
        using ops sa sb by (simp add: compile_operands_def compile_arith_operands_def Let_def max_res_def)
    qed
    have "same_operands ce ctx m op a b ?n w so"
      by (rule same_operandsI [OF ev l(4) r(4) refl _ _ _ comp])
        (use l(3) r(3) ic sa(1) ops in \<open>auto simp: binary_result_width_def in_context_def\<close>)
    then show ?thesis using ev l(1) r(1) by blast
  qed
  show ?thesis
  proof (rule engine_ok_plain)
    show "same_operands ce ctx m op a b ?n w so" if "in_context ?n w so" for w so
      using ops_ok [OF that] by blast
    show "eval_operands ctx op a b (eval ctx a) (eval ctx b) 0 None = eval_operands ctx op a b (eval ctx a) (eval ctx b) ?n None"
      using ops_ok [of 0 None] ops_ok [of ?n None] sa(1) by (auto simp: max_absorb2)
  qed (use op ops sa sb in \<open>auto simp: same_static_def max_res_def\<close>)
qed

section \<open>Bitwise operators\<close>

lemma engine_ok_wide:
  assumes "engine_ok ce ctx m e n" "n \<le> t"
  obtains v where "eval ctx e t so = Inr v" "wf_val v" "int (v_width v) = t"
    "0 < v_width v" "compiles_to m (compile_expr ce e) t so v"
proof -
  have "t \<noteq> 0" using engine_ok_static(1) [OF assms(1)] assms(2) by simp
  then show ?thesis using engine_okD [OF assms(1), of t so] assms(2) that by auto
qed

lemma engine_ok_bitwise:
  assumes ok: "engine_ok ce ctx m a na" "engine_ok ce ctx m b nb" and op: "is_bitwise op"
  shows "engine_ok ce ctx m (BinaryOp op a b) (max na nb)"
proof -
  let ?e = "BinaryOp op a b" and ?n = "max na nb"
  note sa = engine_ok_static [OF ok(1)] and sb = engine_ok_static [OF ok(2)]
  have ops: "known_binop op" "\<not> is_one_bit_binary op" "\<not> is_shift op" "op \<noteq> Pow"
    using op by (auto simp: op_class_defs known_binop_def)
  obtain opc where opc: "binary_opcode op = Some opc"
    "\<And>l r u st s. eval_binary_op op l r = Inr u \<Longrightarrow> runs m st (emit opc 0 st) (r # l # s) (u # s)"
    by (rule binary_opcode_runs [OF ops(1), where m = m]) blast
  have ev: "eval ctx ?e w so = eval_bitwise op w so (Inr na) (Inr nb) (expr_signed ctx a \<and> expr_signed ctx b)
      (eval ctx a) (eval ctx b)" for w so
    using op sa sb by (simp add: eval_binary_def Let_def)
  have key: "\<exists>l r u. eval ctx a (max ?n w) (Some s) = Inr l \<and> eval ctx b (max ?n w) (Some s) = Inr r
      \<and> eval_binary_op op l r = Inr u \<and> wf_val u \<and> int (v_width u) = max ?n w
      \<and> eval ctx ?e w so = Inr u
      \<and> compiles_to m (compile_binary ce op a b (compile_expr ce a) (compile_expr ce b)) w so u"
    if ic: "in_context ?n w so" and s: "s = opt_or so (expr_signed ctx a \<and> expr_signed ctx b)" for w so s
  proof -
    let ?t = "max ?n w"
    have t: "?t \<noteq> 0" "na \<le> ?t" "nb \<le> ?t" using sa(1) by auto
    have wt: "w \<noteq> 0 \<longrightarrow> max (max na nb) w = w" "0 \<le> ?t" using sa(1) ic by (auto simp: in_context_def)
    obtain l where l: "eval ctx a ?t (Some s) = Inr l" "wf_val l" "int (v_width l) = ?t" "0 < v_width l"
        "compiles_to m (compile_expr ce a) ?t (Some s) l"
      by (rule engine_ok_wide [OF ok(1) t(2)])
    obtain r where r: "eval ctx b ?t (Some s) = Inr r" "wf_val r" "int (v_width r) = ?t" "0 < v_width r"
        "compiles_to m (compile_expr ce b) ?t (Some s) r"
      by (rule engine_ok_wide [OF ok(2) t(3)])
    obtain u where u: "eval_binary_op op l r = Inr u" "wf_val u"
      "v_width u = binary_result_width op (v_width l) (v_width r)"
      using eval_binary_op_ok [OF ops(1)] by blast
    have uw: "int (v_width u) = ?t"
      using u(3) l(3) r(3) ops by (simp add: binary_result_width_def)
    have "eval ctx ?e w so = Inr u"
      unfolding ev eval_bitwise_def using l(1,3) r(1,3) u(1) uw wt s by (cases "w = 0") (simp_all add: Let_def max_res_def)
    moreover have "compiles_to m (compile_binary ce op a b (compile_expr ce a) (compile_expr ce b)) w so u"
      unfolding compiles_to_def
    proof
      fix st
      obtain st1 where 1: "compile_expr ce a ?t (Some s) st = Inr st1" "\<And>z. runs m st st1 z (l # z)"
        using compilesE [OF l(5)] by blast
      let ?st1 = "emit_ext s ?t st1"
      obtain st2 where 2: "compile_expr ce b ?t (Some s) ?st1 = Inr st2" "\<And>z. runs m ?st1 st2 z (r # z)"
        using compilesE [OF r(5)] by blast
      let ?st3 = "emit opc 0 (emit_ext s ?t st2)"
      have "runs m st ?st3 z (u # z)" for z
      proof -
        have "runs m st st1 z (l # z)" by (rule 1(2))
        also have "runs m st1 ?st1 (l # z) (l # z)" by (rule runs_emit_ext_id) (use l in auto)
        also have "runs m ?st1 st2 (l # z) (r # l # z)" by (rule 2(2))
        also have "runs m st2 (emit_ext s ?t st2) (r # l # z) (r # l # z)"
          by (rule runs_emit_ext_id) (use r in auto)
        also have "runs m (emit_ext s ?t st2) ?st3 (r # l # z) (u # z)" by (rule opc(2) [OF u(1)])
        finally show ?thesis .
      qed
      moreover have "compile_binary ce op a b (compile_expr ce a) (compile_expr ce b) w so st = Inr ?st3"
        using op sa sb 1(1) 2(1) opc(1) s wt
        by (cases "w = 0") (simp_all add: compile_binary_def compile_bitwise_def Let_def max_res_def emit_ext_if_def)
      ultimately show "\<exists>st'. compile_binary ce op a b (compile_expr ce a) (compile_expr ce b) w so st = Inr st' \<and>
          (\<forall>z. runs m st st' z (u # z))" by blast
    qed
    ultimately show ?thesis using l(1) r(1) u(1,2) uw by blast
  qed
  have "same_value m ?n (eval ctx ?e) (compile_expr ce ?e) w so" if ic: "in_context ?n w so" for w so
  proof -
    obtain u where u: "wf_val u" "int (v_width u) = max ?n w" "eval ctx ?e w so = Inr u"
      "compiles_to m (compile_binary ce op a b (compile_expr ce a) (compile_expr ce b)) w so u"
      using key [OF ic refl] by blast
    show ?thesis
      by (rule same_valueI [where v = u]) (use u ic sa(1) in \<open>auto intro!: compiles_noting simp: in_context_def\<close>)
  qed
  moreover have "own_context ctx ?e ?n"
  proof -
    have "eval ctx ?e 0 None = eval ctx ?e ?n None"
      using key [of 0 None, OF _ refl] key [of ?n None, OF _ refl] sa(1) by (auto simp: max_absorb1)
    moreover have "eval ctx ?e w (Some (expr_signed ctx ?e)) = eval ctx ?e w None" for w
      unfolding ev using ops(2-) by (simp add: eval_bitwise_def Let_def cong: if_cong)
    ultimately show ?thesis by (simp add: own_context_def)
  qed
  ultimately show ?thesis
    using sa sb ops by (simp add: engine_ok_def same_static_def max_res_def)
qed

end
