(* ===== verification/Engine_Control.thy ===== *)
theory Engine_Control
  imports Engine_Binary
begin

text \<open>
  The engines agree on the expressions where only the reference evaluator is lazy: the logical
  operators, whose right operand it skips once the left one decides, and the conditional, whose
  other branch it skips when the condition is known. The VM evaluates both operands.
\<close>

section \<open>Logical operators and the conditional\<close>

lemma zero_within: "(x::int) AND (push_bit w 1 - 1) = 0 \<Longrightarrow> i < w \<Longrightarrow> \<not> bit x i"
  by (metis and_width_mask bit_0_eq bit_take_bit_iff bot_apply bot_bool_def width_mask_def)

lemma decided_by_left:
  assumes "wf_val l"
  shows "(v_val l OR v_mask l) AND (push_bit (v_width l) 1 - 1) = 0 \<Longrightarrow> logical_and l x = known 0 1"
    and "(v_val l AND NOT (v_mask l)) AND (push_bit (v_width l) 1 - 1) \<noteq> 0 \<Longrightarrow> logical_or l x = known 1 1"
proof -
  assume z: "(v_val l OR v_mask l) AND (push_bit (v_width l) 1 - 1) = 0"
  have b: "\<not> bit (v_val l) i \<and> \<not> bit (v_mask l) i" for i
  proof (cases "i < v_width l")
    case True
    then show ?thesis using zero_within [OF z True] by (simp add: bit_or_iff)
  next
    case False
    then show ?thesis using wf_valD [OF assms, of i] by blast
  qed
  have "v_mask l = 0" "v_val l = 0"
    by (rule int_eqI, simp add: b)+
  then show "logical_and l x = known 0 1" by (simp add: logical_and_def)
next
  assume "(v_val l AND NOT (v_mask l)) AND (push_bit (v_width l) 1 - 1) \<noteq> 0"
  then have "v_val l AND NOT (v_mask l) \<noteq> 0" by (metis and_zero_eq and.commute)
  then show "logical_or l x = known 1 1" by (simp add: logical_or_def)
qed

lemma own_sign_logical:
  assumes "is_logical op"
  shows "eval ctx (BinaryOp op a b) w (Some (expr_signed ctx (BinaryOp op a b))) = eval ctx (BinaryOp op a b) w None"
proof -
  have o: "eval_operands ctx op a b ea eb w so = eval_logical_operands op ea eb" for ea eb so
    using assms by (simp add: eval_operands_def Let_def)
  have p: "apply_binary_op op so sl sr = apply_binary_op op None sl sr" for so sl sr
    using assms by (intro ext) (auto simp: apply_binary_op_def op_class_defs)
  have "\<not> is_bitwise op" using assms by (auto simp: op_class_defs)
  then show ?thesis
    unfolding eval.simps eval_binary_def Let_def o p [of "Some _"] opt_or_simps by simp
qed

lemma engine_ok_logical:
  assumes ok: "engine_ok ce ctx m a na" "engine_ok ce ctx m b nb"
    and op: "is_logical op" and pure: "\<not> has_impure_call b"
  shows "engine_ok ce ctx m (BinaryOp op a b) 1"
proof -
  let ?e = "BinaryOp op a b" and ?f = "if op = LOr then logical_or else logical_and"
  note sa = engine_ok_static [OF ok(1)] and sb = engine_ok_static [OF ok(2)]
  have ops: "op = LAnd \<or> op = LOr" "\<not> is_bitwise op" "is_one_bit_binary op" "\<not> is_shift op" "op \<noteq> Pow"
    using op by (auto simp: op_class_defs)
  obtain l where l: "eval ctx a 0 None = Inr l" "wf_val l" "compiles_to m (compile_expr ce a) 0 None l"
    by (rule engine_okD [OF ok(1), of 0 None]) auto
  obtain r where r: "eval ctx b 0 None = Inr r" "wf_val r" "compiles_to m (compile_expr ce b) 0 None r"
    by (rule engine_okD [OF ok(2), of 0 None]) auto
  let ?u = "?f l r"
  have u: "wf_val ?u" "v_width ?u = 1" by auto
  have ap: "apply_binary_op op so sl sr x y = Inr (?f x y)" for so sl sr x y
    using ops(1) by (auto simp: apply_binary_op_def eval_binary_op_def)
  have ev: "eval ctx ?e w so = Inr (widened ?u w (opt_or so False))" if "w = 0 \<or> 1 \<le> w" for w so
  proof -
    obtain y where y: "eval_operands ctx op a b (eval ctx a) (eval ctx b) w so = Inr (l, y)"
      and eq: "?f l y = ?u"
    proof (cases "op = LOr")
      case True
      then show ?thesis
        using that op l(1) r(1) decided_by_left(2) [OF l(2)]
        by (cases "(v_val l AND NOT (v_mask l)) AND (push_bit (v_width l) 1 - 1) = 0")
          (simp_all add: eval_operands_def eval_logical_operands_def Let_def)
    next
      case False
      then have "op = LAnd" using ops(1) by simp
      then show ?thesis
        using that op l(1) r(1) decided_by_left(1) [OF l(2)]
        by (cases "(v_val l OR v_mask l) AND (push_bit (v_width l) 1 - 1) = 0")
          (simp_all add: eval_operands_def eval_logical_operands_def Let_def)
    qed
    show ?thesis
      unfolding eval.simps eval_binary_def Let_def y using ops u that eq
      by (simp add: ap adjust_if_eq)
  qed
  have "same_value m 1 (eval ctx ?e) (compile_expr ce ?e) w so" if ic: "in_context 1 w so" for w so
  proof -
    let ?b = "opt_or so False"
    have wd: "w = 0 \<or> int (v_width ?u) \<le> w" using ic u by (auto simp: in_context_def)
    have "compiles_to m (compile_binary ce op a b (compile_expr ce a) (compile_expr ce b)) w so (widened ?u w ?b)"
      unfolding compiles_to_def
    proof
      fix st
      let ?opc = "if op = LOr then LOG_OR else LOG_AND"
      obtain st1 st2 where 1: "compile_expr ce a 0 None st = Inr st1" "compile_expr ce b 0 None st1 = Inr st2"
        "\<And>s. runs m st st2 s (r # l # s)"
        by (rule two_operands [OF l(3) r(3), where st = st]) blast
      have o: "runs m st2 (emit ?opc 0 st2) (r # l # s) (?u # s)" for s
        by (intro runs_emit) (simp add: value_op_def instr_def binary_fun_def)
      let ?st3 = "emit_ext_if (w \<noteq> 0 \<and> w \<noteq> 1) ?b w (emit ?opc 0 st2)"
      have "compile_binary ce op a b (compile_expr ce a) (compile_expr ce b) w so st = Inr ?st3"
        using op ops 1(1,2) pure by (simp add: compile_binary_def compile_logical_def Let_def)
      moreover have "runs m st ?st3 s (widened ?u w ?b # s)" for s
        by (rule runs_trans [OF 1(3) runs_trans [OF o runs_widened]]) (use u wd in auto)
      ultimately show "\<exists>st'. compile_binary ce op a b (compile_expr ce a) (compile_expr ce b) w so st = Inr st' \<and>
          (\<forall>s. runs m st st' s (widened ?u w ?b # s))" by blast
    qed
    then show ?thesis
      using ev [of w so] u wd
      by (intro same_valueI [where v = "widened ?u w ?b"]) (auto intro: compiles_noting simp: width_widened)
  qed
  moreover have "own_context ctx ?e 1"
  proof -
    have "eval ctx ?e 0 None = eval ctx ?e 1 None"
      using ev [of 0 None] ev [of 1 None] u by (simp add: widened_def del: eval.simps)
    moreover have "eval ctx ?e w (Some (expr_signed ctx ?e)) = eval ctx ?e w None" for w
      using own_sign_logical [OF op] by simp
    ultimately show ?thesis by (simp add: own_context_def)
  qed
  ultimately show ?thesis using sa sb ops by (simp add: engine_ok_def same_static_def)
qed

lemma vm_ternary_eq:
  assumes "wf_val tv" "wf_val fv" "v_width tv = v_width fv"
  shows "vm_ternary c tv fv = (if truthy c then tv else if v_mask c = 0 then fv else merge_xz tv fv)"
proof -
  have u: "resize tv (v_width fv) = tv" using assms by simp
  have w: "push_bit k 1 - 1 = width_mask k" for k by (simp add: width_mask_def)
  have "merge_xz tv fv = vm_ternary c tv fv" if "\<not> truthy c" "v_mask c \<noteq> 0"
  proof -
    have "vm_ternary c tv fv = mk_value
        (v_val tv AND v_val fv AND NOT (NOT (NOT (v_mask tv) AND NOT (v_mask fv) AND width_mask (v_width fv)
           AND (NOT (v_val tv XOR v_val fv) AND width_mask (v_width fv))) AND width_mask (v_width fv))
           AND width_mask (v_width fv)) (v_width fv)
        (NOT (NOT (v_mask tv) AND NOT (v_mask fv) AND width_mask (v_width fv)
           AND (NOT (v_val tv XOR v_val fv) AND width_mask (v_width fv))) AND width_mask (v_width fv))"
      using that assms u unfolding vm_ternary_def truthy_def Let_def by (simp add: ac_simps)
    also have "\<dots> = merge_xz tv fv"
      unfolding merge_xz_def Let_def w assms(3) max.idem
      by (rule val4_eqI; (intro int_eqI)?) (auto simp: bit_simps)
    finally show ?thesis by simp
  qed
  then show ?thesis by (simp add: vm_ternary_def truthy_def)
qed

lemma reduce_or_decides:
  "is_defined (reduce_or c) \<longleftrightarrow> truthy c \<or> v_mask c = 0"
  "is_defined (reduce_or c) \<Longrightarrow> v_val (reduce_or c) \<noteq> 0 \<longleftrightarrow> truthy c"
proof -
  have "v_val (known 0 1) = 0" "v_val (known 1 1) \<noteq> 0" "v_mask (v_x 1) \<noteq> 0"
    by (simp_all add: width_mask_def known_val del: One_nat_def)
  then show "is_defined (reduce_or c) \<longleftrightarrow> truthy c \<or> v_mask c = 0"
    "is_defined (reduce_or c) \<Longrightarrow> v_val (reduce_or c) \<noteq> 0 \<longleftrightarrow> truthy c"
    by (auto simp: reduce_or_def truthy_def is_defined_def bool_val_def simp del: One_nat_def split: if_splits)
qed

lemma ternary_at:
  assumes ok: "engine_ok ce ctx m c nc" "engine_ok ce ctx m a na" "engine_ok ce ctx m b nb"
    and pure: "\<not> has_impure_call a" "\<not> has_impure_call b"
    and s: "s = opt_or so (expr_signed ctx a \<and> expr_signed ctx b)"
  shows "\<exists>cv tv fv. eval ctx c nc None = Inr cv \<and> eval ctx (TernaryOp c a b) w so = Inr (vm_ternary cv tv fv)
      \<and> eval ctx a (max w (max na nb)) (Some s) = Inr tv \<and> eval ctx b (max w (max na nb)) (Some s) = Inr fv
      \<and> wf_val (vm_ternary cv tv fv) \<and> int (v_width (vm_ternary cv tv fv)) = max w (max na nb)
      \<and> compiles_to m (compile_ternary ce c a b (compile_expr ce c) (compile_expr ce a) (compile_expr ce b)) w so
          (vm_ternary cv tv fv)"
proof -
  let ?e = "TernaryOp c a b" and ?n = "max na nb"
  note sc = engine_ok_static [OF ok(1)] and sa = engine_ok_static [OF ok(2)] and sb = engine_ok_static [OF ok(3)]
  obtain cv where cv: "eval ctx c nc None = Inr cv" "wf_val cv" "compiles_to m (compile_expr ce c) nc None cv"
    by (rule engine_okD [OF ok(1), of nc None]) auto
  let ?t = "max w ?n"
  have t: "?t \<noteq> 0" "na \<le> ?t" "nb \<le> ?t" using sa(1) by auto
  obtain tv where tv: "eval ctx a ?t (Some s) = Inr tv" "wf_val tv" "int (v_width tv) = ?t" "0 < v_width tv"
      "compiles_to m (compile_expr ce a) ?t (Some s) tv"
    by (rule engine_ok_wide [OF ok(2) t(2)])
  obtain fv where fv: "eval ctx b ?t (Some s) = Inr fv" "wf_val fv" "int (v_width fv) = ?t" "0 < v_width fv"
      "compiles_to m (compile_expr ce b) ?t (Some s) fv"
    by (rule engine_ok_wide [OF ok(3) t(3)])
  have same: "v_width tv = v_width fv" using tv(3) fv(3) by linarith
  note tern = vm_ternary_eq [OF tv(2) fv(2) same, of cv]
  have "eval ctx ?e w so = Inr (vm_ternary cv tv fv)"
    unfolding tern using sa sb sc cv(1) tv(1) fv(1) s reduce_or_decides [of cv]
    by (simp add: eval_ternary_def Let_def max_res_def)
  moreover have "wf_val (vm_ternary cv tv fv)" "int (v_width (vm_ternary cv tv fv)) = ?t"
    unfolding tern using tv fv same by (auto simp: merge_xz_def Let_def)
  moreover have "compiles_to m (compile_ternary ce c a b (compile_expr ce c) (compile_expr ce a) (compile_expr ce b))
      w so (vm_ternary cv tv fv)"
    unfolding compiles_to_def
  proof
    fix st
    obtain st1 where 1: "compile_expr ce c nc None st = Inr st1" "\<And>z. runs m st st1 z (cv # z)"
      using compilesE [OF cv(3)] by blast
    obtain st2 st3 where 2: "compile_expr ce a ?t (Some s) st1 = Inr st2" "compile_expr ce b ?t (Some s) st2 = Inr st3"
      "\<And>z. runs m st1 st3 z (fv # tv # z)"
      by (rule two_operands [OF tv(5) fv(5), where st = st1]) blast
    have o: "runs m st3 (emit TERNARY 0 st3) (fv # tv # cv # z) (vm_ternary cv tv fv # z)" for z
      by (intro runs_emit) (simp add: value_op_def instr_def binary_fun_def unary_fun_def ternary_fun_def)
    have "compile_ternary ce c a b (compile_expr ce c) (compile_expr ce a) (compile_expr ce b) w so st
        = Inr (emit TERNARY 0 st3)"
      using sa sb sc 1(1) 2(1,2) s pure by (simp add: compile_ternary_def Let_def max_res_def)
    moreover have "runs m st (emit TERNARY 0 st3) z (vm_ternary cv tv fv # z)" for z
      by (rule runs_trans [OF 1(2) runs_trans [OF 2(3) o]])
    ultimately show "\<exists>st'. compile_ternary ce c a b (compile_expr ce c) (compile_expr ce a) (compile_expr ce b) w so st
        = Inr st' \<and> (\<forall>z. runs m st st' z (vm_ternary cv tv fv # z))" by blast
  qed
  ultimately show ?thesis using cv(1) tv(1) fv(1) by blast
qed

lemma engine_ok_ternary:
  assumes ok: "engine_ok ce ctx m c nc" "engine_ok ce ctx m a na" "engine_ok ce ctx m b nb"
    and pure: "\<not> has_impure_call a" "\<not> has_impure_call b"
  shows "engine_ok ce ctx m (TernaryOp c a b) (max na nb)"
proof -
  let ?e = "TernaryOp c a b" and ?n = "max na nb"
  note sc = engine_ok_static [OF ok(1)] and sa = engine_ok_static [OF ok(2)] and sb = engine_ok_static [OF ok(3)]
  note key = ternary_at [OF ok pure refl]
  have "same_value m ?n (eval ctx ?e) (compile_expr ce ?e) w so" if ic: "in_context ?n w so" for w so
  proof -
    obtain v where "eval ctx ?e w so = Inr v" "wf_val v" "int (v_width v) = max w ?n"
      "compiles_to m (compile_ternary ce c a b (compile_expr ce c) (compile_expr ce a) (compile_expr ce b)) w so v"
      using key by blast
    then show ?thesis
      by (intro same_valueI [where v = v]) (use ic sa(1) in \<open>auto intro!: compiles_noting simp: in_context_def\<close>)
  qed
  moreover have "own_context ctx ?e ?n"
  proof -
    have "eval ctx ?e 0 None = eval ctx ?e ?n None"
      using key [of 0 None] key [of ?n None] sa(1) by (auto simp: max_absorb2)
    then show ?thesis by (simp add: own_context_def eval_ternary_def Let_def)
  qed
  ultimately show ?thesis
    using sa sb by (simp add: engine_ok_def same_static_def max_res_def)
qed

section \<open>Casts\<close>

lemma engine_ok_cast:
  assumes ok: "engine_ok ce ctx m (strip_casts a) n" and f: "f = ''$signed'' \<or> f = ''$unsigned''"
    and st: "same_static ce ctx (FunctionCall f [a]) n"
  shows "engine_ok ce ctx m (FunctionCall f [a]) n"
proof -
  let ?e = "FunctionCall f [a]" and ?g = "f = ''$signed''" and ?a = "strip_casts a"
  note sa = engine_ok_static [OF ok]
  obtain v where v: "eval ctx ?a n None = Inr v" "wf_val v" "int (v_width v) = n" "0 < v_width v"
      "compiles_to m (compile_expr ce ?a) n None v"
    by (rule engine_okD [OF ok, of n None]) (use sa(1) in auto)
  have ev: "eval ctx ?e = eval_cast ?g (Inr n) (eval ctx ?a)"
    using f sa by auto
  have comp: "compile_expr ce ?e = noting (Inr 0) (compile_cast ?g (Inr n) (compile_expr ce ?a))"
    using f sa by auto
  have val: "eval ctx ?e w so = Inr (widened v w (opt_or so ?g))" for w so
    unfolding ev using v by (simp add: eval_cast_def widen_eq)
  have "same_value m n (eval ctx ?e) (compile_expr ce ?e) w so" if ic: "in_context n w so" for w so
  proof -
    let ?b = "opt_or so ?g"
    have wd: "w = 0 \<or> int (v_width v) \<le> w" using ic v by (auto simp: in_context_def)
    have "compiles_to m (compile_cast ?g (Inr n) (compile_expr ce ?a)) w so (widened v w ?b)"
      unfolding compiles_to_def
    proof
      fix st
      obtain st1 where 1: "compile_expr ce ?a n None st = Inr st1" "\<And>z. runs m st st1 z (v # z)"
        using compilesE [OF v(5)] by blast
      let ?st2 = "emit_ext_if (w \<noteq> 0 \<and> n \<noteq> w) ?b w st1"
      have "compile_cast ?g (Inr n) (compile_expr ce ?a) w so st = Inr ?st2"
        using 1(1) by (simp add: compile_cast_def)
      moreover have "runs m st ?st2 z (widened v w ?b # z)" for z
        by (rule runs_trans [OF 1(2) runs_widened]) (use v wd in auto)
      ultimately show "\<exists>st'. compile_cast ?g (Inr n) (compile_expr ce ?a) w so st = Inr st' \<and>
          (\<forall>s. runs m st st' s (widened v w ?b # s))" by blast
    qed
    then show ?thesis
      unfolding comp using val [of w so] v wd
      by (intro same_valueI [where v = "widened v w ?b"]) (auto intro!: compiles_noting simp: width_widened)
  qed
  moreover have "own_context ctx ?e n"
    unfolding own_context_def val using f v by (auto simp: widened_def)
  ultimately show ?thesis using st by (simp add: engine_ok_def)
qed

end
