(* ===== verification/Engine_Select.thy ===== *)
theory Engine_Select
  imports Engine_Control
begin

text \<open>
  The engines agree on concatenations, replications and selects, and so, by induction on the size
  of the expression, on every expression of \<open>agree_expr\<close>.
\<close>

section \<open>Self-determined expressions\<close>

text \<open>
  Concatenations, replications and selects compute one value whatever the context and then widen
  it; the VM ends their code with one extension to the context's width.
\<close>

lemma engine_ok_self:
  assumes st: "same_static ce ctx e n" and v: "wf_val v" "int (v_width v) = n"
    and ev: "\<And>w so. eval ctx e w so = widen v w (b so)"
    and own: "b (Some (expr_signed ctx e)) = b None"
    and ce: "compile_expr ce e = noting (Inr k) c"
    and code: "\<And>w so st. \<exists>st1. c w so st = Inr (emit_ext_if (w \<noteq> 0) (b so) w st1) \<and> (\<forall>s. runs m st st1 s (v # s))"
  shows "engine_ok ce ctx m e n"
proof -
  have pos: "0 < v_width v" using st v(2) by (simp add: same_static_def)
  have "same_value m n (eval ctx e) (compile_expr ce e) w so" if ic: "in_context n w so" for w so
  proof -
    have wd: "w = 0 \<or> int (v_width v) \<le> w" using ic v(2) by (auto simp: in_context_def)
    have "compiles_to m c w so (widened v w (b so))"
      unfolding compiles_to_def
    proof
      fix st
      obtain st1 where 1: "c w so st = Inr (emit_ext_if (w \<noteq> 0) (b so) w st1)" "\<And>s. runs m st st1 s (v # s)"
        using code by blast
      then show "\<exists>st'. c w so st = Inr st' \<and> (\<forall>s. runs m st st' s (widened v w (b so) # s))"
        using runs_trans [OF 1(2) runs_widened' [OF v(1) pos wd]] by blast
    qed
    then show ?thesis
      unfolding ce using ev [of w so] v wd pos
      by (intro same_valueI [where v = "widened v w (b so)"])
        (auto intro!: compiles_noting simp: width_widened widen_eq)
  qed
  moreover have "own_context ctx e n"
    unfolding own_context_def ev using own v by simp
  ultimately show ?thesis using st by (simp add: engine_ok_def)
qed

section \<open>Concatenation\<close>

lemma vm_concat_eq: "vm_concat = concat_values"
  by (intro ext) (simp add: vm_concat_def concat_values_def)

lemma concat_values_ok:
  assumes "vs \<noteq> []" "\<forall>v\<in>set vs. wf_val v"
  shows "wf_val (concat_values vs)" "v_width (concat_values vs) = sum_list (map v_width vs)"
proof -
  have "wf_val a \<Longrightarrow> wf_val (foldl (\<lambda>r q. v_concat r [q]) a us)" for a us
    by (induction us arbitrary: a) simp_all
  moreover have "v_width (foldl (\<lambda>r q. v_concat r [q]) a us) = v_width a + sum_list (map v_width us)" for a us
    by (induction us arbitrary: a) simp_all
  ultimately show "wf_val (concat_values vs)" "v_width (concat_values vs) = sum_list (map v_width vs)"
    using assms by (auto simp: concat_values_def neq_Nil_conv)
qed

lemma parts_ok:
  assumes "\<And>p. p \<in> set parts \<Longrightarrow> \<exists>n. engine_ok ce ctx m p n"
  obtains vs where
    "seq_res (map (\<lambda>p. rbind (expr_self_width ctx p) (\<lambda>w. eval ctx p w None)) parts) = Inr vs"
    "length vs = length parts" "\<forall>v\<in>set vs. wf_val v \<and> 0 < v_width v"
    "sum_res (map (expr_self_width ctx) parts) = Inr (int (sum_list (map v_width vs)))"
    "sum_res (map (vm_expr_width ce) parts) = Inr (int (sum_list (map v_width vs)))"
    "\<And>st. \<exists>st'. compile_parts (map (\<lambda>p. (vm_expr_width ce p, compile_expr ce p)) parts) st = Inr st'
       \<and> (\<forall>s. runs m st st' s (rev vs @ s))"
  using assms
proof (induction parts arbitrary: thesis)
  case Nil
  then show ?case by (auto intro!: Nil(1) [of "[]"])
next
  case (Cons p parts)
  have IHp: "\<exists>n. engine_ok ce ctx m q n" if "q \<in> set parts" for q using Cons.prems(2) that by simp
  obtain n where n: "engine_ok ce ctx m p n" using Cons.prems(2) by auto
  note st = engine_ok_static [OF n]
  obtain v where v: "eval ctx p n None = Inr v" "wf_val v" "int (v_width v) = n"
    "0 < v_width v" "compiles_to m (compile_expr ce p) n None v"
    by (rule engine_ok_wide [OF n order_refl])
  obtain vs where vs: "seq_res (map (\<lambda>p. rbind (expr_self_width ctx p) (\<lambda>w. eval ctx p w None)) parts) = Inr vs"
    "length vs = length parts" "\<forall>v\<in>set vs. wf_val v \<and> 0 < v_width v"
    "sum_res (map (expr_self_width ctx) parts) = Inr (int (sum_list (map v_width vs)))"
    "sum_res (map (vm_expr_width ce) parts) = Inr (int (sum_list (map v_width vs)))"
    "\<And>st. \<exists>st'. compile_parts (map (\<lambda>p. (vm_expr_width ce p, compile_expr ce p)) parts) st = Inr st'
       \<and> (\<forall>s. runs m st st' s (rev vs @ s))"
    by (rule Cons.IH [OF _ IHp]) blast
  show ?case
  proof (rule Cons.prems(1) [of "v # vs"])
    show "\<exists>st'. compile_parts (map (\<lambda>p. (vm_expr_width ce p, compile_expr ce p)) (p # parts)) st = Inr st'
       \<and> (\<forall>s. runs m st st' s (rev (v # vs) @ s))" for st
    proof -
      obtain st1 where 1: "compile_expr ce p n None st = Inr st1" "\<And>z. runs m st st1 z (v # z)"
        using compilesE [OF v(5)] by blast
      obtain st2 where 2: "compile_parts (map (\<lambda>p. (vm_expr_width ce p, compile_expr ce p)) parts) st1 = Inr st2"
        "\<And>s. runs m st1 st2 s (rev vs @ s)"
        using vs(6) by blast
      show ?thesis using st 1(1) 2(1) runs_trans [OF 1(2) 2(2)] by simp
    qed
  qed (use v vs st in auto)
qed

lemma engine_ok_concat:
  assumes "parts \<noteq> []" "\<And>p. p \<in> set parts \<Longrightarrow> \<exists>n. engine_ok ce ctx m p n"
  shows "\<exists>n. engine_ok ce ctx m (Concatenation parts) n"
proof -
  let ?e = "Concatenation parts"
  obtain vs where vs: "seq_res (map (\<lambda>p. rbind (expr_self_width ctx p) (\<lambda>w. eval ctx p w None)) parts) = Inr vs"
    "length vs = length parts" "\<forall>v\<in>set vs. wf_val v \<and> 0 < v_width v"
    "sum_res (map (expr_self_width ctx) parts) = Inr (int (sum_list (map v_width vs)))"
    "sum_res (map (vm_expr_width ce) parts) = Inr (int (sum_list (map v_width vs)))"
    "\<And>st. \<exists>st'. compile_parts (map (\<lambda>p. (vm_expr_width ce p, compile_expr ce p)) parts) st = Inr st'
       \<and> (\<forall>s. runs m st st' s (rev vs @ s))"
    using parts_ok [OF assms(2)] by blast
  have ne: "vs \<noteq> []" using vs(2) assms(1) by auto
  let ?v = "concat_values vs" and ?n = "int (sum_list (map v_width vs))"
  have v: "wf_val ?v" "int (v_width ?v) = ?n"
    using concat_values_ok [OF ne] vs(3) by auto
  have pos: "0 < ?n"
    using v(2) vs(3) ne by (cases vs) auto
  have "engine_ok ce ctx m ?e ?n"
  proof (rule engine_ok_self [where b = "\<lambda>so. so = Some True" and v = ?v])
    show "compile_expr ce ?e = noting (Inr ?n)
        (compile_concat (map (\<lambda>p. (vm_expr_width ce p, compile_expr ce p)) parts))"
      using vs(5) by simp
    show "\<exists>st1. compile_concat (map (\<lambda>p. (vm_expr_width ce p, compile_expr ce p)) parts) w so st
        = Inr (emit_ext_if (w \<noteq> 0) (so = Some True) w st1) \<and> (\<forall>s. runs m st st1 s (?v # s))" for w so st
    proof -
      obtain st1 where 1: "compile_parts (map (\<lambda>p. (vm_expr_width ce p, compile_expr ce p)) parts) st = Inr st1"
        "\<And>s. runs m st st1 s (rev vs @ s)"
        using vs(6) by blast
      have "runs m st1 (emit CONCAT (int (length parts)) st1) (rev vs @ s) (?v # s)" for s
        by (intro runs_emit) (simp add: value_op_def instr_def vs(2) [symmetric] vm_concat_eq)
      then show ?thesis
        using 1(1) runs_trans [OF 1(2)] by (auto simp: compile_concat_def)
    qed
  qed (use vs v pos assms(1) in \<open>auto simp: same_static_def eval_concat_def\<close>)
  then show ?thesis by blast
qed

section \<open>Replication and selects\<close>

lemma literal_value:
  assumes "index_literal l"
  obtains v where "v = compile_literal l" "eval ctx (Literal l) 0 None = Inr v" "wf_val v" "is_defined v"
    "v_width v = lit_self_width l" "0 \<le> v_val v" "lit_int l = Inr (v_val v)"
    "compiles_to m (compile_expr ce (Literal l)) 0 None v"
proof -
  let ?v = "compile_literal l"
  have a: "agree_literal l" "v_mask ?v = 0" "lit_int l = Inr (v_val ?v)"
    using assms by (auto simp: index_literal_def)
  have ev: "eval ctx (Literal l) 0 None = Inr ?v"
    using a(1) by (simp add: eval_literal_expr_def agree_literal_def)
  obtain u where u: "eval ctx (Literal l) 0 None = Inr u" "compiles_to m (compile_expr ce (Literal l)) 0 None u"
    by (rule engine_okD [OF engine_ok_literal [OF a(1), of ce ctx m], of 0 None]) auto
  have "u = ?v" using u(1) ev by simp
  then show ?thesis
    using that [OF refl ev wf_compile_literal] a u(2) wf_val_bounds [OF wf_compile_literal, of l]
    by (simp add: is_defined_def agree_literal_def)
qed

lemma engine_ok_replication:
  assumes ok: "engine_ok ce ctx m v n" and l: "index_literal l" "0 < v_val (compile_literal l)"
  shows "engine_ok ce ctx m (Replication (Literal l) v) (v_val (compile_literal l) * n)"
proof -
  let ?e = "Replication (Literal l) v"
  note st = engine_ok_static [OF ok]
  obtain c where c: "c = compile_literal l" "eval ctx (Literal l) 0 None = Inr c" "is_defined c" "0 \<le> v_val c"
    "lit_int l = Inr (v_val c)" "compiles_to m (compile_expr ce (Literal l)) 0 None c"
    by (rule literal_value [OF l(1), where ce = ce and ctx = ctx and m = m])
  obtain u where u: "eval ctx v n None = Inr u" "wf_val u" "int (v_width u) = n"
    "0 < v_width u" "compiles_to m (compile_expr ce v) n None u"
    by (rule engine_ok_wide [OF ok order_refl])
  let ?r = "v_replicate u (nat (v_val c))" and ?n = "v_val c * n"
  have r: "wf_val ?r" "int (v_width ?r) = ?n" "0 < v_width ?r"
    using u(3,4) l(2) c(1,4) by (simp_all add: mult.commute)
  show ?thesis
  proof (rule engine_ok_self [where b = "\<lambda>so. so = Some True" and v = ?r])
    show "compile_expr ce ?e = noting (Inr ?n)
        (compile_replication (Inr n) (compile_expr ce (Literal l)) (compile_expr ce v))"
      using st c(5) by simp
    show "\<exists>st1. compile_replication (Inr n) (compile_expr ce (Literal l)) (compile_expr ce v) w so st0
        = Inr (emit_ext_if (w \<noteq> 0) (so = Some True) w st1) \<and> (\<forall>s. runs m st0 st1 s (?r # s))" for w so st0
    proof -
      obtain st1 where 1: "compile_expr ce (Literal l) 0 None st0 = Inr st1" "\<And>z. runs m st0 st1 z (c # z)"
        using compilesE [OF c(6)] by blast
      obtain st2 where 2: "compile_expr ce v n None st1 = Inr st2" "\<And>z. runs m st1 st2 z (u # z)"
        using compilesE [OF u(5)] by blast
      have o: "runs m st2 (emit REPLICATE 0 st2) (u # c # s) (?r # s)" for s
        using c(3) by (intro runs_emit_binary [where f = "\<lambda>a b. Inr (vm_replicate a b)"])
          (simp_all add: binary_fun_def vm_replicate_def)
      show ?thesis
        using 1(1) 2(1) runs_trans [OF 1(2) runs_trans [OF 2(2) o]]
        by (auto simp: compile_replication_def)
    qed
  qed (use st c l(2) r u in \<open>simp_all add: same_static_def eval_replication_def\<close>)
qed

lemma no_base [simp]: "append_base_adjust 0 st = st"
  by (simp add: append_base_adjust_def)

lemma engine_ok_memory_select:
  assumes ss: "same_state ce ctx m" and ok: "engine_ok ce ctx m i n" "\<not> expr_signed ctx i"
    and mem: "memories ctx (identifier_name nm h) = Some (data, ew)" "0 < ew"
    and st: "same_static ce ctx (BitSelect (Identifier nm h r) i) (int ew)"
  shows "engine_ok ce ctx m (BitSelect (Identifier nm h r) i) (int ew)"
proof -
  let ?e = "BitSelect (Identifier nm h r) i" and ?name = "identifier_name nm h"
  obtain mid base where mid: "mem_map ce ?name = Some mid" "mid < length (mem_info m)"
    "mem_info m ! mid = (ew, length data, base)"
    "\<And>k. k < length data \<Longrightarrow> data ! k = mk_value (mem_val m ! (base + k)) ew (mem_mask m ! (base + k))"
    "signal_signed ctx ?name = (?name \<in> set (signed_memories ce))"
    by (rule same_memoryD [OF ss mem(1)]) blast
  obtain k where k: "eval ctx i 0 None = Inr k" "wf_val k" "compiles_to m (compile_expr ce i) 0 None k"
    by (rule engine_okD [OF ok(1), of 0 None]) auto
  let ?v = "load_mem m (int mid) k" and ?sg = "signal_signed ctx ?name"
  have load: "(if is_defined k \<and> 0 \<le> v_val k \<and> v_val k < int (length data) then data ! nat (v_val k) else v_x ew) = ?v"
    using mid(2-4) by (auto simp: load_mem_def valid_mem_def Let_def)
  have vw: "wf_val ?v" "v_width ?v = ew"
    using mid(2,3) by (auto simp: load_mem_def valid_mem_def Let_def)
  show ?thesis
  proof (rule engine_ok_self [where b = "\<lambda>so. opt_or so ?sg" and v = ?v and k = 0])
    show "compile_expr ce ?e = noting (Inr 0) (compile_memory_select mid ?sg (compile_expr ce i))"
      using mid(1,5) by simp
    show "\<exists>st1. compile_memory_select mid ?sg (compile_expr ce i) w so st
        = Inr (emit_ext_if (w \<noteq> 0) (opt_or so ?sg) w st1) \<and> (\<forall>s. runs m st st1 s (?v # s))" for w so st
    proof -
      obtain st1 where 1: "compile_expr ce i 0 None st = Inr st1" "\<And>z. runs m st st1 z (k # z)"
        using compilesE [OF k(3)] by blast
      have "runs m st1 (emit LOAD_MEM (int mid) st1) (k # s) (?v # s)" for s
        by (intro runs_emit) (simp add: value_op_def instr_def)
      then show ?thesis using 1(1) runs_trans [OF 1(2)] by (auto simp: compile_memory_select_def)
    qed
    show "eval ctx ?e w so = widen ?v w (opt_or so ?sg)" for w so
      unfolding load [symmetric] using mem k(1) ok(2)
      by (simp add: eval_memory_select_def index_int_def to_int_def is_defined_def)
  qed (use st vw mem in simp_all)
qed

lemma engine_ok_bit_select:
  assumes ss: "same_state ce ctx m" and ok: "engine_ok ce ctx m t nt" "engine_ok ce ctx m i n" "\<not> expr_signed ctx i"
    and base: "select_base ctx t = 0"
    and ev: "eval ctx (BitSelect t i) = eval_bit_select ctx t i (eval ctx t) (eval ctx i)"
    and comp: "compile_expr ce (BitSelect t i)
      = noting (Inr 0) (compile_bit_select ce t (compile_expr ce t) (compile_expr ce i))"
    and st: "same_static ce ctx (BitSelect t i) 1" and us: "\<not> expr_signed ctx (BitSelect t i)"
  shows "engine_ok ce ctx m (BitSelect t i) 1"
proof -
  obtain tv where tv: "eval ctx t 0 None = Inr tv" "compiles_to m (compile_expr ce t) 0 None tv"
    by (rule engine_okD [OF ok(1), of 0 None]) auto
  obtain k where k: "eval ctx i 0 None = Inr k" "compiles_to m (compile_expr ce i) 0 None k"
    by (rule engine_okD [OF ok(2), of 0 None]) auto
  let ?v = "vm_bit_select tv k"
  show ?thesis
  proof (rule engine_ok_self [where b = "\<lambda>so. so = Some True" and v = ?v, OF _ _ _ _ _ comp])
    show "\<exists>st1. compile_bit_select ce t (compile_expr ce t) (compile_expr ce i) w so st
        = Inr (emit_ext_if (w \<noteq> 0) (so = Some True) w st1) \<and> (\<forall>s. runs m st st1 s (?v # s))" for w so st
    proof -
      obtain st1 st2 where 1: "compile_expr ce t 0 None st = Inr st1" "compile_expr ce i 0 None st1 = Inr st2"
        "\<And>s. runs m st st2 s (k # tv # s)"
        by (rule two_operands [OF tv(2) k(2), where st = st]) blast
      have "runs m st2 (emit BIT_SELECT 0 st2) (k # tv # s) (?v # s)" for s
        by (intro runs_emit) (simp add: value_op_def instr_def binary_fun_def)
      then show ?thesis
        using 1(1,2) runs_trans [OF 1(3)] same_select_base [OF ss, of t] base
        by (auto simp: compile_bit_select_def)
    qed
    show "eval ctx (BitSelect t i) w so = widen ?v w (so = Some True)" for w so
      unfolding ev using tv(1) k(1) ok(3) base
      by (simp add: eval_bit_select_def index_int_def to_int_def is_defined_def vm_bit_select_def)
    show "wf_val ?v" "int (v_width ?v) = 1" by (simp_all add: vm_bit_select_def)
  qed (use st us in simp_all)
qed

lemma engine_ok_range_select:
  assumes ss: "same_state ce ctx m" and ok: "engine_ok ce ctx m t nt" and base: "select_base ctx t = 0"
    and lits: "index_literal a" "index_literal b" "v_val (compile_literal b) \<le> v_val (compile_literal a)"
    and target: "\<And>nm r. t = Identifier nm [] r \<Longrightarrow> signals ctx nm \<noteq> None"
  shows "engine_ok ce ctx m (RangeSelect t (Literal a) (Literal b))
    (v_val (compile_literal a) - v_val (compile_literal b) + 1)"
proof -
  let ?e = "RangeSelect t (Literal a) (Literal b)"
  have index: "index_int ctx ev (compile_literal l) (Literal l) = Inr (v_val (compile_literal l))"
    and pos: "vm_pos (compile_literal l) = v_val (compile_literal l)" if il: "index_literal l" for l ev
  proof -
    let ?v = "compile_literal l"
    have v: "v_width ?v = lit_self_width l" "v_mask ?v = 0" "lit_self_width l < 64"
      "lit_signed l \<longrightarrow> v_val ?v < 2 ^ (lit_self_width l - 1)"
      using il by (auto simp: index_literal_def agree_literal_def)
    have "0 \<le> v_val ?v" using wf_val_bounds [OF wf_compile_literal, of l] by simp
    then have "signed_of ?v = v_val ?v" if "lit_signed l"
      using v that by (simp add: signed_of_def drop_bit_eq_div div_pos_pos_trivial)
    then show "index_int ctx ev ?v (Literal l) = Inr (v_val ?v)"
      using v by (simp add: index_int_def to_int_def)
    show "vm_pos ?v = v_val ?v" using v by (simp add: vm_pos_def)
  qed
  obtain tv where tv: "eval ctx t 0 None = Inr tv" "compiles_to m (compile_expr ce t) 0 None tv"
    by (rule engine_okD [OF ok, of 0 None]) auto
  obtain x where x: "x = compile_literal a" "eval ctx (Literal a) 0 None = Inr x" "is_defined x"
    "lit_int a = Inr (v_val x)" "compiles_to m (compile_expr ce (Literal a)) 0 None x"
    by (rule literal_value [OF lits(1), where ce = ce and ctx = ctx and m = m])
  obtain y where y: "y = compile_literal b" "eval ctx (Literal b) 0 None = Inr y" "is_defined y"
    "lit_int b = Inr (v_val y)" "compiles_to m (compile_expr ce (Literal b)) 0 None y"
    by (rule literal_value [OF lits(2), where ce = ce and ctx = ctx and m = m])
  let ?v = "get_range tv (v_val x) (v_val y)" and ?n = "v_val x - v_val y + 1"
  have tgt: "(case t of
      Identifier n h _ \<Rightarrow> (if h = [] then (case signals ctx n of Some v \<Rightarrow> Inr v | None \<Rightarrow> eval ctx t 0 None)
                           else eval ctx t 0 None)
    | _ \<Rightarrow> eval ctx t 0 None) = Inr tv"
  proof (cases "\<exists>nm r. t = Identifier nm [] r")
    case True
    then show ?thesis
      using tv(1) target by (auto simp: identifier_name_def eval_identifier_def)
  next
    case False
    then show ?thesis using tv(1) by (cases t) (auto simp del: eval.simps)
  qed
  have "engine_ok ce ctx m ?e ?n"
  proof (rule engine_ok_self [where b = "\<lambda>so. so = Some True" and v = ?v and k = 0])
    show "compile_expr ce ?e = noting (Inr 0)
        (compile_range_select ce t (compile_expr ce t) (compile_expr ce (Literal a)) (compile_expr ce (Literal b)))"
      by simp
    show "\<exists>st1. compile_range_select ce t (compile_expr ce t) (compile_expr ce (Literal a)) (compile_expr ce (Literal b)) w so st
        = Inr (emit_ext_if (w \<noteq> 0) (so = Some True) w st1) \<and> (\<forall>s. runs m st st1 s (?v # s))" for w so st
    proof -
      obtain st1 st2 where 1: "compile_expr ce t 0 None st = Inr st1" "compile_expr ce (Literal a) 0 None st1 = Inr st2"
        "\<And>s. runs m st st2 s (x # tv # s)"
        by (rule two_operands [OF tv(2) x(5), where st = st]) blast
      obtain st3 where 2: "compile_expr ce (Literal b) 0 None st2 = Inr st3" "\<And>z. runs m st2 st3 z (y # z)"
        using compilesE [OF y(5)] by blast
      have o: "runs m st3 (emit RANGE_SELECT 0 st3) (y # x # tv # s) (?v # s)" for s
        using x(1,3) y(1,3) pos lits
        by (intro runs_emit)
          (simp add: value_op_def instr_def binary_fun_def unary_fun_def ternary_fun_def vm_range_select_def)
      show ?thesis
        using 1(1,2) 2(1) runs_trans [OF 1(3) runs_trans [OF 2(2) o]] same_select_base [OF ss, of t] base
        by (auto simp: compile_range_select_def)
    qed
    show "eval ctx ?e w so = widen ?v w (so = Some True)" for w so
      using tgt x(1-3) y(1-3) index lits base by (simp add: eval_range_select_def)
    show "same_static ce ctx ?e ?n"
      using x(1,4) y(1,4) lits(3) by (simp add: same_static_def range_self_width_def)
    show "wf_val ?v" "int (v_width ?v) = ?n" using lits(3) x(1) y(1) by simp_all
  qed simp
  then show ?thesis using x(1) y(1) by simp
qed

section \<open>The engines agree\<close>

lemma bit_select_vector:
  assumes "\<And>nm h r. t = Identifier nm h r \<Longrightarrow> memories ctx (identifier_name nm h) = None"
  shows "eval ctx (BitSelect t i) = eval_bit_select ctx t i (eval ctx t) (eval ctx i)"
    "expr_self_width ctx (BitSelect t i) = Inr 1" "\<not> expr_signed ctx (BitSelect t i)"
  using assms unfolding eval.simps(8) expr_self_width.simps(3) expr_signed.simps(3)
  by (cases t; simp del: eval.simps)+

lemma bit_select_vector_code:
  assumes "\<And>nm h r. t = Identifier nm h r \<Longrightarrow> mem_map ce (identifier_name nm h) = None"
  shows "compile_expr ce (BitSelect t i)
    = noting (Inr 0) (compile_bit_select ce t (compile_expr ce t) (compile_expr ce i))"
  using assms unfolding compile_expr.simps(8)
  by (cases t; simp del: compile_expr.simps)

lemma agree_call:
  "agree_expr ctx (FunctionCall f args)
     \<Longrightarrow> \<exists>a. args = [a] \<and> (f = ''$signed'' \<or> f = ''$unsigned'') \<and> agree_expr ctx a"
proof (cases args)
  case (Cons a as)
  moreover assume "agree_expr ctx (FunctionCall f args)"
  ultimately show ?thesis by (cases as) auto
qed simp

lemma engines_agree_expr:
  assumes "same_state ce ctx m" "agree_expr ctx e"
  shows "\<exists>n. engine_ok ce ctx m e n"
  using assms(2)
proof (induction "size e" arbitrary: e rule: less_induct)
  case less
  have IH: "\<exists>n. engine_ok ce ctx m a n" if "size a < size e" "agree_expr ctx a" for a
    using less.hyps that by blast
  obtain n where n: "same_static ce ctx e n" using agree_static [OF assms(1) less.prems] by blast
  show ?case
  proof (cases e)
    case (Identifier nm h r)
    then obtain v where "signals ctx (identifier_name nm h) = Some v" "0 < v_width v"
      using less.prems by (auto split: option.splits)
    then show ?thesis unfolding Identifier using engine_ok_identifier [OF assms(1)] by blast
  next
    case (Literal l)
    then have "agree_literal l" using less.prems by simp
    then show ?thesis unfolding Literal using engine_ok_literal by blast
  next
    case (UnaryOp op a)
    then obtain na where "engine_ok ce ctx m a na" using IH [of a] less.prems by auto
    moreover have "known_unop op" using UnaryOp less.prems by simp
    ultimately show ?thesis
      unfolding UnaryOp using engine_ok_unary_value engine_ok_unary_reduce
      by (cases "is_one_bit_unary op") blast+
  next
    case (BinaryOp op a b)
    then obtain na nb where ok: "engine_ok ce ctx m a na" "engine_ok ce ctx m b nb"
      using IH [of a] IH [of b] less.prems by auto
    have ag: "known_binop op" "\<not> (op \<in> {Div, Mod} \<and> expr_signed ctx a \<and> expr_signed ctx b)"
      "\<not> has_impure_call b"
      using less.prems BinaryOp agree_no_impure by auto
    consider "is_bitwise op" | "is_logical op" | "is_compare op" | "is_shift op" | "op = Pow"
      | "op \<in> {Add, Sub, Mul, Div, Mod}"
      using ag(1) by (cases op) (auto simp: op_class_defs known_binop_def)
    then show ?thesis
      using BinaryOp ok ag engine_ok_bitwise [OF ok] engine_ok_logical [OF ok] engine_ok_compare [OF ok]
        engine_ok_shift [OF ok] engine_ok_pow [OF ok] engine_ok_arith [OF ok]
      by cases blast+
  next
    case (TernaryOp c a b)
    then obtain nc na nb where "engine_ok ce ctx m c nc" "engine_ok ce ctx m a na" "engine_ok ce ctx m b nb"
      using IH [of c] IH [of a] IH [of b] less.prems by auto
    moreover have "\<not> has_impure_call a" "\<not> has_impure_call b"
      using TernaryOp less.prems agree_no_impure by auto
    ultimately show ?thesis unfolding TernaryOp using engine_ok_ternary by blast
  next
    case (Concatenation parts)
    have "\<exists>n. engine_ok ce ctx m p n" if "p \<in> set parts" for p
    proof (rule IH)
      show "size p < size e"
        using size_list_estimation' [OF that order_refl, of size] Concatenation by simp
      show "agree_expr ctx p" using that Concatenation less.prems by (simp add: list_all_iff)
    qed
    moreover have "parts \<noteq> []" using Concatenation less.prems by simp
    ultimately show ?thesis unfolding Concatenation using engine_ok_concat by blast
  next
    case (Replication c v)
    then obtain l where l: "c = Literal l" "index_literal l" "0 < v_val (compile_literal l)" "agree_expr ctx v"
      using less.prems by (auto split: option.splits)
    then obtain k where "engine_ok ce ctx m v k" using IH [of v] Replication by auto
    then show ?thesis unfolding Replication l(1) using engine_ok_replication [OF _ l(2,3)] by blast
  next
    case (RangeSelect t x y)
    then obtain a b where ab: "x = Literal a" "y = Literal b" "index_literal a" "index_literal b"
      "v_val (compile_literal b) \<le> v_val (compile_literal a)" "agree_expr ctx t" "select_base ctx t = 0"
      using less.prems by (auto split: option.splits)
    then obtain nt where "engine_ok ce ctx m t nt" using IH [of t] RangeSelect by auto
    moreover have "signals ctx nm \<noteq> None" if "t = Identifier nm [] r" for nm r
      using ab(6) that by (auto simp: identifier_name_def split: option.splits)
    ultimately show ?thesis
      using engine_ok_range_select [OF assms(1) _ ab(7,3,4,5)] RangeSelect ab(1,2) by blast
  next
    case (BitSelect t i)
    have i: "agree_expr ctx i" "\<not> expr_signed ctx i" using less.prems BitSelect by auto
    obtain ni where ni: "engine_ok ce ctx m i ni" using IH [of i] i(1) BitSelect by auto
    show ?thesis
    proof (cases "\<exists>nm h r d ew. t = Identifier nm h r \<and> memories ctx (identifier_name nm h) = Some (d, ew)")
      case True
      then obtain nm h r d ew where t: "t = Identifier nm h r" "memories ctx (identifier_name nm h) = Some (d, ew)"
        by blast
      then have ew: "0 < ew" "n = int ew" using less.prems n BitSelect by (auto simp: same_static_def)
      show ?thesis
        using engine_ok_memory_select [OF assms(1) ni i(2) t(2) ew(1)] n BitSelect t(1) ew(2) by auto
    next
      case False
      then have t: "agree_expr ctx t" "select_base ctx t = 0"
        using less.prems BitSelect by (cases t; auto split: option.splits)+
      obtain nt where nt: "engine_ok ce ctx m t nt" using IH [of t] t(1) BitSelect by auto
      have nomem: "memories ctx (identifier_name nm h) = None" if "t = Identifier nm h r" for nm h r
        using False that by (cases "memories ctx (identifier_name nm h)") auto
      then have nomap: "mem_map ce (identifier_name nm h) = None" if "t = Identifier nm h r" for nm h r
        using no_memory [OF assms(1)] that by blast
      have f: "eval ctx (BitSelect t i) = eval_bit_select ctx t i (eval ctx t) (eval ctx i)"
        "compile_expr ce (BitSelect t i) = noting (Inr 0) (compile_bit_select ce t (compile_expr ce t) (compile_expr ce i))"
        "expr_self_width ctx (BitSelect t i) = Inr 1" "\<not> expr_signed ctx (BitSelect t i)"
        by (intro bit_select_vector bit_select_vector_code nomem nomap; assumption)+
      have "same_static ce ctx (BitSelect t i) 1" using n f(3) BitSelect by (simp add: same_static_def)
      then show ?thesis
        using engine_ok_bit_select [OF assms(1) nt ni i(2) t(2) f(1,2) _ f(4)] BitSelect by blast
    qed
  next
    case (FunctionCall f args)
    then obtain a where a: "args = [a]" "f = ''$signed'' \<or> f = ''$unsigned''" "agree_expr ctx a"
      using less.prems agree_call by blast
    have "size a < size e" using FunctionCall a(1) by simp
    then have "size (strip_casts a) < size e" using size_strip_casts [of a] by linarith
    then obtain k where k: "engine_ok ce ctx m (strip_casts a) k"
      using IH agree_strip_casts(1) [OF a(3)] by blast
    have "k = n"
      using n engine_ok_static(2) [OF k] agree_strip_casts(2) [OF a(3)] FunctionCall a(1,2)
      by (auto simp: same_static_def)
    then show ?thesis using engine_ok_cast k a(2) n FunctionCall a(1) by blast
  qed (use less.prems in auto)
qed

end
