(* ===== verification/Engine_Agree.thy ===== *)
theory Engine_Agree
  imports Engine_Select
begin

text \<open>
  The end-to-end statement about the two engines: an assignment compiled by the VM compiler and
  run by the interpreter stores the value that the reference evaluator computes.
\<close>

section \<open>An assignment on the VM\<close>

definition empty_comp :: comp_state where
  "empty_comp = \<lparr>cs_prog = [], cs_pool = [], cs_exceeds = False\<rparr>"

text \<open>\<open>sig = e;\<close> as a process: the code of the right-hand side, the store, the end of the process.\<close>

definition assign_code :: "comp_state \<Rightarrow> nat \<Rightarrow> program" where
  "assign_code st sid = cs_prog st @ [instr STORE_SIG (int sid), instr PROC_END 0]"

lemma same_state_pool [simp]: "same_state ce ctx (m\<lparr>const_pool := p\<rparr>) \<longleftrightarrow> same_state ce ctx m"
  by (simp add: same_state_def same_signal_def same_memory_def valid_sig_def sig_value_def
      split: option.split prod.split)

text \<open>C1: The VM engine and the reference engine agree. For a machine and an evaluation context that
  hold the same signals and memories, and an expression of the fragment \<open>agree_expr\<close>, the compiler
  produces code at any context width that is zero or at least the self-determined width, and running
  that code with a store leaves in the signal exactly the value that the tree-walking evaluator
  returns for the expression.\<close>

theorem vm_matches_evaluator:
  assumes "same_state ce ctx m" "agree_expr ctx e" "valid_sig m (int sid)"
    and "expr_self_width ctx e = Inr n" "w = 0 \<or> n \<le> w"
  shows "\<exists>v st. eval ctx e w None = Inr v \<and> compile_expr ce e w None empty_comp = Inr st \<and>
     execute (length (assign_code st sid)) (assign_code st sid) (m\<lparr>const_pool := cs_pool st\<rparr>)
       = Some (Halted (store_sig (m\<lparr>const_pool := cs_pool st\<rparr>) sid v))"
proof -
  have ok: "\<exists>k. engine_ok ce ctx (m\<lparr>const_pool := p\<rparr>) e k" for p
    using engines_agree_expr [of ce ctx "m\<lparr>const_pool := p\<rparr>" e] assms(1,2) by simp
  have at: "\<exists>v. eval ctx e w None = Inr v \<and> compiles_to (m\<lparr>const_pool := p\<rparr>) (compile_expr ce e) w None v" for p
  proof -
    obtain k where k: "engine_ok ce ctx (m\<lparr>const_pool := p\<rparr>) e k" using ok by blast
    have "in_context k w None"
      using engine_ok_static(2) [OF k] assms(4,5) by (auto simp: in_context_def)
    then show ?thesis by (rule engine_okD [OF k]) blast
  qed
  obtain v where v: "eval ctx e w None = Inr v" using at by blast
  obtain st where st: "compile_expr ce e w None empty_comp = Inr st"
    using at [of undefined] by (auto simp: compiles_to_def)
  let ?m = "m\<lparr>const_pool := cs_pool st\<rparr>" and ?code = "cs_prog st"
  have "compiles_to ?m (compile_expr ce e) w None v" using at [of "cs_pool st"] v by auto
  from compilesE [OF this, of empty_comp] have "runs ?m empty_comp st s (v # s)" for s
    using st by auto
  then have "exec_list ?m ?code [] = Inr [v]"
    by (simp add: runs_def code_between_def empty_comp_def)
  from vm_run_exec_list [OF this, where pre = "[]" and fuel = 2 and k = 0
      and post = "[instr STORE_SIG (int sid), instr PROC_END 0]"]
  have "execute (length (assign_code st sid)) (assign_code st sid) ?m
      = vm_run 2 (assign_code st sid) \<lparr>c_pc = int (length ?code), c_stack = [v], c_iters = 0, c_mach = ?m\<rparr>"
    by (simp add: execute_def vm_init_def assign_code_def)
  also have "\<dots> = Some (Halted (store_sig ?m sid v))"
  proof -
    have s: "valid_sig ?m (int sid)" using assms(3) by (simp add: valid_sig_def)
    have v0: "value_op ?m (instr STORE_SIG (int sid)) [v] = None"
      by (simp add: value_op_def instr_def binary_fun_def unary_fun_def ternary_fun_def)
    let ?c = "\<lambda>k stk mm. \<lparr>c_pc = int (length ?code) + k, c_stack = stk, c_iters = 0, c_mach = mm\<rparr>"
    have "nat (int (length ?code) + 1) = Suc (length ?code)" by simp
    then have fetch: "vm_step (assign_code st sid) (?c 0 [v] ?m) = exec_instr (instr STORE_SIG (int sid)) (?c 0 [v] ?m)"
      "vm_step (assign_code st sid) (?c 1 [] mm) = exec_instr (instr PROC_END 0) (?c 1 [] mm)" for mm
      by (simp_all add: vm_step_def assign_code_def nth_append)
    have "exec_instr (instr STORE_SIG (int sid)) (?c 0 [v] ?m) = Running (?c 1 [] (store_sig ?m sid v))"
      using s v0 by (simp add: exec_instr_def instr_def store_op_def Let_def)
    moreover have "exec_instr (instr PROC_END 0) (?c 1 [] mm) = Halted mm" for mm
      by (simp add: exec_instr_def instr_def Let_def)
    ultimately show ?thesis using fetch by (simp add: numeral_2_eq_2)
  qed
  finally show ?thesis using v st by blast
qed

section \<open>A concrete module\<close>

text \<open>An 8-bit signal, a signed 4-bit signal with an unknown bit, and a memory of two bytes.\<close>

definition demo_ctx :: eval_ctx where
  "demo_ctx = \<lparr>signals = (\<lambda>s. if s = ''a'' then Some (known 200 8) else if s = ''b'' then Some (mk_value 5 4 2) else None),
     signal_signed = (\<lambda>s. s = ''b''), signal_bases = (\<lambda>s. 0),
     memories = (\<lambda>s. if s = ''mem'' then Some ([known 1 8, known 77 8], 8) else None),
     memory_bases = (\<lambda>s. 0), ctx_time = 0\<rparr>"

definition demo_env :: comp_env where
  "demo_env = \<lparr>signal_map = (\<lambda>s. if s = ''a'' then Some 0 else if s = ''b'' then Some 1 else None),
     ce_sig_width = [8, 4], ce_sig_signed = [False, True],
     mem_map = (\<lambda>s. if s = ''mem'' then Some 0 else None), ce_mem_info = [(8, 2, 0)],
     ce_signal_bases = (\<lambda>s. 0), ce_memory_bases = (\<lambda>s. 0), signed_memories = [],
     param_env = (\<lambda>s. None), ce_annotation = (\<lambda>s. None), ce_params = []\<rparr>"

definition demo_machine :: machine where
  "demo_machine = \<lparr>sig_val = [200, 5], sig_mask = [0, 2], sig_width = [8, 4], const_pool = [],
     nba_queue = [], nba_mem_queue = [], display_output = [], m_time = 0, dirty = {},
     mem_val = [1, 77], mem_mask = [0, 0], mem_info = [(8, 2, 0)], active_monitor_id = 0, loop_limit = 100\<rparr>"

lemma demo_related: "same_state demo_env demo_ctx demo_machine"
proof -
  have "map f [0..<2] = [f 0, f 1]" for f :: "nat \<Rightarrow> val4" by (simp add: numeral_2_eq_2)
  then show ?thesis
    by (auto simp: same_state_def same_signal_def same_memory_def demo_env_def demo_ctx_def demo_machine_def
        valid_sig_def sig_value_def known_def)
qed

definition demo_expr :: expr where
  "demo_expr = TernaryOp (BinaryOp Gt (Identifier ''a'' [] None) (Literal (int_literal 3)))
     (BinaryOp Add (Identifier ''b'' [] None) (BitSelect (Identifier ''mem'' [] None) (Identifier ''a'' [] None)))
     (Concatenation [Identifier ''a'' [] None, UnaryOp UInv (Identifier ''b'' [] None)])"

theorem vm_matches_evaluator_witness:
  "\<exists>v st. eval demo_ctx demo_expr 16 None = Inr v \<and> compile_expr demo_env demo_expr 16 None empty_comp = Inr st \<and>
     execute (length (assign_code st 0)) (assign_code st 0) (demo_machine\<lparr>const_pool := cs_pool st\<rparr>)
       = Some (Halted (store_sig (demo_machine\<lparr>const_pool := cs_pool st\<rparr>) 0 v))"
proof (rule vm_matches_evaluator [OF demo_related])
  show "agree_expr demo_ctx demo_expr" by code_simp
  show "valid_sig demo_machine (int 0)" by code_simp
  show "expr_self_width demo_ctx demo_expr = Inr 12" by code_simp
  show "(16::int) = 0 \<or> 12 \<le> (16::int)" by simp
qed

end
