(* ===== verification/Engine_Differences.thy ===== *)
theory Engine_Differences
  imports Engine_Agree
begin

text \<open>
  Where the two engines differ. The fragment \<open>agree_expr\<close> leaves out selects with a signed index: the
  reference evaluator reads the index as a signed number, the VM as an unsigned one. Likewise the
  two engines size an unsized signed literal differently when it carries no source text.
\<close>

section \<open>Signed indices\<close>

text \<open>\<open>reg [5:-2] m; reg signed [3:0] s; ... m[s]\<close> with \<open>s = -1\<close>.\<close>

definition signed_index_ctx :: eval_ctx where
  "signed_index_ctx = \<lparr>signals = (\<lambda>s. if s = ''m'' then Some (known 2 8) else if s = ''s'' then Some (known 15 4) else None),
     signal_signed = (\<lambda>s. s = ''s''), signal_bases = (\<lambda>s. if s = ''m'' then - 2 else 0),
     memories = (\<lambda>s. None), memory_bases = (\<lambda>s. 0), ctx_time = 0\<rparr>"

definition signed_index_env :: comp_env where
  "signed_index_env = \<lparr>signal_map = (\<lambda>s. if s = ''m'' then Some 0 else if s = ''s'' then Some 1 else None),
     ce_sig_width = [8, 4], ce_sig_signed = [False, True], mem_map = (\<lambda>s. None), ce_mem_info = [],
     ce_signal_bases = (\<lambda>s. if s = ''m'' then - 2 else 0), ce_memory_bases = (\<lambda>s. 0), signed_memories = [],
     param_env = (\<lambda>s. None), ce_annotation = (\<lambda>s. None), ce_params = []\<rparr>"

definition signed_index_machine :: machine where
  "signed_index_machine = demo_machine\<lparr>sig_val := [2, 15], sig_mask := [0, 0], sig_width := [8, 4],
     mem_val := [], mem_mask := [], mem_info := []\<rparr>"

lemma signed_index_related: "same_state signed_index_env signed_index_ctx signed_index_machine"
  by (auto simp: same_state_def same_signal_def same_memory_def signed_index_env_def signed_index_ctx_def
      signed_index_machine_def demo_machine_def valid_sig_def sig_value_def known_def)

definition signed_index_expr :: expr where
  "signed_index_expr = BitSelect (Identifier ''m'' [] None) (Identifier ''s'' [] None)"

text \<open>The engines disagree on a signed select index: on related states the reference evaluator
  reads bit \<open>-1\<close> of \<open>reg [5:-2] m\<close>, and the code that the VM compiler emits reads out of range and pushes
  an unknown bit.\<close>

theorem signed_index_differs:
  "same_state signed_index_env signed_index_ctx signed_index_machine
   \<and> eval signed_index_ctx signed_index_expr 0 None = Inr (known 1 1)
   \<and> (\<exists>st. compile_expr signed_index_env signed_index_expr 0 None empty_comp = Inr st
        \<and> exec_list (signed_index_machine\<lparr>const_pool := cs_pool st\<rparr>) (cs_prog st) [] = Inr [v_x 1])"
proof (intro conjI signed_index_related)
  show "eval signed_index_ctx signed_index_expr 0 None = Inr (known 1 1)" by code_simp
  let ?r = "compile_expr signed_index_env signed_index_expr 0 None empty_comp"
  have "case ?r of Inr st \<Rightarrow>
      exec_list (signed_index_machine\<lparr>const_pool := cs_pool st\<rparr>) (cs_prog st) [] = Inr [v_x 1] | Inl e \<Rightarrow> False"
    by code_simp
  then show "\<exists>st. ?r = Inr st
      \<and> exec_list (signed_index_machine\<lparr>const_pool := cs_pool st\<rparr>) (cs_prog st) [] = Inr [v_x 1]"
    by (cases ?r) auto
qed

section \<open>Unsized literals\<close>

text \<open>The engines size a wide unsized literal differently when it carries no source text: the
  evaluator gives a signed literal above 31 bits one bit more than its magnitude, the VM cuts it to 32.\<close>

theorem wide_literal_differs:
  "eval_literal (int_literal (2 ^ 40) \<lparr>lit_signed := True\<rparr>) = Inr (known (2 ^ 40) 42)
   \<and> compile_literal (int_literal (2 ^ 40) \<lparr>lit_signed := True\<rparr>) = known 0 32"
  by code_simp

end
