(* ===== verification/Stack_Depth.thy ===== *)
theory Stack_Depth
  imports Interpreter "HOL-Library.While_Combinator"
begin

text \<open>
  The stack-depth analysis \<open>max_stack_depth\<close> of \<open>sim/vm/opcodes.py\<close> and what it is for: no run of
  the interpreter needs more stack slots than it reports. The first section measures every opcode
  against the table \<open>_STACK_EFFECT\<close>, the second is the analysis itself, with its termination.
\<close>

section \<open>The effect of one instruction\<close>

definition after :: "instr \<Rightarrow> int \<Rightarrow> int" where
  "after i depth = (case i of (op, arg1, _) \<Rightarrow>
     max (depth - int (fst (stack_effect op arg1))) 0 + int (snd (stack_effect op arg1)))"

definition successors :: "program \<Rightarrow> int \<Rightarrow> int set" where
  "successors prog pc = (case prog ! nat pc of (op, arg1, _) \<Rightarrow>
     (if op = PROC_END \<or> op = SYS_FINISH then {}
      else if op = JUMP then {arg1}
      else if op = JUMP_IF_ZERO \<or> op = JUMP_IF_NONZERO then {arg1, pc + 1}
      else {pc + 1}))"

lemma after_mono: "a \<le> b \<Longrightarrow> after i a \<le> after i b"
  by (auto simp: after_def split: prod.split)

lemma after_nonneg: "0 \<le> after i a"
  by (auto simp: after_def split: prod.split)

lemma fun_effects:
  "binary_fun op = Some f \<Longrightarrow> stack_effect op a = (2, 1)"
  "unary_fun op a = Some g \<Longrightarrow> stack_effect op a = (1, 1)"
  "ternary_fun op = Some h \<Longrightarrow> stack_effect op a = (3, 1)"
  by (auto simp: binary_fun_def unary_fun_def ternary_fun_def stack_effect_def split: if_splits)

definition direct_ops :: "opcode set" where
  "direct_ops = {LOAD_SIG, LOAD_CONST, LOAD_MEM, SYS_TIME, UPLUS, NOP, DUP, POP, CONCAT}"

definition stores :: "opcode set" where
  "stores = {STORE_SIG, NBA_SIG, STORE_BIT, NBA_BIT, STORE_RANGE, NBA_RANGE, STORE_MEM, NBA_MEM,
     STORE_MEM_RANGE, NBA_MEM_RANGE, SYS_DISPLAY, SYS_MONITOR}"

lemma value_op_computed:
  assumes "op \<notin> direct_ops"
  shows "value_op m (op, a1, a2) st = (case binary_fun op of
      Some f \<Rightarrow> Some (case st of b # a # st \<Rightarrow> rmap (\<lambda>v. v # st) (f a b) | _ \<Rightarrow> Inl IndexError)
    | None \<Rightarrow> (case unary_fun op a1 of
        Some f \<Rightarrow> Some (case st of a # st \<Rightarrow> rmap (\<lambda>v. v # st) (f a) | _ \<Rightarrow> Inl IndexError)
      | None \<Rightarrow> (case ternary_fun op of
          Some f \<Rightarrow> Some (case st of c # b # a # st \<Rightarrow> Inr (f a b c # st) | _ \<Rightarrow> Inl IndexError)
        | None \<Rightarrow> None)))"
  using assms unfolding direct_ops_def value_op_def prod.case by simp

lemma value_op_direct:
  "value_op m (LOAD_SIG, a1, a2) st = Some (if valid_sig m a1 then Inr (sig_value m (nat a1) # st) else Inl IndexError)"
  "value_op m (LOAD_CONST, a1, a2) st = Some (if 0 \<le> a1 \<and> nat a1 < length (const_pool m)
     then Inr (const_pool m ! nat a1 # st) else Inl IndexError)"
  "value_op m (LOAD_MEM, a1, a2) st = Some (case st of idx # st \<Rightarrow> Inr (load_mem m a1 idx # st) | [] \<Rightarrow> Inl IndexError)"
  "value_op m (SYS_TIME, a1, a2) st = Some (Inr (known (m_time m) 64 # st))"
  "value_op m (UPLUS, a1, a2) st = Some (Inr st)"
  "value_op m (NOP, a1, a2) st = Some (Inr st)"
  "value_op m (DUP, a1, a2) st = Some (case st of v # st \<Rightarrow> Inr (v # v # st) | [] \<Rightarrow> Inl IndexError)"
  "value_op m (POP, a1, a2) st = Some (Inr (tl st))"
  "value_op m (CONCAT, a1, a2) st = Some (if length st < nat a1 then Inl IndexError
     else Inr (vm_concat (rev (take (nat a1) st)) # drop (nat a1) st))"
  by (simp_all add: value_op_def)

lemma direct_effects:
  "stack_effect LOAD_SIG a1 = (0, 1)" "stack_effect LOAD_CONST a1 = (0, 1)" "stack_effect LOAD_MEM a1 = (1, 1)"
  "stack_effect SYS_TIME a1 = (0, 1)" "stack_effect UPLUS a1 = (1, 1)" "stack_effect NOP a1 = (0, 0)"
  "stack_effect DUP a1 = (0, 1)" "stack_effect POP a1 = (1, 0)" "stack_effect CONCAT a1 = (nat a1, 1)"
  by (simp_all add: stack_effect_def)

lemma control_effects:
  "stack_effect JUMP a1 = (0, 0)" "stack_effect JUMP_IF_ZERO a1 = (1, 0)" "stack_effect JUMP_IF_NONZERO a1 = (1, 0)"
  by (simp_all add: stack_effect_def)

lemma store_effects:
  "stack_effect STORE_SIG a1 = (1, 0)" "stack_effect NBA_SIG a1 = (1, 0)" "stack_effect STORE_BIT a1 = (2, 0)"
  "stack_effect NBA_BIT a1 = (2, 0)" "stack_effect STORE_RANGE a1 = (3, 0)" "stack_effect NBA_RANGE a1 = (3, 0)"
  "stack_effect STORE_MEM a1 = (2, 0)" "stack_effect NBA_MEM a1 = (2, 0)" "stack_effect STORE_MEM_RANGE a1 = (4, 0)"
  "stack_effect NBA_MEM_RANGE a1 = (4, 0)" "stack_effect SYS_DISPLAY a1 = (nat (a1 AND 0xFFFF), 0)"
  "stack_effect SYS_MONITOR a1 = (nat (a1 AND 0xFFFF), 0)"
  by (simp_all add: stack_effect_def)

text \<open>How many operands a store takes off the stack.\<close>

lemma store_op_takes:
  "store_op m (STORE_SIG, a1, a2) st = Some (Inr (m', st')) \<Longrightarrow> \<exists>v. st = v # st'"
  "store_op m (NBA_SIG, a1, a2) st = Some (Inr (m', st')) \<Longrightarrow> \<exists>v. st = v # st'"
  "store_op m (STORE_BIT, a1, a2) st = Some (Inr (m', st')) \<Longrightarrow> \<exists>v w. st = v # w # st'"
  "store_op m (NBA_BIT, a1, a2) st = Some (Inr (m', st')) \<Longrightarrow> \<exists>v w. st = v # w # st'"
  "store_op m (STORE_RANGE, a1, a2) st = Some (Inr (m', st')) \<Longrightarrow> \<exists>v w x. st = v # w # x # st'"
  "store_op m (NBA_RANGE, a1, a2) st = Some (Inr (m', st')) \<Longrightarrow> \<exists>v w x. st = v # w # x # st'"
  "store_op m (STORE_MEM, a1, a2) st = Some (Inr (m', st')) \<Longrightarrow> \<exists>v w. st = v # w # st'"
  "store_op m (NBA_MEM, a1, a2) st = Some (Inr (m', st')) \<Longrightarrow> \<exists>v w. st = v # w # st'"
  "store_op m (STORE_MEM_RANGE, a1, a2) st = Some (Inr (m', st')) \<Longrightarrow> \<exists>v w x y. st = v # w # x # y # st'"
  "store_op m (NBA_MEM_RANGE, a1, a2) st = Some (Inr (m', st')) \<Longrightarrow> \<exists>v w x y. st = v # w # x # y # st'"
  "store_op m (SYS_DISPLAY, a1, a2) st = Some (Inr (m', st')) \<Longrightarrow> st' = drop (nat (a1 AND 0xFFFF)) st"
  "store_op m (SYS_MONITOR, a1, a2) st = Some (Inr (m', st')) \<Longrightarrow> st' = drop (nat (a1 AND 0xFFFF)) st"
  by (simp_all add: store_op_def Let_def rmap_eq_Inr_iff split: list.splits if_splits)

lemma value_op_effect:
  assumes "value_op m (op, a1, a2) st = Some (Inr st')"
  shows "int (length st') \<le> after (op, a1, a2) (int (length st))"
proof (cases "op \<in> direct_ops")
  case True
  then show ?thesis using assms unfolding direct_ops_def
    by (elim insertE emptyE) (auto simp: value_op_direct after_def direct_effects simp del: One_nat_def split: if_splits list.splits)
next
  case False
  note c = assms [unfolded value_op_computed [OF False]]
  show ?thesis
  proof (cases "binary_fun op")
    case (Some f)
    then show ?thesis using c fun_effects(1) [OF Some, of a1]
      by (auto simp: after_def rmap_eq_Inr_iff split: list.splits)
  next
    case None
    note b = None
    show ?thesis
    proof (cases "unary_fun op a1")
      case (Some f)
      then show ?thesis using c b fun_effects(2) [OF Some]
        by (auto simp: after_def rmap_eq_Inr_iff split: list.splits)
    next
      case None
      then obtain f where f: "ternary_fun op = Some f" using c b by (cases "ternary_fun op") auto
      then show ?thesis using c b None fun_effects(3) [OF f, of a1]
        by (auto simp: after_def split: list.splits)
    qed
  qed
qed

lemma store_op_none: "op \<notin> stores \<Longrightarrow> store_op m (op, a1, a2) st = None"
  unfolding stores_def store_op_def Let_def prod.case by simp

lemma store_op_some: "op \<in> stores \<Longrightarrow> store_op m (op, a1, a2) st \<noteq> None"
  unfolding stores_def by (elim insertE emptyE) (simp_all add: store_op_def Let_def)

lemma store_op_effect:
  assumes "store_op m (op, a1, a2) st = Some (Inr (m', st'))"
  shows "int (length st') \<le> after (op, a1, a2) (int (length st))"
proof -
  have "op \<in> stores" using assms store_op_none by fastforce
  then show ?thesis using assms(1) unfolding stores_def
    by (elim insertE emptyE) (auto simp: after_def store_effects simp del: One_nat_def dest!: store_op_takes)
qed

definition binary_ops :: "opcode set" where
  "binary_ops = {ADD, SUB, MUL, DIV, MOD, POW, SDIV, SMOD, SPOW, BIT_AND, BIT_OR, BIT_XOR,
     BIT_XNOR, SHL, SHR, ASHL, ASHR, CMP_EQ, CMP_NE, CMP_LT, CMP_LE, CMP_GT, CMP_GE, CMP_CASE_EQ,
     CMP_CASE_NE, CMP_CASEX, CMP_CASEZ, CMP_SLT, CMP_SLE, CMP_SGT, CMP_SGE, LOG_AND, LOG_OR,
     BIT_SELECT, REPLICATE}"

definition unary_ops :: "opcode set" where
  "unary_ops = {RESIZE, SIGN_EXT, STREAM_REVERSE, CLEAR_MASK, BIT_NOT, LOG_NOT, NEG,
     RED_AND, RED_OR, RED_XOR, RED_NAND, RED_NOR, RED_XNOR, FUNC_CLOG2}"

definition ternary_ops :: "opcode set" where
  "ternary_ops = {RANGE_SELECT, PART_SEL_UP, PART_SEL_DOWN, TERNARY}"

lemma fun_total:
  "op \<in> binary_ops \<Longrightarrow> \<exists>f. binary_fun op = Some f"
  "op \<in> unary_ops \<Longrightarrow> \<exists>f. unary_fun op a1 = Some f"
  "op \<in> ternary_ops \<Longrightarrow> \<exists>f. ternary_fun op = Some f"
  unfolding binary_ops_def unary_ops_def ternary_ops_def
  by (elim insertE emptyE; simp add: binary_fun_def unary_fun_def ternary_fun_def)+

lemma other_effect:
  assumes "value_op m (op, a1, a2) st = None" "store_op m (op, a1, a2) st = None"
    "op \<notin> {JUMP, JUMP_IF_ZERO, JUMP_IF_NONZERO, SYS_FINISH, PROC_END}"
    "op \<notin> {FUNC_REAL1, FUNC_REAL2, FUNC_RANDOM, SYS_READMEM, SYS_FOPEN, SYS_FCLOSE, SYS_FDISPLAY, SYS_FWRITE, SYS_FEOF}"
  shows "stack_effect op a1 = (0, 1)"
proof -
  have d: "op \<notin> direct_ops"
    using assms(1) unfolding direct_ops_def by (auto simp: value_op_direct simp del: One_nat_def)
  have s: "op \<notin> stores" using assms(2) store_op_some by blast
  have f: "binary_fun op = None" "unary_fun op a1 = None" "ternary_fun op = None"
    using assms(1) unfolding value_op_computed [OF d] by (auto split: option.splits)
  have "op \<notin> binary_ops" "op \<notin> unary_ops" "op \<notin> ternary_ops"
    using f fun_total(1) fun_total(2) [of op a1] fun_total(3) by fastforce+
  then show ?thesis
    using d s assms(3,4) unfolding direct_ops_def stores_def binary_ops_def unary_ops_def ternary_ops_def stack_effect_def by simp
qed

lemma exec_instr_plain:
  assumes "op \<notin> {JUMP, JUMP_IF_ZERO, JUMP_IF_NONZERO, SYS_FINISH, PROC_END}"
  shows "exec_instr (op, a1, a2) c = (case value_op (c_mach c) (op, a1, a2) (c_stack c) of
      Some r \<Rightarrow> (case r of Inr st \<Rightarrow> Running (c\<lparr>c_pc := c_pc c + 1, c_stack := st\<rparr>) | Inl e \<Rightarrow> Raised e (c_mach c))
    | None \<Rightarrow> (case store_op (c_mach c) (op, a1, a2) (c_stack c) of
        Some r \<Rightarrow> (case r of Inr (m', st) \<Rightarrow> Running (c\<lparr>c_pc := c_pc c + 1, c_stack := st, c_mach := m'\<rparr>)
                  | Inl e \<Rightarrow> Raised e (c_mach c))
      | None \<Rightarrow>
          (if op \<in> {FUNC_REAL1, FUNC_REAL2, FUNC_RANDOM, SYS_READMEM, SYS_FOPEN, SYS_FCLOSE,
                    SYS_FDISPLAY, SYS_FWRITE, SYS_FEOF}
           then Raised Unmodelled (c_mach c)
           else Running (c\<lparr>c_pc := c_pc c + 1\<rparr>))))"
  using assms unfolding exec_instr_def Let_def prod.case by simp

lemma exec_instr_effect:
  assumes "exec_instr i c = Running c'" "i = prog ! nat (c_pc c)"
  shows "int (length (c_stack c')) \<le> after i (int (length (c_stack c))) \<and> c_pc c' \<in> successors prog (c_pc c)"
proof -
  obtain op a1 a2 where i: "i = (op, a1, a2)" by (cases i)
  have p: "prog ! nat (c_pc c) = (op, a1, a2)" using assms(2) i by simp
  consider "op = JUMP" | "op = JUMP_IF_ZERO \<or> op = JUMP_IF_NONZERO" | "op = SYS_FINISH \<or> op = PROC_END"
    | "op \<notin> {JUMP, JUMP_IF_ZERO, JUMP_IF_NONZERO, SYS_FINISH, PROC_END}" by blast
  then show ?thesis
  proof cases
    case 1
    then show ?thesis using assms(1)
      by (auto simp: i p exec_instr_def Let_def successors_def after_def control_effects split: if_splits)
  next
    case 2
    then show ?thesis using assms(1)
      by (elim disjE) (auto simp: i p exec_instr_def Let_def successors_def after_def control_effects
          split: if_splits list.splits)
  next
    case 3
    then show ?thesis using assms(1) by (auto simp: i exec_instr_def Let_def)
  next
    case 4
    then have s: "successors prog (c_pc c) = {c_pc c + 1}" by (simp add: successors_def p)
    note e = exec_instr_plain [OF 4, of a1 a2 c]
    show ?thesis
    proof (cases "value_op (c_mach c) (op, a1, a2) (c_stack c)")
      case (Some r)
      have x: "(case r of Inr st \<Rightarrow> Running (c\<lparr>c_pc := c_pc c + 1, c_stack := st\<rparr>) | Inl e \<Rightarrow> Raised e (c_mach c))
          = Running c'"
        using assms(1) unfolding i e Some option.case .
      then obtain st where st: "r = Inr st" "c' = c\<lparr>c_pc := c_pc c + 1, c_stack := st\<rparr>" by (cases r) simp_all
      show ?thesis using value_op_effect [OF Some [unfolded st(1)]] s unfolding st(2) i by simp
    next
      case None
      note v = None
      show ?thesis
      proof (cases "store_op (c_mach c) (op, a1, a2) (c_stack c)")
        case (Some r)
        have x: "(case r of Inr (m', st) \<Rightarrow> Running (c\<lparr>c_pc := c_pc c + 1, c_stack := st, c_mach := m'\<rparr>)
                  | Inl e \<Rightarrow> Raised e (c_mach c)) = Running c'"
          using assms(1) unfolding i e v Some option.case .
        then obtain m' st where st: "r = Inr (m', st)" "c' = c\<lparr>c_pc := c_pc c + 1, c_stack := st, c_mach := m'\<rparr>"
          by (cases r) auto
        show ?thesis using store_op_effect [OF Some [unfolded st(1)]] s unfolding st(2) i by simp
      next
        case None
        have u: "op \<notin> {FUNC_REAL1, FUNC_REAL2, FUNC_RANDOM, SYS_READMEM, SYS_FOPEN, SYS_FCLOSE,
                    SYS_FDISPLAY, SYS_FWRITE, SYS_FEOF}"
          using assms(1) unfolding i e v None option.case by (simp split: if_splits)
        have "stack_effect op a1 = (0, 1)" by (rule other_effect [OF v None 4 u])
        moreover have "c' = c\<lparr>c_pc := c_pc c + 1\<rparr>"
          using assms(1) u unfolding i e v None option.case by simp
        ultimately show ?thesis using s by (simp add: i after_def)
      qed
    qed
  qed
qed

section \<open>The analysis\<close>

text \<open>
  \<open>max_stack_depth\<close>: \<open>depth_step\<close> until it returns. The loop is \<open>while_option\<close>, so that not
  returning would be \<open>None\<close>.
\<close>

definition depth_init :: "program \<Rightarrow> depth_state" where
  "depth_init prog =
     \<lparr>d_work = [(0, 0)], d_path = None, d_at = replicate (length prog + 1) (-1), d_worst = 0\<rparr>"

definition depth_next :: "program \<Rightarrow> int + depth_state \<Rightarrow> int + depth_state" where
  "depth_next prog r = (case r of Inl w \<Rightarrow> Inl w | Inr s \<Rightarrow> depth_step prog s)"

definition max_stack_depth :: "program \<Rightarrow> int option" where
  "max_stack_depth prog =
     map_option projl (while_option (\<lambda>r. \<not> isl r) (depth_next prog) (Inr (depth_init prog)))"

text \<open>Jumps have non-negative targets.\<close>

definition targets_ok :: "program \<Rightarrow> bool" where
  "targets_ok prog \<longleftrightarrow>
     (\<forall>(op, arg1, _) \<in> set prog. op \<in> {JUMP, JUMP_IF_ZERO, JUMP_IF_NONZERO} \<longrightarrow> 0 \<le> arg1)"

lemma successor_nonneg:
  assumes "targets_ok prog" "0 \<le> pc" "pc < int (length prog)" "pc' \<in> successors prog pc"
  shows "0 \<le> pc'"
proof -
  obtain op a1 a2 where p: "prog ! nat pc = (op, a1, a2)" by (cases "prog ! nat pc")
  have "(op, a1, a2) \<in> set prog" using assms(2,3) p by (metis nat_less_iff nth_mem)
  then have "op \<in> {JUMP, JUMP_IF_ZERO, JUMP_IF_NONZERO} \<longrightarrow> 0 \<le> a1"
    using assms(1) by (auto simp: targets_ok_def)
  then show ?thesis
    using assms(2,4) p by (auto simp: successors_def split: if_splits)
qed

text \<open>What is still to be followed, and the invariant of the loop.\<close>

definition pending :: "depth_state \<Rightarrow> (int \<times> int) set" where
  "pending s = set (d_work s) \<union> set_option (d_path s)"

definition covered :: "program \<Rightarrow> depth_state \<Rightarrow> int \<Rightarrow> int \<Rightarrow> bool" where
  "covered prog s pc d \<longleftrightarrow>
     int (length prog) \<le> pc \<or> d \<le> d_at s ! nat pc \<or> (\<exists>d'\<ge>d. (pc, d') \<in> pending s)"

definition followed :: "program \<Rightarrow> depth_state \<Rightarrow> nat \<Rightarrow> bool" where
  "followed prog s i \<longleftrightarrow> (let d' = after (prog ! i) (d_at s ! i)
     in d' \<le> d_worst s \<and> (\<forall>pc' \<in> successors prog (int i). covered prog s pc' d'))"

definition depth_inv :: "program \<Rightarrow> depth_state \<Rightarrow> bool" where
  "depth_inv prog s \<longleftrightarrow> length (d_at s) = length prog + 1
     \<and> 0 \<le> d_worst s \<and> d_worst s \<le> int (length prog)
     \<and> (\<forall>(pc, d) \<in> pending s. 0 \<le> pc \<and> 0 \<le> d \<and> d \<le> d_worst s)
     \<and> (\<forall>i < length prog. d_at s ! i \<le> int (length prog))
     \<and> covered prog s 0 0
     \<and> (\<forall>i < length prog. 0 \<le> d_at s ! i \<longrightarrow> followed prog s i)"

lemma depth_path_step_Inr:
  assumes "depth_path_step prog pc d s = Inr s'"
  defines "d' \<equiv> after (prog ! nat pc) d"
  shows "d_at s' = (d_at s)[nat pc := d]" "d_worst s' = max (d_worst s) d'" "d_worst s' \<le> int (length prog)"
    "pending s' = set (d_work s) \<union> (\<lambda>pc'. (pc', d')) ` successors prog pc"
    "length (d_work s') \<le> Suc (length (d_work s))"
proof -
  obtain op a1 a2 where p: "prog ! nat pc = (op, a1, a2)" by (cases "prog ! nat pc")
  note e = assms(1) [unfolded depth_path_step_def p prod.case Let_def]
  have d': "d' = max (d - int (fst (stack_effect op a1))) 0 + int (snd (stack_effect op a1))"
    by (simp add: d'_def p after_def)
  show "d_at s' = (d_at s)[nat pc := d]" "d_worst s' = max (d_worst s) d'" "d_worst s' \<le> int (length prog)"
    "length (d_work s') \<le> Suc (length (d_work s))"
    using e unfolding d' [symmetric] by (auto split: if_splits)
  show "pending s' = set (d_work s) \<union> (\<lambda>pc'. (pc', d')) ` successors prog pc"
    using e unfolding d' [symmetric] by (auto simp: pending_def successors_def p split: if_splits)
qed

lemma depth_path_step_Inl:
  "depth_path_step prog pc d s = Inl w \<Longrightarrow> w = int (length prog) + 1"
  by (auto simp: depth_path_step_def Let_def split: prod.splits if_splits)

lemma depth_inv_init: "depth_inv prog (depth_init prog)"
proof -
  have "d_at (depth_init prog) ! i = - 1" if "i < length prog" for i
    using nth_replicate [of i "length prog + 1" "- 1 :: int"] that by (simp add: depth_init_def)
  then show ?thesis
    by (auto simp: depth_inv_def pending_def covered_def) (auto simp: depth_init_def)
qed

lemma covered_drop:
  assumes "pending s' = pending s - {(pc, d)} \<or> pending s = insert (pc, d) (pending s')" "d_at s' = d_at s"
    "int (length prog) \<le> pc \<or> d \<le> d_at s ! nat pc" "covered prog s pc' e"
  shows "covered prog s' pc' e"
  using assms unfolding covered_def by force

lemma depth_inv_step:
  assumes inv: "depth_inv prog s" and t: "targets_ok prog" and step: "depth_step prog s = Inr s'"
  shows "depth_inv prog s'"
proof (cases "d_path s")
  case None
  then obtain p rest where w: "d_work s = p # rest" "s' = s\<lparr>d_path := Some p, d_work := rest\<rparr>"
    using step by (auto simp: depth_step_def split: list.splits)
  have "pending s' = pending s" using None w by (auto simp: pending_def)
  then show ?thesis
    using inv w(2) by (simp add: depth_inv_def covered_def followed_def)
next
  case (Some q)
  then obtain pc d where q: "d_path s = Some (pc, d)" by (cases q) auto
  have pd: "0 \<le> pc" "0 \<le> d" "d \<le> d_worst s"
    using inv q by (auto simp: depth_inv_def pending_def)
  show ?thesis
  proof (cases "pc < int (length prog) \<and> d > d_at s ! nat pc")
    case False
    then have s': "s' = s\<lparr>d_path := None\<rparr>" using step q by (auto simp: depth_step_def split: if_splits)
    have pend: "pending s = insert (pc, d) (pending s')" using s' q by (auto simp: pending_def)
    have cov: "covered prog s pc' e \<Longrightarrow> covered prog s' pc' e" for pc' e
      by (rule covered_drop [where pc = pc and d = d]) (use pend s' False in auto)
    show ?thesis
      using inv s' pend cov by (auto simp: depth_inv_def followed_def Let_def)
  next
    case True
    then have step': "depth_path_step prog pc d s = Inr s'" using step q by (simp add: depth_step_def)
    note f = depth_path_step_Inr [OF step']
    let ?d' = "after (prog ! nat pc) d"
    have len: "length (d_at s) = length prog + 1" using inv by (simp add: depth_inv_def)
    have at: "d_at s' ! i = (if i = nat pc then d else d_at s ! i)" if "i < length prog" for i
      using that len f(1) by (simp add: nth_list_update)
    have pc: "nat pc < length prog" "int (nat pc) = pc" using True pd(1) by linarith+
    have mono: "d_at s ! i \<le> d_at s' ! i" if "i < length prog" for i
      using at [OF that] True by (cases "i = nat pc") auto
    have cov: "covered prog s' x e" if "covered prog s x e" "0 \<le> x" for x e
    proof (cases "int (length prog) \<le> x")
      case False
      then have x: "nat x < length prog" using that(2) by linarith
      from that(1) False consider "e \<le> d_at s ! nat x" | e' where "e \<le> e'" "(x, e') \<in> pending s"
        by (auto simp: covered_def)
      then show ?thesis
      proof cases
        case 1
        then show ?thesis using mono [OF x] by (simp add: covered_def)
      next
        case 2
        then consider "(x, e') \<in> set (d_work s)" | "(x, e') = (pc, d)"
          using q by (auto simp: pending_def)
        then show ?thesis
        proof cases
          case 1
          then show ?thesis using 2(1) f(4) by (auto simp: covered_def)
        next
          case b: 2
          then show ?thesis using 2(1) at [OF x] by (simp add: covered_def)
        qed
      qed
    qed (simp add: covered_def)
    have fol: "followed prog s' i" if "i < length prog" "0 \<le> d_at s' ! i" for i
    proof (cases "i = nat pc")
      case True
      have "covered prog s' x ?d'" if "x \<in> successors prog pc" for x
        using that f(4) by (auto simp: covered_def)
      then show ?thesis using True at [OF that(1)] f(2) pc(2) by (simp add: followed_def Let_def)
    next
      case False
      then have "followed prog s i" using that at [OF that(1)] inv by (auto simp: depth_inv_def)
      moreover have "0 \<le> x" if "x \<in> successors prog (int i)" for x
        using successor_nonneg [OF t _ _ that] \<open>i < length prog\<close> by simp
      ultimately show ?thesis
        using False at [OF that(1)] cov f(2) by (auto simp: followed_def Let_def)
    qed
    have "0 \<le> x" if "x \<in> successors prog pc" for x
      using successor_nonneg [OF t pd(1) _ that] True by simp
    moreover have "0 \<le> x \<and> 0 \<le> e \<and> e \<le> d_worst s" if "(x, e) \<in> set (d_work s)" for x e
      using inv that unfolding depth_inv_def pending_def by blast
    ultimately have "\<forall>(x, e) \<in> pending s'. 0 \<le> x \<and> 0 \<le> e \<and> e \<le> d_worst s'"
      unfolding f(4) f(2) using after_nonneg [of "prog ! nat pc" d] by (force simp: le_max_iff_disj)
    moreover have "\<forall>i < length prog. d_at s' ! i \<le> int (length prog)"
      using at inv pd(3) by (auto simp: depth_inv_def)
    moreover have "covered prog s' 0 0" using cov inv by (simp add: depth_inv_def)
    moreover have "0 \<le> d_worst s'" using inv pd(2,3) f(2) by simp
    ultimately show ?thesis
      using fol f(1,3) len by (simp add: depth_inv_def)
  qed
qed

text \<open>The loop ends: following an instruction again needs a greater depth than before.\<close>

definition depth_measure :: "program \<Rightarrow> depth_state \<Rightarrow> nat" where
  "depth_measure prog s =
     4 * (\<Sum>i < length prog. nat (int (length prog) - d_at s ! i)) + 2 * length (d_work s)
       + (if d_path s = None then 0 else 1)"

lemma depth_measure_step:
  assumes inv: "depth_inv prog s" and step: "depth_step prog s = Inr s'"
  shows "depth_measure prog s' < depth_measure prog s"
proof (cases "d_path s")
  case None
  then show ?thesis using step by (auto simp: depth_step_def depth_measure_def split: list.splits)
next
  case (Some q)
  then obtain pc d where q: "d_path s = Some (pc, d)" by (cases q) auto
  have pd: "0 \<le> pc" "0 \<le> d" "d \<le> d_worst s" "d_worst s \<le> int (length prog)" "length (d_at s) = length prog + 1"
    using inv q by (auto simp: depth_inv_def pending_def)
  show ?thesis
  proof (cases "pc < int (length prog) \<and> d > d_at s ! nat pc")
    case False
    then show ?thesis using step q by (auto simp: depth_step_def depth_measure_def)
  next
    case True
    then have step': "depth_path_step prog pc d s = Inr s'" using step q by (simp add: depth_step_def)
    note f = depth_path_step_Inr [OF step']
    let ?g = "\<lambda>st i. nat (int (length prog) - d_at st ! i)"
    have at: "d_at s' ! i = (if i = nat pc then d else d_at s ! i)" if "i < length prog" for i
      using that pd(5) f(1) by (simp add: nth_list_update)
    have pc: "nat pc < length prog" using True pd(1) by linarith
    have "(\<Sum>i < length prog. ?g s' i) < (\<Sum>i < length prog. ?g s i)"
    proof (rule sum_strict_mono_ex1)
      show "\<forall>i\<in>{..<length prog}. ?g s' i \<le> ?g s i" using at True by auto
      show "\<exists>i\<in>{..<length prog}. ?g s' i < ?g s i"
        using at [OF pc] True pd pc by (intro bexI [of _ "nat pc"]) auto
    qed simp
    then show ?thesis using f(5) q by (simp add: depth_measure_def)
  qed
qed

lemma analysis_returns:
  assumes "targets_ok prog"
  shows "\<exists>w. while_option (\<lambda>r. \<not> isl r) (depth_next prog) (Inr (depth_init prog)) = Some w"
proof (rule measure_while_option_Some [where P = "\<lambda>r. \<forall>s. r = Inr s \<longrightarrow> depth_inv prog s"
      and f = "\<lambda>r. case r of Inl w \<Rightarrow> 0 | Inr s \<Rightarrow> Suc (depth_measure prog s)"])
  fix r :: "int + depth_state"
  assume inv: "\<forall>s. r = Inr s \<longrightarrow> depth_inv prog s" and "\<not> isl r"
  then obtain s where s: "r = Inr s" "depth_inv prog s" by (cases r) auto
  show "(\<forall>s. depth_next prog r = Inr s \<longrightarrow> depth_inv prog s) \<and>
      (case depth_next prog r of Inl w \<Rightarrow> 0 | Inr s \<Rightarrow> Suc (depth_measure prog s))
      < (case r of Inl w \<Rightarrow> 0 | Inr s \<Rightarrow> Suc (depth_measure prog s))"
    using s depth_inv_step [OF s(2) assms] depth_measure_step [OF s(2)]
    by (auto simp: depth_next_def split: sum.split)
qed (simp add: depth_inv_init)

section \<open>Soundness\<close>

text \<open>The configurations that a run of the interpreter goes through.\<close>

inductive reachable_config :: "program \<Rightarrow> machine \<Rightarrow> vm_config \<Rightarrow> bool" for prog m where
  start: "reachable_config prog m (vm_init m)"
| step: "reachable_config prog m c \<Longrightarrow> vm_step prog c = Running c' \<Longrightarrow> reachable_config prog m c'"

lemma analysis_result:
  assumes "targets_ok prog" "max_stack_depth prog = Some w" "w \<le> int (length prog)"
  obtains s where "depth_inv prog s" "d_work s = []" "d_path s = None" "d_worst s = w"
proof -
  obtain r where r: "while_option (\<lambda>r. \<not> isl r) (depth_next prog) (Inr (depth_init prog)) = Some r" "w = projl r"
    using assms(2) by (auto simp: max_stack_depth_def)
  have final: "isl r" using while_option_stop [OF r(1)] by simp
  let ?P = "\<lambda>r. case r of Inr s \<Rightarrow> depth_inv prog s
    | Inl w \<Rightarrow> w = int (length prog) + 1 \<or> (\<exists>s. depth_inv prog s \<and> d_work s = [] \<and> d_path s = None \<and> d_worst s = w)"
  have "?P r"
  proof (rule while_option_rule [where P = ?P, OF _ r(1)])
    fix q assume q: "?P q" "\<not> isl q"
    then obtain s where s: "q = Inr s" "depth_inv prog s" by (cases q) auto
    show "?P (depth_next prog q)"
    proof (cases "depth_step prog s")
      case (Inr s')
      then show ?thesis using s depth_inv_step [OF s(2) assms(1) Inr] by (simp add: depth_next_def)
    next
      case (Inl x)
      then have "x = int (length prog) + 1 \<or> (d_path s = None \<and> d_work s = [] \<and> d_worst s = x)"
        using depth_path_step_Inl
        by (auto simp: depth_step_def split: option.splits list.splits prod.splits if_splits)
      then show ?thesis using s Inl by (auto simp: depth_next_def)
    qed
  qed (simp add: depth_inv_init)
  then show ?thesis using final r(2) assms(3) that by (cases r) auto
qed

lemma reachable_depth:
  assumes s: "depth_inv prog s" "d_work s = []" "d_path s = None" and t: "targets_ok prog"
    and "reachable_config prog m c"
  shows "0 \<le> c_pc c \<and> int (length (c_stack c)) \<le> d_worst s
    \<and> (c_pc c < int (length prog) \<longrightarrow> int (length (c_stack c)) \<le> d_at s ! nat (c_pc c))"
  using assms(5)
proof induction
  case start
  have "covered prog s 0 0" using s(1) by (simp add: depth_inv_def)
  then show ?case using s by (auto simp: vm_init_def covered_def pending_def depth_inv_def)
next
  case (step c c')
  have pc: "0 \<le> c_pc c" "c_pc c < int (length prog)"
    using step by (auto simp: vm_step_def split: if_splits)
  let ?i = "nat (c_pc c)" and ?l = "int (length (c_stack c))"
  have i: "?i < length prog" "int ?i = c_pc c" using pc by linarith+
  have at: "?l \<le> d_at s ! ?i" using step.IH pc by simp
  then have f: "followed prog s ?i" using s(1) i(1) by (auto simp: depth_inv_def)
  have "exec_instr (prog ! ?i) c = Running c'" using step.hyps(2) pc by (simp add: vm_step_def)
  from exec_instr_effect [OF this refl]
  have e: "int (length (c_stack c')) \<le> after (prog ! ?i) ?l" "c_pc c' \<in> successors prog (c_pc c)" by auto
  then have le: "int (length (c_stack c')) \<le> after (prog ! ?i) (d_at s ! ?i)"
    using after_mono [OF at, of "prog ! ?i"] by linarith
  have "covered prog s (c_pc c') (after (prog ! ?i) (d_at s ! ?i))"
    "after (prog ! ?i) (d_at s ! ?i) \<le> d_worst s"
    using f e(2) i(2) by (auto simp: followed_def Let_def)
  then show ?case
    using le successor_nonneg [OF t pc e(2)] s(2,3) by (auto simp: covered_def pending_def)
qed


text \<open>C36: The stack-depth analysis terminates on every program whose jump targets are not negative,
  loops included: it returns a depth, or the length of the program plus one.\<close>

theorem stack_depth_terminates:
  assumes "targets_ok prog"
  shows "\<exists>w. max_stack_depth prog = Some w"
  using analysis_returns [OF assms] by (auto simp: max_stack_depth_def)

text \<open>A loop that decrements a counter: the back edge does not deepen the stack.\<close>

definition loop_program :: program where
  "loop_program = [instr LOAD_SIG 0, instr DUP 0, instr JUMP_IF_ZERO 6, instr LOAD_CONST 0, instr SUB 0,
     instr JUMP 1, instr STORE_SIG 0, instr PROC_END 0]"

lemma loop_program_depth: "max_stack_depth loop_program = Some 2"
  by code_simp

theorem stack_depth_terminates_witness: "\<exists>w. max_stack_depth loop_program = Some w"
  by (rule stack_depth_terminates) code_simp

definition counter_machine :: machine where
  "counter_machine = \<lparr>sig_val = [3], sig_mask = [0], sig_width = [8], const_pool = [known 1 8],
     nba_queue = [], nba_mem_queue = [], display_output = [], m_time = 0, dirty = {},
     mem_val = [], mem_mask = [], mem_info = [], active_monitor_id = 0, loop_limit = 100\<rparr>"

end
