(* ===== verification/Vm_Halts.thy ===== *)
theory Vm_Halts
  imports Stack_Depth
begin

text \<open>
  The interpreter halts: the only way to repeat an instruction is an unconditional jump backwards,
  and \<open>execute\<close> counts those against \<open>loop_limit\<close>.
\<close>

text \<open>What the compiler emits: conditional jumps go forward, other targets are not negative.\<close>

definition structured :: "program \<Rightarrow> bool" where
  "structured prog \<longleftrightarrow> list_all (\<lambda>(i, (op, arg1, _)).
     (op = JUMP \<longrightarrow> 0 \<le> arg1) \<and> (op = JUMP_IF_ZERO \<or> op = JUMP_IF_NONZERO \<longrightarrow> int i < arg1))
     (enumerate 0 prog)"

lemma structuredD:
  assumes "structured prog" "i < length prog" "prog ! i = (op, a1, a2)"
  shows "op = JUMP \<Longrightarrow> 0 \<le> a1" "op = JUMP_IF_ZERO \<or> op = JUMP_IF_NONZERO \<Longrightarrow> int i < a1"
proof -
  have "(i, (op, a1, a2)) \<in> set (enumerate 0 prog)"
    using assms(2,3) by (auto simp: in_set_enumerate_eq)
  then show "op = JUMP \<Longrightarrow> 0 \<le> a1" "op = JUMP_IF_ZERO \<or> op = JUMP_IF_NONZERO \<Longrightarrow> int i < a1"
    using assms(1) by (auto simp: structured_def list_all_iff)
qed

lemma loop_limit_frame [simp]:
  "loop_limit (set_signal m i v k) = loop_limit m" "loop_limit (set_cell m a i v k) = loop_limit m"
  by (simp_all add: set_signal_def set_cell_def)

lemma loop_limit_stores [simp]:
  "loop_limit (store_sig m i v) = loop_limit m" "loop_limit (nba_sig m i v) = loop_limit m"
  "loop_limit (nba_bit m i v x) = loop_limit m" "loop_limit (store_range m i v x y) = loop_limit m"
  "loop_limit (nba_range m i v x y) = loop_limit m" "loop_limit (store_mem m a v x) = loop_limit m"
  "loop_limit (nba_mem m a v x) = loop_limit m" "loop_limit (store_mem_range m a v x y z) = loop_limit m"
  "loop_limit (nba_mem_range m a v x y z) = loop_limit m"
  "store_bit m i v x = Inr m' \<Longrightarrow> loop_limit m' = loop_limit m"
  by (auto simp: store_sig_def nba_sig_def nba_bit_def store_range_def nba_range_def store_mem_def nba_mem_def
      store_mem_range_def nba_mem_range_def store_bit_def Let_def rmap_eq_Inr_iff split: prod.split if_splits)

lemma store_op_loop_limit:
  assumes "store_op m (op, a1, a2) st = Some (Inr (m', st'))"
  shows "loop_limit m' = loop_limit m"
proof -
  have "op \<in> stores" using assms store_op_none by fastforce
  then show ?thesis using assms unfolding stores_def
    by (elim insertE emptyE)
      (auto simp: store_op_def Let_def rmap_eq_Inr_iff simp del: One_nat_def split: list.splits if_splits)
qed

text \<open>Loops left, then instructions left.\<close>

definition config_measure :: "program \<Rightarrow> vm_config \<Rightarrow> nat" where
  "config_measure prog c =
     (loop_limit (c_mach c) - c_iters c) * (length prog + 1) + nat (int (length prog) - c_pc c)"

definition config_ok :: "vm_config \<Rightarrow> bool" where
  "config_ok c \<longleftrightarrow> 0 \<le> c_pc c \<and> c_iters c \<le> loop_limit (c_mach c)"

lemma exec_instr_moves:
  assumes "exec_instr (op, a1, a2) c = Running c'"
    "op \<notin> {JUMP, JUMP_IF_ZERO, JUMP_IF_NONZERO, SYS_FINISH, PROC_END}"
  shows "c_pc c' = c_pc c + 1 \<and> c_iters c' = c_iters c \<and> loop_limit (c_mach c') = loop_limit (c_mach c)"
  using assms(1) unfolding exec_instr_plain [OF assms(2)]
  by (auto split: option.splits sum.splits prod.splits if_splits dest: store_op_loop_limit)

lemma vm_step_progress:
  assumes s: "structured prog" and ok: "config_ok c" and step: "vm_step prog c = Running c'"
  shows "config_ok c' \<and> config_measure prog c' < config_measure prog c"
proof -
  let ?n = "length prog"
  have pc: "0 \<le> c_pc c" "c_pc c < int ?n" "c_iters c \<le> loop_limit (c_mach c)"
    using ok step by (auto simp: config_ok_def vm_step_def split: if_splits)
  obtain op a1 a2 where p: "prog ! nat (c_pc c) = (op, a1, a2)" by (cases "prog ! nat (c_pc c)")
  have e: "exec_instr (op, a1, a2) c = Running c'"
    using step pc(2) by (simp add: vm_step_def p)
  have i: "nat (c_pc c) < ?n" using pc(1,2) by linarith
  note d = structuredD [OF s i p]
  consider (again) "op = JUMP" "a1 \<le> c_pc c" "Suc (c_iters c) \<le> loop_limit (c_mach c)"
      "c' = c\<lparr>c_pc := a1, c_iters := Suc (c_iters c)\<rparr>"
    | (onward) "c_pc c < c_pc c'" "c_iters c' = c_iters c" "loop_limit (c_mach c') = loop_limit (c_mach c)"
  proof (cases "op \<in> {JUMP, JUMP_IF_ZERO, JUMP_IF_NONZERO, SYS_FINISH, PROC_END}")
    case True
    then show ?thesis
      using e d pc(1) that by (auto simp: exec_instr_def Let_def split: if_splits list.splits)
  next
    case False
    then show ?thesis using exec_instr_moves [OF e] that(2) by auto
  qed
  then show ?thesis
  proof cases
    case again
    then have "0 \<le> a1" using d(1) by simp
    obtain k where k: "loop_limit (c_mach c) - c_iters c = Suc k"
      using again(3) by (metis Suc_diff_le Suc_le_D diff_Suc_Suc diff_is_0_eq not_less_eq_eq old.nat.exhaust)
    then have "loop_limit (c_mach c) - Suc (c_iters c) = k" by simp
    then show ?thesis
      using again k \<open>0 \<le> a1\<close> by (simp add: config_ok_def config_measure_def)
  next
    case onward
    then show ?thesis using pc by (simp add: config_ok_def config_measure_def)
  qed
qed

lemma vm_run_halts:
  assumes "structured prog" "config_ok c" "config_measure prog c < fuel"
  shows "\<exists>out. vm_run fuel prog c = Some out"
  using assms(2,3)
proof (induction fuel arbitrary: c)
  case (Suc fuel)
  show ?case
  proof (cases "vm_step prog c")
    case (Running c')
    then show ?thesis
      using Suc vm_step_progress [OF assms(1) Suc.prems(1) Running] by auto
  qed auto
qed simp

text \<open>C7: The interpreter halts. A program whose conditional jumps go forward, as the compiler emits
  them, ends within (\<open>loop_limit\<close> + 1) times (its length + 1) turns of the loop of \<open>execute\<close>, from any
  machine: at the end of the process or with an exception, never by running on.\<close>

theorem execute_halts:
  assumes "structured prog" "(loop_limit m + 1) * (length prog + 1) \<le> fuel"
  shows "\<exists>out. execute fuel prog m = Some out"
  unfolding execute_def
proof (rule vm_run_halts [OF assms(1)])
  show "config_ok (vm_init m)" by (simp add: config_ok_def vm_init_def)
  show "config_measure prog (vm_init m) < fuel"
    using assms(2) by (simp add: config_measure_def vm_init_def algebra_simps)
qed

theorem execute_halts_witness: "\<exists>out. execute 1000 loop_program counter_machine = Some out"
  by (rule execute_halts) (code_simp, simp add: counter_machine_def loop_program_def)

text \<open>The shortest runaway loop.\<close>

definition spin :: program where
  "spin = [instr JUMP 0]"

lemma spin_run:
  "k \<le> loop_limit m \<Longrightarrow> vm_run (Suc (loop_limit m - k)) spin \<lparr>c_pc = 0, c_stack = s, c_iters = k, c_mach = m\<rparr>
     = Some (Raised RuntimeError m)"
proof (induction "loop_limit m - k" arbitrary: k)
  case 0
  then show ?case by (simp add: vm_step_def spin_def exec_instr_def instr_def Let_def)
next
  case (Suc d)
  then have "Suc k \<le> loop_limit m" "loop_limit m - k = Suc (loop_limit m - Suc k)" "d = loop_limit m - Suc k"
    by linarith+
  then show ?case
    using Suc(1) [of "Suc k"] by (simp add: vm_step_def spin_def exec_instr_def instr_def Let_def)
qed

text \<open>A runaway loop is stopped: a process that only jumps to itself ends with the exception that
  reports the exceeded loop limit, whatever the limit.\<close>

theorem spin_stopped: "execute (Suc (loop_limit m)) spin m = Some (Raised RuntimeError m)"
  using spin_run [of 0 m "[]"] by (simp add: execute_def vm_init_def)

end
