(* ===== verification/Display_Format.thy ===== *)
theory Display_Format
  imports Verilog_Literal
begin

text \<open>
  \<open>sim/display_format.py\<close> and the formatting loop \<open>_apply_format\<close> of \<open>sim/executor.py\<close>: the text that
  \<open>$display\<close> and its relatives print. Character sets are ASCII; the floating-point conversions
  \<open>%e\<close>, \<open>%f\<close> and \<open>%g\<close> give \<open>Unmodelled\<close>.
\<close>

section \<open>One argument\<close>

definition dec_string :: "int \<Rightarrow> string" where
  "dec_string n = (if n < 0 then CHR ''-'' # dec_digits (nat (- n)) else dec_digits (nat n))"

definition decimal_width :: "nat \<Rightarrow> bool \<Rightarrow> nat" where
  "decimal_width width signed =
     (if width \<le> 1 then 1
      else if signed then length (dec_string (- push_bit (width - 1) 1))
      else length (dec_string (push_bit width 1 - 1)))"

definition lstrip :: "char \<Rightarrow> string \<Rightarrow> string" where
  "lstrip c s = dropWhile (\<lambda>d. d = c) s"

definition ljust :: "nat \<Rightarrow> string \<Rightarrow> string" where
  "ljust n s = s @ replicate (n - length s) CHR '' ''"

definition radix_bits :: "char \<Rightarrow> nat" where
  "radix_bits spec = (if spec = CHR ''o'' then 3 else if spec = CHR ''b'' then 1 else 4)"

text \<open>The digit of the bit group at position \<open>d\<close>.\<close>

definition radix_digit :: "nat \<Rightarrow> nat \<Rightarrow> int \<Rightarrow> int \<Rightarrow> nat \<Rightarrow> char" where
  "radix_digit bits width val msk d =
     (let shift = d * bits;
          grp = push_bit (min bits (width - shift)) 1 - 1;
          m = drop_bit shift msk AND grp
      in if m = 0 then hex_char (nat (drop_bit shift val AND grp))
         else if m = grp then CHR ''x'' else CHR ''X'')"

definition pad_field :: "nat \<Rightarrow> bool \<Rightarrow> string \<Rightarrow> string" where
  "pad_field field_width zero_pad s = rjust (if zero_pad then CHR ''0'' else CHR '' '') field_width s"

definition format_value :: "val4 \<Rightarrow> char \<Rightarrow> nat \<Rightarrow> bool \<Rightarrow> bool \<Rightarrow> string" where
  "format_value v spec field_width zero_pad signed =
     (let width = max (v_width v) 1;
          full = push_bit width 1 - 1;
          msk = v_mask v AND full;
          val = v_val v AND full
      in if spec = CHR ''d'' then
           (let s = (if msk \<noteq> 0 then (if msk = full then ''x'' else ''X'')
                     else dec_string (if signed \<and> drop_bit (width - 1) val \<noteq> 0 then val - push_bit width 1 else val))
            in if field_width \<noteq> 0 then pad_field field_width zero_pad s
               else if zero_pad then s
               else rjust CHR '' '' (decimal_width width signed) s)
         else
           (let bits = radix_bits spec;
                s = map (radix_digit bits width val msk) (rev [0..<(width + bits - 1) div bits])
            in if field_width \<noteq> 0 then pad_field field_width zero_pad s
               else if zero_pad then (let t = lstrip CHR ''0'' s in if t = [] then ''0'' else t)
               else s))"

definition string_byte :: "val4 \<Rightarrow> nat \<Rightarrow> char" where
  "string_byte v k =
     (let b = drop_bit (8 * k) (v_val v) AND 0xFF
      in if b = 0 \<or> drop_bit (8 * k) (v_mask v) AND 0xFF \<noteq> 0 then CHR '' '' else char_of (nat b))"

definition format_string :: "val4 \<Rightarrow> nat \<Rightarrow> bool \<Rightarrow> string" where
  "format_string v field_width sized =
     (let width = max (v_width v) 1;
          txt = map (string_byte v) (rev [0..<(width + 7) div 8])
      in if sized then rjust CHR '' '' field_width (lstrip CHR '' '' txt) else txt)"

definition left_justify :: "string \<Rightarrow> string" where
  "left_justify txt = ljust (length txt) (lstrip CHR '' '' txt)"

section \<open>A format specification\<close>

text \<open>What stands between \<open>%\<close> and the letter, as \<open>_apply_format\<close> scans it.\<close>

record format_spec =
  fs_signed :: bool
  fs_left :: bool
  fs_zero_pad :: bool
  fs_width :: nat

definition signed_flag :: char where
  "signed_flag = CHR 0x1D"

definition take_flag :: "char set \<Rightarrow> string \<Rightarrow> bool \<times> string" where
  "take_flag cs s = (case s of c # t \<Rightarrow> if c \<in> cs then (True, t) else (False, s) | [] \<Rightarrow> (False, []))"

fun take_number :: "nat \<Rightarrow> string \<Rightarrow> nat \<times> string" where
  "take_number n (c # t) = (if is_digit c then take_number (n * 10 + (ord_char c - 48)) t else (n, c # t))"
| "take_number n [] = (n, [])"

text \<open>\<open>None\<close>: the format string ends inside the specification, which ends the loop.\<close>

definition parse_spec :: "string \<Rightarrow> (format_spec \<times> char \<times> string) option" where
  "parse_spec s =
     (let (sg, s1) = take_flag {signed_flag} s;
          (rl, s2) = take_flag {CHR 0x1E, CHR 0x1F} s1;
          (lf, s3) = take_flag {CHR ''-''} s2;
          (zp, s4) = take_flag {CHR ''0''} s3;
          (w, s5) = take_number 0 s4;
          s6 = (case s5 of c # t \<Rightarrow> if c = CHR ''.'' then snd (take_number 0 t) else s5 | [] \<Rightarrow> [])
      in case s6 of
           [] \<Rightarrow> None
         | c # rest \<Rightarrow>
             Some (\<lparr>fs_signed = sg, fs_left = lf, fs_zero_pad = (if lf then zp \<and> w = 0 else zp), fs_width = w\<rparr>,
                   lower_char c, rest))"

lemma take_flag_length [simp]: "length (snd (take_flag cs s)) \<le> length s"
  by (auto simp: take_flag_def split: list.split)

lemma take_number_length [simp]: "length (snd (take_number n s)) \<le> length s"
  by (induction n s rule: take_number.induct) auto

lemma parse_spec_shorter:
  assumes "parse_spec s = Some (f, c, rest)"
  shows "length rest < length s"
proof -
  define s1 where "s1 = snd (take_flag {signed_flag} s)"
  define s2 where "s2 = snd (take_flag {CHR 0x1E, CHR 0x1F} s1)"
  define s3 where "s3 = snd (take_flag {CHR ''-''} s2)"
  define s4 where "s4 = snd (take_flag {CHR ''0''} s3)"
  define s5 where "s5 = snd (take_number 0 s4)"
  have le: "length s5 \<le> length s"
    using take_flag_length [of "{signed_flag}" s] take_flag_length [of "{CHR 0x1E, CHR 0x1F}" s1]
      take_flag_length [of "{CHR ''-''}" s2] take_flag_length [of "{CHR ''0''}" s3] take_number_length [of 0 s4]
    unfolding s1_def [symmetric] s2_def [symmetric] s3_def [symmetric] s4_def [symmetric] s5_def [symmetric]
    by linarith
  define s6 where "s6 = (case s5 of c # t \<Rightarrow> if c = CHR ''.'' then snd (take_number 0 t) else s5 | [] \<Rightarrow> [])"
  have "length s6 \<le> length s5"
    by (auto simp: s6_def intro: le_SucI split: list.split)
  moreover have "s6 = c' # rest" if "lower_char c' = c" "s6 = c' # rest" for c'
    using that by simp
  moreover have "\<exists>c'. s6 = c' # rest"
    using assms unfolding parse_spec_def Let_def case_prod_beta
      s1_def [symmetric] s2_def [symmetric] s3_def [symmetric] s4_def [symmetric] s5_def [symmetric] s6_def [symmetric]
    by (auto split: list.splits)
  ultimately show ?thesis using le by auto
qed

section \<open>The formatting loop\<close>

text \<open>The text of one specification that is not \<open>%%\<close>, and the arguments left.\<close>

definition format_arg :: "int \<Rightarrow> format_spec \<Rightarrow> char \<Rightarrow> val4 list \<Rightarrow> (string \<times> val4 list) res" where
  "format_arg now f spec args =
     (if spec = CHR ''t'' then
        (let (ts, rest) = (case args of
               v # vs \<Rightarrow> (if v_mask v = 0 then dec_string (v_val v) else ''x'', vs)
             | [] \<Rightarrow> (dec_string now, []))
         in Inr (rjust CHR '' '' (if fs_width f \<noteq> 0 \<or> fs_zero_pad f then fs_width f else 20) ts, rest))
      else if spec = CHR ''m'' then Inr (''<module>'', args)
      else (case args of
          [] \<Rightarrow> Inr (CHR ''%'' # [spec], [])
        | v # vs \<Rightarrow>
            if spec \<in> set ''dhxob'' then Inr (format_value v spec (fs_width f) (fs_zero_pad f) (fs_signed f), vs)
            else if spec \<in> set ''efg'' then Inl Unmodelled
            else if spec = CHR ''c'' then
              Inr ([if v_mask v = 0 then char_of (nat (v_val v AND 0xFF)) else CHR ''?''], vs)
            else if spec = CHR ''s'' then
              Inr (format_string v (fs_width f) (fs_width f \<noteq> 0 \<or> fs_zero_pad f), vs)
            else Inr (CHR ''%'' # [spec], args)))"

definition format_escape :: "char \<Rightarrow> string" where
  "format_escape c = (if c = CHR ''n'' then [CHR 10] else if c = CHR ''t'' then [CHR 9]
     else if c = CHR 92 then [CHR 92] else [CHR 92, c])"

text \<open>
  \<open>out\<close> is the list \<open>result\<close> joined; the piece that \<open>%-\<close> justifies to the left is always the last one
  appended, so it is justified at once.
\<close>

function apply_format :: "int \<Rightarrow> string \<Rightarrow> val4 list \<Rightarrow> string res" where
  "apply_format now [] args = Inr []"
| "apply_format now (ch # fmt) args =
     (if ch = CHR ''%'' then
        (case parse_spec fmt of
           None \<Rightarrow> Inr []
         | Some (f, spec, rest) \<Rightarrow>
             rbind (if spec = CHR ''%'' then Inr (''%'', args) else format_arg now f spec args) (\<lambda>(piece, args').
             rmap (\<lambda>out. (if fs_left f then left_justify piece else piece) @ out) (apply_format now rest args')))
      else if ch = CHR 92 then
        (case fmt of
           [] \<Rightarrow> Inr []
         | esc # rest \<Rightarrow> rmap (\<lambda>out. format_escape esc @ out) (apply_format now rest args))
      else rmap (\<lambda>out. ch # out) (apply_format now fmt args))"
  by pat_completeness auto
termination
  by (relation "measure (\<lambda>(now, fmt, args). length fmt)") (auto dest: parse_spec_shorter)

end
