(* ===== verification/Display_Properties.thy ===== *)
theory Display_Properties
  imports Display_Format
begin

text \<open>
  What the display formats promise: binary and hexadecimal digits are those that \<open>Value.__str__\<close> and
  \<open>Value.to_hex\<close> print, and decimal columns line up.
\<close>

section \<open>Digits\<close>

lemma char_digits: "char_of (48::nat) = CHR ''0''" "char_of (49::nat) = CHR ''1''"
  by (simp_all flip: ord_char_inject) (simp_all add: ord_char_def)

lemma radix_digit_binary:
  assumes "d < w"
  shows "radix_digit 1 w val msk d = (if bit msk d then CHR ''x'' else if bit val d then CHR ''1'' else CHR ''0'')"
proof -
  have "min 1 (w - d) = 1" using assms by simp
  then show ?thesis by (simp add: radix_digit_def drop_bit_and_1 hex_char_def char_digits)
qed

lemma zero_hex_char: "hex_char 0 = CHR ''0''"
  by (simp add: hex_char_def char_digits)

lemma padded_hex_digits:
  assumes "0 < k" "n < 16 ^ k"
  shows "rjust CHR ''0'' k (hex_digits n) = map (\<lambda>d. hex_char (n div 16 ^ d mod 16)) (rev [0..<k])"
  using assms
proof (induction k arbitrary: n)
  case (Suc k)
  have low: "map (\<lambda>d. hex_char (n div 16 ^ d mod 16)) (rev [0..<Suc k])
      = map (\<lambda>d. hex_char (n div 16 div 16 ^ d mod 16)) (rev [0..<k]) @ [hex_char (n mod 16)]"
    by (simp only: upt_conv_Cons zero_less_Suc map_Suc_upt [symmetric])
      (simp add: rev_map div_mult2_eq mult.commute comp_def)
  show ?case
  proof (cases "k = 0")
    case True
    then show ?thesis using Suc.prems by (simp add: rjust_def hex_digits.simps [of n])
  next
    case False
    then have ih: "rjust CHR ''0'' k (hex_digits (n div 16)) = map (\<lambda>d. hex_char (n div 16 div 16 ^ d mod 16)) (rev [0..<k])"
      using Suc.IH [of "n div 16"] Suc.prems(2) by (simp add: less_mult_imp_div_less mult.commute)
    have "rjust CHR ''0'' (Suc k) (hex_digits n) = rjust CHR ''0'' k (hex_digits (n div 16)) @ [hex_char (n mod 16)]"
    proof (cases "n < 16")
      case True
      then show ?thesis
        using False by (cases k) (simp_all add: rjust_def hex_digits.simps [of n] hex_digits.simps [of 0] zero_hex_char
            replicate_append_same)
    next
      case False
      then show ?thesis by (simp add: rjust_def hex_digits.simps [of n])
    qed
    then show ?thesis unfolding low ih .
  qed
qed simp

lemma radix_digit_hex:
  assumes "0 \<le> val" "val < 2 ^ w"
  shows "radix_digit 4 w val 0 d = hex_char (nat val div 16 ^ d mod 16)"
proof -
  have "drop_bit (d * 4) val AND (push_bit (min 4 (w - d * 4)) 1 - 1) = take_bit (min 4 (w - d * 4)) (drop_bit (d * 4) val)"
    by (simp add: take_bit_eq_mask mask_eq_exp_minus_1 push_bit_of_1)
  also have "\<dots> = take_bit 4 (drop_bit (d * 4) val)"
  proof (rule int_eqI)
    fix i
    show "bit (take_bit (min 4 (w - d * 4)) (drop_bit (d * 4) val)) i = bit (take_bit 4 (drop_bit (d * 4) val)) i"
    proof (cases "i < 4 \<and> \<not> i < w - d * 4")
      case True
      then have "w \<le> d * 4 + i" by linarith
      then show ?thesis using True bit_eq_0_above [of val w "d * 4 + i"] assms by (simp add: bit_take_bit_iff bit_drop_bit_eq)
    qed (auto simp: bit_take_bit_iff)
  qed
  finally show ?thesis
    using assms nat_mod_distrib [of "val div 16 ^ d" 16] nat_div_distrib [of val "16 ^ d"]
    by (simp add: radix_digit_def take_bit_eq_mod drop_bit_eq_div mult.commute [of d] power_mult pos_imp_zdiv_nonneg_iff
        nat_power_eq)
qed

lemma full_width_mask:
  assumes "wf_val v"
  shows "v_mask v AND (push_bit (v_width v) 1 - 1) = v_mask v" "v_val v AND (push_bit (v_width v) 1 - 1) = v_val v"
  using wf_valD [OF assms] unfolding width_mask_def [symmetric]
  by (auto intro!: int_eqI simp: bit_and_iff)

lemma format_binary:
  assumes "wf_val v" "0 < v_width v"
  shows "format_value v CHR ''b'' 0 False sg
    = map (\<lambda>i. if bit (v_mask v) i then CHR ''x'' else if bit (v_val v) i then CHR ''1'' else CHR ''0'') (rev [0..<v_width v])"
proof -
  have w: "max (v_width v) 1 = v_width v" using assms(2) by simp
  show ?thesis
    unfolding format_value_def Let_def w full_width_mask [OF assms(1)]
    by (simp add: radix_bits_def radix_digit_binary del: One_nat_def)
qed



section \<open>Columns\<close>

lemma dec_digits_length_mono: "m \<le> n \<Longrightarrow> length (dec_digits m) \<le> length (dec_digits n)"
proof (induction n arbitrary: m rule: dec_digits.induct)
  case (1 n)
  show ?case
  proof (cases "m < 10")
    case True
    then show ?thesis using dec_digits_nonempty [of n] by (simp add: dec_digits.simps [of m] Suc_le_eq)
  next
    case False
    then have "length (dec_digits (m div 10)) \<le> length (dec_digits (n div 10))"
      using "1.prems" by (intro "1.IH") (auto intro: div_le_mono)
    then show ?thesis using False "1.prems" by (simp add: dec_digits.simps [of m] dec_digits.simps [of n])
  qed
qed

lemma decimal_fits:
  assumes "- (2 ^ (w - 1)) \<le> n" "n < 2 ^ (w - 1)" "1 < w"
  shows "length (dec_string n) \<le> decimal_width w True"
proof -
  let ?t = "nat (2 ^ (w - 1))"
  have "length (dec_digits (nat \<bar>n\<bar>)) \<le> length (dec_digits ?t)"
    using assms by (intro dec_digits_length_mono nat_mono) linarith
  moreover have "dec_string (- (2 ^ (w - 1))) = CHR ''-'' # dec_digits ?t" by (simp add: dec_string_def)
  ultimately show ?thesis
    using assms(3) by (auto simp: decimal_width_def dec_string_def push_bit_of_1)
qed

lemma decimal_fits_unsigned:
  assumes "0 \<le> n" "n < 2 ^ w" "0 < w"
  shows "length (dec_string n) \<le> decimal_width w False"
proof (cases "w = 1")
  case True
  then have "n < 10" using assms by simp
  then show ?thesis using True assms by (simp add: decimal_width_def dec_string_def dec_digits.simps [of "nat n"])
next
  case False
  have "length (dec_digits (nat n)) \<le> length (dec_digits (nat (2 ^ w - 1)))"
    using assms by (intro dec_digits_length_mono nat_mono) linarith
  then show ?thesis using assms False by (simp add: decimal_width_def dec_string_def push_bit_of_1)
qed

text \<open>\<open>%d\<close> columns line up: without a field width every value of a given width and signedness, known or
  not, prints in exactly the same number of columns; the one exception is a signed single bit, whose
  \<open>-1\<close> is wider than its one column.\<close>

theorem decimal_columns_align:
  assumes "wf_val v" "0 < v_width v" "sg \<longrightarrow> 1 < v_width v"
  shows "length (format_value v CHR ''d'' 0 False sg) = decimal_width (v_width v) sg"
proof -
  let ?w = "v_width v"
  note m = full_width_mask [OF assms(1)]
  have b: "0 \<le> v_val v" "v_val v < 2 ^ ?w" using wf_val_bounds [OF assms(1)] by simp_all
  have w: "max ?w 1 = ?w" using assms(2) by simp
  have pos: "1 \<le> decimal_width ?w sg"
    using dec_digits_nonempty by (auto simp: decimal_width_def dec_string_def Suc_le_eq)
  let ?n = "if sg \<and> drop_bit (?w - 1) (v_val v) \<noteq> 0 then v_val v - push_bit ?w 1 else v_val v"
  have "length (dec_string ?n) \<le> decimal_width ?w sg"
  proof (cases sg)
    case True
    have p: "(2::int) ^ ?w = 2 * 2 ^ (?w - 1)" using assms(2) by (cases ?w) simp_all
    have "drop_bit (?w - 1) (v_val v) \<noteq> 0 \<longleftrightarrow> 2 ^ (?w - 1) \<le> v_val v"
      using b(1) by (simp add: drop_bit_eq_div zdiv_eq_0_iff) linarith
    then have "- (2 ^ (?w - 1)) \<le> ?n \<and> ?n < 2 ^ (?w - 1)"
      using b p True by (simp add: push_bit_of_1 del: One_nat_def)
    then show ?thesis using decimal_fits [of ?w ?n] True assms(3) by simp
  next
    case False
    then show ?thesis using decimal_fits_unsigned [OF b assms(2)] by simp
  qed
  then show ?thesis
    using pos unfolding format_value_def Let_def w m by (simp add: rjust_def)
qed

theorem decimal_columns_align_witness:
  "length (format_value (known 200 8) CHR ''d'' 0 False True) = decimal_width 8 True"
  using decimal_columns_align [of "known 200 8" True] by simp

end
