(* ===== verification/Readmem.thy ===== *)
theory Readmem
  imports Verilog_Literal
begin

text \<open>
  \<open>sim/readmem.py\<close>: the text of a memory file for \<open>$readmemh\<close> and \<open>$readmemb\<close>, and the words it stores.
  A malformed word raises after the words before it have been stored, so \<open>load\<close> returns the stores
  together with the exception, if any.
\<close>

section \<open>Tokens\<close>

fun comment_end :: "string \<Rightarrow> string option" where
  "comment_end (a # b # t) = (if a = CHR ''*'' \<and> b = CHR ''/'' then Some t else comment_end (b # t))"
| "comment_end _ = None"

lemma comment_end_length: "comment_end s = Some r \<Longrightarrow> length r < length s"
  by (induction s rule: comment_end.induct) (auto split: if_splits)

function strip_comments :: "string \<Rightarrow> string" where
  "strip_comments [] = []"
| "strip_comments (c # t) =
     (if c = CHR ''/'' \<and> t \<noteq> [] \<and> hd t = CHR ''/'' then CHR '' '' # strip_comments (dropWhile (\<lambda>d. d \<noteq> CHR 10) (tl t))
      else if c = CHR ''/'' \<and> t \<noteq> [] \<and> hd t = CHR ''*'' \<and> comment_end (tl t) \<noteq> None
        then CHR '' '' # strip_comments (the (comment_end (tl t)))
      else c # strip_comments t)"
  by pat_completeness auto
termination
proof (relation "measure length")
  fix c and t :: string
  show "(dropWhile (\<lambda>d. d \<noteq> CHR 10) (tl t), c # t) \<in> measure length"
    using length_dropWhile_le [of "\<lambda>d. d \<noteq> CHR 10" "tl t"] by (simp add: le_diff_conv less_Suc_eq_le)
  assume "c = CHR ''/'' \<and> t \<noteq> [] \<and> hd t = CHR ''*'' \<and> comment_end (tl t) \<noteq> None"
  then obtain r where "comment_end (tl t) = Some r" by blast
  then show "(the (comment_end (tl t)), c # t) \<in> measure length"
    using comment_end_length [of "tl t" r] by simp
qed auto

text \<open>\<open>text.split()\<close>.\<close>

fun split_words :: "string \<Rightarrow> string \<Rightarrow> string list" where
  "split_words cur [] = (if cur = [] then [] else [cur])"
| "split_words cur (c # t) =
     (if is_space c then (if cur = [] then split_words [] t else cur # split_words [] t)
      else split_words (cur @ [c]) t)"

definition tokens :: "string \<Rightarrow> string list" where
  "tokens txt = split_words [] (strip_comments txt)"

section \<open>Words\<close>

fun word_loop :: "bool \<Rightarrow> string \<Rightarrow> int \<times> int \<Rightarrow> (int \<times> int) res" where
  "word_loop is_hex [] acc = Inr acc"
| "word_loop is_hex (c # cs) (val, msk) =
     (let bits = (if is_hex then 4 else 1); v = push_bit bits val; m = push_bit bits msk
      in if c \<in> set ''xXzZ?'' then word_loop is_hex cs (v, m OR (push_bit bits 1 - 1))
         else (case base_digit (if is_hex then 16 else 2) c of
             None \<Rightarrow> Inl ValueError
           | Some d \<Rightarrow> word_loop is_hex cs (v OR int d, m)))"

definition memory_word :: "string \<Rightarrow> bool \<Rightarrow> nat \<Rightarrow> (int \<times> int) res" where
  "memory_word token is_hex width =
     rmap (\<lambda>(val, msk). (val AND width_mask width, msk AND width_mask width))
       (word_loop is_hex (remove_underscores token) (0, 0))"

text \<open>\<open>int(text, 16)\<close>, which also takes a prefix \<open>0x\<close>.\<close>

definition py_int_hex :: "string \<Rightarrow> int res" where
  "py_int_hex s =
     (let t = strip s;
          sg = (t \<noteq> [] \<and> (hd t = CHR ''-'' \<or> hd t = CHR ''+''));
          u = (if sg then tl t else t)
      in if lower (take 2 u) = ''0x'' then
           (if drop 2 u = [] then Inl ValueError
            else (case digits_val 16 (drop 2 u) 0 of
              Some n \<Rightarrow> Inr (if sg \<and> hd t = CHR ''-'' then - n else n) | None \<Rightarrow> Inl ValueError))
         else py_int 16 s)"

section \<open>Loading\<close>

type_synonym store_list = "(int \<times> int \<times> int) list"

text \<open>The loop of \<open>load\<close>: \<open>low\<close> and \<open>high\<close> bound the memory, \<open>last\<close> and \<open>step\<close> the requested range.\<close>

fun load_loop :: "bool \<Rightarrow> nat \<Rightarrow> int \<Rightarrow> int \<Rightarrow> int \<Rightarrow> int \<Rightarrow> string list \<Rightarrow> int \<Rightarrow> store_list \<times> py_error option" where
  "load_loop is_hex width low high final step [] addr = ([], None)"
| "load_loop is_hex width low high final step (token # rest) addr =
     (if token \<noteq> [] \<and> hd token = CHR ''@'' then
        (case py_int_hex (remove_underscores (tl token)) of
           Inl e \<Rightarrow> ([], Some e)
         | Inr a \<Rightarrow> load_loop is_hex width low high final step rest a)
      else if 0 < (addr - final) * step \<or> \<not> (low \<le> addr \<and> addr \<le> high)
        then load_loop is_hex width low high final step rest (addr + step)
      else (case memory_word token is_hex width of
           Inl e \<Rightarrow> ([], Some e)
         | Inr (val, msk) \<Rightarrow>
             (let (stores, err) = load_loop is_hex width low high final step rest (addr + step)
              in ((addr - low, val, msk) # stores, err))))"

definition load :: "string \<Rightarrow> bool \<Rightarrow> nat \<Rightarrow> nat \<Rightarrow> int \<Rightarrow> int option \<Rightarrow> int option \<Rightarrow> store_list \<times> py_error option" where
  "load txt is_hex width depth base start final =
     (let low = base; high = base + int depth - 1;
          first = (case start of None \<Rightarrow> low | Some a \<Rightarrow> a);
          fin = (case final of None \<Rightarrow> high | Some a \<Rightarrow> a);
          step = (if first \<le> fin then 1 else - 1)
      in load_loop is_hex width low high fin step (tokens txt) first)"

end
