(* ===== verification/Readmem_Properties.thy ===== *)
theory Readmem_Properties
  imports Readmem Display_Properties
begin

text \<open>
  Memory files: what is stored lies in the memory and fits its words, and a file written with the
  display format \<open>%b\<close>, one word to a line, loads back to the same words.
\<close>

section \<open>Bounds\<close>

definition fits :: "nat \<Rightarrow> nat \<Rightarrow> int \<times> int \<times> int \<Rightarrow> bool" where
  "fits width depth st \<longleftrightarrow> (case st of (slot, val, msk) \<Rightarrow>
     0 \<le> slot \<and> slot < int depth \<and> 0 \<le> val \<and> val < 2 ^ width \<and> 0 \<le> msk \<and> msk < 2 ^ width)"

lemma and_width_mask_bounds: "0 \<le> x AND width_mask w" "x AND width_mask w < 2 ^ w"
  by (simp_all add: and_width_mask)

lemma load_loop_fits:
  assumes "high = low + int depth - 1"
  shows "list_all (fits width depth) (fst (load_loop is_hex width low high final step ws addr))"
  using assms
  by (induction is_hex width low high final step ws addr rule: load_loop.induct)
    (auto simp: fits_def memory_word_def and_width_mask_bounds Let_def rmap_eq_Inr_iff split: sum.splits prod.splits)

text \<open>C32: Loading a memory file never writes outside the memory: whatever the text, the addresses in it
  and the requested range, every store goes to an existing word and fits its width.\<close>

theorem load_in_bounds: "list_all (fits width depth) (fst (load txt is_hex width depth base start final))"
  by (simp add: load_def Let_def load_loop_fits)

section \<open>Round trip\<close>

definition memory_line :: "val4 \<Rightarrow> string" where
  "memory_line v = format_value v CHR ''b'' 0 False False @ [CHR 10]"

lemma binary_text:
  assumes "wf_val v" "0 < v_width v"
  shows "format_value v CHR ''b'' 0 False False
    = map (\<lambda>i. if bit (v_mask v) i then CHR ''x'' else if bit (v_val v) i then CHR ''1'' else CHR ''0'') (rev [0..<v_width v])"
  by (rule format_binary [OF assms])

lemma strip_comments_plain: "CHR ''/'' \<notin> set s \<Longrightarrow> strip_comments s = s"
  by (induction s rule: strip_comments.induct) auto

lemma split_words_word:
  "list_all (\<lambda>c. \<not> is_space c) w \<Longrightarrow> split_words cur (w @ t) = split_words (cur @ w) t"
  by (induction w arbitrary: cur) simp_all

lemma split_words_lines:
  assumes "\<forall>w\<in>set ws. w \<noteq> [] \<and> list_all (\<lambda>c. \<not> is_space c) w"
  shows "split_words [] (concat (map (\<lambda>w. w @ [CHR 10]) ws)) = ws"
  using assms by (induction ws) (simp_all add: split_words_word is_space_def ord_char_def)

lemma word_loop_bits:
  assumes "wf_val v"
  shows "word_loop False (map (\<lambda>i. if bit (v_mask v) i then CHR ''x'' else if bit (v_val v) i then CHR ''1'' else CHR ''0'') (rev [0..<k]))
     (drop_bit k (v_val v), drop_bit k (v_mask v)) = Inr (v_val v, v_mask v)"
proof (induction k)
  case (Suc k)
  have bit: "drop_bit (Suc k) x * 2 = (if bit x k then drop_bit k x - 1 else drop_bit k x)" for x :: int
  proof -
    have "drop_bit (Suc k) x = drop_bit k x div 2" by (simp add: drop_bit_Suc drop_bit_half)
    then show ?thesis by (auto simp: bit_iff_odd_drop_bit elim!: evenE oddE)
  qed
  have one: "bit x k \<Longrightarrow> (drop_bit k x - 1) OR 1 = drop_bit k x" for x :: int
    by (simp add: or_one_eq bit_iff_odd_drop_bit)
  have v: "bit (v_mask v) k \<Longrightarrow> \<not> bit (v_val v) k" using wf_valD(3) [OF assms] by blast
  show ?case
    using Suc one v bit
    by (auto simp: base_digit_def digit_val_def is_digit_def ord_char_def)
qed simp

lemma bin_char:
  "\<not> is_space (if m then CHR ''x'' else if b then CHR ''1'' else CHR ''0'')"
  "(if m then CHR ''x'' else if b then CHR ''1'' else CHR ''0'') \<noteq> CHR ''/''"
  "(if m then CHR ''x'' else if b then CHR ''1'' else CHR ''0'') \<noteq> CHR ''_''"
  "(if m then CHR ''x'' else if b then CHR ''1'' else CHR ''0'') \<noteq> CHR ''@''"
  by (simp_all add: is_space_def ord_char_def)

lemma binary_text_props:
  assumes "wf_val v" "0 < v_width v"
  defines "s \<equiv> format_value v CHR ''b'' 0 False False"
  shows "s \<noteq> []" "list_all (\<lambda>c. \<not> is_space c) s" "CHR ''/'' \<notin> set s" "hd s \<noteq> CHR ''@''"
    "memory_word s False (v_width v) = Inr (v_val v, v_mask v)"
proof -
  have ne: "rev [0..<v_width v] \<noteq> []" using assms(2) by simp
  show "s \<noteq> []" "list_all (\<lambda>c. \<not> is_space c) s" "CHR ''/'' \<notin> set s" "hd s \<noteq> CHR ''@''"
    unfolding s_def binary_text [OF assms(1,2)] using ne
    by (auto simp: list_all_iff hd_map is_space_def ord_char_def simp del: rev_is_Nil_conv)
  have u: "remove_underscores s = s"
    unfolding s_def binary_text [OF assms(1,2)] remove_underscores_def
    by (intro filter_True) (auto simp: bin_char split del: if_split)
  have z: "drop_bit (v_width v) (v_val v) = 0" "drop_bit (v_width v) (v_mask v) = 0"
    using wf_valD(1,2) [OF assms(1), of "v_width v + i" for i] by (auto intro!: int_eqI simp: bit_drop_bit_eq)
  have m: "v_val v AND width_mask (v_width v) = v_val v" "v_mask v AND width_mask (v_width v) = v_mask v"
    using wf_valD [OF assms(1)] by (auto intro!: int_eqI simp: bit_and_iff)
  show "memory_word s False (v_width v) = Inr (v_val v, v_mask v)"
    using word_loop_bits [OF assms(1), of "v_width v"]
    unfolding memory_word_def u z m unfolding s_def binary_text [OF assms(1,2)] by (simp add: m)
qed

lemma load_loop_lines:
  assumes "\<forall>v\<in>set vs. wf_val v \<and> v_width v = width" "0 < width" "int (length vs) + addr \<le> final + 1"
    "low \<le> addr" "final \<le> high"
  shows "load_loop False width low high final 1 (map (\<lambda>v. format_value v CHR ''b'' 0 False False) vs) addr
    = (map (\<lambda>(k, v). (int k + addr - low, v_val v, v_mask v)) (enumerate 0 vs), None)"
  using assms
proof (induction vs arbitrary: addr)
  case (Cons v vs)
  have p: "wf_val v" "0 < v_width v" "v_width v = width" using Cons.prems by auto
  have "load_loop False width low high final 1 (map (\<lambda>v. format_value v CHR ''b'' 0 False False) vs) (addr + 1)
    = (map (\<lambda>(k, v). (int k + (addr + 1) - low, v_val v, v_mask v)) (enumerate 0 vs), None)"
    using Cons.prems by (intro Cons.IH) auto
  moreover have "enumerate 0 (v # vs) = (0, v) # map (\<lambda>(k, v). (Suc k, v)) (enumerate 0 vs)"
    by (auto simp: enumerate_Suc_eq apfst_def map_prod_def intro!: map_cong)
  ultimately show ?case
    using Cons.prems binary_text_props [OF p(1,2)] p(3)
    by (auto simp: case_prod_beta algebra_simps apfst_def map_prod_def intro!: map_cong)
qed simp

text \<open>C31: A memory dumped in binary, one word to a line, loads back exactly: \<open>$readmemb\<close> on the text that
  \<open>%b\<close> prints for the words, unknown bits included, stores each word at its own index and raises
  nothing.\<close>

theorem memory_dump_roundtrip:
  assumes "\<forall>v\<in>set vs. wf_val v \<and> v_width v = width" "0 < width" "length vs \<le> depth"
  shows "load (concat (map memory_line vs)) False width depth 0 None None
    = (map (\<lambda>(k, v). (int k, v_val v, v_mask v)) (enumerate 0 vs), None)"
proof -
  let ?f = "\<lambda>v. format_value v CHR ''b'' 0 False False"
  have p: "?f v \<noteq> [] \<and> list_all (\<lambda>c. \<not> is_space c) (?f v) \<and> CHR ''/'' \<notin> set (?f v)" if "v \<in> set vs" for v
    using assms that binary_text_props [of v] by auto
  have "CHR ''/'' \<notin> set (concat (map memory_line vs))" using p by (auto simp: memory_line_def)
  then have "tokens (concat (map memory_line vs)) = split_words [] (concat (map (\<lambda>w. w @ [CHR 10]) (map ?f vs)))"
    by (simp add: tokens_def strip_comments_plain memory_line_def [abs_def] comp_def)
  also have "\<dots> = map ?f vs" using p by (intro split_words_lines) auto
  finally have t: "tokens (concat (map memory_line vs)) = map ?f vs" .
  have "(if (0::int) \<le> int depth - 1 then 1 else - 1) = (1::int) \<or> vs = []" using assms(3) by auto
  then show ?thesis
    using load_loop_lines [OF assms(1,2), of 0 "int depth - 1" 0 "int depth - 1"] assms(3) t
    by (auto simp: load_def Let_def)
qed

theorem memory_dump_roundtrip_witness:
  "load (concat (map memory_line [known 5 4, mk_value 8 4 3])) False 4 4 0 None None
    = ([(0, 5, 0), (1, 8, 3)], None)"
proof -
  have "load (concat (map memory_line [known 5 4, mk_value 8 4 3])) False 4 4 0 None None
    = (map (\<lambda>(k, v). (int k, v_val v, v_mask v)) (enumerate 0 [known 5 4, mk_value 8 4 3]), None)"
    by (rule memory_dump_roundtrip) simp_all
  also have "\<dots> = ([(0, 5, 0), (1, 8, 3)], None)" by code_simp
  finally show ?thesis .
qed

end
