(* ===== verification/Statement.thy ===== *)
theory Statement
  imports Expr
begin

text \<open>
  The statement tree of \<open>model/statements.py\<close>. Each class is a constructor, each slot a field; an
  absent body is \<open>None\<close>, an absent block name the empty string (the code only tests whether the name
  is true). Source locations are left out, but for the text \<open>file:line:\<close> that a severity task prints,
  which is the second field of \<open>SystemTaskCall\<close>. The local variables of a block, which elaboration
  hoists and no engine reads, are left out.
\<close>

datatype edge_kind = Posedge | Negedge | Level

datatype sensitivity_edge = SensitivityEdge edge_kind expr

datatype stmt =
    BlockingAssign expr expr
  | NonblockingAssign expr expr
  | IfStatement expr "stmt option" "stmt option"
  | CaseStatement string expr "case_item list"
  | ForLoop stmt expr stmt "stmt option" bool
  | WhileLoop expr "stmt option"
  | ForeverLoop "stmt option"
  | RepeatLoop expr "stmt option"
  | SeqBlock string "stmt list"
  | ParBlock string "stmt list"
  | WaitStatement expr "stmt option"
  | DisableStatement string
  | EventTrigger string
  | TaskEnable string "expr list"
  | SystemTaskCall string string "expr list"
  | DelayControl expr "stmt option"
  | EventControl "sensitivity_edge list" "stmt option"
and case_item = CaseItem (item_values: "expr list") (item_body: "stmt option") (item_default: bool)

end
