(* ===== verification/Exec_Assign.thy ===== *)
theory Exec_Assign
  imports Statement Evaluator Display_Format Readmem "HOL-Library.AList"
begin

text \<open>
  Assignments in the reference engine, \<open>sim/executor.py\<close>: the state of class \<open>StatementExecutor\<close>, reading
  and writing signals through \<open>EvalContext\<close>, \<open>_lhs_width\<close>, \<open>_write_target\<close> and the queue of
  non-blocking updates with \<open>apply_nba\<close>. The evaluation context and the attributes of the executor are
  the record \<open>exec_state\<close>.

  As for the evaluator, the contexts have no struct-typed signals. The set \<open>_memory_names\<close> is the domain
  of the memories. The changes made before an exception stay, so a step returns the new state
  together with the exception, if any.
\<close>

section \<open>State\<close>

datatype nba =
    NbaEntry string val4
  | MemNbaEntry string int val4
  | MemRangeNbaEntry string int int int val4
  | StructFieldNbaEntry string int int val4

record exec_state =
  es_ctx :: eval_ctx
  es_originals :: "(string \<times> val4 option) list option"
  es_nba :: "nba list"
  es_output :: "string list"
  es_write_buffer :: string
  es_time :: int
  es_limit :: nat
  es_files :: "string \<Rightarrow> string option"

text \<open>\<open>if originals is not None and name not in originals: originals[name] = old\<close>.\<close>

definition note_original :: "string \<Rightarrow> val4 option \<Rightarrow> exec_state \<Rightarrow> exec_state" where
  "note_original name old s = (case es_originals s of
     None \<Rightarrow> s
   | Some orig \<Rightarrow> (if name \<in> fst ` set orig then s else s\<lparr>es_originals := Some (orig @ [(name, old)])\<rparr>))"

text \<open>\<open>"MEM[idx]"\<close> split at the first bracket: the memory name and, when the text ends in a bracket, the index.\<close>

definition element_name :: "string \<Rightarrow> string \<times> int res option" where
  "element_name name =
     (let mem = takeWhile (\<lambda>c. c \<noteq> CHR ''['') name; rest = drop (Suc (length mem)) name
      in (mem, if rest \<noteq> [] \<and> last rest = CHR '']'' then Some (py_int 10 (butlast rest)) else None))"

definition read_signal :: "eval_ctx \<Rightarrow> string \<Rightarrow> val4 res" where
  "read_signal ctx name = (case signals ctx name of
     Some v \<Rightarrow> Inr v
   | None \<Rightarrow>
       (if CHR ''['' \<in> set name then
          (let (mem, idx) = element_name name
           in case (memories ctx mem, idx) of
                (Some (data, _), Some i) \<Rightarrow>
                  rmap (\<lambda>i. if 0 \<le> i \<and> i < int (length data) then data ! nat i else v_x 1) i
              | _ \<Rightarrow> Inr (v_x 1))
        else (case read_whole_memory ctx name of Some v \<Rightarrow> Inr v | None \<Rightarrow> Inr (v_x 1))))"

text \<open>\<open>value.resize(w) if value.width != w else value\<close>; a negative width cannot be built.\<close>

definition resize_to :: "val4 \<Rightarrow> int \<Rightarrow> val4 res" where
  "resize_to v w =
     (if int (v_width v) = w then Inr v else if w < 0 then Inl ValueError else Inr (resize v (nat w)))"

definition set_element :: "string \<Rightarrow> nat \<Rightarrow> val4 \<Rightarrow> exec_state \<Rightarrow> exec_state" where
  "set_element name i v s = (case memories (es_ctx s) name of
     None \<Rightarrow> s
   | Some (data, w) \<Rightarrow>
       s\<lparr>es_ctx := (es_ctx s)\<lparr>memories := (memories (es_ctx s))(name \<mapsto> (data[i := v], w))\<rparr>\<rparr>)"

text \<open>An element written in place by a blocking assignment marks its memory as changed.\<close>

definition store_element :: "string \<Rightarrow> nat \<Rightarrow> val4 \<Rightarrow> exec_state \<Rightarrow> exec_state" where
  "store_element name i v s = note_original name (Some (known 0 1)) (set_element name i v s)"

definition write_plain :: "string \<Rightarrow> val4 \<Rightarrow> exec_state \<Rightarrow> exec_state" where
  "write_plain name v s =
     note_original name (signals (es_ctx s) name)
       (s\<lparr>es_ctx := (es_ctx s)\<lparr>signals := (signals (es_ctx s))(name \<mapsto> v)\<rparr>\<rparr>)"

definition write_signal :: "string \<Rightarrow> val4 \<Rightarrow> exec_state \<Rightarrow> exec_state res" where
  "write_signal name v s =
     (if CHR ''['' \<in> set name \<and> last name = CHR '']'' then
        (let (mem, idx) = element_name name
         in case (memories (es_ctx s) mem, idx) of
              (Some (data, w), Some i) \<Rightarrow>
                rbind i (\<lambda>i. if 0 \<le> i \<and> i < int (length data)
                  then rmap (\<lambda>u. store_element mem (nat i) u s) (resize_to v (int w))
                  else Inr (write_plain name v s))
            | _ \<Rightarrow> Inr (write_plain name v s))
      else (case write_whole_memory (es_ctx s) name v of
          Some ctx' \<Rightarrow> Inr (note_original name (Some (known 0 1)) (s\<lparr>es_ctx := ctx'\<rparr>))
        | None \<Rightarrow> Inr (write_plain name v s)))"

definition queue_nba :: "nba list \<Rightarrow> exec_state \<Rightarrow> exec_state" where
  "queue_nba es s = s\<lparr>es_nba := es_nba s @ es\<rparr>"

text \<open>A whole memory queued element by element; \<open>split_whole\<close> first brings the value to the full width.\<close>

definition queue_memory :: "string \<Rightarrow> val4 list \<Rightarrow> nat \<Rightarrow> val4 \<Rightarrow> exec_state \<Rightarrow> exec_state" where
  "queue_memory name data w v s =
     queue_nba (map (\<lambda>(k, e). MemNbaEntry name (int k) e) (enumerate 0 (split_whole v (length data) w))) s"

section \<open>Assignment targets\<close>

fun lhs_width :: "eval_ctx \<Rightarrow> expr \<Rightarrow> int res" where
  "lhs_width ctx (Identifier n h _) = rmap (\<lambda>v. int (v_width v)) (read_signal ctx (identifier_name n h))"
| "lhs_width ctx (BitSelect t i) = (case t of
     Identifier n h _ \<Rightarrow> (case memories ctx (identifier_name n h) of
        Some (_, w) \<Rightarrow> Inr (int w) | None \<Rightarrow> Inr 1)
   | _ \<Rightarrow> Inr 1)"
| "lhs_width ctx (RangeSelect t m l) =
     rbind (eval ctx m 0 None) (\<lambda>mv. rbind (eval ctx l 0 None) (\<lambda>lv.
       Inr (if v_mask mv = 0 \<and> v_mask lv = 0 then v_val mv - v_val lv + 1 else 1)))"
| "lhs_width ctx (PartSelect t b w d) =
     rmap (\<lambda>wv. if v_mask wv = 0 then v_val wv else 1) (eval ctx w 0 None)"
| "lhs_width ctx (Concatenation parts) = sum_res (map (lhs_width ctx) parts)"
| "lhs_width ctx _ = Inr 1"

text \<open>\<open>_select_base_value\<close>: the base of an indexed part select, signed when its expression is.\<close>

definition select_base_value :: "eval_ctx \<Rightarrow> expr \<Rightarrow> val4 \<Rightarrow> int res" where
  "select_base_value ctx e base =
     (if \<not> expr_signed ctx e then Inr (v_val base)
      else if v_width base = 0 then Inl ValueError
      else Inr (if drop_bit (v_width base - 1) (v_val base) \<noteq> 0
                then v_val base - push_bit (v_width base) 1 else v_val base))"

definition part_bounds :: "direction \<Rightarrow> int \<Rightarrow> int \<Rightarrow> int \<times> int" where
  "part_bounds d base w = (if d = PlusColon then (base + w - 1, base) else (base, base - w + 1))"

definition low_bit :: "val4 \<Rightarrow> val4" where
  "low_bit v = mk_value (v_val v AND 1) 1 (v_mask v AND 1)"

text \<open>A slice of a scalar, or of a memory element, written now or queued.\<close>

definition write_slice :: "bool \<Rightarrow> string \<Rightarrow> int \<Rightarrow> int \<Rightarrow> val4 \<Rightarrow> exec_state \<Rightarrow> exec_state res" where
  "write_slice immediate name m l v s =
     (if immediate
      then rbind (read_signal (es_ctx s) name) (\<lambda>cur. write_signal name (set_range cur m l v) s)
      else Inr (queue_nba [StructFieldNbaEntry name m l v] s))"

definition write_element_slice ::
    "bool \<Rightarrow> string \<Rightarrow> val4 list \<Rightarrow> nat \<Rightarrow> int \<Rightarrow> int \<Rightarrow> val4 \<Rightarrow> exec_state \<Rightarrow> exec_state" where
  "write_element_slice immediate name data i m l v s =
     (if immediate then store_element name i (set_range (data ! i) m l v) s
      else queue_nba [MemRangeNbaEntry name (int i) m l v] s)"

definition in_memory :: "val4 list \<Rightarrow> int \<Rightarrow> bool" where
  "in_memory data i \<longleftrightarrow> 0 \<le> i \<and> i < int (length data)"

definition write_identifier :: "bool \<Rightarrow> string \<Rightarrow> val4 \<Rightarrow> exec_state \<Rightarrow> exec_state res" where
  "write_identifier immediate name v s =
     (let put = (\<lambda>u. if immediate then write_signal name u s else Inr (queue_nba [NbaEntry name u] s))
      in case signals (es_ctx s) name of
        Some cur \<Rightarrow> put (if v_width cur \<noteq> v_width v then resize v (v_width cur) else v)
      | None \<Rightarrow>
          (if CHR ''['' \<in> set name then Inr s
           else (case memories (es_ctx s) name of
               Some (data, w) \<Rightarrow>
                 (let u = (if v_width v \<noteq> length data * w then resize v (length data * w) else v)
                  in if immediate then
                       (case write_whole_memory (es_ctx s) name u of
                          Some ctx' \<Rightarrow> Inr (note_original name (Some (known 0 1)) (s\<lparr>es_ctx := ctx'\<rparr>))
                        | None \<Rightarrow> Inr s)
                     else Inr (queue_memory name data w u s))
             | None \<Rightarrow> put v)))"

definition write_bit_select :: "bool \<Rightarrow> string \<Rightarrow> expr \<Rightarrow> val4 \<Rightarrow> exec_state \<Rightarrow> exec_state res" where
  "write_bit_select immediate name index v s =
     (let ctx = es_ctx s in
      rbind (eval ctx index 0 None) (\<lambda>iv.
        if v_mask iv \<noteq> 0 then Inr s
        else (case memories ctx name of
            Some (data, w) \<Rightarrow>
              (if in_memory data (v_val iv) then
                 (let u = (if v_width v \<noteq> w then resize v w else v)
                  in Inr (if immediate then store_element name (nat (v_val iv)) u s
                          else queue_nba [MemNbaEntry name (v_val iv) u] s))
               else Inr s)
          | None \<Rightarrow>
              rbind (read_signal ctx name) (\<lambda>cur.
                let i = v_val iv - signal_bases ctx name
                in if i < 0 \<or> int (v_width cur) \<le> i then Inr s
                   else if immediate
                     then rbind (set_bit4 cur i (v_val v AND 1) (v_mask v AND 1)) (\<lambda>u. write_signal name u s)
                     else Inr (queue_nba [StructFieldNbaEntry name i i (low_bit v)] s)))))"

definition write_element_bit :: "bool \<Rightarrow> string \<Rightarrow> expr \<Rightarrow> expr \<Rightarrow> val4 \<Rightarrow> exec_state \<Rightarrow> exec_state res" where
  "write_element_bit immediate name outer index v s =
     (let ctx = es_ctx s in
      case memories ctx name of
        None \<Rightarrow> Inr s
      | Some (data, w) \<Rightarrow>
          rbind (eval ctx outer 0 None) (\<lambda>ov. rbind (eval ctx index 0 None) (\<lambda>iv.
            if v_mask ov \<noteq> 0 \<or> v_mask iv \<noteq> 0 then Inr s
            else (let o' = v_val ov; i = v_val iv - memory_bases ctx name
                  in if in_memory data o' \<and> 0 \<le> i \<and> i < int w then
                       (if immediate
                        then rmap (\<lambda>u. store_element name (nat o') u s)
                               (set_bit4 (data ! nat o') i (v_val v AND 1) (v_mask v AND 1))
                        else Inr (queue_nba [MemRangeNbaEntry name o' i i (low_bit v)] s))
                     else Inr s))))"

definition write_element_range ::
    "bool \<Rightarrow> string \<Rightarrow> expr \<Rightarrow> expr \<Rightarrow> expr \<Rightarrow> val4 \<Rightarrow> exec_state \<Rightarrow> exec_state res" where
  "write_element_range immediate name index m l v s =
     (let ctx = es_ctx s in
      case memories ctx name of
        None \<Rightarrow> Inr s
      | Some (data, w) \<Rightarrow>
          rbind (eval ctx index 0 None) (\<lambda>iv. rbind (eval ctx m 0 None) (\<lambda>mv. rbind (eval ctx l 0 None) (\<lambda>lv.
            if v_mask iv = 0 \<and> v_mask mv = 0 \<and> v_mask lv = 0 \<and> in_memory data (v_val iv) then
              (let base = memory_bases ctx name; mi = v_val mv - base; li = v_val lv - base
               in rmap (\<lambda>u. write_element_slice immediate name data (nat (v_val iv)) mi li u s)
                    (resize_to v (mi - li + 1)))
            else Inr s))))"

definition write_range :: "bool \<Rightarrow> string \<Rightarrow> expr \<Rightarrow> expr \<Rightarrow> val4 \<Rightarrow> exec_state \<Rightarrow> exec_state res" where
  "write_range immediate name m l v s =
     (let ctx = es_ctx s in
      rbind (eval ctx m 0 None) (\<lambda>mv. rbind (eval ctx l 0 None) (\<lambda>lv.
        if CHR ''['' \<in> set name then Inr s
        else if v_mask mv = 0 \<and> v_mask lv = 0 then
          (let base = signal_bases ctx name
           in write_slice immediate name (v_val mv - base) (v_val lv - base) v s)
        else Inr s)))"

definition write_element_part ::
    "bool \<Rightarrow> string \<Rightarrow> expr \<Rightarrow> expr \<Rightarrow> expr \<Rightarrow> direction \<Rightarrow> val4 \<Rightarrow> exec_state \<Rightarrow> exec_state res" where
  "write_element_part immediate name index b w d v s =
     (let ctx = es_ctx s in
      case memories ctx name of
        None \<Rightarrow> Inr s
      | Some (data, _) \<Rightarrow>
          rbind (eval ctx index 0 None) (\<lambda>iv. rbind (eval ctx b 0 None) (\<lambda>bv. rbind (eval ctx w 0 None) (\<lambda>wv.
            if v_mask iv = 0 \<and> v_mask bv = 0 \<and> v_mask wv = 0 \<and> in_memory data (v_val iv) then
              rbind (select_base_value ctx b bv) (\<lambda>base.
              let (mi, li) = part_bounds d (base - memory_bases ctx name) (v_val wv)
              in rmap (\<lambda>u. write_element_slice immediate name data (nat (v_val iv)) mi li u s)
                   (resize_to v (v_val wv)))
            else Inr s))))"

definition write_part :: "bool \<Rightarrow> string \<Rightarrow> expr \<Rightarrow> expr \<Rightarrow> direction \<Rightarrow> val4 \<Rightarrow> exec_state \<Rightarrow> exec_state res" where
  "write_part immediate name b w d v s =
     (let ctx = es_ctx s in
      rbind (eval ctx b 0 None) (\<lambda>bv. rbind (eval ctx w 0 None) (\<lambda>wv.
        if CHR ''['' \<in> set name then Inr s
        else if v_mask bv = 0 \<and> v_mask wv = 0 then
          rbind (select_base_value ctx b bv) (\<lambda>base.
          let (mi, li) = part_bounds d (base - signal_bases ctx name) (v_val wv)
          in rbind (resize_to v (v_val wv)) (\<lambda>u. write_slice immediate name mi li u s))
        else Inr s)))"

section \<open>\<open>_write_target\<close>\<close>

text \<open>A step that may raise after it has changed the state.\<close>

type_synonym step = "exec_state \<times> py_error option"

definition attempt :: "exec_state res \<Rightarrow> exec_state \<Rightarrow> step" where
  "attempt r s = (case r of Inr s' \<Rightarrow> (s', None) | Inl e \<Rightarrow> (s, Some e))"

definition then_step :: "step \<Rightarrow> (exec_state \<Rightarrow> step) \<Rightarrow> step" where
  "then_step r f = (case r of (s, None) \<Rightarrow> f s | (s, Some e) \<Rightarrow> (s, Some e))"

text \<open>
  The targets other than a concatenation. A target of another kind, such as a slice of a slice, is
  ignored, and so is a slice of an element of a name that is not a memory.
\<close>

definition write_simple :: "bool \<Rightarrow> expr \<Rightarrow> val4 \<Rightarrow> exec_state \<Rightarrow> exec_state res" where
  "write_simple immediate lhs v s = (case lhs of
     Identifier n h _ \<Rightarrow> write_identifier immediate (identifier_name n h) v s
   | BitSelect t i \<Rightarrow> (case t of
       Identifier n h _ \<Rightarrow> write_bit_select immediate (identifier_name n h) i v s
     | BitSelect u o' \<Rightarrow> (case u of
         Identifier n h _ \<Rightarrow> write_element_bit immediate (identifier_name n h) o' i v s
       | _ \<Rightarrow> Inr s)
     | _ \<Rightarrow> Inr s)
   | RangeSelect t m l \<Rightarrow> (case t of
       Identifier n h _ \<Rightarrow> write_range immediate (identifier_name n h) m l v s
     | BitSelect u i \<Rightarrow> (case u of
         Identifier n h _ \<Rightarrow> write_element_range immediate (identifier_name n h) i m l v s
       | _ \<Rightarrow> Inr s)
     | _ \<Rightarrow> Inr s)
   | PartSelect t b w d \<Rightarrow> (case t of
       Identifier n h _ \<Rightarrow> write_part immediate (identifier_name n h) b w d v s
     | BitSelect u i \<Rightarrow> (case u of
         Identifier n h _ \<Rightarrow> write_element_part immediate (identifier_name n h) i b w d v s
       | _ \<Rightarrow> Inr s)
     | _ \<Rightarrow> Inr s)
   | _ \<Rightarrow> Inr s)"

text \<open>The blocking branch of a concatenation: every part takes its slice, most significant first.\<close>

fun write_parts :: "(expr \<times> (val4 \<Rightarrow> exec_state \<Rightarrow> step)) list \<Rightarrow> int \<Rightarrow> val4 \<Rightarrow> exec_state \<Rightarrow> step" where
  "write_parts [] pos v s = (s, None)"
| "write_parts ((p, wr) # ps) pos v s = (case lhs_width (es_ctx s) p of
     Inl e \<Rightarrow> (s, Some e)
   | Inr w \<Rightarrow> then_step (wr (get_range v (pos - 1) (pos - w)) s) (write_parts ps (pos - w) v))"

text \<open>
  The non-blocking branch, \<open>_concat_nba_accumulate\<close>: scalar parts are collected per signal in
  \<open>pending\<close>, a dict in insertion order; parts that are not scalars go to the queue at once.
\<close>

type_synonym pending = "(string \<times> val4) list"

definition pending_value :: "exec_state \<Rightarrow> pending \<Rightarrow> string \<Rightarrow> val4 res" where
  "pending_value s pend name = (case map_of pend name of Some v \<Rightarrow> Inr v | None \<Rightarrow> read_signal (es_ctx s) name)"

definition accumulate ::
    "expr \<Rightarrow> (val4 \<Rightarrow> exec_state \<Rightarrow> step) \<Rightarrow> val4 \<Rightarrow> exec_state \<Rightarrow> pending \<Rightarrow> step \<times> pending" where
  "accumulate part wr v s pend =
     (let ctx = es_ctx s;
          put = (\<lambda>name r. case r of Inl e \<Rightarrow> ((s, Some e), pend) | Inr u \<Rightarrow> ((s, None), AList.update name u pend));
          keep = ((s, None), pend)
      in case part of
        Identifier n h _ \<Rightarrow>
          (let name = identifier_name n h
           in case memories ctx name of
                Some (data, w) \<Rightarrow> ((queue_memory name data w v s, None), pend)
              | None \<Rightarrow> put name (rmap (\<lambda>cur. if v_width v \<noteq> v_width cur then resize v (v_width cur) else v)
                  (read_signal ctx name)))
      | BitSelect (Identifier n h _) i \<Rightarrow>
          (let name = identifier_name n h
           in case eval ctx i 0 None of
                Inl e \<Rightarrow> ((s, Some e), pend)
              | Inr iv \<Rightarrow> if v_mask iv \<noteq> 0 then keep
                  else put name (rbind (pending_value s pend name)
                         (\<lambda>cur. set_bit4 cur (v_val iv) (v_val v AND 1) (v_mask v AND 1))))
      | RangeSelect (Identifier n h _) m l \<Rightarrow>
          (let name = identifier_name n h
           in case rbind (eval ctx m 0 None) (\<lambda>mv. rmap (\<lambda>lv. (mv, lv)) (eval ctx l 0 None)) of
                Inl e \<Rightarrow> ((s, Some e), pend)
              | Inr (mv, lv) \<Rightarrow> if v_mask mv \<noteq> 0 \<or> v_mask lv \<noteq> 0 then keep
                  else put name (rmap (\<lambda>cur. set_range cur (v_val mv) (v_val lv) v) (pending_value s pend name)))
      | _ \<Rightarrow> (wr v s, pend))"

fun queue_parts ::
    "(expr \<times> (val4 \<Rightarrow> exec_state \<Rightarrow> step)) list \<Rightarrow> int \<Rightarrow> val4 \<Rightarrow> pending \<Rightarrow> exec_state \<Rightarrow> step" where
  "queue_parts [] pos v pend s = (queue_nba (map (\<lambda>(name, u). NbaEntry name u) pend) s, None)"
| "queue_parts ((p, wr) # ps) pos v pend s = (case lhs_width (es_ctx s) p of
     Inl e \<Rightarrow> (s, Some e)
   | Inr w \<Rightarrow> (case accumulate p wr (get_range v (pos - 1) (pos - w)) s pend of
       (r, pend') \<Rightarrow> then_step r (queue_parts ps (pos - w) v pend')))"

fun write_target :: "bool \<Rightarrow> expr \<Rightarrow> val4 \<Rightarrow> exec_state \<Rightarrow> step" where
  "write_target immediate (Concatenation parts) v s = (case sum_res (map (lhs_width (es_ctx s)) parts) of
     Inl e \<Rightarrow> (s, Some e)
   | Inr all \<Rightarrow>
       (let ps = map (\<lambda>p. (p, write_target immediate p)) parts
        in if immediate then write_parts ps all v s else queue_parts ps all v [] s))"
| "write_target immediate lhs v s = attempt (write_simple immediate lhs v s) s"

section \<open>Whole memories\<close>

text \<open>
  \<open>_copy_whole_memory\<close> and \<open>_assign_pattern_to_memory\<close>. \<open>None\<close> stands for the result \<open>False\<close>: the
  assignment is not of that kind.
\<close>

definition write_elements :: "bool \<Rightarrow> string \<Rightarrow> val4 list \<Rightarrow> nat \<Rightarrow> exec_state \<Rightarrow> exec_state" where
  "write_elements immediate name vs w s =
     (if immediate
      then note_original name (Some (known 0 1))
             (s\<lparr>es_ctx := (es_ctx s)\<lparr>memories := (memories (es_ctx s))(name \<mapsto> (vs, w))\<rparr>\<rparr>)
      else queue_nba (map (\<lambda>(k, v). MemNbaEntry name (int k) v) (enumerate 0 vs)) s)"

definition fit_element :: "nat \<Rightarrow> val4 \<Rightarrow> val4" where
  "fit_element w v = (if v_width v \<noteq> w then resize v w else v)"

definition copy_whole_memory :: "bool \<Rightarrow> expr \<Rightarrow> expr \<Rightarrow> exec_state \<Rightarrow> exec_state option" where
  "copy_whole_memory immediate lhs rhs s = (case (lhs, rhs) of
     (Identifier n h _, Identifier n' h' _) \<Rightarrow>
       (case (memories (es_ctx s) (identifier_name n h), memories (es_ctx s) (identifier_name n' h')) of
          (Some (ldata, lw), Some (rdata, rw)) \<Rightarrow>
            (if lw \<noteq> rw \<or> length ldata \<noteq> length rdata then None
             else Some (write_elements immediate (identifier_name n h) (map (fit_element lw) rdata) lw s))
        | _ \<Rightarrow> None)
   | _ \<Rightarrow> None)"

definition assign_pattern_to_memory :: "bool \<Rightarrow> expr \<Rightarrow> expr \<Rightarrow> exec_state \<Rightarrow> exec_state res option" where
  "assign_pattern_to_memory immediate lhs rhs s = (case (lhs, rhs) of
     (Identifier n h _, AssignmentPattern named pos dflt) \<Rightarrow>
       (if named \<noteq> [] \<or> pos = [] then None
        else (case memories (es_ctx s) (identifier_name n h) of
            None \<Rightarrow> None
          | Some (data, w) \<Rightarrow>
              (if length pos \<noteq> length data then None
               else Some (rmap (\<lambda>vs. write_elements immediate (identifier_name n h) (map (fit_element w) vs) w s)
                      (seq_res (map (\<lambda>p. eval (es_ctx s) p (int w) None) pos))))))
   | _ \<Rightarrow> None)"

section \<open>Assignments\<close>

text \<open>The right-hand side is evaluated at the width of the target; a narrower signed result is extended again.\<close>

definition assign_value :: "eval_ctx \<Rightarrow> expr \<Rightarrow> int \<Rightarrow> val4 res" where
  "assign_value ctx rhs w =
     rbind (eval ctx rhs w None) (\<lambda>v.
       if int (v_width v) < w \<and> expr_signed ctx rhs then sign_extend v (nat w) else Inr v)"

text \<open>A plain name of a scalar takes the short way past the memory cases.\<close>

definition scalar_target :: "eval_ctx \<Rightarrow> expr \<Rightarrow> val4 option" where
  "scalar_target ctx lhs = (case lhs of
     Identifier n h _ \<Rightarrow> if h = [] \<and> memories ctx n = None then signals ctx n else None
   | _ \<Rightarrow> None)"

definition assign :: "bool \<Rightarrow> expr \<Rightarrow> expr \<Rightarrow> exec_state \<Rightarrow> step" where
  "assign immediate lhs rhs s =
     (let ctx = es_ctx s;
          store = (\<lambda>w. case assign_value ctx rhs w of
                     Inl e \<Rightarrow> (s, Some e) | Inr v \<Rightarrow> write_target immediate lhs v s)
      in case scalar_target ctx lhs of
           Some cur \<Rightarrow> store (int (v_width cur))
         | None \<Rightarrow> (case copy_whole_memory immediate lhs rhs s of
             Some s' \<Rightarrow> (s', None)
           | None \<Rightarrow> (case assign_pattern_to_memory immediate lhs rhs s of
               Some r \<Rightarrow> attempt r s
             | None \<Rightarrow> (case lhs_width ctx lhs of Inl e \<Rightarrow> (s, Some e) | Inr w \<Rightarrow> store w))))"

section \<open>Committing the queue\<close>

text \<open>One entry of \<open>apply_nba\<close>, and whether it changed the state; the changed names are collected.\<close>

definition apply_element :: "string \<Rightarrow> int \<Rightarrow> (val4 \<Rightarrow> val4) \<Rightarrow> eval_ctx \<Rightarrow> eval_ctx \<times> bool" where
  "apply_element name i f ctx = (case memories ctx name of
     Some (data, w) \<Rightarrow>
       (if in_memory data i then
          (let old = data ! nat i; new = f old
           in if v_val old \<noteq> v_val new \<or> v_mask old \<noteq> v_mask new
              then (ctx\<lparr>memories := (memories ctx)(name \<mapsto> (data[nat i := new], w))\<rparr>, True) else (ctx, False))
        else (ctx, False))
   | None \<Rightarrow> (ctx, False))"

definition apply_entry :: "nba \<Rightarrow> eval_ctx \<Rightarrow> (eval_ctx \<times> bool) res" where
  "apply_entry e ctx = (case e of
     MemNbaEntry name i v \<Rightarrow> Inr (apply_element name i (\<lambda>_. v) ctx)
   | MemRangeNbaEntry name i m l v \<Rightarrow> Inr (apply_element name i (\<lambda>old. set_range old m l v) ctx)
   | StructFieldNbaEntry name m l v \<Rightarrow> (case signals ctx name of
       None \<Rightarrow> Inr (ctx, False)
     | Some old \<Rightarrow>
         (let new = set_range old m l v
          in Inr (if v_val new \<noteq> v_val old \<or> v_mask new \<noteq> v_mask old
                  then (ctx\<lparr>signals := (signals ctx)(name \<mapsto> new)\<rparr>, True) else (ctx, False))))
   | NbaEntry name v \<Rightarrow>
       rmap (\<lambda>old. if v_val old \<noteq> v_val v \<or> v_mask old \<noteq> v_mask v
                   then (ctx\<lparr>signals := (signals ctx)(name \<mapsto> v)\<rparr>, True) else (ctx, False))
         (read_signal ctx name))"

fun nba_name :: "nba \<Rightarrow> string" where
  "nba_name (NbaEntry name _) = name"
| "nba_name (MemNbaEntry name _ _) = name"
| "nba_name (MemRangeNbaEntry name _ _ _ _) = name"
| "nba_name (StructFieldNbaEntry name _ _ _) = name"

fun apply_entries :: "nba list \<Rightarrow> eval_ctx \<Rightarrow> string set \<Rightarrow> (eval_ctx \<times> string set) res" where
  "apply_entries [] ctx changed = Inr (ctx, changed)"
| "apply_entries (e # es) ctx changed =
     rbind (apply_entry e ctx) (\<lambda>(ctx', ch). apply_entries es ctx' (if ch then insert (nba_name e) changed else changed))"

definition apply_nba :: "exec_state \<Rightarrow> (exec_state \<times> string set) res" where
  "apply_nba s = rmap (\<lambda>(ctx, changed). (s\<lparr>es_ctx := ctx, es_nba := []\<rparr>, changed)) (apply_entries (es_nba s) (es_ctx s) {})"

end
