(* ===== verification/Executor.thy ===== *)
theory Executor
  imports Exec_Assign
begin

text \<open>
  The two statement executors of \<open>sim/executor.py\<close>: \<open>execute\<close>, which raises at the first timing control,
  and the generator \<open>execute_coroutine\<close>, which suspends there and can be resumed. Each is one recursion
  over the statement; the loops are bounded by \<open>loop_limit\<close>.

  User tasks are not modelled: a call of a task is then an unknown task, which the source skips. The
  files that \<open>$readmemh\<close> opens are the function \<open>es_files\<close>; the waveform tasks (\<open>$dumpfile\<close>, \<open>$dumpvars\<close>
  and the controls of a dump) end in \<open>Unmodelled\<close>.
\<close>

section \<open>Results\<close>

datatype completion =
    Completed
  | Finished
  | Suspended "int option" "sensitivity_edge list"
  | Disabled string
  | Failed py_error

type_synonym exec_result = "exec_state \<times> completion"

definition of_step :: "step \<Rightarrow> exec_result" where
  "of_step r = (case r of (s, None) \<Rightarrow> (s, Completed) | (s, Some e) \<Rightarrow> (s, Failed e))"

definition and_then :: "exec_result \<Rightarrow> (exec_state \<Rightarrow> exec_result) \<Rightarrow> exec_result" where
  "and_then r f = (case r of (s, Completed) \<Rightarrow> f s | (s, c) \<Rightarrow> (s, c))"

text \<open>\<open>except DisableBlock\<close> of a block with a name.\<close>

definition leave_block :: "string \<Rightarrow> exec_result \<Rightarrow> exec_result" where
  "leave_block name r = (case r of
     (s, Disabled target) \<Rightarrow> if name \<noteq> [] \<and> target = name then (s, Completed) else r
   | _ \<Rightarrow> r)"

definition condition_holds :: "eval_ctx \<Rightarrow> expr \<Rightarrow> bool res" where
  "condition_holds ctx c =
     rbind (expr_self_width ctx c) (\<lambda>w. rmap (\<lambda>v. v_mask (reduce_or v) = 0 \<and> v_val (reduce_or v) \<noteq> 0)
       (eval ctx c w None))"

definition case_match :: "string \<Rightarrow> val4 \<Rightarrow> val4 \<Rightarrow> bool" where
  "case_match case_type sel item =
     (if case_type = ''case'' then v_mask sel = 0 \<and> v_mask item = 0 \<and> v_val sel = v_val item
      else if case_type = ''casex'' \<or> case_type = ''casez'' then
        (let dc = v_mask sel OR v_mask item in v_val sel AND NOT dc = v_val item AND NOT dc)
      else v_val sel = v_val item)"

section \<open>System tasks\<close>

definition display_text :: "exec_state \<Rightarrow> expr list \<Rightarrow> string res" where
  "display_text s args = (case args of
     [] \<Rightarrow> Inr []
   | StringLiteral fmt # rest \<Rightarrow>
       rbind (seq_res (map (\<lambda>a. eval (es_ctx s) a 0 None) rest)) (apply_format (es_time s) fmt)
   | _ \<Rightarrow> rmap (\<lambda>vs. concat (map (\<lambda>v. format_value v CHR ''d'' 0 False False) vs))
            (seq_res (map (\<lambda>a. eval (es_ctx s) a 0 None) args)))"

definition exec_display :: "expr list \<Rightarrow> exec_state \<Rightarrow> exec_result" where
  "exec_display args s = (case display_text s args of
     Inl e \<Rightarrow> (s, Failed e)
   | Inr t \<Rightarrow> (s\<lparr>es_output := es_output s @ [es_write_buffer s @ t], es_write_buffer := []\<rparr>, Completed))"

definition severity_letter :: "string \<Rightarrow> char option" where
  "severity_letter name =
     (if name = ''$info'' then Some CHR ''I'' else if name = ''$warning'' then Some CHR ''W''
      else if name = ''$error'' then Some CHR ''E'' else if name = ''$fatal'' then Some CHR ''F'' else None)"

text \<open>The \<open>$display\<close> arguments that stand for a severity task, and whether \<open>$finish\<close> follows.\<close>

definition severity_display :: "string \<Rightarrow> string \<Rightarrow> expr list \<Rightarrow> (expr list \<times> bool) option" where
  "severity_display name where args = (case severity_letter (lower name) of
     None \<Rightarrow> None
   | Some letter \<Rightarrow>
       (let fatal = (lower name = ''$fatal'');
            args = (case args of Literal _ # rest \<Rightarrow> if fatal then rest else args | _ \<Rightarrow> args);
            (fmt, rest) = (case args of StringLiteral f # rest \<Rightarrow> (f, rest)
                           | _ \<Rightarrow> (join_with '' '' (replicate (length args) ''%0d''), args))
        in Some (StringLiteral ([CHR 0x1E, letter] @ ''%0d'' @ [CHR 0x1F] @ where @ fmt)
                   # FunctionCall ''$time'' [] # rest, fatal)))"

definition address_arg :: "eval_ctx \<Rightarrow> expr list \<Rightarrow> nat \<Rightarrow> int option res" where
  "address_arg ctx args i =
     (if length args \<le> i then Inr None
      else rbind (eval ctx (args ! i) 0 None) (\<lambda>v.
        if v_mask v \<noteq> 0 then Inr None
        else if expr_signed ctx (args ! i) then rmap Some (as_signed v) else Inr (Some (v_val v))))"

definition store_words :: "string \<Rightarrow> val4 list \<Rightarrow> nat \<Rightarrow> store_list \<Rightarrow> exec_state \<Rightarrow> exec_state" where
  "store_words name data w stores s =
     s\<lparr>es_ctx := (es_ctx s)\<lparr>memories := (memories (es_ctx s))(name \<mapsto>
        (fold (\<lambda>(slot, val, msk) d. if in_memory d slot then d[nat slot := mk_value val w msk] else d) stores data, w))\<rparr>\<rparr>"

definition exec_readmem :: "bool \<Rightarrow> expr list \<Rightarrow> exec_state \<Rightarrow> exec_result" where
  "exec_readmem is_hex args s = (case args of
     StringLiteral filename # Identifier n h _ # _ \<Rightarrow>
       (let name = identifier_name n h; ctx = es_ctx s
        in case memories ctx name of
             None \<Rightarrow> (s, Completed)
           | Some (data, w) \<Rightarrow> (case es_files s filename of
               None \<Rightarrow> (s, Failed OSError)
             | Some txt \<Rightarrow>
                 (case rbind (address_arg ctx args 4) (\<lambda>base. rbind (address_arg ctx args 2) (\<lambda>start.
                         rmap (\<lambda>final. (opt_or base 0, start, final)) (address_arg ctx args 3))) of
                    Inl e \<Rightarrow> (s, Failed e)
                  | Inr (base, start, final) \<Rightarrow>
                      (let (stores, err) = load txt is_hex w (length data) base start final;
                           s' = store_words name data w stores s
                       in case err of
                            Some e \<Rightarrow> (s', Failed e)
                          | None \<Rightarrow> (if list_ex (\<lambda>(slot, _). in_memory data slot) stores
                                     then note_original name (Some (known 0 1)) s' else s', Completed)))))
   | _ \<Rightarrow> (s, Completed))"

definition exec_system_task :: "string \<Rightarrow> string \<Rightarrow> expr list \<Rightarrow> exec_state \<Rightarrow> exec_result" where
  "exec_system_task task_name where args s = (case severity_display task_name where args of
     Some (display, fatal) \<Rightarrow>
       and_then (exec_display display s) (\<lambda>s'. (s', if fatal then Finished else Completed))
   | None \<Rightarrow>
       (let name = lower task_name
        in if name = ''$display'' then exec_display args s
           else if name = ''$write'' then
             (case display_text s args of
                Inl e \<Rightarrow> (s, Failed e)
              | Inr t \<Rightarrow> (s\<lparr>es_write_buffer := es_write_buffer s @ t\<rparr>, Completed))
           else if name = ''$monitor'' then
             (case display_text s args of
                Inl e \<Rightarrow> (s, Failed e)
              | Inr t \<Rightarrow> (s\<lparr>es_output := es_output s @ [t]\<rparr>, Completed))
           else if name = ''$finish'' \<or> name = ''$stop'' then (s, Finished)
           else if name = ''$readmemh'' \<or> name = ''$readmemb'' then exec_readmem (name = ''$readmemh'') args s
           else if name \<in> {''$dumpfile'', ''$dumpvars'', ''$dumpoff'', ''$dumpon'', ''$dumpall'', ''$dumpflush'', ''$dumplimit''}
             then (s, Failed Unmodelled)
           else (s, Completed)))"

section \<open>Control flow\<close>

definition exec_option :: "(exec_state \<Rightarrow> exec_result) option \<Rightarrow> exec_state \<Rightarrow> exec_result" where
  "exec_option body s = (case body of Some f \<Rightarrow> f s | None \<Rightarrow> (s, Completed))"

fun exec_block :: "(exec_state \<Rightarrow> exec_result) list \<Rightarrow> exec_state \<Rightarrow> exec_result" where
  "exec_block [] s = (s, Completed)"
| "exec_block (f # fs) s = and_then (f s) (exec_block fs)"

definition exec_if ::
    "expr \<Rightarrow> (exec_state \<Rightarrow> exec_result) option \<Rightarrow> (exec_state \<Rightarrow> exec_result) option \<Rightarrow> exec_state \<Rightarrow> exec_result" where
  "exec_if c t e s = (case condition_holds (es_ctx s) c of
     Inl err \<Rightarrow> (s, Failed err)
   | Inr b \<Rightarrow> exec_option (if b then t else e) s)"

text \<open>Whether one of the values of a case item matches; the values after a match are not evaluated.\<close>

fun matches_any :: "eval_ctx \<Rightarrow> string \<Rightarrow> val4 \<Rightarrow> expr list \<Rightarrow> bool res" where
  "matches_any ctx ct sel [] = Inr False"
| "matches_any ctx ct sel (e # es) =
     rbind (eval ctx e 0 None) (\<lambda>v. if case_match ct sel v then Inr True else matches_any ctx ct sel es)"

type_synonym 'a exec_item = "expr list \<times> 'a option \<times> bool"

text \<open>The body of the item that is taken: items are tried in order, and a default is taken where it stands.\<close>

fun select_item :: "eval_ctx \<Rightarrow> string \<Rightarrow> val4 \<Rightarrow> 'a exec_item list \<Rightarrow> 'a option res" where
  "select_item ctx ct sel [] = Inr None"
| "select_item ctx ct sel ((vals, body, is_default) # items) =
     (if is_default then Inr body
      else rbind (matches_any ctx ct sel vals) (\<lambda>hit. if hit then Inr body else select_item ctx ct sel items))"

definition exec_case :: "string \<Rightarrow> expr \<Rightarrow> (exec_state \<Rightarrow> exec_result) exec_item list \<Rightarrow> exec_state \<Rightarrow> exec_result" where
  "exec_case ct e items s =
     (case rbind (eval (es_ctx s) e 0 None) (\<lambda>sel. select_item (es_ctx s) ct sel items) of
        Inl err \<Rightarrow> (s, Failed err)
      | Inr body \<Rightarrow> exec_option body s)"

text \<open>\<open>exec_loop k\<close>: \<open>k\<close> more iterations may end before the limit is exceeded.\<close>

fun exec_loop ::
    "nat \<Rightarrow> (eval_ctx \<Rightarrow> bool res) \<Rightarrow> (exec_state \<Rightarrow> exec_result) \<Rightarrow> exec_state \<Rightarrow> exec_result" where
  "exec_loop k test body s = (case test (es_ctx s) of
     Inl err \<Rightarrow> (s, Failed err)
   | Inr False \<Rightarrow> (s, Completed)
   | Inr True \<Rightarrow> and_then (body s) (\<lambda>s'. case k of
       0 \<Rightarrow> (s', Failed RuntimeError) | Suc k' \<Rightarrow> exec_loop k' test body s'))"

declare exec_loop.simps [simp del]

fun exec_repeat :: "nat \<Rightarrow> (exec_state \<Rightarrow> exec_result) \<Rightarrow> exec_state \<Rightarrow> exec_result" where
  "exec_repeat 0 body s = (s, Completed)"
| "exec_repeat (Suc n) body s = and_then (body s) (exec_repeat n body)"

text \<open>The variable of a signed \<open>for\<close> loop, and the test that stops it below zero.\<close>

definition for_variable :: "stmt \<Rightarrow> string option" where
  "for_variable init = (case init of
     BlockingAssign (Identifier n _ _) _ \<Rightarrow> Some n
   | NonblockingAssign (Identifier n _ _) _ \<Rightarrow> Some n
   | _ \<Rightarrow> None)"

definition is_negative :: "val4 \<Rightarrow> bool" where
  "is_negative v \<longleftrightarrow> v_mask v = 0 \<and> 1 < v_width v \<and> drop_bit (v_width v - 1) (v_val v) AND 1 \<noteq> 0"

definition for_test :: "stmt \<Rightarrow> bool \<Rightarrow> expr \<Rightarrow> eval_ctx \<Rightarrow> bool res" where
  "for_test init signed_var c ctx =
     rbind (case (if signed_var then for_variable init else None) of
              Some n \<Rightarrow> rmap is_negative (read_signal ctx n) | None \<Rightarrow> Inr False)
       (\<lambda>negative. if negative then Inr False else condition_holds ctx c)"

definition repeat_count :: "exec_state \<Rightarrow> expr \<Rightarrow> nat res" where
  "repeat_count s c =
     rmap (\<lambda>v. if v_mask v = 0 then min (nat (v_val v)) (es_limit s) else 0) (eval (es_ctx s) c 0 None)"

definition delay_of :: "eval_ctx \<Rightarrow> expr \<Rightarrow> int res" where
  "delay_of ctx d = rmap (\<lambda>v. if v_mask v = 0 then v_val v else 0) (eval ctx d 0 None)"

definition trigger_event :: "string \<Rightarrow> exec_state \<Rightarrow> step" where
  "trigger_event name s = (case read_signal (es_ctx s) name of
     Inl e \<Rightarrow> (s, Some e)
   | Inr cur \<Rightarrow> attempt (write_signal name (known (if v_val cur \<noteq> 0 then 0 else 1) 1) s) s)"

section \<open>\<open>execute\<close>\<close>

primrec execute_stmt :: "stmt \<Rightarrow> exec_state \<Rightarrow> exec_result"
  and execute_case_item :: "case_item \<Rightarrow> (exec_state \<Rightarrow> exec_result) exec_item" where
  "execute_stmt (BlockingAssign lhs rhs) = (\<lambda>s. of_step (assign True lhs rhs s))"
| "execute_stmt (NonblockingAssign lhs rhs) = (\<lambda>s. of_step (assign False lhs rhs s))"
| "execute_stmt (SeqBlock name ss) = (\<lambda>s. leave_block name (exec_block (map execute_stmt ss) s))"
| "execute_stmt (ParBlock name ss) = (\<lambda>s. leave_block name (exec_block (map execute_stmt ss) s))"
| "execute_stmt (IfStatement c t e) = exec_if c (map_option execute_stmt t) (map_option execute_stmt e)"
| "execute_stmt (CaseStatement ct e items) = exec_case ct e (map execute_case_item items)"
| "execute_stmt (ForLoop init c upd body signed_var) =
     (\<lambda>s. and_then (execute_stmt init s)
       (\<lambda>s. exec_loop (es_limit s) (for_test init signed_var c)
              (\<lambda>s. and_then (exec_option (map_option execute_stmt body) s) (execute_stmt upd)) s))"
| "execute_stmt (WhileLoop c body) =
     (\<lambda>s. exec_loop (es_limit s) (\<lambda>ctx. condition_holds ctx c) (exec_option (map_option execute_stmt body)) s)"
| "execute_stmt (ForeverLoop body) =
     (\<lambda>s. exec_loop (es_limit s) (\<lambda>ctx. Inr True) (exec_option (map_option execute_stmt body)) s)"
| "execute_stmt (RepeatLoop c body) =
     (\<lambda>s. case repeat_count s c of
        Inl e \<Rightarrow> (s, Failed e) | Inr n \<Rightarrow> exec_repeat n (exec_option (map_option execute_stmt body)) s)"
| "execute_stmt (DelayControl d body) =
     (\<lambda>s. case delay_of (es_ctx s) d of Inl e \<Rightarrow> (s, Failed e) | Inr n \<Rightarrow> (s, Suspended (Some n) []))"
| "execute_stmt (EventControl evs body) = (\<lambda>s. (s, Suspended None evs))"
| "execute_stmt (WaitStatement c body) =
     (\<lambda>s. case condition_holds (es_ctx s) c of
        Inl e \<Rightarrow> (s, Failed e)
      | Inr True \<Rightarrow> exec_option (map_option execute_stmt body) s
      | Inr False \<Rightarrow> (s, Suspended None []))"
| "execute_stmt (DisableStatement target) = (\<lambda>s. (s, Disabled target))"
| "execute_stmt (EventTrigger name) = (\<lambda>s. of_step (trigger_event name s))"
| "execute_stmt (SystemTaskCall name where args) = exec_system_task name where args"
| "execute_stmt (TaskEnable name args) = (\<lambda>s. (s, Completed))"
| "execute_case_item (CaseItem vals body is_default) = (vals, map_option execute_stmt body, is_default)"

section \<open>\<open>execute_coroutine\<close>\<close>

text \<open>
  What the generator does: it returns, or it yields a suspension together with the state at that
  moment and waits to be resumed in the state that it then finds.
\<close>

datatype coroutine =
    Return exec_state completion
  | Yield "int option" "sensitivity_edge list" exec_state "exec_state \<Rightarrow> coroutine"

definition co_result :: "exec_result \<Rightarrow> coroutine" where
  "co_result r = Return (fst r) (snd r)"

primrec co_then :: "coroutine \<Rightarrow> (exec_state \<Rightarrow> coroutine) \<Rightarrow> coroutine" where
  "co_then (Return s c) f = (if c = Completed then f s else Return s c)"
| "co_then (Yield d evs s k) f = Yield d evs s (\<lambda>s'. co_then (k s') f)"

primrec co_leave :: "string \<Rightarrow> coroutine \<Rightarrow> coroutine" where
  "co_leave name (Return s c) = co_result (leave_block name (s, c))"
| "co_leave name (Yield d evs s k) = Yield d evs s (\<lambda>s'. co_leave name (k s'))"

definition co_option :: "(exec_state \<Rightarrow> coroutine) option \<Rightarrow> exec_state \<Rightarrow> coroutine" where
  "co_option body s = (case body of Some f \<Rightarrow> f s | None \<Rightarrow> Return s Completed)"

fun co_block :: "(exec_state \<Rightarrow> coroutine) list \<Rightarrow> exec_state \<Rightarrow> coroutine" where
  "co_block [] s = Return s Completed"
| "co_block (f # fs) s = co_then (f s) (co_block fs)"

definition co_if ::
    "expr \<Rightarrow> (exec_state \<Rightarrow> coroutine) option \<Rightarrow> (exec_state \<Rightarrow> coroutine) option \<Rightarrow> exec_state \<Rightarrow> coroutine" where
  "co_if c t e s = (case condition_holds (es_ctx s) c of
     Inl err \<Rightarrow> Return s (Failed err)
   | Inr b \<Rightarrow> co_option (if b then t else e) s)"

definition co_case :: "string \<Rightarrow> expr \<Rightarrow> (exec_state \<Rightarrow> coroutine) exec_item list \<Rightarrow> exec_state \<Rightarrow> coroutine" where
  "co_case ct e items s =
     (case rbind (eval (es_ctx s) e 0 None) (\<lambda>sel. select_item (es_ctx s) ct sel items) of
        Inl err \<Rightarrow> Return s (Failed err)
      | Inr body \<Rightarrow> co_option body s)"

fun co_loop :: "nat \<Rightarrow> (eval_ctx \<Rightarrow> bool res) \<Rightarrow> (exec_state \<Rightarrow> coroutine) \<Rightarrow> exec_state \<Rightarrow> coroutine" where
  "co_loop k test body s = (case test (es_ctx s) of
     Inl err \<Rightarrow> Return s (Failed err)
   | Inr False \<Rightarrow> Return s Completed
   | Inr True \<Rightarrow> co_then (body s) (\<lambda>s'. case k of
       0 \<Rightarrow> Return s' (Failed RuntimeError) | Suc k' \<Rightarrow> co_loop k' test body s'))"

declare co_loop.simps [simp del]

fun co_repeat :: "nat \<Rightarrow> (exec_state \<Rightarrow> coroutine) \<Rightarrow> exec_state \<Rightarrow> coroutine" where
  "co_repeat 0 body s = Return s Completed"
| "co_repeat (Suc n) body s = co_then (body s) (co_repeat n body)"

text \<open>The assignments of the generator do not take the short way for scalars.\<close>

definition co_assign :: "bool \<Rightarrow> expr \<Rightarrow> expr \<Rightarrow> exec_state \<Rightarrow> step" where
  "co_assign immediate lhs rhs s =
     (case copy_whole_memory immediate lhs rhs s of
        Some s' \<Rightarrow> (s', None)
      | None \<Rightarrow> (case assign_pattern_to_memory immediate lhs rhs s of
          Some r \<Rightarrow> attempt r s
        | None \<Rightarrow> (case lhs_width (es_ctx s) lhs of
            Inl e \<Rightarrow> (s, Some e)
          | Inr w \<Rightarrow> (case assign_value (es_ctx s) rhs w of
              Inl e \<Rightarrow> (s, Some e) | Inr v \<Rightarrow> write_target immediate lhs v s))))"

primrec execute_coroutine :: "stmt \<Rightarrow> exec_state \<Rightarrow> coroutine"
  and coroutine_item :: "case_item \<Rightarrow> (exec_state \<Rightarrow> coroutine) exec_item" where
  "execute_coroutine (BlockingAssign lhs rhs) = (\<lambda>s. co_result (of_step (co_assign True lhs rhs s)))"
| "execute_coroutine (NonblockingAssign lhs rhs) = (\<lambda>s. co_result (of_step (co_assign False lhs rhs s)))"
| "execute_coroutine (SeqBlock name ss) = (\<lambda>s. co_leave name (co_block (map execute_coroutine ss) s))"
| "execute_coroutine (ParBlock name ss) = (\<lambda>s. co_leave name (co_block (map execute_coroutine ss) s))"
| "execute_coroutine (IfStatement c t e) = co_if c (map_option execute_coroutine t) (map_option execute_coroutine e)"
| "execute_coroutine (CaseStatement ct e items) = co_case ct e (map coroutine_item items)"
| "execute_coroutine (ForLoop init c upd body signed_var) =
     (\<lambda>s. co_then (execute_coroutine init s)
       (\<lambda>s. co_loop (es_limit s) (for_test init signed_var c)
              (\<lambda>s. co_then (co_option (map_option execute_coroutine body) s) (execute_coroutine upd)) s))"
| "execute_coroutine (WhileLoop c body) =
     (\<lambda>s. co_loop (es_limit s) (\<lambda>ctx. condition_holds ctx c) (co_option (map_option execute_coroutine body)) s)"
| "execute_coroutine (ForeverLoop body) =
     (\<lambda>s. co_loop (es_limit s) (\<lambda>ctx. Inr True) (co_option (map_option execute_coroutine body)) s)"
| "execute_coroutine (RepeatLoop c body) =
     (\<lambda>s. case repeat_count s c of
        Inl e \<Rightarrow> Return s (Failed e) | Inr n \<Rightarrow> co_repeat n (co_option (map_option execute_coroutine body)) s)"
| "execute_coroutine (DelayControl d body) =
     (\<lambda>s. case delay_of (es_ctx s) d of
        Inl e \<Rightarrow> Return s (Failed e)
      | Inr n \<Rightarrow> Yield (Some n) [] s (co_option (map_option execute_coroutine body)))"
| "execute_coroutine (EventControl evs body) =
     (\<lambda>s. Yield None evs s (co_option (map_option execute_coroutine body)))"
| "execute_coroutine (WaitStatement c body) =
     (\<lambda>s. case condition_holds (es_ctx s) c of
        Inl e \<Rightarrow> Return s (Failed e)
      | Inr True \<Rightarrow> co_option (map_option execute_coroutine body) s
      | Inr False \<Rightarrow> Yield None [] s (\<lambda>s. Return s Completed))"
| "execute_coroutine (DisableStatement target) = (\<lambda>s. Return s (Disabled target))"
| "execute_coroutine (EventTrigger name) = (\<lambda>s. co_result (of_step (trigger_event name s)))"
| "execute_coroutine (SystemTaskCall name where args) = (\<lambda>s. co_result (exec_system_task name where args s))"
| "execute_coroutine (TaskEnable name args) = (\<lambda>s. Return s Completed)"
| "coroutine_item (CaseItem vals body is_default) = (vals, map_option execute_coroutine body, is_default)"

end
