(* ===== verification/Nonblocking.thy ===== *)
theory Nonblocking
  imports Executor
begin

text \<open>
  Non-blocking assignments: what a process queues, and why the order in which processes run does not
  matter. \<open>push q s\<close> is the state \<open>s\<close> with more entries at the front of its queue.
\<close>

section \<open>Nothing reads the queue\<close>

definition push :: "nba list \<Rightarrow> exec_state \<Rightarrow> exec_state" where
  "push q s = s\<lparr>es_nba := q @ es_nba s\<rparr>"

named_theorems push_simps \<open>the steps of the executor commute with \<open>push\<close>\<close>

lemma push_sel [simp]:
  "es_ctx (push q s) = es_ctx s" "es_originals (push q s) = es_originals s" "es_nba (push q s) = q @ es_nba s"
  "es_output (push q s) = es_output s" "es_write_buffer (push q s) = es_write_buffer s"
  "es_time (push q s) = es_time s" "es_limit (push q s) = es_limit s" "es_files (push q s) = es_files s"
  by (simp_all add: push_def)

lemma push_upd [simp]:
  "(push q s)\<lparr>es_ctx := c\<rparr> = push q (s\<lparr>es_ctx := c\<rparr>)"
  "(push q s)\<lparr>es_originals := og\<rparr> = push q (s\<lparr>es_originals := og\<rparr>)"
  "(push q s)\<lparr>es_output := ot\<rparr> = push q (s\<lparr>es_output := ot\<rparr>)"
  "(push q s)\<lparr>es_write_buffer := b\<rparr> = push q (s\<lparr>es_write_buffer := b\<rparr>)"
  by (simp_all add: push_def)

lemma push_queue [push_simps]: "queue_nba es (push q s) = push q (queue_nba es s)"
  by (simp add: queue_nba_def push_def)

lemma push_primitives [push_simps]:
  "note_original name old (push q s) = push q (note_original name old s)"
  "set_element name i v (push q s) = push q (set_element name i v s)"
  "write_plain name v (push q s) = push q (write_plain name v s)"
  "queue_memory name data w v (push q s) = push q (queue_memory name data w v s)"
  "write_elements im name vs w (push q s) = push q (write_elements im name vs w s)"
  by (simp_all add: note_original_def set_element_def write_plain_def queue_memory_def write_elements_def
      push_queue split: option.split)

lemma push_store [push_simps]: "store_element name i v (push q s) = push q (store_element name i v s)"
  by (simp add: store_element_def push_simps)

lemma push_write_signal [push_simps]: "write_signal name v (push q s) = rmap (push q) (write_signal name v s)"
  by (auto simp: write_signal_def push_simps rbind_def rmap_def Let_def split: prod.split option.split sum.split)

lemma push_slices [push_simps]:
  "write_slice im name m l v (push q s) = rmap (push q) (write_slice im name m l v s)"
  "write_element_slice im name data i m l v (push q s) = push q (write_element_slice im name data i m l v s)"
  by (auto simp: write_slice_def write_element_slice_def push_simps rbind_def split: sum.split)

lemma push_write_simple [push_simps]:
  "write_identifier im name v (push q s) = rmap (push q) (write_identifier im name v s)"
  "write_bit_select im name i v (push q s) = rmap (push q) (write_bit_select im name i v s)"
  "write_element_bit im name o' i v (push q s) = rmap (push q) (write_element_bit im name o' i v s)"
  "write_range im name m l v (push q s) = rmap (push q) (write_range im name m l v s)"
  "write_element_range im name i m l v (push q s) = rmap (push q) (write_element_range im name i m l v s)"
  "write_part im name b w d v (push q s) = rmap (push q) (write_part im name b w d v s)"
  "write_element_part im name i b w d v (push q s) = rmap (push q) (write_element_part im name i b w d v s)"
  by (auto simp: write_identifier_def write_bit_select_def write_element_bit_def write_range_def
      write_element_range_def write_part_def write_element_part_def push_simps rbind_def rmap_def Let_def
      split: prod.split option.split sum.split)

lemma push_attempt [push_simps]: "attempt (rmap (push q) r) (push q s) = apfst (push q) (attempt r s)"
  by (cases r) (simp_all add: attempt_def)

lemma push_then_step [push_simps]:
  "(\<And>s. f (push q s) = apfst (push q) (f s)) \<Longrightarrow>
     then_step (apfst (push q) r) f = apfst (push q) (then_step r f)"
  by (simp add: then_step_def split: prod.split option.split)

lemma push_simple [push_simps]: "write_simple im lhs v (push q s) = rmap (push q) (write_simple im lhs v s)"
  by (auto simp: write_simple_def push_simps split: expr.split)

lemma push_write_parts:
  assumes "\<forall>p\<in>set ps. \<forall>v s. snd p v (push q s) = apfst (push q) (snd p v s)"
  shows "write_parts ps pos v (push q s) = apfst (push q) (write_parts ps pos v s)"
  using assms
proof (induction ps pos v s rule: write_parts.induct)
  case (2 p wr ps pos v s)
  then show ?case by (auto simp: push_simps split: sum.split)
qed simp

definition push_accumulated :: "nba list \<Rightarrow> step \<times> pending \<Rightarrow> step \<times> pending" where
  "push_accumulated q r = (apfst (push q) (fst r), snd r)"

lemma push_accumulate:
  assumes "\<And>v s. wr v (push q s) = apfst (push q) (wr v s)"
  shows "accumulate part wr v (push q s) pend = push_accumulated q (accumulate part wr v s pend)"
  by (auto simp: accumulate_def push_accumulated_def assms push_simps pending_value_def Let_def
      split: expr.split option.split sum.split prod.split)

lemma push_queue_parts:
  assumes "\<forall>p\<in>set ps. \<forall>v s. snd p v (push q s) = apfst (push q) (snd p v s)"
  shows "queue_parts ps pos v pend (push q s) = apfst (push q) (queue_parts ps pos v pend s)"
  using assms
proof (induction ps pos v pend s rule: queue_parts.induct)
  case (2 p wr ps pos v pend s)
  then show ?case
    by (auto simp: push_accumulate push_accumulated_def push_simps split: sum.split prod.split)
qed (simp add: push_simps)

lemma push_target [push_simps]: "write_target im lhs v (push q s) = apfst (push q) (write_target im lhs v s)"
proof (induction im lhs v s rule: write_target.induct)
  case (1 im parts v s)
  then show ?case by (auto simp: push_write_parts push_queue_parts Let_def split: sum.split)
qed (simp_all add: push_simps)

lemma push_whole_memory [push_simps]:
  "copy_whole_memory im lhs rhs (push q s) = map_option (push q) (copy_whole_memory im lhs rhs s)"
  "assign_pattern_to_memory im lhs rhs (push q s) = map_option (rmap (push q)) (assign_pattern_to_memory im lhs rhs s)"
  by (auto simp: copy_whole_memory_def assign_pattern_to_memory_def push_simps rmap_def rbind_def
      split: option.split sum.split expr.split prod.split)

lemma push_assign [push_simps]: "assign im lhs rhs (push q s) = apfst (push q) (assign im lhs rhs s)"
proof (cases "scalar_target (es_ctx s) lhs")
  case (Some cur)
  then show ?thesis by (simp add: assign_def push_simps split: sum.split)
next
  case None
  then show ?thesis
    by (cases "copy_whole_memory im lhs rhs s"; cases "assign_pattern_to_memory im lhs rhs s")
      (simp_all add: assign_def push_simps Let_def split: sum.split)
qed

lemma push_of_step [push_simps]: "of_step (apfst (push q) r) = apfst (push q) (of_step r)"
  by (simp add: of_step_def split: prod.split option.split)

lemma push_and_then [push_simps]:
  "(\<And>s. f (push q s) = apfst (push q) (f s)) \<Longrightarrow> and_then (apfst (push q) r) f = apfst (push q) (and_then r f)"
  by (simp add: and_then_def split: prod.split completion.split)

lemma push_leave [push_simps]: "leave_block name (apfst (push q) r) = apfst (push q) (leave_block name r)"
  by (simp add: leave_block_def split: prod.split completion.split)

lemma push_display_text [push_simps]: "display_text (push q s) args = display_text s args"
  by (simp add: display_text_def split: list.split expr.split)

lemma push_display [push_simps]: "exec_display args (push q s) = apfst (push q) (exec_display args s)"
  by (simp add: exec_display_def push_simps split: sum.split)

lemma push_readmem [push_simps]: "exec_readmem hx args (push q s) = apfst (push q) (exec_readmem hx args s)"
proof -
  have "store_words name data w st (push q s) = push q (store_words name data w st s)" for name data w st
    by (simp add: store_words_def)
  then show ?thesis
    by (simp add: exec_readmem_def push_simps Let_def case_prod_beta split: list.split expr.split option.split sum.split)
qed

lemma push_system_task [push_simps]:
  "exec_system_task name where args (push q s) = apfst (push q) (exec_system_task name where args s)"
  by (auto simp: exec_system_task_def push_simps Let_def split: option.split prod.split sum.split)

text \<open>The bodies of a statement, as the control-flow combinators take them.\<close>

definition pushes :: "nba list \<Rightarrow> (exec_state \<Rightarrow> exec_result) \<Rightarrow> bool" where
  "pushes q f \<longleftrightarrow> (\<forall>s. f (push q s) = apfst (push q) (f s))"

lemma pushes_option: "\<forall>f\<in>set_option b. pushes q f \<Longrightarrow> pushes q (exec_option b)"
  by (cases b) (simp_all add: pushes_def exec_option_def)

lemma pushes_block: "\<forall>f\<in>set fs. pushes q f \<Longrightarrow> pushes q (exec_block fs)"
  by (induction fs) (simp_all add: pushes_def push_and_then)

lemma pushes_then: "pushes q f \<Longrightarrow> pushes q g \<Longrightarrow> pushes q (\<lambda>s. and_then (f s) g)"
  by (simp add: pushes_def push_and_then)

lemma pushes_loop: "pushes q body \<Longrightarrow> pushes q (exec_loop k test body)"
proof (induction k)
  case 0
  then show ?case
    unfolding pushes_def
    by (intro allI, subst (1 2) exec_loop.simps) (simp add: push_and_then split: sum.split bool.split)
next
  case (Suc k)
  then show ?case
    unfolding pushes_def
    by (intro allI, subst (1 2) exec_loop.simps) (simp add: push_and_then split: sum.split bool.split)
qed

lemma pushes_repeat: "pushes q body \<Longrightarrow> pushes q (exec_repeat n body)"
  by (induction n) (simp_all add: pushes_def push_and_then)

lemma select_item_mem: "select_item ctx ct sel items = Inr (Some f) \<Longrightarrow> \<exists>it\<in>set items. fst (snd it) = Some f"
  by (induction ctx ct sel items rule: select_item.induct) (auto simp: rbind_def split: if_splits sum.splits)

lemma pushes_case:
  assumes "\<forall>it\<in>set items. \<forall>f\<in>set_option (fst (snd it)). pushes q f"
  shows "pushes q (exec_case ct e items)"
  unfolding pushes_def
proof (intro allI)
  fix s
  show "exec_case ct e items (push q s) = apfst (push q) (exec_case ct e items s)"
  proof (cases "rbind (eval (es_ctx s) e 0 None) (\<lambda>sel. select_item (es_ctx s) ct sel items)")
    case (Inr body)
    then have "\<forall>f\<in>set_option body. pushes q f"
      using assms select_item_mem by (fastforce simp: rbind_eq_Inr_iff)
    then have "pushes q (exec_option body)" by (rule pushes_option)
    then show ?thesis using Inr by (simp add: exec_case_def pushes_def)
  qed (simp add: exec_case_def)
qed

lemma push_repeat_count: "repeat_count (push q s) c = repeat_count s c"
  unfolding repeat_count_def push_sel ..

lemma pushes_execute: "pushes q (execute_stmt st)" "\<forall>f\<in>set_option (fst (snd (execute_case_item it))). pushes q f"
proof (induction st and it rule: stmt.induct case_item.induct)
  case (SeqBlock name ss)
  then have "pushes q (exec_block (map execute_stmt ss))" by (intro pushes_block) auto
  then show ?case by (simp add: pushes_def push_leave)
next
  case (ParBlock name ss)
  then have "pushes q (exec_block (map execute_stmt ss))" by (intro pushes_block) auto
  then show ?case by (simp add: pushes_def push_leave)
next
  case (IfStatement c t e)
  have "pushes q (exec_option (map_option execute_stmt t))" "pushes q (exec_option (map_option execute_stmt e))"
    by (rule pushes_option, use IfStatement in auto)+
  then show ?case by (simp add: pushes_def exec_if_def split: sum.split)
next
  case (CaseStatement ct e items)
  then have "\<forall>it\<in>set (map execute_case_item items). \<forall>f\<in>set_option (fst (snd it)). pushes q f" by simp
  then show ?case by (simp add: pushes_case)
next
  case (ForLoop init c upd body sg)
  have b: "pushes q (exec_option (map_option execute_stmt body))"
    by (rule pushes_option) (use ForLoop in auto)
  have "pushes q (exec_loop k (for_test init sg c) (\<lambda>s. and_then (exec_option (map_option execute_stmt body) s) (execute_stmt upd)))" for k
    by (rule pushes_loop, rule pushes_then [OF b ForLoop(2)])
  then show ?case using ForLoop(1) by (simp add: pushes_def push_and_then)
next
  case (WhileLoop c body)
  have "pushes q (exec_option (map_option execute_stmt body))"
    by (rule pushes_option) (use WhileLoop in auto)
  from pushes_loop [OF this] show ?case by (simp add: pushes_def)
next
  case (ForeverLoop body)
  have "pushes q (exec_option (map_option execute_stmt body))"
    by (rule pushes_option) (use ForeverLoop in auto)
  from pushes_loop [OF this] show ?case by (simp add: pushes_def)
next
  case (RepeatLoop c body)
  have "pushes q (exec_option (map_option execute_stmt body))"
    by (rule pushes_option) (use RepeatLoop in auto)
  from pushes_repeat [OF this] show ?case
    by (auto simp: pushes_def push_repeat_count split: sum.split)
next
  case (WaitStatement c body)
  have "pushes q (exec_option (map_option execute_stmt body))"
    by (rule pushes_option) (use WaitStatement in auto)
  then show ?case by (auto simp: pushes_def split: sum.split bool.split)
next
  case (EventTrigger name)
  show ?case by (auto simp: pushes_def trigger_event_def push_simps split: sum.split) (simp add: of_step_def)
qed (auto simp: pushes_def push_simps split: sum.split)

section \<open>Processes that only queue\<close>

fun target_names :: "expr \<Rightarrow> string set" where
  "target_names (Identifier n h _) = {identifier_name n h}"
| "target_names (BitSelect t _) = target_names t"
| "target_names (RangeSelect t _ _) = target_names t"
| "target_names (PartSelect t _ _ _) = target_names t"
| "target_names (Concatenation parts) = (\<Union>p\<in>set parts. target_names p)"
| "target_names _ = {}"

text \<open>\<open>s'\<close> is \<open>s\<close> with updates of names in \<open>N\<close> queued.\<close>

definition queues :: "string set \<Rightarrow> exec_state \<Rightarrow> exec_state \<Rightarrow> bool" where
  "queues N s s' \<longleftrightarrow> (\<exists>es. s' = queue_nba es s \<and> nba_name ` set es \<subseteq> N)"

lemma queuesI [intro]: "nba_name ` set es \<subseteq> N \<Longrightarrow> queues N s (queue_nba es s)"
  by (auto simp: queues_def)

lemma queues_refl [simp]: "queues N s s"
  by (auto simp: queues_def queue_nba_def intro!: exI [of _ "[]"])

lemma queues_trans: "queues N s t \<Longrightarrow> queues N t u \<Longrightarrow> queues N s u"
  by (force simp: queues_def queue_nba_def)

lemma queues_mono: "queues M s t \<Longrightarrow> M \<subseteq> N \<Longrightarrow> queues N s t"
  by (auto simp: queues_def)

lemma queues_memory: "name \<in> N \<Longrightarrow> queues N s (queue_memory name data w v s)"
  unfolding queue_memory_def by (rule queuesI) auto

lemma queues_slice: "name \<in> N \<Longrightarrow> write_slice False name m l v s = Inr s' \<Longrightarrow> queues N s s'"
  by (auto simp: write_slice_def)

lemma queues_element_slice: "name \<in> N \<Longrightarrow> queues N s (write_element_slice False name data i m l v s)"
  by (auto simp: write_element_slice_def)

lemma queues_simple_targets:
  assumes "name \<in> N"
  shows "write_identifier False name v s = Inr s' \<Longrightarrow> queues N s s'"
    "write_bit_select False name i v s = Inr s' \<Longrightarrow> queues N s s'"
    "write_element_bit False name o' i v s = Inr s' \<Longrightarrow> queues N s s'"
    "write_range False name m l v s = Inr s' \<Longrightarrow> queues N s s'"
    "write_element_range False name i m l v s = Inr s' \<Longrightarrow> queues N s s'"
    "write_part False name b w d v s = Inr s' \<Longrightarrow> queues N s s'"
    "write_element_part False name i b w d v s = Inr s' \<Longrightarrow> queues N s s'"
  using assms
  by (auto simp: write_identifier_def write_bit_select_def write_element_bit_def write_range_def
      write_element_range_def write_part_def write_element_part_def Let_def rbind_def rmap_def
      intro: queues_memory queues_element_slice dest: queues_slice split: option.splits if_splits sum.splits prod.splits)

lemma queues_simple: "write_simple False lhs v s = Inr s' \<Longrightarrow> queues (target_names lhs) s s'"
  by (auto simp: write_simple_def intro: queues_simple_targets split: expr.splits)

lemma queues_attempt: "(\<And>s'. r = Inr s' \<Longrightarrow> queues N s s') \<Longrightarrow> queues N s (fst (attempt r s))"
  by (simp add: attempt_def split: sum.split)

lemma queues_attempt_simple: "queues (target_names lhs) s (fst (attempt (write_simple False lhs v s) s))"
  by (rule queues_attempt) (rule queues_simple)

lemma queues_then_step:
  "queues N s (fst r) \<Longrightarrow> (\<And>s'. queues N (fst r) (fst (f (fst r)))) \<Longrightarrow> queues N s (fst (then_step r f))"
  by (auto simp: then_step_def intro: queues_trans split: prod.split option.split)

definition pending_names :: "pending \<Rightarrow> string set" where
  "pending_names pend = fst ` set pend"

lemma queues_accumulate:
  assumes "\<And>v s. queues (target_names part) s (fst (wr v s))"
  shows "queues (target_names part) s (fst (fst (accumulate part wr v s pend)))
    \<and> pending_names (snd (accumulate part wr v s pend)) \<subseteq> pending_names pend \<union> target_names part"
  using assms
  by (auto simp: accumulate_def pending_names_def Let_def dom_update intro: queues_memory
      split: expr.split option.split sum.split prod.split)

lemma queues_queue_parts:
  assumes "\<forall>p\<in>set ps. \<forall>v s. queues (target_names (fst p)) s (fst (snd p v s))"
  shows "queues (pending_names pend \<union> (\<Union>p\<in>set ps. target_names (fst p))) s (fst (queue_parts ps pos v pend s))"
  using assms
proof (induction ps pos v pend s rule: queue_parts.induct)
  case (1 pos v pend s)
  show ?case by (force simp: pending_names_def intro!: queuesI)
next
  case (2 p wr ps pos v pend s)
  show ?case
  proof (cases "lhs_width (es_ctx s) p")
    case (Inr w)
    let ?a = "accumulate p wr (get_range v (pos - 1) (pos - w)) s pend"
    let ?N = "pending_names pend \<union> (\<Union>p\<in>set ((p, wr) # ps). target_names (fst p))"
    obtain r pend' where a: "?a = (r, pend')" by (cases ?a)
    have q: "queues (target_names p) s (fst r)" "pending_names pend' \<subseteq> pending_names pend \<union> target_names p"
      using queues_accumulate [of p wr s "get_range v (pos - 1) (pos - w)" pend] 2(2) a by auto
    have "queues ?N (fst r) (fst (queue_parts ps (pos - w) v pend' (fst r)))"
      using 2(1) [OF Inr a [symmetric]] 2(2) q(2) by (auto intro: queues_mono)
    then show ?thesis
      using Inr a q(1) by (auto intro!: queues_then_step intro: queues_mono)
  qed simp
qed

lemma queues_target: "queues (target_names lhs) s (fst (write_target False lhs v s))"
proof (induction False lhs v s rule: write_target.induct)
  case (1 parts v s)
  show ?case
  proof (cases "sum_res (map (lhs_width (es_ctx s)) parts)")
    case (Inr w)
    then show ?thesis
      using queues_queue_parts [of "map (\<lambda>p. (p, write_target False p)) parts" "[]" s w v] 1
      by (auto simp: Let_def pending_names_def)
  qed simp
qed (simp only: write_target.simps, rule queues_attempt_simple)+

lemma queues_elements: "name \<in> N \<Longrightarrow> queues N s (write_elements False name vs w s)"
  by (auto simp: write_elements_def intro!: queuesI)

lemma queues_whole_memory:
  "copy_whole_memory False lhs rhs s = Some s' \<Longrightarrow> queues (target_names lhs) s s'"
  "assign_pattern_to_memory False lhs rhs s = Some r \<Longrightarrow> queues (target_names lhs) s (fst (attempt r s))"
  by (auto simp: copy_whole_memory_def assign_pattern_to_memory_def rmap_def rbind_def attempt_def
      intro: queues_elements split: expr.splits prod.splits option.splits if_splits sum.splits)

lemma queues_assign: "queues (target_names lhs) s (fst (assign False lhs rhs s))"
proof (cases "scalar_target (es_ctx s) lhs")
  case (Some cur)
  then show ?thesis by (simp add: assign_def queues_target split: sum.split)
next
  case None
  then show ?thesis
    by (cases "copy_whole_memory False lhs rhs s"; cases "assign_pattern_to_memory False lhs rhs s")
      (simp_all add: assign_def Let_def queues_target queues_whole_memory split: sum.split)
qed

text \<open>The statements that only queue, and the names they may queue.\<close>

primrec defers :: "stmt \<Rightarrow> bool" and defers_item :: "case_item \<Rightarrow> bool" where
  "defers (BlockingAssign lhs rhs) = False"
| "defers (NonblockingAssign lhs rhs) = True"
| "defers (SeqBlock name ss) = list_all id (map defers ss)"
| "defers (ParBlock name ss) = list_all id (map defers ss)"
| "defers (IfStatement c t e) = (pred_option id (map_option defers t) \<and> pred_option id (map_option defers e))"
| "defers (CaseStatement ct e items) = list_all id (map defers_item items)"
| "defers (ForLoop init c upd body sg) = (defers init \<and> defers upd \<and> pred_option id (map_option defers body))"
| "defers (WhileLoop c body) = pred_option id (map_option defers body)"
| "defers (ForeverLoop body) = pred_option id (map_option defers body)"
| "defers (RepeatLoop c body) = pred_option id (map_option defers body)"
| "defers (DelayControl d body) = True"
| "defers (EventControl evs body) = True"
| "defers (WaitStatement c body) = pred_option id (map_option defers body)"
| "defers (DisableStatement target) = True"
| "defers (EventTrigger name) = False"
| "defers (SystemTaskCall name where args) = False"
| "defers (TaskEnable name args) = True"
| "defers_item (CaseItem vals body d) = pred_option id (map_option defers body)"

primrec assigned :: "stmt \<Rightarrow> string set" and assigned_item :: "case_item \<Rightarrow> string set" where
  "assigned (BlockingAssign lhs rhs) = target_names lhs"
| "assigned (NonblockingAssign lhs rhs) = target_names lhs"
| "assigned (SeqBlock name ss) = \<Union>(set (map assigned ss))"
| "assigned (ParBlock name ss) = \<Union>(set (map assigned ss))"
| "assigned (IfStatement c t e) = \<Union>(set_option (map_option assigned t)) \<union> \<Union>(set_option (map_option assigned e))"
| "assigned (CaseStatement ct e items) = \<Union>(set (map assigned_item items))"
| "assigned (ForLoop init c upd body sg) = assigned init \<union> assigned upd \<union> \<Union>(set_option (map_option assigned body))"
| "assigned (WhileLoop c body) = \<Union>(set_option (map_option assigned body))"
| "assigned (ForeverLoop body) = \<Union>(set_option (map_option assigned body))"
| "assigned (RepeatLoop c body) = \<Union>(set_option (map_option assigned body))"
| "assigned (DelayControl d body) = \<Union>(set_option (map_option assigned body))"
| "assigned (EventControl evs body) = \<Union>(set_option (map_option assigned body))"
| "assigned (WaitStatement c body) = \<Union>(set_option (map_option assigned body))"
| "assigned (DisableStatement target) = {}"
| "assigned (EventTrigger name) = {name}"
| "assigned (SystemTaskCall name where args) = {}"
| "assigned (TaskEnable name args) = {}"
| "assigned_item (CaseItem vals body d) = \<Union>(set_option (map_option assigned body))"

definition quiet :: "string set \<Rightarrow> (exec_state \<Rightarrow> exec_result) \<Rightarrow> bool" where
  "quiet N f \<longleftrightarrow> (\<forall>s. queues N s (fst (f s)))"

lemma quiet_mono: "quiet M f \<Longrightarrow> M \<subseteq> N \<Longrightarrow> quiet N f"
  by (auto simp: quiet_def intro: queues_mono)

lemma quiet_option: "\<forall>f\<in>set_option b. quiet N f \<Longrightarrow> quiet N (exec_option b)"
  by (cases b) (simp_all add: quiet_def exec_option_def)

lemma quiet_and_then: "quiet N f \<Longrightarrow> queues N s (fst r) \<Longrightarrow> queues N s (fst (and_then r f))"
  by (cases r) (auto simp: quiet_def and_then_def intro: queues_trans split: completion.split)

lemma quiet_then: "quiet N f \<Longrightarrow> quiet N g \<Longrightarrow> quiet N (\<lambda>s. and_then (f s) g)"
  by (auto simp: quiet_def intro: quiet_and_then [unfolded quiet_def])

lemma quiet_block: "\<forall>f\<in>set fs. quiet N f \<Longrightarrow> quiet N (exec_block fs)"
proof (induction fs)
  case (Cons f fs)
  then show ?case using quiet_then [of N f "exec_block fs"] by (simp add: quiet_def)
qed (simp add: quiet_def)

lemma fst_leave [simp]: "fst (leave_block name r) = fst r"
  by (simp add: leave_block_def split: prod.split completion.split)

lemma fst_of_step [simp]: "fst (of_step r) = fst r"
  by (simp add: of_step_def split: prod.split option.split)

lemma quiet_loop: "quiet N body \<Longrightarrow> quiet N (exec_loop k test body)"
proof (induction k)
  case 0
  have f: "quiet N (\<lambda>s. (s, Failed RuntimeError))" by (simp add: quiet_def)
  show ?case
    unfolding quiet_def
    by (intro allI, subst exec_loop.simps)
      (use 0 quiet_and_then [OF f] in \<open>auto simp: quiet_def split: sum.split bool.split\<close>)
next
  case (Suc k)
  then have f: "quiet N (exec_loop k test body)" by simp
  show ?case
    unfolding quiet_def
    by (intro allI, subst exec_loop.simps)
      (use Suc.prems quiet_and_then [OF f] in \<open>auto simp: quiet_def split: sum.split bool.split\<close>)
qed

lemma quiet_repeat: "quiet N body \<Longrightarrow> quiet N (exec_repeat n body)"
proof (induction n)
  case (Suc n)
  then show ?case using quiet_then [of N body "exec_repeat n body"] by (simp add: quiet_def)
qed (simp add: quiet_def)

lemma quiet_case:
  assumes "\<forall>it\<in>set items. \<forall>f\<in>set_option (fst (snd it)). quiet N f"
  shows "quiet N (exec_case ct e items)"
  unfolding quiet_def
proof (intro allI)
  fix s
  show "queues N s (fst (exec_case ct e items s))"
  proof (cases "rbind (eval (es_ctx s) e 0 None) (\<lambda>sel. select_item (es_ctx s) ct sel items)")
    case (Inr body)
    then have "\<forall>f\<in>set_option body. quiet N f"
      using assms select_item_mem by (fastforce simp: rbind_eq_Inr_iff)
    then have "quiet N (exec_option body)" by (rule quiet_option)
    then show ?thesis using Inr by (simp add: exec_case_def quiet_def)
  qed (simp add: exec_case_def)
qed

lemma quiet_body:
  assumes "\<And>st. st \<in> set_option b \<Longrightarrow> defers st \<Longrightarrow> quiet (assigned st) (execute_stmt st)"
    and "pred_option id (map_option defers b)" "\<Union>(set_option (map_option assigned b)) \<subseteq> N"
  shows "quiet N (exec_option (map_option execute_stmt b))"
  by (rule quiet_option) (use assms in \<open>auto intro: quiet_mono\<close>)

lemma quiet_blocks:
  assumes "\<And>st. st \<in> set ss \<Longrightarrow> defers st \<Longrightarrow> quiet (assigned st) (execute_stmt st)" "list_all id (map defers ss)"
  shows "quiet (\<Union>(set (map assigned ss))) (\<lambda>s. leave_block name (exec_block (map execute_stmt ss) s))"
proof -
  have "quiet (\<Union>(set (map assigned ss))) (exec_block (map execute_stmt ss))"
    by (rule quiet_block) (use assms in \<open>auto simp: list_all_iff intro: quiet_mono\<close>)
  then show ?thesis by (simp add: quiet_def)
qed

lemma quiet_execute:
  "defers st \<Longrightarrow> quiet (assigned st) (execute_stmt st)"
  "defers_item it \<Longrightarrow> \<forall>f\<in>set_option (fst (snd (execute_case_item it))). quiet (assigned_item it) f"
proof (induction st and it rule: stmt.induct case_item.induct)
  case (SeqBlock name ss)
  then show ?case using quiet_blocks [of ss] by simp
next
  case (ParBlock name ss)
  then show ?case using quiet_blocks [of ss] by simp
next
  case (IfStatement c t e)
  have "quiet (assigned (IfStatement c t e)) (exec_option (map_option execute_stmt t))"
    "quiet (assigned (IfStatement c t e)) (exec_option (map_option execute_stmt e))"
    by (rule quiet_body, use IfStatement in auto)+
  then show ?case by (auto simp: quiet_def exec_if_def split: sum.split)
next
  case (CaseStatement ct e items)
  have "quiet (assigned (CaseStatement ct e items)) f"
    if "it \<in> set items" "f \<in> set_option (fst (snd (execute_case_item it)))" for it f
  proof -
    from CaseStatement(2) that(1) have d: "defers_item it" by (simp add: list_all_iff)
    have "quiet (assigned_item it) f" using CaseStatement(1) [OF that(1) d] that(2) by blast
    then show ?thesis by (rule quiet_mono) (use that(1) in auto)
  qed
  then have "\<forall>it\<in>set (map execute_case_item items). \<forall>f\<in>set_option (fst (snd it)). quiet (assigned (CaseStatement ct e items)) f"
    by simp
  then show ?case using quiet_case by simp
next
  case (ForLoop init c upd body sg)
  let ?N = "assigned (ForLoop init c upd body sg)"
  have b: "quiet ?N (exec_option (map_option execute_stmt body))"
    by (rule quiet_body) (use ForLoop in auto)
  have "quiet ?N (execute_stmt init)" "quiet ?N (execute_stmt upd)"
    using ForLoop by (auto intro: quiet_mono)
  then have "quiet ?N (\<lambda>s. exec_loop (es_limit s) (for_test init sg c)
      (\<lambda>s. and_then (exec_option (map_option execute_stmt body) s) (execute_stmt upd)) s)"
    using quiet_loop [OF quiet_then [OF b]] by (simp add: quiet_def)
  from quiet_then [OF \<open>quiet ?N (execute_stmt init)\<close> this] show ?case by simp
next
  case (WhileLoop c body)
  have "quiet (assigned (WhileLoop c body)) (exec_option (map_option execute_stmt body))"
    by (rule quiet_body) (use WhileLoop in auto)
  from quiet_loop [OF this] show ?case by (simp add: quiet_def)
next
  case (ForeverLoop body)
  have "quiet (assigned (ForeverLoop body)) (exec_option (map_option execute_stmt body))"
    by (rule quiet_body) (use ForeverLoop in auto)
  from quiet_loop [OF this] show ?case by (simp add: quiet_def)
next
  case (RepeatLoop c body)
  have "quiet (assigned (RepeatLoop c body)) (exec_option (map_option execute_stmt body))"
    by (rule quiet_body) (use RepeatLoop in auto)
  from quiet_repeat [OF this] show ?case by (auto simp: quiet_def split: sum.split)
next
  case (WaitStatement c body)
  have "quiet (assigned (WaitStatement c body)) (exec_option (map_option execute_stmt body))"
    by (rule quiet_body) (use WaitStatement in auto)
  then show ?case by (auto simp: quiet_def split: sum.split bool.split)
next
  case (NonblockingAssign lhs rhs)
  then show ?case by (simp add: quiet_def queues_assign)
next
  case (DelayControl d body)
  then show ?case by (simp add: quiet_def split: sum.split)
next
  case (EventControl evs body)
  then show ?case by (simp add: quiet_def)
next
  case (DisableStatement target)
  then show ?case by (simp add: quiet_def)
next
  case (TaskEnable name args)
  then show ?case by (simp add: quiet_def)
next
  case (CaseItem vals body d)
  have "quiet (assigned st) (execute_stmt st)" if "st \<in> set_option body" for st
    using CaseItem that by (cases body) auto
  then show ?case by (auto intro: quiet_mono)
qed simp_all

end
