(* ===== verification/Nonblocking_Properties.thy ===== *)
theory Nonblocking_Properties
  imports Nonblocking "HOL-Library.Multiset"
begin

text \<open>
  Committing the queue of non-blocking updates: an entry touches only the signal or the memory of its
  name, so entries of different names commute, and processes that only queue may run in any order.
\<close>

section \<open>Committing\<close>

text \<open>What an entry does to the signal and to the memory of its name, when the name has no bracket.\<close>

type_synonym cell = "val4 option \<times> (val4 list \<times> nat) option"

definition cell :: "eval_ctx \<Rightarrow> string \<Rightarrow> cell" where
  "cell ctx name = (signals ctx name, memories ctx name)"

definition set_cell :: "string \<Rightarrow> cell \<Rightarrow> eval_ctx \<Rightarrow> eval_ctx" where
  "set_cell name c ctx = ctx\<lparr>signals := (signals ctx)(name := fst c), memories := (memories ctx)(name := snd c)\<rparr>"

definition commit :: "nba \<Rightarrow> eval_ctx \<times> string set \<Rightarrow> eval_ctx \<times> string set" where
  "commit e p = (case apply_entry e (fst p) of
     Inr (ctx, ch) \<Rightarrow> (ctx, if ch then insert (nba_name e) (snd p) else snd p) | Inl _ \<Rightarrow> p)"

lemma cell_set_cell [simp]:
  "cell (set_cell n c ctx) m = (if m = n then c else cell ctx m)"
  by (simp add: cell_def set_cell_def)

lemma set_cell_cell [simp]: "set_cell n (cell ctx n) ctx = ctx"
  by (simp add: cell_def set_cell_def)

lemma set_cell_commute: "n \<noteq> m \<Longrightarrow> set_cell n c (set_cell m d ctx) = set_cell m d (set_cell n c ctx)"
  by (simp add: set_cell_def fun_upd_twist)

lemma read_signal_cell:
  assumes "CHR ''['' \<notin> set n"
  obtains v where "\<And>ctx'. cell ctx' n = cell ctx n \<Longrightarrow> read_signal ctx' n = Inr v"
proof (cases "signals ctx n")
  case None
  have "read_signal ctx' n = Inr (opt_or (read_whole_memory ctx n) (v_x 1))" if "cell ctx' n = cell ctx n" for ctx'
    using that assms None
    by (simp add: cell_def read_signal_def read_whole_memory_def opt_or_def split: option.split prod.split)
  then show ?thesis by (rule that)
next
  case (Some v)
  then have "read_signal ctx' n = Inr v" if "cell ctx' n = cell ctx n" for ctx'
    using that by (simp add: cell_def read_signal_def)
  then show ?thesis by (rule that)
qed

lemma set_signal_cell: "ctx\<lparr>signals := (signals ctx)(n \<mapsto> v)\<rparr> = set_cell n (Some v, memories ctx n) ctx"
  by (simp add: set_cell_def)

lemma set_memory_cell: "ctx\<lparr>memories := (memories ctx)(n \<mapsto> m)\<rparr> = set_cell n (signals ctx n, Some m) ctx"
  by (simp add: set_cell_def)

lemma cell_eq_iff: "cell a n = cell b n \<longleftrightarrow> signals b n = signals a n \<and> memories b n = memories a n"
  by (auto simp: cell_def)

lemma apply_element_cell:
  obtains c ch where "\<And>ctx'. cell ctx' n = cell ctx n \<Longrightarrow> apply_element n i f ctx' = (set_cell n c ctx', ch)"
proof (cases "\<exists>data w. memories ctx n = Some (data, w) \<and> in_memory data i \<and>
    (v_val (data ! nat i) \<noteq> v_val (f (data ! nat i)) \<or> v_mask (data ! nat i) \<noteq> v_mask (f (data ! nat i)))")
  case True
  then obtain data w where m: "memories ctx n = Some (data, w)" "in_memory data i"
    "v_val (data ! nat i) \<noteq> v_val (f (data ! nat i)) \<or> v_mask (data ! nat i) \<noteq> v_mask (f (data ! nat i))" by blast
  have "apply_element n i f ctx' = (set_cell n (signals ctx n, Some (data[nat i := f (data ! nat i)], w)) ctx', True)"
    if "cell ctx' n = cell ctx n" for ctx'
    using that m by (simp add: apply_element_def set_memory_cell cell_def Let_def)
  then show ?thesis by (rule that)
next
  case False
  have "apply_element n i f ctx' = (set_cell n (cell ctx n) ctx', False)" if c: "cell ctx' n = cell ctx n" for ctx'
  proof -
    have "memories ctx' n = memories ctx n" using c by (simp add: cell_def)
    with False have "apply_element n i f ctx' = (ctx', False)"
      by (auto simp: apply_element_def Let_def split: option.split)
    then show ?thesis using c set_cell_cell [of n ctx'] by simp
  qed
  then show ?thesis by (rule that)
qed

lemma apply_entry_cell:
  assumes "CHR ''['' \<notin> set (nba_name e)"
  obtains c ch where
    "\<And>ctx'. cell ctx' (nba_name e) = cell ctx (nba_name e) \<Longrightarrow> apply_entry e ctx' = Inr (set_cell (nba_name e) c ctx', ch)"
proof (cases e)
  case (NbaEntry n v)
  then have b: "CHR ''['' \<notin> set n" using assms by simp
  obtain old where old: "\<And>ctx'. cell ctx' n = cell ctx n \<Longrightarrow> read_signal ctx' n = Inr old"
    using read_signal_cell [OF b] by blast
  let ?ch = "v_val old \<noteq> v_val v \<or> v_mask old \<noteq> v_mask v"
  have "apply_entry e ctx' = Inr (set_cell n (if ?ch then Some v else signals ctx n, memories ctx n) ctx', ?ch)"
    if "cell ctx' n = cell ctx n" for ctx'
    using that old [OF that] NbaEntry by (simp add: apply_entry_def rmap_def cell_eq_iff set_cell_def)
  then show ?thesis using that NbaEntry by simp
next
  case (MemNbaEntry n i v)
  obtain c ch where "\<And>ctx'. cell ctx' n = cell ctx n \<Longrightarrow> apply_element n i (\<lambda>_. v) ctx' = (set_cell n c ctx', ch)"
    using apply_element_cell by blast
  then show ?thesis using that [of c ch] MemNbaEntry by (simp add: apply_entry_def)
next
  case (MemRangeNbaEntry n i m l v)
  obtain c ch where "\<And>ctx'. cell ctx' n = cell ctx n \<Longrightarrow>
      apply_element n i (\<lambda>old. set_range old m l v) ctx' = (set_cell n c ctx', ch)"
    using apply_element_cell by blast
  then show ?thesis using that [of c ch] MemRangeNbaEntry by (simp add: apply_entry_def)
next
  case (StructFieldNbaEntry n m l v)
  show ?thesis
  proof (cases "signals ctx n")
    case None
    then have "apply_entry e ctx' = Inr (set_cell n (cell ctx' n) ctx', False)" if "cell ctx' n = cell ctx n" for ctx'
      using that StructFieldNbaEntry by (simp add: apply_entry_def cell_eq_iff)
    then show ?thesis using that [of "cell ctx n" False] StructFieldNbaEntry by simp
  next
    case (Some old)
    let ?new = "set_range old m l v"
    let ?ch = "v_val ?new \<noteq> v_val old \<or> v_mask ?new \<noteq> v_mask old"
    have "apply_entry e ctx' = Inr (set_cell n (if ?ch then Some ?new else signals ctx n, memories ctx n) ctx', ?ch)"
      if c: "cell ctx' n = cell ctx n" for ctx'
    proof -
      have s: "signals ctx' n = Some old" "memories ctx' n = memories ctx n" using c Some by (auto simp: cell_def)
      have "apply_entry e ctx' = Inr (if ?ch then ctx'\<lparr>signals := (signals ctx')(n \<mapsto> ?new)\<rparr> else ctx', ?ch)"
        using s StructFieldNbaEntry by (simp add: apply_entry_def Let_def)
      then show ?thesis using s Some set_cell_cell [of n ctx'] by (auto simp: set_signal_cell cell_def)
    qed
    then show ?thesis using that StructFieldNbaEntry by simp
  qed
qed

lemma commit_commute:
  assumes "CHR ''['' \<notin> set (nba_name d)" "CHR ''['' \<notin> set (nba_name e)" "nba_name d \<noteq> nba_name e"
  shows "commit d (commit e p) = commit e (commit d p)"
proof -
  obtain ctx chg where p: "p = (ctx, chg)" by (cases p)
  obtain c ch where c: "\<And>ctx'. cell ctx' (nba_name d) = cell ctx (nba_name d) \<Longrightarrow>
      apply_entry d ctx' = Inr (set_cell (nba_name d) c ctx', ch)"
    using apply_entry_cell [OF assms(1)] by blast
  obtain c' ch' where c': "\<And>ctx'. cell ctx' (nba_name e) = cell ctx (nba_name e) \<Longrightarrow>
      apply_entry e ctx' = Inr (set_cell (nba_name e) c' ctx', ch')"
    using apply_entry_cell [OF assms(2)] by blast
  show ?thesis
    using assms(3) by (simp add: p commit_def c c' set_cell_commute insert_commute)
qed

lemma apply_entries_commit:
  "\<forall>e\<in>set es. CHR ''['' \<notin> set (nba_name e) \<Longrightarrow> apply_entries es ctx chg = Inr (fold commit es (ctx, chg))"
proof (induction es ctx chg rule: apply_entries.induct)
  case (2 e es ctx chg)
  obtain c ch where "apply_entry e ctx = Inr (set_cell (nba_name e) c ctx, ch)"
    using apply_entry_cell [of e ctx] 2(2) by (metis list.set_intros(1))
  then show ?case using 2 by (simp add: commit_def)
qed simp


section \<open>Processes run in any order\<close>

text \<open>The processes that an edge wakes, run to their end one after the other; only then is the queue committed.\<close>

definition run_processes :: "stmt list \<Rightarrow> exec_state \<Rightarrow> exec_state" where
  "run_processes ps s = fold (\<lambda>p s. fst (execute_stmt p s)) ps s"

lemma fst_push_execute: "fst (execute_stmt p (push q s)) = push q (fst (execute_stmt p s))"
  using pushes_execute(1) [of q p] by (simp add: pushes_def)

lemma process_entries:
  assumes "defers p"
  obtains es where "nba_name ` set es \<subseteq> assigned p" "\<And>q. fst (execute_stmt p (s\<lparr>es_nba := q\<rparr>)) = s\<lparr>es_nba := q @ es\<rparr>"
proof -
  let ?s = "s\<lparr>es_nba := []\<rparr>"
  have "queues (assigned p) ?s (fst (execute_stmt p ?s))"
    using quiet_execute(1) [OF assms] by (simp add: quiet_def)
  then obtain es where es: "fst (execute_stmt p ?s) = queue_nba es ?s" "nba_name ` set es \<subseteq> assigned p"
    by (auto simp: queues_def)
  have "fst (execute_stmt p (s\<lparr>es_nba := q\<rparr>)) = s\<lparr>es_nba := q @ es\<rparr>" for q
    using fst_push_execute [of p q ?s] es(1) by (simp add: push_def queue_nba_def)
  then show ?thesis using that es(2) by blast
qed

lemma run_processes_entries:
  assumes "\<forall>p\<in>set ps. nba_name ` set (E p) \<subseteq> assigned p \<and> (\<forall>q. fst (execute_stmt p (s\<lparr>es_nba := q\<rparr>)) = s\<lparr>es_nba := q @ E p\<rparr>)"
  shows "run_processes ps (s\<lparr>es_nba := q\<rparr>) = s\<lparr>es_nba := q @ concat (map E ps)\<rparr>"
  using assms by (induction ps arbitrary: q) (simp_all add: run_processes_def)

lemma fold_commit_commute:
  assumes "nba_name ` set ds \<inter> nba_name ` set es = {}"
    and "\<forall>e\<in>set ds \<union> set es. CHR ''['' \<notin> set (nba_name e)"
  shows "fold commit ds \<circ> fold commit es = fold commit es \<circ> fold commit ds"
proof (rule fold_commute)
  fix e assume e: "e \<in> set es"
  have "fold commit ds \<circ> commit e = commit e \<circ> fold commit ds"
  proof (rule fold_commute [symmetric])
    fix d assume "d \<in> set ds"
    with e assms show "commit e \<circ> commit d = commit d \<circ> commit e"
      by (auto simp: fun_eq_iff intro!: commit_commute)
  qed
  then show "fold commit ds \<circ> commit e = commit e \<circ> fold commit ds" .
qed

lemma fold_concat: "fold f (concat (map E ps)) = fold (\<lambda>p. fold f (E p)) ps"
  by (induction ps) (simp_all add: fun_eq_iff)

lemma plain_names: "CHR ''['' \<notin> \<Union>(set ` N) \<Longrightarrow> nba_name ` set es \<subseteq> N \<Longrightarrow> \<forall>e\<in>set es. CHR ''['' \<notin> set (nba_name e)"
  by auto

section \<open>A small state\<close>

definition sample_ctx :: "(string \<times> val4) list \<Rightarrow> eval_ctx" where
  "sample_ctx sigs = \<lparr>signals = map_of sigs, signal_signed = (\<lambda>_. False), signal_bases = (\<lambda>_. 0),
     memories = Map.empty, memory_bases = (\<lambda>_. 0), ctx_time = 0\<rparr>"

definition sample_state :: "(string \<times> val4) list \<Rightarrow> exec_state" where
  "sample_state sigs = \<lparr>es_ctx = sample_ctx sigs, es_originals = None, es_nba = [], es_output = [],
     es_write_buffer = [], es_time = 0, es_limit = 100, es_files = (\<lambda>_. None)\<rparr>"

lemma sample_sel [simp]:
  "signals (sample_ctx sigs) = map_of sigs" "memories (sample_ctx sigs) = Map.empty"
  "signal_signed (sample_ctx sigs) n = False" "es_ctx (sample_state sigs) = sample_ctx sigs" "es_nba (sample_state sigs) = []"
  by (simp_all add: sample_ctx_def sample_state_def)

section \<open>Properties\<close>




text \<open>C30: A statement that only makes non-blocking assignments changes nothing but the queue: it appends
  entries, all of them for names that it assigns; signals, memories, output and marks stay as they were.\<close>

theorem nonblocking_defers_effects:
  assumes "defers p"
  shows "\<exists>es. fst (execute_stmt p s) = s\<lparr>es_nba := es_nba s @ es\<rparr> \<and> nba_name ` set es \<subseteq> assigned p"
  using quiet_execute(1) [OF assms] by (simp add: quiet_def queues_def queue_nba_def)

lemma assign_plain:
  assumes "signals (es_ctx s) x = Some a" "signals (es_ctx s) y = Some b" "memories (es_ctx s) x = None"
    and "v_width a = v_width b" "CHR ''['' \<notin> set x"
  shows "assign False (Identifier x [] i) (Identifier y [] j) s = (queue_nba [NbaEntry x b] s, None)"
  using assms
  by (simp add: assign_def scalar_target_def identifier_name_def assign_value_def eval_identifier_def widen_def
      write_simple_def write_identifier_def attempt_def Let_def)

text \<open>The exchange \<open>x <= y; y <= x\<close> exchanges: both right-hand sides are read before either update is
  committed.\<close>

theorem nonblocking_swap:
  assumes "signals (es_ctx s) x = Some a" "signals (es_ctx s) y = Some b"
    and "memories (es_ctx s) x = None" "memories (es_ctx s) y = None"
    and "v_width a = v_width b" "CHR ''['' \<notin> set x \<union> set y" "es_nba s = []"
  shows "\<exists>s' changed.
    apply_nba (fst (execute_stmt (SeqBlock [] [NonblockingAssign (Identifier x [] i) (Identifier y [] j),
                                               NonblockingAssign (Identifier y [] j) (Identifier x [] i)]) s)) = Inr (s', changed)
    \<and> signals (es_ctx s') = (signals (es_ctx s))(x \<mapsto> b, y \<mapsto> a)"
proof -
  have "fst (execute_stmt (SeqBlock [] [NonblockingAssign (Identifier x [] i) (Identifier y [] j),
      NonblockingAssign (Identifier y [] j) (Identifier x [] i)]) s) = s\<lparr>es_nba := [NbaEntry x b, NbaEntry y a]\<rparr>"
    using assms by (simp add: assign_plain of_step_def and_then_def leave_block_def queue_nba_def)
  moreover have "a = b" if "v_val a = v_val b" "v_mask a = v_mask b"
    using that assms(5) by (cases a; cases b) simp
  ultimately show ?thesis
    using assms by (auto simp: apply_nba_def apply_entry_def read_signal_def rmap_def rbind_def fun_eq_iff)
qed

theorem nonblocking_defers_effects_witness:
  "\<exists>es. fst (execute_stmt (NonblockingAssign (Identifier ''a'' [] None) (Identifier ''b'' [] None))
          (sample_state [(''a'', known 1 4), (''b'', known 2 4)]))
        = (sample_state [(''a'', known 1 4), (''b'', known 2 4)])\<lparr>es_nba := es_nba (sample_state [(''a'', known 1 4), (''b'', known 2 4)]) @ es\<rparr>
      \<and> nba_name ` set es \<subseteq> assigned (NonblockingAssign (Identifier ''a'' [] None) (Identifier ''b'' [] None))"
  by (rule nonblocking_defers_effects) simp

theorem nonblocking_swap_witness:
  "\<exists>s' changed.
    apply_nba (fst (execute_stmt (SeqBlock [] [NonblockingAssign (Identifier ''x'' [] None) (Identifier ''y'' [] None),
                                               NonblockingAssign (Identifier ''y'' [] None) (Identifier ''x'' [] None)])
      (sample_state [(''x'', known 3 4), (''y'', known 5 4)]))) = Inr (s', changed)
    \<and> signals (es_ctx s') = (signals (es_ctx (sample_state [(''x'', known 3 4), (''y'', known 5 4)])))(''x'' \<mapsto> known 5 4, ''y'' \<mapsto> known 3 4)"
  by (rule nonblocking_swap) (simp_all add: known_def)

end
