(* ===== verification/Executor_Coroutine.thy ===== *)
theory Executor_Coroutine
  imports Executor
begin

text \<open>
  The generator \<open>execute_coroutine\<close> repeats \<open>execute\<close> branch by branch; here the two are compared.
\<close>

section \<open>The two executors\<close>

text \<open>The first thing that a generator does: it has returned, or it is suspended.\<close>

primrec first :: "coroutine \<Rightarrow> exec_result" where
  "first (Return s c) = (s, c)"
| "first (Yield d evs s k) = (s, Suspended d evs)"

lemma first_result [simp]: "first (co_result r) = r"
  by (simp add: co_result_def)

lemma first_then [simp]: "first (co_then c f) = and_then (first c) (\<lambda>s. first (f s))"
  by (cases c) (auto simp: and_then_def split: completion.split)

lemma first_leave [simp]: "first (co_leave name c) = leave_block name (first c)"
  by (cases c) (simp_all add: leave_block_def)

lemma first_option [simp]: "first (co_option body s) = exec_option (map_option (\<lambda>f s. first (f s)) body) s"
  by (simp add: co_option_def exec_option_def split: option.split)

lemma first_block [simp]: "first (co_block fs s) = exec_block (map (\<lambda>f s. first (f s)) fs) s"
  by (induction fs arbitrary: s) simp_all

lemma first_if [simp]:
  "first (co_if c t e s) = exec_if c (map_option (\<lambda>f s. first (f s)) t) (map_option (\<lambda>f s. first (f s)) e) s"
  by (simp add: co_if_def exec_if_def split: sum.split)

lemma select_item_map:
  "select_item ctx ct sel (map (\<lambda>(vals, body, d). (vals, map_option g body, d)) items)
    = rmap (map_option g) (select_item ctx ct sel items)"
  by (induction ctx ct sel items rule: select_item.induct) (auto simp: rbind_def rmap_def split: sum.split)

lemma first_case [simp]:
  "first (co_case ct e items s)
    = exec_case ct e (map (\<lambda>(vals, body, d). (vals, map_option (\<lambda>f s. first (f s)) body, d)) items) s"
  by (auto simp: co_case_def exec_case_def select_item_map rbind_def rmap_def split: sum.split)

lemma first_loop [simp]: "first (co_loop k test body s) = exec_loop k test (\<lambda>s. first (body s)) s"
proof (induction k arbitrary: s)
  case 0
  show ?case
    by (subst co_loop.simps, subst exec_loop.simps) (simp split: sum.split bool.split)
next
  case (Suc k)
  show ?case
    by (subst co_loop.simps, subst exec_loop.simps) (simp add: Suc split: sum.split bool.split)
qed

lemma first_repeat [simp]: "first (co_repeat n body s) = exec_repeat n (\<lambda>s. first (body s)) s"
  by (induction n arbitrary: s) simp_all

lemma co_assign_eq: "co_assign immediate lhs rhs s = assign immediate lhs rhs s"
proof (cases "scalar_target (es_ctx s) lhs")
  case (Some cur)
  then obtain n r where l: "lhs = Identifier n [] r" "memories (es_ctx s) n = None" "signals (es_ctx s) n = Some cur"
    by (auto simp: scalar_target_def split: expr.splits if_splits)
  then have "copy_whole_memory immediate lhs rhs s = None" "assign_pattern_to_memory immediate lhs rhs s = None"
    "lhs_width (es_ctx s) lhs = Inr (int (v_width cur))"
    by (auto simp: copy_whole_memory_def assign_pattern_to_memory_def identifier_name_def read_signal_def
        split: expr.split)
  then show ?thesis by (simp add: co_assign_def assign_def Some)
qed (simp add: co_assign_def assign_def Let_def)

lemma first_body:
  assumes "\<And>f. f \<in> set_option b \<Longrightarrow> (\<lambda>s. first (execute_coroutine f s)) = execute_stmt f"
  shows "map_option (\<lambda>f s. first (f s)) (map_option execute_coroutine b) = map_option execute_stmt b"
  using assms by (cases b) auto

lemma first_execute:
  "(\<lambda>s. first (execute_coroutine st s)) = execute_stmt st"
  "(\<lambda>(vals, body, d). (vals, map_option (\<lambda>f s. first (f s)) body, d)) (coroutine_item it) = execute_case_item it"
proof (induction st and it rule: stmt.induct case_item.induct)
  case (SeqBlock name ss)
  then have "map (\<lambda>x s. first (execute_coroutine x s)) ss = map execute_stmt ss" by (intro map_cong refl)
  then show ?case
    by (simp only: execute_coroutine.simps execute_stmt.simps first_leave first_block list.map_comp comp_def)
next
  case (ParBlock name ss)
  then have "map (\<lambda>x s. first (execute_coroutine x s)) ss = map execute_stmt ss" by (intro map_cong refl)
  then show ?case
    by (simp only: execute_coroutine.simps execute_stmt.simps first_leave first_block list.map_comp comp_def)
next
  case (CaseStatement ct e items)
  then have "map (\<lambda>it. (\<lambda>(vals, body, d). (vals, map_option (\<lambda>f s. first (f s)) body, d)) (coroutine_item it)) items
      = map execute_case_item items" by (intro map_cong refl)
  then show ?case
    by (simp only: execute_coroutine.simps execute_stmt.simps first_case list.map_comp comp_def)
next
  case (IfStatement c t e)
  show ?case using first_body [of t] first_body [of e] IfStatement by simp
next
  case (ForLoop init c upd body sg)
  show ?case using first_body [of body] ForLoop by (simp add: fun_eq_iff fun_cong [OF ForLoop(1)] fun_cong [OF ForLoop(2)])
next
  case (WhileLoop c body)
  show ?case using first_body [of body] WhileLoop by (simp add: fun_eq_iff)
next
  case (ForeverLoop body)
  show ?case using first_body [of body] ForeverLoop by (simp add: fun_eq_iff)
next
  case (RepeatLoop c body)
  show ?case using first_body [of body] RepeatLoop by (auto simp: fun_eq_iff split: sum.split)
next
  case (WaitStatement c body)
  show ?case using first_body [of body] WaitStatement by (auto simp: fun_eq_iff split: sum.split bool.split)
next
  case (CaseItem vals body d)
  show ?case using first_body [of body] CaseItem by (simp add: fun_eq_iff)
qed (auto simp: co_assign_eq split: sum.split)

text \<open>C29: The two executors are the same up to the first suspension: running a statement as a generator
  changes the state as \<open>execute\<close> does, and returns or suspends with the outcome that \<open>execute\<close> returns or
  raises.\<close>

theorem coroutine_agrees: "first (execute_coroutine stmt s) = execute_stmt stmt s"
  using fun_cong [OF first_execute(1)] .

end
