(* ===== verification/Executor_Differences.thy ===== *)
theory Executor_Differences
  imports Executor
begin

text \<open>
  Where the executor does not do what the language, or its own other half, does: a \<open>default\<close> item that
  stands first, a signed index on the left of an assignment, and the concatenated targets of a
  non-blocking assignment. Each is shown on a concrete state.
\<close>

section \<open>The state\<close>

text \<open>\<open>reg [5:-2] m; reg signed [3:0] s; reg x; reg [1:0] sel; reg [3:0] y; reg [3:0] mem [0:1]\<close>.\<close>

definition reg_ctx :: eval_ctx where
  "reg_ctx = \<lparr>signals = map_of [(''m'', known 2 8), (''s'', known 15 4), (''x'', known 0 1), (''sel'', known 1 2), (''y'', known 0 4)],
     signal_signed = (\<lambda>n. n = ''s''), signal_bases = (\<lambda>n. if n = ''m'' then - 2 else 0),
     memories = map_of [(''mem'', ([known 5 4, known 6 4], 4))], memory_bases = (\<lambda>_. 0), ctx_time = 0\<rparr>"

definition reg_state :: exec_state where
  "reg_state = \<lparr>es_ctx = reg_ctx, es_originals = None, es_nba = [], es_output = [],
     es_write_buffer = [], es_time = 0, es_limit = 100, es_files = (\<lambda>_. None)\<rparr>"

abbreviation ident :: "string \<Rightarrow> expr" where
  "ident n \<equiv> Identifier n [] None"

definition sized :: "int \<Rightarrow> nat \<Rightarrow> expr" where
  "sized n w = Literal \<lparr>lit_value = LitInt n, lit_width = Some w, lit_signed = False, lit_is_x = False,
     lit_is_z = False, original_text = []\<rparr>"

definition signal_after :: "exec_result \<Rightarrow> string \<Rightarrow> val4 option" where
  "signal_after r n = (case apply_nba (fst r) of Inl e \<Rightarrow> None | Inr (s, _) \<Rightarrow> signals (es_ctx s) n)"

definition element_after :: "exec_result \<Rightarrow> string \<Rightarrow> nat \<Rightarrow> val4 option" where
  "element_after r n i = (case apply_nba (fst r) of
     Inl e \<Rightarrow> None | Inr (s, _) \<Rightarrow> map_option (\<lambda>(data, _). data ! i) (memories (es_ctx s) n))"

section \<open>Differences\<close>

text \<open>The position of a default matters to the executor: \<open>case (sel) 1: y = 3; default: y = 9;\<close> assigns 3
  when \<open>sel\<close> is 1, the same items with the default first assign 9.\<close>

theorem default_item_first:
  "signal_after (execute_stmt (CaseStatement ''case'' (ident ''sel'')
      [CaseItem [sized 1 2] (Some (BlockingAssign (ident ''y'') (sized 3 4))) False,
       CaseItem [] (Some (BlockingAssign (ident ''y'') (sized 9 4))) True]) reg_state) ''y'' = Some (known 3 4)
   \<and> signal_after (execute_stmt (CaseStatement ''case'' (ident ''sel'')
      [CaseItem [] (Some (BlockingAssign (ident ''y'') (sized 9 4))) True,
       CaseItem [sized 1 2] (Some (BlockingAssign (ident ''y'') (sized 3 4))) False]) reg_state) ''y'' = Some (known 9 4)"
  by code_simp

text \<open>A bit that a signed index reads, an assignment through the same index does not write: \<open>m[s]\<close> with
  \<open>s = -1\<close> reads bit 1 of \<open>reg [5:-2] m\<close>, and \<open>m[s] = 0\<close> changes nothing.\<close>

theorem signed_index_write_dropped:
  "eval reg_ctx (BitSelect (ident ''m'') (ident ''s'')) 0 None = Inr (known 1 1)
   \<and> signal_after (execute_stmt (BlockingAssign (BitSelect (ident ''m'') (ident ''s'')) (sized 0 1)) reg_state) ''m''
     = Some (known 2 8)"
  by code_simp

text \<open>A concatenated target of a non-blocking assignment is not the target of the blocking one. The
  target \<open>{m[1], x}\<close> writes bit 1 of the vector instead of the bit that index 1 names (a declared range of \<open>[5:-2]\<close> puts it
  at bit 3), \<open>{mem[1], x}\<close> leaves the memory element as it was and creates a scalar of the memory's
  name, and an index out of range raises \<open>IndexError\<close> instead of being ignored.\<close>

theorem concat_nba_differs:
  "signal_after (execute_stmt (BlockingAssign (Concatenation [BitSelect (ident ''m'') (sized 1 2), ident ''x'']) (sized 3 2)) reg_state) ''m''
     = Some (known 10 8)
   \<and> signal_after (execute_stmt (NonblockingAssign (Concatenation [BitSelect (ident ''m'') (sized 1 2), ident ''x'']) (sized 3 2)) reg_state) ''m''
     = Some (known 2 8)
   \<and> element_after (execute_stmt (BlockingAssign (Concatenation [BitSelect (ident ''mem'') (sized 1 2), ident ''x'']) (sized 31 5)) reg_state) ''mem'' 1
     = Some (known 15 4)
   \<and> element_after (execute_stmt (NonblockingAssign (Concatenation [BitSelect (ident ''mem'') (sized 1 2), ident ''x'']) (sized 31 5)) reg_state) ''mem'' 1
     = Some (known 6 4)
   \<and> snd (execute_stmt (BlockingAssign (Concatenation [BitSelect (ident ''y'') (sized 7 4), ident ''x'']) (sized 3 2)) reg_state) = Completed
   \<and> snd (execute_stmt (NonblockingAssign (Concatenation [BitSelect (ident ''y'') (sized 7 4), ident ''x'']) (sized 3 2)) reg_state) = Failed IndexError"
  by (intro conjI; code_simp)

end
