(* ===== verification/Engine_Shape.thy ===== *)
theory Engine_Shape
  imports Engine_Select
begin

text \<open>
  Contexts of the same shape: they declare the same signals and memories with the same widths, signs
  and bases, and differ only in the values. What an expression is worth depends on the values, but not
  its width, its sign or whether it belongs to the fragment the engines agree on; so these can be
  decided once, before a process runs.
\<close>

definition memory_size :: "val4 list \<times> nat \<Rightarrow> nat \<times> nat" where
  "memory_size p = (length (fst p), snd p)"

definition same_shape :: "eval_ctx \<Rightarrow> eval_ctx \<Rightarrow> bool" where
  "same_shape ctx ctx' \<longleftrightarrow>
     (\<forall>name. map_option v_width (signals ctx name) = map_option v_width (signals ctx' name)
        \<and> map_option memory_size (memories ctx name) = map_option memory_size (memories ctx' name))
     \<and> signal_signed ctx = signal_signed ctx' \<and> signal_bases ctx = signal_bases ctx'
     \<and> memory_bases ctx = memory_bases ctx'"

lemma same_shape_refl [simp]: "same_shape ctx ctx"
  by (simp add: same_shape_def)

lemma same_shape_sym: "same_shape ctx ctx' \<Longrightarrow> same_shape ctx' ctx"
  by (simp add: same_shape_def)

lemma same_shape_trans: "same_shape a b \<Longrightarrow> same_shape b c \<Longrightarrow> same_shape a c"
  by (simp add: same_shape_def)

lemma same_shapeD:
  assumes "same_shape ctx ctx'"
  shows "map_option v_width (signals ctx' name) = map_option v_width (signals ctx name)"
    and "map_option memory_size (memories ctx' name) = map_option memory_size (memories ctx name)"
    and "signal_signed ctx' = signal_signed ctx" "signal_bases ctx' = signal_bases ctx"
    and "memory_bases ctx' = memory_bases ctx"
  using assms unfolding same_shape_def by simp_all

lemma shape_signals:
  assumes "same_shape ctx ctx'" "signals ctx name = Some v"
  obtains v' where "signals ctx' name = Some v'" "v_width v' = v_width v"
  using same_shapeD(1) [OF assms(1), of name] assms(2) that by auto

lemma shape_no_signal: "same_shape ctx ctx' \<Longrightarrow> signals ctx name = None \<Longrightarrow> signals ctx' name = None"
  using same_shapeD(1) [of ctx ctx' name] by simp

lemma shape_memories:
  assumes "same_shape ctx ctx'" "memories ctx name = Some (data, w)"
  obtains data' where "memories ctx' name = Some (data', w)" "length data' = length data"
  using same_shapeD(2) [OF assms(1), of name] assms(2) that by (auto simp: memory_size_def)

lemma shape_no_memory: "same_shape ctx ctx' \<Longrightarrow> memories ctx name = None \<Longrightarrow> memories ctx' name = None"
  using same_shapeD(2) [of ctx ctx' name] by simp

lemma shape_memory_none: "same_shape ctx ctx' \<Longrightarrow> memories ctx' name = None \<longleftrightarrow> memories ctx name = None"
  using shape_no_memory same_shape_sym by blast

lemma shape_expr_signed: "same_shape ctx ctx' \<Longrightarrow> expr_signed ctx' e = expr_signed ctx e"
proof (induction ctx e rule: expr_signed.induct)
  case (1 ctx n h r)
  then show ?case by (simp add: same_shape_def)
next
  case (3 ctx t i)
  then show ?case using shape_memory_none [OF 3(1)] by (auto simp: same_shape_def split: expr.split)
qed simp_all

lemma shape_self_width: "same_shape ctx ctx' \<Longrightarrow> expr_self_width ctx' e = expr_self_width ctx e"
proof (induction ctx e rule: expr_self_width.induct)
  case (1 ctx n h r)
  show ?case
  proof (cases "signals ctx (identifier_name n h)")
    case None
    show ?thesis
    proof (cases "memories ctx (identifier_name n h)")
      case (Some p)
      obtain data w where p: "p = (data, w)" by (cases p)
      obtain data' where "memories ctx' (identifier_name n h) = Some (data', w)" "length data' = length data"
        using shape_memories [OF 1] Some p by metis
      then show ?thesis using None Some p shape_no_signal [OF 1 None] by simp
    qed (use None shape_no_signal [OF 1] shape_no_memory [OF 1] in simp)
  next
    case (Some v)
    then obtain v' where "signals ctx' (identifier_name n h) = Some v'" "v_width v' = v_width v"
      using shape_signals [OF 1] by metis
    then show ?thesis using Some by simp
  qed
next
  case (3 ctx t i)
  show ?case
  proof (cases "\<exists>n h r p. t = Identifier n h r \<and> memories ctx (identifier_name n h) = Some p")
    case True
    then obtain n h r data w where t: "t = Identifier n h r" "memories ctx (identifier_name n h) = Some (data, w)"
      by auto
    obtain data' where "memories ctx' (identifier_name n h) = Some (data', w)"
      using shape_memories [OF 3 t(2)] by metis
    then show ?thesis using t by simp
  next
    case False
    then have "memories ctx (identifier_name n h) = None" if "t = Identifier n h r" for n h r
      using that by (cases "memories ctx (identifier_name n h)") auto
    then show ?thesis using shape_no_memory [OF 3] by (cases t) simp_all
  qed
next
  case (8 ctx c v)
  show ?case
  proof (cases c)
    case (Literal l)
    then show ?thesis using 8 by (cases "lit_int l") auto
  qed (use 8 in simp_all)
next
  case (12 ctx named pos dflt)
  have "sum_res (map (expr_self_width ctx') pos) = sum_res (map (expr_self_width ctx) pos)"
    if "named = []" "pos \<noteq> []"
    by (rule arg_cong [where f = sum_res]) (use 12(1) [OF _ _ _ 12(3)] that in simp)
  moreover have "expr_self_width ctx' e = expr_self_width ctx e" if "named = []" "pos = []" "dflt = Some e" for e
    using 12(2) [OF _ _ _ 12(3)] that by simp
  ultimately show ?case by (auto split: option.split)
qed (auto intro!: arg_cong [where f = sum_res])

lemma shape_select_base: "same_shape ctx ctx' \<Longrightarrow> select_base ctx' e = select_base ctx e"
  using shape_memory_none [of ctx ctx'] by (auto simp: select_base_def same_shape_def split: expr.split)

lemma shape_has_width:
  "same_shape ctx ctx' \<Longrightarrow>
     (case signals ctx' name of Some v \<Rightarrow> 0 < v_width v | None \<Rightarrow> False) =
     (case signals ctx name of Some v \<Rightarrow> 0 < v_width v | None \<Rightarrow> False)"
  by (cases "signals ctx name") (auto dest: shape_no_signal elim: shape_signals)

lemma shape_agree_expr: "same_shape ctx ctx' \<Longrightarrow> agree_expr ctx' e = agree_expr ctx e"
proof (induction ctx e rule: agree_expr.induct)
  case (1 ctx n h r)
  then show ?case by (simp add: shape_has_width)
next
  case (4 ctx op a b)
  then show ?case by (simp add: shape_expr_signed)
next
  case (6 ctx parts)
  then show ?case by (auto simp: list_all_iff)
next
  case (7 ctx c v)
  have "agree_expr ctx' v = agree_expr ctx v" if "literal_of c = Some l" for l
    using 7(1) [OF that 7(2)] .
  then show ?case by (cases "literal_of c") (simp, simp only: agree_expr.simps option.case)
next
  case (8 ctx t i)
  have i: "agree_expr ctx' i = agree_expr ctx i" "expr_signed ctx' i = expr_signed ctx i"
    using 8 by (auto simp: shape_expr_signed)
  have b: "select_base ctx' t = select_base ctx t" using "8.prems" by (rule shape_select_base)
  show ?case
  proof (cases "\<exists>n h r p. t = Identifier n h r \<and> memories ctx (identifier_name n h) = Some p")
    case True
    then obtain n h r data w where t: "t = Identifier n h r" "memories ctx (identifier_name n h) = Some (data, w)"
      by auto
    obtain data' where "memories ctx' (identifier_name n h) = Some (data', w)"
      using shape_memories [OF "8.prems" t(2)] by metis
    then show ?thesis using t i by simp
  next
    case False
    then have "memories ctx (identifier_name n h) = None" if "t = Identifier n h r" for n h r
      using that by (cases "memories ctx (identifier_name n h)") auto
    moreover from this have "memories ctx' (identifier_name n h) = None" if "t = Identifier n h r" for n h r
      using that shape_no_memory [OF "8.prems"] by blast
    ultimately show ?thesis using 8 i b by (cases t) (simp_all add: shape_has_width)
  qed
next
  case (9 ctx t m l)
  then show ?case by (simp add: shape_select_base split: option.split)
qed (auto simp: shape_expr_signed)

end
