(* ===== verification/Vm_Statement.thy ===== *)
theory Vm_Statement
  imports Vm_Compiler Executor
begin

text \<open>
  The statement compiler of the VM engine, \<open>sim/vm/compiler.py\<close>: assignment targets
  (\<open>_compile_store_lhs\<close>), whole memories, matching concatenations, control flow (\<open>_compile_stmt\<close>,
  \<open>_compile_case\<close>), system tasks, and the signals that a process is sensitive to.

  As for the expression compiler, the module has no struct-typed signals, user functions or user
  tasks; a name that was never declared gives \<open>Unmodelled\<close>. The result of \<open>_compile_stmt\<close>, whether
  the statement holds a timing control, does not depend on the rest of the compilation: it is the
  function \<open>has_timing\<close>. A declared memory has its marker signal in \<open>se_markers\<close>.
\<close>

section \<open>Tables and state\<close>

record stmt_env =
  se_code :: comp_env
  se_markers :: "nat list"

record stmt_comp =
  sc_code :: comp_state
  sc_formats :: "string list"
  sc_monitors :: "(program \<times> nat set) list"
  sc_readmem :: "(string \<times> nat \<times> bool \<times> int option list) list"

type_synonym stmt_compiler = "stmt_comp \<Rightarrow> stmt_comp res"

definition on_code :: "(comp_state \<Rightarrow> comp_state res) \<Rightarrow> stmt_compiler" where
  "on_code f sc = rmap (\<lambda>st. sc\<lparr>sc_code := st\<rparr>) (f (sc_code sc))"

definition emit3 :: "instr \<Rightarrow> comp_state \<Rightarrow> comp_state" where
  "emit3 i st = st\<lparr>cs_prog := cs_prog st @ [i]\<rparr>"

definition code_length :: "comp_state \<Rightarrow> nat" where
  "code_length st = length (cs_prog st)"

text \<open>\<open>program[idx] = instr(op, target)\<close>.\<close>

definition patch_to :: "nat \<Rightarrow> opcode \<Rightarrow> nat \<Rightarrow> comp_state \<Rightarrow> comp_state" where
  "patch_to idx op target st = st\<lparr>cs_prog := (cs_prog st)[idx := instr op (int target)]\<rparr>"

definition emit_int :: "int \<Rightarrow> comp_state \<Rightarrow> comp_state" where
  "emit_int n st = emit_const (known n 32) st"

definition memory_arg :: "stmt_env \<Rightarrow> nat \<Rightarrow> int res" where
  "memory_arg se mid =
     (if mid < length (se_markers se) then Inr (int mid OR push_bit 16 (int (se_markers se ! mid)))
      else Inl IndexError)"

definition memory_shape :: "comp_env \<Rightarrow> nat \<Rightarrow> (nat \<times> nat) res" where
  "memory_shape ce mid =
     (if mid < length (ce_mem_info ce) then (case ce_mem_info ce ! mid of (ew, depth, _) \<Rightarrow> Inr (ew, depth))
      else Inl IndexError)"

section \<open>Widths of the parts of a concatenation\<close>

definition part_width_info :: "comp_env \<Rightarrow> expr \<Rightarrow> int option res" where
  "part_width_info ce part = (case part of
     RangeSelect t m l \<Rightarrow>
       (case (m, l) of
          (Literal a, Literal b) \<Rightarrow> rbind (lit_int a) (\<lambda>x. rmap (\<lambda>y. Some (x - y + 1)) (lit_int b))
        | _ \<Rightarrow> Inr (case (vm_const_int ce m, vm_const_int ce l) of
            (Some msb, Some lsb) \<Rightarrow> Some (msb - lsb + 1) | _ \<Rightarrow> None))
   | PartSelect t b w d \<Rightarrow>
       (case w of Literal l \<Rightarrow> rmap Some (lit_int l) | _ \<Rightarrow> Inr (vm_const_int ce w))
   | _ \<Rightarrow> rmap Some (vm_expr_width ce part))"

text \<open>A single part of unknown width takes what the others leave of the total.\<close>

definition infer_widths :: "int option \<Rightarrow> int option list \<Rightarrow> int option list" where
  "infer_widths tw ws =
     (let known_total = sum_list (map (\<lambda>w. opt_or w 0) ws)
      in case tw of
           Some t \<Rightarrow>
             (if length (filter (\<lambda>w. w = None) ws) = 1 \<and> 0 \<le> t - known_total
              then map (\<lambda>w. case w of Some n \<Rightarrow> Some n | None \<Rightarrow> Some (t - known_total)) ws
              else ws)
         | None \<Rightarrow> ws)"

fun own_widths :: "comp_env \<Rightarrow> expr list \<Rightarrow> int option list \<Rightarrow> int list res" where
  "own_widths ce (p # ps) (w # ws) =
     rbind (case w of Some n \<Rightarrow> Inr n | None \<Rightarrow> vm_expr_width ce p) (\<lambda>n. rmap (\<lambda>ns. n # ns) (own_widths ce ps ws))"
| "own_widths ce _ _ = Inr []"

definition concat_eval_widths :: "comp_env \<Rightarrow> expr list \<Rightarrow> int option \<Rightarrow> int list res" where
  "concat_eval_widths ce parts tw =
     rbind (seq_res (map (part_width_info ce) parts)) (\<lambda>ws. own_widths ce parts (infer_widths tw ws))"

section \<open>Assignment targets\<close>

text \<open>A store to a declared scalar; a wide one is preceded by a resize.\<close>

definition store_scalar :: "comp_env \<Rightarrow> bool \<Rightarrow> nat \<Rightarrow> comp_state \<Rightarrow> comp_state res" where
  "store_scalar ce immediate sid st =
     (if sid < length (ce_sig_width ce) then
        (let w = ce_sig_width ce ! sid;
             st' = (if 64 < w then emit RESIZE (int w) st else st)
         in Inr (emit (if immediate then STORE_SIG else NBA_SIG) (int sid) st'))
      else Inl IndexError)"

definition declared :: "comp_env \<Rightarrow> string \<Rightarrow> nat res" where
  "declared ce name = (case signal_map ce name of Some sid \<Rightarrow> Inr sid | None \<Rightarrow> Inl Unmodelled)"

text \<open>\<open>DUP\<close> and the slice \<open>[msb:lsb]\<close> of the value on the stack.\<close>

definition emit_slice :: "int \<Rightarrow> int \<Rightarrow> comp_state \<Rightarrow> comp_state" where
  "emit_slice msb lsb st = emit RANGE_SELECT 0 (emit_int lsb (emit_int msb (emit DUP 0 st)))"

definition store_memory_element :: "stmt_env \<Rightarrow> bool \<Rightarrow> nat \<Rightarrow> expr \<Rightarrow> comp_state \<Rightarrow> comp_state res" where
  "store_memory_element se immediate mid index st =
     rbind (memory_arg se mid) (\<lambda>arg.
       rmap (emit (if immediate then STORE_MEM else NBA_MEM) arg) (compile_expr (se_code se) index 0 None st))"

fun store_elements ::
    "stmt_env \<Rightarrow> bool \<Rightarrow> nat \<Rightarrow> nat \<Rightarrow> nat list \<Rightarrow> comp_state \<Rightarrow> comp_state res" where
  "store_elements se immediate mid ew [] st = Inr st"
| "store_elements se immediate mid ew (k # ks) st =
     rbind (store_memory_element se immediate mid (Literal (int_literal (int k)))
              (emit_slice (int (k * ew) + int ew - 1) (int (k * ew)) st))
       (store_elements se immediate mid ew ks)"

definition store_whole_memory :: "stmt_env \<Rightarrow> bool \<Rightarrow> nat \<Rightarrow> comp_state \<Rightarrow> comp_state res" where
  "store_whole_memory se immediate mid st =
     rbind (memory_shape (se_code se) mid) (\<lambda>(ew, depth).
       rmap (emit POP 0) (store_elements se immediate mid ew [0..<depth] (emit RESIZE (int (depth * ew)) st)))"

definition store_identifier :: "stmt_env \<Rightarrow> bool \<Rightarrow> string \<Rightarrow> comp_state \<Rightarrow> comp_state res" where
  "store_identifier se immediate name st =
     (let ce = se_code se
      in case signal_map ce name of
           Some sid \<Rightarrow> store_scalar ce immediate sid st
         | None \<Rightarrow> (case mem_map ce name of
             Some mid \<Rightarrow> store_whole_memory se immediate mid st
           | None \<Rightarrow> Inl Unmodelled))"

text \<open>A select position, adjusted by the declared low bound.\<close>

definition compile_position :: "comp_env \<Rightarrow> int \<Rightarrow> expr \<Rightarrow> comp_state \<Rightarrow> comp_state res" where
  "compile_position ce base e st = rmap (append_base_adjust base) (compile_expr ce e 0 None st)"

definition store_bit_select :: "stmt_env \<Rightarrow> bool \<Rightarrow> string \<Rightarrow> expr \<Rightarrow> comp_state \<Rightarrow> comp_state res" where
  "store_bit_select se immediate name index st =
     (let ce = se_code se
      in case mem_map ce name of
           Some mid \<Rightarrow> store_memory_element se immediate mid index st
         | None \<Rightarrow>
             rbind (declared ce name) (\<lambda>sid.
             rmap (emit (if immediate then STORE_BIT else NBA_BIT) (int sid))
               (compile_position ce (ce_signal_bases ce name) index st)))"

text \<open>The stores to a slice of a scalar and of a memory element: \<open>msb\<close> and \<open>lsb\<close> are on the stack.\<close>

definition emit_range_store :: "bool \<Rightarrow> nat \<Rightarrow> comp_state \<Rightarrow> comp_state" where
  "emit_range_store immediate sid st = emit (if immediate then STORE_RANGE else NBA_RANGE) (int sid) st"

definition emit_element_range_store :: "stmt_env \<Rightarrow> bool \<Rightarrow> nat \<Rightarrow> comp_state \<Rightarrow> comp_state res" where
  "emit_element_range_store se immediate mid st =
     rmap (\<lambda>arg. emit (if immediate then STORE_MEM_RANGE else NBA_MEM_RANGE) arg st) (memory_arg se mid)"

definition store_element_bit ::
    "stmt_env \<Rightarrow> bool \<Rightarrow> string \<Rightarrow> nat \<Rightarrow> expr \<Rightarrow> expr \<Rightarrow> comp_state \<Rightarrow> comp_state res" where
  "store_element_bit se immediate name mid outer index st =
     (let ce = se_code se; base = ce_memory_bases ce name
      in rbind (compile_expr ce outer 0 None st) (\<lambda>st1.
         rbind (compile_position ce base index st1) (\<lambda>st2.
         rbind (compile_position ce base index st2) (emit_element_range_store se immediate mid))))"

definition store_element_range ::
    "stmt_env \<Rightarrow> bool \<Rightarrow> string \<Rightarrow> nat \<Rightarrow> expr \<Rightarrow> expr \<Rightarrow> expr \<Rightarrow> comp_state \<Rightarrow> comp_state res" where
  "store_element_range se immediate name mid index m l st =
     (let ce = se_code se; base = ce_memory_bases ce name
      in rbind (compile_expr ce index 0 None st) (\<lambda>st1.
         rbind (compile_position ce base m st1) (\<lambda>st2.
         rbind (compile_position ce base l st2) (emit_element_range_store se immediate mid))))"

definition store_range_select ::
    "stmt_env \<Rightarrow> bool \<Rightarrow> string \<Rightarrow> expr \<Rightarrow> expr \<Rightarrow> comp_state \<Rightarrow> comp_state res" where
  "store_range_select se immediate name m l st =
     (let ce = se_code se; base = ce_signal_bases ce name
      in rbind (declared ce name) (\<lambda>sid.
         rbind (compile_position ce base m st) (\<lambda>st1.
         rmap (emit_range_store immediate sid) (compile_position ce base l st1))))"

text \<open>The bounds of an indexed part select; \<open>base_code\<close> compiles the base, adjusted or not.\<close>

definition compile_part_bounds ::
    "comp_env \<Rightarrow> direction \<Rightarrow> expr \<Rightarrow> (comp_state \<Rightarrow> comp_state res) \<Rightarrow> comp_state \<Rightarrow> comp_state res" where
  "compile_part_bounds ce d w base_code st =
     (if d = PlusColon then
        rbind (base_code st) (\<lambda>st1.
        rbind (compile_expr ce w 0 None st1) (\<lambda>st2.
          base_code (emit SUB 0 (emit_int 1 (emit ADD 0 st2)))))
      else
        rbind (base_code st) (\<lambda>st1.
        rbind (base_code st1) (\<lambda>st2.
        rmap (\<lambda>st3. emit ADD 0 (emit_int 1 (emit SUB 0 st3))) (compile_expr ce w 0 None st2))))"

definition select_base_code :: "comp_env \<Rightarrow> expr \<Rightarrow> comp_state \<Rightarrow> comp_state res" where
  "select_base_code ce b = compile_select_base (vm_expr_width ce b) (vm_expr_signed ce b) (compile_expr ce b)"

text \<open>A slice of a memory element subtracts the declared low bound from the base; a slice of a scalar does not.\<close>

definition store_element_part ::
    "stmt_env \<Rightarrow> bool \<Rightarrow> string \<Rightarrow> nat \<Rightarrow> expr \<Rightarrow> expr \<Rightarrow> expr \<Rightarrow> direction \<Rightarrow> comp_state \<Rightarrow> comp_state res" where
  "store_element_part se immediate name mid index b w d st =
     (let ce = se_code se
      in rbind (compile_expr ce index 0 None st) (\<lambda>st1.
         rbind (compile_part_bounds ce d w
                  (\<lambda>st. rmap (append_base_adjust (ce_memory_bases ce name)) (select_base_code ce b st)) st1)
           (emit_element_range_store se immediate mid)))"

definition store_part_select ::
    "stmt_env \<Rightarrow> bool \<Rightarrow> string \<Rightarrow> expr \<Rightarrow> expr \<Rightarrow> direction \<Rightarrow> comp_state \<Rightarrow> comp_state res" where
  "store_part_select se immediate name b w d st =
     (let ce = se_code se
      in rbind (declared ce name) (\<lambda>sid.
         rmap (emit_range_store immediate sid) (compile_part_bounds ce d w (select_base_code ce b) st)))"

text \<open>The element of a memory that a nested select names.\<close>

definition memory_target :: "comp_env \<Rightarrow> expr \<Rightarrow> (string \<times> nat \<times> expr) option" where
  "memory_target ce t = (case t of
     BitSelect (Identifier n h _) i \<Rightarrow>
       map_option (\<lambda>mid. (identifier_name n h, mid, i)) (mem_map ce (identifier_name n h))
   | _ \<Rightarrow> None)"

text \<open>The targets other than a concatenation; those of another kind emit nothing.\<close>

definition store_simple :: "stmt_env \<Rightarrow> bool \<Rightarrow> expr \<Rightarrow> comp_state \<Rightarrow> comp_state res" where
  "store_simple se immediate lhs st = (case lhs of
     Identifier n h _ \<Rightarrow> store_identifier se immediate (identifier_name n h) st
   | BitSelect t i \<Rightarrow> (case t of
       Identifier n h _ \<Rightarrow> store_bit_select se immediate (identifier_name n h) i st
     | _ \<Rightarrow> (case memory_target (se_code se) t of
         Some (name, mid, outer) \<Rightarrow> store_element_bit se immediate name mid outer i st | None \<Rightarrow> Inr st))
   | RangeSelect t m l \<Rightarrow> (case t of
       Identifier n h _ \<Rightarrow> store_range_select se immediate (identifier_name n h) m l st
     | _ \<Rightarrow> (case memory_target (se_code se) t of
         Some (name, mid, i) \<Rightarrow> store_element_range se immediate name mid i m l st | None \<Rightarrow> Inr st))
   | PartSelect t b w d \<Rightarrow> (case t of
       Identifier n h _ \<Rightarrow> store_part_select se immediate (identifier_name n h) b w d st
     | _ \<Rightarrow> (case memory_target (se_code se) t of
         Some (name, mid, i) \<Rightarrow> store_element_part se immediate name mid i b w d st | None \<Rightarrow> Inr st))
   | _ \<Rightarrow> Inr st)"

text \<open>The parts of a concatenation, least significant first; each takes its slice of the value on the stack.\<close>

type_synonym storer = "int option \<Rightarrow> comp_state \<Rightarrow> comp_state res"

fun store_parts :: "(storer \<times> int) list \<Rightarrow> int \<Rightarrow> comp_state \<Rightarrow> comp_state res" where
  "store_parts [] offset st = Inr st"
| "store_parts ((store, pw) # ps) offset st =
     rbind (store (Some pw) (emit_slice (offset + pw - 1) offset st)) (store_parts ps (offset + pw))"

fun compile_store_lhs :: "stmt_env \<Rightarrow> bool \<Rightarrow> expr \<Rightarrow> storer" where
  "compile_store_lhs se immediate (Concatenation parts) tw st =
     (let stores = map (\<lambda>p. compile_store_lhs se immediate p) parts
      in rbind (concat_eval_widths (se_code se) parts tw) (\<lambda>ws.
         rmap (emit POP 0) (store_parts (rev (zip stores ws)) 0 st)))"
| "compile_store_lhs se immediate lhs tw st = store_simple se immediate lhs st"

section \<open>Whole memories\<close>

text \<open>\<open>None\<close>: the assignment is not of that kind.\<close>

definition whole_memory :: "comp_env \<Rightarrow> expr \<Rightarrow> (string \<times> nat) option" where
  "whole_memory ce e = (case e of
     Identifier n h _ \<Rightarrow> map_option (\<lambda>mid. (identifier_name n h, mid)) (mem_map ce (identifier_name n h))
   | _ \<Rightarrow> None)"

text \<open>One store per address: the code of the element, the address, the store.\<close>

fun store_each ::
    "bool \<Rightarrow> int \<Rightarrow> (nat \<times> (comp_state \<Rightarrow> comp_state res)) list \<Rightarrow> comp_state \<Rightarrow> comp_state res" where
  "store_each immediate arg [] st = Inr st"
| "store_each immediate arg ((addr, element) # es) st =
     rbind (element st) (\<lambda>st1.
       store_each immediate arg es
         (emit (if immediate then STORE_MEM else NBA_MEM) arg (emit_int (int addr) st1)))"

definition memory_word_of :: "string \<Rightarrow> nat \<Rightarrow> expr" where
  "memory_word_of name addr = BitSelect (Identifier name [] None) (Literal (int_literal (int addr)))"

definition compile_element :: "comp_env \<Rightarrow> nat \<Rightarrow> expr \<Rightarrow> comp_state \<Rightarrow> comp_state res" where
  "compile_element ce ew e st =
     rbind (compile_expr ce e (int ew) None st) (\<lambda>st1.
     rmap (\<lambda>w. if w \<noteq> int ew then emit RESIZE (int ew) st1 else st1) (vm_expr_width ce e))"

definition memory_ternary ::
    "comp_env \<Rightarrow> nat \<Rightarrow> nat \<Rightarrow> expr \<Rightarrow> (nat \<Rightarrow> comp_state \<Rightarrow> comp_state res) option res" where
  "memory_ternary ce ew depth rhs = (case rhs of
     TernaryOp c t f \<Rightarrow> (case (whole_memory ce t, whole_memory ce f) of
       (Some (tname, tmid), Some (fname, fmid)) \<Rightarrow>
         rbind (memory_shape ce tmid) (\<lambda>ts. rmap (\<lambda>fs.
           if ts = (ew, depth) \<and> fs = (ew, depth)
           then Some (\<lambda>k. compile_expr ce (TernaryOp c (memory_word_of tname k) (memory_word_of fname k)) (int ew) None)
           else None) (memory_shape ce fmid))
     | _ \<Rightarrow> Inr None)
   | _ \<Rightarrow> Inr None)"

definition memory_pattern ::
    "comp_env \<Rightarrow> nat \<Rightarrow> nat \<Rightarrow> expr \<Rightarrow> (nat \<Rightarrow> comp_state \<Rightarrow> comp_state res) option" where
  "memory_pattern ce ew depth rhs = (case rhs of
     AssignmentPattern named pos dflt \<Rightarrow>
       (if named \<noteq> [] then None
        else if pos = [] then map_option (\<lambda>e k. compile_element ce ew e) dflt
        else if length pos \<noteq> depth then None
        else Some (\<lambda>k. compile_element ce ew (pos ! k)))
   | _ \<Rightarrow> None)"

definition compile_whole_memory_copy ::
    "stmt_env \<Rightarrow> bool \<Rightarrow> expr \<Rightarrow> expr \<Rightarrow> comp_state \<Rightarrow> comp_state option res" where
  "compile_whole_memory_copy se immediate lhs rhs st =
     (let ce = se_code se
      in case whole_memory ce lhs of
           None \<Rightarrow> Inr None
         | Some (lname, mid) \<Rightarrow>
             rbind (memory_shape ce mid) (\<lambda>(ew, depth). rbind (memory_arg se mid) (\<lambda>arg.
               let store = (\<lambda>element. rmap Some (store_each immediate arg (map (\<lambda>k. (k, element k)) [0..<depth]) st))
               in case whole_memory ce rhs of
                    Some (rname, rmid) \<Rightarrow>
                      rbind (memory_shape ce rmid) (\<lambda>shape.
                        if shape \<noteq> (ew, depth) then Inr None
                        else store (\<lambda>k st. Inr (emit LOAD_MEM (int rmid) (emit_int (int k) st))))
                  | None \<Rightarrow> rbind (memory_ternary ce ew depth rhs) (\<lambda>ternary. case ternary of
                      Some element \<Rightarrow> store element
                    | None \<Rightarrow> (case memory_pattern ce ew depth rhs of
                        Some element \<Rightarrow> store element | None \<Rightarrow> Inr None)))))"

section \<open>Concatenation to concatenation\<close>

text \<open>
  Whether two parts have the same width. When one width is unknown at compile time the source compares
  the printed bounds (\<open>repr\<close>) of two selects of one kind, which is not modelled.
\<close>

definition parts_match :: "comp_env \<Rightarrow> expr \<Rightarrow> expr \<Rightarrow> bool res" where
  "parts_match ce p q =
     rbind (part_width_info ce p) (\<lambda>wp. rbind (part_width_info ce q) (\<lambda>wq.
       case (wp, wq) of
         (Some a, Some b) \<Rightarrow> Inr (a = b)
       | _ \<Rightarrow> (case (p, q) of
           (BitSelect _ _, BitSelect _ _) \<Rightarrow> Inr True
         | (RangeSelect _ _ _, RangeSelect _ _ _) \<Rightarrow> Inl Unmodelled
         | (PartSelect _ _ _ _, PartSelect _ _ _ _) \<Rightarrow> Inl Unmodelled
         | _ \<Rightarrow> Inr False)))"

fun all_res :: "bool res list \<Rightarrow> bool res" where
  "all_res [] = Inr True"
| "all_res (b # bs) = rbind b (\<lambda>b. if b then all_res bs else Inr False)"

fun push_parts :: "comp_env \<Rightarrow> (expr \<times> expr) list \<Rightarrow> comp_state \<Rightarrow> comp_state res" where
  "push_parts ce [] st = Inr st"
| "push_parts ce ((p, q) # ps) st =
     rbind (part_width_info ce p) (\<lambda>wp.
     rbind (compile_expr ce q (opt_or wp 0) None st) (\<lambda>st1.
     rbind (part_width_info ce q) (\<lambda>wq.
       push_parts ce ps (case (wp, wq) of
          (Some a, Some b) \<Rightarrow> if b < a then emit RESIZE a st1 else st1 | _ \<Rightarrow> st1))))"

fun pop_parts :: "stmt_env \<Rightarrow> bool \<Rightarrow> expr list \<Rightarrow> comp_state \<Rightarrow> comp_state res" where
  "pop_parts se immediate [] st = Inr st"
| "pop_parts se immediate (p # ps) st =
     rbind (part_width_info (se_code se) p) (\<lambda>w.
     rbind (compile_store_lhs se immediate p w st) (pop_parts se immediate ps))"

definition compile_matching_concat_copy ::
    "stmt_env \<Rightarrow> bool \<Rightarrow> expr \<Rightarrow> expr \<Rightarrow> comp_state \<Rightarrow> comp_state option res" where
  "compile_matching_concat_copy se immediate lhs rhs st = (case (lhs, rhs) of
     (Concatenation ps, Concatenation qs) \<Rightarrow>
       (if length ps \<noteq> length qs then Inr None
        else rbind (all_res (map (\<lambda>(p, q). parts_match (se_code se) p q) (zip ps qs))) (\<lambda>b.
          if \<not> b then Inr None
          else rbind (push_parts (se_code se) (zip ps qs) st) (\<lambda>st1.
            rmap Some (pop_parts se immediate (rev ps) st1))))
   | _ \<Rightarrow> Inr None)"

section \<open>Assignments\<close>

definition emit_sign_ext_if_needed :: "comp_env \<Rightarrow> expr \<Rightarrow> expr \<Rightarrow> comp_state \<Rightarrow> comp_state res" where
  "emit_sign_ext_if_needed ce rhs lhs st =
     (if vm_expr_signed ce rhs then rmap (\<lambda>w. emit SIGN_EXT w st) (vm_expr_width ce lhs) else Inr st)"

definition target_width :: "comp_env \<Rightarrow> expr \<Rightarrow> expr \<Rightarrow> int res" where
  "target_width ce lhs rhs = rbind (vm_expr_width ce lhs) (\<lambda>w. case lhs of
     Concatenation parts \<Rightarrow>
       rbind (vm_expr_width ce rhs) (\<lambda>rw. rmap sum_list (concat_eval_widths ce parts (Some rw)))
   | _ \<Rightarrow> Inr w)"

definition compile_assign :: "stmt_env \<Rightarrow> bool \<Rightarrow> expr \<Rightarrow> expr \<Rightarrow> comp_state \<Rightarrow> comp_state res" where
  "compile_assign se immediate lhs rhs st =
     (let ce = se_code se
      in rbind (compile_whole_memory_copy se immediate lhs rhs st) (\<lambda>r. case r of
           Some st' \<Rightarrow> Inr st'
         | None \<Rightarrow> rbind (compile_matching_concat_copy se immediate lhs rhs st) (\<lambda>r. case r of
             Some st' \<Rightarrow> Inr st'
           | None \<Rightarrow>
               rbind (target_width ce lhs rhs) (\<lambda>w.
               rbind (compile_expr ce rhs w None st) (\<lambda>st1.
               rbind (emit_sign_ext_if_needed ce rhs lhs st1)
                 (compile_store_lhs se immediate lhs (Some w)))))))"

section \<open>Control flow\<close>

text \<open>The bodies are functions from the state of the compiler to the state after their code.\<close>

definition compile_option :: "stmt_compiler option \<Rightarrow> stmt_compiler" where
  "compile_option body sc = (case body of Some c \<Rightarrow> c sc | None \<Rightarrow> Inr sc)"

fun compile_block :: "stmt_compiler list \<Rightarrow> stmt_compiler" where
  "compile_block [] sc = Inr sc"
| "compile_block (c # cs) sc = rbind (c sc) (compile_block cs)"

definition emit_in :: "opcode \<Rightarrow> int \<Rightarrow> stmt_comp \<Rightarrow> stmt_comp" where
  "emit_in op a sc = sc\<lparr>sc_code := emit op a (sc_code sc)\<rparr>"

definition patch_in :: "nat \<Rightarrow> opcode \<Rightarrow> nat \<Rightarrow> stmt_comp \<Rightarrow> stmt_comp" where
  "patch_in idx op target sc = sc\<lparr>sc_code := patch_to idx op target (sc_code sc)\<rparr>"

definition here :: "stmt_comp \<Rightarrow> nat" where
  "here sc = code_length (sc_code sc)"

definition compile_condition :: "comp_env \<Rightarrow> expr \<Rightarrow> stmt_compiler" where
  "compile_condition ce c = on_code (\<lambda>st. rbind (vm_expr_width ce c) (\<lambda>w. compile_expr ce c w None st))"

definition compile_if :: "comp_env \<Rightarrow> expr \<Rightarrow> stmt_compiler option \<Rightarrow> stmt_compiler option \<Rightarrow> stmt_compiler" where
  "compile_if ce c t e sc =
     rbind (compile_condition ce c sc) (\<lambda>sc1.
     (let jz = here sc1
      in rbind (compile_option t (emit_in JUMP_IF_ZERO 0 sc1)) (\<lambda>sc2. case e of
           None \<Rightarrow> Inr (patch_in jz JUMP_IF_ZERO (here sc2) sc2)
         | Some ce' \<Rightarrow>
             (let jmp = here sc2; sc3 = emit_in JUMP 0 sc2
              in rmap (\<lambda>sc4. patch_in jmp JUMP (here sc4) sc4)
                   (ce' (patch_in jz JUMP_IF_ZERO (here sc3) sc3))))))"

text \<open>The tests of a case statement: the jumps to the bodies, as pairs of an item and an address.\<close>

type_synonym case_code = "expr list \<times> stmt_compiler option \<times> bool"

definition case_opcode :: "string \<Rightarrow> opcode" where
  "case_opcode ct = (if ct = ''casex'' then CMP_CASEX else if ct = ''casez'' then CMP_CASEZ else CMP_EQ)"

fun compile_values ::
    "comp_env \<Rightarrow> string \<Rightarrow> nat \<Rightarrow> expr list \<Rightarrow> stmt_comp \<Rightarrow> ((nat \<times> nat) list \<times> stmt_comp) res" where
  "compile_values ce ct i [] sc = Inr ([], sc)"
| "compile_values ce ct i (e # es) sc =
     rbind (on_code (compile_expr ce e 0 None) (emit_in DUP 0 sc)) (\<lambda>sc1.
     (let sc2 = emit_in (case_opcode ct) 0 sc1
      in rmap (\<lambda>(jumps, sc3). ((i, here sc2) # jumps, sc3))
           (compile_values ce ct i es (emit_in JUMP_IF_NONZERO 0 sc2))))"

fun compile_tests ::
    "comp_env \<Rightarrow> string \<Rightarrow> nat \<Rightarrow> case_code list \<Rightarrow> stmt_comp \<Rightarrow> ((nat \<times> nat) list \<times> stmt_comp) res" where
  "compile_tests ce ct i [] sc = Inr ([], sc)"
| "compile_tests ce ct i ((vals, body, is_default) # items) sc =
     (if is_default then compile_tests ce ct (Suc i) items sc
      else rbind (compile_values ce ct i vals sc) (\<lambda>(jumps, sc1).
           rmap (\<lambda>(more, sc2). (jumps @ more, sc2)) (compile_tests ce ct (Suc i) items sc1)))"

text \<open>The bodies: the address of each, and the jumps to the end.\<close>

fun compile_bodies :: "case_code list \<Rightarrow> stmt_comp \<Rightarrow> (nat list \<times> nat list \<times> stmt_comp) res" where
  "compile_bodies [] sc = Inr ([], [], sc)"
| "compile_bodies ((vals, body, is_default) # items) sc =
     rbind (compile_option body (emit_in POP 0 sc)) (\<lambda>sc1.
     rmap (\<lambda>(addrs, ends, sc2). (here sc # addrs, here sc1 # ends, sc2))
       (compile_bodies items (emit_in JUMP 0 sc1)))"

fun last_default :: "nat \<Rightarrow> case_code list \<Rightarrow> nat option" where
  "last_default i [] = None"
| "last_default i ((vals, body, is_default) # items) =
     (case last_default (Suc i) items of
        Some j \<Rightarrow> Some j | None \<Rightarrow> if is_default then Some i else None)"

definition compile_case :: "comp_env \<Rightarrow> string \<Rightarrow> expr \<Rightarrow> case_code list \<Rightarrow> stmt_compiler" where
  "compile_case ce ct e items sc =
     rbind (on_code (compile_expr ce e 0 None) sc) (\<lambda>sc1.
     rbind (compile_tests ce ct 0 items sc1) (\<lambda>(jumps, sc2).
     (let dflt = last_default 0 items;
          sc3 = (if dflt = None then emit_in POP 0 sc2 else sc2);
          out = here sc3
      in rmap (\<lambda>(addrs, ends, sc4).
           (let stop = here sc4;
                sc5 = fold (\<lambda>(i, idx). patch_in idx JUMP_IF_NONZERO (addrs ! i)) jumps sc4;
                sc6 = (case dflt of Some i \<Rightarrow> patch_in out JUMP (addrs ! i) sc5 | None \<Rightarrow> sc5)
            in fold (\<lambda>idx. patch_in idx JUMP stop) (if dflt = None then out # ends else ends) sc6))
         (compile_bodies items (emit_in JUMP 0 sc3)))))"

definition compile_loop :: "comp_env \<Rightarrow> nat \<Rightarrow> nat option \<Rightarrow> expr \<Rightarrow> stmt_compiler \<Rightarrow> stmt_compiler" where
  "compile_loop ce start leave c body sc =
     rbind (compile_condition ce c sc) (\<lambda>sc1.
     (let jz = here sc1
      in rmap (\<lambda>sc2.
           (let sc3 = emit_in JUMP (int start) sc2; stop = here sc3;
                sc4 = (case leave of Some idx \<Rightarrow> patch_in idx JUMP_IF_NONZERO stop sc3 | None \<Rightarrow> sc3)
            in patch_in jz JUMP_IF_ZERO stop sc4))
         (body (emit_in JUMP_IF_ZERO 0 sc1))))"

text \<open>
  A \<open>for\<close> loop, after its initialization: with a signed variable the sign bit is tested first. The
  loop variable is a declared name.
\<close>

definition sign_test :: "comp_env \<Rightarrow> stmt \<Rightarrow> stmt_comp \<Rightarrow> (nat option \<times> stmt_comp) res" where
  "sign_test ce init sc = (case init of
     BlockingAssign (Identifier n h r) _ \<Rightarrow>
       rbind (vm_expr_width ce (Identifier n h r)) (\<lambda>w.
         if 1 < w then
           rmap (\<lambda>sc1. (Some (here sc1), emit_in JUMP_IF_NONZERO 0 sc1))
             (on_code (compile_expr ce (BitSelect (Identifier n h r) (Literal (int_literal (w - 1)))) 0 None) sc)
         else Inr (None, sc))
   | _ \<Rightarrow> Inr (None, sc))"

definition loop_variable_declared :: "comp_env \<Rightarrow> stmt \<Rightarrow> bool" where
  "loop_variable_declared ce init = (case init of
     BlockingAssign (Identifier n h _) _ \<Rightarrow> signal_map ce (identifier_name n h) \<noteq> None | _ \<Rightarrow> True)"

definition compile_for ::
    "comp_env \<Rightarrow> stmt \<Rightarrow> bool \<Rightarrow> expr \<Rightarrow> stmt_compiler \<Rightarrow> stmt_compiler \<Rightarrow> stmt_compiler option \<Rightarrow> stmt_compiler" where
  "compile_for ce init signed_var c compile_init update body sc =
     (if \<not> loop_variable_declared ce init then Inl Unmodelled
      else rbind (compile_init sc) (\<lambda>sc1.
           rbind (if signed_var then sign_test ce init sc1 else Inr (None, sc1)) (\<lambda>(leave, sc2).
             compile_loop ce (here sc1) leave c (\<lambda>sc. rbind (compile_option body sc) update) sc2)))"

definition compile_forever :: "stmt_compiler option \<Rightarrow> stmt_compiler" where
  "compile_forever body sc = rmap (emit_in JUMP (int (here sc))) (compile_option body sc)"

definition compile_repeat :: "comp_env \<Rightarrow> expr \<Rightarrow> stmt_compiler option \<Rightarrow> stmt_compiler" where
  "compile_repeat ce c body sc =
     rbind (on_code (compile_expr ce c 0 None) sc) (\<lambda>sc1.
     (let sc2 = emit_in DUP 0 sc1
      in rmap (\<lambda>sc3.
           (let sc4 = emit_in JUMP (int (here sc1)) (emit_in SUB 0 (sc3\<lparr>sc_code := emit_int 1 (sc_code sc3)\<rparr>))
            in emit_in POP 0 (patch_in (here sc2) JUMP_IF_ZERO (here sc4) sc4)))
         (compile_option body (emit_in JUMP_IF_ZERO 0 sc2))))"

section \<open>Signals read\<close>

text \<open>
  \<open>_walk_expr_signals\<close>: the numbers of the signals that an expression reads; a memory counts as its
  marker. The loop variables that elaboration invents are left out. A width cast is not visited.
\<close>

definition memory_marker :: "stmt_env \<Rightarrow> nat \<Rightarrow> nat set" where
  "memory_marker se mid = (if mid < length (se_markers se) then {se_markers se ! mid} else {})"

definition local_prefix :: string where
  "local_prefix = ''__vt_local_for_''"

definition name_signals :: "stmt_env \<Rightarrow> string \<Rightarrow> nat set" where
  "name_signals se name =
     (if take (length local_prefix) name = local_prefix then {}
      else case signal_map (se_code se) name of
        Some sid \<Rightarrow> {sid}
      | None \<Rightarrow> (case mem_map (se_code se) name of Some mid \<Rightarrow> memory_marker se mid | None \<Rightarrow> {}))"

fun walk_expr_signals :: "stmt_env \<Rightarrow> expr \<Rightarrow> nat set" where
  "walk_expr_signals se (Identifier n h _) = name_signals se (identifier_name n h)"
| "walk_expr_signals se (Literal l) = {}"
| "walk_expr_signals se (BinaryOp op l r) = walk_expr_signals se l \<union> walk_expr_signals se r"
| "walk_expr_signals se (UnaryOp op e) = walk_expr_signals se e"
| "walk_expr_signals se (TernaryOp c t f) =
     walk_expr_signals se c \<union> walk_expr_signals se t \<union> walk_expr_signals se f"
| "walk_expr_signals se (Concatenation parts) = \<Union>(set (map (walk_expr_signals se) parts))"
| "walk_expr_signals se (Replication c v) = walk_expr_signals se c \<union> walk_expr_signals se v"
| "walk_expr_signals se (StreamingConcatenation parts slice) =
     \<Union>(set (map (walk_expr_signals se) parts)) \<union> \<Union>(set_option (map_option (walk_expr_signals se) slice))"
| "walk_expr_signals se (BitSelect t i) =
     (case (case t of Identifier n h _ \<Rightarrow> mem_map (se_code se) (identifier_name n h) | _ \<Rightarrow> None) of
        Some mid \<Rightarrow> memory_marker se mid | None \<Rightarrow> walk_expr_signals se t) \<union> walk_expr_signals se i"
| "walk_expr_signals se (RangeSelect t m l) =
     walk_expr_signals se t \<union> walk_expr_signals se m \<union> walk_expr_signals se l"
| "walk_expr_signals se (PartSelect t b w d) =
     walk_expr_signals se t \<union> walk_expr_signals se b \<union> walk_expr_signals se w"
| "walk_expr_signals se (FunctionCall f args) = \<Union>(set (map (walk_expr_signals se) args))"
| "walk_expr_signals se (StringLiteral s) = {}"
| "walk_expr_signals se (Mintypmax a b c) = walk_expr_signals se b"
| "walk_expr_signals se (AssignmentPattern named pos dflt) =
     \<Union>(set (map (\<lambda>p. walk_expr_signals se (snd p)) named)) \<union> \<Union>(set (map (walk_expr_signals se) pos))
       \<union> \<Union>(set_option (map_option (walk_expr_signals se) dflt))"
| "walk_expr_signals se (WidthCast w e) = {}"

section \<open>System tasks\<close>

fun compile_args :: "comp_env \<Rightarrow> expr list \<Rightarrow> comp_state \<Rightarrow> comp_state res" where
  "compile_args ce [] st = Inr st"
| "compile_args ce (e # es) st = rbind (compile_expr ce e 0 None st) (compile_args ce es)"

definition write_mark :: char where
  "write_mark = CHR 0x1C"

definition display_arg :: "nat \<Rightarrow> nat \<Rightarrow> int" where
  "display_arg n fmt_id = int n OR push_bit 16 (int fmt_id)"

text \<open>The format string of a display task: its number (0: none), the table after it, the other arguments.\<close>

definition display_format :: "string \<Rightarrow> expr list \<Rightarrow> string list \<Rightarrow> nat \<times> string list \<times> expr list" where
  "display_format name args formats =
     (let ending = (if name = ''$write'' then [write_mark] else [])
      in case args of
           StringLiteral fmt # rest \<Rightarrow> (Suc (length formats), formats @ [fmt @ ending], rest)
         | _ \<Rightarrow> (if name = ''$write''
                 then (Suc (length formats), formats @ [concat (replicate (length args) ''%d'') @ ending], args)
                 else (0, formats, args)))"

text \<open>The program that prints a \<open>$monitor\<close> line again; it shares the pool of constants.\<close>

definition compile_monitor :: "stmt_env \<Rightarrow> nat \<Rightarrow> expr list \<Rightarrow> stmt_compiler" where
  "compile_monitor se fmt_id args sc =
     (let n = length args; k = length (sc_monitors sc); ce = se_code se
      in rbind (compile_args ce args (sc_code sc)) (\<lambda>st1.
         rmap (\<lambda>mon.
           sc\<lparr>sc_code := mon\<lparr>cs_prog := cs_prog st1 @ [(SYS_MONITOR, display_arg n fmt_id, int k)]\<rparr>,
              sc_monitors := sc_monitors sc @
                [(cs_prog mon @ [(SYS_DISPLAY, display_arg n fmt_id, int fmt_id), instr PROC_END 0],
                  \<Union>(set (map (walk_expr_signals se) args)))]\<rparr>)
           (compile_args ce args (st1\<lparr>cs_prog := []\<rparr>))))"

definition compile_display :: "stmt_env \<Rightarrow> string \<Rightarrow> expr list \<Rightarrow> stmt_compiler" where
  "compile_display se name args sc =
     (let (fmt_id, formats, rest) = display_format name args (sc_formats sc); sc1 = sc\<lparr>sc_formats := formats\<rparr>
      in if name = ''$monitor'' then compile_monitor se fmt_id rest sc1
         else on_code (\<lambda>st. rmap (emit3 (SYS_DISPLAY, display_arg (length rest) fmt_id, int fmt_id))
                        (compile_args (se_code se) rest st)) sc1)"

text \<open>The optional address arguments of \<open>$readmemh\<close> are constants here.\<close>

fun readmem_addrs :: "comp_env \<Rightarrow> expr list \<Rightarrow> nat list \<Rightarrow> int option list res" where
  "readmem_addrs ce args [] = Inr []"
| "readmem_addrs ce args (i # is) =
     rbind (if length args \<le> i then Inr None
            else (case vm_const_int ce (args ! i) of Some n \<Rightarrow> Inr (Some n) | None \<Rightarrow> Inl NotImplementedError))
       (\<lambda>a. rmap (\<lambda>as. a # as) (readmem_addrs ce args is))"

definition compile_readmem :: "stmt_env \<Rightarrow> bool \<Rightarrow> expr list \<Rightarrow> stmt_compiler" where
  "compile_readmem se is_hex args sc = (case args of
     StringLiteral filename # Identifier n h _ # _ \<Rightarrow>
       (case mem_map (se_code se) (identifier_name n h) of
          Some mid \<Rightarrow>
            rmap (\<lambda>addrs. emit_in SYS_READMEM (int (length (sc_readmem sc)))
                (sc\<lparr>sc_readmem := sc_readmem sc @ [(filename, mid, is_hex, addrs)]\<rparr>))
              (readmem_addrs (se_code se) args [2, 3, 4])
        | None \<Rightarrow> Inr sc)
   | _ \<Rightarrow> Inr sc)"

definition compile_file_display :: "stmt_env \<Rightarrow> string \<Rightarrow> expr list \<Rightarrow> stmt_compiler" where
  "compile_file_display se name args sc = (case args of
     [] \<Rightarrow> Inr sc
   | fd # rest \<Rightarrow>
       rbind (on_code (compile_expr (se_code se) fd 0 None) sc) (\<lambda>sc1.
       (let (fmt_id, formats, rest) = display_format name rest (sc_formats sc1)
        in rmap (emit_in (if name = ''$fdisplay'' then SYS_FDISPLAY else SYS_FWRITE) (display_arg (length rest) fmt_id))
             (on_code (compile_args (se_code se) rest) (sc1\<lparr>sc_formats := formats\<rparr>)))))"

definition compile_system_task :: "stmt_env \<Rightarrow> string \<Rightarrow> string \<Rightarrow> expr list \<Rightarrow> stmt_compiler" where
  "compile_system_task se task_name where args sc = (case severity_display task_name where args of
     Some (display, fatal) \<Rightarrow>
       rmap (\<lambda>sc1. if fatal then emit_in SYS_FINISH 0 sc1 else sc1) (compile_display se ''$display'' display sc)
   | None \<Rightarrow>
       (let name = lower task_name
        in if name = ''$display'' \<or> name = ''$write'' \<or> name = ''$monitor'' then compile_display se name args sc
           else if name = ''$finish'' \<or> name = ''$stop'' then Inr (emit_in SYS_FINISH 0 sc)
           else if name = ''$readmemh'' \<or> name = ''$readmemb'' then compile_readmem se (name = ''$readmemh'') args sc
           else if name = ''$fclose'' then
             (case args of
                fd # _ \<Rightarrow> rmap (emit_in SYS_FCLOSE 0) (on_code (compile_expr (se_code se) fd 0 None) sc)
              | [] \<Rightarrow> Inr sc)
           else if name = ''$fdisplay'' \<or> name = ''$fwrite'' then compile_file_display se name args sc
           else if name = ''$fflush'' \<or> name = ''$dumpfile'' \<or> name = ''$dumpvars'' then Inr sc
           else Inl NotImplementedError))"

section \<open>\<open>_compile_stmt\<close>\<close>

primrec compile_stmt :: "stmt_env \<Rightarrow> stmt \<Rightarrow> stmt_compiler"
  and compile_case_item :: "stmt_env \<Rightarrow> case_item \<Rightarrow> case_code" where
  "compile_stmt se (BlockingAssign lhs rhs) = on_code (compile_assign se True lhs rhs)"
| "compile_stmt se (NonblockingAssign lhs rhs) = on_code (compile_assign se False lhs rhs)"
| "compile_stmt se (SeqBlock name ss) = compile_block (map (compile_stmt se) ss)"
| "compile_stmt se (ParBlock name ss) = compile_block (map (compile_stmt se) ss)"
| "compile_stmt se (IfStatement c t e) =
     compile_if (se_code se) c (map_option (compile_stmt se) t) (map_option (compile_stmt se) e)"
| "compile_stmt se (CaseStatement ct e items) = compile_case (se_code se) ct e (map (compile_case_item se) items)"
| "compile_stmt se (ForLoop init c upd body signed_var) =
     compile_for (se_code se) init signed_var c (compile_stmt se init) (compile_stmt se upd)
       (map_option (compile_stmt se) body)"
| "compile_stmt se (WhileLoop c body) =
     (\<lambda>sc. compile_loop (se_code se) (here sc) None c (compile_option (map_option (compile_stmt se) body)) sc)"
| "compile_stmt se (ForeverLoop body) = compile_forever (map_option (compile_stmt se) body)"
| "compile_stmt se (RepeatLoop c body) = compile_repeat (se_code se) c (map_option (compile_stmt se) body)"
| "compile_stmt se (DelayControl d body) = Inr"
| "compile_stmt se (EventControl evs body) = Inr"
| "compile_stmt se (WaitStatement c body) = Inr"
| "compile_stmt se (DisableStatement target) = (\<lambda>sc. Inl NotImplementedError)"
| "compile_stmt se (EventTrigger name) =
     (\<lambda>sc. rmap (\<lambda>sid. emit_in STORE_SIG (int sid) (emit_in LOG_NOT 0 (emit_in LOAD_SIG (int sid) sc)))
        (declared (se_code se) name))"
| "compile_stmt se (SystemTaskCall name where args) = compile_system_task se name where args"
| "compile_stmt se (TaskEnable name args) = (\<lambda>sc. Inl Unmodelled)"
| "compile_case_item se (CaseItem vals body is_default) = (vals, map_option (compile_stmt se) body, is_default)"

primrec has_timing :: "stmt \<Rightarrow> bool" and item_has_timing :: "case_item \<Rightarrow> bool" where
  "has_timing (BlockingAssign lhs rhs) = False"
| "has_timing (NonblockingAssign lhs rhs) = False"
| "has_timing (SeqBlock name ss) = list_ex id (map has_timing ss)"
| "has_timing (ParBlock name ss) = list_ex id (map has_timing ss)"
| "has_timing (IfStatement c t e) = (map_option has_timing t = Some True \<or> map_option has_timing e = Some True)"
| "has_timing (CaseStatement ct e items) = list_ex id (map item_has_timing items)"
| "has_timing (ForLoop init c upd body sg) = (map_option has_timing body = Some True)"
| "has_timing (WhileLoop c body) = (map_option has_timing body = Some True)"
| "has_timing (ForeverLoop body) = (map_option has_timing body = Some True)"
| "has_timing (RepeatLoop c body) = (map_option has_timing body = Some True)"
| "has_timing (DelayControl d body) = True"
| "has_timing (EventControl evs body) = True"
| "has_timing (WaitStatement c body) = True"
| "has_timing (DisableStatement target) = False"
| "has_timing (EventTrigger name) = False"
| "has_timing (SystemTaskCall name where args) =
     (severity_display name where args = None \<and> (lower name = ''$dumpfile'' \<or> lower name = ''$dumpvars''))"
| "has_timing (TaskEnable name args) = False"
| "item_has_timing (CaseItem vals body is_default) = (map_option has_timing body = Some True)"

end
