(* ===== verification/Engine_Steps.thy ===== *)
theory Engine_Steps
  imports Engine_Shape Vm_Statement
begin

text \<open>
  Runs of the bytecode interpreter in small steps, for programs with jumps: \<open>lands\<close> and \<open>stops\<close> say where
  the interpreter comes to from an address, and compose. The code of a statement is
  a piece of the program at some address (\<open>piece\<close>); what stands around it does not matter.
\<close>

section \<open>Pieces of a program\<close>

definition piece :: "program \<Rightarrow> nat \<Rightarrow> program \<Rightarrow> bool" where
  "piece prog a xs \<longleftrightarrow> (\<exists>pre post. prog = pre @ xs @ post \<and> length pre = a)"

lemma piece_append [simp]: "piece prog a (xs @ ys) \<longleftrightarrow> piece prog a xs \<and> piece prog (a + length xs) ys"
proof
  assume "piece prog a (xs @ ys)"
  then obtain pre post where p: "prog = pre @ xs @ ys @ post" "length pre = a" by (auto simp: piece_def)
  then have "prog = (pre @ xs) @ ys @ post" "length (pre @ xs) = a + length xs" by simp_all
  then show "piece prog a xs \<and> piece prog (a + length xs) ys" unfolding piece_def using p by blast
next
  assume p: "piece prog a xs \<and> piece prog (a + length xs) ys"
  then obtain pre post where 1: "prog = pre @ xs @ post" "length pre = a" by (auto simp: piece_def)
  obtain pre' post' where 2: "prog = pre' @ ys @ post'" "length pre' = a + length xs"
    using p by (auto simp: piece_def)
  have "(pre @ xs) @ post = pre' @ (ys @ post')" "length (pre @ xs) = length pre'" using 1 2 by simp_all
  then have "post = ys @ post'" using append_eq_append_conv by blast
  then show "piece prog a (xs @ ys)" using 1 by (auto simp: piece_def)
qed

lemma piece_single: "piece prog a [x] \<longleftrightarrow> a < length prog \<and> prog ! a = x"
proof
  assume "a < length prog \<and> prog ! a = x"
  then have "prog = take a prog @ [x] @ drop (Suc a) prog" "length (take a prog) = a"
    using id_take_nth_drop [of a prog] by simp_all
  then show "piece prog a [x]" unfolding piece_def by blast
qed (auto simp: piece_def)

lemma piece_Cons [simp]: "piece prog a (x # xs) \<longleftrightarrow> a < length prog \<and> prog ! a = x \<and> piece prog (Suc a) xs"
  using piece_append [of prog a "[x]" xs] by (simp add: piece_single)

lemma piece_self [simp]: "piece (pre @ xs @ post) (length pre) xs"
  by (auto simp: piece_def)

section \<open>Runs of the interpreter\<close>

abbreviation config :: "nat \<Rightarrow> val4 list \<Rightarrow> nat \<Rightarrow> machine \<Rightarrow> vm_config" where
  "config p s k m \<equiv> \<lparr>c_pc = int p, c_stack = s, c_iters = k, c_mach = m\<rparr>"

definition goes :: "program \<Rightarrow> vm_config \<Rightarrow> vm_config \<Rightarrow> bool" where
  "goes prog = (\<lambda>a b. vm_step prog a = Running b)\<^sup>*\<^sup>*"

lemma goes_refl [simp]: "goes prog c c"
  by (simp add: goes_def)

lemma goes_step: "vm_step prog a = Running b \<Longrightarrow> goes prog a b"
  by (auto simp: goes_def)

lemma goes_trans: "goes prog a b \<Longrightarrow> goes prog b c \<Longrightarrow> goes prog a c"
  by (auto simp: goes_def)

lemma exec_list_goes:
  assumes "exec_list m c s = Inr s'"
  shows "goes (pre @ c @ post) (config (length pre) s k m) (config (length pre + length c) s' k m)"
  using assms
proof (induction c arbitrary: s pre)
  case (Cons i c)
  then obtain t where t: "value_op m i s = Some (Inr t)" "exec_list m c t = Inr s'"
    by (auto split: option.splits simp: rbind_eq_Inr_iff)
  have "vm_step (pre @ (i # c) @ post) (config (length pre) s k m) = Running (config (Suc (length pre)) t k m)"
    using t(1) by (simp add: vm_step_def exec_instr_value nth_append)
  moreover have "goes ((pre @ [i]) @ c @ post) (config (length (pre @ [i])) t k m)
      (config (length (pre @ [i]) + length c) s' k m)"
    by (rule Cons.IH [OF t(2)])
  ultimately show ?case using goes_trans [OF goes_step] by simp
qed simp

text \<open>
  \<open>lands prog a s m n b s' m'\<close>: from address \<open>a\<close> with the stack \<open>s\<close> the interpreter comes to address \<open>b\<close>,
  making \<open>n\<close> backward jumps, whatever loop limit of at least that many jumps is left.
\<close>

abbreviation limited :: "nat \<Rightarrow> machine \<Rightarrow> machine" where
  "limited l m \<equiv> m\<lparr>loop_limit := l\<rparr>"

definition lands ::
    "program \<Rightarrow> nat \<Rightarrow> val4 list \<Rightarrow> machine \<Rightarrow> nat \<Rightarrow> nat \<Rightarrow> val4 list \<Rightarrow> machine \<Rightarrow> bool" where
  "lands prog a s m n b s' m' \<longleftrightarrow> const_pool m' = const_pool m
     \<and> (\<forall>l k. k + n \<le> l \<longrightarrow> goes prog (config a s k (limited l m)) (config b s' (k + n) (limited l m')))"

text \<open>The same for a run that ends in \<open>$finish\<close>.\<close>

definition stops :: "program \<Rightarrow> nat \<Rightarrow> val4 list \<Rightarrow> machine \<Rightarrow> nat \<Rightarrow> machine \<Rightarrow> bool" where
  "stops prog a s m n m' \<longleftrightarrow>
     (\<forall>l k. k + n \<le> l \<longrightarrow> (\<exists>c. goes prog (config a s k (limited l m)) c
                            \<and> vm_step prog c = Raised StopSimulation (limited l m')))"

lemma lands_refl [simp]: "lands prog a s m 0 a s m"
  by (simp add: lands_def)

lemma lands_trans:
  assumes "lands prog a s m n b t m'" "lands prog b t m' n' c u m''"
  shows "lands prog a s m (n + n') c u m''"
  unfolding lands_def
proof (intro conjI allI impI)
  show "const_pool m'' = const_pool m" using assms by (simp add: lands_def)
  fix l k assume l: "k + (n + n') \<le> l"
  then have "goes prog (config a s k (limited l m)) (config b t (k + n) (limited l m'))"
    using assms(1) by (simp add: lands_def)
  moreover have "goes prog (config b t (k + n) (limited l m')) (config c u (k + n + n') (limited l m''))"
    using assms(2) l by (simp add: lands_def)
  ultimately show "goes prog (config a s k (limited l m)) (config c u (k + (n + n')) (limited l m''))"
    using goes_trans by (simp add: add.assoc)
qed

lemma lands_stops:
  assumes "lands prog a s m n b t m'" "stops prog b t m' n' m''"
  shows "stops prog a s m (n + n') m''"
  unfolding stops_def
proof (intro allI impI)
  fix l k assume l: "k + (n + n') \<le> l"
  then have "goes prog (config a s k (limited l m)) (config b t (k + n) (limited l m'))"
    using assms(1) by (simp add: lands_def)
  moreover obtain c where "goes prog (config b t (k + n) (limited l m')) c"
    "vm_step prog c = Raised StopSimulation (limited l m'')"
    using assms(2) [unfolded stops_def, rule_format, of "k + n" l] l by auto
  ultimately show "\<exists>c. goes prog (config a s k (limited l m)) c
      \<and> vm_step prog c = Raised StopSimulation (limited l m'')"
    using goes_trans by blast
qed

section \<open>Single instructions\<close>

lemma step_at: "p < length prog \<Longrightarrow> vm_step prog (config p s k m) = exec_instr (prog ! p) (config p s k m)"
  by (simp add: vm_step_def)

lemma lands_forward:
  "p < length prog \<Longrightarrow> prog ! p = instr JUMP (int t) \<Longrightarrow> p < t \<Longrightarrow> lands prog p s m 0 t s m"
  by (auto simp: lands_def step_at exec_instr_def instr_def intro!: goes_step)

lemma lands_backward:
  "p < length prog \<Longrightarrow> prog ! p = instr JUMP (int t) \<Longrightarrow> t \<le> p \<Longrightarrow> lands prog p s m 1 t s m"
  by (auto simp: lands_def step_at exec_instr_def instr_def intro!: goes_step)

lemma lands_zero:
  assumes "p < length prog" "prog ! p = instr JUMP_IF_ZERO (int t)"
  shows "lands prog p (v # s) m 0 (if truthy v then Suc p else t) s m"
  using assms by (auto simp: lands_def step_at exec_instr_def instr_def truthy_def Let_def intro!: goes_step)

lemma lands_nonzero:
  assumes "p < length prog" "prog ! p = instr JUMP_IF_NONZERO (int t)"
  shows "lands prog p (v # s) m 0 (if truthy v then t else Suc p) s m"
  using assms by (auto simp: lands_def step_at exec_instr_def instr_def truthy_def Let_def intro!: goes_step)

lemma load_mem_limit: "load_mem (limited l m) a idx = load_mem m a idx"
  by (cases "mem_info m ! nat a") (simp add: load_mem_def valid_mem_def)

lemma value_op_limit [simp]: "value_op (limited l m) i s = value_op m i s"
proof -
  have "valid_sig (limited l m) = valid_sig m" "sig_value (limited l m) = sig_value m"
    "const_pool (limited l m) = const_pool m" "m_time (limited l m) = m_time m"
    by (simp_all add: fun_eq_iff valid_sig_def sig_value_def)
  then show ?thesis by (cases i) (simp only: value_op_def load_mem_limit prod.case)
qed

lemma exec_list_limit [simp]: "exec_list (limited l m) c s = exec_list m c s"
  proof (induction m c s rule: exec_list.induct)
  case (2 m i c s)
  show ?case
  proof (cases "value_op m i s")
    case (Some r)
    then show ?thesis using 2 [OF Some] by (cases r) simp_all
  qed simp
qed simp

lemma lands_value:
  assumes "p < length prog" "value_op m (prog ! p) s = Some (Inr s')"
  shows "lands prog p s m 0 (Suc p) s' m"
  unfolding lands_def
proof (intro conjI allI impI)
  fix l k :: nat assume "k + 0 \<le> l"
  have "vm_step prog (config p s k (limited l m)) = Running (config (Suc p) s' k (limited l m))"
    using assms exec_instr_value [of "limited l m" "prog ! p" "config p s k (limited l m)" s'] by (simp add: step_at)
  then show "goes prog (config p s k (limited l m)) (config (Suc p) s' (k + 0) (limited l m))"
    using goes_step by simp
qed simp

text \<open>Straight-line code between two states of the compiler.\<close>

lemma runs_code: "runs m st st' s s' \<Longrightarrow> cs_prog st' = cs_prog st @ code_between st st'"
  by (auto simp: runs_def extends_def code_between_def prefix_def)

lemma lands_runs:
  assumes r: "runs m st st' s s'" and prog: "piece prog (length (cs_prog st)) (code_between st st')"
    and "prefix (cs_pool st') (const_pool m)"
  shows "lands prog (length (cs_prog st)) s m 0 (length (cs_prog st')) s' m"
proof -
  have run: "exec_list m (code_between st st') s = Inr s'"
    using r assms(3) by (simp add: runs_def)
  obtain pre post where p: "prog = pre @ code_between st st' @ post" "length pre = length (cs_prog st)"
    using prog by (auto simp: piece_def)
  have "length (cs_prog st') = length (cs_prog st) + length (code_between st st')"
    using runs_code [OF r] by (metis length_append)
  then show ?thesis
    using exec_list_goes [of "limited l m" "code_between st st'" s s' pre post for l] run p
    by (auto simp: lands_def)
qed

end
