(* ===== verification/Engine_Assign.thy ===== *)
theory Engine_Assign
  imports Engine_Steps
begin

text \<open>
  Statements on the two engines: when the state of the executor and that of the machine are
  related, when the code of a statement simulates its execution, and that the code of an assignment
  to a scalar does, blocking or not.
\<close>

section \<open>Related states\<close>

definition same_entry :: "comp_env \<Rightarrow> nba \<Rightarrow> nba_entry \<Rightarrow> bool" where
  "same_entry ce e d = (case (e, d) of
     (NbaEntry name v, NbaWhole sid u) \<Rightarrow> signal_map ce name = Some sid \<and> u = v | _ \<Rightarrow> False)"

definition related :: "comp_env \<Rightarrow> eval_ctx \<Rightarrow> exec_state \<Rightarrow> machine \<Rightarrow> bool" where
  "related ce ctx s m \<longleftrightarrow> same_state ce (es_ctx s) m \<and> same_shape ctx (es_ctx s)
     \<and> inj_on (signal_map ce) (dom (signals ctx)) \<and> list_all2 (same_entry ce) (es_nba s) (nba_queue m)"

section \<open>Storing a signal\<close>

lemma shape_signal_none: "same_shape ctx ctx' \<Longrightarrow> signals ctx' name = None \<longleftrightarrow> signals ctx name = None"
  using shape_no_signal same_shape_sym by blast

lemma note_original_ctx [simp]: "es_ctx (note_original name old s) = es_ctx s" "es_nba (note_original name old s) = es_nba s"
  "es_limit (note_original name old s) = es_limit s"
  by (auto simp: note_original_def split: option.split)

lemma write_plain_simps [simp]:
  "es_ctx (write_plain name v s) = (es_ctx s)\<lparr>signals := (signals (es_ctx s))(name \<mapsto> v)\<rparr>"
  "es_nba (write_plain name v s) = es_nba s" "es_limit (write_plain name v s) = es_limit s"
  by (simp_all add: write_plain_def)

lemma set_signal_simps [simp]:
  "const_pool (set_signal m i a b) = const_pool m" "nba_queue (set_signal m i a b) = nba_queue m"
  "sig_width (set_signal m i a b) = sig_width m" "mem_info (set_signal m i a b) = mem_info m"
  "mem_val (set_signal m i a b) = mem_val m" "mem_mask (set_signal m i a b) = mem_mask m"
  "valid_sig (set_signal m i a b) j = valid_sig m j"
  "set_signal (limited l m) i a b = limited l (set_signal m i a b)"
  by (simp_all add: set_signal_def valid_sig_def)

lemma sig_value_set_signal:
  assumes "valid_sig m (int i)"
  shows "sig_value (set_signal m i a b) j = (if j = i then mk_value a (sig_width m ! i) b else sig_value m j)"
  using assms by (auto simp: sig_value_def set_signal_def valid_sig_def)

lemma mk_value_self: "wf_val u \<Longrightarrow> mk_value (v_val u) (v_width u) (v_mask u) = u"
  by (simp flip: resize_def)

lemma store_sig_resize:
  "u = resize v (sig_width m ! sid) \<Longrightarrow> store_sig m sid v = set_signal m sid (v_val u) (v_mask u)"
  by (simp add: store_sig_def resize_def mk_value_def Let_def ac_simps)

lemma store_sig_limited [simp]: "store_sig (limited l m) sid v = limited l (store_sig m sid v)"
  by (simp add: store_sig_def Let_def)

lemma nba_sig_limited [simp]: "nba_sig (limited l m) sid v = limited l (nba_sig m sid v)"
  by (simp add: nba_sig_def Let_def)

lemma same_memory_cong:
  "memories ctx' = memories ctx \<Longrightarrow> signal_signed ctx' = signal_signed ctx \<Longrightarrow> mem_info m' = mem_info m \<Longrightarrow>
     mem_val m' = mem_val m \<Longrightarrow> mem_mask m' = mem_mask m \<Longrightarrow> same_memory ce ctx' m' = same_memory ce ctx m"
  by (rule ext) (simp only: same_memory_def)

lemma same_signal_cong:
  assumes "signals ctx' = signals ctx" "signal_signed ctx' = signal_signed ctx"
    and "sig_val m' = sig_val m" "sig_mask m' = sig_mask m" "sig_width m' = sig_width m"
  shows "same_signal ce ctx' m' = same_signal ce ctx m"
proof -
  have "valid_sig m' = valid_sig m" "sig_value m' = sig_value m"
    using assms by (simp_all add: fun_eq_iff valid_sig_def sig_value_def)
  then show ?thesis using assms by (intro ext) (simp only: same_signal_def)
qed

lemma nba_sig_simps [simp]:
  "sig_val (nba_sig m i v) = sig_val m" "sig_mask (nba_sig m i v) = sig_mask m" "sig_width (nba_sig m i v) = sig_width m"
  "mem_info (nba_sig m i v) = mem_info m" "mem_val (nba_sig m i v) = mem_val m" "mem_mask (nba_sig m i v) = mem_mask m"
  "const_pool (nba_sig m i v) = const_pool m"
  by (simp_all add: nba_sig_def Let_def)

lemma same_state_store:
  assumes same: "same_state ce ctx m" and sig: "signals ctx name = Some cur" "signal_map ce name = Some sid"
    and inj: "inj_on (signal_map ce) (dom (signals ctx))"
    and u: "wf_val u" "v_width u = v_width cur"
  shows "same_state ce (ctx\<lparr>signals := (signals ctx)(name \<mapsto> u)\<rparr>) (set_signal m sid (v_val u) (v_mask u))"
proof -
  let ?ctx = "ctx\<lparr>signals := (signals ctx)(name \<mapsto> u)\<rparr>" and ?m = "set_signal m sid (v_val u) (v_mask u)"
  have sid: "valid_sig m (int sid)" "cur = sig_value m sid"
    using same_signalD [OF same sig(1)] sig(2) by auto
  then have w: "sig_width m ! sid = v_width u" using u(2) by (simp add: sig_value_def)
  have val: "sig_value ?m j = (if j = sid then u else sig_value m j)" for j
    using sig_value_set_signal [OF sid(1)] w mk_value_self [OF u(1)] by simp
  have "same_signal ce ?ctx ?m nm" for nm
  proof (cases "nm = name")
    case True
    have "same_signal ce ctx m name" using same by (simp add: same_state_def)
    then show ?thesis using True sig val by (simp add: same_signal_def)
  next
    case False
    have s: "same_signal ce ctx m nm" using same by (simp add: same_state_def)
    have "j \<noteq> sid" if "signals ctx nm = Some v" "signal_map ce nm = Some j" for v j
      using inj_onD [OF inj, of nm name] that sig False by auto
    then show ?thesis using s False val by (auto simp: same_signal_def split: option.splits)
  qed
  moreover have "same_memory ce ?ctx ?m nm" for nm
    using same same_memory_cong [of ?ctx ctx ?m m ce] by (simp add: same_state_def)
  ultimately show ?thesis using same by (simp add: same_state_def)
qed

lemma related_store:
  assumes rel: "related ce ctx s m" and sig: "signals (es_ctx s) name = Some cur" "signal_map ce name = Some sid"
    and v: "resize v (v_width cur) = u"
  shows "related ce ctx (write_plain name u s) (store_sig m sid v)"
proof -
  have same: "same_state ce (es_ctx s) m" and shape: "same_shape ctx (es_ctx s)"
    and inj: "inj_on (signal_map ce) (dom (signals ctx))" using rel by (simp_all add: related_def)
  have dom: "dom (signals (es_ctx s)) = dom (signals ctx)"
    by (simp only: dom_def shape_signal_none [OF shape])
  have sid: "valid_sig m (int sid)" "cur = sig_value m sid"
    using same_signalD [OF same sig(1)] sig(2) by auto
  have u: "wf_val u" "v_width u = v_width cur" using v by auto
  have st: "store_sig m sid v = set_signal m sid (v_val u) (v_mask u)"
    by (rule store_sig_resize) (use v sid(2) in \<open>simp add: sig_value_def\<close>)
  have "same_state ce (es_ctx (write_plain name u s)) (store_sig m sid v)"
    unfolding st write_plain_simps
    by (rule same_state_store [OF same sig _ u]) (use inj dom in simp)
  moreover have "same_shape (es_ctx s) (es_ctx (write_plain name u s))"
    using sig(1) u(2) by (simp add: same_shape_def)
  ultimately show ?thesis
    using rel shape same_shape_trans by (auto simp: related_def st)
qed

lemma related_queue:
  assumes rel: "related ce ctx s m" and sig: "signals (es_ctx s) name = Some cur" "signal_map ce name = Some sid"
    and v: "resize v (v_width cur) = u"
  shows "related ce ctx (queue_nba [NbaEntry name u] s) (nba_sig m sid v)"
proof -
  have same: "same_state ce (es_ctx s) m" using rel by (simp add: related_def)
  have "cur = sig_value m sid" using same_signalD [OF same sig(1)] sig(2) by auto
  then have w: "sig_width m ! sid = v_width cur" by (simp add: sig_value_def)
  have "mk_value (v_val v AND width_mask k) k (v_mask v AND width_mask k) = resize v k" for k
    by (rule val4_eqI; (intro int_eqI)?) (auto simp: resize_def mk_value_def bit_simps)
  then have q: "nba_queue (nba_sig m sid v) = nba_queue m @ [NbaWhole sid u]"
    using w v by (simp add: nba_sig_def Let_def)
  have "same_state ce (es_ctx s) (nba_sig m sid v)"
    using same same_memory_cong [of "es_ctx s" "es_ctx s" "nba_sig m sid v" m ce]
      same_signal_cong [of "es_ctx s" "es_ctx s" "nba_sig m sid v" m ce]
    by (simp add: same_state_def)
  then show ?thesis
    using rel q sig(2) by (auto simp: related_def queue_nba_def same_entry_def intro!: list_all2_appendI)
qed

section \<open>Assignments\<close>

text \<open>A right-hand side of at most the width of the target.\<close>

definition fits :: "eval_ctx \<Rightarrow> expr \<Rightarrow> int \<Rightarrow> bool" where
  "fits ctx e w = (case expr_self_width ctx e of Inr n \<Rightarrow> n \<le> w | Inl _ \<Rightarrow> False)"

definition agree_assign :: "eval_ctx \<Rightarrow> expr \<Rightarrow> expr \<Rightarrow> bool" where
  "agree_assign ctx lhs rhs = (case lhs of
     Identifier n h _ \<Rightarrow>
       (let name = identifier_name n h
        in CHR ''['' \<notin> set name \<and> memories ctx name = None \<and> agree_expr ctx rhs
           \<and> (case signals ctx name of
                Some cur \<Rightarrow> 0 < v_width cur \<and> fits ctx rhs (int (v_width cur)) | None \<Rightarrow> False))
   | _ \<Rightarrow> False)"

lemma agree_cut_at:
  assumes "same_state ce ctx m" "agree_expr ctx e" "fits ctx e w" "0 < w"
  shows "cut_at ce ctx m e w"
proof -
  obtain n where n: "engine_ok ce ctx m e n" using engines_agree_expr [OF assms(1,2)] by blast
  have le: "n \<le> w" using assms(3) engine_ok_static(2) [OF n] by (auto simp: fits_def split: sum.splits)
  obtain v where "eval ctx e w None = Inr v" "wf_val v" "int (v_width v) = w"
    "compiles_to m (compile_expr ce e) w None v"
    by (rule engine_okD [OF n, of w None]) (use le assms(4) in auto)
  then show ?thesis by (intro cut_atI [of _ _ _ v]) auto
qed

text \<open>What the reference engine does.\<close>

lemma assign_scalar:
  assumes "signals (es_ctx s) (identifier_name n h) = Some cur" "memories (es_ctx s) (identifier_name n h) = None"
    and "CHR ''['' \<notin> set (identifier_name n h)"
    and "eval (es_ctx s) rhs (int (v_width cur)) None = Inr u" "v_width cur \<le> v_width u" "wf_val u"
  shows "assign immediate (Identifier n h r) rhs s =
     ((if immediate then write_plain (identifier_name n h) (resize u (v_width cur)) s
       else queue_nba [NbaEntry (identifier_name n h) (resize u (v_width cur))] s), None)"
proof -
  let ?name = "identifier_name n h" and ?w = "int (v_width cur)"
  have u: "(if v_width cur \<noteq> v_width u then resize u (v_width cur) else u) = resize u (v_width cur)"
    using assms(6) by simp
  have "write_target immediate (Identifier n h r) u s =
     ((if immediate then write_plain ?name (resize u (v_width cur)) s
       else queue_nba [NbaEntry ?name (resize u (v_width cur))] s), None)"
    using assms(1-3) u by (simp add: write_simple_def write_identifier_def attempt_def write_signal_def write_whole_memory_def)
  moreover have "assign_value (es_ctx s) rhs ?w = Inr u"
    using assms(4,5) by (simp add: assign_value_def)
  moreover have "lhs_width (es_ctx s) (Identifier n h r) = Inr ?w"
    using assms(1) by (simp add: read_signal_def)
  moreover have "scalar_target (es_ctx s) (Identifier n h r) = (if h = [] then Some cur else None)"
    using assms(1,2) by (auto simp: scalar_target_def identifier_name_def)
  moreover have "copy_whole_memory immediate (Identifier n h r) rhs s = None"
    "assign_pattern_to_memory immediate (Identifier n h r) rhs s = None"
    using assms(2) by (simp_all add: copy_whole_memory_def assign_pattern_to_memory_def split: expr.split)
  ultimately show ?thesis
    unfolding assign_def Let_def by (cases "h = []") (simp_all del: write_target.simps lhs_width.simps)
qed

section \<open>Simulation\<close>

abbreviation code_of :: "stmt_comp \<Rightarrow> program" where
  "code_of sc \<equiv> cs_prog (sc_code sc)"

abbreviation pool_of :: "stmt_comp \<Rightarrow> val4 list" where
  "pool_of sc \<equiv> cs_pool (sc_code sc)"

text \<open>
  What the code between the addresses \<open>a\<close> and \<open>b\<close> does when the executor ends in \<open>r\<close>: it comes to \<open>b\<close>, or stops
  at \<open>$finish\<close>, in a related machine. Nothing is said of a loop that the executor gives up.
\<close>

definition follows ::
    "comp_env \<Rightarrow> eval_ctx \<Rightarrow> program \<Rightarrow> nat \<Rightarrow> nat \<Rightarrow> val4 list \<Rightarrow> machine \<Rightarrow> exec_result \<Rightarrow> bool" where
  "follows ce ctx prog a b z m r = (case snd r of
     Completed \<Rightarrow> \<exists>n m'. lands prog a z m n b z m' \<and> related ce ctx (fst r) m'
   | Finished \<Rightarrow> \<exists>n m'. stops prog a z m n m' \<and> related ce ctx (fst r) m'
   | Failed e \<Rightarrow> e = RuntimeError
   | _ \<Rightarrow> False)"

definition simulated :: "comp_env \<Rightarrow> eval_ctx \<Rightarrow> stmt_compiler \<Rightarrow> (exec_state \<Rightarrow> exec_result) \<Rightarrow> bool" where
  "simulated ce ctx cf run \<longleftrightarrow> (\<forall>sc. \<exists>sc' xs. cf sc = Inr sc' \<and> code_of sc' = code_of sc @ xs \<and>
     prefix (pool_of sc) (pool_of sc') \<and>
     (\<forall>s m z prog. related ce ctx s m \<longrightarrow> piece prog (here sc) xs \<longrightarrow> prefix (pool_of sc') (const_pool m) \<longrightarrow>
        follows ce ctx prog (here sc) (here sc + length xs) z m (run s)))"

section \<open>The code of an assignment\<close>

definition store_code :: "bool \<Rightarrow> bool \<Rightarrow> nat \<Rightarrow> comp_state \<Rightarrow> comp_state" where
  "store_code sg big w st = emit_ext_if big False (int w) (emit_ext_if sg True (int w) st)"

lemma runs_store_code:
  assumes "wf_val v" "0 < w" "w \<le> v_width v"
  shows "\<exists>u. runs m st (store_code sg big w st) (v # z) (u # z) \<and> resize u w = resize v w"
proof -
  let ?v1 = "if sg then resize v w else v" and ?st1 = "emit_ext_if sg True (int w) st"
  have 1: "runs m st ?st1 (v # z) (?v1 # z)"
    using runs_emit_ext [of "int w" v m st True z] assms by (simp add: emit_ext_if_def sext_def resize_def)
  have "runs m ?st1 (store_code sg big w st) (?v1 # z) ((if big then resize ?v1 w else ?v1) # z)"
    using runs_emit_ext [of "int w" ?v1 m ?st1 False z] assms by (auto simp: emit_ext_if_def store_code_def)
  from runs_trans [OF 1 this] show ?thesis
    by (intro exI [of _ "if big then resize ?v1 w else ?v1"]) auto
qed

lemma compile_assign_scalar:
  assumes "signal_map (se_code se) (identifier_name n h) = Some sid" "mem_map (se_code se) (identifier_name n h) = None"
    and "sid < length (ce_sig_width (se_code se))" "ce_sig_width (se_code se) ! sid = w"
  shows "compile_assign se immediate (Identifier n h r) rhs st =
     rmap (\<lambda>st1. emit (if immediate then STORE_SIG else NBA_SIG) (int sid)
              (store_code (vm_expr_signed (se_code se) rhs) (64 < w) w st1))
       (compile_expr (se_code se) rhs (int w) None st)"
  using assms
  by (simp add: compile_assign_def compile_whole_memory_copy_def whole_memory_def compile_matching_concat_copy_def
      target_width_def vm_signal_width_def emit_sign_ext_if_needed_def store_simple_def store_identifier_def
      store_scalar_def store_code_def emit_ext_if_def emit_ext_def rbind_def rmap_def Let_def split: sum.split)

lemma agree_assign_cases:
  assumes "agree_assign ctx lhs rhs"
  obtains n h r cur where "lhs = Identifier n h r" "CHR ''['' \<notin> set (identifier_name n h)"
    "memories ctx (identifier_name n h) = None" "signals ctx (identifier_name n h) = Some cur" "0 < v_width cur"
    "agree_expr ctx rhs" "fits ctx rhs (int (v_width cur))"
  using assms by (auto simp: agree_assign_def Let_def split: expr.splits option.splits)

lemma shape_fits: "same_shape ctx ctx' \<Longrightarrow> fits ctx' e w = fits ctx e w"
  by (simp add: fits_def shape_self_width)

lemma simulatedI:
  assumes "\<And>sc. \<exists>sc' xs. cf sc = Inr sc' \<and> code_of sc' = code_of sc @ xs \<and> prefix (pool_of sc) (pool_of sc') \<and>
     (\<forall>s m z prog. related ce ctx s m \<longrightarrow> piece prog (here sc) xs \<longrightarrow> prefix (pool_of sc') (const_pool m) \<longrightarrow>
        follows ce ctx prog (here sc) (here sc + length xs) z m (run s))"
  shows "simulated ce ctx cf run"
  unfolding simulated_def by (intro allI assms)

lemma here_code: "here sc = length (code_of sc)"
  by (simp add: here_def code_length_def)

lemma lands_one:
  assumes "p < length prog" "const_pool m' = const_pool m"
    and "\<And>l k. exec_instr (prog ! p) (config p s k (limited l m)) = Running (config (Suc p) s' k (limited l m'))"
  shows "lands prog p s m 0 (Suc p) s' m'"
  using assms by (simp add: lands_def step_at goes_step)

lemma no_value_store [simp]:
  "value_op m (instr STORE_SIG a) s = None" "value_op m (instr NBA_SIG a) s = None"
  by (simp_all add: value_op_def instr_def binary_fun_def unary_fun_def ternary_fun_def)

lemma lands_store_sig:
  assumes "p < length prog" "prog ! p = instr STORE_SIG (int sid)" "valid_sig m (int sid)"
  shows "lands prog p (v # z) m 0 (Suc p) z (store_sig m sid v)"
proof (rule lands_one)
  fix l k
  have "valid_sig (limited l m) (int sid)" using assms(3) by (simp add: valid_sig_def)
  then have "exec_instr (instr STORE_SIG (int sid)) (config p (v # z) k (limited l m))
      = Running (config (Suc p) z k (store_sig (limited l m) sid v))"
    using no_value_store by (simp add: exec_instr_def instr_def store_op_def Let_def del: store_sig_limited)
  then show "exec_instr (prog ! p) (config p (v # z) k (limited l m))
      = Running (config (Suc p) z k (limited l (store_sig m sid v)))"
    using assms(2) by simp
qed (use assms in \<open>simp_all add: store_sig_def Let_def\<close>)

lemma lands_nba_sig:
  assumes "p < length prog" "prog ! p = instr NBA_SIG (int sid)" "valid_sig m (int sid)"
  shows "lands prog p (v # z) m 0 (Suc p) z (nba_sig m sid v)"
proof (rule lands_one)
  fix l k
  have "valid_sig (limited l m) (int sid)" using assms(3) by (simp add: valid_sig_def)
  then have "exec_instr (instr NBA_SIG (int sid)) (config p (v # z) k (limited l m))
      = Running (config (Suc p) z k (nba_sig (limited l m) sid v))"
    using no_value_store by (simp add: exec_instr_def instr_def store_op_def Let_def del: nba_sig_limited)
  then show "exec_instr (prog ! p) (config p (v # z) k (limited l m))
      = Running (config (Suc p) z k (limited l (nba_sig m sid v)))"
    using assms(2) by simp
qed (use assms in simp_all)

text \<open>A declared scalar in related states.\<close>

lemma related_scalar:
  assumes "related ce ctx s m" "signals ctx name = Some cur" "memories ctx name = None"
  obtains v sid where "signals (es_ctx s) name = Some v" "v_width v = v_width cur"
    "memories (es_ctx s) name = None" "mem_map ce name = None" "signal_map ce name = Some sid"
    "valid_sig m (int sid)" "sid < length (ce_sig_width ce)" "ce_sig_width ce ! sid = v_width cur"
proof -
  have same: "same_state ce (es_ctx s) m" and shape: "same_shape ctx (es_ctx s)"
    using assms(1) by (simp_all add: related_def)
  obtain v where v: "signals (es_ctx s) name = Some v" "v_width v = v_width cur"
    using shape_signals [OF shape assms(2)] by metis
  have m: "memories (es_ctx s) name = None" using shape_no_memory [OF shape assms(3)] .
  obtain sid where "signal_map ce name = Some sid" "valid_sig m (int sid)" "sid < length (ce_sig_width ce)"
    "ce_sig_width ce ! sid = v_width v"
    by (rule same_signalD [OF same v(1)])
  then show ?thesis using that v m no_memory [OF same m] by simp
qed

lemma related_cut_at:
  assumes "related ce ctx s m" "agree_expr ctx e" "fits ctx e w" "0 < w"
  shows "cut_at ce (es_ctx s) m e w"
  using assms agree_cut_at [of ce "es_ctx s" m e w]
  by (auto simp: related_def shape_agree_expr shape_fits)

lemma simulated_assign:
  assumes ex: "related ce ctx s0 m0" and ok: "agree_assign ctx lhs rhs" and ce: "se_code se = ce"
  shows "simulated ce ctx (on_code (compile_assign se immediate lhs rhs)) (\<lambda>s. of_step (assign immediate lhs rhs s))"
proof -
  obtain n h r cur0 where lhs: "lhs = Identifier n h r" "CHR ''['' \<notin> set (identifier_name n h)"
    "memories ctx (identifier_name n h) = None" "signals ctx (identifier_name n h) = Some cur0" "0 < v_width cur0"
    and rhs: "agree_expr ctx rhs" "fits ctx rhs (int (v_width cur0))"
    by (rule agree_assign_cases [OF ok])
  let ?name = "identifier_name n h" and ?w = "v_width cur0"
  obtain sid where sid: "signal_map ce ?name = Some sid" "mem_map ce ?name = None" "sid < length (ce_sig_width ce)"
    "ce_sig_width ce ! sid = ?w"
    by (rule related_scalar [OF ex lhs(4,3)])
  let ?op = "if immediate then STORE_SIG else NBA_SIG" and ?sg = "vm_expr_signed ce rhs"
  show ?thesis
  proof (rule simulatedI)
    fix sc :: stmt_comp
    let ?st = "sc_code sc"
    obtain u0 where u0: "compiles_to m0 (compile_expr ce rhs) (int ?w) None u0" "wf_val u0" "?w \<le> v_width u0"
      using related_cut_at [OF ex rhs] lhs(5) by (auto simp: cut_at_def)
    obtain st1 where st1: "compile_expr ce rhs (int ?w) None ?st = Inr st1" "\<And>z. runs m0 ?st st1 z (u0 # z)"
      using compilesE [OF u0(1)] by blast
    let ?st2 = "store_code ?sg (64 < ?w) ?w st1" and ?sc' = "sc\<lparr>sc_code := emit ?op (int sid) (store_code ?sg (64 < ?w) ?w st1)\<rparr>"
    have comp: "on_code (compile_assign se immediate lhs rhs) sc = Inr ?sc'"
      unfolding on_code_def lhs(1) using compile_assign_scalar [of se n h sid ?w immediate r rhs ?st] sid ce st1 by simp
    obtain v0 where r0: "runs m0 ?st ?st2 [] [v0]"
      using runs_store_code [OF u0(2) lhs(5) u0(3)] runs_trans [OF st1(2) [of "[]"]] by blast
    let ?xs = "code_between ?st ?st2 @ [instr ?op (int sid)]"
    have code: "cs_prog ?st2 = code_of sc @ code_between ?st ?st2" by (rule runs_code [OF r0])
    then have code': "code_of ?sc' = code_of sc @ ?xs" by (simp add: emit_def)
    have pool: "prefix (pool_of sc) (pool_of ?sc')" using r0 by (simp add: runs_def extends_def emit_def)
    have "follows ce ctx prog (here sc) (here sc + length ?xs) z m (of_step (assign immediate lhs rhs s))"
      if rel: "related ce ctx s m" and prog: "piece prog (here sc) ?xs"
        and pool: "prefix (pool_of ?sc') (const_pool m)" for s m z prog
    proof -
      obtain cur where cur: "signals (es_ctx s) ?name = Some cur" "v_width cur = ?w" "valid_sig m (int sid)"
        "memories (es_ctx s) ?name = None"
        by (rule related_scalar [OF rel lhs(4,3)]) (use sid(1) in auto)
      obtain u u' where u: "eval (es_ctx s) rhs (int ?w) None = Inr u" "wf_val u" "?w \<le> v_width u"
        and u': "compiles_to m (compile_expr ce rhs) (int ?w) None u'" "wf_val u'" "?w \<le> v_width u'"
        and eq: "resize u ?w = resize u' ?w"
        using related_cut_at [OF rel rhs] lhs(5) by (auto simp: cut_at_def)
      have r1: "runs m ?st st1 z (u' # z)" using compilesE [OF u'(1), of ?st] st1(1) by auto
      obtain v where v: "runs m st1 ?st2 (u' # z) (v # z)" "resize v ?w = resize u' ?w"
        using runs_store_code [OF u'(2) lhs(5) u'(3)] by blast
      let ?p = "length (cs_prog ?st2)"
      have p: "here sc + length (code_between ?st ?st2) = ?p" using code by (simp add: here_code)
      have at: "piece prog (here sc) (code_between ?st ?st2)" "prog ! ?p = instr ?op (int sid)" "?p < length prog"
        using prog by (simp_all add: p)
      have 1: "lands prog (here sc) z m 0 ?p (v # z) m"
        using lands_runs [OF runs_trans [OF r1 v(1)]] at(1) pool by (simp add: here_code emit_def)
      have 2: "assign immediate lhs rhs s =
          ((if immediate then write_plain ?name (resize u ?w) s else queue_nba [NbaEntry ?name (resize u ?w)] s), None)"
        unfolding lhs(1) using assign_scalar [of s n h cur rhs u immediate r] cur u lhs(2) by simp
      have 3: "related ce ctx (write_plain ?name (resize u ?w) s) (store_sig m sid v)"
        "related ce ctx (queue_nba [NbaEntry ?name (resize u ?w)] s) (nba_sig m sid v)"
        using related_store [OF rel cur(1) sid(1), of v "resize u ?w"] related_queue [OF rel cur(1) sid(1), of v "resize u ?w"]
          v(2) eq cur(2) by (simp_all only:)
      have "here sc + length ?xs = Suc ?p" using p by simp
      then show ?thesis
        using 1 2 3 lands_trans [OF 1 lands_store_sig [OF at(3) _ cur(3)]] lands_trans [OF 1 lands_nba_sig [OF at(3) _ cur(3)]]
          at(2) by (cases immediate) (auto simp: follows_def of_step_def)
    qed
    then show "\<exists>sc' xs. on_code (compile_assign se immediate lhs rhs) sc = Inr sc' \<and> code_of sc' = code_of sc @ xs \<and>
       prefix (pool_of sc) (pool_of sc') \<and>
       (\<forall>s m z prog. related ce ctx s m \<longrightarrow> piece prog (here sc) xs \<longrightarrow> prefix (pool_of sc') (const_pool m) \<longrightarrow>
          follows ce ctx prog (here sc) (here sc + length xs) z m (of_step (assign immediate lhs rhs s)))"
      using comp code' pool by blast
  qed
qed

end
