(* ===== verification/Engine_Flow.thy ===== *)
theory Engine_Flow
  imports Engine_Assign
begin

text \<open>
  Control flow on the two engines: the code of a block, an \<open>if\<close>, a loop simulates the executor when the
  code of its parts does.
\<close>

section \<open>Sequences\<close>

lemma lands_pool: "lands prog a s m n b s' m' \<Longrightarrow> const_pool m' = const_pool m"
  by (simp add: lands_def)

lemma lands_follows:
  assumes "lands prog a z m n b z m'" "follows ce ctx prog b c z m' r"
  shows "follows ce ctx prog a c z m r"
  using assms lands_trans [OF assms(1)] lands_stops [OF assms(1)]
  by (cases "snd r") (auto simp: follows_def, blast+)

lemma follows_then:
  assumes r: "follows ce ctx prog a b z m r"
    and more: "\<And>s' m'. r = (s', Completed) \<Longrightarrow> related ce ctx s' m' \<Longrightarrow> const_pool m' = const_pool m \<Longrightarrow>
      follows ce ctx prog b c z m' (g s')"
  shows "follows ce ctx prog a c z m (and_then r g)"
proof -
  obtain s' e where re: "r = (s', e)" by (cases r)
  show ?thesis
  proof (cases "e = Completed")
    case True
    obtain n m' where l: "lands prog a z m n b z m'" "related ce ctx s' m'"
      using r re True by (auto simp: follows_def)
    then have "follows ce ctx prog b c z m' (g s')" using more [of s' m'] lands_pool re True by blast
    then show ?thesis using lands_follows [OF l(1)] re True by (simp add: and_then_def)
  next
    case False
    then show ?thesis using r re by (cases e) (auto simp: follows_def and_then_def)
  qed
qed

text \<open>A jump or another instruction after the code of a statement.\<close>

lemma follows_lands:
  assumes r: "follows ce ctx prog a b z m r" and more: "\<And>m'. const_pool m' = const_pool m \<Longrightarrow> lands prog b z m' n c z m'"
  shows "follows ce ctx prog a c z m r"
proof -
  have "follows ce ctx prog b c z m' (s', Completed)" if "related ce ctx s' m'" "const_pool m' = const_pool m" for s' m'
    using more [OF that(2)] that(1) by (auto simp: follows_def)
  moreover have "and_then r (\<lambda>s. (s, Completed)) = r"
    by (cases r; cases "snd r") (auto simp: and_then_def)
  ultimately show ?thesis using follows_then [OF r, of c "\<lambda>s. (s, Completed)"] by simp
qed

lemma simulated_then:
  assumes f: "simulated ce ctx cf f" and g: "simulated ce ctx cg g"
  shows "simulated ce ctx (\<lambda>sc. rbind (cf sc) cg) (\<lambda>s. and_then (f s) g)"
proof (rule simulatedI)
  fix sc
  obtain sc1 xs where 1: "cf sc = Inr sc1" "code_of sc1 = code_of sc @ xs" "prefix (pool_of sc) (pool_of sc1)"
    and f': "\<And>s m z prog. related ce ctx s m \<Longrightarrow> piece prog (here sc) xs \<Longrightarrow> prefix (pool_of sc1) (const_pool m) \<Longrightarrow>
      follows ce ctx prog (here sc) (here sc + length xs) z m (f s)"
    using f unfolding simulated_def by meson
  obtain sc2 ys where 2: "cg sc1 = Inr sc2" "code_of sc2 = code_of sc1 @ ys" "prefix (pool_of sc1) (pool_of sc2)"
    and g': "\<And>s m z prog. related ce ctx s m \<Longrightarrow> piece prog (here sc1) ys \<Longrightarrow> prefix (pool_of sc2) (const_pool m) \<Longrightarrow>
      follows ce ctx prog (here sc1) (here sc1 + length ys) z m (g s)"
    using g unfolding simulated_def by meson
  have h: "here sc1 = here sc + length xs" using 1 by (simp add: here_code)
  have "follows ce ctx prog (here sc) (here sc + length (xs @ ys)) z m (and_then (f s) g)"
    if rel: "related ce ctx s m" and prog: "piece prog (here sc) (xs @ ys)" and pool: "prefix (pool_of sc2) (const_pool m)"
    for s m z prog
  proof (rule follows_then)
    have "prefix (pool_of sc1) (const_pool m)" using 2(3) pool prefix_order.trans by blast
    then show "follows ce ctx prog (here sc) (here sc + length xs) z m (f s)" using f' [OF rel] prog by simp
    fix s' m' assume "related ce ctx s' m'" "const_pool m' = const_pool m"
    then show "follows ce ctx prog (here sc + length xs) (here sc + length (xs @ ys)) z m' (g s')"
      using g' [of s' m' prog z] prog pool h by (simp add: add.assoc)
  qed
  then show "\<exists>sc' xs. rbind (cf sc) cg = Inr sc' \<and> code_of sc' = code_of sc @ xs \<and> prefix (pool_of sc) (pool_of sc') \<and>
     (\<forall>s m z prog. related ce ctx s m \<longrightarrow> piece prog (here sc) xs \<longrightarrow> prefix (pool_of sc') (const_pool m) \<longrightarrow>
        follows ce ctx prog (here sc) (here sc + length xs) z m (and_then (f s) g))"
    using 1 2 prefix_order.trans [OF 1(3) 2(3)] by (intro exI [of _ sc2] exI [of _ "xs @ ys"]) simp
qed

lemma follows_done:
  assumes "related ce ctx s m"
  shows "follows ce ctx prog a a z m (s, Completed)"
proof -
  have "lands prog a z m 0 a z m \<and> related ce ctx s m" using assms by simp
  then show ?thesis unfolding follows_def snd_conv fst_conv completion.case by blast
qed

lemma simulated_skip: "simulated ce ctx Inr (\<lambda>s. (s, Completed))"
  by (rule simulatedI) (auto simp: follows_done intro!: exI [of _ "[]"])

lemma simulated_option:
  "(\<And>c f. body = Some (c, f) \<Longrightarrow> simulated ce ctx c f) \<Longrightarrow>
     simulated ce ctx (compile_option (map_option fst body)) (exec_option (map_option snd body))"
  using simulated_skip by (cases body) (auto simp: compile_option_def [abs_def] exec_option_def [abs_def])

lemma simulated_block:
  "list_all2 (simulated ce ctx) cs fs \<Longrightarrow> simulated ce ctx (compile_block cs) (exec_block fs)"
proof (induction rule: list_all2_induct)
  case Nil
  then show ?case using simulated_skip by (simp add: fun_eq_iff simulated_def)
next
  case (Cons c cs f fs)
  then show ?case using simulated_then [of ce ctx c f] by (simp add: simulated_def)
qed

lemma follows_leave_block: "follows ce ctx prog a b z m r \<Longrightarrow> leave_block name r = r"
  by (cases r; cases "snd r") (auto simp: follows_def leave_block_def)

section \<open>Conditions\<close>

lemma own_value_code:
  assumes ex: "related ce ctx s0 m0" and e: "agree_expr ctx e" and w: "w = 0 \<or> expr_self_width ctx e = Inr w"
  shows "\<exists>st' xs. compile_expr ce e w None st = Inr st' \<and> cs_prog st' = cs_prog st @ xs \<and> prefix (cs_pool st) (cs_pool st') \<and>
    (\<forall>s m z prog. related ce ctx s m \<longrightarrow> piece prog (length (cs_prog st)) xs \<longrightarrow> prefix (cs_pool st') (const_pool m) \<longrightarrow>
       (\<exists>v. eval (es_ctx s) e w None = Inr v \<and> wf_val v
          \<and> lands prog (length (cs_prog st)) z m 0 (length (cs_prog st) + length xs) (v # z) m))"
proof -
  have at: "\<exists>v. eval (es_ctx s) e w None = Inr v \<and> wf_val v \<and> compiles_to m (compile_expr ce e) w None v"
    if rel: "related ce ctx s m" for s m
  proof -
    have same: "same_state ce (es_ctx s) m" and shape: "same_shape ctx (es_ctx s)"
      using rel by (simp_all add: related_def)
    obtain n where n: "engine_ok ce (es_ctx s) m e n"
      using engines_agree_expr [OF same] e shape_agree_expr [OF shape] by blast
    have "in_context n w None"
      using w engine_ok_static(2) [OF n] shape_self_width [OF shape] by (auto simp: in_context_def)
    then show ?thesis by (rule engine_okD [OF n]) blast
  qed
  obtain v0 where "compiles_to m0 (compile_expr ce e) w None v0" using at [OF ex] by blast
  from compilesE [OF this] obtain st' where st': "compile_expr ce e w None st = Inr st'" "\<And>z. runs m0 st st' z (v0 # z)"
    by blast
  have "\<exists>v. eval (es_ctx s) e w None = Inr v \<and> wf_val v
      \<and> lands prog (length (cs_prog st)) z m 0 (length (cs_prog st')) (v # z) m"
    if rel: "related ce ctx s m" and p: "piece prog (length (cs_prog st)) (code_between st st')"
      and pool: "prefix (cs_pool st') (const_pool m)" for s m z prog
  proof -
    obtain v where v: "eval (es_ctx s) e w None = Inr v" "wf_val v" "compiles_to m (compile_expr ce e) w None v"
      using at [OF rel] by blast
    have "runs m st st' z (v # z)" using compilesE [OF v(3), of st] st'(1) by auto
    from lands_runs [OF this p pool] show ?thesis using v by blast
  qed
  moreover have "cs_prog st' = cs_prog st @ code_between st st'" "prefix (cs_pool st) (cs_pool st')"
    using runs_code [OF st'(2)] st'(2) by (auto simp: runs_def extends_def)
  moreover from this have "length (cs_prog st') = length (cs_prog st) + length (code_between st st')" by simp
  ultimately show ?thesis using st'(1) by (intro exI [of _ st'] exI [of _ "code_between st st'"]) simp
qed

lemma condition_code:
  assumes ex: "related ce ctx s0 m0" and e: "agree_expr ctx c"
  obtains sc1 xs where "compile_condition ce c sc = Inr sc1" "code_of sc1 = code_of sc @ xs"
    "prefix (pool_of sc) (pool_of sc1)"
    "\<And>s m z prog. related ce ctx s m \<Longrightarrow> piece prog (here sc) xs \<Longrightarrow> prefix (pool_of sc1) (const_pool m) \<Longrightarrow>
       \<exists>v. condition_holds (es_ctx s) c = Inr (truthy v) \<and> lands prog (here sc) z m 0 (here sc + length xs) (v # z) m"
proof -
  have same: "same_state ce (es_ctx s0) m0" and shape: "same_shape ctx (es_ctx s0)"
    using ex by (simp_all add: related_def)
  obtain w where "same_static ce (es_ctx s0) c w"
    using agree_static [OF same] e shape_agree_expr [OF shape] by blast
  then have w: "vm_expr_width ce c = Inr w" "expr_self_width ctx c = Inr w"
    using shape_self_width [OF shape] by (simp_all add: same_static_def)
  obtain st' xs where st': "compile_expr ce c w None (sc_code sc) = Inr st'" "cs_prog st' = code_of sc @ xs"
    "prefix (pool_of sc) (cs_pool st')"
    "\<And>s m z prog. related ce ctx s m \<Longrightarrow> piece prog (here sc) xs \<Longrightarrow> prefix (cs_pool st') (const_pool m) \<Longrightarrow>
       \<exists>v. eval (es_ctx s) c w None = Inr v \<and> wf_val v \<and> lands prog (here sc) z m 0 (here sc + length xs) (v # z) m"
    using own_value_code [OF ex e, of w "sc_code sc"] w(2) unfolding here_code by blast
  have "condition_holds (es_ctx s) c = Inr (truthy v)"
    if "related ce ctx s m" "eval (es_ctx s) c w None = Inr v" for s m v
  proof -
    have "same_shape ctx (es_ctx s)" using that(1) by (simp add: related_def)
    then have "expr_self_width (es_ctx s) c = Inr w" using shape_self_width w(2) by simp
    moreover have "v_mask (reduce_or v) = 0 \<and> v_val (reduce_or v) \<noteq> 0 \<longleftrightarrow> truthy v"
      using reduce_or_decides [of v] by (auto simp: is_defined_def truthy_def)
    ultimately show ?thesis using that(2) by (simp add: condition_holds_def)
  qed
  then show ?thesis
    using st' w(1) by (intro that [of "sc\<lparr>sc_code := st'\<rparr>" xs]) (simp_all add: compile_condition_def on_code_def, blast)
qed

section \<open>Branches\<close>

lemma emit_in_simps [simp]:
  "code_of (emit_in op a sc) = code_of sc @ [instr op a]" "pool_of (emit_in op a sc) = pool_of sc"
  "here (emit_in op a sc) = Suc (here sc)"
  by (simp_all add: emit_in_def emit_def here_code)

lemma here_append: "code_of sc' = code_of sc @ xs \<Longrightarrow> here sc' = here sc + length xs"
  by (simp add: here_code)

lemma patch_in_pool [simp]: "pool_of (patch_in i op t sc) = pool_of sc" "here (patch_in i op t sc) = here sc"
  by (simp_all add: patch_in_def patch_to_def here_code)

lemma patch_in_code:
  "code_of sc = pre @ x # post \<Longrightarrow> length pre = i \<Longrightarrow> code_of (patch_in i op t sc) = pre @ instr op (int t) # post"
  by (auto simp: patch_in_def patch_to_def list_update_append)

lemma simulatedE:
  assumes "simulated ce ctx cf run"
  obtains sc' xs where "cf sc = Inr sc'" "code_of sc' = code_of sc @ xs" "prefix (pool_of sc) (pool_of sc')"
    "\<And>s m z prog. related ce ctx s m \<Longrightarrow> piece prog (here sc) xs \<Longrightarrow> prefix (pool_of sc') (const_pool m) \<Longrightarrow>
       follows ce ctx prog (here sc) (here sc + length xs) z m (run s)"
  using assms unfolding simulated_def by meson

lemma simulated_if_then:
  assumes ex: "related ce ctx s0 m0" and c: "agree_expr ctx c"
    and t: "simulated ce ctx (compile_option t) (exec_option t')"
  shows "simulated ce ctx (compile_if ce c t None) (exec_if c t' None)"
proof (rule simulatedI)
  fix sc :: stmt_comp
  obtain sc1 xs where 1: "compile_condition ce c sc = Inr sc1" "code_of sc1 = code_of sc @ xs"
    "prefix (pool_of sc) (pool_of sc1)"
    and cond: "\<And>s m z prog. related ce ctx s m \<Longrightarrow> piece prog (here sc) xs \<Longrightarrow> prefix (pool_of sc1) (const_pool m) \<Longrightarrow>
       \<exists>v. condition_holds (es_ctx s) c = Inr (truthy v) \<and> lands prog (here sc) z m 0 (here sc + length xs) (v # z) m"
    using condition_code [OF ex c, where sc = sc] by blast
  let ?sc1 = "emit_in JUMP_IF_ZERO 0 sc1"
  obtain sc2 ys where 2: "compile_option t ?sc1 = Inr sc2" "code_of sc2 = code_of ?sc1 @ ys"
    "prefix (pool_of ?sc1) (pool_of sc2)"
    and body: "\<And>s m z prog. related ce ctx s m \<Longrightarrow> piece prog (here ?sc1) ys \<Longrightarrow> prefix (pool_of sc2) (const_pool m) \<Longrightarrow>
       follows ce ctx prog (here ?sc1) (here ?sc1 + length ys) z m (exec_option t' s)"
    using simulatedE [OF t, where sc = ?sc1] by blast
  let ?jz = "instr JUMP_IF_ZERO (int (here sc2))" and ?sc' = "patch_in (here sc1) JUMP_IF_ZERO (here sc2) sc2"
  have h: "here sc1 = here sc + length xs" "here sc2 = Suc (here sc1) + length ys"
    using here_append [OF 1(2)] here_append [OF 2(2)] by simp_all
  have code: "code_of ?sc' = code_of sc @ xs @ ?jz # ys"
    using patch_in_code [of sc2 "code_of sc @ xs" "instr JUMP_IF_ZERO 0" ys "here sc1"] 1(2) 2(2) h(1)
    by (simp add: here_code)
  have "follows ce ctx prog (here sc) (here sc + length (xs @ ?jz # ys)) z m (exec_if c t' None s)"
    if rel: "related ce ctx s m" and prog: "piece prog (here sc) (xs @ ?jz # ys)" and pool: "prefix (pool_of ?sc') (const_pool m)"
    for s m z prog
  proof -
    have "prefix (pool_of sc1) (const_pool m)" using 2(3) pool prefix_order.trans by auto
    then obtain v where v: "condition_holds (es_ctx s) c = Inr (truthy v)"
      "lands prog (here sc) z m 0 (here sc1) (v # z) m"
      using cond [OF rel, of prog z] prog h(1) by auto
    have jz: "lands prog (here sc1) (v # z) m 0 (if truthy v then Suc (here sc1) else here sc2) z m"
      by (rule lands_zero) (use prog h in simp_all)
    note go = lands_trans [OF v(2) jz]
    have "follows ce ctx prog (Suc (here sc1)) (here sc2) z m (exec_option t' s)"
      using body [OF rel, of prog z] prog pool h by simp
    moreover have "here sc + length (xs @ ?jz # ys) = here sc2" using h by simp
    moreover have "exec_if c t' None s = (if truthy v then exec_option t' s else (s, Completed))"
      using v(1) by (simp add: exec_if_def exec_option_def)
    ultimately show ?thesis
      using lands_follows [OF go] follows_done [OF rel, of prog "here sc2" z] by (simp split: if_splits)
  qed
  then show "\<exists>sc' xs. compile_if ce c t None sc = Inr sc' \<and> code_of sc' = code_of sc @ xs \<and> prefix (pool_of sc) (pool_of sc') \<and>
     (\<forall>s m z prog. related ce ctx s m \<longrightarrow> piece prog (here sc) xs \<longrightarrow> prefix (pool_of sc') (const_pool m) \<longrightarrow>
        follows ce ctx prog (here sc) (here sc + length xs) z m (exec_if c t' None s))"
    using 1 2 code prefix_order.trans [OF 1(3), of "pool_of sc2"]
    by (intro exI [of _ ?sc'] exI [of _ "xs @ ?jz # ys"]) (simp add: compile_if_def)
qed

lemma simulated_if_else:
  assumes ex: "related ce ctx s0 m0" and c: "agree_expr ctx c"
    and t: "simulated ce ctx (compile_option t) (exec_option t')" and e: "simulated ce ctx e e'"
  shows "simulated ce ctx (compile_if ce c t (Some e)) (exec_if c t' (Some e'))"
proof (rule simulatedI)
  fix sc :: stmt_comp
  obtain sc1 xs where 1: "compile_condition ce c sc = Inr sc1" "code_of sc1 = code_of sc @ xs"
    "prefix (pool_of sc) (pool_of sc1)"
    and cond: "\<And>s m z prog. related ce ctx s m \<Longrightarrow> piece prog (here sc) xs \<Longrightarrow> prefix (pool_of sc1) (const_pool m) \<Longrightarrow>
       \<exists>v. condition_holds (es_ctx s) c = Inr (truthy v) \<and> lands prog (here sc) z m 0 (here sc + length xs) (v # z) m"
    using condition_code [OF ex c, where sc = sc] by blast
  let ?sc1 = "emit_in JUMP_IF_ZERO 0 sc1"
  obtain sc2 ys where 2: "compile_option t ?sc1 = Inr sc2" "code_of sc2 = code_of ?sc1 @ ys"
    "prefix (pool_of ?sc1) (pool_of sc2)"
    and then_body: "\<And>s m z prog. related ce ctx s m \<Longrightarrow> piece prog (here ?sc1) ys \<Longrightarrow> prefix (pool_of sc2) (const_pool m) \<Longrightarrow>
       follows ce ctx prog (here ?sc1) (here ?sc1 + length ys) z m (exec_option t' s)"
    using simulatedE [OF t, where sc = ?sc1] by blast
  let ?sc3 = "emit_in JUMP 0 sc2"
  let ?sc4 = "patch_in (here sc1) JUMP_IF_ZERO (here ?sc3) ?sc3" and ?jz = "instr JUMP_IF_ZERO (int (here ?sc3))"
  obtain sc5 zs where 5: "e ?sc4 = Inr sc5" "code_of sc5 = code_of ?sc4 @ zs" "prefix (pool_of ?sc4) (pool_of sc5)"
    and else_body: "\<And>s m z prog. related ce ctx s m \<Longrightarrow> piece prog (here ?sc4) zs \<Longrightarrow> prefix (pool_of sc5) (const_pool m) \<Longrightarrow>
       follows ce ctx prog (here ?sc4) (here ?sc4 + length zs) z m (e' s)"
    using simulatedE [OF e, where sc = ?sc4] by blast
  let ?jmp = "instr JUMP (int (here sc5))" and ?sc' = "patch_in (here sc2) JUMP (here sc5) sc5"
  let ?code = "xs @ ?jz # ys @ ?jmp # zs"
  have h: "here sc1 = here sc + length xs" "here sc2 = Suc (here sc1) + length ys" "here sc5 = Suc (here sc2) + length zs"
    using here_append [OF 1(2)] here_append [OF 2(2)] here_append [OF 5(2)] by simp_all
  have 4: "code_of ?sc4 = (code_of sc @ xs @ ?jz # ys) @ [instr JUMP 0]"
    using patch_in_code [of ?sc3 "code_of sc @ xs" "instr JUMP_IF_ZERO 0" "ys @ [instr JUMP 0]" "here sc1"] 1(2) 2(2) h(1)
    by (simp add: here_code)
  have code: "code_of ?sc' = code_of sc @ ?code"
    using patch_in_code [of sc5 "code_of sc @ xs @ ?jz # ys" "instr JUMP 0" zs "here sc2"] 4 5(2) h(1,2)
    by (simp add: here_code)
  have "follows ce ctx prog (here sc) (here sc + length ?code) z m (exec_if c t' (Some e') s)"
    if rel: "related ce ctx s m" and prog: "piece prog (here sc) ?code" and pool: "prefix (pool_of ?sc') (const_pool m)"
    for s m z prog
  proof -
    have pools: "prefix (pool_of sc1) (const_pool m)" "prefix (pool_of sc2) (const_pool m)"
      using 2(3) 5(3) pool prefix_order.trans by auto
    obtain v where v: "condition_holds (es_ctx s) c = Inr (truthy v)"
      "lands prog (here sc) z m 0 (here sc1) (v # z) m"
      using cond [OF rel _ pools(1), of prog z] prog h(1) by auto
    have jz: "lands prog (here sc1) (v # z) m 0 (if truthy v then Suc (here sc1) else Suc (here sc2)) z m"
      by (rule lands_zero) (use prog h in simp_all)
    note go = lands_trans [OF v(2) jz]
    have "follows ce ctx prog (Suc (here sc1)) (here sc2) z m (exec_option t' s)"
      using then_body [OF rel, of prog z] prog pools h by simp
    then have "follows ce ctx prog (Suc (here sc1)) (here sc5) z m (exec_option t' s)"
      by (rule follows_lands) (rule lands_forward, use prog h in simp_all)
    moreover have "follows ce ctx prog (Suc (here sc2)) (here sc5) z m (e' s)"
      using else_body [OF rel, of prog z] prog pool h by simp
    moreover have "here sc + length ?code = here sc5" using h by simp
    moreover have "exec_if c t' (Some e') s = (if truthy v then exec_option t' s else e' s)"
      using v(1) by (simp add: exec_if_def exec_option_def)
    ultimately show ?thesis using lands_follows [OF go] by (simp split: if_splits)
  qed
  then show "\<exists>sc' xs. compile_if ce c t (Some e) sc = Inr sc' \<and> code_of sc' = code_of sc @ xs \<and>
     prefix (pool_of sc) (pool_of sc') \<and>
     (\<forall>s m z prog. related ce ctx s m \<longrightarrow> piece prog (here sc) xs \<longrightarrow> prefix (pool_of sc') (const_pool m) \<longrightarrow>
        follows ce ctx prog (here sc) (here sc + length xs) z m (exec_if c t' (Some e') s))"
    using 1 2 5 code prefix_order.trans [OF prefix_order.trans [OF 1(3)], of "pool_of sc2" "pool_of sc5"]
    by (intro exI [of _ ?sc'] exI [of _ ?code]) (simp add: compile_if_def Let_def)
qed

section \<open>Loops\<close>

lemma follows_loop:
  assumes test: "\<And>s m. related ce ctx s m \<Longrightarrow> const_pool m = pool \<Longrightarrow>
      \<exists>b. test (es_ctx s) = Inr b \<and> lands prog a z m 0 (if b then p else stop) z m"
    and body: "\<And>s m. related ce ctx s m \<Longrightarrow> const_pool m = pool \<Longrightarrow> follows ce ctx prog p q z m (body s)"
    and again: "\<And>m. lands prog q z m 1 a z m"
    and "related ce ctx s m" "const_pool m = pool"
  shows "follows ce ctx prog a stop z m (exec_loop k test body s)"
  using assms(4,5)
proof (induction k arbitrary: s m)
  case (0 s m)
  obtain b where b: "test (es_ctx s) = Inr b" "lands prog a z m 0 (if b then p else stop) z m"
    using test [OF 0] by blast
  show ?case
  proof (cases b)
    case True
    have "follows ce ctx prog p stop z m (and_then (body s) (\<lambda>s'. (s', Failed RuntimeError)))"
      by (rule follows_then [OF body [OF 0]]) (simp add: follows_def)
    then show ?thesis using lands_follows [of prog a z m 0 p m] b True by (simp add: exec_loop.simps)
  next
    case False
    then show ?thesis
      using lands_follows [of prog a z m 0 stop m ce ctx stop] follows_done [OF 0(1), of prog stop z] b
      by (simp add: exec_loop.simps)
  qed
next
  case (Suc k s m)
  obtain b where b: "test (es_ctx s) = Inr b" "lands prog a z m 0 (if b then p else stop) z m"
    using test [OF Suc.prems] by blast
  show ?case
  proof (cases b)
    case True
    have "follows ce ctx prog p stop z m (and_then (body s) (exec_loop k test body))"
    proof (rule follows_then [OF body [OF Suc.prems]])
      fix s' m' assume "related ce ctx s' m'" "const_pool m' = const_pool m"
      then have "follows ce ctx prog a stop z m' (exec_loop k test body s')" using Suc by simp
      then show "follows ce ctx prog q stop z m' (exec_loop k test body s')" by (rule lands_follows [OF again])
    qed
    moreover have "exec_loop (Suc k) test body s = and_then (body s) (exec_loop k test body)"
      using b True exec_loop.simps [of "Suc k" test body s] by simp
    ultimately show ?thesis using lands_follows [of prog a z m 0 p m] b True by simp
  next
    case False
    then show ?thesis
      using lands_follows [of prog a z m 0 stop m ce ctx stop] follows_done [OF Suc.prems(1), of prog stop z] b
      by (simp add: exec_loop.simps)
  qed
qed

lemma simulated_loop:
  assumes ex: "related ce ctx s0 m0" and c: "agree_expr ctx c" and body: "simulated ce ctx cf run"
  shows "simulated ce ctx (\<lambda>sc. compile_loop ce (here sc) None c cf sc)
     (\<lambda>s. exec_loop (limit s) (\<lambda>ctx. condition_holds ctx c) run s)"
proof (rule simulatedI)
  fix sc :: stmt_comp
  obtain sc1 xs where 1: "compile_condition ce c sc = Inr sc1" "code_of sc1 = code_of sc @ xs"
    "prefix (pool_of sc) (pool_of sc1)"
    and cond: "\<And>s m z prog. related ce ctx s m \<Longrightarrow> piece prog (here sc) xs \<Longrightarrow> prefix (pool_of sc1) (const_pool m) \<Longrightarrow>
       \<exists>v. condition_holds (es_ctx s) c = Inr (truthy v) \<and> lands prog (here sc) z m 0 (here sc + length xs) (v # z) m"
    using condition_code [OF ex c, where sc = sc] by blast
  let ?sc1 = "emit_in JUMP_IF_ZERO 0 sc1"
  obtain sc2 ys where 2: "cf ?sc1 = Inr sc2" "code_of sc2 = code_of ?sc1 @ ys" "prefix (pool_of ?sc1) (pool_of sc2)"
    and run: "\<And>s m z prog. related ce ctx s m \<Longrightarrow> piece prog (here ?sc1) ys \<Longrightarrow> prefix (pool_of sc2) (const_pool m) \<Longrightarrow>
       follows ce ctx prog (here ?sc1) (here ?sc1 + length ys) z m (run s)"
    using simulatedE [OF body, where sc = ?sc1] by blast
  let ?sc3 = "emit_in JUMP (int (here sc)) sc2"
  let ?jz = "instr JUMP_IF_ZERO (int (here ?sc3))" and ?sc' = "patch_in (here sc1) JUMP_IF_ZERO (here ?sc3) ?sc3"
  let ?code = "xs @ ?jz # ys @ [instr JUMP (int (here sc))]"
  have h: "here sc1 = here sc + length xs" "here sc2 = Suc (here sc1) + length ys"
    using here_append [OF 1(2)] here_append [OF 2(2)] by simp_all
  have code: "code_of ?sc' = code_of sc @ ?code"
    using patch_in_code [of ?sc3 "code_of sc @ xs" "instr JUMP_IF_ZERO 0" "ys @ [instr JUMP (int (here sc))]" "here sc1"]
      1(2) 2(2) h(1) by (simp add: here_code)
  have "follows ce ctx prog (here sc) (here sc + length ?code) z m
      (exec_loop (limit s) (\<lambda>ctx. condition_holds ctx c) run s)"
    if rel: "related ce ctx s m" and prog: "piece prog (here sc) ?code" and pool: "prefix (pool_of ?sc') (const_pool m)"
    for s m z prog
  proof -
    have pools: "prefix (pool_of sc1) (const_pool m)" "prefix (pool_of sc2) (const_pool m)"
      using 2(3) pool prefix_order.trans by auto
    have stop: "here sc + length ?code = Suc (here sc2)" using h by simp
    show ?thesis unfolding stop
    proof (rule follows_loop [where p = "Suc (here sc1)" and q = "here sc2"])
      fix s m' assume rel: "related ce ctx s m'" and pm: "const_pool m' = const_pool m"
      obtain v where v: "condition_holds (es_ctx s) c = Inr (truthy v)"
        "lands prog (here sc) z m' 0 (here sc1) (v # z) m'"
        using cond [OF rel, of prog z] prog pools(1) pm h(1) by auto
      have jz: "lands prog (here sc1) (v # z) m' 0 (if truthy v then Suc (here sc1) else Suc (here sc2)) z m'"
        by (rule lands_zero) (use prog h in simp_all)
      show "\<exists>b. condition_holds (es_ctx s) c = Inr b
          \<and> lands prog (here sc) z m' 0 (if b then Suc (here sc1) else Suc (here sc2)) z m'"
        using v(1) lands_trans [OF v(2) jz] by auto
      show "follows ce ctx prog (Suc (here sc1)) (here sc2) z m' (run s)"
        using run [OF rel, of prog z] prog pools(2) pm h by simp
    next
      fix m' show "lands prog (here sc2) z m' 1 (here sc) z m'"
        by (rule lands_backward) (use prog h in simp_all)
    qed (use rel in simp_all)
  qed
  then show "\<exists>sc' xs. compile_loop ce (here sc) None c cf sc = Inr sc' \<and> code_of sc' = code_of sc @ xs \<and>
     prefix (pool_of sc) (pool_of sc') \<and>
     (\<forall>s m z prog. related ce ctx s m \<longrightarrow> piece prog (here sc) xs \<longrightarrow> prefix (pool_of sc') (const_pool m) \<longrightarrow>
        follows ce ctx prog (here sc) (here sc + length xs) z m
          (exec_loop (limit s) (\<lambda>ctx. condition_holds ctx c) run s))"
    using 1 2 code prefix_order.trans [OF 1(3), of "pool_of sc2"]
    by (intro exI [of _ ?sc'] exI [of _ ?code]) (simp add: compile_loop_def Let_def)
qed

lemma simulated_forever:
  assumes body: "simulated ce ctx (compile_option cf) (exec_option run)"
  shows "simulated ce ctx (compile_forever cf) (\<lambda>s. exec_loop (limit s) (\<lambda>ctx. Inr True) (exec_option run) s)"
proof (rule simulatedI)
  fix sc :: stmt_comp
  obtain sc1 xs where 1: "compile_option cf sc = Inr sc1" "code_of sc1 = code_of sc @ xs" "prefix (pool_of sc) (pool_of sc1)"
    and run: "\<And>s m z prog. related ce ctx s m \<Longrightarrow> piece prog (here sc) xs \<Longrightarrow> prefix (pool_of sc1) (const_pool m) \<Longrightarrow>
       follows ce ctx prog (here sc) (here sc + length xs) z m (exec_option run s)"
    using simulatedE [OF body, where sc = sc] by blast
  let ?code = "xs @ [instr JUMP (int (here sc))]" and ?sc' = "emit_in JUMP (int (here sc)) sc1"
  have "follows ce ctx prog (here sc) (here sc + length ?code) z m
      (exec_loop (limit s) (\<lambda>ctx. Inr True) (exec_option run) s)"
    if rel: "related ce ctx s m" and prog: "piece prog (here sc) ?code" and pool: "prefix (pool_of ?sc') (const_pool m)"
    for s m z prog
  proof (rule follows_loop [where p = "here sc" and q = "here sc + length xs"])
    fix s m' assume rel: "related ce ctx s m'" and pm: "const_pool m' = const_pool m"
    show "\<exists>b. Inr True = Inr b \<and> lands prog (here sc) z m' 0 (if b then here sc else here sc + length ?code) z m'"
      by (auto intro!: exI [of _ True])
    show "follows ce ctx prog (here sc) (here sc + length xs) z m' (exec_option run s)"
      using run [OF rel, of prog z] prog pool pm by simp
  next
    fix m' show "lands prog (here sc + length xs) z m' 1 (here sc) z m'"
      by (rule lands_backward) (use prog in simp_all)
  qed (use rel in simp_all)
  then show "\<exists>sc' xs. compile_forever cf sc = Inr sc' \<and> code_of sc' = code_of sc @ xs \<and>
     prefix (pool_of sc) (pool_of sc') \<and>
     (\<forall>s m z prog. related ce ctx s m \<longrightarrow> piece prog (here sc) xs \<longrightarrow> prefix (pool_of sc') (const_pool m) \<longrightarrow>
        follows ce ctx prog (here sc) (here sc + length xs) z m
          (exec_loop (limit s) (\<lambda>ctx. Inr True) (exec_option run) s))"
    using 1 by (intro exI [of _ ?sc'] exI [of _ ?code]) (simp add: compile_forever_def)
qed

end
