(* ===== verification/Engine_Case.thy ===== *)
theory Engine_Case
  imports Engine_Flow
begin

text \<open>
  Case statements on the two engines. The compiler emits all tests, then all bodies, and fills in the
  jumps at the end; \<open>fillable\<close> describes such code by the code with its jumps set, and the compiled
  tests and bodies by what they do then.
\<close>

section \<open>Tests\<close>

text \<open>
  The code of tests whose jumps are filled in later: \<open>code addr\<close> is the code with the jumps of item \<open>i\<close>
  set to \<open>addr i\<close>; what the compiler emits is \<open>code (\<lambda>_. 0)\<close>.
\<close>

definition set_jumps :: "opcode \<Rightarrow> (nat \<times> nat) list \<Rightarrow> (nat \<Rightarrow> nat) \<Rightarrow> program \<Rightarrow> program" where
  "set_jumps op jumps addr p = fold (\<lambda>(i, idx) p. p[idx := instr op (int (addr i))]) jumps p"

definition fillable :: "opcode \<Rightarrow> nat \<Rightarrow> (nat \<times> nat) list \<Rightarrow> ((nat \<Rightarrow> nat) \<Rightarrow> program) \<Rightarrow> bool" where
  "fillable op a jumps f \<longleftrightarrow> (\<forall>addr. length (f addr) = length (f (\<lambda>_. 0))) \<and>
     (\<forall>addr pre post. length pre = a \<longrightarrow>
        set_jumps op jumps addr (pre @ f (\<lambda>_. 0) @ post) = pre @ f addr @ post)"

lemma fillable_length: "fillable op a jumps f \<Longrightarrow> length (f addr) = length (f (\<lambda>_. 0))"
  unfolding fillable_def by blast

lemma fillable_Nil [simp]: "fillable op a [] (\<lambda>_. xs)"
  by (simp add: fillable_def set_jumps_def)

lemma fillable_one:
  "idx = a + length xs \<Longrightarrow> fillable op a [(i, idx)] (\<lambda>addr. xs @ [instr op (int (addr i))])"
  by (simp add: fillable_def set_jumps_def list_update_append)

lemma fillable_append:
  assumes "fillable op a j1 f" "fillable op b j2 g" "b = a + length (f (\<lambda>_. 0))"
  shows "fillable op a (j1 @ j2) (\<lambda>addr. f addr @ g addr)"
proof -
  have "set_jumps op (j1 @ j2) addr (pre @ (f (\<lambda>_. 0) @ g (\<lambda>_. 0)) @ post) = pre @ (f addr @ g addr) @ post"
    if "length pre = a" for addr pre post
  proof -
    have "set_jumps op j1 addr (pre @ f (\<lambda>_. 0) @ (g (\<lambda>_. 0) @ post)) = pre @ f addr @ g (\<lambda>_. 0) @ post"
      using assms(1) that unfolding fillable_def by blast
    moreover have "length (pre @ f addr) = b" using assms(1,3) that fillable_length [OF assms(1), of addr] by simp
    then have "set_jumps op j2 addr ((pre @ f addr) @ g (\<lambda>_. 0) @ post) = (pre @ f addr) @ g addr @ post"
      using assms(2) unfolding fillable_def by blast
    ultimately show ?thesis by (simp add: set_jumps_def)
  qed
  moreover have "length (f addr @ g addr) = length (f (\<lambda>_. 0) @ g (\<lambda>_. 0))" for addr
    using fillable_length [OF assms(1), of addr] fillable_length [OF assms(2), of addr] by simp
  ultimately show ?thesis unfolding fillable_def by blast
qed

type_synonym test_compiler = "stmt_comp \<Rightarrow> ((nat \<times> nat) list \<times> stmt_comp) res"

definition test_code ::
    "comp_env \<Rightarrow> eval_ctx \<Rightarrow> test_compiler \<Rightarrow> (eval_ctx \<Rightarrow> val4 \<Rightarrow> nat option res) \<Rightarrow> bool" where
  "test_code ce ctx cf hit \<longleftrightarrow> (\<forall>sc. \<exists>jumps sc' f. cf sc = Inr (jumps, sc') \<and>
     code_of sc' = code_of sc @ f (\<lambda>_. 0) \<and> prefix (pool_of sc) (pool_of sc') \<and>
     fillable JUMP_IF_NONZERO (here sc) jumps f \<and>
     (\<forall>s m z prog addr v. related ce ctx s m \<longrightarrow> piece prog (here sc) (f addr) \<longrightarrow>
        prefix (pool_of sc') (const_pool m) \<longrightarrow>
        (\<exists>r. hit (es_ctx s) v = Inr r \<and> lands prog (here sc) (v # z) m 0
               (case r of Some i \<Rightarrow> addr i | None \<Rightarrow> here sc + length (f addr)) (v # z) m)))"

definition also_tests :: "test_compiler \<Rightarrow> test_compiler \<Rightarrow> test_compiler" where
  "also_tests c1 c2 sc = rbind (c1 sc) (\<lambda>(j1, sc1). rmap (\<lambda>(j2, sc2). (j1 @ j2, sc2)) (c2 sc1))"

definition first_hit :: "nat option res \<Rightarrow> nat option res \<Rightarrow> nat option res" where
  "first_hit a b = rbind a (\<lambda>r. case r of Some i \<Rightarrow> Inr (Some i) | None \<Rightarrow> b)"

lemma test_codeE:
  assumes "test_code ce ctx cf hit"
  obtains jumps sc' f where "cf sc = Inr (jumps, sc')" "code_of sc' = code_of sc @ f (\<lambda>_. 0)"
    "prefix (pool_of sc) (pool_of sc')" "fillable JUMP_IF_NONZERO (here sc) jumps f"
    "\<And>s m z prog addr v. related ce ctx s m \<Longrightarrow> piece prog (here sc) (f addr) \<Longrightarrow>
        prefix (pool_of sc') (const_pool m) \<Longrightarrow>
        \<exists>r. hit (es_ctx s) v = Inr r \<and> lands prog (here sc) (v # z) m 0
               (case r of Some i \<Rightarrow> addr i | None \<Rightarrow> here sc + length (f addr)) (v # z) m"
  using assms unfolding test_code_def by meson

lemma test_code_none: "test_code ce ctx (\<lambda>sc. Inr ([], sc)) (\<lambda>ctx v. Inr None)"
  unfolding test_code_def by (auto intro!: exI [of _ "\<lambda>_. []"])

lemma test_code_also:
  assumes 1: "test_code ce ctx c1 h1" and 2: "test_code ce ctx c2 h2"
  shows "test_code ce ctx (also_tests c1 c2) (\<lambda>ctx v. first_hit (h1 ctx v) (h2 ctx v))"
  unfolding test_code_def
proof
  fix sc :: stmt_comp
  obtain j1 sc1 f where f: "c1 sc = Inr (j1, sc1)" "code_of sc1 = code_of sc @ f (\<lambda>_. 0)"
    "prefix (pool_of sc) (pool_of sc1)" "fillable JUMP_IF_NONZERO (here sc) j1 f"
    and run1: "\<And>s m z prog addr v. related ce ctx s m \<Longrightarrow> piece prog (here sc) (f addr) \<Longrightarrow>
        prefix (pool_of sc1) (const_pool m) \<Longrightarrow>
        \<exists>r. h1 (es_ctx s) v = Inr r \<and> lands prog (here sc) (v # z) m 0
               (case r of Some i \<Rightarrow> addr i | None \<Rightarrow> here sc + length (f addr)) (v # z) m"
    using test_codeE [OF 1, where sc = sc] by metis
  obtain j2 sc2 g where g: "c2 sc1 = Inr (j2, sc2)" "code_of sc2 = code_of sc1 @ g (\<lambda>_. 0)"
    "prefix (pool_of sc1) (pool_of sc2)" "fillable JUMP_IF_NONZERO (here sc1) j2 g"
    and run2: "\<And>s m z prog addr v. related ce ctx s m \<Longrightarrow> piece prog (here sc1) (g addr) \<Longrightarrow>
        prefix (pool_of sc2) (const_pool m) \<Longrightarrow>
        \<exists>r. h2 (es_ctx s) v = Inr r \<and> lands prog (here sc1) (v # z) m 0
               (case r of Some i \<Rightarrow> addr i | None \<Rightarrow> here sc1 + length (g addr)) (v # z) m"
    using test_codeE [OF 2, where sc = sc1] by metis
  have h: "here sc1 = here sc + length (f addr)" for addr
    using here_append [OF f(2)] fillable_length [OF f(4), of addr] by simp
  have "\<exists>r. first_hit (h1 (es_ctx s) v) (h2 (es_ctx s) v) = Inr r \<and> lands prog (here sc) (v # z) m 0
           (case r of Some i \<Rightarrow> addr i | None \<Rightarrow> here sc + length (f addr @ g addr)) (v # z) m"
    if rel: "related ce ctx s m" and prog: "piece prog (here sc) (f addr @ g addr)"
      and pool: "prefix (pool_of sc2) (const_pool m)" for s m z prog addr v
  proof -
    have "prefix (pool_of sc1) (const_pool m)" using g(3) pool prefix_order.trans by blast
    then obtain r where r: "h1 (es_ctx s) v = Inr r" "lands prog (here sc) (v # z) m 0
               (case r of Some i \<Rightarrow> addr i | None \<Rightarrow> here sc + length (f addr)) (v # z) m"
      using run1 [OF rel, of prog addr v z] prog by auto
    obtain q where q: "h2 (es_ctx s) v = Inr q" "lands prog (here sc1) (v # z) m 0
               (case q of Some i \<Rightarrow> addr i | None \<Rightarrow> here sc1 + length (g addr)) (v # z) m"
      using run2 [OF rel _ pool, of prog addr v z] prog h [of addr] by auto
    show ?thesis
    proof (cases r)
      case None
      then have "lands prog (here sc) (v # z) m 0
          (case q of Some i \<Rightarrow> addr i | None \<Rightarrow> here sc + length (f addr @ g addr)) (v # z) m"
        using lands_trans [of prog "here sc" "v # z" m 0 "here sc1" "v # z" m] r(2) q(2) h [of addr]
        by (cases q) (simp_all add: add.assoc)
      then show ?thesis using r(1) q(1) None by (simp add: first_hit_def)
    qed (use r in \<open>simp add: first_hit_def\<close>)
  qed
  moreover have "fillable JUMP_IF_NONZERO (here sc) (j1 @ j2) (\<lambda>addr. f addr @ g addr)"
    using fillable_append [OF f(4) g(4)] h by blast
  moreover have "also_tests c1 c2 sc = Inr (j1 @ j2, sc2)" using f(1) g(1) by (simp add: also_tests_def)
  moreover have "code_of sc2 = code_of sc @ (f (\<lambda>_. 0) @ g (\<lambda>_. 0))" using f(2) g(2) by simp
  ultimately show "\<exists>jumps sc' f. also_tests c1 c2 sc = Inr (jumps, sc') \<and>
     code_of sc' = code_of sc @ f (\<lambda>_. 0) \<and> prefix (pool_of sc) (pool_of sc') \<and>
     fillable JUMP_IF_NONZERO (here sc) jumps f \<and>
     (\<forall>s m z prog addr v. related ce ctx s m \<longrightarrow> piece prog (here sc) (f addr) \<longrightarrow>
        prefix (pool_of sc') (const_pool m) \<longrightarrow>
        (\<exists>r. first_hit (h1 (es_ctx s) v) (h2 (es_ctx s) v) = Inr r \<and> lands prog (here sc) (v # z) m 0
               (case r of Some i \<Rightarrow> addr i | None \<Rightarrow> here sc + length (f addr)) (v # z) m))"
    using prefix_order.trans [OF f(3) g(3)]
    by (intro exI [of _ "j1 @ j2"] exI [of _ sc2] exI [of _ "\<lambda>addr. f addr @ g addr"]) blast
qed

text \<open>One value: the comparison of the selector and the jump.\<close>

definition case_kind :: "string \<Rightarrow> bool" where
  "case_kind ct \<longleftrightarrow> ct \<in> {''case'', ''casex'', ''casez''}"

lemma truthy_bool_val [simp]: "truthy (bool_val b) = b"
  by (simp add: truthy_def bool_val_def known_val width_mask_def del: One_nat_def)

lemma xor_zero: "(a XOR b = 0) = (a = (b::int))"
  by (auto intro: bit_eqI simp: bit_eq_iff bit_simps)

lemma truthy_compare:
  assumes "case_kind ct"
  shows "\<exists>u. value_op m (instr (case_opcode ct) 0) (b # a # z) = Some (Inr (u # z)) \<and> truthy u = case_match ct a b"
proof (cases "ct = ''case''")
  case True
  have "truthy (eq4 a b) \<longleftrightarrow> v_mask a = 0 \<and> v_mask b = 0 \<and> v_val a = v_val b"
  proof -
    have "\<not> truthy (v_x 1)" by (simp add: truthy_def)
    then show ?thesis by (auto simp: eq4_def v_cmp_def Let_def)
  qed
  then show ?thesis using True
    by (simp add: case_opcode_def case_match_def value_op_def instr_def binary_fun_def)
next
  case False
  have "truthy (vm_casex a b) \<longleftrightarrow>
      v_val a AND NOT (v_mask a OR v_mask b) = v_val b AND NOT (v_mask a OR v_mask b)"
  proof -
    have "(v_val a XOR v_val b) AND NOT (v_mask a OR v_mask b)
        = (v_val a AND NOT (v_mask a OR v_mask b)) XOR (v_val b AND NOT (v_mask a OR v_mask b))"
      by (rule bit_eqI) (auto simp: bit_simps)
    then show ?thesis by (simp add: vm_casex_def Let_def xor_zero)
  qed
  then show ?thesis using False assms
    by (auto simp: case_kind_def case_opcode_def case_match_def value_op_def instr_def binary_fun_def Let_def)
qed

definition compile_value :: "comp_env \<Rightarrow> string \<Rightarrow> nat \<Rightarrow> expr \<Rightarrow> test_compiler" where
  "compile_value ce ct i e sc =
     rmap (\<lambda>sc1. (let sc2 = emit_in (case_opcode ct) 0 sc1 in ([(i, here sc2)], emit_in JUMP_IF_NONZERO 0 sc2)))
       (on_code (compile_expr ce e 0 None) (emit_in DUP 0 sc))"

lemma compile_values_also:
  "compile_values ce ct i (e # es) = also_tests (compile_value ce ct i e) (compile_values ce ct i es)"
  by (rule ext) (auto simp: also_tests_def compile_value_def rbind_def rmap_def Let_def split: sum.splits prod.splits)

lemma test_code_value:
  assumes ex: "related ce ctx s0 m0" and e: "agree_expr ctx e" and ct: "case_kind ct"
  shows "test_code ce ctx (compile_value ce ct i e)
     (\<lambda>ctx v. rmap (\<lambda>u. if case_match ct v u then Some i else None) (eval ctx e 0 None))"
  unfolding test_code_def
proof
  fix sc :: stmt_comp
  let ?sc = "emit_in DUP 0 sc"
  obtain st xs where st: "compile_expr ce e 0 None (sc_code ?sc) = Inr st" "cs_prog st = code_of ?sc @ xs"
    "prefix (pool_of ?sc) (cs_pool st)"
    and run: "\<And>s m z prog. related ce ctx s m \<Longrightarrow> piece prog (here ?sc) xs \<Longrightarrow> prefix (cs_pool st) (const_pool m) \<Longrightarrow>
       \<exists>v. eval (es_ctx s) e 0 None = Inr v \<and> wf_val v \<and> lands prog (here ?sc) z m 0 (here ?sc + length xs) (v # z) m"
    using own_value_code [OF ex e, of 0 "sc_code ?sc"] unfolding here_code by blast
  let ?sc1 = "?sc\<lparr>sc_code := st\<rparr>"
  let ?f = "\<lambda>addr. (instr DUP 0 # xs @ [instr (case_opcode ct) 0]) @ [instr JUMP_IF_NONZERO (int (addr i))]"
  let ?jumps = "[(i, here (emit_in (case_opcode ct) 0 ?sc1))]"
  let ?sc' = "emit_in JUMP_IF_NONZERO 0 (emit_in (case_opcode ct) 0 ?sc1)"
  have h: "here ?sc1 = Suc (here sc) + length xs" using st(2) by (simp add: here_code emit_in_def emit_def)
  have "compile_value ce ct i e sc = Inr (?jumps, ?sc')"
    using st(1) by (simp add: compile_value_def on_code_def)
  moreover have "code_of ?sc' = code_of sc @ ?f (\<lambda>_. 0)" using st(2) by (simp add: emit_in_def emit_def)
  moreover have "prefix (pool_of sc) (pool_of ?sc')" using st(3) by (simp add: emit_in_def emit_def)
  moreover have "fillable JUMP_IF_NONZERO (here sc) ?jumps ?f"
    by (rule fillable_one) (simp add: h)
  moreover have "\<exists>r. rmap (\<lambda>u. if case_match ct v u then Some i else None) (eval (es_ctx s) e 0 None) = Inr r \<and>
      lands prog (here sc) (v # z) m 0 (case r of Some i \<Rightarrow> addr i | None \<Rightarrow> here sc + length (?f addr)) (v # z) m"
    if rel: "related ce ctx s m" and prog: "piece prog (here sc) (?f addr)" and pool: "prefix (pool_of ?sc') (const_pool m)"
    for s m z prog addr v
  proof -
    have 1: "lands prog (here sc) (v # z) m 0 (Suc (here sc)) (v # v # z) m"
      by (rule lands_value) (use prog in \<open>simp_all add: value_op_def instr_def\<close>)
    have "prefix (cs_pool st) (const_pool m)" using pool by (simp add: emit_in_def emit_def)
    then obtain u where u: "eval (es_ctx s) e 0 None = Inr u"
      "lands prog (Suc (here sc)) (v # v # z) m 0 (here ?sc1) (u # v # v # z) m"
      using run [OF rel, of prog "v # v # z"] prog h by auto
    obtain t where t: "value_op m (instr (case_opcode ct) 0) (u # v # v # z) = Some (Inr (t # v # z))"
      "truthy t = case_match ct v u"
      using truthy_compare [OF ct, of m u v "v # z"] by blast
    have 3: "lands prog (here ?sc1) (u # v # v # z) m 0 (Suc (here ?sc1)) (t # v # z) m"
      by (rule lands_value) (use prog h t(1) in simp_all)
    have 4: "lands prog (Suc (here ?sc1)) (t # v # z) m 0
        (if truthy t then addr i else Suc (Suc (here ?sc1))) (v # z) m"
      by (rule lands_nonzero) (use prog h in simp_all)
    have "lands prog (here sc) (v # z) m 0 (if truthy t then addr i else Suc (Suc (here ?sc1))) (v # z) m"
      using lands_trans [OF 1 lands_trans [OF u(2) lands_trans [OF 3 4]]] by simp
    then show ?thesis using u(1) t(2) h by (auto split: if_splits)
  qed
  ultimately show "\<exists>jumps sc' f. compile_value ce ct i e sc = Inr (jumps, sc') \<and>
     code_of sc' = code_of sc @ f (\<lambda>_. 0) \<and> prefix (pool_of sc) (pool_of sc') \<and>
     fillable JUMP_IF_NONZERO (here sc) jumps f \<and>
     (\<forall>s m z prog addr v. related ce ctx s m \<longrightarrow> piece prog (here sc) (f addr) \<longrightarrow>
        prefix (pool_of sc') (const_pool m) \<longrightarrow>
        (\<exists>r. rmap (\<lambda>u. if case_match ct v u then Some i else None) (eval (es_ctx s) e 0 None) = Inr r \<and>
           lands prog (here sc) (v # z) m 0
               (case r of Some i \<Rightarrow> addr i | None \<Rightarrow> here sc + length (f addr)) (v # z) m))"
    by (intro exI [of _ ?jumps] exI [of _ ?sc'] exI [of _ ?f]) blast
qed

definition value_hit :: "string \<Rightarrow> nat \<Rightarrow> expr list \<Rightarrow> eval_ctx \<Rightarrow> val4 \<Rightarrow> nat option res" where
  "value_hit ct i es ctx v = rmap (\<lambda>b. if b then Some i else None) (matches_any ctx ct v es)"

lemma test_code_values:
  assumes ex: "related ce ctx s0 m0" and ct: "case_kind ct"
  shows "list_all (agree_expr ctx) es \<Longrightarrow> test_code ce ctx (compile_values ce ct i es) (value_hit ct i es)"
proof (induction es)
  case Nil
  have "compile_values ce ct i [] = (\<lambda>sc. Inr ([], sc))" "value_hit ct i [] = (\<lambda>ctx v. Inr None)"
    by (simp_all add: fun_eq_iff value_hit_def)
  then show ?case using test_code_none by simp
next
  case (Cons e es)
  have "value_hit ct i (e # es) = (\<lambda>ctx v. first_hit
      (rmap (\<lambda>u. if case_match ct v u then Some i else None) (eval ctx e 0 None)) (value_hit ct i es ctx v))"
    by (intro ext) (simp add: value_hit_def first_hit_def rbind_def rmap_def split: sum.split)
  then show ?case
    using test_code_also [OF test_code_value [OF ex _ ct, of e i]] Cons by (simp add: compile_values_also)
qed

fun item_hit :: "string \<Rightarrow> nat \<Rightarrow> (expr list \<times> 'a \<times> bool) list \<Rightarrow> eval_ctx \<Rightarrow> val4 \<Rightarrow> nat option res" where
  "item_hit ct i [] ctx v = Inr None"
| "item_hit ct i ((vals, body, is_default) # items) ctx v =
     (if is_default then item_hit ct (Suc i) items ctx v
      else first_hit (value_hit ct i vals ctx v) (item_hit ct (Suc i) items ctx v))"

lemma test_code_items:
  assumes ex: "related ce ctx s0 m0" and ct: "case_kind ct"
  shows "list_all (\<lambda>(vals, _, _). list_all (agree_expr ctx) vals) items \<Longrightarrow>
     test_code ce ctx (compile_tests ce ct i items) (item_hit ct i items)"
proof (induction items arbitrary: i)
  case Nil
  have "compile_tests ce ct i [] = (\<lambda>sc. Inr ([], sc))" "item_hit ct i [] = (\<lambda>ctx v. Inr None)"
    by (simp_all add: fun_eq_iff)
  then show ?case using test_code_none by simp
next
  case (Cons item items)
  obtain vals body d where item: "item = (vals, body, d)" by (cases item)
  have "test_code ce ctx (also_tests (compile_values ce ct i vals) (compile_tests ce ct (Suc i) items))
      (\<lambda>ctx v. first_hit (value_hit ct i vals ctx v) (item_hit ct (Suc i) items ctx v))"
    by (rule test_code_also [OF test_code_values [OF ex ct] Cons.IH]) (use Cons.prems item in auto)
  moreover have "compile_tests ce ct i (item # items) =
      (if d then compile_tests ce ct (Suc i) items
       else also_tests (compile_values ce ct i vals) (compile_tests ce ct (Suc i) items))"
    by (intro ext) (simp add: item also_tests_def)
  moreover have "item_hit ct i (item # items) = (if d then item_hit ct (Suc i) items
      else (\<lambda>ctx v. first_hit (value_hit ct i vals ctx v) (item_hit ct (Suc i) items ctx v)))"
    by (intro ext) (simp add: item)
  ultimately show ?case using Cons by (simp add: item)
qed

section \<open>Bodies\<close>

text \<open>
  The bodies, each after a \<open>POP\<close> of the selector and before a jump to the end. \<open>body_run\<close> says what the
  code at the address of a body does.
\<close>

definition body_run ::
    "comp_env \<Rightarrow> eval_ctx \<Rightarrow> program \<Rightarrow> nat \<Rightarrow> nat \<Rightarrow> (exec_state \<Rightarrow> exec_result) option \<Rightarrow> machine \<Rightarrow> bool" where
  "body_run ce ctx prog a stop run m \<longleftrightarrow> (\<forall>s v z. related ce ctx s m \<longrightarrow>
     follows ce ctx prog (Suc a) stop z m (exec_option run s) \<and> lands prog a (v # z) m 0 (Suc a) z m)"

definition bodies_code ::
    "comp_env \<Rightarrow> eval_ctx \<Rightarrow> case_code list \<Rightarrow> (exec_state \<Rightarrow> exec_result) option list \<Rightarrow> bool" where
  "bodies_code ce ctx items execs \<longleftrightarrow> (\<forall>sc. \<exists>addrs ends sc' g. compile_bodies items sc = Inr (addrs, ends, sc') \<and>
     length addrs = length items \<and> (\<forall>i < length items. here sc \<le> addrs ! i) \<and>
     code_of sc' = code_of sc @ g (\<lambda>_. 0) \<and> prefix (pool_of sc) (pool_of sc') \<and>
     fillable JUMP (here sc) (map (Pair 0) ends) g \<and>
     (\<forall>m prog stop. piece prog (here sc) (g (\<lambda>_. stop)) \<longrightarrow> prefix (pool_of sc') (const_pool m) \<longrightarrow>
        here sc + length (g (\<lambda>_. stop)) \<le> stop \<longrightarrow>
        (\<forall>i < length items. body_run ce ctx prog (addrs ! i) stop (execs ! i) m)))"

lemma bodies_code:
  "list_all2 (\<lambda>(_, body, _) run. simulated ce ctx (compile_option body) (exec_option run)) items execs \<Longrightarrow>
     bodies_code ce ctx items execs"
proof (induction rule: list_all2_induct)
  case Nil
  then show ?case unfolding bodies_code_def by (auto intro!: exI [of _ "\<lambda>_. []"])
next
  case (Cons item items run execs)
  obtain vals body d where item: "item = (vals, body, d)" by (cases item)
  have sim: "simulated ce ctx (compile_option body) (exec_option run)" using Cons.hyps(1) item by simp
  show ?case unfolding bodies_code_def
  proof
    fix sc :: stmt_comp
    let ?sc = "emit_in POP 0 sc"
    obtain sc1 xs where 1: "compile_option body ?sc = Inr sc1" "code_of sc1 = code_of ?sc @ xs"
      "prefix (pool_of ?sc) (pool_of sc1)"
      and exec: "\<And>s m z prog. related ce ctx s m \<Longrightarrow> piece prog (here ?sc) xs \<Longrightarrow> prefix (pool_of sc1) (const_pool m) \<Longrightarrow>
         follows ce ctx prog (here ?sc) (here ?sc + length xs) z m (exec_option run s)"
      using simulatedE [OF sim, where sc = ?sc] by blast
    let ?sc1 = "emit_in JUMP 0 sc1"
    from Cons.IH [unfolded bodies_code_def, THEN spec, of ?sc1]
    obtain addrs ends sc2 g where 2: "compile_bodies items ?sc1 = Inr (addrs, ends, sc2)"
      "length addrs = length items" "\<forall>i < length items. here ?sc1 \<le> addrs ! i"
      "code_of sc2 = code_of ?sc1 @ g (\<lambda>_. 0)" "prefix (pool_of ?sc1) (pool_of sc2)"
      "fillable JUMP (here ?sc1) (map (Pair 0) ends) g"
      and rest: "\<forall>m prog stop. piece prog (here ?sc1) (g (\<lambda>_. stop)) \<longrightarrow> prefix (pool_of sc2) (const_pool m) \<longrightarrow>
        here ?sc1 + length (g (\<lambda>_. stop)) \<le> stop \<longrightarrow>
        (\<forall>i < length items. body_run ce ctx prog (addrs ! i) stop (execs ! i) m)"
      by (elim exE conjE) iprover
    let ?f = "\<lambda>addr. (instr POP 0 # xs) @ [instr JUMP (int (addr (0::nat)))]"
    let ?g = "\<lambda>addr. ?f addr @ g addr"
    have h: "here sc1 = Suc (here sc) + length xs" using here_append [OF 1(2)] by simp
    have "compile_bodies (item # items) sc = Inr (here sc # addrs, here sc1 # ends, sc2)"
      using 1(1) 2(1) by (simp add: item)
    moreover have "\<forall>i < length (item # items). here sc \<le> (here sc # addrs) ! i"
      using 2(3) h by (fastforce simp: nth_Cons split: nat.split)
    moreover have "code_of sc2 = code_of sc @ ?g (\<lambda>_. 0)" using 1(2) 2(4) by simp
    moreover have "prefix (pool_of sc) (pool_of sc2)" using 1(3) 2(5) prefix_order.trans by auto
    moreover have "fillable JUMP (here sc) (map (Pair 0) (here sc1 # ends)) ?g"
    proof -
      have "fillable JUMP (here sc) [(0, here sc1)] ?f" by (rule fillable_one) (simp add: h)
      from fillable_append [OF this 2(6)] show ?thesis using h by simp
    qed
    moreover have "body_run ce ctx prog ((here sc # addrs) ! i) stop ((run # execs) ! i) m"
      if prog: "piece prog (here sc) (?g (\<lambda>_. stop))" and pool: "prefix (pool_of sc2) (const_pool m)"
        and stop: "here sc + length (?g (\<lambda>_. stop)) \<le> stop" and i: "i < length (item # items)" for m prog stop i
    proof (cases i)
      case 0
      have p1: "prefix (pool_of sc1) (const_pool m)" using 2(5) pool prefix_order.trans by auto
      have "follows ce ctx prog (Suc (here sc)) stop z m (exec_option run s)" if rel: "related ce ctx s m" for s z
      proof -
        have "follows ce ctx prog (Suc (here sc)) (here sc1) z m (exec_option run s)"
          using exec [OF rel _ p1, of prog z] prog h by simp
        then show ?thesis
          by (rule follows_lands) (rule lands_forward, use prog stop h in simp_all)
      qed
      moreover have "lands prog (here sc) (v # z) m 0 (Suc (here sc)) z m" for v z
        by (rule lands_value) (use prog in \<open>simp_all add: value_op_def instr_def\<close>)
      ultimately show ?thesis using 0 by (simp add: body_run_def)
    next
      case (Suc j)
      have "piece prog (here ?sc1) (g (\<lambda>_. stop))" "here ?sc1 + length (g (\<lambda>_. stop)) \<le> stop" "j < length items"
        using prog stop h i Suc by simp_all
      then show ?thesis using rest pool Suc by simp
    qed
    ultimately show "\<exists>addrs ends sc' g. compile_bodies (item # items) sc = Inr (addrs, ends, sc') \<and>
     length addrs = length (item # items) \<and> (\<forall>i < length (item # items). here sc \<le> addrs ! i) \<and>
     code_of sc' = code_of sc @ g (\<lambda>_. 0) \<and> prefix (pool_of sc) (pool_of sc') \<and>
     fillable JUMP (here sc) (map (Pair 0) ends) g \<and>
     (\<forall>m prog stop. piece prog (here sc) (g (\<lambda>_. stop)) \<longrightarrow> prefix (pool_of sc') (const_pool m) \<longrightarrow>
        here sc + length (g (\<lambda>_. stop)) \<le> stop \<longrightarrow>
        (\<forall>i < length (item # items). body_run ce ctx prog (addrs ! i) stop ((run # execs) ! i) m))"
      using 2(2) by (intro exI [of _ "here sc # addrs"] exI [of _ "here sc1 # ends"] exI [of _ sc2] exI [of _ ?g]) simp
  qed
qed

section \<open>The item that is taken\<close>

text \<open>A default stands last, if there is one.\<close>

fun default_last :: "(expr list \<times> 'a \<times> bool) list \<Rightarrow> bool" where
  "default_last [] = True"
| "default_last [_] = True"
| "default_last ((_, _, is_default) # items) = (\<not> is_default \<and> default_last items)"

lemma first_hit_cases:
  "first_hit a b = Inr r \<longleftrightarrow> (\<exists>q. a = Inr q \<and> (case q of Some i \<Rightarrow> r = Some i | None \<Rightarrow> b = Inr r))"
  by (cases a) (auto simp: first_hit_def split: option.split)

lemma value_hit_Some: "value_hit ct i vals ctx v = Inr (Some j) \<Longrightarrow> j = i"
  by (auto simp: value_hit_def rmap_eq_Inr_iff split: if_splits)

lemma item_hit_bound:
  "item_hit ct i items ctx v = Inr (Some j) \<Longrightarrow> i \<le> j \<and> j < i + length items"
proof (induction items arbitrary: i)
  case (Cons item items)
  obtain vals body d where item: "item = (vals, body, d)" by (cases item)
  have IH: "Suc i \<le> j \<and> j < Suc i + length items" if "item_hit ct (Suc i) items ctx v = Inr (Some j)"
    using Cons.IH [OF that] .
  show ?case
    using Cons.prems IH value_hit_Some [of ct i vals ctx v]
    by (fastforce simp: item first_hit_cases split: if_splits option.splits)
qed simp

definition default_index :: "nat \<Rightarrow> (expr list \<times> 'a \<times> bool) list \<Rightarrow> nat option" where
  "default_index i items = (if items \<noteq> [] \<and> snd (snd (last items)) then Some (i + length items - 1) else None)"

lemma last_default_index: "default_last items \<Longrightarrow> last_default i items = default_index i items"
proof (induction items arbitrary: i rule: default_last.induct)
  case (2 x)
  then show ?case by (cases x) (simp add: default_index_def)
next
  case (3 vals body d y items)
  have "last_default (Suc i) (y # items) = default_index (Suc i) (y # items)" using 3 by simp
  then show ?case using 3(2) by (simp add: default_index_def split: option.split)
qed (simp add: default_index_def)

definition chosen :: "nat \<Rightarrow> (expr list \<times> 'a option \<times> bool) list \<Rightarrow> nat option \<Rightarrow> 'a option" where
  "chosen i items r = (case r of Some j \<Rightarrow> fst (snd (items ! (j - i))) | None \<Rightarrow> None)"

lemma chosen_Cons:
  "(\<And>j. r = Some j \<Longrightarrow> Suc i \<le> j) \<Longrightarrow> chosen i (x # items) r = chosen (Suc i) items r"
  by (cases r) (auto simp: chosen_def nth_Cons' Suc_diff_le)

lemma select_item_hit:
  "default_last items \<Longrightarrow> item_hit ct i items ctx v = Inr r \<Longrightarrow>
     select_item ctx ct v items = Inr (chosen i items (if r = None then default_index i items else r))"
proof (induction items arbitrary: i r rule: default_last.induct)
  case 1
  then show ?case by (simp add: chosen_def default_index_def)
next
  case (2 x)
  obtain vals body d where x: "x = (vals, body, d)" by (cases x)
  show ?case
  proof (cases d)
    case True
    then show ?thesis using 2 x by (auto simp: chosen_def default_index_def)
  next
    case False
    then obtain b where b: "matches_any ctx ct v vals = Inr b" "r = (if b then Some i else None)"
      using 2(2) x by (auto simp: first_hit_cases value_hit_def rmap_eq_Inr_iff split: if_splits)
    then show ?thesis using False x by (simp add: chosen_def default_index_def)
  qed
next
  case (3 vals body d y items)
  have d: "\<not> d" "default_last (y # items)" using 3(2) by simp_all
  obtain q where q: "value_hit ct i vals ctx v = Inr q"
    "case q of Some j \<Rightarrow> r = Some j | None \<Rightarrow> item_hit ct (Suc i) (y # items) ctx v = Inr r"
    using 3(3) d(1) by (auto simp: first_hit_cases)
  obtain b where b: "matches_any ctx ct v vals = Inr b" "q = (if b then Some i else None)"
    using q(1) by (auto simp: value_hit_def rmap_eq_Inr_iff)
  show ?case
  proof (cases b)
    case True
    then show ?thesis using b q(2) d(1) by (simp add: chosen_def)
  next
    case False
    let ?r = "if r = None then default_index (Suc i) (y # items) else r"
    have hit: "item_hit ct (Suc i) (y # items) ctx v = Inr r" using False b q(2) by simp
    have "select_item ctx ct v (y # items) = Inr (chosen (Suc i) (y # items) ?r)"
      by (rule 3(1) [OF d(2) hit])
    moreover have "chosen i ((vals, body, d) # y # items) ?r = chosen (Suc i) (y # items) ?r"
      by (rule chosen_Cons) (use item_hit_bound [of ct "Suc i" "y # items" ctx v] hit in \<open>force simp: default_index_def split: if_splits\<close>)
    moreover have "default_index i ((vals, body, d) # y # items) = default_index (Suc i) (y # items)"
      by (simp add: default_index_def)
    moreover have "select_item ctx ct v ((vals, body, d) # y # items) = select_item ctx ct v (y # items)"
      using b False d(1) by simp
    ultimately show ?thesis by (simp only:)
  qed
qed

lemma item_hit_map:
  "list_all2 (\<lambda>(v1, _, d1) (v2, _, d2). v1 = v2 \<and> d1 = d2) xs ys \<Longrightarrow> item_hit ct i xs = item_hit ct i ys"
proof (induction arbitrary: i rule: list_all2_induct)
  case Nil
  then show ?case by (simp add: fun_eq_iff)
next
  case (Cons x xs y ys)
  have "item_hit ct (Suc i) xs = item_hit ct (Suc i) ys" by (rule Cons.IH)
  then show ?case using Cons.hyps by (auto simp: fun_eq_iff split: prod.splits)
qed

lemma default_index_map:
  assumes "list_all2 (\<lambda>(v1, _, d1) (v2, _, d2). v1 = v2 \<and> d1 = d2) xs ys"
  shows "default_index i xs = default_index i ys" "default_last xs = default_last ys"
proof -
  have len: "xs = [] \<longleftrightarrow> ys = []" "length xs = length ys" using assms by (auto dest: list_all2_lengthD)
  have "snd (snd (last xs)) = snd (snd (last ys))" if "xs \<noteq> []"
    using list_all2_nthD [OF assms, of "length xs - 1"] that len
    by (auto simp: last_conv_nth split: prod.splits)
  then show "default_index i xs = default_index i ys" using len by (cases "xs = []") (simp_all add: default_index_def)
  show "default_last xs = default_last ys"
    using assms
  proof (induction rule: list_all2_induct)
    case (Cons x xs y ys)
    then show ?case by (cases xs; cases ys; cases x; cases y) auto
  qed simp
qed

section \<open>The code of a case statement\<close>

lemma fold_patch:
  "code_of (fold (\<lambda>(i, idx). patch_in idx op (addr i)) jumps sc) = set_jumps op jumps addr (code_of sc)"
  "pool_of (fold (\<lambda>(i, idx). patch_in idx op (addr i)) jumps sc) = pool_of sc"
proof (induction jumps arbitrary: sc)
  case (Cons j jumps)
  obtain i idx where j: "j = (i, idx)" by (cases j)
  { case 1 then show ?case using Cons.IH(1) [of "patch_in idx op (addr i) sc"] j
      by (simp add: set_jumps_def patch_in_def patch_to_def) }
  { case 2 then show ?case using Cons.IH(2) [of "patch_in idx op (addr i) sc"] j by simp }
qed (simp_all add: set_jumps_def)

lemma fold_patch_const:
  "fold (\<lambda>idx. patch_in idx op t) ends sc = fold (\<lambda>(i, idx). patch_in idx op ((\<lambda>_. t) i)) (map (Pair (0::nat)) ends) sc"
  by (simp add: fold_map comp_def)

lemma simulated_case:
  assumes ex: "related ce ctx s0 m0" and e: "agree_expr ctx e" and ct: "case_kind ct"
    and items: "list_all2 (\<lambda>(v1, b1, d1) (v2, b2, d2). v1 = v2 \<and> d1 = d2 \<and> list_all (agree_expr ctx) v1
        \<and> simulated ce ctx (compile_option b1) (exec_option b2)) cs es"
    and last: "default_last cs"
  shows "simulated ce ctx (compile_case ce ct e cs) (exec_case ct e es)"
proof (rule simulatedI)
  fix sc :: stmt_comp
  have same: "list_all2 (\<lambda>(v1, _, d1) (v2, _, d2). v1 = v2 \<and> d1 = d2) cs es"
    by (rule list_all2_mono [OF items]) auto
  have len: "length cs = length es" using items by (rule list_all2_lengthD)
  let ?execs = "map (\<lambda>x. fst (snd x)) es"
  obtain st xs where 1: "compile_expr ce e 0 None (sc_code sc) = Inr st" "cs_prog st = code_of sc @ xs"
    "prefix (pool_of sc) (cs_pool st)"
    and sel: "\<And>s m z prog. related ce ctx s m \<Longrightarrow> piece prog (here sc) xs \<Longrightarrow> prefix (cs_pool st) (const_pool m) \<Longrightarrow>
       \<exists>v. eval (es_ctx s) e 0 None = Inr v \<and> wf_val v \<and> lands prog (here sc) z m 0 (here sc + length xs) (v # z) m"
    using own_value_code [OF ex e, of 0 "sc_code sc"] unfolding here_code by blast
  let ?sc1 = "sc\<lparr>sc_code := st\<rparr>"
  have "list_all (\<lambda>(vals, _, _). list_all (agree_expr ctx) vals) cs"
    using items by (induction rule: list_all2_induct) auto
  from test_code_items [OF ex ct this, of 0]
  obtain jumps sc2 f where 2: "compile_tests ce ct 0 cs ?sc1 = Inr (jumps, sc2)" "code_of sc2 = code_of ?sc1 @ f (\<lambda>_. 0)"
    "prefix (pool_of ?sc1) (pool_of sc2)" "fillable JUMP_IF_NONZERO (here ?sc1) jumps f"
    and test: "\<And>s m z prog addr v. related ce ctx s m \<Longrightarrow> piece prog (here ?sc1) (f addr) \<Longrightarrow>
        prefix (pool_of sc2) (const_pool m) \<Longrightarrow>
        \<exists>r. item_hit ct 0 cs (es_ctx s) v = Inr r \<and> lands prog (here ?sc1) (v # z) m 0
               (case r of Some i \<Rightarrow> addr i | None \<Rightarrow> here ?sc1 + length (f addr)) (v # z) m"
    by (rule test_codeE [where sc = ?sc1]) metis
  let ?d = "default_index 0 cs"
  let ?pop = "if ?d = None then [instr POP 0] else []"
  let ?sc3 = "if ?d = None then emit_in POP 0 sc2 else sc2"
  let ?sc3' = "emit_in JUMP 0 ?sc3"
  have "list_all2 (\<lambda>(_, body, _) run. simulated ce ctx (compile_option body) (exec_option run)) cs ?execs"
    using items by (simp add: list_all2_conv_all_nth) (fastforce split: prod.splits)
  from bodies_code [OF this, unfolded bodies_code_def, rule_format, of ?sc3']
  obtain addrs ends sc4 g where 4: "compile_bodies cs ?sc3' = Inr (addrs, ends, sc4)"
    "length addrs = length cs" "\<forall>i < length cs. here ?sc3' \<le> addrs ! i"
    "code_of sc4 = code_of ?sc3' @ g (\<lambda>_. 0)" "prefix (pool_of ?sc3') (pool_of sc4)"
    "fillable JUMP (here ?sc3') (map (Pair 0) ends) g"
    and bodies: "\<forall>m prog stop. piece prog (here ?sc3') (g (\<lambda>_. stop)) \<longrightarrow> prefix (pool_of sc4) (const_pool m) \<longrightarrow>
        here ?sc3' + length (g (\<lambda>_. stop)) \<le> stop \<longrightarrow>
        (\<forall>i < length cs. body_run ce ctx prog (addrs ! i) stop (?execs ! i) m)"
    by meson
  let ?stop = "here sc4" and ?addr = "\<lambda>i. addrs ! i"
  let ?out = "case ?d of Some i \<Rightarrow> addrs ! i | None \<Rightarrow> ?stop"
  let ?code = "xs @ f ?addr @ ?pop @ [instr JUMP (int ?out)] @ g (\<lambda>_. ?stop)"
  have hlen: "length (f ?addr) = length (f (\<lambda>_. 0))" "length (g (\<lambda>_. ?stop)) = length (g (\<lambda>_. 0))"
    using fillable_length [OF 2(4)] fillable_length [OF 4(6)] by blast+
  have h: "here ?sc1 = here sc + length xs" "here sc2 = here ?sc1 + length (f ?addr)"
    "here ?sc3 = here sc2 + length ?pop" "?stop = Suc (here ?sc3) + length (g (\<lambda>_. ?stop))"
    using 1(2) here_append [OF 2(2)] here_append [OF 4(4)] hlen by (simp_all add: here_code)
  let ?sc5 = "fold (\<lambda>(i, idx). patch_in idx JUMP_IF_NONZERO (?addr i)) jumps sc4"
  let ?sc6 = "patch_in (here ?sc3) JUMP ?out ?sc5"
  let ?sc' = "fold (\<lambda>idx. patch_in idx JUMP ?stop) ends ?sc6"
  let ?pre = "code_of sc @ xs @ f ?addr @ ?pop"
  have code4: "code_of sc4 = (code_of sc @ xs) @ f (\<lambda>_. 0) @ (?pop @ [instr JUMP 0] @ g (\<lambda>_. 0))"
    using 1(2) 2(2) 4(4) by simp
  have "length (code_of sc @ xs) = here ?sc1" using 1(2) by (simp add: here_code)
  then have "code_of ?sc5 = (code_of sc @ xs) @ f ?addr @ (?pop @ [instr JUMP 0] @ g (\<lambda>_. 0))"
    using 2(4) unfolding fold_patch(1) code4 fillable_def by blast
  then have code5: "code_of ?sc5 = ?pre @ instr JUMP 0 # g (\<lambda>_. 0)" by simp
  have prelen: "length ?pre = here ?sc3" using h(1-3) by (simp add: here_code)
  have code6: "code_of ?sc6 = (?pre @ [instr JUMP (int ?out)]) @ g (\<lambda>_. 0) @ []"
    using patch_in_code [OF code5 prelen] by simp
  have "length (?pre @ [instr JUMP (int ?out)]) = here ?sc3'" using prelen by simp
  then have "set_jumps JUMP (map (Pair 0) ends) (\<lambda>_. ?stop) (code_of ?sc6) = (?pre @ [instr JUMP (int ?out)]) @ g (\<lambda>_. ?stop) @ []"
    using 4(6) unfolding code6 fillable_def by blast
  then have code: "code_of ?sc' = code_of sc @ ?code"
    using fold_patch_const [of JUMP ?stop ends ?sc6] fold_patch(1) [of JUMP "\<lambda>_. ?stop" "map (Pair 0) ends" ?sc6] by simp
  have pool': "pool_of ?sc' = pool_of sc4"
    using fold_patch_const [of JUMP ?stop ends ?sc6] fold_patch(2) [of JUMP "\<lambda>_. ?stop" "map (Pair 0) ends" ?sc6]
      fold_patch(2) [of JUMP_IF_NONZERO ?addr jumps sc4] by simp
  have pools: "prefix (pool_of sc) (pool_of sc4)" "prefix (cs_pool st) (pool_of sc2)" "prefix (pool_of sc2) (pool_of sc4)"
  proof -
    show 24: "prefix (pool_of sc2) (pool_of sc4)" using 4(5) by (simp split: if_splits)
    show 12: "prefix (cs_pool st) (pool_of sc2)" using 2(3) by simp
    show "prefix (pool_of sc) (pool_of sc4)"
      by (rule prefix_order.trans [OF 1(3) prefix_order.trans [OF 12 24]])
  qed
  have "compile_case ce ct e cs sc = Inr ?sc'"
  proof (cases ?d)
    case None
    then have "last_default 0 cs = None" using last_default_index [OF last] by simp
    then show ?thesis using None 1(1) 2(1) 4(1) by (simp add: compile_case_def on_code_def Let_def)
  next
    case (Some i)
    then have "last_default 0 cs = Some i" using last_default_index [OF last] by simp
    then show ?thesis using Some 1(1) 2(1) 4(1) by (simp add: compile_case_def on_code_def Let_def)
  qed
  moreover have "follows ce ctx prog (here sc) (here sc + length ?code) z m (exec_case ct e es s)"
    if rel: "related ce ctx s m" and prog: "piece prog (here sc) ?code" and pool: "prefix (pool_of ?sc') (const_pool m)"
    for s m z prog
  proof -
    have pool4: "prefix (pool_of sc4) (const_pool m)" and pool2: "prefix (pool_of sc2) (const_pool m)"
      and pool1: "prefix (cs_pool st) (const_pool m)"
      using pool pool' pools(2,3) by (auto intro: prefix_order.trans)
    have fin: "here sc + length ?code = ?stop" using h by simp
    have parts: "piece prog (here sc) xs" "piece prog (here ?sc1) (f ?addr)" "piece prog (here sc2) ?pop"
      "here ?sc3 < length prog" "prog ! here ?sc3 = instr JUMP (int ?out)" "piece prog (here ?sc3') (g (\<lambda>_. ?stop))"
      using prog h(1-3) by (simp_all add: add.assoc)
    obtain v where v: "eval (es_ctx s) e 0 None = Inr v" "lands prog (here sc) z m 0 (here ?sc1) (v # z) m"
      using sel [OF rel parts(1) pool1, of z] h(1) by auto
    obtain r where r: "item_hit ct 0 cs (es_ctx s) v = Inr r" "lands prog (here ?sc1) (v # z) m 0
               (case r of Some i \<Rightarrow> addrs ! i | None \<Rightarrow> here sc2) (v # z) m"
      using test [OF rel parts(2) pool2, of v z] unfolding h(2) [symmetric] by blast
    have run: "body_run ce ctx prog (addrs ! i) ?stop (?execs ! i) m" if "i < length cs" for i
      using bodies parts(6) pool4 h(4) that by simp
    have taken: "follows ce ctx prog (here sc) ?stop z m (exec_option (fst (snd (es ! i))) s)"
      if "i < length cs" "lands prog (here sc) z m 0 (addrs ! i) (v # z) m" for i
    proof -
      have "follows ce ctx prog (Suc (addrs ! i)) ?stop z m (exec_option (?execs ! i) s)"
        "lands prog (addrs ! i) (v # z) m 0 (Suc (addrs ! i)) z m"
        using run [OF that(1)] rel by (simp_all add: body_run_def)
      then show ?thesis
        using lands_follows [OF lands_trans [OF that(2)]] that(1) len by (metis nth_map)
    qed
    have "select_item (es_ctx s) ct v es = Inr (chosen 0 es (if r = None then default_index 0 es else r))"
      by (rule select_item_hit) (use last r(1) item_hit_map [OF same] default_index_map [OF same] in simp_all)
    then have exec: "exec_case ct e es s = exec_option (chosen 0 es (if r = None then ?d else r)) s"
      using v(1) default_index_map(1) [OF same] by (simp add: exec_case_def)
    show ?thesis unfolding fin
    proof (cases r)
      case (Some i)
      then have "i < length cs" using item_hit_bound [of ct 0 cs "es_ctx s" v i] r(1) by simp
      then show "follows ce ctx prog (here sc) ?stop z m (exec_case ct e es s)"
        using taken lands_trans [OF v(2) r(2)] exec Some by (simp add: chosen_def)
    next
      case None
      have at: "lands prog (here sc) z m 0 (here sc2) (v # z) m" using lands_trans [OF v(2) r(2)] None by simp
      show "follows ce ctx prog (here sc) ?stop z m (exec_case ct e es s)"
      proof (cases ?d)
        case d: (Some i)
        then have i: "i < length cs" by (auto simp: default_index_def split: if_splits)
        have "lands prog (here sc2) (v # z) m 0 (addrs ! i) (v # z) m"
          by (rule lands_forward) (use parts(4,5) d h(3) 4(3) i in \<open>simp_all add: Suc_le_eq\<close>)
        then show ?thesis using taken [OF i] lands_trans [OF at] exec None d by (simp add: chosen_def)
      next
        case d: None
        have 1: "lands prog (here sc2) (v # z) m 0 (Suc (here sc2)) z m"
          by (rule lands_value) (use parts(3) d in \<open>simp_all add: value_op_def instr_def\<close>)
        have 2: "lands prog (Suc (here sc2)) z m 0 ?stop z m"
          by (rule lands_forward) (use parts(4,5) d h(3,4) in simp_all)
        have "follows ce ctx prog ?stop ?stop z m (s, Completed)" by (rule follows_done [OF rel])
        then show ?thesis
          using lands_follows [OF lands_trans [OF at lands_trans [OF 1 2]]] exec None d
          by (simp add: chosen_def exec_option_def)
      qed
    qed
  qed
  ultimately show "\<exists>sc' xs. compile_case ce ct e cs sc = Inr sc' \<and> code_of sc' = code_of sc @ xs \<and> prefix (pool_of sc) (pool_of sc') \<and>
     (\<forall>s m z prog. related ce ctx s m \<longrightarrow> piece prog (here sc) xs \<longrightarrow> prefix (pool_of sc') (const_pool m) \<longrightarrow>
        follows ce ctx prog (here sc) (here sc + length xs) z m (exec_case ct e es s))"
    using code pool' pools(1) by (intro exI [of _ ?sc'] exI [of _ ?code]) simp
qed

end
