(* ===== verification/Engine_Statement.thy ===== *)
theory Engine_Statement
  imports Engine_Case Engine_Agree
begin

text \<open>
  The code of a statement does what the reference executor does: the fragment \<open>agree_stmt\<close>, the simulation
  of its statements by induction over the tree, and the run of a whole process.
\<close>

section \<open>The statements compared\<close>

definition case_parts :: "case_item \<Rightarrow> expr list \<times> stmt option \<times> bool" where
  "case_parts item = (item_values item, item_body item, item_default item)"

definition is_assign :: "stmt \<Rightarrow> bool" where
  "is_assign st = (case st of BlockingAssign _ _ \<Rightarrow> True | _ \<Rightarrow> False)"

definition is_finish :: "string \<Rightarrow> string \<Rightarrow> expr list \<Rightarrow> bool" where
  "is_finish name where args \<longleftrightarrow>
     severity_display name where args = None \<and> (lower name = ''$finish'' \<or> lower name = ''$stop'')"

primrec agree_stmt :: "eval_ctx \<Rightarrow> stmt \<Rightarrow> bool" and agree_item :: "eval_ctx \<Rightarrow> case_item \<Rightarrow> bool" where
  "agree_stmt ctx (BlockingAssign lhs rhs) = agree_assign ctx lhs rhs"
| "agree_stmt ctx (NonblockingAssign lhs rhs) = agree_assign ctx lhs rhs"
| "agree_stmt ctx (SeqBlock name ss) = list_all id (map (agree_stmt ctx) ss)"
| "agree_stmt ctx (ParBlock name ss) = list_all id (map (agree_stmt ctx) ss)"
| "agree_stmt ctx (IfStatement c t e) =
     (agree_expr ctx c \<and> map_option (agree_stmt ctx) t \<noteq> Some False \<and> map_option (agree_stmt ctx) e \<noteq> Some False)"
| "agree_stmt ctx (CaseStatement ct e items) =
     (case_kind ct \<and> agree_expr ctx e \<and> default_last (map case_parts items) \<and> list_all id (map (agree_item ctx) items))"
| "agree_stmt ctx (ForLoop init c upd body signed_var) =
     (\<not> signed_var \<and> is_assign init \<and> agree_stmt ctx init \<and> agree_expr ctx c \<and> agree_stmt ctx upd
      \<and> map_option (agree_stmt ctx) body \<noteq> Some False)"
| "agree_stmt ctx (WhileLoop c body) = (agree_expr ctx c \<and> map_option (agree_stmt ctx) body \<noteq> Some False)"
| "agree_stmt ctx (ForeverLoop body) = (map_option (agree_stmt ctx) body \<noteq> Some False)"
| "agree_stmt ctx (RepeatLoop c body) = False"
| "agree_stmt ctx (DelayControl d body) = False"
| "agree_stmt ctx (EventControl evs body) = False"
| "agree_stmt ctx (WaitStatement c body) = False"
| "agree_stmt ctx (DisableStatement target) = False"
| "agree_stmt ctx (EventTrigger name) = False"
| "agree_stmt ctx (SystemTaskCall name where args) = is_finish name where args"
| "agree_stmt ctx (TaskEnable name args) = False"
| "agree_item ctx (CaseItem vals body is_default) =
     (list_all (agree_expr ctx) vals \<and> map_option (agree_stmt ctx) body \<noteq> Some False)"

lemma simulated_finish:
  assumes "is_finish name where args"
  shows "simulated ce ctx (compile_system_task se name where args) (exec_system_task name where args)"
proof (rule simulatedI)
  fix sc :: stmt_comp
  have comp: "compile_system_task se name where args sc = Inr (emit_in SYS_FINISH 0 sc)"
    using assms by (auto simp: is_finish_def compile_system_task_def Let_def)
  have run: "exec_system_task name where args s = (s, Finished)" for s
    using assms by (auto simp: is_finish_def exec_system_task_def Let_def)
  have "stops prog p z m 0 m" if "piece prog p [instr SYS_FINISH 0]" for prog p z m
    unfolding stops_def
  proof (intro allI impI)
    fix l k :: nat
    have "vm_step prog (config p z k (limited l m)) = Raised StopSimulation (limited l m)"
      using that by (simp add: step_at exec_instr_def instr_def)
    then show "\<exists>c. goes prog (config p z k (limited l m)) c \<and> vm_step prog c = Raised StopSimulation (limited l m)"
      using goes_refl by blast
  qed
  then have "follows ce ctx prog (here sc) b z m (s, Finished)"
    if "related ce ctx s m" "piece prog (here sc) [instr SYS_FINISH 0]" for s m z prog b
    using that unfolding follows_def by auto blast
  then show "\<exists>sc' xs. compile_system_task se name where args sc = Inr sc' \<and> code_of sc' = code_of sc @ xs \<and>
     prefix (pool_of sc) (pool_of sc') \<and>
     (\<forall>s m z prog. related ce ctx s m \<longrightarrow> piece prog (here sc) xs \<longrightarrow> prefix (pool_of sc') (const_pool m) \<longrightarrow>
        follows ce ctx prog (here sc) (here sc + length xs) z m (exec_system_task name where args s))"
    unfolding comp run by (intro exI [of _ "emit_in SYS_FINISH 0 sc"] exI [of _ "[instr SYS_FINISH 0]"]) simp
qed

lemma simulated_leave:
  assumes "simulated ce ctx cf f"
  shows "simulated ce ctx cf (\<lambda>s. leave_block name (f s))"
  using assms follows_leave_block unfolding simulated_def by (metis (no_types, lifting))

lemma simulated_body:
  assumes "\<And>st. body = Some st \<Longrightarrow> agree_stmt ctx st \<Longrightarrow> simulated ce ctx (compile_stmt se st) (execute_stmt st)"
    and "map_option (agree_stmt ctx) body \<noteq> Some False"
  shows "simulated ce ctx (compile_option (map_option (compile_stmt se) body)) (exec_option (map_option execute_stmt body))"
proof (cases body)
  case None
  then show ?thesis using simulated_skip [of ce ctx] by (simp add: compile_option_def [abs_def] exec_option_def [abs_def])
next
  case (Some st)
  then show ?thesis using assms by (simp add: compile_option_def [abs_def] exec_option_def [abs_def])
qed

lemma statement_simulated:
  assumes ex: "related ce ctx s0 m0" and ce: "se_code se = ce"
  shows "agree_stmt ctx st \<Longrightarrow> simulated ce ctx (compile_stmt se st) (execute_stmt st)"
    and "agree_item ctx it \<Longrightarrow> map_option (agree_stmt ctx) (item_body it) \<noteq> Some False \<and>
      list_all (agree_expr ctx) (item_values it) \<and>
      simulated ce ctx (compile_option (map_option (compile_stmt se) (item_body it)))
        (exec_option (map_option execute_stmt (item_body it)))"
proof (induction st and it rule: stmt.induct case_item.induct)
  case (BlockingAssign lhs rhs)
  then show ?case using simulated_assign [OF ex _ ce, of lhs rhs True] by simp
next
  case (NonblockingAssign lhs rhs)
  then show ?case using simulated_assign [OF ex _ ce, of lhs rhs False] by simp
next
  case (IfStatement c t e)
  have ag: "agree_expr ctx c" "map_option (agree_stmt ctx) t \<noteq> Some False" "map_option (agree_stmt ctx) e \<noteq> Some False"
    using IfStatement.prems by simp_all
  have t: "simulated ce ctx (compile_option (map_option (compile_stmt se) t)) (exec_option (map_option execute_stmt t))"
    using simulated_body [OF _ ag(2)] IfStatement.IH(1) by auto
  show ?case
  proof (cases e)
    case None
    then show ?thesis using simulated_if_then [OF ex ag(1) t] ce by simp
  next
    case (Some st)
    then have "simulated ce ctx (compile_stmt se st) (execute_stmt st)" using IfStatement.IH(2) [of st] ag(3) by simp
    then show ?thesis using simulated_if_else [OF ex ag(1) t] ce Some by simp
  qed
next
  case (CaseStatement ct e items)
  let ?cs = "map (compile_case_item se) items" and ?es = "map execute_case_item items"
  have item: "map_option (agree_stmt ctx) (item_body it) \<noteq> Some False \<and> list_all (agree_expr ctx) (item_values it) \<and>
      simulated ce ctx (compile_option (map_option (compile_stmt se) (item_body it)))
        (exec_option (map_option execute_stmt (item_body it)))" if "it \<in> set items" for it
    using CaseStatement that by (auto simp: list_all_iff)
  have "compile_case_item se it = (item_values it, map_option (compile_stmt se) (item_body it), item_default it)"
    "execute_case_item it = (item_values it, map_option execute_stmt (item_body it), item_default it)" for it
    by (cases it; simp)+
  then have "list_all2 (\<lambda>(v1, b1, d1) (v2, b2, d2). v1 = v2 \<and> d1 = d2 \<and> list_all (agree_expr ctx) v1
        \<and> simulated ce ctx (compile_option b1) (exec_option b2)) ?cs ?es"
    using item by (simp add: list_all2_conv_all_nth)
  moreover have "default_last ?cs = default_last (map case_parts items)"
  proof (rule default_index_map(2))
    show "list_all2 (\<lambda>(v1, _, d1) (v2, _, d2). v1 = v2 \<and> d1 = d2) ?cs (map case_parts items)"
      using \<open>\<And>it. compile_case_item se it = _\<close> by (simp add: list_all2_conv_all_nth case_parts_def)
  qed
  ultimately show ?case using simulated_case [OF ex, of e ct ?cs ?es] CaseStatement.prems ce by simp
next
  case (ForLoop init c upd body signed_var)
  have ag: "\<not> signed_var" "is_assign init" "agree_stmt ctx init" "agree_expr ctx c" "agree_stmt ctx upd"
    "map_option (agree_stmt ctx) body \<noteq> Some False" using ForLoop.prems by simp_all
  have init: "simulated ce ctx (compile_stmt se init) (execute_stmt init)"
    and upd: "simulated ce ctx (compile_stmt se upd) (execute_stmt upd)" using ForLoop.IH(1,2) ag by blast+
  have body: "simulated ce ctx (compile_option (map_option (compile_stmt se) body)) (exec_option (map_option execute_stmt body))"
    using simulated_body [OF _ ag(6)] ForLoop.IH(3) by auto
  have decl: "loop_variable_declared ce init"
  proof -
    obtain lhs rhs where i: "init = BlockingAssign lhs rhs" using ag(2) by (auto simp: is_assign_def split: stmt.splits)
    then have "agree_assign ctx lhs rhs" using ag(3) by simp
    then obtain n h r cur where l: "lhs = Identifier n h r" "signals ctx (identifier_name n h) = Some cur"
      "memories ctx (identifier_name n h) = None" by (rule agree_assign_cases)
    obtain sid where "signal_map ce (identifier_name n h) = Some sid" by (rule related_scalar [OF ex l(2,3)])
    then show ?thesis using i l(1) by (simp add: loop_variable_declared_def)
  qed
  have test: "for_test init signed_var c = (\<lambda>ctx. condition_holds ctx c)"
    using ag(1) by (simp add: for_test_def fun_eq_iff)
  have "compile_stmt se (ForLoop init c upd body signed_var) = (\<lambda>sc. rbind (compile_stmt se init sc)
      (\<lambda>sc. compile_loop ce (here sc) None c
         (\<lambda>sc. rbind (compile_option (map_option (compile_stmt se) body) sc) (compile_stmt se upd)) sc))"
    using decl ag(1) ce by (simp add: compile_for_def fun_eq_iff)
  then show ?case
    using simulated_then [OF init simulated_loop [OF ex ag(4) simulated_then [OF body upd]], of es_limit] test by simp
next
  case (WhileLoop c body)
  have ag: "agree_expr ctx c" "map_option (agree_stmt ctx) body \<noteq> Some False" using WhileLoop.prems by simp_all
  have "simulated ce ctx (compile_option (map_option (compile_stmt se) body)) (exec_option (map_option execute_stmt body))"
    using simulated_body [OF _ ag(2)] WhileLoop.IH by auto
  from simulated_loop [OF ex ag(1) this, of es_limit] show ?case using ce by simp
next
  case (ForeverLoop body)
  have ag: "map_option (agree_stmt ctx) body \<noteq> Some False" using ForeverLoop.prems by simp
  have "simulated ce ctx (compile_option (map_option (compile_stmt se) body)) (exec_option (map_option execute_stmt body))"
    using simulated_body [OF _ ag] ForeverLoop.IH by auto
  from simulated_forever [OF this, of es_limit] show ?case by simp
next
  case (SeqBlock name ss)
  have "list_all2 (simulated ce ctx) (map (compile_stmt se) ss) (map execute_stmt ss)"
    using SeqBlock by (auto simp: list_all2_conv_all_nth list_all_iff)
  then show ?case using simulated_leave [OF simulated_block] by simp
next
  case (ParBlock name ss)
  have "list_all2 (simulated ce ctx) (map (compile_stmt se) ss) (map execute_stmt ss)"
    using ParBlock by (auto simp: list_all2_conv_all_nth list_all_iff)
  then show ?case using simulated_leave [OF simulated_block] by simp
next
  case (SystemTaskCall name "where" args)
  then show ?case using simulated_finish by simp
next
  case (CaseItem vals body is_default)
  have "map_option (agree_stmt ctx) body \<noteq> Some False" "list_all (agree_expr ctx) vals"
    using CaseItem.prems by simp_all
  then show ?case using simulated_body [of body ctx ce se] CaseItem.IH by auto
qed simp_all

section \<open>A process\<close>

definition empty_stmt_comp :: stmt_comp where
  "empty_stmt_comp = \<lparr>sc_code = empty_comp, sc_formats = [], sc_monitors = [], sc_readmem = []\<rparr>"

text \<open>The program of a process: the code of its body and the end marker.\<close>

definition process_program :: "stmt_comp \<Rightarrow> program" where
  "process_program sc = code_of sc @ [instr PROC_END 0]"

definition load_pool :: "stmt_comp \<Rightarrow> machine \<Rightarrow> machine" where
  "load_pool sc m = m\<lparr>const_pool := pool_of sc\<rparr>"

lemma goes_vm_run:
  assumes "goes prog c c'" "vm_step prog c' = out" "\<And>d. out \<noteq> Running d"
  shows "\<exists>fuel. vm_run fuel prog c = Some out"
  using assms(1) unfolding goes_def
proof (induction rule: converse_rtranclp_induct)
  case base
  have "vm_run 1 prog c' = Some out" using assms(2,3) by (cases out) auto
  then show ?case by blast
next
  case (step c d)
  then obtain fuel where "vm_run fuel prog d = Some out" by blast
  then have "vm_run (Suc fuel) prog c = Some out" using step(1) by simp
  then show ?case by blast
qed

lemma landed_halts:
  assumes "lands (process_program sc) 0 [] m n (length (code_of sc)) [] m'" "n \<le> k"
  shows "\<exists>fuel. execute fuel (process_program sc) (limited k m) = Some (Halted (limited k m'))"
proof -
  let ?prog = "process_program sc" and ?stop = "length (code_of sc)"
  have "goes ?prog (config 0 [] 0 (limited k m)) (config ?stop [] n (limited k m'))"
    using assms(1) [unfolded lands_def, THEN conjunct2, rule_format, of 0 k] assms(2) by simp
  moreover have "vm_step ?prog (config ?stop [] n (limited k m')) = Halted (limited k m')"
    by (simp add: vm_step_def process_program_def exec_instr_def instr_def)
  ultimately show ?thesis using goes_vm_run by (simp add: execute_def vm_init_def)
qed

lemma stopped_raises:
  assumes "stops (process_program sc) 0 [] m n m'" "n \<le> k"
  shows "\<exists>fuel. execute fuel (process_program sc) (limited k m) = Some (Raised StopSimulation (limited k m'))"
proof -
  let ?prog = "process_program sc"
  have "\<exists>c'. goes ?prog (config 0 [] 0 (limited k m)) c' \<and> vm_step ?prog c' = Raised StopSimulation (limited k m')"
    using assms(1) [unfolded stops_def, rule_format, of 0 k] assms(2) by simp
  then obtain c' where "goes ?prog (config 0 [] 0 (limited k m)) c'"
    "vm_step ?prog c' = Raised StopSimulation (limited k m')" by blast
  then show ?thesis using goes_vm_run [of ?prog _ c'] by (simp add: execute_def vm_init_def)
qed

lemma related_pool: "related ce ctx s (load_pool sc m) = related ce ctx s m"
  by (simp add: related_def load_pool_def)

text \<open>C2: The VM engine runs a statement as the reference executor does. Let a machine and an executor
  hold the same signals, memories and pending updates. For every statement of the fragment
  \<open>agree_stmt\<close> (blocking and non-blocking assignments to scalars, blocks, conditionals, case statements,
  loops and \<open>$finish\<close>) the compiler succeeds. The executor completes, finishes or gives up a loop; if
  it completes, the interpreter halts, and if it finishes, the interpreter stops the simulation, in a
  machine that again holds the same signals, memories and pending updates, whenever its loop limit is
  large enough.\<close>

theorem vm_simulates_executor:
  assumes "related (se_code se) (es_ctx s) s m" "agree_stmt (es_ctx s) st"
  shows "\<exists>sc. compile_stmt se st empty_stmt_comp = Inr sc \<and>
    (case execute_stmt st s of
       (s', Completed) \<Rightarrow> \<exists>n m'. related (se_code se) (es_ctx s) s' m' \<and> (\<forall>l\<ge>n. \<exists>fuel.
         execute fuel (process_program sc) (limited l (load_pool sc m)) = Some (Halted (limited l m')))
     | (s', Finished) \<Rightarrow> \<exists>n m'. related (se_code se) (es_ctx s) s' m' \<and> (\<forall>l\<ge>n. \<exists>fuel.
         execute fuel (process_program sc) (limited l (load_pool sc m)) = Some (Raised StopSimulation (limited l m')))
     | (s', c) \<Rightarrow> c = Failed RuntimeError)"
proof -
  let ?ce = "se_code se" and ?ctx = "es_ctx s"
  have zero: "here empty_stmt_comp = 0" "code_of empty_stmt_comp = []"
    by (simp_all add: here_code empty_stmt_comp_def empty_comp_def)
  note sim = statement_simulated(1) [OF assms(1) refl assms(2)]
  from sim [unfolded simulated_def, THEN spec, of empty_stmt_comp, unfolded zero append_Nil add_0]
  obtain sc xs where sc: "compile_stmt se st empty_stmt_comp = Inr sc" "code_of sc = xs"
    and run: "\<forall>s m z prog. related ?ce ?ctx s m \<longrightarrow> piece prog 0 xs \<longrightarrow> prefix (pool_of sc) (const_pool m) \<longrightarrow>
       follows ?ce ?ctx prog 0 (length xs) z m (execute_stmt st s)"
    by (elim exE conjE) iprover
  let ?m = "load_pool sc m" and ?prog = "process_program sc"
  have "piece ?prog 0 xs" using piece_self [of "[]" xs "[instr PROC_END 0]"] sc(2) by (simp add: process_program_def)
  then have f: "follows ?ce ?ctx ?prog 0 (length xs) [] ?m (execute_stmt st s)"
    using run [THEN spec, THEN spec [of _ ?m], THEN spec [of _ "[]"], THEN spec [of _ ?prog], of s] assms(1) related_pool
    by (simp add: load_pool_def)
  obtain s' c where e: "execute_stmt st s = (s', c)" by (cases "execute_stmt st s")
  show ?thesis
  proof (cases c)
    case Completed
    then obtain n m' where "lands ?prog 0 [] ?m n (length xs) [] m'" "related ?ce ?ctx s' m'"
      using f e by (auto simp: follows_def)
    then show ?thesis using landed_halts [of sc ?m n m'] sc e Completed by auto
  next
    case Finished
    then obtain n m' where "stops ?prog 0 [] ?m n m'" "related ?ce ?ctx s' m'"
      using f e by (auto simp: follows_def)
    then show ?thesis using stopped_raises [of sc ?m n m'] sc(1) e Finished by auto
  qed (use f e sc in \<open>auto simp: follows_def\<close>)
qed

section \<open>A concrete process\<close>

definition sized :: "int \<Rightarrow> nat \<Rightarrow> expr" where
  "sized n w = Literal ((int_literal n)\<lparr>lit_width := Some w\<rparr>)"

definition demo_stmt :: stmt where
  "demo_stmt = SeqBlock '''' [
     WhileLoop (BinaryOp Gt (Identifier ''a'' [] None) (sized 3 8))
       (Some (BlockingAssign (Identifier ''a'' [] None) (BinaryOp Sub (Identifier ''a'' [] None) (sized 100 8)))),
     CaseStatement ''case'' (Identifier ''a'' [] None) [
       CaseItem [sized 1 8, sized 2 8] (Some (SystemTaskCall ''$finish'' '''' [])) False,
       CaseItem [] (Some (NonblockingAssign (Identifier ''b'' [] None) (sized 9 4))) True],
     IfStatement (Identifier ''a'' [] None)
       (Some (BlockingAssign (Identifier ''b'' [] None) (sized 1 4)))
       (Some (NonblockingAssign (Identifier ''a'' [] None) (Identifier ''b'' [] None)))]"

definition demo_exec :: exec_state where
  "demo_exec = \<lparr>es_ctx = demo_ctx, es_originals = None, es_nba = [], es_output = [], es_write_buffer = [],
     es_time = 0, es_limit = 10, es_files = (\<lambda>name. None)\<rparr>"

lemma demo_exec_related: "related demo_env demo_ctx demo_exec demo_machine"
proof -
  have "inj_on (signal_map demo_env) (dom (signals demo_ctx))"
    by (auto simp: inj_on_def demo_env_def demo_ctx_def split: if_splits)
  moreover have "nba_queue demo_machine = []" by (simp add: demo_machine_def)
  ultimately show ?thesis using demo_related by (simp add: related_def demo_exec_def)
qed

theorem vm_simulates_executor_witness:
  "snd (execute_stmt demo_stmt demo_exec) = Completed \<and>
   (\<exists>sc. compile_stmt \<lparr>se_code = demo_env, se_markers = []\<rparr> demo_stmt empty_stmt_comp = Inr sc \<and>
    (case execute_stmt demo_stmt demo_exec of
       (s', Completed) \<Rightarrow> \<exists>n m'. related demo_env demo_ctx s' m' \<and> (\<forall>l\<ge>n. \<exists>fuel.
         execute fuel (process_program sc) (limited l (load_pool sc demo_machine)) = Some (Halted (limited l m')))
     | (s', Finished) \<Rightarrow> \<exists>n m'. related demo_env demo_ctx s' m' \<and> (\<forall>l\<ge>n. \<exists>fuel.
         execute fuel (process_program sc) (limited l (load_pool sc demo_machine)) = Some (Raised StopSimulation (limited l m')))
     | (s', c) \<Rightarrow> c = Failed RuntimeError))"
  (is "?done \<and> ?sim")
proof
  show ?done by code_simp
  have ag: "agree_stmt demo_ctx demo_stmt" by code_simp
  have at: "es_ctx demo_exec = demo_ctx" "se_code \<lparr>se_code = demo_env, se_markers = []\<rparr> = demo_env"
    by (simp_all add: demo_exec_def)
  show ?sim
    by (rule vm_simulates_executor [of "\<lparr>se_code = demo_env, se_markers = []\<rparr>" demo_exec demo_machine demo_stmt,
          unfolded at, OF demo_exec_related ag])
qed

end
