(* ===== verification/Heap_Queue.thy ===== *)
theory Heap_Queue
  imports Prelude "HOL-Library.Multiset" "HOL-Library.Product_Lexorder"
begin

text \<open>
  The library functions \<open>heapq.heappush\<close> and \<open>heapq.heappop\<close>: a binary heap in a list, the children of
  position \<open>i\<close> at \<open>2 * i + 1\<close> and \<open>2 * i + 2\<close>. Elements are compared by a key.
\<close>

section \<open>The functions\<close>

definition parent :: "nat \<Rightarrow> nat" where
  "parent i = (i - 1) div 2"

text \<open>\<open>_siftdown\<close> with start 0: the item moves from \<open>pos\<close> toward the root while its parent is larger.\<close>

function siftdown :: "('a \<Rightarrow> 'k::linorder) \<Rightarrow> 'a list \<Rightarrow> nat \<Rightarrow> 'a \<Rightarrow> 'a list" where
  "siftdown key h pos x =
     (if 0 < pos \<and> key x < key (h ! parent pos)
      then siftdown key (h[pos := h ! parent pos]) (parent pos) x else h[pos := x])"
  by pat_completeness auto

termination by (relation "measure (\<lambda>(key, h, pos, x). pos)") (auto simp: parent_def)

declare siftdown.simps [simp del]

text \<open>The smaller child of a position; the left one when the right one is absent.\<close>

definition small_child :: "('a \<Rightarrow> 'k::linorder) \<Rightarrow> 'a list \<Rightarrow> nat \<Rightarrow> nat" where
  "small_child key h pos =
     (let left = 2 * pos + 1; right = left + 1
      in if right < length h \<and> \<not> key (h ! left) < key (h ! right) then right else left)"

text \<open>\<open>_siftup\<close>: the hole at \<open>pos\<close> sinks to a leaf, where the item is put and sifted back.\<close>

function siftup :: "('a \<Rightarrow> 'k::linorder) \<Rightarrow> 'a list \<Rightarrow> nat \<Rightarrow> 'a \<Rightarrow> 'a list" where
  "siftup key h pos x =
     (if 2 * pos + 1 < length h
      then (let c = small_child key h pos in siftup key (h[pos := h ! c]) c x)
      else siftdown key h pos x)"
  by pat_completeness auto

termination
  by (relation "measure (\<lambda>(key, h, pos, x). length h - pos)") (auto simp: small_child_def Let_def)

declare siftup.simps [simp del]

definition heappush :: "('a \<Rightarrow> 'k::linorder) \<Rightarrow> 'a list \<Rightarrow> 'a \<Rightarrow> 'a list" where
  "heappush key h x = siftdown key (h @ [x]) (length h) x"

definition heappop :: "('a \<Rightarrow> 'k::linorder) \<Rightarrow> 'a list \<Rightarrow> ('a \<times> 'a list) option" where
  "heappop key h =
     (if h = [] then None
      else let x = last h; rest = butlast h
           in Some (if rest = [] then (x, []) else (rest ! 0, siftup key rest 0 x)))"

section \<open>The heap order\<close>

definition is_heap :: "('a \<Rightarrow> 'k::linorder) \<Rightarrow> 'a list \<Rightarrow> bool" where
  "is_heap key h \<longleftrightarrow> (\<forall>i. 0 < i \<longrightarrow> i < length h \<longrightarrow> key (h ! parent i) \<le> key (h ! i))"

text \<open>In order but for the hole at \<open>pos\<close>, whose children are not below its parent.\<close>

definition heap_hole :: "('a \<Rightarrow> 'k::linorder) \<Rightarrow> 'a list \<Rightarrow> nat \<Rightarrow> bool" where
  "heap_hole key h pos \<longleftrightarrow> pos < length h \<and>
     (\<forall>i. 0 < i \<longrightarrow> i < length h \<longrightarrow> i \<noteq> pos \<longrightarrow> parent i \<noteq> pos \<longrightarrow> key (h ! parent i) \<le> key (h ! i)) \<and>
     (\<forall>i. 0 < i \<longrightarrow> i < length h \<longrightarrow> parent i = pos \<longrightarrow> 0 < pos \<longrightarrow> key (h ! parent pos) \<le> key (h ! i))"

definition above_children :: "('a \<Rightarrow> 'k::linorder) \<Rightarrow> 'a list \<Rightarrow> nat \<Rightarrow> 'a \<Rightarrow> bool" where
  "above_children key h pos x \<longleftrightarrow>
     (\<forall>i. 0 < i \<longrightarrow> i < length h \<longrightarrow> parent i = pos \<longrightarrow> key x \<le> key (h ! i))"

lemma parent_less [simp]: "0 < i \<Longrightarrow> parent i < i"
  by (auto simp: parent_def)

lemma parent_iff: "0 < i \<Longrightarrow> parent i = p \<longleftrightarrow> i = 2 * p + 1 \<or> i = 2 * p + 2"
  by (auto simp: parent_def)

lemma mset_move:
  assumes "i < length h" "j < length h" "i \<noteq> j"
  shows "mset (h[i := h ! j, j := x]) = mset (h[i := x])"
proof -
  have "h[i := h ! j, j := x] = (h[i := x])[i := h[i := x] ! j, j := h[i := x] ! i]" using assms by simp
  then show ?thesis using assms by (simp only: mset_swap length_list_update)
qed

lemma siftdown_step:
  "0 < pos \<and> key x < key (h ! parent pos) \<Longrightarrow>
     siftdown key h pos x = siftdown key (h[pos := h ! parent pos]) (parent pos) x"
  "\<not> (0 < pos \<and> key x < key (h ! parent pos)) \<Longrightarrow> siftdown key h pos x = h[pos := x]"
  by (rule trans [OF siftdown.simps], simp only: if_True if_False simp_thms)+

lemma siftup_step:
  "2 * pos + 1 < length h \<Longrightarrow>
     siftup key h pos x = siftup key (h[pos := h ! small_child key h pos]) (small_child key h pos) x"
  "\<not> 2 * pos + 1 < length h \<Longrightarrow> siftup key h pos x = siftdown key h pos x"
  by (rule trans [OF siftup.simps], simp only: if_True if_False simp_thms Let_def)+

lemma siftdown_heap:
  assumes "heap_hole key h pos" "above_children key h pos x"
  shows "is_heap key (siftdown key h pos x) \<and> mset (siftdown key h pos x) = mset (h[pos := x])"
  using assms
proof (induction key h pos x rule: siftdown.induct)
  case (1 key h pos x)
  let ?p = "parent pos"
  show ?case
  proof (cases "0 < pos \<and> key x < key (h ! ?p)")
    case True
    let ?h = "h[pos := h ! ?p]"
    have len: "pos < length h" "?p < pos" using 1(2) True by (auto simp: heap_hole_def)
    have pos: "key (h ! parent i) \<le> key (h ! i)" if "0 < i" "i < length h" "i \<noteq> pos" "parent i \<noteq> pos" for i
      using 1(2) that by (auto simp: heap_hole_def)
    have grand: "key (h ! ?p) \<le> key (h ! i)" if "0 < i" "i < length h" "parent i = pos" for i
      using 1(2) that True by (auto simp: heap_hole_def)
    have sib: "key (h ! ?p) \<le> key (h ! i)" if "0 < i" "i < length h" "parent i = ?p" "i \<noteq> pos" for i
      using pos [of i] that len by auto
    have "heap_hole key ?h ?p" unfolding heap_hole_def
    proof (intro conjI allI impI)
      show "?p < length ?h" using len by simp
    next
      fix i assume i: "0 < i" "i < length ?h" "i \<noteq> ?p" "parent i \<noteq> ?p"
      then have "i \<noteq> pos" by auto
      then show "key (?h ! parent i) \<le> key (?h ! i)"
        using i pos [of i] grand [of i] len by (cases "parent i = pos") auto
    next
      fix i assume i: "0 < i" "i < length ?h" "parent i = ?p" "0 < ?p"
      have "parent ?p \<noteq> pos" using parent_less [OF i(4)] len by simp
      moreover have "key (h ! parent ?p) \<le> key (h ! ?p)"
        using pos [of ?p] i(4) len parent_less [OF i(4)] by simp
      ultimately show "key (?h ! parent ?p) \<le> key (?h ! i)"
        using i len sib [of i] by (cases "i = pos") auto
    qed
    moreover have "above_children key ?h ?p x" unfolding above_children_def
    proof (intro allI impI)
      fix i assume i: "0 < i" "i < length ?h" "parent i = ?p"
      show "key x \<le> key (?h ! i)"
        using i len less_imp_le [OF conjunct2 [OF True]] order_trans [OF less_imp_le [OF conjunct2 [OF True]] sib [of i]]
        by (cases "i = pos") simp_all
    qed
    ultimately have "is_heap key (siftdown key ?h ?p x) \<and> mset (siftdown key ?h ?p x) = mset (?h[?p := x])"
      by (rule 1(1) [OF True])
    moreover have "siftdown key h pos x = siftdown key ?h ?p x" by (rule siftdown_step(1) [OF True])
    ultimately show ?thesis using mset_move [of pos h ?p x] len by simp
  next
    case False
    have hole: "key (h ! parent i) \<le> key (h ! i)" if "0 < i" "i < length h" "i \<noteq> pos" "parent i \<noteq> pos" for i
      using 1(2) that by (simp add: heap_hole_def)
    have below: "key x \<le> key (h ! i)" if "0 < i" "i < length h" "parent i = pos" for i
      using 1(3) that by (simp add: above_children_def)
    have "key ((h[pos := x]) ! parent i) \<le> key ((h[pos := x]) ! i)" if i: "0 < i" "i < length h" for i
    proof (cases "i = pos")
      case True
      then have "parent i \<noteq> pos" "key (h ! parent pos) \<le> key x" using False i parent_less [OF i(1)] by auto
      then show ?thesis using True i by simp
    next
      case other: False
      then show ?thesis using hole [OF i] below [OF i] i parent_less [OF i(1)]
        by (cases "parent i = pos") simp_all
    qed
    then show ?thesis using siftdown_step(2) [OF False] by (simp add: is_heap_def)
  qed
qed

lemma small_child_props:
  assumes "2 * pos + 1 < length h"
  shows "small_child key h pos < length h" "parent (small_child key h pos) = pos" "0 < small_child key h pos"
    "\<And>i. 0 < i \<Longrightarrow> i < length h \<Longrightarrow> parent i = pos \<Longrightarrow> key (h ! small_child key h pos) \<le> key (h ! i)"
  using assms by (auto simp: small_child_def Let_def parent_iff not_less)

lemma siftup_heap:
  assumes "heap_hole key h pos"
  shows "is_heap key (siftup key h pos x) \<and> mset (siftup key h pos x) = mset (h[pos := x])"
  using assms
proof (induction key h pos x rule: siftup.induct)
  case (1 key h pos x)
  show ?case
  proof (cases "2 * pos + 1 < length h")
    case True
    let ?c = "small_child key h pos"
    let ?h = "h[pos := h ! ?c]"
    note c = small_child_props [OF True, where key = key]
    have len: "pos < ?c" using parent_less [OF c(3)] c(2) by simp
    have ord: "key (h ! parent i) \<le> key (h ! i)" if "0 < i" "i < length h" "i \<noteq> pos" "parent i \<noteq> pos" for i
      using 1(2) that by (auto simp: heap_hole_def)
    have "heap_hole key ?h ?c" unfolding heap_hole_def
    proof (intro conjI allI impI)
      show "?c < length ?h" using c(1) by simp
    next
      fix i assume i: "0 < i" "i < length ?h" "i \<noteq> ?c" "parent i \<noteq> ?c"
      show "key (?h ! parent i) \<le> key (?h ! i)"
      proof (cases "i = pos")
        case True
        then have "key (h ! parent pos) \<le> key (h ! ?c)" using 1(2) c i by (simp add: heap_hole_def)
        moreover have "parent pos < pos" using True i(1) parent_less [of pos] by blast
        ultimately show ?thesis using True i(2) by (simp add: nat_neq_iff)
      next
        case False
        then show ?thesis using i c(4) [of i] ord [of i] len 1(2)
          by (cases "parent i = pos") (auto simp: heap_hole_def)
      qed
    next
      fix i assume i: "0 < i" "i < length ?h" "parent i = ?c" "0 < ?c"
      have "i \<noteq> pos" using i(1,3) len parent_less [OF i(1)] by auto
      then show "key (?h ! parent ?c) \<le> key (?h ! i)" using ord [of i] i c len by auto
    qed
    then have "is_heap key (siftup key ?h ?c x) \<and> mset (siftup key ?h ?c x) = mset (?h[?c := x])"
      by (rule 1(1) [OF True refl])
    moreover have "siftup key h pos x = siftup key ?h ?c x" by (rule siftup_step(1) [OF True])
    ultimately show ?thesis using mset_move [of pos h ?c x] len c(1) by simp
  next
    case False
    then have "above_children key h pos x" by (auto simp: above_children_def parent_iff)
    then show ?thesis using siftdown_heap [OF 1(2)] siftup_step(2) [OF False, of key x] by simp
  qed
qed

lemma heap_root:
  assumes "is_heap key h" "i < length h"
  shows "key (h ! 0) \<le> key (h ! i)"
  using assms(2)
proof (induction i rule: less_induct)
  case (less i)
  show ?case
  proof (cases "0 < i")
    case True
    then have "key (h ! 0) \<le> key (h ! parent i)" using less by (auto intro!: less.IH intro: less_trans)
    also have "\<dots> \<le> key (h ! i)" using True less assms(1) by (simp add: is_heap_def)
    finally show ?thesis .
  qed simp
qed

lemma heap_least: "is_heap key h \<Longrightarrow> x \<in> set h \<Longrightarrow> key (h ! 0) \<le> key x"
  by (auto simp: in_set_conv_nth heap_root)

lemma heappush_heap:
  assumes "is_heap key h"
  shows "is_heap key (heappush key h x)" "mset (heappush key h x) = add_mset x (mset h)"
proof -
  have "heap_hole key (h @ [x]) (length h)" unfolding heap_hole_def
  proof (intro conjI allI impI)
    fix i assume i: "0 < i" "i < length (h @ [x])" "i \<noteq> length h" "parent i \<noteq> length h"
    then have "i < length h" "parent i < length h" using parent_less [OF i(1)] by auto
    then show "key ((h @ [x]) ! parent i) \<le> key ((h @ [x]) ! i)"
      using assms i(1) by (simp add: is_heap_def nth_append)
  next
    fix i assume "0 < i" "i < length (h @ [x])" "parent i = length h" "0 < length h"
    then show "key ((h @ [x]) ! parent (length h)) \<le> key ((h @ [x]) ! i)" using parent_less [of i] by simp
  qed simp
  moreover have "above_children key (h @ [x]) (length h) x" unfolding above_children_def
  proof (intro allI impI)
    fix i assume "0 < i" "i < length (h @ [x])" "parent i = length h"
    then show "key x \<le> key ((h @ [x]) ! i)" using parent_less [of i] by simp
  qed
  ultimately show "is_heap key (heappush key h x)" "mset (heappush key h x) = add_mset x (mset h)"
    using siftdown_heap [of key "h @ [x]" "length h" x] by (auto simp: heappush_def)
qed

lemma heap_butlast:
  assumes "is_heap key h"
  shows "is_heap key (butlast h)"
  unfolding is_heap_def
proof (intro allI impI)
  fix i assume i: "0 < i" "i < length (butlast h)"
  then have "parent i < length (butlast h)" using parent_less [OF i(1)] by simp
  then show "key (butlast h ! parent i) \<le> key (butlast h ! i)"
    using assms i by (simp add: is_heap_def nth_butlast)
qed

lemma heappop_heap:
  assumes "is_heap key h" "heappop key h = Some (x, h')"
  shows "is_heap key h'" "mset h = add_mset x (mset h')" "\<forall>y \<in> set h. key x \<le> key y"
proof -
  have h: "h = butlast h @ [last h]" "h \<noteq> []" using assms(2) by (auto simp: heappop_def split: if_splits)
  have "is_heap key h' \<and> mset h = add_mset x (mset h') \<and> x = h ! 0"
  proof (cases "butlast h = []")
    case True
    then have "h = [last h]" using h by simp
    then show ?thesis using assms(2) True
      by (cases h) (auto simp: heappop_def is_heap_def split: if_splits)
  next
    case False
    let ?r = "butlast h"
    have x: "x = ?r ! 0" "h' = siftup key ?r 0 (last h)" using assms(2) False h(2)
      by (auto simp: heappop_def Let_def split: if_splits)
    have "heap_hole key ?r 0" using heap_butlast [OF assms(1)] False
      by (auto simp: heap_hole_def is_heap_def simp del: length_butlast)
    then have s: "is_heap key h' \<and> mset h' = mset (?r[0 := last h])" using siftup_heap [of key ?r 0 "last h"] x(2) by simp
    have "mset h = add_mset (last h) (mset ?r)" by (subst h(1)) simp
    also have "\<dots> = add_mset x (mset (?r[0 := last h]))"
      using False x(1) by (cases "?r") auto
    finally show ?thesis using s x nth_butlast [of 0 h] length_greater_0_conv [THEN iffD2, OF False] by simp
  qed
  then show "is_heap key h'" "mset h = add_mset x (mset h')" "\<forall>y \<in> set h. key x \<le> key y"
    using heap_least [OF assms(1)] by auto
qed

end
