(* ===== verification/Event_Queue.thy ===== *)
theory Event_Queue
  imports Heap_Queue
begin

text \<open>
  The event queue of the schedulers, \<open>EventQueue\<close> in \<open>sim/scheduler.py\<close> and \<open>EventQueueMixin\<close> in
  \<open>sim/event_queue.py\<close>: a heap of events ordered by time and, within a time, by a sequence number. Its
  specification is the list of the pending events in the order they were scheduled.
\<close>

section \<open>The queue\<close>

record 'p timed_event =
  te_time :: int
  te_seq :: nat
  te_process :: 'p

record 'p event_queue =
  eq_queue :: "'p timed_event list"
  eq_seq :: nat

text \<open>\<open>__lt__\<close> compares the times and then the sequence numbers.\<close>

definition event_key :: "'p timed_event \<Rightarrow> int \<times> nat" where
  "event_key e = (te_time e, te_seq e)"

definition empty_queue :: "'p event_queue" where
  "empty_queue = \<lparr>eq_queue = [], eq_seq = 0\<rparr>"

definition schedule :: "int \<Rightarrow> 'p \<Rightarrow> 'p event_queue \<Rightarrow> 'p event_queue" where
  "schedule t p q =
     (let seq = eq_seq q + 1
      in \<lparr>eq_queue = heappush event_key (eq_queue q) \<lparr>te_time = t, te_seq = seq, te_process = p\<rparr>, eq_seq = seq\<rparr>)"

definition peek_time :: "'p event_queue \<Rightarrow> int option" where
  "peek_time q = (case eq_queue q of [] \<Rightarrow> None | e # _ \<Rightarrow> Some (te_time e))"

text \<open>A loop that pops while the first element satisfies a test, at most \<open>n\<close> times.\<close>

fun pop_while :: "('q \<Rightarrow> ('a \<times> 'q) option) \<Rightarrow> ('q \<Rightarrow> 'a option) \<Rightarrow> ('a \<Rightarrow> bool) \<Rightarrow> nat \<Rightarrow> 'q \<Rightarrow> 'a list \<times> 'q" where
  "pop_while pop first P 0 q = ([], q)"
| "pop_while pop first P (Suc n) q = (case (first q, pop q) of
     (Some x, Some (y, q')) \<Rightarrow> (if P x then apfst (Cons y) (pop_while pop first P n q') else ([], q))
   | _ \<Rightarrow> ([], q))"

definition heap_first :: "'a list \<Rightarrow> 'a option" where
  "heap_first h = (case h of [] \<Rightarrow> None | x # _ \<Rightarrow> Some x)"

text \<open>The loop of \<open>pop_at\<close> removes an event in each turn, so it ends within the length of the queue.\<close>

definition pop_at :: "int \<Rightarrow> 'p event_queue \<Rightarrow> 'p list \<times> 'p event_queue" where
  "pop_at t q =
     (let (es, h) = pop_while (heappop event_key) heap_first (\<lambda>e. te_time e = t) (length (eq_queue q)) (eq_queue q)
      in (map te_process es, q\<lparr>eq_queue := h\<rparr>))"

definition is_empty :: "'p event_queue \<Rightarrow> bool" where
  "is_empty q \<longleftrightarrow> eq_queue q = []"

definition clear_queue :: "'p event_queue \<Rightarrow> 'p event_queue" where
  "clear_queue q = q\<lparr>eq_queue := []\<rparr>"

section \<open>The interface of a priority queue\<close>

locale priority_queue =
  fixes push :: "'q \<Rightarrow> 'a \<Rightarrow> 'q"
    and pop :: "'q \<Rightarrow> ('a \<times> 'q) option"
    and first :: "'q \<Rightarrow> 'a option"
    and elems :: "'q \<Rightarrow> 'a multiset"
    and key :: "'a \<Rightarrow> 'k::linorder"
    and inv :: "'q \<Rightarrow> bool"
  assumes inv_push: "inv q \<Longrightarrow> inv (push q x)"
    and elems_push: "inv q \<Longrightarrow> elems (push q x) = add_mset x (elems q)"
    and first_none: "inv q \<Longrightarrow> first q = None \<longleftrightarrow> elems q = {#}"
    and first_pop: "inv q \<Longrightarrow> first q = map_option fst (pop q)"
    and inv_pop: "inv q \<Longrightarrow> pop q = Some (x, q') \<Longrightarrow> inv q'"
    and elems_pop: "inv q \<Longrightarrow> pop q = Some (x, q') \<Longrightarrow> elems q = add_mset x (elems q')"
    and pop_least: "inv q \<Longrightarrow> pop q = Some (x, q') \<Longrightarrow> y \<in># elems q \<Longrightarrow> key x \<le> key y"
begin

lemma first_least: "inv q \<Longrightarrow> first q = Some x \<Longrightarrow> x \<in># elems q \<and> (\<forall>y \<in># elems q. key x \<le> key y)"
  using first_pop [of q] elems_pop [of q] pop_least [of q] by (cases "pop q") force+

text \<open>The elements popped while a test holds that is closed under smaller keys: all that satisfy it, in order.\<close>

lemma pop_while_closed:
  assumes "inv q" "size (elems q) \<le> n"
    and "\<And>x y. x \<in># elems q \<Longrightarrow> y \<in># elems q \<Longrightarrow> P x \<Longrightarrow> key y \<le> key x \<Longrightarrow> P y"
    and "pop_while pop first P n q = (xs, q')"
  shows "inv q' \<and> mset xs = filter_mset P (elems q) \<and> elems q' = filter_mset (\<lambda>x. \<not> P x) (elems q) \<and>
    sorted (map key xs)"
  using assms
proof (induction n arbitrary: q xs)
  case 0
  then show ?case by simp
next
  case (Suc n)
  show ?case
  proof (cases "pop q")
    case None
    then have "first q = None" using first_pop [OF Suc.prems(1)] by simp
    then show ?thesis using first_none [OF Suc.prems(1)] Suc.prems(1,4) by auto
  next
    case (Some y)
    obtain x r where y: "pop q = Some (x, r)" using Some by (cases y) auto
    have first: "first q = Some x" using first_pop [OF Suc.prems(1)] y by simp
    note least = pop_least [OF Suc.prems(1) y] and elems = elems_pop [OF Suc.prems(1) y]
    show ?thesis
    proof (cases "P x")
      case True
      obtain ys where ys: "pop_while pop first P n r = (ys, q')" "xs = x # ys"
        using Suc.prems(4) first y True by (cases "pop_while pop first P n r") auto
      have "inv q' \<and> mset ys = filter_mset P (elems r) \<and> elems q' = filter_mset (\<lambda>x. \<not> P x) (elems r) \<and>
          sorted (map key ys)"
      proof (rule Suc.IH [OF inv_pop [OF Suc.prems(1) y]])
        show "size (elems r) \<le> n" using Suc.prems(2) elems by simp
        show "P b" if "a \<in># elems r" "b \<in># elems r" "P a" "key b \<le> key a" for a b
          using Suc.prems(3) [of a b] that elems by simp
      qed (rule ys(1))
      moreover from this have "\<forall>b \<in> set ys. key x \<le> key b"
        using least elems by (metis add_mset_remove_trivial_eq filter_mset_eq_conv insert_iff mset_subset_eqD
          multiset_filter_subset set_mset_add_mset_insert set_mset_mset)
      ultimately show ?thesis using ys(2) True elems by simp
    next
      case False
      have none: "\<not> P b" if "b \<in># elems q" for b
        using Suc.prems(3) [of b x] least [OF that] that False elems by auto
      then have "filter_mset P (elems q) = {#}" "filter_mset (\<lambda>b. \<not> P b) (elems q) = elems q"
        by (auto intro!: multiset_eqI simp: count_eq_zero_iff)
      then show ?thesis using Suc.prems(1,4) first y False by auto
    qed
  qed
qed

end

text \<open>The heap is such a queue, for every key.\<close>

lemma heappop_first: "heap_first h = map_option fst (heappop key h)"
  by (auto simp: heap_first_def heappop_def Let_def nth_butlast split: list.splits)

interpretation hq: priority_queue "heappush key" "heappop key" heap_first mset key "is_heap key" for key
proof
  show "heap_first q = map_option fst (heappop key q)" for q by (rule heappop_first)
qed (auto simp: heappush_heap heap_first_def dest: heappop_heap split: list.splits)

section \<open>The interface of an event queue\<close>

text \<open>
  The pending events are a list of times and processes in the order they were scheduled: scheduling
  appends, \<open>pop_at\<close> takes the events of the least time in that order.
\<close>

locale scheduling =
  fixes sched :: "int \<Rightarrow> 'p \<Rightarrow> 'q \<Rightarrow> 'q"
    and peek :: "'q \<Rightarrow> int option"
    and take_at :: "int \<Rightarrow> 'q \<Rightarrow> 'p list \<times> 'q"
    and events :: "'q \<Rightarrow> (int \<times> 'p) list"
    and inv :: "'q \<Rightarrow> bool"
  assumes inv_sched: "inv q \<Longrightarrow> inv (sched t p q)"
    and events_sched: "inv q \<Longrightarrow> events (sched t p q) = events q @ [(t, p)]"
    and peek_none: "inv q \<Longrightarrow> peek q = None \<longleftrightarrow> events q = []"
    and peek_some: "inv q \<Longrightarrow> peek q = Some t \<Longrightarrow> t \<in> fst ` set (events q) \<and> (\<forall>(u, p) \<in> set (events q). t \<le> u)"
    and inv_take: "inv q \<Longrightarrow> peek q = Some t \<Longrightarrow> take_at t q = (ps, q') \<Longrightarrow> inv q'"
    and take_list: "inv q \<Longrightarrow> peek q = Some t \<Longrightarrow> take_at t q = (ps, q') \<Longrightarrow>
      ps = map snd (filter (\<lambda>(u, p). u = t) (events q))"
    and events_take: "inv q \<Longrightarrow> peek q = Some t \<Longrightarrow> take_at t q = (ps, q') \<Longrightarrow>
      events q' = filter (\<lambda>(u, p). u \<noteq> t) (events q)"
begin

definition not_before :: "int \<Rightarrow> 'q \<Rightarrow> bool" where
  "not_before t q \<longleftrightarrow> inv q \<and> (\<forall>(u, p) \<in> set (events q). t \<le> u)"

lemma not_before_sched: "not_before t q \<Longrightarrow> t \<le> u \<Longrightarrow> not_before t (sched u p q)"
  by (auto simp: not_before_def inv_sched events_sched)

lemma not_before_peek: "not_before t q \<Longrightarrow> peek q = Some u \<Longrightarrow> t \<le> u \<and> not_before u q"
  using peek_some [of q u] by (fastforce simp: not_before_def)

text \<open>The events taken are gone, and the others come strictly later.\<close>

lemma after_take: "inv q \<Longrightarrow> peek q = Some t \<Longrightarrow> take_at t q = (ps, q') \<Longrightarrow>
    ps \<noteq> [] \<and> inv q' \<and> (\<forall>(u, p) \<in> set (events q'). t < u)"
  using peek_some [of q t] take_list [of q t ps q'] events_take [of q t ps q'] inv_take [of q t ps q']
  by (fastforce simp: filter_empty_conv)

lemma not_before_take: "not_before t q \<Longrightarrow> peek q = Some u \<Longrightarrow> take_at u q = (ps, q') \<Longrightarrow> not_before u q'"
  using after_take [of q u ps q'] by (fastforce simp: not_before_def)

end

section \<open>The queue of the code is one\<close>

definition queue_events :: "'p event_queue \<Rightarrow> (int \<times> 'p) list" where
  "queue_events q = map (\<lambda>e. (te_time e, te_process e)) (sort_key te_seq (eq_queue q))"

definition queue_ok :: "'p event_queue \<Rightarrow> bool" where
  "queue_ok q \<longleftrightarrow> is_heap event_key (eq_queue q) \<and> inj_on te_seq (set (eq_queue q)) \<and>
     (\<forall>e \<in> set (eq_queue q). te_seq e \<le> eq_seq q)"

lemma sort_seq_append:
  assumes "mset ys = add_mset x (mset xs)" "inj_on te_seq (set xs)" "\<forall>e \<in> set xs. te_seq e < te_seq x"
  shows "sort_key te_seq ys = sort_key te_seq xs @ [x]"
proof (rule sort_key_inj_key_eq)
  have set: "set ys = insert x (set xs)"
    using arg_cong [OF assms(1), of set_mset] by (simp only: set_mset_mset set_mset_add_mset_insert)
  show "mset ys = mset (sort_key te_seq xs @ [x])" using assms(1) by simp
  show "inj_on te_seq (set ys)"
    unfolding set inj_on_insert using assms(2,3) by (auto dest!: bspec)
  show "sorted (map te_seq (sort_key te_seq xs @ [x]))"
    using assms(3) by (auto simp: sorted_append intro: less_imp_le)
qed

lemma sort_seq_filter:
  assumes "mset ys = filter_mset P (mset xs)" "inj_on te_seq (set xs)" "sorted (map te_seq ys)"
  shows "ys = filter P (sort_key te_seq xs)"
proof -
  have "sort_key te_seq (filter P xs) = ys"
  proof (rule sort_key_inj_key_eq)
    show "mset (filter P xs) = mset ys" using assms(1) by simp
    show "inj_on te_seq (set (filter P xs))" using assms(2) by (auto simp: inj_on_def)
  qed (rule assms(3))
  then show ?thesis by (simp add: filter_sort)
qed

lemma queue_ok_empty [simp]: "queue_ok empty_queue" "queue_events empty_queue = []"
  by (simp_all add: queue_ok_def empty_queue_def is_heap_def queue_events_def)

lemma schedule_ok:
  assumes "queue_ok q"
  shows "queue_ok (schedule t p q)" "queue_events (schedule t p q) = queue_events q @ [(t, p)]"
proof -
  let ?e = "\<lparr>te_time = t, te_seq = eq_seq q + 1, te_process = p\<rparr>"
  let ?h = "heappush event_key (eq_queue q) ?e"
  have h: "is_heap event_key ?h" "mset ?h = add_mset ?e (mset (eq_queue q))"
    using heappush_heap assms by (auto simp: queue_ok_def)
  have set: "set ?h = insert ?e (set (eq_queue q))"
    using arg_cong [OF h(2), of set_mset] by (simp only: set_mset_mset set_mset_add_mset_insert)
  have less: "\<forall>e \<in> set (eq_queue q). te_seq e < te_seq ?e" using assms by (auto simp: queue_ok_def)
  show "queue_ok (schedule t p q)"
    unfolding queue_ok_def schedule_def Let_def event_queue.simps set
    using h(1) less assms by (auto simp: queue_ok_def inj_on_def)
  show "queue_events (schedule t p q) = queue_events q @ [(t, p)]"
    using sort_seq_append [OF h(2) _ less] assms by (simp add: schedule_def Let_def queue_events_def queue_ok_def)
qed

lemma set_queue_events: "set (queue_events q) = (\<lambda>e. (te_time e, te_process e)) ` set (eq_queue q)"
  by (simp add: queue_events_def)

lemma peek_ok:
  assumes "queue_ok q"
  shows "peek_time q = None \<longleftrightarrow> queue_events q = []"
    "peek_time q = Some t \<Longrightarrow> t \<in> fst ` set (queue_events q) \<and> (\<forall>(u, p) \<in> set (queue_events q). t \<le> u)"
proof -
  show "peek_time q = None \<longleftrightarrow> queue_events q = []"
    by (auto simp: peek_time_def queue_events_def split: list.splits)
  assume "peek_time q = Some t"
  then obtain e es where e: "eq_queue q = e # es" "te_time e = t" by (auto simp: peek_time_def split: list.splits)
  have "te_time e \<le> te_time d" if "d \<in> set (eq_queue q)" for d
    using heap_least [of event_key "eq_queue q" d] that e assms
    by (auto simp: queue_ok_def event_key_def)
  then show "t \<in> fst ` set (queue_events q) \<and> (\<forall>(u, p) \<in> set (queue_events q). t \<le> u)"
    unfolding set_queue_events using e(1) e(2) [symmetric] by (auto simp: set_queue_events)
qed

lemma pop_at_ok:
  assumes "queue_ok q" "peek_time q = Some t" "pop_at t q = (ps, q')"
  shows "queue_ok q'" "ps = map snd (filter (\<lambda>(u, p). u = t) (queue_events q))"
    "queue_events q' = filter (\<lambda>(u, p). u \<noteq> t) (queue_events q)"
proof -
  let ?P = "\<lambda>e. te_time e = t"
  have ok: "is_heap event_key (eq_queue q)" "inj_on te_seq (set (eq_queue q))"
    "\<forall>e \<in> set (eq_queue q). te_seq e \<le> eq_seq q" using assms(1) by (simp_all add: queue_ok_def)
  obtain es h where pop: "pop_while (heappop event_key) heap_first ?P (length (eq_queue q)) (eq_queue q) = (es, h)"
    by (cases "pop_while (heappop event_key) heap_first ?P (length (eq_queue q)) (eq_queue q)") auto
  have q': "ps = map te_process es" "q' = q\<lparr>eq_queue := h\<rparr>" using assms(3) pop by (auto simp: pop_at_def)
  have least: "\<forall>e \<in> set (eq_queue q). t \<le> te_time e"
    using peek_ok(2) [OF assms(1,2)] by (force simp: queue_events_def)
  have es: "is_heap event_key h \<and> mset es = filter_mset ?P (mset (eq_queue q)) \<and>
      mset h = filter_mset (\<lambda>e. \<not> ?P e) (mset (eq_queue q)) \<and> sorted (map event_key es)"
  proof (rule hq.pop_while_closed [OF ok(1) _ _ pop])
    show "size (mset (eq_queue q)) \<le> length (eq_queue q)" by simp
    show "te_time d = t" if "e \<in># mset (eq_queue q)" "d \<in># mset (eq_queue q)" "te_time e = t"
      "event_key d \<le> event_key e" for d e
      using least that by (auto simp: event_key_def)
  qed
  have set: "set es = {e \<in> set (eq_queue q). ?P e}" "set h = {e \<in> set (eq_queue q). \<not> ?P e}"
    using es by (metis set_mset_filter set_mset_mset)+
  have "sorted (map te_seq es)"
  proof -
    have "map event_key es = map (Pair t) (map te_seq es)" using set(1) by (auto simp: event_key_def)
    then have "sorted (map (Pair t) (map te_seq es))" using es by metis
    then show ?thesis by (simp add: sorted_iff_nth_mono)
  qed
  then have "es = filter ?P (sort_key te_seq (eq_queue q))" using sort_seq_filter es ok(2) by blast
  then show "ps = map snd (filter (\<lambda>(u, p). u = t) (queue_events q))"
    using q'(1) by (simp add: queue_events_def filter_map comp_def)
  show "queue_ok q'" using es ok q'(2) by (auto simp: queue_ok_def set(2) inj_on_def)
  have "sort_key te_seq h = filter (\<lambda>e. \<not> ?P e) (sort_key te_seq (eq_queue q))"
  proof (rule sort_seq_filter [OF _ ok(2)])
    show "mset (sort_key te_seq h) = filter_mset (\<lambda>e. \<not> ?P e) (mset (eq_queue q))" using es by simp
  qed simp
  then show "queue_events q' = filter (\<lambda>(u, p). u \<noteq> t) (queue_events q)"
    using q'(2) by (simp add: queue_events_def filter_map comp_def)
qed

interpretation eq: scheduling schedule peek_time pop_at queue_events queue_ok
  by unfold_locales (auto simp: schedule_ok peek_ok dest: pop_at_ok peek_ok(2))

end
