(* ===== verification/Event_Queue_Properties.thy ===== *)
theory Event_Queue_Properties
  imports Event_Queue
begin

text \<open>
  The deliveries of the event queue as a whole: a stable sort of what was scheduled.
\<close>

section \<open>Delivery\<close>

text \<open>The loop that takes the events of the least time, over and over, while nothing new is scheduled.\<close>

fun deliver :: "nat \<Rightarrow> 'p event_queue \<Rightarrow> 'p list" where
  "deliver 0 q = []"
| "deliver (Suc n) q = (case peek_time q of
     None \<Rightarrow> [] | Some t \<Rightarrow> (let (ps, q') = pop_at t q in ps @ deliver n q'))"

lemma sort_least:
  assumes "\<forall>x \<in> set xs. t \<le> f x"
  shows "sort_key f xs = filter (\<lambda>x. f x = t) xs @ sort_key f (filter (\<lambda>x. f x \<noteq> t) xs)"
proof (rule properties_for_sort_key)
  show "mset (filter (\<lambda>x. f x = t) xs @ sort_key f (filter (\<lambda>x. f x \<noteq> t) xs)) = mset xs"
    using multiset_partition [of "mset xs" "\<lambda>x. f x = t"] by simp
  show "sorted (map f (filter (\<lambda>x. f x = t) xs @ sort_key f (filter (\<lambda>x. f x \<noteq> t) xs)))"
  proof -
    have "map f (filter (\<lambda>x. f x = t) xs) = replicate (length (filter (\<lambda>x. f x = t) xs)) t"
      by (induction xs) auto
    then show ?thesis using assms by (auto simp: sorted_append)
  qed
  fix k
  have "filter (\<lambda>x. f k = f x) (sort_key f (filter (\<lambda>x. f x \<noteq> t) xs)) = filter (\<lambda>x. f k = f x) (filter (\<lambda>x. f x \<noteq> t) xs)"
    using sort_key_stable [of f "f k" "filter (\<lambda>x. f x \<noteq> t) xs"] by (simp only: eq_commute [of "f k"])
  moreover have "filter (\<lambda>x. f x = f k \<and> f k = f x) xs = filter (\<lambda>x. f k = f x) xs"
    "filter (\<lambda>x. f x \<noteq> f k \<and> f k = f x) xs = []"
    by (auto simp: filter_empty_conv intro!: filter_cong)
  ultimately show "filter (\<lambda>x. f k = f x) (filter (\<lambda>x. f x = t) xs @ sort_key f (filter (\<lambda>x. f x \<noteq> t) xs)) =
      filter (\<lambda>x. f k = f x) xs"
    by (cases "f k = t") (auto simp: filter_empty_conv intro!: filter_cong)
qed

lemma deliver_events:
  "queue_ok q \<Longrightarrow> length (queue_events q) \<le> n \<Longrightarrow> deliver n q = map snd (sort_key fst (queue_events q))"
proof (induction n arbitrary: q)
  case 0
  then show ?case by simp
next
  case (Suc n)
  show ?case
  proof (cases "peek_time q")
    case None
    then show ?thesis using eq.peek_none [OF Suc.prems(1)] by simp
  next
    case (Some t)
    obtain ps q' where p: "pop_at t q = (ps, q')" by (cases "pop_at t q")
    note pop = pop_at_ok [OF Suc.prems(1) Some p]
    have least: "\<forall>x \<in> set (queue_events q). t \<le> fst x" using peek_ok(2) [OF Suc.prems(1) Some] by auto
    have parts: "filter (\<lambda>x. fst x = t) (queue_events q) = filter (\<lambda>(u, p). u = t) (queue_events q)"
      "filter (\<lambda>x. fst x \<noteq> t) (queue_events q) = queue_events q'"
      using pop(3) by (auto intro!: filter_cong simp: split_def)
    have "t \<in> fst ` set (queue_events q)" using peek_ok(2) [OF Suc.prems(1) Some] by simp
    then have "length (queue_events q') < length (queue_events q)"
      unfolding parts(2) [symmetric] by (auto intro: length_filter_less)
    then have "deliver n q' = map snd (sort_key fst (queue_events q'))" using Suc.IH [OF pop(1)] Suc.prems(2) by simp
    then show ?thesis using Some p pop(2) sort_least [OF least] parts by simp
  qed
qed

lemma schedule_all:
  "queue_ok q \<Longrightarrow> queue_ok (fold (\<lambda>(t, p). schedule t p) rs q) \<and>
     queue_events (fold (\<lambda>(t, p). schedule t p) rs q) = queue_events q @ rs"
  by (induction rs arbitrary: q) (auto simp: schedule_ok)

text \<open>C10: The event queue delivers in time order and first come, first served. Whatever events are scheduled,
  the processes taken from the heap come in the order of their times, and those of one time in the
  order in which they were scheduled: the deliveries are the stable sort of the requests.\<close>

theorem event_queue_stable_sort:
  "deliver (length rs) (fold (\<lambda>(t, p). schedule t p) rs empty_queue) = map snd (sort_key fst rs)"
  using deliver_events [of "fold (\<lambda>(t, p). schedule t p) rs empty_queue" "length rs"] schedule_all [of empty_queue rs]
  by simp

end
