(* ===== verification/Statement_Relation.thy ===== *)
theory Statement_Relation
  imports Nonblocking
begin

text \<open>
  What every statement keeps. A relation between the states before and after that holds for the single
  writes of the executor holds for whole statements, and for every stretch of a generator between two
  suspensions. A statement that raises an error is left out: the scheduler does not go on after it.
\<close>

section \<open>The names that a statement writes\<close>

text \<open>
  A part \<open>m[i]\<close> or \<open>v[h:l]\<close> of a concatenation that is assigned without blocking: the queue holds an
  update of the whole name then, so the name must not be a memory.
\<close>

definition sliced_name :: "expr \<Rightarrow> string option" where
  "sliced_name p = (case p of
     BitSelect (Identifier n h _) _ \<Rightarrow> Some (identifier_name n h)
   | RangeSelect (Identifier n h _) _ _ \<Rightarrow> Some (identifier_name n h)
   | _ \<Rightarrow> None)"

fun queued_parts_ok :: "(string \<Rightarrow> bool) \<Rightarrow> expr \<Rightarrow> bool" where
  "queued_parts_ok sc (Concatenation parts) =
     list_all (\<lambda>p. pred_option sc (sliced_name p) \<and> queued_parts_ok sc p) parts"
| "queued_parts_ok sc _ = True"

definition targets_named :: "(string \<Rightarrow> bool) \<Rightarrow> expr \<Rightarrow> bool" where
  "targets_named ok lhs \<longleftrightarrow> (\<forall>n \<in> target_names lhs. ok n)"

definition readmem_target :: "string \<Rightarrow> expr list \<Rightarrow> string option" where
  "readmem_target name args =
     (if lower name = ''$readmemh'' \<or> lower name = ''$readmemb''
      then (case args of StringLiteral _ # Identifier n h _ # _ \<Rightarrow> Some (identifier_name n h) | _ \<Rightarrow> None) else None)"

text \<open>\<open>ok\<close>: names that may be assigned; \<open>sc\<close>: those that are scalars; \<open>ev\<close>: names that may be triggered.\<close>

primrec stmt_ok :: "(string \<Rightarrow> bool) \<Rightarrow> (string \<Rightarrow> bool) \<Rightarrow> (string \<Rightarrow> bool) \<Rightarrow> stmt \<Rightarrow> bool"
  and item_ok :: "(string \<Rightarrow> bool) \<Rightarrow> (string \<Rightarrow> bool) \<Rightarrow> (string \<Rightarrow> bool) \<Rightarrow> case_item \<Rightarrow> bool" where
  "stmt_ok ok sc ev (BlockingAssign lhs rhs) = targets_named ok lhs"
| "stmt_ok ok sc ev (NonblockingAssign lhs rhs) = (targets_named ok lhs \<and> queued_parts_ok sc lhs)"
| "stmt_ok ok sc ev (SeqBlock name ss) = list_all id (map (stmt_ok ok sc ev) ss)"
| "stmt_ok ok sc ev (ParBlock name ss) = list_all id (map (stmt_ok ok sc ev) ss)"
| "stmt_ok ok sc ev (IfStatement c t e) =
     (pred_option id (map_option (stmt_ok ok sc ev) t) \<and> pred_option id (map_option (stmt_ok ok sc ev) e))"
| "stmt_ok ok sc ev (CaseStatement ct e items) = list_all id (map (item_ok ok sc ev) items)"
| "stmt_ok ok sc ev (ForLoop init c upd body sg) =
     (stmt_ok ok sc ev init \<and> stmt_ok ok sc ev upd \<and> pred_option id (map_option (stmt_ok ok sc ev) body))"
| "stmt_ok ok sc ev (WhileLoop c body) = pred_option id (map_option (stmt_ok ok sc ev) body)"
| "stmt_ok ok sc ev (ForeverLoop body) = pred_option id (map_option (stmt_ok ok sc ev) body)"
| "stmt_ok ok sc ev (RepeatLoop c body) = pred_option id (map_option (stmt_ok ok sc ev) body)"
| "stmt_ok ok sc ev (DelayControl d body) = pred_option id (map_option (stmt_ok ok sc ev) body)"
| "stmt_ok ok sc ev (EventControl evs body) = pred_option id (map_option (stmt_ok ok sc ev) body)"
| "stmt_ok ok sc ev (WaitStatement c body) = pred_option id (map_option (stmt_ok ok sc ev) body)"
| "stmt_ok ok sc ev (DisableStatement target) = True"
| "stmt_ok ok sc ev (EventTrigger name) = ev name"
| "stmt_ok ok sc ev (SystemTaskCall name where args) = pred_option ok (readmem_target name args)"
| "stmt_ok ok sc ev (TaskEnable name args) = True"
| "item_ok ok sc ev (CaseItem vals body d) = pred_option id (map_option (stmt_ok ok sc ev) body)"

section \<open>What may be queued\<close>

definition entry_ok :: "(string \<Rightarrow> bool) \<Rightarrow> eval_ctx \<Rightarrow> nba \<Rightarrow> bool" where
  "entry_ok ok ctx e \<longleftrightarrow> ok (nba_name e) \<and> (case e of
     NbaEntry n v \<Rightarrow> (\<exists>cur. signals ctx n = Some cur \<and> v_width v = v_width cur) | _ \<Rightarrow> True)"

definition queued :: "(nba \<Rightarrow> bool) \<Rightarrow> exec_state \<Rightarrow> exec_state \<Rightarrow> bool" where
  "queued P s s' \<longleftrightarrow> (\<exists>es. s' = queue_nba es s \<and> (\<forall>e \<in> set es. P e))"

lemma queuedI [intro]: "\<forall>e \<in> set es. P e \<Longrightarrow> queued P s (queue_nba es s)"
  by (auto simp: queued_def)

lemma queued_refl [simp]: "queued P s s"
  unfolding queued_def by (rule exI [of _ "[]"]) (simp add: queue_nba_def)

lemma queued_trans: "queued P s t \<Longrightarrow> queued P t u \<Longrightarrow> queued P s u"
  unfolding queued_def by (elim exE conjE, rule_tac x = "es @ esa" in exI) (auto simp: queue_nba_def)

lemma queued_ctx: "queued P s s' \<Longrightarrow> es_ctx s' = es_ctx s"
  by (auto simp: queued_def queue_nba_def)

lemma queued_memory: "ok name \<Longrightarrow> queued (entry_ok ok ctx) s (queue_memory name data w v s)"
  unfolding queue_memory_def by (rule queuedI) (auto simp: entry_ok_def)

text \<open>The names are declared: signals and memories are apart.\<close>

definition apart :: "(string \<Rightarrow> bool) \<Rightarrow> eval_ctx \<Rightarrow> bool" where
  "apart ok ctx \<longleftrightarrow> (\<forall>n. ok n \<longrightarrow> (signals ctx n = None) \<noteq> (memories ctx n = None))"

lemma queued_simple_targets:
  assumes "ok name" "apart ok (es_ctx s)"
  shows "write_identifier False name v s = Inr s' \<Longrightarrow> queued (entry_ok ok (es_ctx s)) s s'"
    "write_bit_select False name i v s = Inr s' \<Longrightarrow> queued (entry_ok ok (es_ctx s)) s s'"
    "write_element_bit False name o' i v s = Inr s' \<Longrightarrow> queued (entry_ok ok (es_ctx s)) s s'"
    "write_range False name m l v s = Inr s' \<Longrightarrow> queued (entry_ok ok (es_ctx s)) s s'"
    "write_element_range False name i m l v s = Inr s' \<Longrightarrow> queued (entry_ok ok (es_ctx s)) s s'"
    "write_part False name b w d v s = Inr s' \<Longrightarrow> queued (entry_ok ok (es_ctx s)) s s'"
    "write_element_part False name i b w d v s = Inr s' \<Longrightarrow> queued (entry_ok ok (es_ctx s)) s s'"
proof -
  show "write_identifier False name v s = Inr s' \<Longrightarrow> queued (entry_ok ok (es_ctx s)) s s'"
    using assms by (cases "signals (es_ctx s) name"; cases "memories (es_ctx s) name")
      (auto simp: write_identifier_def apart_def Let_def entry_ok_def intro: queued_memory split: if_splits)
qed (use assms in \<open>auto simp: write_bit_select_def write_element_bit_def write_range_def write_element_range_def
    write_part_def write_element_part_def write_slice_def write_element_slice_def Let_def rbind_def rmap_def entry_ok_def
    split: option.splits if_splits sum.splits prod.splits\<close>)

lemma queued_simple:
  "targets_named ok lhs \<Longrightarrow> apart ok (es_ctx s) \<Longrightarrow> write_simple False lhs v s = Inr s' \<Longrightarrow>
     queued (entry_ok ok (es_ctx s)) s s'"
  by (auto simp: write_simple_def targets_named_def intro: queued_simple_targets split: expr.splits)

lemma queued_attempt: "(\<And>s'. r = Inr s' \<Longrightarrow> queued P s s') \<Longrightarrow> queued P s (fst (attempt r s))"
  by (simp add: attempt_def split: sum.split)

lemma queued_then_step:
  "queued P s (fst r) \<Longrightarrow> queued P (fst r) (fst (f (fst r))) \<Longrightarrow> queued P s (fst (then_step r f))"
  by (cases r) (auto simp: then_step_def intro: queued_trans split: option.split)

text \<open>The collected updates of a concatenation.\<close>

definition pending_ok :: "(string \<Rightarrow> bool) \<Rightarrow> eval_ctx \<Rightarrow> pending \<Rightarrow> bool" where
  "pending_ok ok ctx pend \<longleftrightarrow> (\<forall>(n, v) \<in> set pend. entry_ok ok ctx (NbaEntry n v))"

lemma pending_ok_update:
  "pending_ok ok ctx pend \<Longrightarrow> entry_ok ok ctx (NbaEntry n v) \<Longrightarrow> pending_ok ok ctx (AList.update n v pend)"
proof -
  have "set (AList.update n v pend) \<subseteq> insert (n, v) (set pend)" by (induction pend) auto
  then show "pending_ok ok ctx pend \<Longrightarrow> entry_ok ok ctx (NbaEntry n v) \<Longrightarrow> pending_ok ok ctx (AList.update n v pend)"
    unfolding pending_ok_def by blast
qed

lemma pending_value_ok:
  assumes "pending_ok ok (es_ctx s) pend" "pending_value s pend n = Inr v" "signals (es_ctx s) n = Some cur"
  shows "v_width v = v_width cur"
  using assms by (auto simp: pending_value_def pending_ok_def entry_ok_def read_signal_def dest!: map_of_SomeD split: option.splits)

definition accumulated_ok :: "(string \<Rightarrow> bool) \<Rightarrow> exec_state \<Rightarrow> step \<times> pending \<Rightarrow> bool" where
  "accumulated_ok ok s r \<longleftrightarrow> queued (entry_ok ok (es_ctx s)) s (fst (fst r)) \<and> pending_ok ok (es_ctx s) (snd r)"

lemma accumulate_put:
  assumes "pending_ok ok (es_ctx s) pend" "ok name" "signals (es_ctx s) name = Some cur"
    and "\<And>u. r = Inr u \<Longrightarrow> v_width u = v_width cur"
  shows "accumulated_ok ok s (case r of Inl e \<Rightarrow> ((s, Some e), pend) | Inr u \<Rightarrow> ((s, None), AList.update name u pend))"
  using assms by (auto simp: accumulated_ok_def entry_ok_def intro!: pending_ok_update split: sum.split)

lemma accumulate_ok:
  assumes "apart ok (es_ctx s)" "\<And>n. sc n \<Longrightarrow> ok n \<and> memories (es_ctx s) n = None"
    and "targets_named ok part" "pred_option sc (sliced_name part)" "pending_ok ok (es_ctx s) pend"
    and "\<And>v. queued (entry_ok ok (es_ctx s)) s (fst (wr v s))"
  shows "accumulated_ok ok s (accumulate part wr v s pend)"
proof -
  have other: "accumulated_ok ok s (wr v s, pend)" using assms(5,6) by (simp add: accumulated_ok_def)
  have keep: "accumulated_ok ok s ((s, x), pend)" for x using assms(5) by (simp add: accumulated_ok_def)
  consider (whole) n h r where "part = Identifier n h r"
    | (bit) n h r i where "part = BitSelect (Identifier n h r) i"
    | (range) n h r m l where "part = RangeSelect (Identifier n h r) m l"
    | (else) "accumulate part wr v s pend = (wr v s, pend)"
    by (cases part; cases "case part of BitSelect t _ \<Rightarrow> t | RangeSelect t _ _ \<Rightarrow> t | _ \<Rightarrow> part") (auto simp: accumulate_def)
  then show ?thesis
  proof cases
    case whole
    let ?n = "identifier_name n h"
    have n: "ok ?n" using assms(3) whole by (simp add: targets_named_def)
    show ?thesis
    proof (cases "memories (es_ctx s) ?n")
      case None
      then obtain cur where cur: "signals (es_ctx s) ?n = Some cur" using assms(1) n by (auto simp: apart_def)
      have "accumulate part wr v s pend =
        (case rmap (\<lambda>cur. if v_width v \<noteq> v_width cur then resize v (v_width cur) else v) (read_signal (es_ctx s) ?n) of
           Inl e \<Rightarrow> ((s, Some e), pend) | Inr u \<Rightarrow> ((s, None), AList.update ?n u pend))"
        using None whole by (simp add: accumulate_def Let_def)
      moreover have "accumulated_ok ok s \<dots>"
        by (rule accumulate_put [OF assms(5) n cur]) (auto simp: read_signal_def cur)
      ultimately show ?thesis by simp
    next
      case (Some p)
      then show ?thesis using whole n assms(5)
        by (cases p) (simp add: accumulate_def accumulated_ok_def queued_memory)
    qed
  next
    case bit
    let ?n = "identifier_name n h"
    have n: "ok ?n" and m: "memories (es_ctx s) ?n = None"
      using assms(2)[of ?n] assms(4) bit by (auto simp: sliced_name_def)
    obtain cur where cur: "signals (es_ctx s) ?n = Some cur" using assms(1) n m by (auto simp: apart_def)
    have "accumulated_ok ok s (case rbind (pending_value s pend ?n)
        (\<lambda>cur. set_bit4 cur (v_val iv) (v_val v AND 1) (v_mask v AND 1)) of
      Inl e \<Rightarrow> ((s, Some e), pend) | Inr u \<Rightarrow> ((s, None), AList.update ?n u pend))" for iv :: val4
      by (rule accumulate_put [OF assms(5) n cur])
        (auto simp: rbind_eq_Inr_iff dest!: set_bit4_wf pending_value_ok [OF assms(5) _ cur])
    then show ?thesis using bit keep
      by (cases "eval (es_ctx s) i 0 None") (simp_all add: accumulate_def Let_def)
  next
    case range
    let ?n = "identifier_name n h"
    have n: "ok ?n" and m: "memories (es_ctx s) ?n = None"
      using assms(2)[of ?n] assms(4) range by (auto simp: sliced_name_def)
    obtain cur where cur: "signals (es_ctx s) ?n = Some cur" using assms(1) n m by (auto simp: apart_def)
    have "accumulated_ok ok s (case rmap (\<lambda>cur. set_range cur a b v) (pending_value s pend ?n) of
      Inl e \<Rightarrow> ((s, Some e), pend) | Inr u \<Rightarrow> ((s, None), AList.update ?n u pend))" for a b
      by (rule accumulate_put [OF assms(5) n cur])
        (auto simp: rmap_eq_Inr_iff dest!: pending_value_ok [OF assms(5) _ cur])
    then show ?thesis using range keep by (auto simp: accumulate_def Let_def split: sum.split)
  next
    case else
    then show ?thesis using other by simp
  qed
qed


definition writer_queues :: "(string \<Rightarrow> bool) \<Rightarrow> eval_ctx \<Rightarrow> (val4 \<Rightarrow> exec_state \<Rightarrow> step) \<Rightarrow> bool" where
  "writer_queues ok ctx wr \<longleftrightarrow> (\<forall>v s. es_ctx s = ctx \<longrightarrow> queued (entry_ok ok ctx) s (fst (wr v s)))"

lemma queued_queue_parts:
  assumes "\<forall>p \<in> set ps. targets_named ok (fst p) \<and> pred_option sc (sliced_name (fst p)) \<and> writer_queues ok ctx (snd p)"
    and "apart ok ctx" "\<And>n. sc n \<Longrightarrow> ok n \<and> memories ctx n = None" "es_ctx s = ctx" "pending_ok ok ctx pend"
  shows "queued (entry_ok ok ctx) s (fst (queue_parts ps pos v pend s))"
  using assms(1,4,5)
proof (induction ps pos v pend s rule: queue_parts.induct)
  case (1 pos v pend s)
  then show ?case by (auto simp: pending_ok_def intro!: queuedI)
next
  case (2 p wr ps pos v pend s)
  show ?case
  proof (cases "lhs_width (es_ctx s) p")
    case (Inr w)
    obtain r pend' where a: "accumulate p wr (get_range v (pos - 1) (pos - w)) s pend = (r, pend')"
      by (cases "accumulate p wr (get_range v (pos - 1) (pos - w)) s pend")
    have acc: "accumulated_ok ok s (accumulate p wr (get_range v (pos - 1) (pos - w)) s pend)"
      by (rule accumulate_ok [where sc = sc]) (use 2(2-4) assms(2,3) in \<open>auto simp: writer_queues_def\<close>)
    then have q: "queued (entry_ok ok ctx) s (fst r)" "pending_ok ok ctx pend'"
      using a 2(3) by (simp_all add: accumulated_ok_def)
    have "queued (entry_ok ok ctx) (fst r) (fst (queue_parts ps (pos - w) v pend' (fst r)))"
      using 2(1) [OF Inr a [symmetric]] 2(2,3) q queued_ctx [OF q(1)] by simp
    then show ?thesis using Inr a q(1) by (auto intro!: queued_then_step)
  qed simp
qed

lemma queued_target:
  assumes "apart ok (es_ctx s)" "\<And>n. sc n \<Longrightarrow> ok n \<and> memories (es_ctx s) n = None"
  shows "targets_named ok lhs \<Longrightarrow> queued_parts_ok sc lhs \<Longrightarrow>
    queued (entry_ok ok (es_ctx s)) s (fst (write_target False lhs v s))"
  using assms
proof (induction False lhs v s rule: write_target.induct)
  case (1 parts v s)
  show ?case
  proof (cases "sum_res (map (lhs_width (es_ctx s)) parts)")
    case (Inr w)
    have "writer_queues ok (es_ctx s) (write_target False p)" if "p \<in> set parts" for p
      unfolding writer_queues_def
    proof (intro allI impI)
      fix u and t :: exec_state assume t: "es_ctx t = es_ctx s"
      have "targets_named ok p" "queued_parts_ok sc p"
        using that 1(2,3) by (auto simp: targets_named_def list_all_iff)
      then show "queued (entry_ok ok (es_ctx s)) t (fst (write_target False p u t))"
        using 1(1) [OF Inr that, of t u] 1(4,5) t by simp
    qed
    then have "\<forall>q \<in> set (map (\<lambda>p. (p, write_target False p)) parts). targets_named ok (fst q) \<and>
        pred_option sc (sliced_name (fst q)) \<and> writer_queues ok (es_ctx s) (snd q)"
      using 1(2,3) by (auto simp: targets_named_def list_all_iff)
    from queued_queue_parts [OF this 1(4,5) refl] show ?thesis
      using Inr by (simp add: Let_def pending_ok_def)
  qed simp
qed (simp only: write_target.simps, rule queued_attempt, rule queued_simple, assumption+)+


lemma queued_elements: "ok name \<Longrightarrow> queued (entry_ok ok ctx) s (write_elements False name vs w s)"
  by (auto simp: write_elements_def entry_ok_def intro!: queuedI)

lemma queued_whole_memory:
  assumes "targets_named ok lhs"
  shows "copy_whole_memory False lhs rhs s = Some s' \<Longrightarrow> queued (entry_ok ok ctx) s s'"
    "assign_pattern_to_memory False lhs rhs s = Some r \<Longrightarrow> queued (entry_ok ok ctx) s (fst (attempt r s))"
  using assms
  by (auto simp: copy_whole_memory_def assign_pattern_to_memory_def rmap_def rbind_def attempt_def targets_named_def
      intro: queued_elements split: expr.splits prod.splits option.splits if_splits sum.splits)

lemma queued_assign:
  assumes "apart ok (es_ctx s)" "\<And>n. sc n \<Longrightarrow> ok n \<and> memories (es_ctx s) n = None"
    and "targets_named ok lhs" "queued_parts_ok sc lhs"
  shows "queued (entry_ok ok (es_ctx s)) s (fst (assign False lhs rhs s))"
    "queued (entry_ok ok (es_ctx s)) s (fst (co_assign False lhs rhs s))"
proof -
  note t = queued_target [OF assms] queued_whole_memory [OF assms(3)]
  show "queued (entry_ok ok (es_ctx s)) s (fst (assign False lhs rhs s))"
    by (cases "scalar_target (es_ctx s) lhs"; cases "copy_whole_memory False lhs rhs s";
        cases "assign_pattern_to_memory False lhs rhs s") (simp_all add: assign_def Let_def t split: sum.split)
  show "queued (entry_ok ok (es_ctx s)) s (fst (co_assign False lhs rhs s))"
    by (cases "copy_whole_memory False lhs rhs s"; cases "assign_pattern_to_memory False lhs rhs s")
      (simp_all add: co_assign_def t split: sum.split)
qed

section \<open>The interface\<close>

text \<open>The change of a whole memory, or of one of its elements, by a blocking assignment.\<close>

definition set_memory_noted :: "string \<Rightarrow> val4 list \<Rightarrow> nat \<Rightarrow> exec_state \<Rightarrow> exec_state" where
  "set_memory_noted name vs w s = note_original name (Some (known 0 1))
     (s\<lparr>es_ctx := (es_ctx s)\<lparr>memories := (memories (es_ctx s))(name \<mapsto> (vs, w))\<rparr>\<rparr>)"

definition result_kept :: "(exec_state \<Rightarrow> exec_state \<Rightarrow> bool) \<Rightarrow> exec_state \<Rightarrow> exec_result \<Rightarrow> bool" where
  "result_kept rel s r \<longleftrightarrow> (\<forall>e. snd r \<noteq> Failed e) \<longrightarrow> rel s (fst r)"

definition kept :: "(exec_state \<Rightarrow> bool) \<Rightarrow> (exec_state \<Rightarrow> exec_state \<Rightarrow> bool) \<Rightarrow> (exec_state \<Rightarrow> exec_result) \<Rightarrow> bool" where
  "kept ready rel f \<longleftrightarrow> (\<forall>s. ready s \<longrightarrow> result_kept rel s (f s))"

definition writer_keeps :: "(exec_state \<Rightarrow> bool) \<Rightarrow> (exec_state \<Rightarrow> exec_state \<Rightarrow> bool) \<Rightarrow> (val4 \<Rightarrow> exec_state \<Rightarrow> step) \<Rightarrow> bool" where
  "writer_keeps ready rel wr \<longleftrightarrow> (\<forall>v s s'. ready s \<longrightarrow> wr v s = (s', None) \<longrightarrow> rel s s')"

text \<open>The stretches of a generator between its suspensions; it may be resumed in any ready state.\<close>

primrec co_kept :: "(exec_state \<Rightarrow> bool) \<Rightarrow> (exec_state \<Rightarrow> exec_state \<Rightarrow> bool) \<Rightarrow> coroutine \<Rightarrow> exec_state \<Rightarrow> bool" where
  "co_kept ready rel (Return s' c) = (\<lambda>s. (\<forall>e. c \<noteq> Failed e) \<longrightarrow> rel s s')"
| "co_kept ready rel (Yield d evs s' k) = (\<lambda>s. rel s s' \<and> (\<forall>t. ready t \<longrightarrow> co_kept ready rel (k t) t))"

definition co_keeps :: "(exec_state \<Rightarrow> bool) \<Rightarrow> (exec_state \<Rightarrow> exec_state \<Rightarrow> bool) \<Rightarrow> (exec_state \<Rightarrow> coroutine) \<Rightarrow> bool" where
  "co_keeps ready rel f \<longleftrightarrow> (\<forall>s. ready s \<longrightarrow> co_kept ready rel (f s) s)"

lemma seq_res_length: "seq_res rs = Inr vs \<Longrightarrow> length vs = length rs"
  by (induction rs arbitrary: vs) (auto simp: rbind_eq_Inr_iff rmap_eq_Inr_iff)

lemma of_step_completion: "snd (of_step r) = (case snd r of None \<Rightarrow> Completed | Some e \<Rightarrow> Failed e)"
  by (simp add: of_step_def split: prod.split option.split)

locale statement_relation =
  fixes ready :: "exec_state \<Rightarrow> bool"
    and rel :: "exec_state \<Rightarrow> exec_state \<Rightarrow> bool"
    and ok sc ev :: "string \<Rightarrow> bool"
  assumes rel_trans: "rel a b \<Longrightarrow> rel b c \<Longrightarrow> rel a c"
    and ready_rel: "ready s \<Longrightarrow> rel s s' \<Longrightarrow> ready s'"
    and ready_apart: "ready s \<Longrightarrow> apart ok (es_ctx s)"
    and ready_scalar: "ready s \<Longrightarrow> sc n \<Longrightarrow> ok n \<and> memories (es_ctx s) n = None"
    and ready_event: "ready s \<Longrightarrow> ev n \<Longrightarrow> ok n \<and> (\<exists>cur. signals (es_ctx s) n = Some cur \<and> v_width cur = 1)"
    and ok_name: "ok n \<Longrightarrow> CHR ''['' \<in> set n \<Longrightarrow> last n \<noteq> CHR '']''"
    and rel_signal: "ready s \<Longrightarrow> ok n \<Longrightarrow> signals (es_ctx s) n = Some cur \<Longrightarrow> v_width v = v_width cur \<Longrightarrow>
      rel s (write_plain n v s)"
    and rel_memory: "ready s \<Longrightarrow> ok n \<Longrightarrow> memories (es_ctx s) n = Some (data, w) \<Longrightarrow> length vs = length data \<Longrightarrow>
      rel s (set_memory_noted n vs w s)"
    and rel_queue: "ready s \<Longrightarrow> \<forall>e \<in> set es. entry_ok ok (es_ctx s) e \<Longrightarrow> rel s (queue_nba es s)"
    and rel_same: "ready s \<Longrightarrow> es_ctx s' = es_ctx s \<Longrightarrow> es_originals s' = es_originals s \<Longrightarrow> es_nba s' = es_nba s \<Longrightarrow>
      rel s s'"
begin

lemma rel_refl: "ready s \<Longrightarrow> rel s s"
  by (simp add: rel_same)

lemma rel_queued: "ready s \<Longrightarrow> queued (entry_ok ok (es_ctx s)) s s' \<Longrightarrow> rel s s'"
  by (auto simp: queued_def intro: rel_queue)

lemma declared_cases:
  assumes "ready s" "ok n"
  obtains cur where "signals (es_ctx s) n = Some cur" "memories (es_ctx s) n = None"
  | data w where "signals (es_ctx s) n = None" "memories (es_ctx s) n = Some (data, w)"
proof -
  have "(signals (es_ctx s) n = None) \<noteq> (memories (es_ctx s) n = None)"
    using ready_apart [OF assms(1)] assms(2) by (simp add: apart_def)
  then show ?thesis using that by (cases "signals (es_ctx s) n"; cases "memories (es_ctx s) n") auto
qed

lemma rel_store: "ready s \<Longrightarrow> ok n \<Longrightarrow> memories (es_ctx s) n = Some (data, w) \<Longrightarrow> rel s (store_element n i v s)"
  using rel_memory [of s n data w "data[i := v]"] by (simp add: store_element_def set_element_def set_memory_noted_def)

lemma write_whole_noted:
  assumes "memories (es_ctx s) n = Some (data, w)" "write_whole_memory (es_ctx s) n v = Some ctx'"
  obtains vs where "length vs = length data"
    "note_original n (Some (known 0 1)) (s\<lparr>es_ctx := ctx'\<rparr>) = set_memory_noted n vs w s"
proof (cases "data = []")
  case True
  then have "ctx' = es_ctx s" using assms by (simp add: write_whole_memory_def)
  moreover have "(memories (es_ctx s))(n \<mapsto> ([], w)) = memories (es_ctx s)" using assms(1) True by (simp add: fun_upd_idem)
  ultimately show ?thesis using that [of "[]"] True by (simp add: set_memory_noted_def)
next
  case False
  then show ?thesis using that [of "split_whole v (length data) w"] assms
    by (auto simp: write_whole_memory_def set_memory_noted_def split_whole_def Let_def)
qed

lemma rel_write_signal:
  assumes "ready s" "ok n" "\<And>cur. signals (es_ctx s) n = Some cur \<Longrightarrow> v_width v = v_width cur"
    and "write_signal n v s = Inr s'"
  shows "rel s s'"
proof -
  have b: "\<not> (CHR ''['' \<in> set n \<and> last n = CHR '']'')" using ok_name assms(2) by blast
  show ?thesis
    using assms(1,2)
  proof (cases rule: declared_cases)
    case (1 cur)
    then have "s' = write_plain n v s" using b assms(4) by (auto simp: write_signal_def write_whole_memory_def)
    then show ?thesis using rel_signal [OF assms(1,2) 1(1) assms(3) [OF 1(1)]] by simp
  next
    case (2 data w)
    obtain ctx' where c: "write_whole_memory (es_ctx s) n v = Some ctx'" using 2 by (simp add: write_whole_memory_def)
    obtain vs where vs: "length vs = length data"
      "note_original n (Some (known 0 1)) (s\<lparr>es_ctx := ctx'\<rparr>) = set_memory_noted n vs w s"
      using write_whole_noted [OF 2(2) c] .
    have "s' = note_original n (Some (known 0 1)) (s\<lparr>es_ctx := ctx'\<rparr>)"
      using assms(4) unfolding write_signal_def if_not_P [OF b] c by simp
    then show ?thesis using rel_memory [OF assms(1,2) 2(2) vs(1)] by (simp only: vs(2))
  qed
qed

lemma read_signal_width:
  "read_signal (es_ctx s) n = Inr v \<Longrightarrow> signals (es_ctx s) n = Some cur \<Longrightarrow> v = cur"
  by (simp add: read_signal_def)

lemma rel_write_slice:
  assumes "ready s" "ok n" "write_slice True n m l v s = Inr s'"
  shows "rel s s'"
proof -
  obtain cur where c: "read_signal (es_ctx s) n = Inr cur" "write_signal n (set_range cur m l v) s = Inr s'"
    using assms(3) by (auto simp: write_slice_def rbind_eq_Inr_iff)
  show ?thesis by (rule rel_write_signal [OF assms(1,2) _ c(2)]) (simp add: read_signal_width [OF c(1)])
qed

lemma rel_write_identifier:
  assumes "ready s" "ok n" "write_identifier True n v s = Inr s'"
  shows "rel s s'"
  using assms(1,2)
proof (cases rule: declared_cases)
  case (1 cur)
  then have "write_signal n (if v_width cur \<noteq> v_width v then resize v (v_width cur) else v) s = Inr s'"
    using assms(3) by (simp add: write_identifier_def)
  from rel_write_signal [OF assms(1,2) _ this] 1 show ?thesis by auto
next
  case (2 data w)
  show ?thesis
  proof (cases "CHR ''['' \<in> set n")
    case True
    then show ?thesis using 2 assms(1,3) rel_refl by (simp add: write_identifier_def)
  next
    case False
    let ?u = "if v_width v \<noteq> length data * w then resize v (length data * w) else v"
    obtain ctx' where c: "write_whole_memory (es_ctx s) n ?u = Some ctx'" using 2 by (simp add: write_whole_memory_def)
    obtain vs where vs: "length vs = length data"
      "note_original n (Some (known 0 1)) (s\<lparr>es_ctx := ctx'\<rparr>) = set_memory_noted n vs w s"
      using write_whole_noted [OF 2(2) c] .
    have "s' = set_memory_noted n vs w s"
      using assms(3) 2 False c vs(2) unfolding write_identifier_def by (simp add: Let_def)
    then show ?thesis using rel_memory [OF assms(1,2) 2(2) vs(1)] by simp
  qed
qed

lemma rel_write_bit_select:
  assumes "ready s" "ok n" "write_bit_select True n i v s = Inr s'"
  shows "rel s s'"
proof -
  obtain iv where iv: "eval (es_ctx s) i 0 None = Inr iv"
    using assms(3) by (cases "eval (es_ctx s) i 0 None") (simp_all add: write_bit_select_def)
  show ?thesis
    using assms(1,2)
  proof (cases rule: declared_cases)
    case (1 cur)
    let ?i = "v_val iv - signal_bases (es_ctx s) n"
    have r: "read_signal (es_ctx s) n = Inr cur" using 1 by (simp add: read_signal_def)
    consider "s' = s"
      | u where "set_bit4 cur ?i (v_val v AND 1) (v_mask v AND 1) = Inr u" "write_signal n u s = Inr s'"
      using assms(3) 1(2) iv r
      by (auto simp: write_bit_select_def Let_def rbind_eq_Inr_iff split: if_splits)
    then show ?thesis
    proof cases
      case (2 u)
      show ?thesis
        by (rule rel_write_signal [OF assms(1,2) _ 2(2)]) (use set_bit4_wf [OF 2(1)] 1(1) in auto)
    qed (use assms(1) rel_refl in simp)
  next
    case (2 data w)
    then show ?thesis using assms(1,3) iv rel_refl rel_store [OF assms(1,2) 2(2)]
      by (auto simp: write_bit_select_def Let_def split: if_splits)
  qed
qed

lemma rel_element_slice:
  "ready s \<Longrightarrow> ok n \<Longrightarrow> memories (es_ctx s) n = Some (data, w) \<Longrightarrow> rel s (write_element_slice True n d i m l v s)"
  by (simp add: write_element_slice_def rel_store)

lemma rel_simple_targets:
  assumes "ready s" "ok n"
  shows "write_element_bit True n o' i v s = Inr s' \<Longrightarrow> rel s s'"
    "write_range True n m l v s = Inr s' \<Longrightarrow> rel s s'"
    "write_element_range True n i m l v s = Inr s' \<Longrightarrow> rel s s'"
  using assms
  by (auto simp: write_element_bit_def write_range_def write_element_range_def Let_def rbind_eq_Inr_iff rmap_eq_Inr_iff
      intro: rel_refl rel_store rel_element_slice dest: rel_write_slice split: option.splits if_splits prod.splits)

lemma rel_write_part: "ready s \<Longrightarrow> ok n \<Longrightarrow> write_part True n b w d v s = Inr s' \<Longrightarrow> rel s s'"
  by (auto simp: write_part_def Let_def rbind_eq_Inr_iff case_prod_unfold
      intro: rel_refl dest: rel_write_slice split: if_splits)

lemma rel_write_element_part:
  assumes "ready s" "ok n" "write_element_part True n i b w d v s = Inr s'"
  shows "rel s s'"
proof (cases "memories (es_ctx s) n")
  case None
  then show ?thesis using assms rel_refl by (simp add: write_element_part_def)
next
  case (Some p)
  obtain data w' where p: "p = (data, w')" by (cases p)
  note slice = rel_element_slice [OF assms(1,2) Some [unfolded p]]
  show ?thesis using assms(1,3) Some p
    by (auto simp: write_element_part_def Let_def rbind_eq_Inr_iff rmap_eq_Inr_iff case_prod_unfold
        intro: rel_refl slice split: if_splits)
qed

lemma rel_write_simple:
  "ready s \<Longrightarrow> targets_named ok lhs \<Longrightarrow> write_simple True lhs v s = Inr s' \<Longrightarrow> rel s s'"
  by (auto simp: write_simple_def targets_named_def rel_refl
      intro: rel_simple_targets rel_write_part rel_write_element_part rel_write_identifier rel_write_bit_select split: expr.splits)

lemma rel_then_step:
  assumes "ready s" "\<And>s1. r = (s1, None) \<Longrightarrow> rel s s1" "\<And>s1 s2. ready s1 \<Longrightarrow> f s1 = (s2, None) \<Longrightarrow> rel s1 s2"
    and "then_step r f = (s', None)"
  shows "rel s s'"
proof -
  obtain s1 where 1: "r = (s1, None)" "f s1 = (s', None)"
    using assms(4) by (cases r) (auto simp: then_step_def split: option.splits)
  have "rel s s1" using assms(2) 1(1) by simp
  then show ?thesis using rel_trans ready_rel [OF assms(1)] assms(3) 1(2) by blast
qed

lemma rel_write_parts:
  assumes "\<forall>p \<in> set ps. writer_keeps ready rel (snd p)"
  shows "ready s \<Longrightarrow> write_parts ps pos v s = (s', None) \<Longrightarrow> rel s s'"
  using assms
proof (induction ps pos v s arbitrary: s' rule: write_parts.induct)
  case (1 pos v s)
  then show ?case by (simp add: rel_refl)
next
  case (2 p wr ps pos v s)
  obtain w where w: "lhs_width (es_ctx s) p = Inr w" using 2(3) by (cases "lhs_width (es_ctx s) p") auto
  show ?case
  proof (rule rel_then_step [OF 2(2)])
    show "then_step (wr (get_range v (pos - 1) (pos - w)) s) (write_parts ps (pos - w) v) = (s', None)"
      using 2(3) w by simp
  qed (use 2(1) [OF w] 2(2,4) in \<open>auto simp: writer_keeps_def\<close>)
qed

lemma rel_write_target:
  "targets_named ok lhs \<Longrightarrow> ready s \<Longrightarrow> write_target True lhs v s = (s', None) \<Longrightarrow> rel s s'"
proof (induction True lhs v s arbitrary: s' rule: write_target.induct)
  case (1 parts v s)
  obtain w where w: "sum_res (map (lhs_width (es_ctx s)) parts) = Inr w"
    using 1(4) by (cases "sum_res (map (lhs_width (es_ctx s)) parts)") auto
  have "\<forall>q \<in> set (map (\<lambda>p. (p, write_target True p)) parts). writer_keeps ready rel (snd q)"
    using 1(1) [OF w] 1(2) by (auto simp: writer_keeps_def targets_named_def)
  from rel_write_parts [OF this 1(3)] show ?case using 1(4) w by (simp add: Let_def)
qed (auto simp: attempt_def intro: rel_write_simple split: sum.splits)

lemma rel_elements:
  assumes "ready s" "ok n" "memories (es_ctx s) n = Some (data, w)" "length vs = length data"
  shows "rel s (write_elements True n vs w s)"
  using rel_memory [OF assms] by (simp add: write_elements_def set_memory_noted_def)

lemma rel_whole_memory:
  assumes "ready s" "targets_named ok lhs"
  shows "copy_whole_memory True lhs rhs s = Some s' \<Longrightarrow> rel s s'"
    "assign_pattern_to_memory True lhs rhs s = Some (Inr s') \<Longrightarrow> rel s s'"
proof -
  show "rel s s'" if "copy_whole_memory True lhs rhs s = Some s'"
    using assms that
    by (auto simp: copy_whole_memory_def targets_named_def intro!: rel_elements
        split: expr.splits option.splits prod.splits if_splits)
  show "rel s s'" if "assign_pattern_to_memory True lhs rhs s = Some (Inr s')"
    using assms that
    by (auto simp: assign_pattern_to_memory_def targets_named_def rmap_eq_Inr_iff intro!: rel_elements
        dest!: seq_res_length split: expr.splits option.splits prod.splits if_splits)
qed

lemma rel_assign:
  assumes "ready s" "targets_named ok lhs" "\<not> im \<longrightarrow> queued_parts_ok sc lhs"
  shows "assign im lhs rhs s = (s', None) \<Longrightarrow> rel s s'" "co_assign im lhs rhs s = (s', None) \<Longrightarrow> rel s s'"
proof -
  note t = rel_write_target [OF assms(2,1)] rel_whole_memory [OF assms(1,2)]
  show "rel s s'" if r: "assign im lhs rhs s = (s', None)"
  proof (cases im)
    case True
    then show ?thesis using r t
      by (auto simp: assign_def Let_def attempt_def split: option.splits sum.splits)
  next
    case False
    then show ?thesis
      using queued_assign(1) [OF ready_apart [OF assms(1)] ready_scalar [OF assms(1)] assms(2), where rhs = rhs] assms(1,3) r
      by (auto intro: rel_queued)
  qed
  show "rel s s'" if r: "co_assign im lhs rhs s = (s', None)"
  proof (cases im)
    case True
    then show ?thesis using r t
      by (auto simp: co_assign_def attempt_def split: option.splits sum.splits)
  next
    case False
    then show ?thesis
      using queued_assign(2) [OF ready_apart [OF assms(1)] ready_scalar [OF assms(1)] assms(2), where rhs = rhs] assms(1,3) r
      by (auto intro: rel_queued)
  qed
qed

lemma rel_trigger:
  assumes "ready s" "ev n" "trigger_event n s = (s', None)"
  shows "rel s s'"
proof -
  obtain cur where n: "ok n" "signals (es_ctx s) n = Some cur" "v_width cur = 1"
    using ready_event [OF assms(1,2)] by blast
  have "write_signal n (known (if v_val cur \<noteq> 0 then 0 else 1) 1) s = Inr s'"
    using assms(3) n(2) by (auto simp: trigger_event_def read_signal_def attempt_def split: sum.splits)
  from rel_write_signal [OF assms(1) n(1) _ this] show ?thesis using n(2,3) by simp
qed

lemma rel_display:
  assumes "ready s" "exec_display args s = (s', c)" "\<forall>e. c \<noteq> Failed e"
  shows "rel s s'"
  using assms by (auto simp: exec_display_def intro!: rel_same split: sum.splits)

lemma rel_readmem:
  assumes "ready s" "pred_option ok (readmem_target name args)" "lower name = ''$readmemh'' \<or> lower name = ''$readmemb''"
    and "exec_readmem hx args s = (s', c)" "\<forall>e. c \<noteq> Failed e"
  shows "rel s s'"
proof (cases "\<exists>f n h r rest. args = StringLiteral f # Identifier n h r # rest")
  case False
  then have "s' = s" using assms(4) by (auto simp: exec_readmem_def split: list.splits expr.splits)
  then show ?thesis using assms(1) rel_refl by simp
next
  case True
  then obtain f n h r rest where a: "args = StringLiteral f # Identifier n h r # rest" by blast
  let ?n = "identifier_name n h"
  have n: "ok ?n" using assms(2,3) a by (auto simp: readmem_target_def)
  show ?thesis
  proof (cases "memories (es_ctx s) ?n")
    case None
    then show ?thesis using assms(1,4) a rel_refl by (simp add: exec_readmem_def Let_def)
  next
    case (Some p)
    obtain data w where p: "p = (data, w)" by (cases p)
    obtain stores where 2: "s' = (let s1 = store_words ?n data w stores s
        in if list_ex (\<lambda>(slot, _). in_memory data slot) stores then note_original ?n (Some (known 0 1)) s1 else s1)"
      using assms(4,5) a Some p
      by (auto simp: exec_readmem_def Let_def split: option.splits sum.splits prod.splits)
    let ?vs = "fold (\<lambda>(slot, val, msk) d. if in_memory d slot then d[nat slot := mk_value val w msk] else d) stores data"
    have len: "length (fold (\<lambda>(slot, val, msk) d. if in_memory d slot then d[nat slot := mk_value val w msk] else d) stores d)
      = length d" for d
      by (induction stores arbitrary: d) (auto split: prod.splits)
    show ?thesis
    proof (cases "list_ex (\<lambda>(slot, _). in_memory data slot) stores")
      case True
      then have "s' = set_memory_noted ?n ?vs w s" using 2 by (simp add: set_memory_noted_def store_words_def)
      then show ?thesis using rel_memory [OF assms(1) n Some [unfolded p] len] by simp
    next
      case False
      have "?vs = data"
        using False by (induction stores) (auto split: prod.splits)
      then have "s' = s" using 2 False Some p by (simp add: store_words_def fun_upd_idem)
      then show ?thesis using assms(1) rel_refl by simp
    qed
  qed
qed

lemma rel_system_task:
  assumes "ready s" "pred_option ok (readmem_target name args)"
    and "exec_system_task name loc args s = (s', c)" "\<forall>e. c \<noteq> Failed e"
  shows "rel s s'"
proof (cases "severity_display name loc args")
  case (Some p)
  obtain disp fatal where p: "p = (disp, fatal)" by (cases p)
  obtain s1 c1 where d: "exec_display disp s = (s1, c1)" by (cases "exec_display disp s")
  have "s' = s1" "\<forall>e. c1 \<noteq> Failed e"
    using assms(3,4) Some p d by (auto simp: exec_system_task_def and_then_def split: completion.splits)
  then show ?thesis using rel_display [OF assms(1) d] by simp
next
  case None
  have readmem: "rel s s'" if "lower name = ''$readmemh'' \<or> lower name = ''$readmemb''"
    using rel_readmem [OF assms(1,2) that _ assms(4)] assms(3) None that
    by (auto simp: exec_system_task_def split: if_splits)
  show ?thesis
    using assms(1,3,4) None readmem rel_display [OF assms(1)]
    by (auto simp: exec_system_task_def Let_def intro: rel_refl intro!: rel_same split: if_splits sum.splits)
qed

lemma kept_failed [simp]: "result_kept rel s (s', Failed e)"
  by (simp add: result_kept_def)

lemma kept_same: "ready s \<Longrightarrow> result_kept rel s (s, c)"
  by (simp add: result_kept_def rel_refl)

lemma kept_and_then:
  assumes "ready s" "result_kept rel s r" "kept ready rel f"
  shows "result_kept rel s (and_then r f)"
proof (cases "snd r = Completed")
  case True
  then have 1: "rel s (fst r)" "and_then r f = f (fst r)"
    using assms(2) by (simp_all add: result_kept_def and_then_def case_prod_unfold)
  have "result_kept rel (fst r) (f (fst r))" using assms(3) ready_rel [OF assms(1) 1(1)] by (simp add: kept_def)
  then show ?thesis using 1 rel_trans by (auto simp: result_kept_def)
next
  case False
  then have "and_then r f = r" by (auto simp: and_then_def split: prod.split completion.split)
  then show ?thesis using assms(2) by simp
qed

lemma kept_leave: "result_kept rel s r \<Longrightarrow> result_kept rel s (leave_block name r)"
  by (auto simp: result_kept_def leave_block_def split: prod.splits completion.splits if_splits)

lemma kept_step: "(\<And>s'. r = (s', None) \<Longrightarrow> rel s s') \<Longrightarrow> result_kept rel s (of_step r)"
  by (auto simp: result_kept_def of_step_def split: prod.splits option.splits)

lemma kept_option: "\<forall>f \<in> set_option b. kept ready rel f \<Longrightarrow> kept ready rel (exec_option b)"
  by (cases b) (simp_all add: kept_def exec_option_def kept_same)

lemma kept_block: "\<forall>f \<in> set fs. kept ready rel f \<Longrightarrow> kept ready rel (exec_block fs)"
proof (induction fs)
  case (Cons f fs)
  then show ?case using kept_and_then by (simp add: kept_def)
qed (simp add: kept_def kept_same)

lemma kept_then: "kept ready rel f \<Longrightarrow> kept ready rel g \<Longrightarrow> kept ready rel (\<lambda>s. and_then (f s) g)"
  using kept_and_then unfolding kept_def by blast

lemma kept_loop: "kept ready rel body \<Longrightarrow> kept ready rel (exec_loop k test body)"
proof (induction k)
  case 0
  have "kept ready rel (\<lambda>s. (s, Failed RuntimeError))" by (simp add: kept_def)
  then show ?case
    using 0 kept_and_then unfolding kept_def
    by (intro allI impI, subst exec_loop.simps) (auto intro: kept_same split: sum.split bool.split)
next
  case (Suc k)
  have "kept ready rel (exec_loop k test body)" using Suc by simp
  then show ?case
    using Suc.prems kept_and_then unfolding kept_def
    by (intro allI impI, subst exec_loop.simps) (auto intro: kept_same split: sum.split bool.split)
qed

lemma kept_repeat: "kept ready rel body \<Longrightarrow> kept ready rel (exec_repeat n body)"
proof (induction n)
  case (Suc n)
  then show ?case using kept_and_then by (simp add: kept_def)
qed (simp add: kept_def kept_same)

lemma kept_case:
  assumes "\<forall>it \<in> set items. \<forall>f \<in> set_option (fst (snd it)). kept ready rel f"
  shows "kept ready rel (exec_case ct e items)"
  unfolding kept_def
proof (intro allI impI)
  fix s assume s: "ready s"
  show "result_kept rel s (exec_case ct e items s)"
  proof (cases "rbind (eval (es_ctx s) e 0 None) (\<lambda>sel. select_item (es_ctx s) ct sel items)")
    case (Inr body)
    then have "\<forall>f \<in> set_option body. kept ready rel f"
      using assms select_item_mem by (fastforce simp: rbind_eq_Inr_iff)
    then have "kept ready rel (exec_option body)" by (rule kept_option)
    then show ?thesis using Inr s by (simp add: exec_case_def kept_def)
  qed (simp add: exec_case_def)
qed

lemma stmt_ok_option:
  "pred_option id (map_option (stmt_ok ok sc ev) b) \<longleftrightarrow> (\<forall>st \<in> set_option b. stmt_ok ok sc ev st)"
  by (cases b) simp_all

lemma kept_execute:
  "stmt_ok ok sc ev st \<Longrightarrow> kept ready rel (execute_stmt st)"
  "item_ok ok sc ev it \<Longrightarrow> \<forall>f \<in> set_option (fst (snd (execute_case_item it))). kept ready rel f"
proof (induction st and it rule: stmt.induct case_item.induct)
  case (BlockingAssign lhs rhs)
  then show ?case by (auto simp: kept_def intro!: kept_step elim!: rel_assign(1))
next
  case (NonblockingAssign lhs rhs)
  then show ?case by (auto simp: kept_def intro!: kept_step elim!: rel_assign(1))
next
  case (SeqBlock name ss)
  then have "kept ready rel (exec_block (map execute_stmt ss))" by (intro kept_block) (auto simp: list_all_iff)
  then show ?case by (simp add: kept_def kept_leave)
next
  case (ParBlock name ss)
  then have "kept ready rel (exec_block (map execute_stmt ss))" by (intro kept_block) (auto simp: list_all_iff)
  then show ?case by (simp add: kept_def kept_leave)
next
  case (IfStatement c t e)
  have "kept ready rel (exec_option (map_option execute_stmt t))" "kept ready rel (exec_option (map_option execute_stmt e))"
    by (rule kept_option, use IfStatement in \<open>auto simp: stmt_ok_option\<close>)+
  then show ?case by (simp add: kept_def exec_if_def split: sum.split)
next
  case (CaseStatement ct e items)
  then have "\<forall>it \<in> set (map execute_case_item items). \<forall>f \<in> set_option (fst (snd it)). kept ready rel f"
    by (auto simp: list_all_iff)
  then show ?case by (simp add: kept_case)
next
  case (ForLoop init c upd body sg)
  have b: "kept ready rel (exec_option (map_option execute_stmt body))"
    by (rule kept_option) (use ForLoop in \<open>auto simp: stmt_ok_option\<close>)
  have u: "kept ready rel (execute_stmt upd)" and i: "kept ready rel (execute_stmt init)" using ForLoop by simp_all
  have l: "kept ready rel (exec_loop k (for_test init sg c) (\<lambda>s. and_then (exec_option (map_option execute_stmt body) s) (execute_stmt upd)))" for k
    by (rule kept_loop, rule kept_then [OF b u])
  then have "kept ready rel (\<lambda>s. exec_loop (es_limit s) (for_test init sg c)
      (\<lambda>s. and_then (exec_option (map_option execute_stmt body) s) (execute_stmt upd)) s)"
    by (simp add: kept_def)
  from kept_then [OF i this] show ?case by simp
next
  case (WhileLoop c body)
  have "kept ready rel (exec_option (map_option execute_stmt body))"
    by (rule kept_option) (use WhileLoop in \<open>auto simp: stmt_ok_option\<close>)
  from kept_loop [OF this] show ?case by (simp add: kept_def)
next
  case (ForeverLoop body)
  have "kept ready rel (exec_option (map_option execute_stmt body))"
    by (rule kept_option) (use ForeverLoop in \<open>auto simp: stmt_ok_option\<close>)
  from kept_loop [OF this] show ?case by (simp add: kept_def)
next
  case (RepeatLoop c body)
  have "kept ready rel (exec_option (map_option execute_stmt body))"
    by (rule kept_option) (use RepeatLoop in \<open>auto simp: stmt_ok_option\<close>)
  from kept_repeat [OF this] show ?case by (auto simp: kept_def split: sum.split)
next
  case (WaitStatement c body)
  have "kept ready rel (exec_option (map_option execute_stmt body))"
    by (rule kept_option) (use WaitStatement in \<open>auto simp: stmt_ok_option\<close>)
  then show ?case by (auto simp: kept_def kept_same split: sum.split bool.split)
next
  case (EventTrigger name)
  then show ?case using rel_trigger by (auto simp: kept_def intro!: kept_step)
next
  case (SystemTaskCall name loc args)
  then show ?case
    by (auto simp: kept_def result_kept_def intro: rel_system_task [OF _ _ surjective_pairing])
next
  case (CaseItem vals body d)
  then show ?case by (auto simp: stmt_ok_option)
qed (auto simp: kept_def kept_same split: sum.split)

lemma co_kept_from: "rel s s' \<Longrightarrow> co_kept ready rel c s' \<Longrightarrow> co_kept ready rel c s"
  by (cases c) (auto intro: rel_trans)

lemma co_kept_same: "ready s \<Longrightarrow> co_kept ready rel (Return s c) s"
  by (simp add: rel_refl)

lemma co_kept_then:
  "ready s \<Longrightarrow> co_kept ready rel c s \<Longrightarrow> co_keeps ready rel f \<Longrightarrow> co_kept ready rel (co_then c f) s"
proof (induction c arbitrary: s)
  case (Return s' c)
  show ?case
  proof (cases "c = Completed")
    case True
    then have "rel s s'" using Return by simp
    then show ?thesis using True Return co_kept_from ready_rel by (auto simp: co_keeps_def)
  next
    case False
    then show ?thesis using Return by simp
  qed
next
  case (Yield d evs s' k)
  then show ?case by auto
qed

lemma co_kept_result: "result_kept rel s r \<Longrightarrow> co_kept ready rel (co_result r) s"
  by (simp add: co_result_def result_kept_def)

lemma co_kept_leave: "co_kept ready rel c s \<Longrightarrow> co_kept ready rel (co_leave name c) s"
proof (induction c arbitrary: s)
  case (Return s' c)
  have "result_kept rel s (s', c)" using Return by (simp add: result_kept_def)
  then show ?case using co_kept_result kept_leave by simp
qed auto

lemma co_keeps_option: "\<forall>f \<in> set_option b. co_keeps ready rel f \<Longrightarrow> co_keeps ready rel (co_option b)"
  by (cases b) (simp_all add: co_keeps_def co_option_def rel_refl)

lemma co_keeps_block: "\<forall>f \<in> set fs. co_keeps ready rel f \<Longrightarrow> co_keeps ready rel (co_block fs)"
proof (induction fs)
  case (Cons f fs)
  then show ?case using co_kept_then by (simp add: co_keeps_def)
qed (simp add: co_keeps_def rel_refl)

lemma co_keeps_then: "co_keeps ready rel f \<Longrightarrow> co_keeps ready rel g \<Longrightarrow> co_keeps ready rel (\<lambda>s. co_then (f s) g)"
  using co_kept_then unfolding co_keeps_def by blast

lemma co_keeps_loop: "co_keeps ready rel body \<Longrightarrow> co_keeps ready rel (co_loop k test body)"
proof (induction k)
  case 0
  have "co_keeps ready rel (\<lambda>s. Return s (Failed RuntimeError))" by (simp add: co_keeps_def)
  then show ?case
    using 0 co_kept_then unfolding co_keeps_def
    by (intro allI impI, subst co_loop.simps) (auto intro: rel_refl split: sum.split bool.split)
next
  case (Suc k)
  have "co_keeps ready rel (co_loop k test body)" using Suc by simp
  then show ?case
    using Suc.prems co_kept_then unfolding co_keeps_def
    by (intro allI impI, subst co_loop.simps) (auto intro: rel_refl split: sum.split bool.split)
qed

lemma co_keeps_repeat: "co_keeps ready rel body \<Longrightarrow> co_keeps ready rel (co_repeat n body)"
proof (induction n)
  case (Suc n)
  then show ?case using co_kept_then by (simp add: co_keeps_def)
qed (simp add: co_keeps_def rel_refl)

lemma co_keeps_case:
  assumes "\<forall>it \<in> set items. \<forall>f \<in> set_option (fst (snd it)). co_keeps ready rel f"
  shows "co_keeps ready rel (co_case ct e items)"
  unfolding co_keeps_def
proof (intro allI impI)
  fix s assume s: "ready s"
  show "co_kept ready rel (co_case ct e items s) s"
  proof (cases "rbind (eval (es_ctx s) e 0 None) (\<lambda>sel. select_item (es_ctx s) ct sel items)")
    case (Inr body)
    then have "\<forall>f \<in> set_option body. co_keeps ready rel f"
      using assms select_item_mem by (fastforce simp: rbind_eq_Inr_iff)
    then have "co_keeps ready rel (co_option body)" by (rule co_keeps_option)
    then show ?thesis using Inr s by (simp add: co_case_def co_keeps_def)
  qed (simp add: co_case_def)
qed

lemma co_keeps_body:
  assumes "\<And>st. st \<in> set_option b \<Longrightarrow> stmt_ok ok sc ev st \<Longrightarrow> co_keeps ready rel (execute_coroutine st)"
    and "pred_option id (map_option (stmt_ok ok sc ev) b)"
  shows "co_keeps ready rel (co_option (map_option execute_coroutine b))"
  by (rule co_keeps_option) (use assms in \<open>auto simp: stmt_ok_option\<close>)

lemma co_keeps_execute:
  "stmt_ok ok sc ev st \<Longrightarrow> co_keeps ready rel (execute_coroutine st)"
  "item_ok ok sc ev it \<Longrightarrow> \<forall>f \<in> set_option (fst (snd (coroutine_item it))). co_keeps ready rel f"
proof (induction st and it rule: stmt.induct case_item.induct)
  case (BlockingAssign lhs rhs)
  then show ?case by (auto simp: co_keeps_def intro!: co_kept_result kept_step elim!: rel_assign(2))
next
  case (NonblockingAssign lhs rhs)
  then show ?case by (auto simp: co_keeps_def intro!: co_kept_result kept_step elim!: rel_assign(2))
next
  case (SeqBlock name ss)
  then have "co_keeps ready rel (co_block (map execute_coroutine ss))" by (intro co_keeps_block) (auto simp: list_all_iff)
  then show ?case by (simp add: co_keeps_def co_kept_leave)
next
  case (ParBlock name ss)
  then have "co_keeps ready rel (co_block (map execute_coroutine ss))" by (intro co_keeps_block) (auto simp: list_all_iff)
  then show ?case by (simp add: co_keeps_def co_kept_leave)
next
  case (IfStatement c t e)
  have "co_keeps ready rel (co_option (map_option execute_coroutine t))"
    "co_keeps ready rel (co_option (map_option execute_coroutine e))"
    by (rule co_keeps_body, use IfStatement in auto)+
  then show ?case by (simp add: co_keeps_def co_if_def split: sum.split)
next
  case (CaseStatement ct e items)
  then have "\<forall>it \<in> set (map coroutine_item items). \<forall>f \<in> set_option (fst (snd it)). co_keeps ready rel f"
    by (auto simp: list_all_iff)
  then show ?case by (simp add: co_keeps_case)
next
  case (ForLoop init c upd body sg)
  have b: "co_keeps ready rel (co_option (map_option execute_coroutine body))"
    by (rule co_keeps_body) (use ForLoop in auto)
  have u: "co_keeps ready rel (execute_coroutine upd)" and i: "co_keeps ready rel (execute_coroutine init)"
    using ForLoop by simp_all
  have "co_keeps ready rel (co_loop k (for_test init sg c) (\<lambda>s. co_then (co_option (map_option execute_coroutine body) s) (execute_coroutine upd)))" for k
    by (rule co_keeps_loop, rule co_keeps_then [OF b u])
  then have "co_keeps ready rel (\<lambda>s. co_loop (es_limit s) (for_test init sg c)
      (\<lambda>s. co_then (co_option (map_option execute_coroutine body) s) (execute_coroutine upd)) s)"
    by (simp add: co_keeps_def)
  from co_keeps_then [OF i this] show ?case by simp
next
  case (WhileLoop c body)
  have "co_keeps ready rel (co_option (map_option execute_coroutine body))" by (rule co_keeps_body) (use WhileLoop in auto)
  from co_keeps_loop [OF this] show ?case by (simp add: co_keeps_def)
next
  case (ForeverLoop body)
  have "co_keeps ready rel (co_option (map_option execute_coroutine body))" by (rule co_keeps_body) (use ForeverLoop in auto)
  from co_keeps_loop [OF this] show ?case by (simp add: co_keeps_def)
next
  case (RepeatLoop c body)
  have "co_keeps ready rel (co_option (map_option execute_coroutine body))" by (rule co_keeps_body) (use RepeatLoop in auto)
  from co_keeps_repeat [OF this] show ?case by (auto simp: co_keeps_def split: sum.split)
next
  case (DelayControl d body)
  have "co_keeps ready rel (co_option (map_option execute_coroutine body))" by (rule co_keeps_body) (use DelayControl in auto)
  then show ?case by (auto simp: co_keeps_def rel_refl split: sum.split)
next
  case (EventControl evs body)
  have "co_keeps ready rel (co_option (map_option execute_coroutine body))" by (rule co_keeps_body) (use EventControl in auto)
  then show ?case by (auto simp: co_keeps_def rel_refl)
next
  case (WaitStatement c body)
  have "co_keeps ready rel (co_option (map_option execute_coroutine body))" by (rule co_keeps_body) (use WaitStatement in auto)
  then show ?case by (auto simp: co_keeps_def rel_refl split: sum.split bool.split)
next
  case (EventTrigger name)
  then show ?case using rel_trigger by (auto simp: co_keeps_def intro!: co_kept_result kept_step)
next
  case (SystemTaskCall name loc args)
  have "kept ready rel (execute_stmt (SystemTaskCall name loc args))" by (rule kept_execute(1) [OF SystemTaskCall])
  then show ?case by (simp add: co_keeps_def kept_def co_kept_result)
next
  case (CaseItem vals body d)
  then show ?case by (auto simp: stmt_ok_option)
qed (auto simp: co_keeps_def rel_refl)

end

end
