(* ===== verification/Statement_Tracking.thy ===== *)
theory Statement_Tracking
  imports Statement_Relation Engine_Shape
begin

text \<open>
  What the executor promises the scheduler: a process keeps the declarations, it changes and queues only
  names that it may write, and every change is recorded in \<open>_originals\<close> with the value that the signal
  had before.
\<close>

section \<open>The record of changes\<close>

text \<open>A declared name outside \<open>X\<close>: a signal or a memory, and no element of a memory by its spelling.\<close>

definition writable :: "eval_ctx \<Rightarrow> string set \<Rightarrow> string \<Rightarrow> bool" where
  "writable dc X n \<longleftrightarrow> n \<notin> X \<and> (signals dc n = None) \<noteq> (memories dc n = None) \<and>
     \<not> (CHR ''['' \<in> set n \<and> last n = CHR '']'')"

definition writable_scalar :: "eval_ctx \<Rightarrow> string set \<Rightarrow> string \<Rightarrow> bool" where
  "writable_scalar dc X n \<longleftrightarrow> writable dc X n \<and> memories dc n = None"

definition writable_event :: "eval_ctx \<Rightarrow> string set \<Rightarrow> string \<Rightarrow> bool" where
  "writable_event dc X n \<longleftrightarrow> writable dc X n \<and> (case signals dc n of Some v \<Rightarrow> v_width v = 1 | None \<Rightarrow> False)"

abbreviation process_ok :: "eval_ctx \<Rightarrow> string set \<Rightarrow> stmt \<Rightarrow> bool" where
  "process_ok dc X \<equiv> stmt_ok (writable dc X) (writable_scalar dc X) (writable_event dc X)"

definition same_name :: "eval_ctx \<Rightarrow> eval_ctx \<Rightarrow> string \<Rightarrow> bool" where
  "same_name ctx ctx' n \<longleftrightarrow> signals ctx' n = signals ctx n \<and> memories ctx' n = memories ctx n"

text \<open>\<open>ext\<close> records the changes from \<open>ctx\<close> on of names that were not recorded in \<open>o\<close>.\<close>

definition records :: "(string \<Rightarrow> bool) \<Rightarrow> eval_ctx \<Rightarrow> eval_ctx \<Rightarrow> (string \<times> val4 option) list \<Rightarrow>
    (string \<times> val4 option) list \<Rightarrow> bool" where
  "records ok ctx ctx' earlier ext \<longleftrightarrow>
     (\<forall>(n, u) \<in> set ext. n \<notin> fst ` set earlier \<and> ok n \<and> (signals ctx n \<noteq> None \<longrightarrow> u = signals ctx n)) \<and>
     (\<forall>n. n \<notin> fst ` set (earlier @ ext) \<longrightarrow> same_name ctx ctx' n)"

definition tracked :: "(string \<Rightarrow> bool) \<Rightarrow> exec_state \<Rightarrow> exec_state \<Rightarrow> bool" where
  "tracked ok s s' \<longleftrightarrow> same_shape (es_ctx s) (es_ctx s') \<and> ctx_time (es_ctx s') = ctx_time (es_ctx s) \<and>
     (\<forall>n. \<not> ok n \<longrightarrow> same_name (es_ctx s) (es_ctx s') n) \<and>
     (\<exists>q. es_nba s' = es_nba s @ q \<and> (\<forall>e \<in> set q. entry_ok ok (es_ctx s) e)) \<and>
     (es_originals s' = None \<longleftrightarrow> es_originals s = None) \<and>
     (\<forall>earlier. es_originals s = Some earlier \<longrightarrow> (\<exists>ext. es_originals s' = Some (earlier @ ext) \<and>
        records ok (es_ctx s) (es_ctx s') earlier ext))"

lemma entry_ok_shape: "same_shape ctx ctx' \<Longrightarrow> entry_ok ok ctx' e = entry_ok ok ctx e"
proof -
  assume "same_shape ctx ctx'"
  then have "map_option v_width (signals ctx n) = map_option v_width (signals ctx' n)" for n by (simp add: same_shape_def)
  then have "(\<exists>cur. signals ctx n = Some cur \<and> w = v_width cur) = (\<exists>cur. signals ctx' n = Some cur \<and> w = v_width cur)"
    for n w by (metis map_option_eq_Some)
  then show ?thesis by (simp add: entry_ok_def split: nba.split)
qed

lemma records_trans:
  assumes "records ok a b earlier e1" "records ok b c (earlier @ e1) e2"
  shows "records ok a c earlier (e1 @ e2)"
  using assms unfolding records_def same_name_def by (auto 0 4 simp: image_iff split: prod.splits)

lemma records_self: "records ok a a earlier []"
  by (simp add: records_def same_name_def)

lemma tracked_trans:
  assumes "tracked ok a b" "tracked ok b c"
  shows "tracked ok a c"
proof -
  note 1 = assms(1) [unfolded tracked_def] and 2 = assms(2) [unfolded tracked_def]
  have shape: "same_shape (es_ctx a) (es_ctx b)" using 1 by blast
  have "\<exists>ext. es_originals c = Some (earlier @ ext) \<and> records ok (es_ctx a) (es_ctx c) earlier ext"
    if e0: "es_originals a = Some earlier" for earlier
  proof -
    obtain e1 where e1: "es_originals b = Some (earlier @ e1)" "records ok (es_ctx a) (es_ctx b) earlier e1"
      using 1 e0 by blast
    obtain e2 where "es_originals c = Some ((earlier @ e1) @ e2)" "records ok (es_ctx b) (es_ctx c) (earlier @ e1) e2"
      using 2 e1(1) by blast
    then show ?thesis using records_trans [OF e1(2)] by auto
  qed
  moreover have "\<exists>q. es_nba c = es_nba a @ q \<and> (\<forall>e \<in> set q. entry_ok ok (es_ctx a) e)"
  proof -
    obtain q1 q2 where "es_nba b = es_nba a @ q1" "\<forall>e \<in> set q1. entry_ok ok (es_ctx a) e"
      "es_nba c = es_nba b @ q2" "\<forall>e \<in> set q2. entry_ok ok (es_ctx a) e"
      using 1 2 entry_ok_shape [OF shape, of ok] by auto
    then show ?thesis by (intro exI [of _ "q1 @ q2"]) auto
  qed
  ultimately show ?thesis using 1 2 same_shape_trans [OF shape] by (auto simp: tracked_def same_name_def)
qed

lemma tracked_change:
  assumes "ok n" "\<forall>k. k \<noteq> n \<longrightarrow> same_name (es_ctx s) ctx k" "same_shape (es_ctx s) ctx" "ctx_time ctx = ctx_time (es_ctx s)"
    and "signals (es_ctx s) n \<noteq> None \<longrightarrow> u = signals (es_ctx s) n"
  shows "tracked ok s (note_original n u (s\<lparr>es_ctx := ctx\<rparr>))"
proof (cases "es_originals s")
  case None
  then show ?thesis using assms by (auto simp: tracked_def note_original_def)
next
  case (Some earlier)
  show ?thesis
  proof (cases "n \<in> fst ` set earlier")
    case True
    then show ?thesis using assms Some by (auto simp: tracked_def note_original_def records_def)
  next
    case False
    then show ?thesis using assms Some by (auto simp: tracked_def note_original_def records_def)
  qed
qed

lemma shape_declared:
  assumes "same_shape dc ctx"
  shows "(signals ctx n = None) = (signals dc n = None)" "(memories ctx n = None) = (memories dc n = None)"
proof -
  show "(signals ctx n = None) = (signals dc n = None)"
    using arg_cong [OF same_shapeD(1) [OF assms, of n], of "\<lambda>x. x = None"] by simp
  show "(memories ctx n = None) = (memories dc n = None)"
    using arg_cong [OF same_shapeD(2) [OF assms, of n], of "\<lambda>x. x = None"] by simp
qed

interpretation tr: statement_relation "\<lambda>s. same_shape dc (es_ctx s)" "tracked (writable dc X)"
  "writable dc X" "writable_scalar dc X" "writable_event dc X" for dc X
proof
  fix s s' :: exec_state and n :: string
  assume shape: "same_shape dc (es_ctx s)"
  note decl = shape_declared [OF shape]
  show "apart (writable dc X) (es_ctx s)" by (simp add: apart_def writable_def decl)
  show "writable dc X n \<and> memories (es_ctx s) n = None" if "writable_scalar dc X n"
    using that by (simp add: writable_scalar_def decl)
  show "writable dc X n \<and> (\<exists>cur. signals (es_ctx s) n = Some cur \<and> v_width cur = 1)" if "writable_event dc X n"
    using that by (auto simp: writable_event_def elim: shape_signals [OF shape] split: option.splits)
  show "tracked (writable dc X) s (write_plain n v s)"
    if "writable dc X n" "signals (es_ctx s) n = Some cur" "v_width v = v_width cur" for v cur
    unfolding write_plain_def
    by (rule tracked_change) (use that in \<open>auto simp: same_name_def same_shape_def\<close>)
  show "tracked (writable dc X) s (set_memory_noted n vs w s)"
    if "writable dc X n" "memories (es_ctx s) n = Some (data, w)" "length vs = length data" for vs data w
  proof -
    have "signals (es_ctx s) n = None"
      using that(1,2) decl [of n] by (simp add: writable_def)
    then show ?thesis
      unfolding set_memory_noted_def
      by (intro tracked_change) (use that in \<open>auto simp: same_name_def same_shape_def memory_size_def\<close>)
  qed
  show "tracked (writable dc X) s (queue_nba es s)" if "\<forall>e \<in> set es. entry_ok (writable dc X) (es_ctx s) e" for es
    using that by (auto simp: tracked_def queue_nba_def same_name_def records_self)
  show "tracked (writable dc X) s s'"
    if "es_ctx s' = es_ctx s" "es_originals s' = es_originals s" "es_nba s' = es_nba s"
    using that by (auto simp: tracked_def same_name_def records_self)
next
  show "last n \<noteq> CHR '']''" if "writable dc X n" "CHR ''['' \<in> set n" for n using that by (simp add: writable_def)
next
  show "tracked (writable dc X) a c" if "tracked (writable dc X) a b" "tracked (writable dc X) b c" for a b c
    using that by (rule tracked_trans)
  show "same_shape dc (es_ctx s')" if "same_shape dc (es_ctx s)" "tracked (writable dc X) s s'" for s s'
    using that by (auto simp: tracked_def intro: same_shape_trans)
qed

section \<open>Commits\<close>

lemma apply_element_ok:
  assumes "apply_element n i f ctx = (ctx', ch)"
  shows "same_shape ctx ctx' \<and> ctx_time ctx' = ctx_time ctx \<and> (\<forall>k. k \<noteq> n \<or> \<not> ch \<longrightarrow> same_name ctx ctx' k)"
  using assms
  by (auto simp: apply_element_def same_name_def same_shape_def memory_size_def Let_def
      split: option.splits if_splits prod.splits)

lemma apply_entry_ok:
  assumes "entry_ok ok ctx e" "apply_entry e ctx = Inr (ctx', ch)"
  shows "same_shape ctx ctx' \<and> ctx_time ctx' = ctx_time ctx \<and> (\<forall>k. k \<noteq> nba_name e \<or> \<not> ch \<longrightarrow> same_name ctx ctx' k)"
proof (cases e)
  case (NbaEntry n v)
  then show ?thesis using assms
    by (auto simp: apply_entry_def entry_ok_def read_signal_def same_name_def same_shape_def split: if_splits)
next
  case (StructFieldNbaEntry n m l v)
  then show ?thesis using assms(2)
    by (auto simp: apply_entry_def same_name_def same_shape_def Let_def split: option.splits if_splits)
qed (use assms(2) apply_element_ok in \<open>auto simp: apply_entry_def\<close>)

lemma apply_entries_ok:
  assumes "\<forall>e \<in> set es. entry_ok ok ctx e" "apply_entries es ctx D = Inr (ctx', D')"
  shows "same_shape ctx ctx' \<and> ctx_time ctx' = ctx_time ctx \<and> D \<subseteq> D' \<and> D' \<subseteq> D \<union> nba_name ` set es \<and>
    (\<forall>n. n \<notin> D' \<longrightarrow> same_name ctx ctx' n)"
  using assms
proof (induction es arbitrary: ctx D)
  case Nil
  then show ?case by (simp add: same_name_def)
next
  case (Cons e es)
  obtain c1 ch where 1: "apply_entry e ctx = Inr (c1, ch)"
    "apply_entries es c1 (if ch then insert (nba_name e) D else D) = Inr (ctx', D')"
    using Cons.prems(2) by (auto simp: rbind_eq_Inr_iff)
  have e: "same_shape ctx c1" "ctx_time c1 = ctx_time ctx" "\<forall>k. k \<noteq> nba_name e \<or> \<not> ch \<longrightarrow> same_name ctx c1 k"
    using apply_entry_ok [OF _ 1(1)] Cons.prems(1) by auto
  have "\<forall>e \<in> set es. entry_ok ok c1 e" using Cons.prems(1) entry_ok_shape [OF e(1)] by auto
  note rest = Cons.IH [OF this 1(2)]
  have "same_name ctx ctx' n" if "n \<notin> D'" for n
  proof -
    have "n \<noteq> nba_name e \<or> \<not> ch" using rest that by (auto split: if_splits)
    then show ?thesis using e(3) rest that by (auto simp: same_name_def)
  qed
  then show ?case using rest e(2) same_shape_trans [OF e(1)] by (auto split: if_splits)
qed

lemma apply_nba_ok:
  assumes "\<forall>e \<in> set (es_nba s). entry_ok ok (es_ctx s) e" "apply_nba s = Inr (s', D)"
  shows "same_shape (es_ctx s) (es_ctx s')" "ctx_time (es_ctx s') = ctx_time (es_ctx s)" "\<forall>n \<in> D. ok n"
    "\<forall>n. n \<notin> D \<longrightarrow> same_name (es_ctx s) (es_ctx s') n" "es_nba s' = []" "es_originals s' = es_originals s"
proof -
  obtain ctx where c: "apply_entries (es_nba s) (es_ctx s) {} = Inr (ctx, D)" "s' = s\<lparr>es_ctx := ctx, es_nba := []\<rparr>"
    using assms(2) by (auto simp: apply_nba_def rmap_eq_Inr_iff)
  note r = apply_entries_ok [OF assms(1) c(1)]
  show "\<forall>n \<in> D. ok n" using r assms(1) by (fastforce simp: entry_ok_def)
qed (use assms apply_entries_ok [OF assms(1), of "{}"] in \<open>auto simp: apply_nba_def rmap_eq_Inr_iff\<close>)

section \<open>What a process keeps\<close>

lemma execute_tracked:
  assumes "process_ok dc X st" "same_shape dc (es_ctx s)" "execute_stmt st s = (s', c)" "\<forall>e. c \<noteq> Failed e"
  shows "tracked (writable dc X) s s'"
  using tr.kept_execute(1) [OF assms(1)] assms(2-4) by (auto simp: kept_def result_kept_def)


text \<open>C18: Every change is recorded. A process changes only names that it may write. When the
  record \<open>_originals\<close> is empty at its start, each name that it has changed is in it at its end, and a
  recorded signal has the value there that it had before the process ran, so comparing the two tells
  whether the signal is dirty.\<close>

theorem changes_recorded:
  assumes "process_ok dc X st" "same_shape dc (es_ctx s)" "es_originals s = Some []"
    and "execute_stmt st s = (s', c)" "\<forall>e. c \<noteq> Failed e"
  shows "\<exists>ext. es_originals s' = Some ext \<and> (\<forall>n. n \<notin> fst ` set ext \<longrightarrow> same_name (es_ctx s) (es_ctx s') n) \<and>
    (\<forall>(n, u) \<in> set ext. writable dc X n \<and> (signals (es_ctx s) n \<noteq> None \<longrightarrow> u = signals (es_ctx s) n))"
  using execute_tracked [OF assms(1,2,4,5)] assms(3) by (auto simp: tracked_def records_def)

section \<open>A concrete process\<close>

text \<open>\<open>{c, s[3:0]} = a; mem[1] <= s;\<close>\<close>

definition track_ctx :: eval_ctx where
  "track_ctx = \<lparr>signals = (\<lambda>n. if n = ''a'' then Some (known 21 8) else if n = ''c'' then Some (known 0 1)
       else if n = ''s'' then Some (known 160 8) else None),
     signal_signed = (\<lambda>n. False), signal_bases = (\<lambda>n. 0),
     memories = (\<lambda>n. if n = ''mem'' then Some ([known 1 8, known 2 8], 8) else None), memory_bases = (\<lambda>n. 0), ctx_time = 0\<rparr>"

definition track_state :: exec_state where
  "track_state = \<lparr>es_ctx = track_ctx, es_originals = Some [], es_nba = [], es_output = [], es_write_buffer = [],
     es_time = 0, es_limit = 10, es_files = (\<lambda>name. None)\<rparr>"

definition track_stmt :: stmt where
  "track_stmt = (let v = (\<lambda>n. Identifier n [] None); i = (\<lambda>k. Literal (int_literal k)) in SeqBlock []
     [BlockingAssign (Concatenation [v ''c'', RangeSelect (v ''s'') (i 3) (i 0)]) (v ''a''),
      NonblockingAssign (BitSelect (v ''mem'') (i 1)) (v ''s'')])"

lemma track_ok: "process_ok track_ctx {} track_stmt" "process_ok track_ctx {''a''} track_stmt"
  by code_simp+

lemma track_run:
  obtains s' s'' D where "execute_stmt track_stmt track_state = (s', Completed)" "apply_nba s' = Inr (s'', D)"
proof -
  have "case execute_stmt track_stmt track_state of (s', c) \<Rightarrow> c = Completed \<and> \<not> isl (apply_nba s')" by code_simp
  then show ?thesis using that
    by (cases "execute_stmt track_stmt track_state"; cases "apply_nba (fst (execute_stmt track_stmt track_state))") auto
qed


theorem changes_recorded_witness:
  "\<exists>s' ext. execute_stmt track_stmt track_state = (s', Completed) \<and> es_originals s' = Some ext \<and>
    (\<forall>n. n \<notin> fst ` set ext \<longrightarrow> same_name (es_ctx track_state) (es_ctx s') n)"
proof -
  obtain s' s'' D where r: "execute_stmt track_stmt track_state = (s', Completed)" "apply_nba s' = Inr (s'', D)"
    by (rule track_run)
  have "same_shape track_ctx (es_ctx track_state)" "es_originals track_state = Some []"
    by (simp_all add: track_state_def)
  from changes_recorded [OF track_ok(2) this r(1)] show ?thesis using r(1) by blast
qed

end
