(* ===== verification/Sensitivity.thy ===== *)
theory Sensitivity
  imports Statement Py_Text "HOL-Library.AList"
begin

text \<open>
  What a process is sensitive to, the free functions of \<open>sim/scheduler.py\<close>: the names that an
  expression or a statement reads, the names that a target writes, the sensitivity of an always block
  and the search for timing controls. A set of names is a set; the functions of the code that add to a
  set, or remove from one, are functions that return the names added or removed.
\<close>

section \<open>Blocks and assignments\<close>

datatype sensitivity_type = COMBINATIONAL | SEQUENTIAL | LATCH | UNKNOWN

record always_block =
  ab_body :: stmt
  ab_list :: "sensitivity_edge list"
  ab_type :: sensitivity_type
  ab_keyword :: string

section \<open>Names\<close>

fun split_on :: "char \<Rightarrow> string \<Rightarrow> string list" where
  "split_on c [] = [[]]"
| "split_on c (x # xs) =
     (if x = c then [] # split_on c xs
      else case split_on c xs of [] \<Rightarrow> [[x]] | y # ys \<Rightarrow> (x # y) # ys)"

text \<open>\<open>part.split("[", 1)[0]\<close>, the part itself when it has no bracket.\<close>

definition before_bracket :: "string \<Rightarrow> string" where
  "before_bracket part = takeWhile (\<lambda>c. c \<noteq> CHR ''['') part"

definition normalize_struct_access_name :: "string \<Rightarrow> string" where
  "normalize_struct_access_name name =
     (let parts = split_on CHR ''.'' name
      in if CHR ''['' \<in> set (last parts) then join_with ''.'' (butlast parts @ [before_bracket (last parts)]) else name)"

text \<open>The proper prefixes of a dotted name.\<close>

definition dotted_prefixes :: "string list \<Rightarrow> string list" where
  "dotted_prefixes parts = map (\<lambda>i. join_with ''.'' (take i parts)) [1..<length parts]"

definition index_name :: "string \<Rightarrow> string list" where
  "index_name part =
     (if CHR ''['' \<in> set part \<and> last part = CHR '']'' then
        (let t = strip (butlast (drop (Suc (length (before_bracket part))) part))
         in if t = [] then [] else (case py_int_auto t of Inr _ \<Rightarrow> [] | Inl _ \<Rightarrow> [t]))
      else [])"

definition identifier_reads :: "string \<Rightarrow> string set" where
  "identifier_reads name =
     (if take 15 name = ''__vt_local_for_'' then {}
      else (let parts = split_on CHR ''.'' name; stripped = map before_bracket parts;
                names = name # dotted_prefixes parts @ join_with ''.'' stripped # dotted_prefixes stripped
            in set names \<union> set (map normalize_struct_access_name names) \<union> set (concat (map index_name parts))))"

section \<open>Reads\<close>

text \<open>\<open>_walk_expr_reads\<close>. A width cast, a string and a minimum-typical-maximum triple have no case there.\<close>

fun expr_reads :: "expr \<Rightarrow> string set" where
  "expr_reads (Identifier n h _) = identifier_reads (identifier_name n h)"
| "expr_reads (Literal l) = {}"
| "expr_reads (BinaryOp op l r) = expr_reads l \<union> expr_reads r"
| "expr_reads (UnaryOp op e) = expr_reads e"
| "expr_reads (TernaryOp c t f) = expr_reads c \<union> expr_reads t \<union> expr_reads f"
| "expr_reads (Concatenation parts) = \<Union>(set (map expr_reads parts))"
| "expr_reads (Replication c v) = expr_reads c \<union> expr_reads v"
| "expr_reads (StreamingConcatenation parts slice) =
     \<Union>(set (map expr_reads parts)) \<union> (case slice of Some e \<Rightarrow> expr_reads e | None \<Rightarrow> {})"
| "expr_reads (BitSelect t i) = expr_reads t \<union> expr_reads i"
| "expr_reads (RangeSelect t m l) = expr_reads t \<union> expr_reads m \<union> expr_reads l"
| "expr_reads (PartSelect t b w d) = expr_reads t \<union> expr_reads b \<union> expr_reads w"
| "expr_reads (FunctionCall f args) = \<Union>(set (map expr_reads args))"
| "expr_reads (AssignmentPattern named pos dflt) =
     \<Union>(set (map (\<lambda>(n, e). expr_reads e) named)) \<union> \<Union>(set (map expr_reads pos)) \<union>
     (case dflt of Some e \<Rightarrow> expr_reads e | None \<Rightarrow> {})"
| "expr_reads (StringLiteral s) = {}"
| "expr_reads (WidthCast w e) = {}"
| "expr_reads (Mintypmax a b c) = {}"

text \<open>\<open>_collect_lhs_index_reads\<close>, without part selects and without the index of a nested target.\<close>

fun lhs_index_reads :: "expr \<Rightarrow> string set" where
  "lhs_index_reads (BitSelect t i) = expr_reads i"
| "lhs_index_reads (RangeSelect t m l) = expr_reads m \<union> expr_reads l"
| "lhs_index_reads (Concatenation parts) = \<Union>(set (map lhs_index_reads parts))"
| "lhs_index_reads _ = {}"

definition opt_set :: "string set option \<Rightarrow> string set" where
  "opt_set x = (case x of Some A \<Rightarrow> A | None \<Rightarrow> {})"

primrec stmt_reads :: "stmt \<Rightarrow> string set" and item_reads :: "case_item \<Rightarrow> string set" where
  "stmt_reads (BlockingAssign lhs rhs) = expr_reads rhs \<union> lhs_index_reads lhs"
| "stmt_reads (NonblockingAssign lhs rhs) = expr_reads rhs \<union> lhs_index_reads lhs"
| "stmt_reads (IfStatement c t e) =
     expr_reads c \<union> opt_set (map_option stmt_reads t) \<union> opt_set (map_option stmt_reads e)"
| "stmt_reads (CaseStatement ct e items) = expr_reads e \<union> \<Union>(set (map item_reads items))"
| "stmt_reads (SeqBlock name ss) = \<Union>(set (map stmt_reads ss))"
| "stmt_reads (ForLoop init c upd body sg) =
     stmt_reads init \<union> expr_reads c \<union> stmt_reads upd \<union> opt_set (map_option stmt_reads body)"
| "stmt_reads (WhileLoop c body) = expr_reads c \<union> opt_set (map_option stmt_reads body)"
| "stmt_reads (ForeverLoop body) = opt_set (map_option stmt_reads body)"
| "stmt_reads (RepeatLoop c body) = expr_reads c \<union> opt_set (map_option stmt_reads body)"
| "stmt_reads (DelayControl d body) = expr_reads d \<union> opt_set (map_option stmt_reads body)"
| "stmt_reads (EventControl evs body) = opt_set (map_option stmt_reads body)"
| "stmt_reads (SystemTaskCall name where args) = \<Union>(set (map expr_reads args))"
| "stmt_reads (TaskEnable name args) = \<Union>(set (map expr_reads args))"
| "stmt_reads (ParBlock name ss) = {}"
| "stmt_reads (WaitStatement c body) = {}"
| "stmt_reads (DisableStatement target) = {}"
| "stmt_reads (EventTrigger name) = {}"
| "item_reads (CaseItem vals body is_default) =
     \<Union>(set (map expr_reads vals)) \<union> opt_set (map_option stmt_reads body)"

section \<open>Writes\<close>

fun lhs_base_names :: "expr \<Rightarrow> string set" where
  "lhs_base_names (Identifier n h _) =
     (let name = identifier_name n h
      in {name} \<union> set (dotted_prefixes (split_on CHR ''.'' name)) \<union>
         (if CHR ''['' \<in> set name then {before_bracket name} else {}))"
| "lhs_base_names (BitSelect t i) = lhs_base_names t"
| "lhs_base_names (RangeSelect t m l) = lhs_base_names t"
| "lhs_base_names (PartSelect t b w d) = lhs_base_names t"
| "lhs_base_names (Concatenation parts) = \<Union>(set (map lhs_base_names parts))"
| "lhs_base_names _ = {}"

definition is_output_argument :: "expr \<Rightarrow> bool" where
  "is_output_argument e = (case e of
     Identifier _ _ _ \<Rightarrow> True | BitSelect _ _ \<Rightarrow> True | RangeSelect _ _ _ \<Rightarrow> True | Concatenation _ \<Rightarrow> True
   | _ \<Rightarrow> False)"

text \<open>The names that \<open>_collect_stmt_writes\<close> removes.\<close>

primrec stmt_writes :: "stmt \<Rightarrow> string set" and item_writes :: "case_item \<Rightarrow> string set" where
  "stmt_writes (TaskEnable name args) = \<Union>(set (map lhs_base_names (filter is_output_argument args)))"
| "stmt_writes (BlockingAssign lhs rhs) = lhs_base_names lhs"
| "stmt_writes (NonblockingAssign lhs rhs) = lhs_base_names lhs"
| "stmt_writes (IfStatement c t e) = opt_set (map_option stmt_writes t) \<union> opt_set (map_option stmt_writes e)"
| "stmt_writes (CaseStatement ct e items) = \<Union>(set (map item_writes items))"
| "stmt_writes (SeqBlock name ss) = \<Union>(set (map stmt_writes ss))"
| "stmt_writes (ForLoop init c upd body sg) =
     stmt_writes init \<union> stmt_writes upd \<union> opt_set (map_option stmt_writes body)"
| "stmt_writes (WhileLoop c body) = opt_set (map_option stmt_writes body)"
| "stmt_writes (ForeverLoop body) = opt_set (map_option stmt_writes body)"
| "stmt_writes (RepeatLoop c body) = opt_set (map_option stmt_writes body)"
| "stmt_writes (DelayControl d body) = opt_set (map_option stmt_writes body)"
| "stmt_writes (EventControl evs body) = opt_set (map_option stmt_writes body)"
| "stmt_writes (ParBlock name ss) = {}"
| "stmt_writes (WaitStatement c body) = {}"
| "stmt_writes (DisableStatement target) = {}"
| "stmt_writes (EventTrigger name) = {}"
| "stmt_writes (SystemTaskCall name where args) = {}"
| "item_writes (CaseItem vals body is_default) = opt_set (map_option stmt_writes body)"

section \<open>Always blocks\<close>

text \<open>
  The names and the edges of a sensitivity list. The edges are a dictionary: of two entries for one
  signal the later stays.
\<close>

type_synonym edge_dict = "(string \<times> edge_kind) list"

fun list_edges :: "sensitivity_edge list \<Rightarrow> edge_dict \<Rightarrow> edge_dict" where
  "list_edges [] d = d"
| "list_edges (SensitivityEdge k e # es) d =
     list_edges es (case e of
        Identifier n _ _ \<Rightarrow> if k = Level then d else AList.update n k d
      | _ \<Rightarrow> d)"

fun listed_name :: "sensitivity_edge \<Rightarrow> string list" where
  "listed_name (SensitivityEdge k e) = (case e of Identifier n _ _ \<Rightarrow> [n] | _ \<Rightarrow> [])"

definition always_sensitivity :: "always_block \<Rightarrow> string set \<times> edge_dict" where
  "always_sensitivity b =
     (if ab_type b = COMBINATIONAL then (stmt_reads (ab_body b), [])
      else (set (concat (map listed_name (ab_list b))), list_edges (ab_list b) []))"

text \<open>\<open>_has_timing\<close> does not look into a parallel block or a wait statement.\<close>

primrec stmt_has_timing :: "stmt \<Rightarrow> bool" and item_timed :: "case_item \<Rightarrow> bool" where
  "stmt_has_timing (DelayControl d body) = True"
| "stmt_has_timing (EventControl evs body) = True"
| "stmt_has_timing (SeqBlock name ss) = list_ex id (map stmt_has_timing ss)"
| "stmt_has_timing (IfStatement c t e) =
     (map_option stmt_has_timing t = Some True \<or> map_option stmt_has_timing e = Some True)"
| "stmt_has_timing (CaseStatement ct e items) = list_ex id (map item_timed items)"
| "stmt_has_timing (ForLoop init c upd body sg) =
     (map_option stmt_has_timing body = Some True \<or> stmt_has_timing init \<or> stmt_has_timing upd)"
| "stmt_has_timing (WhileLoop c body) = (map_option stmt_has_timing body = Some True)"
| "stmt_has_timing (RepeatLoop c body) = (map_option stmt_has_timing body = Some True)"
| "stmt_has_timing (ForeverLoop body) = (map_option stmt_has_timing body = Some True)"
| "stmt_has_timing (BlockingAssign lhs rhs) = False"
| "stmt_has_timing (NonblockingAssign lhs rhs) = False"
| "stmt_has_timing (ParBlock name ss) = False"
| "stmt_has_timing (WaitStatement c body) = False"
| "stmt_has_timing (DisableStatement target) = False"
| "stmt_has_timing (EventTrigger name) = False"
| "stmt_has_timing (TaskEnable name args) = False"
| "stmt_has_timing (SystemTaskCall name where args) = False"
| "item_timed (CaseItem vals body is_default) = (map_option stmt_has_timing body = Some True)"

end
