(* ===== verification/Continuous.thy ===== *)
theory Continuous
  imports Exec_Assign Sensitivity
begin

text \<open>
  Continuous assignments in \<open>class Scheduler\<close>: reading a target back, the pass over all assignments, and
  \<open>_run_dirty_continuous_assigns\<close>, which visits only the assignments whose inputs may have changed. It
  has two ways to find them: a scan in declaration order, and an index from names to positions with a
  heap of the positions still to visit.

  The heap holds distinct positions, of which the code only takes the least, so it is a set with \<open>Min\<close>.
  An exception ends the pass; the state it leaves is not kept.
\<close>

section \<open>Processes\<close>

record continuous_process =
  cp_lhs :: expr
  cp_rhs :: expr
  cp_sens :: "string set"

definition continuous_process :: "expr \<times> expr \<Rightarrow> continuous_process" where
  "continuous_process a = \<lparr>cp_lhs = fst a, cp_rhs = snd a, cp_sens = expr_reads (snd a)\<rparr>"

text \<open>\<open>_sig_to_continuous\<close>: the positions of the assignments that read a name.\<close>

definition continuous_index :: "continuous_process list \<Rightarrow> string \<Rightarrow> nat list" where
  "continuous_index ps name = filter (\<lambda>i. name \<in> cp_sens (ps ! i)) [0..<length ps]"

section \<open>Reading a target\<close>

text \<open>The struct that a dotted name is a part of: the longest prefix that is a signal.\<close>

fun ancestor_signal :: "eval_ctx \<Rightarrow> string list \<Rightarrow> nat \<Rightarrow> val4 option" where
  "ancestor_signal ctx parts 0 = None"
| "ancestor_signal ctx parts (Suc k) = (case signals ctx (join_with ''.'' (take (Suc k) parts)) of
     Some v \<Rightarrow> Some v | None \<Rightarrow> ancestor_signal ctx parts k)"

text \<open>\<open>Value(int((current.val >> idx) & 1), width=1, mask=...)\<close>; a negative shift count raises.\<close>

definition bit_of :: "val4 \<Rightarrow> int \<Rightarrow> val4 option res" where
  "bit_of v idx =
     (if idx < 0 then Inl ValueError
      else Inr (Some (mk_value (drop_bit (nat idx) (v_val v) AND 1) 1 (drop_bit (nat idx) (v_mask v) AND 1))))"

definition bits_of :: "val4 \<Rightarrow> int \<Rightarrow> int \<Rightarrow> val4 option res" where
  "bits_of v msb lsb =
     (let w = msb - lsb + 1
      in if lsb < 0 \<or> w < 0 then Inl ValueError
         else Inr (Some (mk_value (drop_bit (nat lsb) (v_val v) AND width_mask (nat w)) (nat w)
                          (drop_bit (nat lsb) (v_mask v) AND width_mask (nat w)))))"

definition read_identifier :: "eval_ctx \<Rightarrow> string \<Rightarrow> string list \<Rightarrow> val4 option res" where
  "read_identifier ctx n h =
     (case (if h = [] then None
            else case signals ctx (identifier_name n h) of
                Some v \<Rightarrow> Some v | None \<Rightarrow> ancestor_signal ctx h (length h)) of
        Some v \<Rightarrow> Inr (Some v)
      | None \<Rightarrow> rmap Some (read_signal ctx n))"

definition read_bit :: "eval_ctx \<Rightarrow> string \<Rightarrow> expr \<Rightarrow> val4 option res" where
  "read_bit ctx n i =
     rbind (eval ctx i 0 None) (\<lambda>iv.
       if v_mask iv \<noteq> 0 then Inr None
       else (let idx = v_val iv
             in case memories ctx n of
                  Some (data, _) \<Rightarrow> Inr (if in_memory data idx then Some (data ! nat idx) else None)
                | None \<Rightarrow> rbind (read_signal ctx n) (\<lambda>cur. bit_of cur (idx - signal_bases ctx n))))"

definition read_element_bit :: "eval_ctx \<Rightarrow> string \<Rightarrow> expr \<Rightarrow> expr \<Rightarrow> val4 option res" where
  "read_element_bit ctx n i j =
     rbind (eval ctx i 0 None) (\<lambda>iv. rbind (eval ctx j 0 None) (\<lambda>jv.
       if v_mask iv \<noteq> 0 \<or> v_mask jv \<noteq> 0 then Inr None
       else (case memories ctx n of
           Some (data, _) \<Rightarrow> if in_memory data (v_val iv) then bit_of (data ! nat (v_val iv)) (v_val jv) else Inr None
         | None \<Rightarrow> Inr None)))"

definition read_range :: "eval_ctx \<Rightarrow> string \<Rightarrow> expr \<Rightarrow> expr \<Rightarrow> val4 option res" where
  "read_range ctx n m l =
     rbind (eval ctx m 0 None) (\<lambda>mv. rbind (eval ctx l 0 None) (\<lambda>lv.
       if v_mask mv = 0 \<and> v_mask lv = 0
       then rbind (read_signal ctx n) (\<lambda>cur.
              bits_of cur (v_val mv - signal_bases ctx n) (v_val lv - signal_bases ctx n))
       else Inr None))"

definition join_parts :: "val4 option list \<Rightarrow> val4 option res" where
  "join_parts vs =
     (if None \<in> set vs then Inr None
      else case map the vs of
          [] \<Rightarrow> Inl IndexError
        | v # rest \<Rightarrow> Inr (Some (foldl (\<lambda>r q. v_concat r [q]) v rest)))"

fun read_lhs :: "eval_ctx \<Rightarrow> expr \<Rightarrow> val4 option res" where
  "read_lhs ctx (Identifier n h _) = read_identifier ctx n h"
| "read_lhs ctx (BitSelect t i) = (case t of
     Identifier n _ _ \<Rightarrow> read_bit ctx n i
   | BitSelect t' i' \<Rightarrow> (case t' of Identifier n _ _ \<Rightarrow> read_element_bit ctx n i' i | _ \<Rightarrow> Inr None)
   | _ \<Rightarrow> Inr None)"
| "read_lhs ctx (RangeSelect t m l) = (case t of Identifier n _ _ \<Rightarrow> read_range ctx n m l | _ \<Rightarrow> Inr None)"
| "read_lhs ctx (Concatenation parts) = rbind (seq_res (map (read_lhs ctx) parts)) join_parts"
| "read_lhs ctx _ = Inr None"

section \<open>One assignment\<close>

definition differs :: "val4 \<Rightarrow> val4 \<Rightarrow> bool" where
  "differs old new \<longleftrightarrow> v_val old \<noteq> v_val new \<or> v_mask old \<noteq> v_mask new"

definition target_changed :: "val4 option \<Rightarrow> val4 option \<Rightarrow> bool" where
  "target_changed old new = (case (old, new) of (Some u, Some v) \<Rightarrow> differs u v | _ \<Rightarrow> False)"

definition write_now :: "expr \<Rightarrow> expr \<Rightarrow> int \<Rightarrow> exec_state \<Rightarrow> exec_state res" where
  "write_now lhs rhs w s =
     rbind (assign_value (es_ctx s) rhs w) (\<lambda>v.
       (case write_target True lhs v s of (s', None) \<Rightarrow> Inr s' | (s', Some e) \<Rightarrow> Inl e))"

definition reassign :: "expr \<Rightarrow> expr \<Rightarrow> exec_state \<Rightarrow> (exec_state \<times> bool) res" where
  "reassign lhs rhs s =
     rbind (read_lhs (es_ctx s) lhs) (\<lambda>old.
     rbind (case copy_whole_memory True lhs rhs s of
              Some s' \<Rightarrow> Inr s'
            | None \<Rightarrow> (case assign_pattern_to_memory True lhs rhs s of
                Some r \<Rightarrow> r
              | None \<Rightarrow> rbind (lhs_width (es_ctx s) lhs) (\<lambda>w. write_now lhs rhs w s))) (\<lambda>s'.
     rmap (\<lambda>new. (s', target_changed old new)) (read_lhs (es_ctx s') lhs)))"

text \<open>The pass over the changed names takes a short way for a plain scalar target.\<close>

definition reassign_dirty :: "expr \<Rightarrow> expr \<Rightarrow> exec_state \<Rightarrow> (exec_state \<times> bool) res" where
  "reassign_dirty lhs rhs s = (case (scalar_target (es_ctx s) lhs, lhs) of
     (Some old, Identifier n _ _) \<Rightarrow>
       rbind (write_now lhs rhs (int (v_width old)) s) (\<lambda>s'. case signals (es_ctx s') n of
          Some new \<Rightarrow> Inr (s', differs old new) | None \<Rightarrow> Inl KeyError)
   | _ \<Rightarrow> reassign lhs rhs s)"

section \<open>The passes\<close>

fun run_continuous_assigns :: "continuous_process list \<Rightarrow> exec_state \<Rightarrow> (exec_state \<times> bool) res" where
  "run_continuous_assigns [] s = Inr (s, False)"
| "run_continuous_assigns (p # ps) s =
     rbind (reassign (cp_lhs p) (cp_rhs p) s) (\<lambda>(s', ch).
       rmap (\<lambda>(s'', ch'). (s'', ch \<or> ch')) (run_continuous_assigns ps s'))"

text \<open>The names that the scan marks when a target changed; on the short way, the bare name only.\<close>

definition scan_marks :: "eval_ctx \<Rightarrow> expr \<Rightarrow> string set" where
  "scan_marks ctx lhs = (case (scalar_target ctx lhs, lhs) of
     (Some _, Identifier n _ _) \<Rightarrow> {n} | _ \<Rightarrow> lhs_base_names lhs)"

fun scan_pass ::
    "continuous_process list \<Rightarrow> string set \<Rightarrow> exec_state \<Rightarrow> (exec_state \<times> string set \<times> bool) res" where
  "scan_pass [] dirty s = Inr (s, dirty, False)"
| "scan_pass (p # ps) dirty s =
     (if cp_sens p \<inter> dirty = {} then scan_pass ps dirty s
      else rbind (reassign_dirty (cp_lhs p) (cp_rhs p) s) (\<lambda>(s', ch).
             rmap (\<lambda>(s'', dirty', ch'). (s'', dirty', ch \<or> ch'))
               (scan_pass ps (if ch then dirty \<union> scan_marks (es_ctx s) (cp_lhs p) else dirty) s')))"

text \<open>
  With the index: \<open>pending\<close> are the positions on the heap, \<open>candidates\<close> all positions ever put there. A
  position that is taken is larger than those before it, so the number of assignments bounds the turns.
\<close>

definition new_positions :: "(string \<Rightarrow> nat list) \<Rightarrow> string set \<Rightarrow> nat \<Rightarrow> nat set \<Rightarrow> nat set" where
  "new_positions index names current candidates =
     {i \<in> \<Union>((\<lambda>name. set (index name)) ` names). current < i \<and> i \<notin> candidates}"

fun indexed_pass ::
    "nat \<Rightarrow> continuous_process list \<Rightarrow> (string \<Rightarrow> nat list) \<Rightarrow> nat set \<Rightarrow> nat set \<Rightarrow> string set \<Rightarrow> exec_state \<Rightarrow>
     (exec_state \<times> string set \<times> bool) res" where
  "indexed_pass turns ps index pending candidates dirty s =
     (if pending = {} then Inr (s, dirty, False)
      else (case turns of
          0 \<Rightarrow> Inl RuntimeError
        | Suc turns \<Rightarrow>
            (let i = Min pending; p = ps ! i; rest = pending - {i}
             in if cp_sens p \<inter> dirty = {} then indexed_pass turns ps index rest candidates dirty s
                else rbind (reassign_dirty (cp_lhs p) (cp_rhs p) s) (\<lambda>(s', ch).
                       (let names = (if ch then lhs_base_names (cp_lhs p) - dirty else {});
                            new = new_positions index names i candidates
                        in rmap (\<lambda>(s'', dirty', ch'). (s'', dirty', ch \<or> ch'))
                             (indexed_pass turns ps index (rest \<union> new) (candidates \<union> new) (dirty \<union> names) s'))))))"

declare indexed_pass.simps [simp del]

text \<open>
  The choice between them: the scan for at most eight assignments, or when a quarter of them read a
  changed name. The code stops counting as soon as the threshold is reached.
\<close>

definition run_dirty_continuous_assigns ::
    "continuous_process list \<Rightarrow> string set \<Rightarrow> exec_state \<Rightarrow> (exec_state \<times> string set \<times> bool) res" where
  "run_dirty_continuous_assigns ps dirty s =
     (let n = length ps; index = continuous_index ps;
          candidates = \<Union>((\<lambda>name. set (index name)) ` dirty)
      in if n \<le> 8 \<or> max 1 ((n + 3) div 4) \<le> card candidates then scan_pass ps dirty s
         else indexed_pass n ps index candidates candidates dirty s)"

text \<open>\<open>for _ in range(self.delta_limit): if not self._run_dirty_continuous_assigns(dirty): break\<close>.\<close>

fun settle_assigns ::
    "nat \<Rightarrow> continuous_process list \<Rightarrow> string set \<Rightarrow> exec_state \<Rightarrow> (exec_state \<times> string set) res" where
  "settle_assigns 0 ps dirty s = Inr (s, dirty)"
| "settle_assigns (Suc n) ps dirty s =
     rbind (run_dirty_continuous_assigns ps dirty s) (\<lambda>(s', dirty', ch).
       if ch then settle_assigns n ps dirty' s' else Inr (s', dirty'))"

fun bootstrap_assigns :: "nat \<Rightarrow> continuous_process list \<Rightarrow> exec_state \<Rightarrow> exec_state res" where
  "bootstrap_assigns 0 ps s = Inr s"
| "bootstrap_assigns (Suc n) ps s =
     rbind (run_continuous_assigns ps s) (\<lambda>(s', ch). if ch then bootstrap_assigns n ps s' else Inr s')"

end
