(* ===== verification/Sensitivity_Properties.thy ===== *)
theory Sensitivity_Properties
  imports Continuous Engine_Shape
begin

text \<open>
  The reads that \<open>_walk_expr_reads\<close> collects are enough: two contexts that agree on them evaluate the
  expression alike.
\<close>

text \<open>
  What the collection leaves out: loop variables of the front end, and the operands of a
  minimum-typical-maximum triple.
\<close>

fun reads_complete :: "expr \<Rightarrow> bool" where
  "reads_complete (Identifier n h _) = (take 15 (identifier_name n h) \<noteq> ''__vt_local_for_'')"
| "reads_complete (Literal l) = True"
| "reads_complete (BinaryOp op l r) = (reads_complete l \<and> reads_complete r)"
| "reads_complete (UnaryOp op e) = reads_complete e"
| "reads_complete (TernaryOp c t f) = (reads_complete c \<and> reads_complete t \<and> reads_complete f)"
| "reads_complete (Concatenation parts) = list_all id (map reads_complete parts)"
| "reads_complete (Replication c v) = (reads_complete c \<and> reads_complete v)"
| "reads_complete (StreamingConcatenation parts slice) =
     (list_all id (map reads_complete parts) \<and> map_option reads_complete slice \<noteq> Some False)"
| "reads_complete (BitSelect t i) = (reads_complete t \<and> reads_complete i)"
| "reads_complete (RangeSelect t m l) = (reads_complete t \<and> reads_complete m \<and> reads_complete l)"
| "reads_complete (PartSelect t b w d) = (reads_complete t \<and> reads_complete b \<and> reads_complete w)"
| "reads_complete (FunctionCall f args) = list_all id (map reads_complete args)"
| "reads_complete (AssignmentPattern named pos dflt) =
     (list_all id (map reads_complete pos) \<and> map_option reads_complete dflt \<noteq> Some False)"
| "reads_complete (StringLiteral s) = True"
| "reads_complete (WidthCast w e) = True"
| "reads_complete (Mintypmax a b c) = False"

definition agree_on :: "string set \<Rightarrow> eval_ctx \<Rightarrow> eval_ctx \<Rightarrow> bool" where
  "agree_on A ctx ctx' \<longleftrightarrow> same_shape ctx ctx' \<and> ctx_time ctx' = ctx_time ctx \<and>
     (\<forall>name \<in> A. signals ctx' name = signals ctx name \<and> memories ctx' name = memories ctx name)"

lemma agree_on_mono: "agree_on A ctx ctx' \<Longrightarrow> B \<subseteq> A \<Longrightarrow> agree_on B ctx ctx'"
  by (auto simp: agree_on_def)

lemma agree_on_un [simp]: "agree_on (A \<union> B) ctx ctx' \<longleftrightarrow> agree_on A ctx ctx' \<and> agree_on B ctx ctx'"
  by (auto simp: agree_on_def)

lemma agree_on_static:
  assumes "agree_on A ctx ctx'"
  shows "expr_signed ctx' = expr_signed ctx" "expr_self_width ctx' = expr_self_width ctx"
    "select_base ctx' = select_base ctx" "signal_signed ctx' = signal_signed ctx" "ctx_time ctx' = ctx_time ctx"
  using assms shape_expr_signed shape_self_width shape_select_base
  by (auto simp: agree_on_def fun_eq_iff same_shape_def)

lemma agree_name:
  assumes "agree_on (expr_reads (Identifier n h r)) ctx ctx'" "reads_complete (Identifier n h r)"
  shows "signals ctx' (identifier_name n h) = signals ctx (identifier_name n h)"
    "memories ctx' (identifier_name n h) = memories ctx (identifier_name n h)"
  using assms by (auto simp: agree_on_def identifier_reads_def Let_def)

lemma reads_strip_casts: "expr_reads (strip_casts e) \<subseteq> expr_reads e"
  by (induction e rule: strip_casts.induct) auto

lemma complete_strip_casts: "reads_complete e \<Longrightarrow> reads_complete (strip_casts e)"
  by (induction e rule: strip_casts.induct) auto

lemma parts_reads:
  assumes "\<And>p w. p \<in> set parts \<Longrightarrow> expr_self_width ctx p = Inr w \<Longrightarrow> agree_on (expr_reads p) ctx ctx' \<Longrightarrow>
      reads_complete p \<Longrightarrow> eval ctx' p = eval ctx p"
    and "agree_on A ctx ctx'" "\<Union>(expr_reads ` set parts) \<subseteq> A" "list_all id (map reads_complete parts)"
  shows "map (\<lambda>p. rbind (expr_self_width ctx' p) (\<lambda>w. eval ctx' p w None)) parts =
    map (\<lambda>p. rbind (expr_self_width ctx p) (\<lambda>w. eval ctx p w None)) parts"
proof (rule map_cong [OF refl])
  fix p assume p: "p \<in> set parts"
  then have "agree_on (expr_reads p) ctx ctx'" "reads_complete p"
    using assms(2-4) by (auto simp: list_all_iff intro: agree_on_mono)
  then show "rbind (expr_self_width ctx' p) (\<lambda>w. eval ctx' p w None) = rbind (expr_self_width ctx p) (\<lambda>w. eval ctx p w None)"
    using assms(1) [OF p] agree_on_static(2) [OF assms(2)] by (cases "expr_self_width ctx p") simp_all
qed

lemma eval_reads:
  "agree_on (expr_reads e) ctx ctx' \<Longrightarrow> reads_complete e \<Longrightarrow> eval ctx' e = eval ctx e"
proof (induction ctx e rule: eval.induct)
  case (1 ctx n h r)
  have "read_whole_memory ctx' (identifier_name n h) = read_whole_memory ctx (identifier_name n h)"
    using agree_name(2) [OF 1] by (simp add: read_whole_memory_def)
  then show ?case using agree_name(1) [OF 1] agree_on_static(4) [OF 1(1)]
    by (intro ext) (auto simp: eval_identifier_def split: option.split cong: if_cong)
next
  case (3 ctx op l r)
  then have "eval ctx' l = eval ctx l" "eval ctx' r = eval ctx r" by auto
  then show ?case using agree_on_static [OF 3(3)]
    by (intro ext) (simp add: eval_binary_def eval_operands_def Let_def cong: if_cong)
next
  case (4 ctx op e)
  then have "eval ctx' e = eval ctx e" by auto
  then show ?case using agree_on_static [OF 4(2)] by (intro ext) (simp add: eval_unary_def Let_def cong: if_cong)
next
  case (5 ctx c t f)
  then have "eval ctx' c = eval ctx c" "eval ctx' t = eval ctx t" "eval ctx' f = eval ctx f" by auto
  then show ?case using agree_on_static [OF 5(4)] by (intro ext) (simp add: eval_ternary_def Let_def cong: if_cong)
next
  case (6 ctx parts)
  show ?case unfolding eval.simps
    by (rule arg_cong [OF parts_reads [OF 6(1) 6(2)]]) (use 6(3) in auto)
next
  case (7 ctx parts slice)
  have "map (\<lambda>p. rbind (expr_self_width ctx' p) (\<lambda>w. eval ctx' p w None)) parts =
      map (\<lambda>p. rbind (expr_self_width ctx p) (\<lambda>w. eval ctx p w None)) parts"
    by (rule parts_reads [OF 7(1) 7(3)]) (use 7(4) in auto)
  moreover have "eval ctx' e = eval ctx e" if "slice = Some e" for e
    using that 7(2-4) agree_on_mono [OF 7(3), of "expr_reads e"] by auto
  ultimately show ?case by (cases slice) (simp_all cong: map_cong)
next
  case (8 ctx t i)
  have t: "agree_on (expr_reads t) ctx ctx'" "reads_complete t"
    and ag: "agree_on (expr_reads i) ctx ctx'" "reads_complete i" using "8.prems" by simp_all
  have i: "eval ctx' i = eval ctx i"
  proof (cases t)
    case (Identifier n h r)
    show ?thesis
    proof (cases "memories ctx (identifier_name n h)")
      case None
      show ?thesis by (rule "8.IH", rule Identifier, rule None) (rule ag)+
    next
      case (Some p)
      show ?thesis by (cases p, rule "8.IH", rule Identifier, rule Some) (erule sym, rule ag, rule ag)
    qed
  qed ((erule "8.IH"; rule ag)+)
  have et: "eval ctx' t = eval ctx t" if "\<forall>n h r. t \<noteq> Identifier n h r"
  proof (cases t)
    case (Identifier n h r)
    then show ?thesis using that by simp
  qed ((erule "8.IH"; rule t)+)
  note static = agree_on_static [OF t(1)]
  have bit: "eval_bit_select ctx' t i f g = eval_bit_select ctx t i f g" for f g
    using static by (intro ext) (simp add: eval_bit_select_def index_int_def Let_def cong: if_cong)
  have mem: "eval_memory_select ctx' name data w i f = eval_memory_select ctx name data w i f" for name data w f
    using static by (intro ext) (simp add: eval_memory_select_def index_int_def Let_def cong: if_cong)
  show ?case
  proof (cases t)
    case (Identifier n h r)
    have m: "memories ctx' (identifier_name n h) = memories ctx (identifier_name n h)"
      using agree_name(2) t unfolding Identifier by blast
    show ?thesis
    proof (cases "memories ctx (identifier_name n h)")
      case None
      have "eval ctx' t = eval ctx t" by (rule "8.IH", rule Identifier, rule None) (rule t)+
      then show ?thesis using i bit m None Identifier by simp
    next
      case (Some p)
      then show ?thesis using i mem m Identifier by (cases p) simp
    qed
  qed (use i bit et in simp_all)
next
  case (9 ctx t m l)
  then have t: "agree_on (expr_reads t) ctx ctx'" "reads_complete t" "eval ctx' t = eval ctx t"
    and "eval ctx' m = eval ctx m" "eval ctx' l = eval ctx l" by auto
  moreover have "signals ctx' n = signals ctx n" if "t = Identifier n [] r" for n r
    using agree_name(1) [of n "[]" r ctx ctx'] t that by (simp add: identifier_name_def)
  ultimately show ?case using agree_on_static [OF 9(4)]
    by (intro ext) (auto simp: eval_range_select_def index_int_def split: expr.split cong: if_cong)
next
  case (10 ctx c v)
  then have "eval ctx' c = eval ctx c" "eval ctx' v = eval ctx v" by auto
  then show ?case using agree_on_static [OF 10(3)] by (intro ext) (simp add:  Let_def cong: if_cong)
next
  case (11 ctx named pos dflt)
  have "map (\<lambda>p. rbind (expr_self_width ctx' p) (\<lambda>w. eval ctx' p w None)) pos =
      map (\<lambda>p. rbind (expr_self_width ctx p) (\<lambda>w. eval ctx p w None)) pos"
    by (rule parts_reads [OF 11(1) 11(3)]) (use 11(4) in auto)
  moreover have "eval ctx' e = eval ctx e" if "dflt = Some e" for e
    using that 11(2-4) agree_on_mono [OF 11(3), of "expr_reads e"] by auto
  ultimately show ?case by (cases dflt) (simp_all cong: map_cong)
next
  case (12 ctx t b w dir)
  then have "eval ctx' t = eval ctx t" "eval ctx' b = eval ctx b" "eval ctx' w = eval ctx w" by auto
  then show ?case using agree_on_static [OF 12(4)] by (intro ext) (simp add: eval_part_select_def Let_def cong: if_cong)
next
  case (13 ctx f)
  then show ?case using agree_on_static(5) [OF 13(1)] by (intro ext) (simp add: eval_function_call_def Let_def cong: if_cong)
next
  case (14 ctx f a args)
  have ag: "agree_on (expr_reads x) ctx ctx'" "reads_complete x" if "x \<in> set (a # args)" for x
    using that 14(4,5) agree_on_mono [OF 14(4), of "expr_reads x"] by (auto simp: list_all_iff)
  have "agree_on (expr_reads (strip_casts a)) ctx ctx'" "reads_complete (strip_casts a)"
    using ag [of a] reads_strip_casts agree_on_mono complete_strip_casts by auto
  then have strip: "eval ctx' (strip_casts a) = eval ctx (strip_casts a)"
    if "lower f \<noteq> ''$__2state''" "is_sign_cast f" using 14(2) that by blast
  have "eval ctx' a = eval ctx a" if "lower f = ''$__2state''" using 14(1) [OF that] ag [of a] by simp
  moreover have "map (\<lambda>a. eval ctx' a 0 None) (a # args) = map (\<lambda>a. eval ctx a 0 None) (a # args)"
    if "lower f \<noteq> ''$__2state''" "\<not> is_sign_cast f"
    using 14(3) [OF that] ag by (auto intro!: map_cong)
  moreover have "eval_function_call ctx' f = eval_function_call ctx f"
    using agree_on_static(5) [OF 14(4)] by (intro ext) (simp add: eval_function_call_def Let_def cong: if_cong)
  ultimately show ?case using strip agree_on_static(2) [OF 14(4)] by (auto cong: map_cong)
qed simp_all

text \<open>C9: The sensitivity of an expression is complete. Two contexts that declare the same signals and memories,
  show the same time and agree on the names that \<open>_collect_reads\<close> finds in an expression give it the same
  value, or the same error, at every width and sign of the context: a change of any other name cannot
  make the expression stale. Excepted are the loop variables of the front end and
  minimum-typical-maximum triples, which the collection leaves out.\<close>

theorem sensitivity_complete:
  assumes "agree_on (expr_reads e) ctx ctx'" "reads_complete e"
  shows "eval ctx' e w sg = eval ctx e w sg"
  using eval_reads [OF assms] by simp

definition two_signals :: "int \<Rightarrow> int \<Rightarrow> eval_ctx" where
  "two_signals a b = \<lparr>signals = (\<lambda>s. if s = ''a'' then Some (known a 8) else if s = ''b'' then Some (known b 8) else None),
     signal_signed = (\<lambda>s. False), signal_bases = (\<lambda>s. 0),
     memories = (\<lambda>s. if s = ''m'' then Some ([known 1 8, known 2 8], 8) else None), memory_bases = (\<lambda>s. 0), ctx_time = 0\<rparr>"

theorem sensitivity_complete_witness:
  "eval (two_signals 1 99) (BitSelect (Identifier ''m'' [] None) (Identifier ''a'' [] None)) 16 None =
   eval (two_signals 1 5) (BitSelect (Identifier ''m'' [] None) (Identifier ''a'' [] None)) 16 None"
proof (rule sensitivity_complete)
  have "''b'' \<notin> expr_reads (BitSelect (Identifier ''m'' [] None) (Identifier ''a'' [] None))" by code_simp
  then show "agree_on (expr_reads (BitSelect (Identifier ''m'' [] None) (Identifier ''a'' [] None)))
      (two_signals 1 5) (two_signals 1 99)"
    by (auto simp: agree_on_def same_shape_def two_signals_def known_def simp del: expr_reads.simps)
  show "reads_complete (BitSelect (Identifier ''m'' [] None) (Identifier ''a'' [] None))" by code_simp
qed

end
