(* ===== verification/Untimed.thy ===== *)
theory Untimed
  imports Sensitivity_Properties
begin

text \<open>
  Expressions that do not read the simulation time: their value does not change when the time advances,
  so a continuous assignment of such an expression needs no new evaluation then.
\<close>

fun reads_time :: "expr \<Rightarrow> bool" where
  "reads_time (Identifier n h _) = False"
| "reads_time (Literal l) = False"
| "reads_time (BinaryOp op l r) = (reads_time l \<or> reads_time r)"
| "reads_time (UnaryOp op e) = reads_time e"
| "reads_time (TernaryOp c t f) = (reads_time c \<or> reads_time t \<or> reads_time f)"
| "reads_time (Concatenation parts) = list_ex reads_time parts"
| "reads_time (Replication c v) = (reads_time c \<or> reads_time v)"
| "reads_time (StreamingConcatenation parts slice) =
     (list_ex reads_time parts \<or> (case slice of Some e \<Rightarrow> reads_time e | None \<Rightarrow> False))"
| "reads_time (BitSelect t i) = (reads_time t \<or> reads_time i)"
| "reads_time (RangeSelect t m l) = (reads_time t \<or> reads_time m \<or> reads_time l)"
| "reads_time (PartSelect t b w d) = (reads_time t \<or> reads_time b \<or> reads_time w)"
| "reads_time (FunctionCall f args) =
     (lower f \<in> {''$time'', ''$realtime'', ''$stime''} \<or> list_ex reads_time args)"
| "reads_time (AssignmentPattern named pos dflt) =
     (list_ex reads_time pos \<or> (case dflt of Some e \<Rightarrow> reads_time e | None \<Rightarrow> False))"
| "reads_time (StringLiteral s) = False"
| "reads_time (WidthCast w e) = False"
| "reads_time (Mintypmax a b c) = reads_time b"

lemma shape_time [simp]: "same_shape ctx (ctx\<lparr>ctx_time := t\<rparr>)"
  by (simp add: same_shape_def)

lemma time_static [simp]:
  "expr_signed (ctx\<lparr>ctx_time := t\<rparr>) = expr_signed ctx"
  "expr_self_width (ctx\<lparr>ctx_time := t\<rparr>) = expr_self_width ctx"
  "select_base (ctx\<lparr>ctx_time := t\<rparr>) = select_base ctx"
  using shape_expr_signed [OF shape_time] shape_self_width [OF shape_time] shape_select_base [OF shape_time]
  by (simp_all add: fun_eq_iff)

lemma time_strip_casts: "\<not> reads_time e \<Longrightarrow> \<not> reads_time (strip_casts e)"
  by (induction e rule: strip_casts.induct) auto

lemma parts_untimed:
  assumes "\<And>p w. p \<in> set parts \<Longrightarrow> expr_self_width ctx p = Inr w \<Longrightarrow> \<not> reads_time p \<Longrightarrow>
      eval (ctx\<lparr>ctx_time := t\<rparr>) p = eval ctx p"
    and "\<not> list_ex reads_time parts"
  shows "map (\<lambda>p. rbind (expr_self_width ctx p) (\<lambda>w. eval (ctx\<lparr>ctx_time := t\<rparr>) p w None)) parts =
    map (\<lambda>p. rbind (expr_self_width ctx p) (\<lambda>w. eval ctx p w None)) parts"
proof (rule map_cong [OF refl])
  fix p assume "p \<in> set parts"
  then show "rbind (expr_self_width ctx p) (\<lambda>w. eval (ctx\<lparr>ctx_time := t\<rparr>) p w None) =
      rbind (expr_self_width ctx p) (\<lambda>w. eval ctx p w None)"
    using assms by (cases "expr_self_width ctx p") (auto simp: list_ex_iff)
qed

lemma eval_untimed: "\<not> reads_time e \<Longrightarrow> eval (ctx\<lparr>ctx_time := t\<rparr>) e = eval ctx e"
proof (induction ctx e rule: eval.induct)
  case (1 ctx n h r)
  show ?case by (intro ext) (simp add: eval_identifier_def read_whole_memory_def split: option.split)
next
  case (3 ctx op l r)
  then show ?case by (intro ext) (simp add: eval_binary_def eval_operands_def Let_def cong: if_cong)
next
  case (4 ctx op e)
  then show ?case by (intro ext) (simp add: eval_unary_def Let_def cong: if_cong)
next
  case (5 ctx c t f)
  then show ?case by (intro ext) (simp add: eval_ternary_def Let_def cong: if_cong)
next
  case (6 ctx parts)
  then show ?case by (simp add: parts_untimed)
next
  case (7 ctx parts slice)
  then show ?case by (cases slice) (simp_all add: parts_untimed)
next
  case (8 ctx t i)
  have bit: "eval_bit_select (ctx\<lparr>ctx_time := tm\<rparr>) = eval_bit_select ctx"
    "eval_memory_select (ctx\<lparr>ctx_time := tm\<rparr>) = eval_memory_select ctx" for tm
    by (intro ext, simp add: eval_bit_select_def eval_memory_select_def index_int_def Let_def cong: if_cong)+
  show ?case
  proof (cases t)
    case (Identifier n h r)
    show ?thesis
    proof (cases "memories ctx (identifier_name n h)")
      case None
      show ?thesis using 8 Identifier None by (simp add: bit)
    next
      case (Some p)
      show ?thesis using 8 Identifier Some by (cases p) (simp add: bit)
    qed
  qed (use 8 in \<open>simp_all add: bit\<close>)
next
  case (9 ctx t m l)
  then show ?case by (intro ext) (auto simp: eval_range_select_def index_int_def split: expr.split cong: if_cong)
next
  case (10 ctx c v)
  then show ?case by (intro ext) (simp add: Let_def cong: if_cong)
next
  case (11 ctx named pos dflt)
  then show ?case by (cases dflt) (simp_all add: parts_untimed)
next
  case (12 ctx t b w dir)
  then show ?case by (intro ext) (simp add: eval_part_select_def Let_def cong: if_cong)
next
  case (13 ctx f)
  then show ?case by (intro ext) (simp add: eval_function_call_def Let_def cong: if_cong)
next
  case (14 ctx f a args)
  have "eval_function_call (ctx\<lparr>ctx_time := t\<rparr>) f = eval_function_call ctx f"
    using 14(4) by (intro ext) (simp add: eval_function_call_def Let_def cong: if_cong)
  moreover have "map (\<lambda>a. eval (ctx\<lparr>ctx_time := t\<rparr>) a 0 None) (a # args) = map (\<lambda>a. eval ctx a 0 None) (a # args)"
    if "lower f \<noteq> ''$__2state''" "\<not> is_sign_cast f"
    using 14(3) [OF that] 14(4) by (auto simp: list_ex_iff)
  ultimately show ?case using 14(1,2,4) time_strip_casts [of a] by (auto cong: map_cong)
qed simp_all

end
