(* ===== verification/Continuous_Pass.thy ===== *)
theory Continuous_Pass
  imports Continuous Engine_Shape
begin

text \<open>
  The two ways of \<open>_run_dirty_continuous_assigns\<close> to find the assignments to evaluate again do the same.
\<close>

section \<open>The two passes are the same\<close>

definition plain_name :: "string \<Rightarrow> bool" where
  "plain_name n \<longleftrightarrow> CHR ''.'' \<notin> set n \<and> CHR ''['' \<notin> set n"

definition flat_target :: "expr \<Rightarrow> bool" where
  "flat_target lhs = (case lhs of Identifier n h _ \<Rightarrow> h = [] \<longrightarrow> plain_name n | _ \<Rightarrow> True)"

lemma split_on_plain: "c \<notin> set s \<Longrightarrow> split_on c s = [s]"
  by (induction s) auto

lemma base_names_plain: "plain_name n \<Longrightarrow> lhs_base_names (Identifier n [] r) = {n}"
  by (simp add: plain_name_def identifier_name_def split_on_plain dotted_prefixes_def)

lemma scan_marks_flat: "flat_target lhs \<Longrightarrow> scan_marks ctx lhs = lhs_base_names lhs"
  using base_names_plain
  by (auto simp: scan_marks_def flat_target_def scalar_target_def simp del: lhs_base_names.simps
      split: option.splits expr.splits)

lemma set_index: "set (continuous_index ps name) = {i. i < length ps \<and> name \<in> cp_sens (ps ! i)}"
  by (auto simp: continuous_index_def)

definition to_visit :: "continuous_process list \<Rightarrow> string set \<Rightarrow> nat \<Rightarrow> nat set" where
  "to_visit ps D c = {i. c \<le> i \<and> i < length ps \<and> cp_sens (ps ! i) \<inter> D \<noteq> {}}"

lemma indexed_scan:
  assumes "\<forall>p \<in> set ps. flat_target (cp_lhs p)"
    and "c \<le> length ps" "length ps - c \<le> turns" "pending = to_visit ps D c"
    and "\<forall>i \<ge> c. i < length ps \<longrightarrow> i \<in> candidates \<longleftrightarrow> cp_sens (ps ! i) \<inter> D \<noteq> {}"
  shows "indexed_pass turns ps (continuous_index ps) pending candidates D s = scan_pass (drop c ps) D s"
  using assms(2-5)
proof (induction "length ps - c" arbitrary: c turns pending candidates D s)
  case 0
  then have "pending = {}" "drop c ps = []" by (auto simp: to_visit_def)
  then show ?case by (simp add: indexed_pass.simps)
next
  case (Suc k)
  let ?p = "ps ! c"
  have c: "c < length ps" using Suc.hyps(2) by simp
  then have drop: "drop c ps = ?p # drop (Suc c) ps" by (simp add: Cons_nth_drop_Suc)
  show ?case
  proof (cases "cp_sens ?p \<inter> D = {}")
    case True
    have "pending = to_visit ps D (Suc c)"
    proof -
      have "i \<noteq> c" if "i \<in> pending" for i using that True Suc.prems(3) by (auto simp: to_visit_def)
      then show ?thesis using Suc.prems(3) by (fastforce simp: to_visit_def)
    qed
    then have "indexed_pass turns ps (continuous_index ps) pending candidates D s = scan_pass (drop (Suc c) ps) D s"
      using Suc.hyps(2) Suc.prems c by (intro Suc.hyps(1)) auto
    then show ?thesis using True drop by simp
  next
    case False
    have fin: "finite pending" using Suc.prems(3) by (simp add: to_visit_def)
    have "c \<in> pending" using False c Suc.prems(3) by (simp add: to_visit_def)
    moreover have "\<forall>i \<in> pending. c \<le> i" using Suc.prems(3) by (simp add: to_visit_def)
    ultimately have min: "Min pending = c" "pending \<noteq> {}" using fin by (auto intro: Min_eqI)
    obtain t where t: "turns = Suc t" using Suc.hyps(2) Suc.prems(2) by (cases turns) auto
    have rest: "indexed_pass t ps (continuous_index ps) (pending - {c} \<union> new) (candidates \<union> new) (D \<union> names) s'
        = scan_pass (drop (Suc c) ps) (D \<union> names) s'"
      if new: "new = new_positions (continuous_index ps) (names) c candidates" for new names s'
    proof (rule Suc.hyps(1))
      have new': "new = {i. c < i \<and> i < length ps \<and> cp_sens (ps ! i) \<inter> names \<noteq> {} \<and> i \<notin> candidates}"
        unfolding new by (auto simp: new_positions_def set_index)
      show "pending - {c} \<union> new = to_visit ps (D \<union> names) (Suc c)"
      proof (intro set_eqI)
        fix i
        have "i \<in> candidates \<longleftrightarrow> i \<in> pending" if "c < i" "i < length ps"
          using that Suc.prems(3,4) by (auto simp: to_visit_def)
        then show "i \<in> pending - {c} \<union> new \<longleftrightarrow> i \<in> to_visit ps (D \<union> names) (Suc c)"
          using Suc.prems(3) unfolding new' to_visit_def by (auto simp: Int_Un_distrib)
      qed
      show "\<forall>i \<ge> Suc c. i < length ps \<longrightarrow> i \<in> candidates \<union> new \<longleftrightarrow> cp_sens (ps ! i) \<inter> (D \<union> names) \<noteq> {}"
        using Suc.prems(4) unfolding new' by (auto simp: Int_Un_distrib)
    qed (use Suc.hyps(2) Suc.prems(2) t c in auto)
    have marks: "D \<union> (lhs_base_names (cp_lhs ?p) - D) = D \<union> scan_marks (es_ctx s) (cp_lhs ?p)"
      using scan_marks_flat assms(1) c by auto
    have step: "(let names = (if ch then lhs_base_names (cp_lhs ?p) - D else {});
             new = new_positions (continuous_index ps) names c candidates
         in rmap (\<lambda>(s'', D', ch'). (s'', D', ch \<or> ch'))
              (indexed_pass t ps (continuous_index ps) (pending - {c} \<union> new) (candidates \<union> new) (D \<union> names) s'))
       = rmap (\<lambda>(s'', D', ch'). (s'', D', ch \<or> ch'))
           (scan_pass (drop (Suc c) ps) (if ch then D \<union> scan_marks (es_ctx s) (cp_lhs ?p) else D) s')" for ch s'
      using marks by (simp add: Let_def rest [OF refl])
    have "indexed_pass turns ps (continuous_index ps) pending candidates D s =
        rbind (reassign_dirty (cp_lhs ?p) (cp_rhs ?p) s) (\<lambda>(s', ch).
          (let names = (if ch then lhs_base_names (cp_lhs ?p) - D else {});
               new = new_positions (continuous_index ps) names c candidates
           in rmap (\<lambda>(s'', D', ch'). (s'', D', ch \<or> ch'))
                (indexed_pass t ps (continuous_index ps) (pending - {c} \<union> new) (candidates \<union> new) (D \<union> names) s')))"
      unfolding t by (subst indexed_pass.simps) (simp add: min False Let_def)
    then show ?thesis unfolding step drop using False by simp
  qed
qed

lemma run_dirty_scan:
  assumes "\<forall>p \<in> set ps. flat_target (cp_lhs p)"
  shows "run_dirty_continuous_assigns ps D s = scan_pass ps D s"
proof -
  let ?C = "\<Union>((\<lambda>name. set (continuous_index ps name)) ` D)"
  have "?C = to_visit ps D 0" by (auto simp: set_index to_visit_def)
  then have "indexed_pass (length ps) ps (continuous_index ps) ?C ?C D s = scan_pass (drop 0 ps) D s"
    by (intro indexed_scan [OF assms]) (auto simp: to_visit_def)
  then show ?thesis by (simp add: run_dirty_continuous_assigns_def Let_def)
qed

text \<open>C5: The optimised pass over the continuous assignments is the scan. When the scalar targets have plain names,
  \<open>_run_dirty_continuous_assigns\<close> with its index of readers and its heap of positions leaves the same
  state, the same set of changed names and the same answer as visiting all the assignments in the order
  of their declaration, whatever names have changed.\<close>

theorem indexed_pass_is_scan:
  assumes "\<forall>p \<in> set ps. flat_target (cp_lhs p)"
  shows "run_dirty_continuous_assigns ps D s = scan_pass ps D s"
  by (rule run_dirty_scan [OF assms])

text \<open>Ten assignments, of which one reads the changed name: the index is used.\<close>

definition ten_wires :: "continuous_process list" where
  "ten_wires = map (\<lambda>c. continuous_process (Identifier [c] [] None, Identifier [c, c] [] None)) ''abcdefghij''"

theorem indexed_pass_is_scan_witness:
  "length ten_wires = 10 \<and> (\<forall>s. run_dirty_continuous_assigns ten_wires {''cc''} s = scan_pass ten_wires {''cc''} s)"
proof
  show "length ten_wires = 10" by code_simp
  have "\<forall>p \<in> set ten_wires. flat_target (cp_lhs p)" by code_simp
  then show "\<forall>s. run_dirty_continuous_assigns ten_wires {''cc''} s = scan_pass ten_wires {''cc''} s"
    using indexed_pass_is_scan by blast
qed

end
