(* ===== verification/Continuous_Settle.thy ===== *)
theory Continuous_Settle
  imports Continuous_Pass Sensitivity_Properties
begin

text \<open>
  Settling: after names have changed, the passes of \<open>_run_dirty_continuous_assigns\<close> bring every
  continuous assignment up to date, although they visit only some of them.
\<close>

section \<open>Plain assignments\<close>

text \<open>The target is a declared scalar with a plain name, the reads of the right-hand side are complete.\<close>

definition target_name :: "continuous_process \<Rightarrow> string" where
  "target_name p = (case cp_lhs p of Identifier n _ _ \<Rightarrow> n | _ \<Rightarrow> [])"

definition plain_assign :: "eval_ctx \<Rightarrow> continuous_process \<Rightarrow> bool" where
  "plain_assign ctx p \<longleftrightarrow>
     (case cp_lhs p of
        Identifier n h _ \<Rightarrow> h = [] \<and> plain_name n \<and> memories ctx n = None \<and> signals ctx n \<noteq> None
      | _ \<Rightarrow> False)
     \<and> reads_complete (cp_rhs p) \<and> cp_sens p = expr_reads (cp_rhs p)"

text \<open>What an assignment promises: the target holds the right-hand side at its width.\<close>

definition assign_holds :: "eval_ctx \<Rightarrow> continuous_process \<Rightarrow> bool" where
  "assign_holds ctx p = (case signals ctx (target_name p) of
     None \<Rightarrow> False
   | Some cur \<Rightarrow> rmap (fit_element (v_width cur)) (assign_value ctx (cp_rhs p) (int (v_width cur))) = Inr cur)"

lemma plain_assignE:
  assumes "plain_assign ctx p"
  obtains n r cur where "cp_lhs p = Identifier n [] r" "target_name p = n" "plain_name n"
    "memories ctx n = None" "signals ctx n = Some cur" "reads_complete (cp_rhs p)" "cp_sens p = expr_reads (cp_rhs p)"
  using assms by (auto simp: plain_assign_def target_name_def split: expr.splits)

lemma plain_assign_shape:
  assumes "same_shape ctx ctx'"
  shows "plain_assign ctx' p = plain_assign ctx p"
proof -
  have "(signals ctx' n = None) = (signals ctx n = None)" for n
    using shape_no_signal assms same_shape_sym by blast
  moreover have "(memories ctx' n = None) = (memories ctx n = None)" for n using shape_memory_none [OF assms] .
  ultimately show ?thesis by (simp add: plain_assign_def split: expr.split del: not_None_eq)
qed

lemma fit_width [simp]: "v_width (fit_element w v) = w"
  by (simp add: fit_element_def)

lemma write_plain_ctx: "es_ctx (write_plain n v s) = (es_ctx s)\<lparr>signals := (signals (es_ctx s))(n \<mapsto> v)\<rparr>"
  by (auto simp: write_plain_def note_original_def split: option.split)

lemma write_now_plain:
  assumes "plain_name n" "memories (es_ctx s) n = None" "signals (es_ctx s) n = Some cur"
  shows "write_now (Identifier n [] r) rhs (int (v_width cur)) s =
    rmap (\<lambda>v. write_plain n (fit_element (v_width cur) v) s) (assign_value (es_ctx s) rhs (int (v_width cur)))"
proof -
  have "write_target True (Identifier n [] r) v s = (write_plain n (fit_element (v_width cur) v) s, None)" for v
    using assms
    by (simp add: write_simple_def write_identifier_def attempt_def write_signal_def write_whole_memory_def
        identifier_name_def plain_name_def fit_element_def)
  then show ?thesis
    by (cases "assign_value (es_ctx s) rhs (int (v_width cur))") (simp_all add: write_now_def del: write_target.simps)
qed

lemma reassign_plain:
  assumes "plain_assign (es_ctx s) p" "signals (es_ctx s) (target_name p) = Some cur"
  shows "reassign_dirty (cp_lhs p) (cp_rhs p) s =
    rmap (\<lambda>v. (write_plain (target_name p) (fit_element (v_width cur) v) s, differs cur (fit_element (v_width cur) v)))
      (assign_value (es_ctx s) (cp_rhs p) (int (v_width cur)))"
proof -
  obtain n r cur' where p: "cp_lhs p = Identifier n [] r" "target_name p = n" "plain_name n"
    "memories (es_ctx s) n = None" "signals (es_ctx s) n = Some cur'"
    using plain_assignE [OF assms(1)] by metis
  have "scalar_target (es_ctx s) (cp_lhs p) = Some cur" using p assms(2) by (simp add: scalar_target_def)
  then show ?thesis
    using write_now_plain [OF p(3,4), of cur r "cp_rhs p"] p assms(2)
    by (cases "assign_value (es_ctx s) (cp_rhs p) (int (v_width cur))")
      (simp_all add: reassign_dirty_def write_plain_ctx)
qed

lemma assign_holds_cong:
  assumes "agree_on (expr_reads (cp_rhs p)) ctx ctx'" "reads_complete (cp_rhs p)"
    and "signals ctx' (target_name p) = signals ctx (target_name p)"
  shows "assign_holds ctx' p = assign_holds ctx p"
proof -
  have "assign_value ctx' (cp_rhs p) w = assign_value ctx (cp_rhs p) w" for w
    using eval_reads [OF assms(1,2)] agree_on_static(1) [OF assms(1)] by (simp add: assign_value_def)
  then show ?thesis using assms(3) by (simp add: assign_holds_def cong: option.case_cong)
qed

text \<open>One visit: it changes at most the target, and says so exactly.\<close>

lemma same_value_eq: "v_width u = v_width v \<Longrightarrow> \<not> differs u v \<Longrightarrow> u = v"
  by (simp add: differs_def)

lemma reassign_visit:
  assumes "plain_assign (es_ctx s) p" "es_originals s = None"
    and "reassign_dirty (cp_lhs p) (cp_rhs p) s = Inr (s', ch)"
  shows "es_originals s' = None" "same_shape (es_ctx s) (es_ctx s')" "ctx_time (es_ctx s') = ctx_time (es_ctx s)"
    "\<forall>name. name \<noteq> target_name p \<longrightarrow> signals (es_ctx s') name = signals (es_ctx s) name"
    "memories (es_ctx s') = memories (es_ctx s)"
    "\<not> ch \<Longrightarrow> s' = s \<and> assign_holds (es_ctx s) p"
    "target_name p \<notin> expr_reads (cp_rhs p) \<Longrightarrow> assign_holds (es_ctx s') p"
proof -
  obtain cur where cur: "signals (es_ctx s) (target_name p) = Some cur"
    using assms(1) by (rule plain_assignE) auto
  obtain v where v: "assign_value (es_ctx s) (cp_rhs p) (int (v_width cur)) = Inr v"
    "s' = write_plain (target_name p) (fit_element (v_width cur) v) s"
    "ch = differs cur (fit_element (v_width cur) v)"
    using assms(3) unfolding reassign_plain [OF assms(1) cur] by (auto simp: rmap_eq_Inr_iff)
  show "es_originals s' = None" using assms(2) by (simp add: v(2) write_plain_def note_original_def)
  show shape: "same_shape (es_ctx s) (es_ctx s')" using cur by (simp add: v(2) write_plain_ctx same_shape_def)
  show "ctx_time (es_ctx s') = ctx_time (es_ctx s)" "memories (es_ctx s') = memories (es_ctx s)"
    "\<forall>name. name \<noteq> target_name p \<longrightarrow> signals (es_ctx s') name = signals (es_ctx s) name"
    by (simp_all add: v(2) write_plain_ctx)
  show "s' = s \<and> assign_holds (es_ctx s) p" if "\<not> ch"
  proof -
    have eq: "fit_element (v_width cur) v = cur"
      using same_value_eq [of cur "fit_element (v_width cur) v"] that v(3) by simp
    have "(signals (es_ctx s))(target_name p \<mapsto> cur) = signals (es_ctx s)" using cur by (simp add: fun_upd_idem)
    then have "s' = s" using assms(2) by (simp add: v(2) eq write_plain_def note_original_def)
    then show ?thesis using v(1) cur eq by (simp add: assign_holds_def)
  qed
  show "assign_holds (es_ctx s') p" if "target_name p \<notin> expr_reads (cp_rhs p)"
  proof -
    have "agree_on (expr_reads (cp_rhs p)) (es_ctx s) (es_ctx s')"
      using that shape by (auto simp: agree_on_def v(2) write_plain_ctx)
    then have "eval (es_ctx s') (cp_rhs p) = eval (es_ctx s) (cp_rhs p)"
      "expr_signed (es_ctx s') = expr_signed (es_ctx s)"
      using eval_reads agree_on_static(1) assms(1) by (auto simp: plain_assign_def)
    then show ?thesis using v(1) by (simp add: assign_holds_def v(2) write_plain_ctx assign_value_def)
  qed
qed

section \<open>A pass\<close>

text \<open>
  The invariant of the passes, relative to the contexts \<open>ctx0\<close> before the changes: outside the changed
  names \<open>D\<close> nothing differs, and an assignment none of whose inputs are in \<open>D\<close> has its target outside \<open>D\<close>.
\<close>

definition pass_inv :: "continuous_process list \<Rightarrow> eval_ctx \<Rightarrow> string set \<Rightarrow> exec_state \<Rightarrow> bool" where
  "pass_inv ps ctx0 D s \<longleftrightarrow> es_originals s = None \<and> agree_on (- D) ctx0 (es_ctx s) \<and>
     (\<forall>p \<in> set ps. cp_sens p \<inter> D = {} \<longrightarrow> target_name p \<notin> D)"

definition single_driver :: "continuous_process list \<Rightarrow> bool" where
  "single_driver ps \<longleftrightarrow> distinct (map target_name ps)"

lemma single_driverD:
  "single_driver ps \<Longrightarrow> p \<in> set ps \<Longrightarrow> q \<in> set ps \<Longrightarrow> target_name p = target_name q \<Longrightarrow> p = q"
  by (auto simp: single_driver_def distinct_map inj_on_def)

text \<open>An assignment that is not visited still holds.\<close>

lemma not_visited:
  assumes "pass_inv ps ctx0 D s" "p \<in> set ps" "plain_assign ctx0 p" "assign_holds ctx0 p" "cp_sens p \<inter> D = {}"
  shows "assign_holds (es_ctx s) p"
proof -
  have ag: "agree_on (- D) ctx0 (es_ctx s)" and t: "target_name p \<notin> D"
    using assms(1,2,5) by (auto simp: pass_inv_def)
  have "agree_on (expr_reads (cp_rhs p)) ctx0 (es_ctx s)"
    using agree_on_mono [OF ag] assms(3,5) by (auto simp: plain_assign_def)
  moreover have "signals (es_ctx s) (target_name p) = signals ctx0 (target_name p)"
    using ag t by (auto simp: agree_on_def)
  ultimately show ?thesis using assign_holds_cong assms(3,4) by (simp add: plain_assign_def)
qed

lemma visit_inv:
  assumes "pass_inv ps ctx0 D s" "\<forall>p \<in> set ps. plain_assign ctx0 p" "single_driver ps" "p \<in> set ps"
    and "cp_sens p \<inter> D \<noteq> {}" "reassign_dirty (cp_lhs p) (cp_rhs p) s = Inr (s', ch)"
  shows "pass_inv ps ctx0 (if ch then D \<union> scan_marks (es_ctx s) (cp_lhs p) else D) s'"
    "\<not> ch \<Longrightarrow> s' = s \<and> assign_holds (es_ctx s) p"
proof -
  have ag: "agree_on (- D) ctx0 (es_ctx s)" "es_originals s = None" using assms(1) by (simp_all add: pass_inv_def)
  have shape: "same_shape ctx0 (es_ctx s)" using ag(1) by (simp add: agree_on_def)
  have plain: "plain_assign (es_ctx s) p" using assms(2,4) plain_assign_shape [OF shape] by simp
  note v = reassign_visit [OF plain ag(2) assms(6)]
  show "\<not> ch \<Longrightarrow> s' = s \<and> assign_holds (es_ctx s) p" by (rule v(6))
  show "pass_inv ps ctx0 (if ch then D \<union> scan_marks (es_ctx s) (cp_lhs p) else D) s'"
  proof (cases ch)
    case True
    have marks: "scan_marks (es_ctx s) (cp_lhs p) = {target_name p}"
      using plain by (rule plain_assignE) (auto simp: scan_marks_def scalar_target_def)
    have "agree_on (- (insert (target_name p) D)) ctx0 (es_ctx s')"
      using ag(1) v(2-5) same_shape_trans [OF shape v(2)] by (auto simp: agree_on_def)
    moreover have "target_name q \<notin> insert (target_name p) D"
      if "q \<in> set ps" "cp_sens q \<inter> insert (target_name p) D = {}" for q
      using that assms(1,3-5) single_driverD [OF assms(3) that(1) assms(4)] by (auto simp: pass_inv_def)
    ultimately show ?thesis using True v(1) by (simp add: pass_inv_def marks)
  next
    case False
    then show ?thesis using v(6) assms(1) by simp
  qed
qed

lemma scan_inv:
  assumes "pass_inv ps ctx0 D s" "\<forall>p \<in> set ps. plain_assign ctx0 p" "single_driver ps" "set qs \<subseteq> set ps"
    and "scan_pass qs D s = Inr (s', D', ch)"
  shows "pass_inv ps ctx0 D' s' \<and> D \<subseteq> D' \<and>
    (\<not> ch \<longrightarrow> s' = s \<and> D' = D \<and> (\<forall>p \<in> set qs. cp_sens p \<inter> D \<noteq> {} \<longrightarrow> assign_holds (es_ctx s) p))"
  using assms(1,4,5)
proof (induction qs arbitrary: D s ch)
  case Nil
  then show ?case by simp
next
  case (Cons p qs)
  show ?case
  proof (cases "cp_sens p \<inter> D = {}")
    case True
    then show ?thesis using Cons.IH [OF Cons.prems(1)] Cons.prems(2,3) by simp
  next
    case False
    let ?D = "\<lambda>c. if c then D \<union> scan_marks (es_ctx s) (cp_lhs p) else D"
    obtain s1 c c' where 1: "reassign_dirty (cp_lhs p) (cp_rhs p) s = Inr (s1, c)"
      "scan_pass qs (?D c) s1 = Inr (s', D', c')" "ch = (c \<or> c')"
      using Cons.prems(3) False by (auto simp: rbind_eq_Inr_iff rmap_eq_Inr_iff)
    note v = visit_inv [OF Cons.prems(1) assms(2,3) _ False 1(1)]
    have "pass_inv ps ctx0 (?D c) s1" using v(1) Cons.prems(2) by simp
    from Cons.IH [OF this _ 1(2)] show ?thesis using v(2) Cons.prems(2) 1(3) by (cases c; cases c') simp_all
  qed
qed

lemma flat_plain: "plain_assign ctx p \<Longrightarrow> flat_target (cp_lhs p)"
  by (auto simp: plain_assign_def flat_target_def split: expr.splits)

lemma settle_inv:
  assumes "pass_inv ps ctx0 D s" "\<forall>p \<in> set ps. plain_assign ctx0 p" "single_driver ps"
    and "settle_assigns n ps D s = Inr (s', D')"
  shows "pass_inv ps ctx0 D' s' \<and> D \<subseteq> D'"
  using assms(1,4)
proof (induction n arbitrary: D s)
  case 0
  then show ?case by simp
next
  case (Suc n)
  have scan: "run_dirty_continuous_assigns ps D s = scan_pass ps D s"
    using run_dirty_scan flat_plain assms(2) by blast
  obtain s1 D1 ch where 1: "scan_pass ps D s = Inr (s1, D1, ch)"
    "(if ch then settle_assigns n ps D1 s1 else Inr (s1, D1)) = Inr (s', D')"
    using Suc.prems(2) by (auto simp: scan rbind_eq_Inr_iff)
  have inv: "pass_inv ps ctx0 D1 s1" "D \<subseteq> D1" using scan_inv [OF Suc.prems(1) assms(2,3) _ 1(1)] by simp_all
  show ?case
  proof (cases ch)
    case True
    then show ?thesis using Suc.IH [OF inv(1)] 1(2) inv(2) by auto
  next
    case False
    then show ?thesis using inv 1(2) by simp
  qed
qed

section \<open>Settled\<close>

lemma pass_inv_start:
  assumes "es_originals s = None" "agree_on (- D) ctx0 (es_ctx s)" "\<forall>p \<in> set ps. target_name p \<notin> D"
  shows "pass_inv ps ctx0 D s"
  using assms by (simp add: pass_inv_def)

text \<open>C4: Incremental propagation is sound. Start from a state where every continuous assignment holds and
  change the signals and memories named in \<open>D\<close>, none of them a target. If each target is a plain scalar
  with one driver, then once a pass over the changed names finds nothing to change, every
  assignment holds again, also those that no pass has visited.\<close>

theorem incremental_propagation_sound:
  assumes "\<forall>p \<in> set ps. plain_assign ctx0 p \<and> assign_holds ctx0 p \<and> target_name p \<notin> D" "single_driver ps"
    and "es_originals s = None" "agree_on (- D) ctx0 (es_ctx s)"
    and "settle_assigns n ps D s = Inr (s', D')" "run_dirty_continuous_assigns ps D' s' = Inr (s'', D'', False)"
    and "p \<in> set ps"
  shows "assign_holds (es_ctx s') p"
proof -
  have plain: "\<forall>p \<in> set ps. plain_assign ctx0 p" using assms(1) by blast
  have inv: "pass_inv ps ctx0 D' s'"
    using settle_inv [OF pass_inv_start plain assms(2,5)] assms(1,3,4) by blast
  have "scan_pass ps D' s' = Inr (s'', D'', False)"
    using assms(6) run_dirty_scan [of ps] flat_plain plain by metis
  then have "cp_sens p \<inter> D' \<noteq> {} \<Longrightarrow> assign_holds (es_ctx s') p"
    using scan_inv [OF inv plain assms(2) subset_refl] assms(7) by blast
  then show ?thesis using not_visited [OF inv assms(7)] assms(1,7) by blast
qed

section \<open>Acyclic designs\<close>

text \<open>A rank of the targets that grows along the dependencies.\<close>

definition ranked :: "(string \<Rightarrow> nat) \<Rightarrow> continuous_process list \<Rightarrow> bool" where
  "ranked rank ps \<longleftrightarrow> (\<forall>p \<in> set ps. \<forall>q \<in> set ps. target_name q \<in> cp_sens p \<longrightarrow> rank (target_name q) < rank (target_name p))"

definition holds_below :: "(string \<Rightarrow> nat) \<Rightarrow> continuous_process list \<Rightarrow> nat \<Rightarrow> exec_state \<Rightarrow> bool" where
  "holds_below rank ps k s \<longleftrightarrow> (\<forall>p \<in> set ps. rank (target_name p) < k \<longrightarrow> assign_holds (es_ctx s) p)"

lemma holds_no_change:
  assumes "plain_assign (es_ctx s) p" "es_originals s = None" "assign_holds (es_ctx s) p"
    and "reassign_dirty (cp_lhs p) (cp_rhs p) s = Inr (s', ch)"
  shows "\<not> ch"
proof -
  obtain cur where cur: "signals (es_ctx s) (target_name p) = Some cur"
    using assms(1) by (rule plain_assignE) auto
  then show ?thesis
    using assms(3,4) unfolding reassign_plain [OF assms(1) cur] assign_holds_def
    by (auto simp: rmap_eq_Inr_iff differs_def)
qed

lemma visit_keeps:
  assumes "pass_inv ps ctx0 D s" "\<forall>p \<in> set ps. plain_assign ctx0 p" "single_driver ps" "ranked rank ps"
    and "holds_below rank ps k s" "p \<in> set ps" "rank (target_name p) \<le> k" "q \<in> set ps"
    and "reassign_dirty (cp_lhs q) (cp_rhs q) s = Inr (s', ch)" "p = q \<or> assign_holds (es_ctx s) p"
  shows "assign_holds (es_ctx s') p"
proof -
  have ag: "agree_on (- D) ctx0 (es_ctx s)" "es_originals s = None" using assms(1) by (simp_all add: pass_inv_def)
  have plain: "plain_assign (es_ctx s) r" if "r \<in> set ps" for r
    using assms(2) that plain_assign_shape [of ctx0 "es_ctx s"] ag(1) by (simp add: agree_on_def)
  note v = reassign_visit [OF plain [OF assms(8)] ag(2) assms(9)]
  have own: "target_name q \<notin> expr_reads (cp_rhs q)"
    using assms(4,8) plain [OF assms(8)] by (auto simp: ranked_def plain_assign_def)
  show ?thesis
  proof (cases "p = q")
    case True
    then show ?thesis using v(7) [OF own] by simp
  next
    case False
    then have p: "assign_holds (es_ctx s) p" using assms(10) by simp
    show ?thesis
    proof (cases "target_name q \<in> cp_sens p")
      case True
      then have "rank (target_name q) < rank (target_name p)" using assms(4,6,8) by (simp add: ranked_def)
      then have "assign_holds (es_ctx s) q" using assms(5,7,8) by (simp add: holds_below_def)
      then have "\<not> ch" using holds_no_change [OF plain [OF assms(8)] ag(2)] assms(9) by blast
      then show ?thesis using v(6) p by simp
    next
      case reads: False
      have "target_name p \<noteq> target_name q" using single_driverD [OF assms(3,6,8)] False by blast
      then have sig: "signals (es_ctx s') (target_name p) = signals (es_ctx s) (target_name p)" using v(4) by simp
      have ag': "agree_on (expr_reads (cp_rhs p)) (es_ctx s) (es_ctx s')"
        unfolding agree_on_def
      proof (intro conjI ballI)
        fix name assume "name \<in> expr_reads (cp_rhs p)"
        then have "name \<noteq> target_name q" using reads plain [OF assms(6)] by (auto simp: plain_assign_def)
        then show "signals (es_ctx s') name = signals (es_ctx s) name" using v(4) by blast
      qed (simp_all add: v(2,3,5))
      then show ?thesis using assign_holds_cong sig p plain [OF assms(6)] by (simp add: plain_assign_def)
    qed
  qed
qed

lemma scan_rank:
  assumes "\<forall>p \<in> set ps. plain_assign ctx0 p \<and> assign_holds ctx0 p" "single_driver ps" "ranked rank ps"
    and "set qs \<subseteq> set ps" "pass_inv ps ctx0 D s" "holds_below rank ps k s" "scan_pass qs D s = Inr (s', D', ch)"
  shows "\<forall>p \<in> set ps. (rank (target_name p) < k \<or> rank (target_name p) = k \<and> (p \<in> set qs \<or> assign_holds (es_ctx s) p))
    \<longrightarrow> assign_holds (es_ctx s') p"
  using assms(4-7)
proof (induction qs arbitrary: D s ch)
  case Nil
  then show ?case by (auto simp: holds_below_def)
next
  case (Cons q qs)
  have plain: "\<forall>p \<in> set ps. plain_assign ctx0 p" using assms(1) by blast
  have q: "q \<in> set ps" "set qs \<subseteq> set ps" using Cons.prems(1) by simp_all
  show ?case
  proof (cases "cp_sens q \<inter> D = {}")
    case True
    then have "assign_holds (es_ctx s) q" using not_visited [OF Cons.prems(2) q(1)] assms(1) q(1) by simp
    then show ?thesis using Cons.IH [OF q(2) Cons.prems(2,3)] Cons.prems(4) True by auto
  next
    case False
    let ?D = "\<lambda>c. if c then D \<union> scan_marks (es_ctx s) (cp_lhs q) else D"
    obtain s1 c c' where 1: "reassign_dirty (cp_lhs q) (cp_rhs q) s = Inr (s1, c)"
      "scan_pass qs (?D c) s1 = Inr (s', D', c')"
      using Cons.prems(4) False by (auto simp: rbind_eq_Inr_iff rmap_eq_Inr_iff)
    have keep: "assign_holds (es_ctx s1) p"
      if "p \<in> set ps" "rank (target_name p) \<le> k" "p = q \<or> assign_holds (es_ctx s) p" for p
      using visit_keeps [OF Cons.prems(2) plain assms(2,3) Cons.prems(3) that(1,2) q(1) 1(1) that(3)] .
    have "holds_below rank ps k s1" using keep Cons.prems(3) by (simp add: holds_below_def)
    from Cons.IH [OF q(2) visit_inv(1) [OF Cons.prems(2) plain assms(2) q(1) False 1(1)] this 1(2)]
    show ?thesis using keep Cons.prems(3) by (auto simp: holds_below_def)
  qed
qed

lemma pass_rank:
  assumes "\<forall>p \<in> set ps. plain_assign ctx0 p \<and> assign_holds ctx0 p" "single_driver ps" "ranked rank ps"
    and "pass_inv ps ctx0 D s" "holds_below rank ps k s" "scan_pass ps D s = Inr (s', D', ch)"
  shows "holds_below rank ps (Suc k) s'"
  using scan_rank [OF assms(1-3) subset_refl assms(4-6)] by (auto simp: holds_below_def less_Suc_eq)

lemma settle_rank:
  assumes "\<forall>p \<in> set ps. plain_assign ctx0 p \<and> assign_holds ctx0 p" "single_driver ps" "ranked rank ps"
    and "pass_inv ps ctx0 D s" "holds_below rank ps k s" "settle_assigns n ps D s = Inr (s', D')"
  shows "holds_below rank ps (k + n) s'"
  using assms(4-6)
proof (induction n arbitrary: D s k)
  case 0
  then show ?case by simp
next
  case (Suc n)
  have plain: "\<forall>p \<in> set ps. plain_assign ctx0 p" using assms(1) by blast
  have scan: "run_dirty_continuous_assigns ps D s = scan_pass ps D s"
    using run_dirty_scan flat_plain plain by blast
  obtain s1 D1 ch where 1: "scan_pass ps D s = Inr (s1, D1, ch)"
    "(if ch then settle_assigns n ps D1 s1 else Inr (s1, D1)) = Inr (s', D')"
    using Suc.prems(3) by (auto simp: scan rbind_eq_Inr_iff)
  note inv = scan_inv [OF Suc.prems(1) plain assms(2) subset_refl 1(1)]
  have below: "holds_below rank ps (Suc k) s1" by (rule pass_rank [OF assms(1-3) Suc.prems(1,2) 1(1)])
  show ?case
  proof (cases ch)
    case True
    then show ?thesis using Suc.IH [of D1 s1 "Suc k"] inv below 1(2) by simp
  next
    case False
    then have "\<forall>p \<in> set ps. assign_holds (es_ctx s) p"
      using inv not_visited [OF Suc.prems(1)] assms(1) by blast
    then show ?thesis using False inv 1(2) by (simp add: holds_below_def)
  qed
qed

text \<open>C8: Continuous assignments settle. If the dependencies between the targets have no cycle and \<open>n\<close> bounds
  their depth, then \<open>n\<close> passes over the changed names reach a state in which every assignment holds,
  in whatever order the assignments are declared.\<close>

theorem acyclic_assigns_settle:
  assumes "\<forall>p \<in> set ps. plain_assign ctx0 p \<and> assign_holds ctx0 p \<and> target_name p \<notin> D" "single_driver ps"
    and "ranked rank ps" "\<forall>p \<in> set ps. rank (target_name p) < n"
    and "es_originals s = None" "agree_on (- D) ctx0 (es_ctx s)" "settle_assigns n ps D s = Inr (s', D')"
    and "p \<in> set ps"
  shows "assign_holds (es_ctx s') p"
proof -
  have "holds_below rank ps (0 + n) s'"
    by (rule settle_rank [OF _ assms(2,3) pass_inv_start [OF assms(5,6)] _ assms(7)])
      (use assms(1) in \<open>auto simp: holds_below_def\<close>)
  then show ?thesis using assms(4,8) by (simp add: holds_below_def)
qed

section \<open>A concrete chain\<close>

text \<open>The assignments \<open>z = y ^ a\<close> and \<open>y = a + b\<close>, declared against their dependency, and a change of \<open>a\<close>.\<close>

definition wire :: "string \<Rightarrow> expr" where
  "wire n = Identifier n [] None"

definition chain :: "continuous_process list" where
  "chain = map continuous_process
     [(wire ''z'', BinaryOp BXor (wire ''y'') (wire ''a'')), (wire ''y'', BinaryOp Add (wire ''a'') (wire ''b''))]"

definition chain_ctx :: "int \<Rightarrow> eval_ctx" where
  "chain_ctx a = \<lparr>signals = (\<lambda>s. if s = ''a'' then Some (known a 8) else if s = ''b'' then Some (known 5 8)
       else if s = ''y'' then Some (known 8 8) else if s = ''z'' then Some (known 11 8) else None),
     signal_signed = (\<lambda>s. False), signal_bases = (\<lambda>s. 0), memories = (\<lambda>s. None), memory_bases = (\<lambda>s. 0), ctx_time = 0\<rparr>"

definition chain_state :: exec_state where
  "chain_state = \<lparr>es_ctx = chain_ctx 200, es_originals = None, es_nba = [], es_output = [], es_write_buffer = [],
     es_time = 0, es_limit = 10, es_files = (\<lambda>name. None)\<rparr>"

lemma chain_start:
  "\<forall>p \<in> set chain. plain_assign (chain_ctx 3) p \<and> assign_holds (chain_ctx 3) p \<and> target_name p \<notin> {''a''}"
  "single_driver chain" "es_originals chain_state = None" "agree_on (- {''a''}) (chain_ctx 3) (es_ctx chain_state)"
proof -
  show "\<forall>p \<in> set chain. plain_assign (chain_ctx 3) p \<and> assign_holds (chain_ctx 3) p \<and> target_name p \<notin> {''a''}"
    by code_simp
  show "single_driver chain" by code_simp
  show "es_originals chain_state = None" "agree_on (- {''a''}) (chain_ctx 3) (es_ctx chain_state)"
    by (auto simp: chain_state_def chain_ctx_def agree_on_def same_shape_def known_def)
qed

lemma chain_settles:
  obtains s' D' s'' D'' where "settle_assigns 3 chain {''a''} chain_state = Inr (s', D')"
    "run_dirty_continuous_assigns chain D' s' = Inr (s'', D'', False)"
proof -
  have "case settle_assigns 3 chain {''a''} chain_state of Inl _ \<Rightarrow> False
    | Inr (s', D') \<Rightarrow> (case run_dirty_continuous_assigns chain D' s' of Inl _ \<Rightarrow> False | Inr (_, _, ch) \<Rightarrow> \<not> ch)"
    by code_simp
  then obtain s' D' where r: "settle_assigns 3 chain {''a''} chain_state = Inr (s', D')"
    and c: "case run_dirty_continuous_assigns chain D' s' of Inl _ \<Rightarrow> False | Inr (_, _, ch) \<Rightarrow> \<not> ch"
    by (cases "settle_assigns 3 chain {''a''} chain_state") auto
  from c obtain s'' D'' where "run_dirty_continuous_assigns chain D' s' = Inr (s'', D'', False)"
    by (cases "run_dirty_continuous_assigns chain D' s'") auto
  then show ?thesis using that r by blast
qed

theorem incremental_propagation_sound_witness:
  "\<exists>s' D'. settle_assigns 3 chain {''a''} chain_state = Inr (s', D') \<and> (\<forall>p \<in> set chain. assign_holds (es_ctx s') p)"
proof -
  obtain s' D' s'' D'' where r: "settle_assigns 3 chain {''a''} chain_state = Inr (s', D')"
    "run_dirty_continuous_assigns chain D' s' = Inr (s'', D'', False)" by (rule chain_settles)
  then show ?thesis using incremental_propagation_sound [OF chain_start r] by blast
qed

theorem acyclic_assigns_settle_witness:
  "\<exists>s' D'. settle_assigns 2 chain {''a''} chain_state = Inr (s', D') \<and> (\<forall>p \<in> set chain. assign_holds (es_ctx s') p)"
proof -
  let ?rank = "\<lambda>n. if n = ''z'' then 1 else (0::nat)"
  have "\<not> isl (settle_assigns 2 chain {''a''} chain_state)" by code_simp
  then obtain s' D' where r: "settle_assigns 2 chain {''a''} chain_state = Inr (s', D')"
    by (cases "settle_assigns 2 chain {''a''} chain_state") auto
  have "ranked ?rank chain" "\<forall>p \<in> set chain. ?rank (target_name p) < 2" by code_simp+
  from acyclic_assigns_settle [OF chain_start(1,2) this chain_start(3,4) r] show ?thesis using r by blast
qed

end
