(* ===== verification/Scheduler.thy ===== *)
theory Scheduler
  imports Continuous Executor Event_Queue
begin

text \<open>
  The event-driven scheduler, \<open>class Scheduler\<close> in \<open>sim/scheduler.py\<close>: processes, elaboration of
  assignments and blocks into processes, the active region, the search for triggered processes and one
  time step with its delta cycles.

  The attributes fixed by elaboration are the record \<open>design\<close>; those that change, with the evaluation
  context and the executor, the record \<open>sched\<close>. A process has an identity number, under which its
  state and its generator are kept; a generator is the function that resumes it. An exception ends the
  operation and the state it leaves is not kept, except that a process may stop with \<open>$finish\<close> or
  suspend. Left out are the tracing of signals, the callback after a time step and the attribute
  \<open>suspend_info\<close>, which nothing reads.
\<close>

section \<open>Processes\<close>

datatype process_state = IDLE | ACTIVE | SUSPENDED | DONE

record always_process =
  ap_id :: nat
  ap_block :: always_block
  ap_sens :: "string set"
  ap_edges :: edge_dict
  ap_timing :: bool
  ap_self :: "string set"

record initial_process =
  ip_id :: nat
  ip_body :: stmt

text \<open>The last kind is the clock toggle of the testbench, which the scheduler knows by its attributes.\<close>

datatype process =
    ContinuousProcess continuous_process
  | AlwaysProcess always_process
  | InitialProcess initial_process
  | ClockToggle string val4

fun process_sens :: "process \<Rightarrow> string set" where
  "process_sens (ContinuousProcess p) = cp_sens p"
| "process_sens (AlwaysProcess p) = ap_sens p"
| "process_sens _ = {}"

record design =
  d_continuous :: "continuous_process list"
  d_always :: "always_process list"
  d_initial :: "initial_process list"
  d_names :: "string list"
  d_delta_limit :: nat

section \<open>Elaboration of the processes\<close>

definition is_timing :: "always_process \<Rightarrow> bool" where
  "is_timing p \<longleftrightarrow> ap_timing p \<and> ab_list (ap_block p) = []"

definition is_combo :: "always_process \<Rightarrow> bool" where
  "is_combo p \<longleftrightarrow> \<not> is_timing p \<and> ab_type (ap_block p) = COMBINATIONAL"

text \<open>A name in the sensitivity that is only the prefix of an instance, neither signal nor memory.\<close>

definition instance_prefix :: "eval_ctx \<Rightarrow> string set \<Rightarrow> string \<Rightarrow> bool" where
  "instance_prefix ctx sens name \<longleftrightarrow> signals ctx name = None \<and> memories ctx name = None \<and>
     (\<exists>other \<in> sens. take (Suc (length name)) other = name @ ''.'')"

definition make_always :: "eval_ctx \<Rightarrow> nat \<Rightarrow> always_block \<Rightarrow> always_process" where
  "make_always ctx i b =
     (let (sens, edges) = always_sensitivity b;
          p = \<lparr>ap_id = i, ap_block = b, ap_sens = sens, ap_edges = edges,
               ap_timing = stmt_has_timing (ab_body b), ap_self = {}\<rparr>
      in if is_combo p then
           (let sens = sens - Set.filter (instance_prefix ctx sens) sens; not_written = sens - stmt_writes (ab_body b)
            in p\<lparr>ap_sens := sens, ap_self := sens - not_written\<rparr>)
         else p)"

text \<open>The numbers are given in the order of creation: assignments, always blocks, initial blocks.\<close>

definition make_design ::
    "nat \<Rightarrow> eval_ctx \<Rightarrow> string list \<Rightarrow> (expr \<times> expr) list \<Rightarrow> always_block list \<Rightarrow> stmt list \<Rightarrow> design" where
  "make_design limit ctx names assigns always initial =
     (let n = length assigns; k = n + length always
      in \<lparr>d_continuous = map continuous_process assigns,
          d_always = map (\<lambda>(i, b). make_always ctx i b) (enumerate n always),
          d_initial = map (\<lambda>(i, b). \<lparr>ip_id = i, ip_body = b\<rparr>) (enumerate k initial),
          d_names = names, d_delta_limit = limit\<rparr>)"

definition d_timing :: "design \<Rightarrow> always_process list" where
  "d_timing d = filter is_timing (d_always d)"

definition d_combo :: "design \<Rightarrow> always_process list" where
  "d_combo d = filter is_combo (d_always d)"

definition d_seq :: "design \<Rightarrow> always_process list" where
  "d_seq d = filter (\<lambda>p. \<not> is_timing p \<and> \<not> is_combo p) (d_always d)"

definition sig_to_procs :: "design \<Rightarrow> string \<Rightarrow> process list" where
  "sig_to_procs d name =
     filter (\<lambda>p. name \<in> process_sens p) (map ContinuousProcess (d_continuous d) @ map AlwaysProcess (d_always d))"

definition edge_to_seq :: "design \<Rightarrow> string \<times> edge_kind \<Rightarrow> always_process list" where
  "edge_to_seq d e = filter (\<lambda>p. e \<in> set (ap_edges p)) (d_seq d)"

definition seq_edge_names :: "design \<Rightarrow> string set" where
  "seq_edge_names d = \<Union>((\<lambda>p. fst ` set (ap_edges p)) ` set (d_seq d))"

section \<open>State\<close>

record sched =
  sd_exec :: exec_state
  sd_time :: int
  sd_queue :: "process event_queue"
  sd_state :: "nat \<Rightarrow> process_state"
  sd_generator :: "nat \<Rightarrow> (exec_state \<Rightarrow> coroutine) option"
  sd_prev :: "string \<Rightarrow> val4 option"
  sd_edge_changed :: "string set"
  sd_triggered_seq :: "nat set"
  sd_waiting :: "(process \<times> edge_dict) list"
  sd_own :: "string \<Rightarrow> nat option"
  sd_finish :: bool
  sd_display :: "string list"
  sd_bootstrapped :: bool
  sd_pending :: "string set"
  sd_settle_snapshot :: "(string \<Rightarrow> val4 option) option"
  sd_last_run :: "(string \<Rightarrow> val4 option) option"

abbreviation sd_ctx :: "sched \<Rightarrow> eval_ctx" where
  "sd_ctx s \<equiv> es_ctx (sd_exec s)"

definition schedule_process :: "int \<Rightarrow> process \<Rightarrow> sched \<Rightarrow> sched" where
  "schedule_process t p s = s\<lparr>sd_queue := schedule t p (sd_queue s)\<rparr>"

definition set_state :: "nat \<Rightarrow> process_state \<Rightarrow> sched \<Rightarrow> sched" where
  "set_state i st s = s\<lparr>sd_state := (sd_state s)(i := st)\<rparr>"

definition set_generator :: "nat \<Rightarrow> (exec_state \<Rightarrow> coroutine) option \<Rightarrow> sched \<Rightarrow> sched" where
  "set_generator i g s = s\<lparr>sd_generator := (sd_generator s)(i := g)\<rparr>"

section \<open>Suspension\<close>

text \<open>The dictionary of an event control: of two edges of one signal the later stays.\<close>

fun event_dict :: "sensitivity_edge list \<Rightarrow> edge_dict \<Rightarrow> edge_dict" where
  "event_dict [] d = d"
| "event_dict (SensitivityEdge k e # es) d =
     event_dict es (case e of Identifier n _ _ \<Rightarrow> AList.update n k d | _ \<Rightarrow> d)"

definition schedule_suspend :: "process \<Rightarrow> int option \<Rightarrow> sensitivity_edge list \<Rightarrow> sched \<Rightarrow> sched" where
  "schedule_suspend p delay evs s = (case delay of
     Some n \<Rightarrow> schedule_process (if 0 < n then sd_time s + n else sd_time s) p s
   | None \<Rightarrow>
       (if evs = [] then s
        else (let edges = event_dict evs []
              in if edges \<noteq> [] then s\<lparr>sd_waiting := sd_waiting s @ [(p, edges)]\<rparr>
                 else schedule_process (sd_time s) p s)))"

section \<open>Running one process\<close>

text \<open>A generator that has ended raises \<open>StopIteration\<close> whenever it is resumed.\<close>

definition exhausted :: "exec_state \<Rightarrow> coroutine" where
  "exhausted s = Return s Completed"

text \<open>
  \<open>next(proc._coroutine)\<close>: the generator is created on the first run; the outcome is \<open>None\<close> when it
  suspended, which also schedules the process.
\<close>

definition resume :: "nat \<Rightarrow> stmt \<Rightarrow> process \<Rightarrow> sched \<Rightarrow> sched \<times> completion option" where
  "resume i body p s =
     (let s = set_state i ACTIVE s
      in case (case sd_generator s i of Some g \<Rightarrow> g | None \<Rightarrow> execute_coroutine body) (sd_exec s) of
           Yield delay evs es g \<Rightarrow>
             (schedule_suspend p delay evs (set_generator i (Some g) (s\<lparr>sd_exec := es\<rparr>)), None)
         | Return es c \<Rightarrow> (set_generator i (Some exhausted) (s\<lparr>sd_exec := es\<rparr>), Some c))"

definition execute_process :: "process \<Rightarrow> sched \<Rightarrow> sched \<times> completion" where
  "execute_process p s = (case p of
     AlwaysProcess a \<Rightarrow>
       (if ap_timing a then
          (case resume (ap_id a) (ab_body (ap_block a)) p s of
             (s, None) \<Rightarrow> (s, Completed)
           | (s, Some Completed) \<Rightarrow> (schedule_process (sd_time s) p (set_generator (ap_id a) None s), Completed)
           | (s, Some c) \<Rightarrow> (s, c))
        else
          (case execute_stmt (ab_body (ap_block a)) (sd_exec s) of
             (es, Completed) \<Rightarrow> (set_state (ap_id a) IDLE (s\<lparr>sd_exec := es\<rparr>), Completed)
           | (es, c) \<Rightarrow> (set_state (ap_id a) ACTIVE (s\<lparr>sd_exec := es\<rparr>), c)))
   | InitialProcess q \<Rightarrow>
       (case resume (ip_id q) (ip_body q) p s of
          (s, None) \<Rightarrow> (s, Completed)
        | (s, Some Completed) \<Rightarrow> (set_state (ip_id q) DONE s, Completed)
        | (s, Some c) \<Rightarrow> (s, c))
   | ContinuousProcess c \<Rightarrow>
       (case rbind (lhs_width (sd_ctx s) (cp_lhs c)) (\<lambda>w. write_now (cp_lhs c) (cp_rhs c) w (sd_exec s)) of
          Inr es \<Rightarrow> (s\<lparr>sd_exec := es\<rparr>, Completed) | Inl e \<Rightarrow> (s, Failed e))
   | ClockToggle n v \<Rightarrow>
       (case write_signal n v (sd_exec s) of
          Inr es \<Rightarrow> (s\<lparr>sd_exec := es\<rparr>, Completed) | Inl e \<Rightarrow> (s, Failed e)))"

section \<open>The active region\<close>

text \<open>The number of a process and its \<open>self_sens\<close>, empty unless it is an always block.\<close>

fun process_self :: "process \<Rightarrow> nat \<times> string set" where
  "process_self (AlwaysProcess a) = (ap_id a, ap_self a)"
| "process_self _ = (0, {})"

text \<open>
  What the region keeps while it runs: the first value of every name written, and the names that so far
  only one block has changed, which it also reads. The code finds later writers by the identity of the
  value object; here every write of another process counts as a new object. A memory has no object in
  the table of signals, so it is never found changed again.
\<close>

record region =
  rg_originals :: "(string \<times> val4 option) list"
  rg_own :: "string \<Rightarrow> nat option"

definition note_writes :: "process \<Rightarrow> sched \<Rightarrow> (string \<times> val4 option) list \<Rightarrow> region \<Rightarrow> region" where
  "note_writes p s written r =
     (let (i, self) = process_self p; earlier = fst ` set (rg_originals r)
      in \<lparr>rg_originals = rg_originals r @ filter (\<lambda>(n, _). n \<notin> earlier) written,
          rg_own = (\<lambda>n. if n \<notin> fst ` set written then rg_own r n
                        else if n \<in> self \<and> n \<notin> earlier then Some i
                        else if signals (sd_ctx s) n = None then rg_own r n else None)\<rparr>)"

text \<open>
  One process after the other. \<open>$finish\<close> stops the process and the region goes on; a suspension outside
  a generator is scheduled when it has a delay.
\<close>

fun run_procs :: "process list \<Rightarrow> region \<Rightarrow> sched \<Rightarrow> (sched \<times> region) res" where
  "run_procs [] r s = Inr (s, r)"
| "run_procs (p # ps) r s =
     (let (s, c) = execute_process p (s\<lparr>sd_exec := (sd_exec s)\<lparr>es_originals := Some []\<rparr>\<rparr>);
          written = opt_or (es_originals (sd_exec s)) [];
          go = (\<lambda>s. run_procs ps (note_writes p s written r) s)
      in case c of
           Completed \<Rightarrow> go s
         | Finished \<Rightarrow> go (s\<lparr>sd_finish := True\<rparr>)
         | Suspended delay _ \<Rightarrow>
             go (case delay of Some n \<Rightarrow> if 0 < n then schedule_process (sd_time s + n) p s else s | None \<Rightarrow> s)
         | Disabled _ \<Rightarrow> Inl DisableBlock
         | Failed e \<Rightarrow> Inl e)"

text \<open>The names whose final value differs from the first.\<close>

definition region_dirty :: "eval_ctx \<Rightarrow> (string \<times> val4 option) list \<Rightarrow> string set" where
  "region_dirty ctx originals =
     set (map fst (filter (\<lambda>(n, orig). case (orig, signals ctx n) of
        (Some u, Some v) \<Rightarrow> differs u v | _ \<Rightarrow> True) originals))"

definition collect_display :: "sched \<Rightarrow> sched" where
  "collect_display s =
     s\<lparr>sd_display := sd_display s @ es_output (sd_exec s), sd_exec := (sd_exec s)\<lparr>es_output := []\<rparr>\<rparr>"

definition settle_dirty :: "design \<Rightarrow> string set \<Rightarrow> sched \<Rightarrow> (sched \<times> string set) res" where
  "settle_dirty d dirty s =
     rmap (\<lambda>(es, dirty'). (s\<lparr>sd_exec := es\<rparr>, dirty'))
       (settle_assigns (d_delta_limit d) (d_continuous d) dirty (sd_exec s))"

definition run_active_region :: "design \<Rightarrow> process list \<Rightarrow> sched \<Rightarrow> (sched \<times> string set) res" where
  "run_active_region d procs s =
     rbind (run_procs procs \<lparr>rg_originals = [], rg_own = (\<lambda>n. None)\<rparr> s) (\<lambda>(s, r).
       (let s = s\<lparr>sd_exec := (sd_exec s)\<lparr>es_originals := None\<rparr>, sd_own := rg_own r\<rparr>;
            dirty = region_dirty (sd_ctx s) (rg_originals r)
        in rmap (\<lambda>(s, dirty). (collect_display s, dirty))
             (if dirty \<noteq> {} then settle_dirty d dirty s else Inr (s, dirty))))"

section \<open>Edges\<close>

text \<open>The lowest bits of two values; \<open>0 \<rightarrow> x\<close> counts as a rising and \<open>1 \<rightarrow> x\<close> as a falling edge.\<close>

definition edge_of :: "val4 \<Rightarrow> val4 \<Rightarrow> edge_kind option" where
  "edge_of old new =
     (let old_bit = v_val old AND 1; old_x = v_mask old AND 1; new_bit = v_val new AND 1
      in if v_mask new AND 1 \<noteq> 0 then
           (if old_x \<noteq> 0 then None else Some (if old_bit \<noteq> 0 then Negedge else Posedge))
         else if new_bit \<noteq> 0 \<and> (old_x \<noteq> 0 \<or> old_bit = 0) then Some Posedge
         else if new_bit = 0 \<and> (old_x \<noteq> 0 \<or> old_bit \<noteq> 0) then Some Negedge
         else None)"

definition edge_direction :: "sched \<Rightarrow> string \<Rightarrow> edge_kind option res" where
  "edge_direction s name = (case sd_prev s name of
     None \<Rightarrow> Inr None
   | Some old \<Rightarrow> rmap (edge_of old) (read_signal (sd_ctx s) name))"

text \<open>The test of a waiting process: its own spelling of the same edges, and any change for a level.\<close>

definition edge_matches :: "edge_kind \<Rightarrow> val4 \<Rightarrow> val4 \<Rightarrow> bool" where
  "edge_matches k old new =
     (let old_bit = v_val old AND 1; old_x = v_mask old AND 1 \<noteq> 0;
          new_bit = v_val new AND 1; new_x = v_mask new AND 1 \<noteq> 0
      in case k of
           Posedge \<Rightarrow> \<not> new_x \<and> new_bit = 1 \<and> (old_x \<or> old_bit = 0) \<or> new_x \<and> \<not> old_x \<and> old_bit = 0
         | Negedge \<Rightarrow> \<not> new_x \<and> new_bit = 0 \<and> (old_x \<or> old_bit = 1) \<or> new_x \<and> \<not> old_x \<and> old_bit = 1
         | Level \<Rightarrow> differs old new)"

fun event_edge_fired :: "sched \<Rightarrow> edge_dict \<Rightarrow> bool res" where
  "event_edge_fired s [] = Inr False"
| "event_edge_fired s ((name, k) # rest) = (case sd_prev s name of
     None \<Rightarrow> event_edge_fired s rest
   | Some old \<Rightarrow> rbind (read_signal (sd_ctx s) name) (\<lambda>new.
       if edge_matches k old new then Inr True else event_edge_fired s rest))"

fun wake_waiting :: "(process \<times> edge_dict) list \<Rightarrow> sched \<Rightarrow> ((process \<times> edge_dict) list \<times> sched) res" where
  "wake_waiting [] s = Inr ([], s)"
| "wake_waiting ((p, edges) # rest) s =
     rbind (event_edge_fired s edges) (\<lambda>fired.
       if fired then wake_waiting rest (schedule_process (sd_time s) p s)
       else rmap (apfst (Cons (p, edges))) (wake_waiting rest s))"

definition check_event_waiting :: "sched \<Rightarrow> sched res" where
  "check_event_waiting s = rmap (\<lambda>(still, s). s\<lparr>sd_waiting := still\<rparr>) (wake_waiting (sd_waiting s) s)"

section \<open>Triggered processes\<close>

text \<open>
  The combinational blocks to look at: all of them when many readers are affected, otherwise those
  registered under a changed name, in the order of their numbers.
\<close>

definition combo_candidates :: "design \<Rightarrow> string set \<Rightarrow> always_process list" where
  "combo_candidates d dirty =
     (if length (d_combo d) \<le> 4 * (\<Sum>name \<in> dirty. length (sig_to_procs d name)) then d_combo d
      else sort_key ap_id (filter (\<lambda>p. \<exists>name \<in> dirty. AlwaysProcess p \<in> set (sig_to_procs d name)) (d_combo d)))"

definition woken_combos :: "design \<Rightarrow> string set \<Rightarrow> (string \<Rightarrow> nat option) \<Rightarrow> always_process list" where
  "woken_combos d dirty own =
     filter (\<lambda>p. \<exists>name \<in> ap_sens p \<inter> dirty. own name \<noteq> Some (ap_id p)) (combo_candidates d dirty)"

text \<open>The sequential blocks of the edges that fired: one bucket, or the union in the order of the numbers.\<close>

definition edge_procs :: "design \<Rightarrow> (string \<times> edge_kind) set \<Rightarrow> always_process list" where
  "edge_procs d fired =
     (if card fired = 1 then edge_to_seq d (the_elem fired)
      else sort_key ap_id (filter (\<lambda>p. \<exists>e \<in> fired. p \<in> set (edge_to_seq d e)) (d_seq d)))"

fun fire_once :: "(nat \<Rightarrow> process_state) \<Rightarrow> always_process list \<Rightarrow> nat set \<Rightarrow> always_process list \<times> nat set" where
  "fire_once st [] done = ([], done)"
| "fire_once st (p # ps) done =
     (if st (ap_id p) \<noteq> DONE \<and> ap_id p \<notin> done then apfst (Cons p) (fire_once st ps (insert (ap_id p) done))
      else fire_once st ps done)"

definition fired_edges :: "sched \<Rightarrow> string set \<Rightarrow> (string \<times> edge_kind) set res" where
  "fired_edges s names =
     (if \<exists>name \<in> names. isl (edge_direction s name) then Inl ValueError
      else Inr (\<Union>((\<lambda>name. case edge_direction s name of Inr (Some k) \<Rightarrow> {(name, k)} | _ \<Rightarrow> {}) ` names)))"

definition collect_triggered ::
    "design \<Rightarrow> string set \<Rightarrow> string set \<Rightarrow> sched \<Rightarrow> (process list \<times> sched) res" where
  "collect_triggered d dirty others s =
     (let own = (\<lambda>name. if name \<in> others then None else sd_own s name);
          combos = map AlwaysProcess (woken_combos d dirty own);
          s = s\<lparr>sd_own := (\<lambda>name. None), sd_edge_changed := sd_edge_changed s \<union> (dirty \<inter> seq_edge_names d)\<rparr>
      in rbind (fired_edges s (sd_edge_changed s)) (\<lambda>fired.
           if fired = {} then Inr (combos, s)
           else (let (seq, done) = fire_once (sd_state s) (edge_procs d fired) (sd_triggered_seq s)
                 in Inr (combos @ map AlwaysProcess seq, s\<lparr>sd_triggered_seq := done\<rparr>))))"

section \<open>A time step\<close>

text \<open>
  A delta cycle: commit the non-blocking updates, settle, run what was triggered. The result holds the
  names that the blocks have changed; \<open>settle()\<close> also settles those (\<open>extra\<close>). The cycles end when
  nothing has changed; \<open>n\<close> of them may still run.
\<close>

definition delta_cycle :: "bool \<Rightarrow> design \<Rightarrow> string set \<Rightarrow> sched \<Rightarrow> (sched \<times> string set) res" where
  "delta_cycle extra d active s =
     rbind (apply_nba (sd_exec s)) (\<lambda>(es, nba_dirty).
     rbind (if nba_dirty \<noteq> {} then settle_dirty d nba_dirty (s\<lparr>sd_exec := es\<rparr>)
            else Inr (s\<lparr>sd_exec := es\<rparr>, {})) (\<lambda>(s, nba_dirty).
     rbind (collect_triggered d (active \<union> nba_dirty) nba_dirty s) (\<lambda>(triggered, s).
       if triggered = [] \<and> nba_dirty = {} then Inr (s, {})
       else rbind (run_active_region d triggered s) (\<lambda>(s, active).
              if extra then settle_dirty d active s else Inr (s, active)))))"

fun delta_cycles :: "nat \<Rightarrow> bool \<Rightarrow> design \<Rightarrow> string set \<Rightarrow> sched \<Rightarrow> sched res" where
  "delta_cycles n extra d active s =
     (if active = {} \<and> es_nba (sd_exec s) = [] then Inr s
      else (case n of
          0 \<Rightarrow> Inl RuntimeError
        | Suc n \<Rightarrow> rbind (delta_cycle extra d active s) (\<lambda>(s, active). delta_cycles n extra d active s)))"

declare delta_cycles.simps [simp del]

definition snapshot :: "sched \<Rightarrow> string \<Rightarrow> val4 option" where
  "snapshot s = signals (sd_ctx s)"

definition start_step :: "int \<Rightarrow> sched \<Rightarrow> sched" where
  "start_step t s =
     (let s = s\<lparr>sd_time := t, sd_exec := (sd_exec s)\<lparr>es_time := t, es_ctx := (sd_ctx s)\<lparr>ctx_time := t\<rparr>\<rparr>\<rparr>
      in s\<lparr>sd_prev := snapshot s, sd_edge_changed := {}, sd_triggered_seq := {}\<rparr>)"

definition finish_step :: "sched \<Rightarrow> sched \<times> bool" where
  "finish_step s =
     (let s = (if sd_pending s \<noteq> {} then s\<lparr>sd_settle_snapshot := Some (snapshot s)\<rparr> else s)
      in if sd_finish s then (s\<lparr>sd_queue := clear_queue (sd_queue s)\<rparr>, False) else (s, True))"

definition run_single_step :: "design \<Rightarrow> int \<Rightarrow> sched \<Rightarrow> (sched \<times> bool) res" where
  "run_single_step d t s =
     (let s = start_step t s; (procs, q) = pop_at (sd_time s) (sd_queue s)
      in rbind (run_active_region d procs (s\<lparr>sd_queue := q\<rparr>)) (\<lambda>(s, active).
         rbind (delta_cycles (d_delta_limit d) False d active s) (\<lambda>s.
         rbind (if sd_waiting s \<noteq> [] then check_event_waiting s else Inr s) (\<lambda>s.
           Inr (finish_step s)))))"

end
