(* ===== verification/Scheduler_Run.thy ===== *)
theory Scheduler_Run
  imports Scheduler
begin

text \<open>
  The operations of \<open>class Scheduler\<close> that a testbench calls: \<open>run\<close>, \<open>run_step\<close>, \<open>drive_signal\<close> and
  \<open>settle\<close>, with the start of the combinational blocks and the search for signals driven from outside.

  The event loop of \<open>run\<close> need not end, as a block may schedule itself at the same time for ever: it
  carries fuel, and \<open>None\<close> means that the fuel was used up. The snapshots \<open>_settle_snapshot\<close> and
  \<open>_last_run_signals\<close>, which the code tests for being empty, are \<open>None\<close> when they have not been taken; the
  design is supposed to have a signal, and its signals are those named in \<open>d_names\<close>.
\<close>

section \<open>Start\<close>

definition start_procs :: "design \<Rightarrow> always_process list" where
  "start_procs d =
     filter (\<lambda>p. ab_keyword (ap_block p) = ''always_comb'' \<or> ab_keyword (ap_block p) = ''always_latch'') (d_combo d)"

fun starts_later :: "design \<Rightarrow> process \<Rightarrow> bool" where
  "starts_later d (AlwaysProcess a) = (a \<in> set (d_combo d) \<and> a \<notin> set (start_procs d))"
| "starts_later d _ = False"

definition bootstrap_combos :: "design \<Rightarrow> string set \<Rightarrow> sched \<Rightarrow> sched res" where
  "bootstrap_combos d drives s =
     (let start = start_procs d
      in rbind (if start \<noteq> [] then run_active_region d (map AlwaysProcess start) s else Inr (s, {})) (\<lambda>(s, active).
         rbind (if drives = {} then Inr (s, active)
                else rbind (collect_triggered d drives drives (s\<lparr>sd_prev := snapshot s\<rparr>)) (\<lambda>(triggered, s).
                  (let woken = filter (starts_later d) triggered
                   in if woken = [] then Inr (s, active)
                      else rmap (\<lambda>(s, more). (s, active \<union> more)) (run_active_region d woken s)))) (\<lambda>(s, active).
           delta_cycles (d_delta_limit d) False d active s)))"

section \<open>Driving signals\<close>

text \<open>A value, or an integer that takes the width of the signal.\<close>

definition drive_value :: "eval_ctx \<Rightarrow> string \<Rightarrow> val4 + int \<Rightarrow> val4 res" where
  "drive_value ctx name v = (case v of
     Inl v \<Rightarrow> Inr v | Inr n \<Rightarrow> rmap (\<lambda>old. known n (v_width old)) (read_signal ctx name))"

definition drive_signal :: "string \<Rightarrow> val4 + int \<Rightarrow> sched \<Rightarrow> sched res" where
  "drive_signal name value s =
     rbind (drive_value (sd_ctx s) name value) (\<lambda>v.
       (let s = (if sd_pending s = {} then s\<lparr>sd_settle_snapshot := Some (snapshot s)\<rparr> else s);
            mem = before_bracket name;
            is_element = CHR ''['' \<in> set name \<and> mem \<noteq> [] \<and> last name = CHR '']'' \<and> memories (sd_ctx s) mem \<noteq> None
        in rmap (\<lambda>es. s\<lparr>sd_exec := es, sd_pending := (if is_element then {name, mem} else {name}) \<union> sd_pending s\<rparr>)
             (write_signal name v (sd_exec s))))"

text \<open>The signals of a snapshot that have changed since.\<close>

definition changed_since :: "design \<Rightarrow> (string \<Rightarrow> val4 option) \<Rightarrow> sched \<Rightarrow> string set" where
  "changed_since d old s =
     set (filter (\<lambda>name. case (old name, signals (sd_ctx s) name) of
        (Some u, Some v) \<Rightarrow> differs u v | _ \<Rightarrow> False) (d_names d))"

definition run_triggered :: "design \<Rightarrow> process list \<Rightarrow> sched \<Rightarrow> sched res" where
  "run_triggered d procs s =
     rbind (run_active_region d procs s) (\<lambda>(s, active). delta_cycles (d_delta_limit d) False d active s)"

definition process_external_drives :: "design \<Rightarrow> sched \<Rightarrow> sched res" where
  "process_external_drives d s = (case sd_last_run s of
     None \<Rightarrow> Inr s
   | Some old \<Rightarrow>
       (let driven = Set.filter (\<lambda>name. memories (sd_ctx s) name \<noteq> None) (sd_pending s);
            dirty = changed_since d old s \<union> driven;
            s = s\<lparr>sd_pending := sd_pending s - driven\<rparr>
        in if dirty = {} then Inr s
           else rbind (settle_dirty d dirty s) (\<lambda>(s, _).
             (let all_dirty = driven \<union> changed_since d old s
              in if all_dirty = {} then Inr s
                 else rbind (collect_triggered d all_dirty all_dirty
                        (s\<lparr>sd_prev := old, sd_edge_changed := {}, sd_triggered_seq := {}\<rparr>)) (\<lambda>(triggered, s).
                   rbind (if triggered \<noteq> [] then run_triggered d triggered s else Inr s) (\<lambda>s.
                     if sd_waiting s \<noteq> [] then check_event_waiting s else Inr s))))))"

section \<open>\<open>settle\<close>\<close>

definition settle_start :: "design \<Rightarrow> sched \<Rightarrow> (sched \<times> string set) res" where
  "settle_start d s =
     rbind (if sd_pending s \<noteq> {} then settle_dirty d (sd_pending s) s else Inr (s, {})) (\<lambda>(s, boot_dirty).
       rmap (\<lambda>s. (s, boot_dirty)) (bootstrap_combos d {} s))"

definition settle_drives :: "design \<Rightarrow> bool \<Rightarrow> bool \<Rightarrow> string set \<Rightarrow> sched \<Rightarrow> sched res" where
  "settle_drives d starting booted boot_dirty s =
     (let drive_dirty = sd_pending s \<union> boot_dirty;
          s = s\<lparr>sd_pending := {}\<rparr>;
          s = (case sd_settle_snapshot s of
                 None \<Rightarrow> s
               | Some old \<Rightarrow> s\<lparr>sd_prev := (if starting then snapshot s else old), sd_settle_snapshot := None\<rparr>);
          s = s\<lparr>sd_edge_changed := {}, sd_triggered_seq := {}\<rparr>
      in rbind (settle_dirty d drive_dirty s) (\<lambda>(s, drive_dirty).
         rbind (collect_triggered d drive_dirty drive_dirty s) (\<lambda>(triggered, s).
         (let triggered = (if booted then filter (\<lambda>p. p \<notin> AlwaysProcess ` set (start_procs d)) triggered else triggered)
          in rmap (\<lambda>s. s\<lparr>sd_last_run := Some (snapshot s)\<rparr>)
               (if triggered = [] then Inr s
                else rbind (run_active_region d triggered s) (\<lambda>(s, active).
                     rbind (settle_dirty d active s) (\<lambda>(s, active).
                       delta_cycles (d_delta_limit d) True d active s)))))))"

definition settle :: "design \<Rightarrow> sched \<Rightarrow> sched res" where
  "settle d s =
     (let starting = \<not> sd_bootstrapped s; booted = starting \<and> d_combo d \<noteq> []
      in rbind (if booted then settle_start d (s\<lparr>sd_bootstrapped := True\<rparr>)
                else Inr (s\<lparr>sd_bootstrapped := True\<rparr>, {})) (\<lambda>(s, boot_dirty).
         if sd_pending s = {} then Inr s else settle_drives d starting booted boot_dirty s))"

section \<open>\<open>run\<close>\<close>

definition schedule_idle :: "nat \<Rightarrow> process \<Rightarrow> sched \<Rightarrow> sched" where
  "schedule_idle i p s = (if sd_state s i = IDLE then schedule_process 0 p s else s)"

definition schedule_start :: "design \<Rightarrow> sched \<Rightarrow> sched" where
  "schedule_start d s =
     fold (\<lambda>a. schedule_idle (ap_id a) (AlwaysProcess a)) (d_timing d)
       (fold (\<lambda>q. schedule_idle (ip_id q) (InitialProcess q)) (d_initial d) s)"

fun run_time_step :: "nat \<Rightarrow> design \<Rightarrow> int \<Rightarrow> sched \<Rightarrow> sched res option" where
  "run_time_step fuel d max_time s = (case peek_time (sd_queue s) of
     None \<Rightarrow> Some (Inr s)
   | Some t \<Rightarrow>
       (if max_time < t then Some (Inr s)
        else (case fuel of
            0 \<Rightarrow> None
          | Suc fuel \<Rightarrow> (case run_single_step d t s of
              Inl e \<Rightarrow> Some (Inl e)
            | Inr (s, True) \<Rightarrow> run_time_step fuel d max_time s
            | Inr (s, False) \<Rightarrow> Some (Inr s)))))"

declare run_time_step.simps [simp del]

text \<open>What was written without a line end is printed when the loop ends.\<close>

definition flush_output :: "sched \<Rightarrow> sched" where
  "flush_output s =
     (let es = sd_exec s;
          es = (if es_write_buffer es \<noteq> [] then es\<lparr>es_output := es_output es @ [es_write_buffer es], es_write_buffer := []\<rparr> else es)
      in collect_display (s\<lparr>sd_exec := es\<rparr>))"

definition bootstrap_run :: "design \<Rightarrow> sched \<Rightarrow> sched res" where
  "bootstrap_run d s =
     (let first_time = \<not> sd_bootstrapped s; drives = (if first_time then sd_pending s else {});
          s = (if first_time then s\<lparr>sd_pending := {}\<rparr> else s)
      in rbind (if drives \<noteq> {} then settle_dirty d drives s else Inr (s, {})) (\<lambda>(s, drives).
         rbind (bootstrap_assigns (d_delta_limit d) (d_continuous d) (sd_exec s)) (\<lambda>es.
           (let s = s\<lparr>sd_exec := es\<rparr>
            in if first_time then bootstrap_combos d drives (s\<lparr>sd_bootstrapped := True\<rparr>) else Inr s))))"

definition run_sched :: "nat \<Rightarrow> design \<Rightarrow> int \<Rightarrow> sched \<Rightarrow> sched res option" where
  "run_sched fuel d max_time s =
     (case rbind (process_external_drives d (schedule_start d s)) (bootstrap_run d) of
        Inl e \<Rightarrow> Some (Inl e)
      | Inr s \<Rightarrow> map_option (rmap (\<lambda>s. (flush_output s)\<lparr>sd_last_run := Some (snapshot s)\<rparr>))
                   (run_time_step fuel d max_time s))"

definition run_step :: "design \<Rightarrow> sched \<Rightarrow> (sched \<times> bool) res" where
  "run_step d s = (case peek_time (sd_queue s) of
     None \<Rightarrow> Inr (s, False)
   | Some t \<Rightarrow> rmap (\<lambda>(s, go). (s\<lparr>sd_last_run := Some (snapshot s)\<rparr>, go)) (run_single_step d t s))"

section \<open>The state after elaboration\<close>

definition initial_sched :: "exec_state \<Rightarrow> sched" where
  "initial_sched es =
     \<lparr>sd_exec = es, sd_time = 0, sd_queue = empty_queue, sd_state = (\<lambda>i. IDLE), sd_generator = (\<lambda>i. None),
      sd_prev = (\<lambda>n. None), sd_edge_changed = {}, sd_triggered_seq = {}, sd_waiting = [], sd_own = (\<lambda>n. None),
      sd_finish = False, sd_display = [], sd_bootstrapped = False, sd_pending = {}, sd_settle_snapshot = None,
      sd_last_run = None\<rparr>"

definition elaborate_sched :: "design \<Rightarrow> exec_state \<Rightarrow> sched res" where
  "elaborate_sched d es = rmap initial_sched (bootstrap_assigns (d_delta_limit d) (d_continuous d) es)"

end
