(* ===== verification/Scheduler_Time.thy ===== *)
theory Scheduler_Time
  imports Scheduler_Run
begin

text \<open>
  Time and the event queue: the operations of a time step only append events that are not before the
  current time, so no event is lost or reordered and the time never goes back.
\<close>

section \<open>Relations kept by the operations\<close>

lemma schedule_process_sel [simp]: "sd_time (schedule_process t p s) = sd_time s"
  "sd_waiting (schedule_process t p s) = sd_waiting s" "sd_prev (schedule_process t p s) = sd_prev s"
  "sd_exec (schedule_process t p s) = sd_exec s"
  by (simp_all add: schedule_process_def)

lemma set_state_sel [simp]: "sd_time (set_state i st s) = sd_time s" "sd_queue (set_state i st s) = sd_queue s"
  "sd_exec (set_state i st s) = sd_exec s" "sd_waiting (set_state i st s) = sd_waiting s"
  "sd_prev (set_state i st s) = sd_prev s"
  by (simp_all add: set_state_def)

lemma set_generator_sel [simp]: "sd_time (set_generator i g s) = sd_time s" "sd_queue (set_generator i g s) = sd_queue s"
  "sd_exec (set_generator i g s) = sd_exec s" "sd_waiting (set_generator i g s) = sd_waiting s"
  "sd_prev (set_generator i g s) = sd_prev s"
  by (simp_all add: set_generator_def)

lemma delta_cycleE:
  assumes "delta_cycle extra d active s = Inr (s', a')"
  obtains es D1 s1 D2 ps s2 where "apply_nba (sd_exec s) = Inr (es, D1)"
    "(if D1 \<noteq> {} then settle_dirty d D1 (s\<lparr>sd_exec := es\<rparr>) else Inr (s\<lparr>sd_exec := es\<rparr>, {})) = Inr (s1, D2)"
    "collect_triggered d (active \<union> D2) D2 s1 = Inr (ps, s2)"
    "ps = [] \<and> D2 = {} \<and> s' = s2 \<and> a' = {} \<or>
      (\<exists>s3 D3. run_active_region d ps s2 = Inr (s3, D3) \<and>
        (if extra then settle_dirty d D3 s3 else Inr (s3, D3)) = Inr (s', a'))"
proof -
  obtain es D1 where 1: "apply_nba (sd_exec s) = Inr (es, D1)"
    using assms by (cases "apply_nba (sd_exec s)") (auto simp: delta_cycle_def)
  let ?settled = "if D1 \<noteq> {} then settle_dirty d D1 (s\<lparr>sd_exec := es\<rparr>) else Inr (s\<lparr>sd_exec := es\<rparr>, {})"
  obtain s1 D2 where 2: "?settled = Inr (s1, D2)"
    using assms 1 by (cases "?settled") (auto simp: delta_cycle_def)
  obtain ps s2 where 3: "collect_triggered d (active \<union> D2) D2 s1 = Inr (ps, s2)"
    using assms 1 2 by (cases "collect_triggered d (active \<union> D2) D2 s1") (auto simp: delta_cycle_def)
  have rest: "(if ps = [] \<and> D2 = {} then Inr (s2, {})
      else rbind (run_active_region d ps s2) (\<lambda>(s, active).
             if extra then settle_dirty d active s else Inr (s, active))) = Inr (s', a')"
    using assms unfolding delta_cycle_def 1 2 3 rbind_simps prod.case .
  show ?thesis
  proof (rule that [OF 1 2 3])
    show "ps = [] \<and> D2 = {} \<and> s' = s2 \<and> a' = {} \<or>
      (\<exists>s3 D3. run_active_region d ps s2 = Inr (s3, D3) \<and>
        (if extra then settle_dirty d D3 s3 else Inr (s3, D3)) = Inr (s', a'))"
    proof (cases "ps = [] \<and> D2 = {}")
      case False
      note rest' = rest [unfolded if_not_P [OF False]]
      show ?thesis
      proof (cases "run_active_region d ps s2")
        case (Inr r)
        then obtain s3 D3 where r: "run_active_region d ps s2 = Inr (s3, D3)" by (cases r) simp
        show ?thesis using rest' unfolding r rbind_simps prod.case by blast
      qed (use rest' in simp)
    qed (use rest in simp)
  qed
qed

text \<open>
  What holds between the states before and after an operation, if it holds for scheduling an event that
  is not before the current time, for a new waiting process, and when time, queue, waiting processes
  and snapshot stay.
\<close>

locale scheduler_relation =
  fixes rel :: "sched \<Rightarrow> sched \<Rightarrow> bool"
  assumes rel_trans [trans]: "rel a b \<Longrightarrow> rel b c \<Longrightarrow> rel a c"
    and rel_same: "sd_time s' = sd_time s \<Longrightarrow> sd_queue s' = sd_queue s \<Longrightarrow> sd_waiting s' = sd_waiting s \<Longrightarrow>
      sd_prev s' = sd_prev s \<Longrightarrow> rel s s'"
    and rel_schedule: "sd_time s \<le> t \<Longrightarrow> rel s (schedule_process t p s)"
    and rel_wait: "rel s (s\<lparr>sd_waiting := sd_waiting s @ [w]\<rparr>)"
begin

lemma rel_refl [simp]: "rel s s"
  by (simp add: rel_same)

lemma rel_suspend: "rel s (schedule_suspend p delay evs s)"
  by (auto simp: schedule_suspend_def Let_def rel_schedule rel_wait split: option.split)

lemma rel_resume: "rel s (fst (resume i body p s))"
proof -
  have "rel s (set_generator i g (set_state i ACTIVE s\<lparr>sd_exec := es\<rparr>))" for g es
    by (rule rel_same) simp_all
  then have "rel s (schedule_suspend p delay evs (set_generator i g (set_state i ACTIVE s\<lparr>sd_exec := es\<rparr>)))"
    for delay evs g es using rel_trans rel_suspend by blast
  with \<open>\<And>g es. rel s (set_generator i g (set_state i ACTIVE s\<lparr>sd_exec := es\<rparr>))\<close> show ?thesis
    unfolding resume_def Let_def by (auto split: coroutine.split)
qed

lemma rel_execute: "rel s (fst (execute_process p s))"
proof (cases p)
  case (AlwaysProcess a)
  show ?thesis
  proof (cases "ap_timing a")
    case True
    obtain s1 r where r: "resume (ap_id a) (ab_body (ap_block a)) p s = (s1, r)"
      by (cases "resume (ap_id a) (ab_body (ap_block a)) p s")
    then have 1: "rel s s1" using rel_resume [of s "ap_id a" "ab_body (ap_block a)" p] by simp
    have "rel s1 (schedule_process (sd_time s1) p (set_generator (ap_id a) None s1))"
      using rel_trans [OF rel_same rel_schedule] by simp
    then show ?thesis using 1 AlwaysProcess True r
      by (auto simp: execute_process_def intro: rel_trans split: option.split completion.split)
  next
    case False
    then show ?thesis using AlwaysProcess
      by (auto simp: execute_process_def intro!: rel_same split: prod.split completion.split)
  qed
next
  case (InitialProcess q)
  obtain s1 r where r: "resume (ip_id q) (ip_body q) p s = (s1, r)"
    by (cases "resume (ip_id q) (ip_body q) p s")
  then have 1: "rel s s1" using rel_resume [of s "ip_id q" "ip_body q" p] by simp
  have "rel s1 (set_state (ip_id q) DONE s1)" by (rule rel_same) simp_all
  then show ?thesis using 1 InitialProcess r
    by (auto simp: execute_process_def intro: rel_trans split: option.split completion.split)
qed (auto simp: execute_process_def intro!: rel_same split: sum.split)

lemma rel_run_procs:
  "run_procs ps r s = Inr (s', r') \<Longrightarrow> rel s s'"
proof (induction ps arbitrary: s r)
  case (Cons p ps)
  let ?s = "s\<lparr>sd_exec := (sd_exec s)\<lparr>es_originals := Some []\<rparr>\<rparr>"
  obtain s1 c where 1: "execute_process p ?s = (s1, c)" by (cases "execute_process p ?s")
  have "rel s ?s" by (rule rel_same) simp_all
  also have "rel ?s s1" using rel_execute [of ?s p] 1 by simp
  finally have 2: "rel s s1" .
  obtain s2 r2 where 3: "run_procs ps r2 s2 = Inr (s', r')" "rel s1 s2"
  proof (cases c)
    case (Suspended delay evs)
    let ?s2 = "case delay of Some n \<Rightarrow> if 0 < n then schedule_process (sd_time s1 + n) p s1 else s1 | None \<Rightarrow> s1"
    have "rel s1 ?s2" by (auto intro: rel_schedule split: option.split)
    then show ?thesis using that Cons.prems 1 Suspended by (simp add: Let_def)
  next
    case Finished
    have "rel s1 (s1\<lparr>sd_finish := True\<rparr>)" by (rule rel_same) simp_all
    then show ?thesis using that Cons.prems 1 Finished by (simp add: Let_def)
  qed (use that Cons.prems 1 in \<open>auto simp: Let_def\<close>)
  show ?case using rel_trans [OF 2 rel_trans [OF 3(2) Cons.IH [OF 3(1)]]] .
qed simp

lemma rel_settle: "settle_dirty d D s = Inr (s', D') \<Longrightarrow> rel s s'"
  by (auto simp: settle_dirty_def rmap_eq_Inr_iff intro!: rel_same)

lemma rel_collect: "rel s (collect_display s)"
  by (rule rel_same) (simp_all add: collect_display_def)

lemma rel_region:
  assumes "run_active_region d ps s = Inr (s', D)"
  shows "rel s s'"
proof -
  obtain s1 r where 1: "run_procs ps \<lparr>rg_originals = [], rg_own = \<lambda>n. None\<rparr> s = Inr (s1, r)"
    using assms by (auto simp: run_active_region_def rbind_eq_Inr_iff)
  let ?s = "s1\<lparr>sd_exec := (sd_exec s1)\<lparr>es_originals := None\<rparr>, sd_own := rg_own r\<rparr>"
  obtain s2 D2 where 2: "(if region_dirty (sd_ctx ?s) (rg_originals r) \<noteq> {}
      then settle_dirty d (region_dirty (sd_ctx ?s) (rg_originals r)) ?s
      else Inr (?s, region_dirty (sd_ctx ?s) (rg_originals r))) = Inr (s2, D2)" "s' = collect_display s2"
    using assms 1 by (auto simp: run_active_region_def Let_def rmap_eq_Inr_iff)
  have "rel s s1" by (rule rel_run_procs [OF 1])
  also have "rel s1 ?s" by (rule rel_same) simp_all
  also have "rel ?s s2" using 2(1) rel_settle by (auto split: if_splits)
  also have "rel s2 s'" using rel_collect 2(2) by simp
  finally show ?thesis .
qed

lemma rel_triggered:
  assumes "collect_triggered d D others s = Inr (ps, s')"
  shows "rel s s'"
  using assms by (intro rel_same)
    (auto simp: collect_triggered_def Let_def rbind_eq_Inr_iff split: if_splits prod.splits)

lemma rel_cycle:
  assumes "delta_cycle extra d active s = Inr (s', a')"
  shows "rel s s'"
  using assms
proof (rule delta_cycleE)
  fix es D1 s1 D2 ps s2
  assume 1: "(if D1 \<noteq> {} then settle_dirty d D1 (s\<lparr>sd_exec := es\<rparr>) else Inr (s\<lparr>sd_exec := es\<rparr>, {})) = Inr (s1, D2)"
    "collect_triggered d (active \<union> D2) D2 s1 = Inr (ps, s2)"
    and 2: "ps = [] \<and> D2 = {} \<and> s' = s2 \<and> a' = {} \<or>
      (\<exists>s3 D3. run_active_region d ps s2 = Inr (s3, D3) \<and>
        (if extra then settle_dirty d D3 s3 else Inr (s3, D3)) = Inr (s', a'))"
  have "rel s (s\<lparr>sd_exec := es\<rparr>)" by (rule rel_same) simp_all
  also have "rel (s\<lparr>sd_exec := es\<rparr>) s1" using 1(1) rel_settle by (auto split: if_splits)
  also have "rel s1 s2" by (rule rel_triggered [OF 1(2)])
  also have "rel s2 s'"
    using 2
  proof
    assume "\<exists>s3 D3. run_active_region d ps s2 = Inr (s3, D3) \<and>
        (if extra then settle_dirty d D3 s3 else Inr (s3, D3)) = Inr (s', a')"
    then obtain s3 D3 where 3: "run_active_region d ps s2 = Inr (s3, D3)"
      "(if extra then settle_dirty d D3 s3 else Inr (s3, D3)) = Inr (s', a')" by blast
    have "rel s3 s'" using 3(2) rel_settle by (auto split: if_splits)
    then show ?thesis using rel_trans [OF rel_region [OF 3(1)]] by blast
  qed simp
  finally show ?thesis .
qed

lemma rel_delta:
  "delta_cycles n extra d active s = Inr s' \<Longrightarrow> rel s s'"
proof (induction n arbitrary: active s)
  case 0
  then show ?case by (simp add: delta_cycles.simps split: if_splits)
next
  case (Suc n)
  show ?case
  proof (cases "active = {} \<and> es_nba (sd_exec s) = []")
    case True
    then show ?thesis using Suc.prems by (simp add: delta_cycles.simps)
  next
    case False
    then obtain s1 a1 where "delta_cycle extra d active s = Inr (s1, a1)" "delta_cycles n extra d a1 s1 = Inr s'"
      using Suc.prems by (auto simp: delta_cycles.simps [of "Suc n"] rbind_eq_Inr_iff split: if_splits)
    then show ?thesis using rel_cycle Suc.IH rel_trans by blast
  qed
qed

end

section \<open>Appending events\<close>

definition appends :: "sched \<Rightarrow> sched \<Rightarrow> bool" where
  "appends s s' \<longleftrightarrow> sd_time s' = sd_time s \<and>
     (queue_ok (sd_queue s) \<longrightarrow> queue_ok (sd_queue s') \<and>
        (\<exists>new. queue_events (sd_queue s') = queue_events (sd_queue s) @ new \<and> (\<forall>(u, p) \<in> set new. sd_time s \<le> u)))"

lemma appends_refl [simp, intro]: "appends s s"
  by (simp add: appends_def)

lemma appends_trans [trans]:
  assumes "appends a b" "appends b c"
  shows "appends a c"
proof -
  have "sd_time c = sd_time a" using assms by (simp add: appends_def)
  moreover have "queue_ok (sd_queue c) \<and> (\<exists>new. queue_events (sd_queue c) = queue_events (sd_queue a) @ new
      \<and> (\<forall>(u, p) \<in> set new. sd_time a \<le> u))" if q: "queue_ok (sd_queue a)"
  proof -
    obtain n1 where n1: "queue_ok (sd_queue b)" "queue_events (sd_queue b) = queue_events (sd_queue a) @ n1"
      "\<forall>(u, p) \<in> set n1. sd_time a \<le> u" "sd_time b = sd_time a" using assms(1) q by (auto simp: appends_def)
    obtain n2 where n2: "queue_ok (sd_queue c)" "queue_events (sd_queue c) = queue_events (sd_queue b) @ n2"
      "\<forall>(u, p) \<in> set n2. sd_time b \<le> u" using assms(2) n1(1) by (auto simp: appends_def)
    show ?thesis using n1 n2 by (intro conjI exI [of _ "n1 @ n2"]) auto
  qed
  ultimately show ?thesis by (simp add: appends_def)
qed

interpretation ap: scheduler_relation appends
proof
  show "appends a c" if "appends a b" "appends b c" for a b c using appends_trans that .
  show "appends s (schedule_process t p s)" if "sd_time s \<le> t" for s t p
    using that by (auto simp: appends_def schedule_process_def schedule_ok)
qed (auto simp: appends_def)

section \<open>Waiting processes\<close>

definition keeps_waiting :: "sched \<Rightarrow> sched \<Rightarrow> bool" where
  "keeps_waiting s s' \<longleftrightarrow> sd_time s' = sd_time s \<and> sd_prev s' = sd_prev s \<and> set (sd_waiting s) \<subseteq> set (sd_waiting s')"

interpretation kw: scheduler_relation keeps_waiting
  by unfold_locales (auto simp: keeps_waiting_def)

lemma appends_wake: "wake_waiting ws s = Inr (ws', s') \<Longrightarrow> appends s s'"
proof (induction ws s arbitrary: ws' s' rule: wake_waiting.induct)
  case (2 p edges rest s)
  obtain f where f: "event_edge_fired s edges = Inr f" using 2(3) by (auto simp: rbind_eq_Inr_iff)
  show ?case
  proof (cases f)
    case True
    then have "appends (schedule_process (sd_time s) p s) s'" using 2(1) [OF f True] 2(3) f by simp
    then show ?thesis using appends_trans [OF ap.rel_schedule] by blast
  next
    case False
    then show ?thesis using 2(2) [OF f False] 2(3) f by (auto simp: rmap_eq_Inr_iff)
  qed
qed simp

lemma appends_check:
  assumes "check_event_waiting s = Inr s'"
  shows "appends s s'"
proof -
  obtain ws s1 where w: "wake_waiting (sd_waiting s) s = Inr (ws, s1)" "s' = s1\<lparr>sd_waiting := ws\<rparr>"
    using assms by (auto simp: check_event_waiting_def rmap_eq_Inr_iff)
  have "appends s1 s'" by (simp add: w(2) appends_def)
  then show ?thesis using appends_trans [OF appends_wake [OF w(1)]] by blast
qed

lemma event_fired_cong:
  "sd_prev s' = sd_prev s \<Longrightarrow> sd_ctx s' = sd_ctx s \<Longrightarrow> event_edge_fired s' edges = event_edge_fired s edges"
proof (induction edges)
  case (Cons e es)
  then show ?case by (cases e) (simp cong: option.case_cong if_cong)
qed simp

lemma wake_waiting_cases:
  assumes "wake_waiting ws s = Inr (still, s')" "queue_ok (sd_queue s)"
  shows "sd_exec s' = sd_exec s \<and> sd_prev s' = sd_prev s \<and> (\<forall>(p, edges) \<in> set ws.
    event_edge_fired s edges = Inr True \<and> (sd_time s, p) \<in> set (queue_events (sd_queue s')) \<or>
    event_edge_fired s edges = Inr False \<and> (p, edges) \<in> set still)"
  using assms
proof (induction ws s arbitrary: still s' rule: wake_waiting.induct)
  case (1 s)
  then show ?case by simp
next
  case (2 p edges rest s)
  obtain f where f: "event_edge_fired s edges = Inr f" using 2(3) by (auto simp: rbind_eq_Inr_iff)
  show ?case
  proof (cases f)
    case True
    let ?s = "schedule_process (sd_time s) p s"
    have w: "wake_waiting rest ?s = Inr (still, s')" using 2(3) f True by simp
    have q: "queue_ok (sd_queue ?s)" "(sd_time s, p) \<in> set (queue_events (sd_queue ?s))"
      using schedule_ok [OF 2(4)] by (simp_all add: schedule_process_def)
    have "set (queue_events (sd_queue ?s)) \<subseteq> set (queue_events (sd_queue s'))"
      using appends_wake [OF w] q(1) by (auto simp: appends_def)
    moreover have "event_edge_fired ?s e = event_edge_fired s e" for e by (rule event_fired_cong) simp_all
    ultimately show ?thesis using 2(1) [OF f True w q(1)] q(2) f True by auto
  next
    case False
    then obtain still' where w: "wake_waiting rest s = Inr (still', s')" "still = (p, edges) # still'"
      using 2(3) f by (auto simp: rmap_eq_Inr_iff)
    then show ?thesis using 2(2) [OF f False w(1) 2(4)] f False by auto
  qed
qed

section \<open>A time step\<close>

lemma clear_queue_ok [simp]: "queue_ok (clear_queue q)" "queue_events (clear_queue q) = []"
  by (simp_all add: clear_queue_def queue_ok_def queue_events_def is_heap_def)

lemma finish_step_sel:
  assumes "finish_step s = (s', go)"
  shows "sd_time s' = sd_time s" "sd_queue s' = (if go then sd_queue s else clear_queue (sd_queue s))"
    "sd_exec s' = sd_exec s"
  using assms by (auto simp: finish_step_def Let_def split: if_splits)

lemma single_stepE:
  assumes "run_single_step d t s = Inr (s', go)"
  obtains ps q s1 a s2 s3 where "pop_at t (sd_queue s) = (ps, q)"
    "run_active_region d ps (start_step t s\<lparr>sd_queue := q\<rparr>) = Inr (s1, a)"
    "delta_cycles (d_delta_limit d) False d a s1 = Inr s2"
    "(if sd_waiting s2 \<noteq> [] then check_event_waiting s2 else Inr s2) = Inr s3" "finish_step s3 = (s', go)"
proof -
  have start: "sd_time (start_step t s) = t" "sd_queue (start_step t s) = sd_queue s"
    by (simp_all add: start_step_def Let_def)
  obtain ps q where 1: "pop_at t (sd_queue s) = (ps, q)" by (cases "pop_at t (sd_queue s)")
  have run: "rbind (run_active_region d ps (start_step t s\<lparr>sd_queue := q\<rparr>)) (\<lambda>(s, active).
         rbind (delta_cycles (d_delta_limit d) False d active s) (\<lambda>s.
         rbind (if sd_waiting s \<noteq> [] then check_event_waiting s else Inr s) (\<lambda>s.
           Inr (finish_step s)))) = Inr (s', go)"
    using assms unfolding run_single_step_def Let_def start 1 prod.case .
  obtain s1 a where 2: "run_active_region d ps (start_step t s\<lparr>sd_queue := q\<rparr>) = Inr (s1, a)"
    using run by (cases "run_active_region d ps (start_step t s\<lparr>sd_queue := q\<rparr>)") auto
  obtain s2 where 3: "delta_cycles (d_delta_limit d) False d a s1 = Inr s2"
    using run [unfolded 2 rbind_simps prod.case] by (cases "delta_cycles (d_delta_limit d) False d a s1") auto
  obtain s3 where 4: "(if sd_waiting s2 \<noteq> [] then check_event_waiting s2 else Inr s2) = Inr s3"
    using run [unfolded 2 3 rbind_simps prod.case]
    by (cases "if sd_waiting s2 \<noteq> [] then check_event_waiting s2 else Inr s2") auto
  show ?thesis by (rule that [OF 1 2 3 4]) (use run [unfolded 2 3 4 rbind_simps prod.case] in simp)
qed

lemma step_events:
  assumes "queue_ok (sd_queue s)" "peek_time (sd_queue s) = Some t" "run_single_step d t s = Inr (s', go)"
  shows "sd_time s' = t \<and> queue_ok (sd_queue s') \<and>
    (\<exists>new. queue_events (sd_queue s') =
        (if go then filter (\<lambda>(u, p). u \<noteq> t) (queue_events (sd_queue s)) @ new else []) \<and>
      (\<forall>(u, p) \<in> set new. t \<le> u))"
  using assms(3)
proof (rule single_stepE)
  fix ps q s1 a s2 s3
  assume 1: "pop_at t (sd_queue s) = (ps, q)" "run_active_region d ps (start_step t s\<lparr>sd_queue := q\<rparr>) = Inr (s1, a)"
    "delta_cycles (d_delta_limit d) False d a s1 = Inr s2"
    "(if sd_waiting s2 \<noteq> [] then check_event_waiting s2 else Inr s2) = Inr s3" and 5: "finish_step s3 = (s', go)"
  note q = pop_at_ok(1,3) [OF assms(1,2) 1(1)]
  have "appends (start_step t s\<lparr>sd_queue := q\<rparr>) s1" by (rule ap.rel_region [OF 1(2)])
  also have "appends s1 s2" by (rule ap.rel_delta [OF 1(3)])
  also have "appends s2 s3" using 1(4) appends_check by (auto split: if_splits)
  finally have "sd_time s3 = t \<and> queue_ok (sd_queue s3) \<and>
      (\<exists>new. queue_events (sd_queue s3) = queue_events q @ new \<and> (\<forall>(u, p) \<in> set new. t \<le> u))"
    using q(1) by (simp add: appends_def start_step_def Let_def)
  then show ?thesis using finish_step_sel [OF 5] q(2) by (cases go) (auto intro: exI [of _ "[]"])
qed


section \<open>The event loop\<close>

lemma not_before_step:
  assumes "eq.not_before (sd_time s) (sd_queue s)" "peek_time (sd_queue s) = Some t" "run_single_step d t s = Inr (s', go)"
  shows "sd_time s \<le> sd_time s' \<and> eq.not_before (sd_time s') (sd_queue s')"
proof -
  have q: "queue_ok (sd_queue s)" using assms(1) by (simp add: eq.not_before_def)
  have t: "sd_time s \<le> t" "eq.not_before t (sd_queue s)" using eq.not_before_peek [OF assms(1,2)] by simp_all
  note step = step_events [OF q assms(2,3)]
  then have "\<forall>(u, p) \<in> set (queue_events (sd_queue s')). t \<le> u"
    using t(2) by (cases go) (auto simp: eq.not_before_def)
  then show ?thesis using step t(1) by (simp add: eq.not_before_def)
qed

lemma not_before_loop:
  "eq.not_before (sd_time s) (sd_queue s) \<Longrightarrow> run_time_step fuel d max_time s = Some (Inr s') \<Longrightarrow>
     sd_time s \<le> sd_time s' \<and> eq.not_before (sd_time s') (sd_queue s')"
proof (induction fuel arbitrary: s)
  case 0
  then show ?case by (auto simp: run_time_step.simps split: option.splits if_splits)
next
  case (Suc fuel)
  show ?case
  proof (cases "peek_time (sd_queue s)")
    case None
    then show ?thesis using Suc.prems by (simp add: run_time_step.simps)
  next
    case (Some t)
    show ?thesis
    proof (cases "max_time < t")
      case True
      then show ?thesis using Suc.prems Some by (simp add: run_time_step.simps)
    next
      case False
      then obtain s1 go where 1: "run_single_step d t s = Inr (s1, go)"
        using Suc.prems(2) Some by (cases "run_single_step d t s") (auto simp: run_time_step.simps)
      note step = not_before_step [OF Suc.prems(1) Some 1]
      show ?thesis
      proof (cases go)
        case True
        then have "run_time_step fuel d max_time s1 = Some (Inr s')"
          using Suc.prems(2) Some False 1 by (simp add: run_time_step.simps [of "Suc fuel"])
        then show ?thesis using Suc.IH [of s1] step by simp
      next
        case go: False
        then show ?thesis using Suc.prems(2) Some False 1 step by (simp add: run_time_step.simps)
      qed
    qed
  qed
qed

text \<open>C15: The simulation time never goes back. If no event is pending before the current time, the event loop
  of \<open>run\<close>, however it ends, ends at a time that is not earlier, and again no event is pending before
  that time.\<close>

theorem time_never_goes_back:
  assumes "queue_ok (sd_queue s)" "\<forall>(u, p) \<in> set (queue_events (sd_queue s)). sd_time s \<le> u"
    and "run_time_step fuel d max_time s = Some (Inr s')"
  shows "sd_time s \<le> sd_time s' \<and> queue_ok (sd_queue s') \<and>
    (\<forall>(u, p) \<in> set (queue_events (sd_queue s')). sd_time s' \<le> u)"
  using not_before_loop [OF _ assms(3)] assms(1,2) by (auto simp: eq.not_before_def)

section \<open>No wake-up is lost\<close>

lemma start_step_sel [simp]: "sd_time (start_step t s) = t" "sd_queue (start_step t s) = sd_queue s"
  "sd_waiting (start_step t s) = sd_waiting s" "sd_prev (start_step t s) = signals (sd_ctx s)"
  by (simp_all add: start_step_def Let_def snapshot_def)

lemma finish_step_waiting:
  "finish_step s = (s', go) \<Longrightarrow> sd_waiting s' = sd_waiting s \<and> sd_prev s' = sd_prev s"
  by (auto simp: finish_step_def Let_def split: if_splits)


text \<open>A process that is suspended without a delay and without events, as \<open>wait\<close> with a false condition does, is
  neither scheduled nor waiting: nothing resumes it.\<close>

lemma wait_false_forgotten: "schedule_suspend p None [] s = s"
  by (simp add: schedule_suspend_def)

section \<open>A concrete step\<close>

text \<open>A clock about to rise, an initial block that waits for it, and a register clocked by it.\<close>

definition step_ctx :: eval_ctx where
  "step_ctx = \<lparr>signals = (\<lambda>s. if s = ''clk'' then Some (known 0 1) else if s = ''q'' then Some (known 6 4)
       else if s = ''y'' then Some (known 7 4) else None),
     signal_signed = (\<lambda>s. False), signal_bases = (\<lambda>s. 0), memories = (\<lambda>s. None), memory_bases = (\<lambda>s. 0), ctx_time = 0\<rparr>"

definition step_name :: "string \<Rightarrow> expr" where
  "step_name n = Identifier n [] None"

definition step_design :: design where
  "step_design = make_design 10 step_ctx [''clk'', ''q'', ''y'']
     [(step_name ''y'', BinaryOp Add (step_name ''q'') (Literal (int_literal 1)))]
     [\<lparr>ab_body = NonblockingAssign (step_name ''q'') (step_name ''y''),
       ab_list = [SensitivityEdge Posedge (step_name ''clk'')], ab_type = SEQUENTIAL, ab_keyword = ''always_ff''\<rparr>]
     []"

definition step_process :: process where
  "step_process = InitialProcess \<lparr>ip_id = 9, ip_body = SystemTaskCall ''$finish'' '''' []\<rparr>"

definition step_state :: sched where
  "step_state = (initial_sched \<lparr>es_ctx = step_ctx, es_originals = None, es_nba = [], es_output = [], es_write_buffer = [],
       es_time = 0, es_limit = 10, es_files = (\<lambda>name. None)\<rparr>)
     \<lparr>sd_queue := schedule 8 step_process (schedule 5 (ClockToggle ''clk'' (known 1 1)) empty_queue),
      sd_waiting := [(step_process, [(''clk'', Posedge)])]\<rparr>"

lemma step_state_run:
  obtains s' where "run_single_step step_design 5 step_state = Inr (s', True)"
proof -
  have "case run_single_step step_design 5 step_state of Inr (s', go) \<Rightarrow> go | Inl e \<Rightarrow> False" by code_simp
  then show ?thesis using that by (cases "run_single_step step_design 5 step_state") auto
qed

lemma step_state_queue: "queue_ok (sd_queue step_state)" "peek_time (sd_queue step_state) = Some 5"
proof -
  show "queue_ok (sd_queue step_state)" by (simp add: step_state_def schedule_ok)
  show "peek_time (sd_queue step_state) = Some 5" by code_simp
qed


theorem time_never_goes_back_witness:
  "\<exists>s'. run_time_step 3 step_design 100 step_state = Some (Inr s') \<and> 0 \<le> sd_time s' \<and> queue_ok (sd_queue s') \<and>
    (\<forall>(u, p) \<in> set (queue_events (sd_queue s')). sd_time s' \<le> u)"
proof -
  have "case run_time_step 3 step_design 100 step_state of Some (Inr s') \<Rightarrow> True | _ \<Rightarrow> False" by code_simp
  then obtain s' where s': "run_time_step 3 step_design 100 step_state = Some (Inr s')"
    by (auto split: option.splits sum.splits)
  have "\<forall>(u, p) \<in> set (queue_events (sd_queue step_state)). sd_time step_state \<le> u" by code_simp
  from time_never_goes_back [OF step_state_queue(1) this s'] show ?thesis
    using s' by (intro exI [of _ s']) (simp add: step_state_def initial_sched_def)
qed


end
