(* ===== verification/Scheduler_Settled.thy ===== *)
theory Scheduler_Settled
  imports Statement_Tracking Untimed Continuous_Settle Scheduler_Time
begin

text \<open>
  The continuous assignments across whole time steps: processes change names, the region and the commit
  of non-blocking updates find out which, and the passes over those names bring every assignment up to
  date. After each step every continuous assignment holds.
\<close>

section \<open>Designs and states\<close>

definition driven :: "design \<Rightarrow> string set" where
  "driven d = target_name ` set (d_continuous d)"

text \<open>No process writes the target of a continuous assignment, and all its targets are declared.\<close>

definition writes_ok :: "eval_ctx \<Rightarrow> design \<Rightarrow> process \<Rightarrow> bool" where
  "writes_ok dc d p = (case p of
     AlwaysProcess a \<Rightarrow> process_ok dc (driven d) (ab_body (ap_block a))
   | InitialProcess q \<Rightarrow> process_ok dc (driven d) (ip_body q)
   | ClockToggle n v \<Rightarrow> writable dc (driven d) n \<and>
       (case signals dc n of Some cur \<Rightarrow> v_width v = v_width cur | None \<Rightarrow> False)
   | ContinuousProcess c \<Rightarrow> False)"

text \<open>The dependencies have no cycle, and \<open>delta_limit\<close> bounds their depth.\<close>

definition design_ok :: "eval_ctx \<Rightarrow> (string \<Rightarrow> nat) \<Rightarrow> design \<Rightarrow> bool" where
  "design_ok dc rank d \<longleftrightarrow>
     (\<forall>p \<in> set (d_continuous d). plain_assign dc p \<and> \<not> reads_time (cp_rhs p) \<and> rank (target_name p) < d_delta_limit d) \<and>
     single_driver (d_continuous d) \<and> ranked rank (d_continuous d) \<and>
     (\<forall>a \<in> set (d_always d). writes_ok dc d (AlwaysProcess a)) \<and>
     (\<forall>q \<in> set (d_initial d). writes_ok dc d (InitialProcess q))"

abbreviation generator_ok :: "eval_ctx \<Rightarrow> design \<Rightarrow> (exec_state \<Rightarrow> coroutine) \<Rightarrow> bool" where
  "generator_ok dc d \<equiv> co_keeps (\<lambda>s. same_shape dc (es_ctx s)) (tracked (writable dc (driven d)))"

definition procs_ok :: "eval_ctx \<Rightarrow> design \<Rightarrow> sched \<Rightarrow> bool" where
  "procs_ok dc d s \<longleftrightarrow> queue_ok (sd_queue s) \<and>
     (\<forall>(t, p) \<in> set (queue_events (sd_queue s)). writes_ok dc d p) \<and>
     (\<forall>(p, edges) \<in> set (sd_waiting s). writes_ok dc d p) \<and>
     (\<forall>i g. sd_generator s i = Some g \<longrightarrow> generator_ok dc d g)"

definition settled :: "bool \<Rightarrow> eval_ctx \<Rightarrow> design \<Rightarrow> exec_state \<Rightarrow> bool" where
  "settled h dc d es \<longleftrightarrow> same_shape dc (es_ctx es) \<and> es_originals es = None \<and>
     (\<forall>e \<in> set (es_nba es). entry_ok (writable dc (driven d)) dc e) \<and>
     (h \<longrightarrow> (\<forall>p \<in> set (d_continuous d). assign_holds (es_ctx es) p))"

section \<open>Settling\<close>

lemma reassign_nba:
  assumes "plain_assign (es_ctx s) p" "es_originals s = None"
    and "reassign_dirty (cp_lhs p) (cp_rhs p) s = Inr (s', ch)"
  shows "es_nba s' = es_nba s"
proof -
  obtain cur where "signals (es_ctx s) (target_name p) = Some cur"
    using assms(1) by (rule plain_assignE) auto
  from assms(3) [unfolded reassign_plain [OF assms(1) this]] show ?thesis
    using assms(2) by (auto simp: rmap_eq_Inr_iff write_plain_def note_original_def)
qed

lemma scan_nba:
  assumes "\<forall>p \<in> set ps. plain_assign (es_ctx s) p" "es_originals s = None" "scan_pass ps D s = Inr (s', D', ch)"
  shows "es_nba s' = es_nba s \<and> es_originals s' = None \<and> same_shape (es_ctx s) (es_ctx s')"
  using assms
proof (induction ps arbitrary: D s ch)
  case Nil
  then show ?case by simp
next
  case (Cons p ps)
  show ?case
  proof (cases "cp_sens p \<inter> D = {}")
    case True
    then show ?thesis using Cons.IH [OF _ Cons.prems(2)] Cons.prems by simp
  next
    case False
    obtain s1 c c' where 1: "reassign_dirty (cp_lhs p) (cp_rhs p) s = Inr (s1, c)"
      "scan_pass ps (if c then D \<union> scan_marks (es_ctx s) (cp_lhs p) else D) s1 = Inr (s', D', c')"
      using Cons.prems(3) False by (auto simp: rbind_eq_Inr_iff rmap_eq_Inr_iff)
    have p: "plain_assign (es_ctx s) p" using Cons.prems(1) by simp
    note v = reassign_visit(1,2) [OF p Cons.prems(2) 1(1)] reassign_nba [OF p Cons.prems(2) 1(1)]
    have "\<forall>p \<in> set ps. plain_assign (es_ctx s1) p" using Cons.prems(1) plain_assign_shape [OF v(2)] by simp
    from Cons.IH [OF this v(1) 1(2)] show ?thesis using v same_shape_trans [OF v(2)] by simp
  qed
qed

lemma settle_nba:
  assumes "\<forall>p \<in> set ps. plain_assign (es_ctx s) p" "es_originals s = None" "settle_assigns n ps D s = Inr (s', D')"
  shows "es_nba s' = es_nba s \<and> es_originals s' = None \<and> same_shape (es_ctx s) (es_ctx s')"
  using assms
proof (induction n arbitrary: D s)
  case 0
  then show ?case by simp
next
  case (Suc n)
  have scan: "run_dirty_continuous_assigns ps D s = scan_pass ps D s"
    using run_dirty_scan flat_plain Suc.prems(1) by blast
  obtain s1 D1 ch where 1: "scan_pass ps D s = Inr (s1, D1, ch)"
    "(if ch then settle_assigns n ps D1 s1 else Inr (s1, D1)) = Inr (s', D')"
    using Suc.prems(3) by (auto simp: scan rbind_eq_Inr_iff)
  note v = scan_nba [OF Suc.prems(1,2) 1(1)]
  show ?case
  proof (cases ch)
    case True
    have "\<forall>p \<in> set ps. plain_assign (es_ctx s1) p" using Suc.prems(1) v plain_assign_shape by blast
    moreover have "settle_assigns n ps D1 s1 = Inr (s', D')" using 1(2) True by simp
    ultimately show ?thesis using Suc.IH v same_shape_trans by metis
  next
    case False
    then show ?thesis using 1(2) v by simp
  qed
qed

lemma settle_settled:
  assumes "design_ok dc rank d" "h \<longrightarrow> (\<forall>p \<in> set (d_continuous d). assign_holds ctx0 p)" "same_shape dc ctx0"
    and "agree_on (- D) ctx0 (es_ctx es)" "D \<inter> driven d = {}" "es_originals es = None"
    and "\<forall>e \<in> set (es_nba es). entry_ok (writable dc (driven d)) dc e"
    and "settle_assigns (d_delta_limit d) (d_continuous d) D es = Inr (es', D')"
  shows "settled h dc d es'"
proof -
  have plain: "\<forall>p \<in> set (d_continuous d). plain_assign ctx0 p"
    using assms(1) plain_assign_shape [OF assms(3)] by (auto simp: design_ok_def)
  have single: "single_driver (d_continuous d)" and rk: "ranked rank (d_continuous d)" using assms(1) by (auto simp: design_ok_def)
  have shape: "same_shape ctx0 (es_ctx es)" using assms(4) by (simp add: agree_on_def)
  have inv: "pass_inv (d_continuous d) ctx0 D es"
    by (rule pass_inv_start [OF assms(6,4)]) (use assms(5) in \<open>auto simp: driven_def\<close>)
  have holds: "\<forall>p \<in> set (d_continuous d). assign_holds (es_ctx es') p" if h
  proof -
    have "\<forall>p \<in> set (d_continuous d). plain_assign ctx0 p \<and> assign_holds ctx0 p" using plain assms(2) that by blast
    from settle_rank [OF this single rk inv _ assms(8), of 0]
    show ?thesis using assms(1) by (auto simp: holds_below_def design_ok_def)
  qed
  have "\<forall>p \<in> set (d_continuous d). plain_assign (es_ctx es) p" using plain plain_assign_shape [OF shape] by blast
  from settle_nba [OF this assms(6,8)] show ?thesis
    using holds assms(7) same_shape_trans [OF assms(3) shape] same_shape_trans by (auto simp: settled_def)
qed

section \<open>One process\<close>

lemma procs_ok_cong:
  "sd_queue s' = sd_queue s \<Longrightarrow> sd_waiting s' = sd_waiting s \<Longrightarrow> sd_generator s' = sd_generator s \<Longrightarrow>
     procs_ok dc d s' = procs_ok dc d s"
  by (simp add: procs_ok_def)

lemma procs_ok_schedule: "procs_ok dc d s \<Longrightarrow> writes_ok dc d p \<Longrightarrow> procs_ok dc d (schedule_process t p s)"
  by (auto simp: procs_ok_def schedule_process_def schedule_ok)

lemma procs_ok_suspend: "procs_ok dc d s \<Longrightarrow> writes_ok dc d p \<Longrightarrow> procs_ok dc d (schedule_suspend p delay evs s)"
  by (auto simp: schedule_suspend_def Let_def procs_ok_schedule split: option.split) (auto simp: procs_ok_def)

lemma procs_ok_generator:
  assumes "procs_ok dc d s" "\<And>g'. g = Some g' \<Longrightarrow> generator_ok dc d g'"
  shows "procs_ok dc d (set_generator i g s)"
  using assms by (auto simp: procs_ok_def set_generator_def)

lemma procs_ok_generators:
  "procs_ok dc d s \<Longrightarrow> generator_ok dc d g \<Longrightarrow> procs_ok dc d (set_generator i (Some g) s)"
  "procs_ok dc d s \<Longrightarrow> procs_ok dc d (set_generator i None s)"
  by (auto intro: procs_ok_generator)

lemma procs_ok_state [simp]: "procs_ok dc d (set_state i st s) = procs_ok dc d s"
  by (rule procs_ok_cong) (simp_all add: set_state_def)

lemma exec_sel [simp]:
  "sd_exec (schedule_process t p s) = sd_exec s" "sd_exec (schedule_suspend p delay evs s) = sd_exec s"
  "sd_exec (set_generator i g s) = sd_exec s" "sd_exec (set_state i st s) = sd_exec s"
  by (auto simp: schedule_process_def schedule_suspend_def set_generator_def set_state_def Let_def split: option.split)

text \<open>What running a process does: the state of the executor is tracked, the scheduler's lists stay sound.\<close>

definition ran_ok :: "eval_ctx \<Rightarrow> design \<Rightarrow> sched \<Rightarrow> sched \<Rightarrow> bool" where
  "ran_ok dc d s s' \<longleftrightarrow> tracked (writable dc (driven d)) (sd_exec s) (sd_exec s') \<and> procs_ok dc d s'"

lemma resume_ok:
  assumes "procs_ok dc d s" "same_shape dc (sd_ctx s)" "writes_ok dc d p" "process_ok dc (driven d) body"
    and "resume i body p s = (s', c)" "\<forall>e. c \<noteq> Some (Failed e)"
  shows "ran_ok dc d s s'"
proof -
  let ?s = "set_state i ACTIVE s"
  let ?g = "case sd_generator ?s i of Some g \<Rightarrow> g | None \<Rightarrow> execute_coroutine body"
  have start: "generator_ok dc d (execute_coroutine body)" by (rule tr.co_keeps_execute(1) [OF assms(4)])
  have "generator_ok dc d ?g"
    using assms(1) start by (auto simp: procs_ok_def set_state_def split: option.split)
  then have kept: "co_kept (\<lambda>s. same_shape dc (es_ctx s)) (tracked (writable dc (driven d))) (?g (sd_exec s)) (sd_exec s)"
    using assms(2) by (simp add: co_keeps_def)
  have exh: "generator_ok dc d exhausted" by (simp add: co_keeps_def exhausted_def tr.rel_refl)
  show ?thesis
  proof (cases "?g (sd_exec s)")
    case (Return es c')
    then have "s' = set_generator i (Some exhausted) (?s\<lparr>sd_exec := es\<rparr>)" "c = Some c'"
      using assms(5) by (simp_all add: resume_def)
    moreover have "procs_ok dc d (?s\<lparr>sd_exec := es\<rparr>)" using assms(1) procs_ok_cong [of "?s\<lparr>sd_exec := es\<rparr>" ?s] by simp
    ultimately show ?thesis using kept Return assms(6) exh by (simp add: ran_ok_def procs_ok_generators)
  next
    case (Yield delay evs es g)
    then have "s' = schedule_suspend p delay evs (set_generator i (Some g) (?s\<lparr>sd_exec := es\<rparr>))"
      using assms(5) by (simp add: resume_def)
    moreover have "procs_ok dc d (?s\<lparr>sd_exec := es\<rparr>)" using assms(1) procs_ok_cong [of "?s\<lparr>sd_exec := es\<rparr>" ?s] by simp
    moreover have "generator_ok dc d g" using kept Yield by (simp add: co_keeps_def)
    ultimately show ?thesis using kept Yield assms(3) by (simp add: ran_ok_def procs_ok_suspend procs_ok_generators)
  qed
qed

lemma ran_ok_then:
  "ran_ok dc d s s1 \<Longrightarrow> sd_exec s2 = sd_exec s1 \<Longrightarrow> procs_ok dc d s2 \<Longrightarrow> ran_ok dc d s s2"
  by (simp add: ran_ok_def)

lemma execute_process_ok:
  assumes "procs_ok dc d s" "same_shape dc (sd_ctx s)" "writes_ok dc d p"
    and "execute_process p s = (s', c)" "\<forall>e. c \<noteq> Failed e"
  shows "ran_ok dc d s s'"
proof (cases p)
  case (AlwaysProcess a)
  have body: "process_ok dc (driven d) (ab_body (ap_block a))" using assms(3) AlwaysProcess by (simp add: writes_ok_def)
  show ?thesis
  proof (cases "ap_timing a")
    case True
    obtain s1 r where r: "resume (ap_id a) (ab_body (ap_block a)) p s = (s1, r)"
      by (cases "resume (ap_id a) (ab_body (ap_block a)) p s")
    have ne: "\<forall>e. r \<noteq> Some (Failed e)"
      using assms(4,5) AlwaysProcess True r by (auto simp: execute_process_def)
    note ran = resume_ok [OF assms(1-3) body r ne]
    have "procs_ok dc d (schedule_process (sd_time s1) p (set_generator (ap_id a) None s1))"
      using ran assms(3) by (intro procs_ok_schedule procs_ok_generators) (simp_all add: ran_ok_def)
    then show ?thesis
      using assms(4) AlwaysProcess True r ran
      by (auto simp: execute_process_def intro: ran_ok_then split: option.splits completion.splits)
  next
    case False
    obtain es c' where r: "execute_stmt (ab_body (ap_block a)) (sd_exec s) = (es, c')"
      by (cases "execute_stmt (ab_body (ap_block a)) (sd_exec s)")
    have c: "c = c'" and s': "s' = set_state (ap_id a) (if c' = Completed then IDLE else ACTIVE) (s\<lparr>sd_exec := es\<rparr>)"
      using assms(4) AlwaysProcess False r by (auto simp: execute_process_def split: completion.splits)
    have "tracked (writable dc (driven d)) (sd_exec s) es"
      using execute_tracked [OF body assms(2) r] assms(5) c by simp
    moreover have "procs_ok dc d (s\<lparr>sd_exec := es\<rparr>)" using assms(1) procs_ok_cong [of "s\<lparr>sd_exec := es\<rparr>" s] by simp
    ultimately show ?thesis using s' by (simp add: ran_ok_def)
  qed
next
  case (InitialProcess q)
  have body: "process_ok dc (driven d) (ip_body q)" using assms(3) InitialProcess by (simp add: writes_ok_def)
  obtain s1 r where r: "resume (ip_id q) (ip_body q) p s = (s1, r)" by (cases "resume (ip_id q) (ip_body q) p s")
  have ne: "\<forall>e. r \<noteq> Some (Failed e)" using assms(4,5) InitialProcess r by (auto simp: execute_process_def)
  note ran = resume_ok [OF assms(1-3) body r ne]
  then have "ran_ok dc d s (set_state (ip_id q) DONE s1)" by (simp add: ran_ok_def)
  then show ?thesis
    using assms(4) InitialProcess r ran by (auto simp: execute_process_def split: option.splits completion.splits)
next
  case (ClockToggle n v)
  obtain cur where n: "writable dc (driven d) n" "signals dc n = Some cur" "v_width v = v_width cur"
    using assms(3) ClockToggle by (auto simp: writes_ok_def split: option.splits)
  obtain es where es: "write_signal n v (sd_exec s) = Inr es" "s' = s\<lparr>sd_exec := es\<rparr>"
    using assms(4,5) ClockToggle by (cases "write_signal n v (sd_exec s)") (auto simp: execute_process_def)
  have "tracked (writable dc (driven d)) (sd_exec s) es"
    by (rule tr.rel_write_signal [OF assms(2) n(1) _ es(1)])
      (use n(2,3) same_shapeD(1) [OF assms(2), of n] in auto)
  then show ?thesis using es(2) assms(1) procs_ok_cong [of "s\<lparr>sd_exec := es\<rparr>" s] by (simp add: ran_ok_def)
next
  case (ContinuousProcess c)
  then show ?thesis using assms(3) by (simp add: writes_ok_def)
qed

section \<open>The active region\<close>

lemma records_next:
  assumes "records ok a b [] e1" "records ok b c [] e2"
  shows "records ok a c [] (e1 @ filter (\<lambda>(n, _). n \<notin> fst ` set e1) e2)"
  unfolding records_def
proof (intro conjI)
  have old: "n \<notin> fst ` set e1 \<Longrightarrow> signals b n = signals a n" for n
    using assms(1) by (simp add: records_def same_name_def)
  show "\<forall>(n, u) \<in> set (e1 @ filter (\<lambda>(n, _). n \<notin> fst ` set e1) e2).
      n \<notin> fst ` set [] \<and> ok n \<and> (signals a n \<noteq> None \<longrightarrow> u = signals a n)"
  proof (intro ballI)
    fix x assume x: "x \<in> set (e1 @ filter (\<lambda>(n, _). n \<notin> fst ` set e1) e2)"
    show "case x of (n, u) \<Rightarrow> n \<notin> fst ` set [] \<and> ok n \<and> (signals a n \<noteq> None \<longrightarrow> u = signals a n)"
    proof (cases "x \<in> set e1")
      case True
      then show ?thesis using assms(1) by (auto simp: records_def)
    next
      case False
      then have "x \<in> set e2" "fst x \<notin> fst ` set e1" using x by (auto split: prod.splits)
      then show ?thesis using assms(2) old [of "fst x"] by (auto simp: records_def)
    qed
  qed
  show "\<forall>n. n \<notin> fst ` set ([] @ e1 @ filter (\<lambda>(n, _). n \<notin> fst ` set e1) e2) \<longrightarrow> same_name a c n"
  proof (intro allI impI)
    fix n assume "n \<notin> fst ` set ([] @ e1 @ filter (\<lambda>(n, _). n \<notin> fst ` set e1) e2)"
    then have e1: "n \<notin> fst ` set e1" and f: "n \<notin> fst ` set (filter (\<lambda>(n, _). n \<notin> fst ` set e1) e2)" by auto
    have "n \<notin> fst ` set e2"
    proof
      assume "n \<in> fst ` set e2"
      then obtain u where "(n, u) \<in> set e2" by auto
      then have "(n, u) \<in> set (filter (\<lambda>(n, _). n \<notin> fst ` set e1) e2)" using e1 by simp
      then show False using f by (force simp del: set_filter)
    qed
    with e1 show "same_name a c n" using assms by (simp add: records_def same_name_def)
  qed
qed

definition region_inv :: "eval_ctx \<Rightarrow> design \<Rightarrow> eval_ctx \<Rightarrow> region \<Rightarrow> sched \<Rightarrow> bool" where
  "region_inv dc d ctx0 r s \<longleftrightarrow> procs_ok dc d s \<and> same_shape dc (sd_ctx s) \<and> ctx_time (sd_ctx s) = ctx_time ctx0 \<and>
     (\<forall>e \<in> set (es_nba (sd_exec s)). entry_ok (writable dc (driven d)) dc e) \<and>
     records (writable dc (driven d)) ctx0 (sd_ctx s) [] (rg_originals r)"

lemma region_step:
  assumes "region_inv dc d ctx0 r s" "writes_ok dc d p"
    and "execute_process p (s\<lparr>sd_exec := (sd_exec s)\<lparr>es_originals := Some []\<rparr>\<rparr>) = (s1, c)" "\<forall>e. c \<noteq> Failed e"
  shows "region_inv dc d ctx0 (note_writes p s2 (opt_or (es_originals (sd_exec s1)) []) r) s1"
proof -
  let ?s = "s\<lparr>sd_exec := (sd_exec s)\<lparr>es_originals := Some []\<rparr>\<rparr>"
  have p: "procs_ok dc d ?s" and shape: "same_shape dc (sd_ctx ?s)"
    using assms(1) procs_ok_cong [of ?s s] by (simp_all add: region_inv_def)
  have ran: "ran_ok dc d ?s s1" by (rule execute_process_ok [OF p shape assms(2-4)])
  then have t: "tracked (writable dc (driven d)) (sd_exec ?s) (sd_exec s1)" and p1: "procs_ok dc d s1"
    by (simp_all add: ran_ok_def)
  obtain ext where ext: "es_originals (sd_exec s1) = Some ext"
    "records (writable dc (driven d)) (sd_ctx s) (sd_ctx s1) [] ext"
    using t by (auto simp: tracked_def)
  obtain q where q: "es_nba (sd_exec s1) = es_nba (sd_exec s) @ q"
    "\<forall>e \<in> set q. entry_ok (writable dc (driven d)) (sd_ctx s) e" and shape1: "same_shape (sd_ctx s) (sd_ctx s1)"
    "ctx_time (sd_ctx s1) = ctx_time (sd_ctx s)"
    using t by (auto simp: tracked_def)
  have "records (writable dc (driven d)) ctx0 (sd_ctx s) [] (rg_originals r)" using assms(1) by (simp add: region_inv_def)
  from records_next [OF this ext(2)]
  have "records (writable dc (driven d)) ctx0 (sd_ctx s1) []
      (rg_originals (note_writes p s2 (opt_or (es_originals (sd_exec s1)) []) r))"
    by (simp add: note_writes_def ext(1) Let_def case_prod_unfold)
  moreover have "\<forall>e \<in> set (es_nba (sd_exec s1)). entry_ok (writable dc (driven d)) dc e"
    using q assms(1) entry_ok_shape [of dc "sd_ctx s"] shape by (auto simp: region_inv_def)
  ultimately show ?thesis
    using p1 shape1 assms(1) same_shape_trans [OF _ shape1(1)] by (simp add: region_inv_def)
qed

lemma region_inv_cong:
  "procs_ok dc d s' \<Longrightarrow> sd_exec s' = sd_exec s \<Longrightarrow> region_inv dc d ctx0 r s \<Longrightarrow> region_inv dc d ctx0 r s'"
  by (simp add: region_inv_def)

lemma run_procs_ok:
  "region_inv dc d ctx0 r s \<Longrightarrow> \<forall>p \<in> set ps. writes_ok dc d p \<Longrightarrow> run_procs ps r s = Inr (s', r') \<Longrightarrow>
     region_inv dc d ctx0 r' s'"
proof (induction ps arbitrary: s r)
  case Nil
  then show ?case by simp
next
  case (Cons p ps)
  let ?s = "s\<lparr>sd_exec := (sd_exec s)\<lparr>es_originals := Some []\<rparr>\<rparr>"
  obtain s1 c where 1: "execute_process p ?s = (s1, c)" by (cases "execute_process p ?s")
  let ?w = "opt_or (es_originals (sd_exec s1)) []"
  have c: "\<forall>e. c \<noteq> Failed e" using Cons.prems(3) 1 by (auto simp: Let_def)
  have p: "writes_ok dc d p" "\<forall>p \<in> set ps. writes_ok dc d p" using Cons.prems(2) by simp_all
  note step = region_step [OF Cons.prems(1) p(1) 1 c]
  have p1: "procs_ok dc d s1" using step by (simp add: region_inv_def)
  obtain s2 where 2: "run_procs ps (note_writes p s2 ?w r) s2 = Inr (s', r')"
    "procs_ok dc d s2" "sd_exec s2 = sd_exec s1"
  proof (cases c)
    case (Suspended delay evs)
    show ?thesis
      by (rule that [of "case delay of Some n \<Rightarrow> if 0 < n then schedule_process (sd_time s1 + n) p s1 else s1 | None \<Rightarrow> s1"])
        (use Cons.prems(3) 1 Suspended p1 p(1) in \<open>auto simp: Let_def procs_ok_schedule split: option.split\<close>)
  next
    case Finished
    show ?thesis
      by (rule that [of "s1\<lparr>sd_finish := True\<rparr>"])
        (use Cons.prems(3) 1 Finished p1 in \<open>auto simp: Let_def procs_ok_def\<close>)
  qed (use that Cons.prems(3) 1 p1 in \<open>auto simp: Let_def\<close>)
  show ?case by (rule Cons.IH [OF region_inv_cong [OF 2(2,3) step] p(2) 2(1)])
qed

lemma region_dirty_agree:
  assumes "records (writable dc X) ctx0 ctx [] o'" "same_shape dc ctx0" "same_shape dc ctx" "ctx_time ctx = ctx_time ctx0"
  shows "agree_on (- region_dirty ctx o') ctx0 ctx" "region_dirty ctx o' \<inter> X = {}"
proof -
  have shape: "same_shape ctx0 ctx" using same_shape_trans [OF same_shape_sym [OF assms(2)] assms(3)] .
  have "same_name ctx0 ctx n" if n: "n \<notin> region_dirty ctx o'" for n
  proof (cases "n \<in> fst ` set o'")
    case False
    then show ?thesis using assms(1) by (simp add: records_def)
  next
    case True
    then obtain u where u: "(n, u) \<in> set o'" by auto
    obtain v w where v: "u = Some v" "signals ctx n = Some w" "\<not> differs v w"
      using n u by (force simp: region_dirty_def split: option.splits)
    obtain w0 where w0: "signals ctx0 n = Some w0" "v_width w0 = v_width w"
      using shape_signals [OF same_shape_sym [OF shape] v(2)] by metis
    have "writable dc X n" "u = signals ctx0 n" using assms(1) u w0(1) by (auto simp: records_def)
    then have "v = w0" "memories dc n = None"
      using v(1) w0(1) shape_declared(1) [OF assms(2), of n] by (cases "memories dc n"; simp add: writable_def)+
    moreover from this have "memories ctx0 n = None" "memories ctx n = None"
      using shape_declared(2) assms(2,3) by blast+
    moreover have "w0 = w" using same_value_eq w0(2) v(3) \<open>v = w0\<close> by blast
    ultimately show ?thesis using v(2) w0(1) by (simp add: same_name_def)
  qed
  then show "agree_on (- region_dirty ctx o') ctx0 ctx" using shape assms(4) by (simp add: agree_on_def same_name_def)
  show "region_dirty ctx o' \<inter> X = {}" using assms(1) by (auto simp: region_dirty_def records_def writable_def)
qed

lemma settled_cong:
  "es_ctx es' = es_ctx es \<Longrightarrow> es_originals es' = es_originals es \<Longrightarrow> es_nba es' = es_nba es \<Longrightarrow>
     settled h dc d es' = settled h dc d es"
  by (simp add: settled_def)

lemma holds_agree:
  assumes "design_ok dc rank d" "\<forall>p \<in> set (d_continuous d). assign_holds ctx p" "agree_on UNIV ctx ctx'"
  shows "\<forall>p \<in> set (d_continuous d). assign_holds ctx' p"
proof
  fix p assume p: "p \<in> set (d_continuous d)"
  have "reads_complete (cp_rhs p)" using assms(1) p by (auto simp: design_ok_def plain_assign_def)
  then show "assign_holds ctx' p"
    using assign_holds_cong [OF agree_on_mono [OF assms(3) subset_UNIV]] assms(2,3) p by (auto simp: agree_on_def)
qed

lemma settle_dirty_procs:
  assumes "procs_ok dc d s" "(if D \<noteq> {} then settle_dirty d D s else Inr (s, D)) = Inr (s', D')"
  shows "procs_ok dc d s'"
proof (cases "D = {}")
  case False
  then obtain es where "s' = s\<lparr>sd_exec := es\<rparr>" using assms(2) by (auto simp: settle_dirty_def rmap_eq_Inr_iff)
  then show ?thesis using assms(1) by (simp add: procs_ok_def)
qed (use assms in simp)

lemma settle_dirty_ok:
  assumes "design_ok dc rank d" "h \<longrightarrow> (\<forall>p \<in> set (d_continuous d). assign_holds ctx0 p)" "same_shape dc ctx0"
    and "agree_on (- D) ctx0 (sd_ctx s)" "D \<inter> driven d = {}" "es_originals (sd_exec s) = None"
    and "\<forall>e \<in> set (es_nba (sd_exec s)). entry_ok (writable dc (driven d)) dc e"
    and "(if D \<noteq> {} then settle_dirty d D s else Inr (s, D)) = Inr (s', D')" "procs_ok dc d s"
  shows "settled h dc d (sd_exec s')" "procs_ok dc d s'"
proof -
  have shape: "same_shape dc (sd_ctx s)" using assms(3,4) same_shape_trans by (auto simp: agree_on_def)
  show "settled h dc d (sd_exec s')"
  proof (cases "D = {}")
    case True
    have "h \<longrightarrow> (\<forall>p \<in> set (d_continuous d). assign_holds (sd_ctx s) p)"
      using holds_agree [OF assms(1)] assms(2,4) True by auto
    then show ?thesis using True assms(6-8) shape by (simp add: settled_def)
  next
    case False
    then obtain es where "settle_assigns (d_delta_limit d) (d_continuous d) D (sd_exec s) = Inr (es, D')"
      "s' = s\<lparr>sd_exec := es\<rparr>" using assms(8) by (auto simp: settle_dirty_def rmap_eq_Inr_iff)
    then show ?thesis using settle_settled [OF assms(1-7)] by simp
  qed
  show "procs_ok dc d s'" by (rule settle_dirty_procs [OF assms(9,8)])
qed

lemma active_region_ok:
  assumes "design_ok dc rank d" "settled h dc d (sd_exec s)" "procs_ok dc d s" "\<forall>p \<in> set ps. writes_ok dc d p"
    and "run_active_region d ps s = Inr (s', D)"
  shows "settled h dc d (sd_exec s')" "procs_ok dc d s'"
proof -
  obtain s1 r where 1: "run_procs ps \<lparr>rg_originals = [], rg_own = \<lambda>n. None\<rparr> s = Inr (s1, r)"
    using assms(5) by (auto simp: run_active_region_def rbind_eq_Inr_iff)
  let ?s = "s1\<lparr>sd_exec := (sd_exec s1)\<lparr>es_originals := None\<rparr>, sd_own := rg_own r\<rparr>"
  let ?D = "region_dirty (sd_ctx ?s) (rg_originals r)"
  obtain s2 where 2: "(if ?D \<noteq> {} then settle_dirty d ?D ?s else Inr (?s, ?D)) = Inr (s2, D)" "s' = collect_display s2"
    using assms(5) 1 by (auto simp: run_active_region_def Let_def rmap_eq_Inr_iff)
  have "region_inv dc d (sd_ctx s) \<lparr>rg_originals = [], rg_own = \<lambda>n. None\<rparr> s"
    using assms(2,3) by (simp add: region_inv_def settled_def records_self)
  note inv = run_procs_ok [OF this assms(4) 1, unfolded region_inv_def]
  have base: "h \<longrightarrow> (\<forall>p \<in> set (d_continuous d). assign_holds (sd_ctx s) p)" "same_shape dc (sd_ctx s)"
    using assms(2) by (simp_all add: settled_def)
  note ag = region_dirty_agree [of dc "driven d" "sd_ctx s" "sd_ctx s1" "rg_originals r"]
  have r: "procs_ok dc d ?s" "same_shape dc (sd_ctx s1)" "ctx_time (sd_ctx s1) = ctx_time (sd_ctx s)"
    "\<forall>e \<in> set (es_nba (sd_exec s1)). entry_ok (writable dc (driven d)) dc e"
    "records (writable dc (driven d)) (sd_ctx s) (sd_ctx s1) [] (rg_originals r)"
    using inv procs_ok_cong [of ?s s1 dc d] by simp_all
  note ag = region_dirty_agree [OF r(5) base(2) r(2,3)]
  have c: "sd_ctx ?s = sd_ctx s1" "es_nba (sd_exec ?s) = es_nba (sd_exec s1)" "es_originals (sd_exec ?s) = None" by simp_all
  note s2 = settle_dirty_ok [OF assms(1) base ag(1) [folded c(1)] ag(2) [folded c(1)] c(3) r(4) [folded c(2)] 2(1) r(1)]
  have "sd_exec s' = (sd_exec s2)\<lparr>es_output := es_output (sd_exec s')\<rparr>" "sd_queue s' = sd_queue s2"
    "sd_waiting s' = sd_waiting s2" "sd_generator s' = sd_generator s2"
    using 2(2) by (simp_all add: collect_display_def)
  then show "settled h dc d (sd_exec s')" "procs_ok dc d s'"
    using s2 procs_ok_cong [of s' s2 dc d] settled_cong [of "sd_exec s'" "sd_exec s2" h dc d] 2(2)
    by (simp_all add: collect_display_def)
qed

section \<open>Delta cycles\<close>

lemma fire_once_mem: "set (fst (fire_once st ps D)) \<subseteq> set ps"
  by (induction st ps D rule: fire_once.induct) auto

lemma triggered_always:
  assumes "collect_triggered d D others s = Inr (ps, s')"
  shows "set ps \<subseteq> AlwaysProcess ` set (d_always d)" "sd_exec s' = sd_exec s" "sd_queue s' = sd_queue s"
    "sd_waiting s' = sd_waiting s" "sd_generator s' = sd_generator s"
proof -
  let ?own = "\<lambda>name. if name \<in> others then None else sd_own s name"
  let ?s = "s\<lparr>sd_own := (\<lambda>name. None), sd_edge_changed := sd_edge_changed s \<union> (D \<inter> seq_edge_names d)\<rparr>"
  have combo: "set (woken_combos d D ?own) \<subseteq> set (d_always d)"
    by (auto simp: woken_combos_def combo_candidates_def d_combo_def split: if_splits)
  obtain fired where f: "fired_edges ?s (sd_edge_changed ?s) = Inr fired"
    using assms by (cases "fired_edges ?s (sd_edge_changed ?s)") (auto simp: collect_triggered_def)
  have seq: "set (edge_procs d fired) \<subseteq> set (d_always d)"
    by (auto simp: edge_procs_def edge_to_seq_def d_seq_def split: if_splits)
  obtain sq dn where o: "fire_once (sd_state ?s) (edge_procs d fired) (sd_triggered_seq ?s) = (sq, dn)"
    by (cases "fire_once (sd_state ?s) (edge_procs d fired) (sd_triggered_seq ?s)")
  have sub: "set sq \<subseteq> set (d_always d)"
    using fire_once_mem [of "sd_state ?s" "edge_procs d fired" "sd_triggered_seq ?s"] o seq by auto
  note body = assms [unfolded collect_triggered_def Let_def, unfolded f rbind_simps]
  have "set ps \<subseteq> AlwaysProcess ` set (d_always d) \<and> (\<exists>own ec ts. s' = s\<lparr>sd_own := own, sd_edge_changed := ec, sd_triggered_seq := ts\<rparr>)"
  proof (cases "fired = {}")
    case True
    note b = body [unfolded if_P [OF True]]
    have "ps = map AlwaysProcess (woken_combos d D ?own)" "s' = ?s" using b by simp_all
    then show ?thesis using combo by (intro conjI exI [of _ "\<lambda>name. None"] exI [of _ "sd_edge_changed ?s"] exI [of _ "sd_triggered_seq s"]) auto
  next
    case False
    note b = body [unfolded if_not_P [OF False] o prod.case]
    have "ps = map AlwaysProcess (woken_combos d D ?own) @ map AlwaysProcess sq" "s' = ?s\<lparr>sd_triggered_seq := dn\<rparr>"
      using b by simp_all
    then show ?thesis using combo sub by (intro conjI exI [of _ "\<lambda>name. None"] exI [of _ "sd_edge_changed ?s"] exI [of _ dn]) auto
  qed
  then show "set ps \<subseteq> AlwaysProcess ` set (d_always d)" "sd_exec s' = sd_exec s" "sd_queue s' = sd_queue s"
    "sd_waiting s' = sd_waiting s" "sd_generator s' = sd_generator s"
    by auto
qed

lemma delta_cycle_ok:
  assumes "design_ok dc rank d" "settled h dc d (sd_exec s)" "procs_ok dc d s"
    and "delta_cycle False d active s = Inr (s', active')"
  shows "settled h dc d (sd_exec s') \<and> procs_ok dc d s'"
  using assms(4)
proof (rule delta_cycleE)
  fix es D1 s1 D2 ps s2
  assume 1: "apply_nba (sd_exec s) = Inr (es, D1)"
    "(if D1 \<noteq> {} then settle_dirty d D1 (s\<lparr>sd_exec := es\<rparr>) else Inr (s\<lparr>sd_exec := es\<rparr>, {})) = Inr (s1, D2)"
    "collect_triggered d (active \<union> D2) D2 s1 = Inr (ps, s2)"
    and 2: "ps = [] \<and> D2 = {} \<and> s' = s2 \<and> active' = {} \<or>
      (\<exists>s3 D3. run_active_region d ps s2 = Inr (s3, D3) \<and>
        (if False then settle_dirty d D3 s3 else Inr (s3, D3)) = Inr (s', active'))"
  let ?s = "s\<lparr>sd_exec := es\<rparr>"
  have base: "h \<longrightarrow> (\<forall>p \<in> set (d_continuous d). assign_holds (sd_ctx s) p)" "same_shape dc (sd_ctx s)" "es_originals (sd_exec s) = None"
    using assms(2) by (simp_all add: settled_def)
  have "\<forall>e \<in> set (es_nba (sd_exec s)). entry_ok (writable dc (driven d)) (sd_ctx s) e"
    using assms(2) entry_ok_shape [OF base(2)] by (simp add: settled_def)
  note nba = apply_nba_ok [OF this 1(1)]
  have ag: "agree_on (- D1) (sd_ctx s) (sd_ctx ?s)" using nba(1,2,4) by (simp add: agree_on_def same_name_def)
  have dis: "D1 \<inter> driven d = {}" using nba(3) by (auto simp: writable_def)
  have "(if D1 \<noteq> {} then settle_dirty d D1 ?s else Inr (?s, D1)) = Inr (s1, D2)" using 1(2) by (cases "D1 = {}") simp_all
  note s1 = settle_dirty_ok [OF assms(1) base(1,2) ag dis _ _ this]
  have 3: "settled h dc d (sd_exec s1)" "procs_ok dc d s1"
    by (rule s1; use nba(5,6) base(3) assms(3) procs_ok_cong [of ?s s] in simp)+
  note t = triggered_always [OF 1(3)]
  have 4: "settled h dc d (sd_exec s2)" "procs_ok dc d s2" using 3 t(2-5) procs_ok_cong [of s2 s1] by simp_all
  have "\<forall>p \<in> set ps. writes_ok dc d p" using t(1) assms(1) by (auto simp: design_ok_def)
  from active_region_ok [OF assms(1) 4 this] show ?thesis using 2 4 by auto
qed

lemma delta_cycles_ok:
  "design_ok dc rank d \<Longrightarrow> settled h dc d (sd_exec s) \<Longrightarrow> procs_ok dc d s \<Longrightarrow>
     delta_cycles n False d active s = Inr s' \<Longrightarrow> settled h dc d (sd_exec s') \<and> procs_ok dc d s'"
proof (induction n arbitrary: active s)
  case 0
  then show ?case by (auto simp: delta_cycles.simps split: if_splits)
next
  case (Suc n)
  show ?case
  proof (cases "active = {} \<and> es_nba (sd_exec s) = []")
    case True
    then show ?thesis using Suc.prems by (simp add: delta_cycles.simps)
  next
    case False
    then obtain s1 a1 where 1: "delta_cycle False d active s = Inr (s1, a1)" "delta_cycles n False d a1 s1 = Inr s'"
      using Suc.prems(4) by (auto simp: delta_cycles.simps [of "Suc n"] rbind_eq_Inr_iff split: if_splits)
    show ?thesis using Suc.IH [OF Suc.prems(1) _ _ 1(2)] delta_cycle_ok [OF Suc.prems(1-3) 1(1)] by blast
  qed
qed

section \<open>A time step\<close>

lemma holds_untimed:
  assumes "\<not> reads_time (cp_rhs p)"
  shows "assign_holds (ctx\<lparr>ctx_time := t\<rparr>) p = assign_holds ctx p"
  by (simp add: assign_holds_def assign_value_def eval_untimed [OF assms] cong: option.case_cong)

lemma start_step_ok:
  assumes "design_ok dc rank d" "settled h dc d (sd_exec s)" "procs_ok dc d s" "pop_at t (sd_queue s) = (ps, q)"
    and "peek_time (sd_queue s) = Some t"
  shows "settled h dc d (sd_exec (start_step t s\<lparr>sd_queue := q\<rparr>))" "procs_ok dc d (start_step t s\<lparr>sd_queue := q\<rparr>)"
    "\<forall>p \<in> set ps. writes_ok dc d p"
proof -
  have ev: "queue_ok (sd_queue s)" "\<forall>(t, p) \<in> set (queue_events (sd_queue s)). writes_ok dc d p"
    using assms(3) by (simp_all add: procs_ok_def)
  note pop = pop_at_ok [OF ev(1) assms(5,4)]
  show "\<forall>p \<in> set ps. writes_ok dc d p" using ev(2) by (auto simp: pop(2))
  have q: "\<forall>(t, p) \<in> set (queue_events q). writes_ok dc d p" using ev(2) by (auto simp: pop(3))
  have sel: "sd_waiting (start_step t s\<lparr>sd_queue := q\<rparr>) = sd_waiting s" "sd_queue (start_step t s\<lparr>sd_queue := q\<rparr>) = q"
    "sd_generator (start_step t s\<lparr>sd_queue := q\<rparr>) = sd_generator s"
    "sd_exec (start_step t s\<lparr>sd_queue := q\<rparr>) = (sd_exec s)\<lparr>es_time := t, es_ctx := (sd_ctx s)\<lparr>ctx_time := t\<rparr>\<rparr>"
    by (simp_all add: start_step_def Let_def)
  show "procs_ok dc d (start_step t s\<lparr>sd_queue := q\<rparr>)"
    using assms(3) pop(1) q unfolding procs_ok_def sel by blast
  have "h \<longrightarrow> (\<forall>p \<in> set (d_continuous d). assign_holds ((sd_ctx s)\<lparr>ctx_time := t\<rparr>) p)"
    using assms(1,2) holds_untimed by (auto simp: design_ok_def settled_def)
  moreover have "same_shape dc ((sd_ctx s)\<lparr>ctx_time := t\<rparr>)"
    using assms(2) same_shape_trans [OF _ shape_time] by (auto simp: settled_def)
  ultimately show "settled h dc d (sd_exec (start_step t s\<lparr>sd_queue := q\<rparr>))"
    using assms(2) by (simp add: settled_def sel(4))
qed

lemma wake_waiting_ok:
  "wake_waiting ws s = Inr (still, s') \<Longrightarrow> procs_ok dc d s \<Longrightarrow> \<forall>(p, edges) \<in> set ws. writes_ok dc d p \<Longrightarrow>
     procs_ok dc d s' \<and> sd_exec s' = sd_exec s \<and> set still \<subseteq> set ws"
proof (induction ws s arbitrary: still s' rule: wake_waiting.induct)
  case (1 s)
  then show ?case by simp
next
  case (2 p edges rest s)
  obtain f where f: "event_edge_fired s edges = Inr f" using 2(3) by (auto simp: rbind_eq_Inr_iff)
  show ?case
  proof (cases f)
    case True
    then have w: "wake_waiting rest (schedule_process (sd_time s) p s) = Inr (still, s')" using 2(3) f by simp
    have "procs_ok dc d (schedule_process (sd_time s) p s)" using procs_ok_schedule 2(4,5) by simp
    then show ?thesis using 2(1) [OF f True w] 2(5) by auto
  next
    case False
    then obtain st where w: "wake_waiting rest s = Inr (st, s')" "still = (p, edges) # st"
      using 2(3) f by (auto simp: rmap_eq_Inr_iff)
    then show ?thesis using 2(2) [OF f False w(1) 2(4)] 2(5) by auto
  qed
qed

lemma check_waiting_ok:
  assumes "check_event_waiting s = Inr s'" "procs_ok dc d s"
  shows "procs_ok dc d s' \<and> sd_exec s' = sd_exec s"
proof -
  obtain ws s1 where w: "wake_waiting (sd_waiting s) s = Inr (ws, s1)" "s' = s1\<lparr>sd_waiting := ws\<rparr>"
    using assms(1) by (auto simp: check_event_waiting_def rmap_eq_Inr_iff)
  have ok: "\<forall>(p, edges) \<in> set (sd_waiting s). writes_ok dc d p" using assms(2) by (simp add: procs_ok_def)
  note wk = wake_waiting_ok [OF w(1) assms(2) ok]
  then have "\<forall>(p, edges) \<in> set ws. writes_ok dc d p" using ok by blast
  then show ?thesis using wk w(2) by (simp add: procs_ok_def)
qed

lemma finish_step_ok:
  assumes "finish_step s = (s', go)" "procs_ok dc d s"
  shows "procs_ok dc d s' \<and> sd_exec s' = sd_exec s"
proof -
  have "sd_generator s' = sd_generator s" using assms(1) by (auto simp: finish_step_def Let_def split: if_splits)
  then show ?thesis
    using finish_step_sel [OF assms(1)] finish_step_waiting [OF assms(1)] assms(2) by (auto simp: procs_ok_def)
qed

lemma single_step_ok:
  assumes "design_ok dc rank d" "settled h dc d (sd_exec s)" "procs_ok dc d s"
    and "peek_time (sd_queue s) = Some t" "run_single_step d t s = Inr (s', go)"
  shows "settled h dc d (sd_exec s') \<and> procs_ok dc d s'"
  using assms(5)
proof (rule single_stepE)
  fix ps q s1 a s2 s3
  assume 1: "pop_at t (sd_queue s) = (ps, q)" "run_active_region d ps (start_step t s\<lparr>sd_queue := q\<rparr>) = Inr (s1, a)"
    "delta_cycles (d_delta_limit d) False d a s1 = Inr s2"
    "(if sd_waiting s2 \<noteq> [] then check_event_waiting s2 else Inr s2) = Inr s3" and 5: "finish_step s3 = (s', go)"
  note s = start_step_ok [OF assms(1-3) 1(1) assms(4)]
  note s1 = active_region_ok [OF assms(1) s 1(2)]
  note s2 = delta_cycles_ok [OF assms(1) s1 1(3)]
  have "procs_ok dc d s3 \<and> sd_exec s3 = sd_exec s2"
    using 1(4) s2 check_waiting_ok by (cases "sd_waiting s2 = []") auto
  then show ?thesis using finish_step_ok [OF 5] s2 by auto
qed

lemma loop_ok:
  assumes "design_ok dc rank d" "settled h dc d (sd_exec s)" "procs_ok dc d s"
    and "run_time_step fuel d max_time s = Some (Inr s')"
  shows "settled h dc d (sd_exec s') \<and> procs_ok dc d s'"
  using assms(2-4)
proof (induction fuel arbitrary: s)
  case 0
  then show ?case by (auto simp: run_time_step.simps split: option.splits if_splits)
next
  case (Suc fuel)
  show ?case
  proof (cases "peek_time (sd_queue s)")
    case None
    then show ?thesis using Suc.prems by (simp add: run_time_step.simps)
  next
    case (Some t)
    show ?thesis
    proof (cases "max_time < t")
      case True
      then show ?thesis using Suc.prems Some by (simp add: run_time_step.simps)
    next
      case False
      then obtain s1 go where 1: "run_single_step d t s = Inr (s1, go)"
        using Suc.prems(3) Some by (cases "run_single_step d t s") (auto simp: run_time_step.simps)
      note step = single_step_ok [OF assms(1) Suc.prems(1,2) Some 1]
      show ?thesis
      proof (cases go)
        case True
        then have "run_time_step fuel d max_time s1 = Some (Inr s')"
          using Suc.prems(3) Some False 1 by (simp add: run_time_step.simps [of "Suc fuel"])
        then show ?thesis using Suc.IH [of s1] step by simp
      next
        case go: False
        then show ?thesis using Suc.prems(3) Some False 1 step by (simp add: run_time_step.simps)
      qed
    qed
  qed
qed

section \<open>The start of a run\<close>

lemma reassign_short:
  assumes "plain_assign (es_ctx s) p"
  shows "reassign (cp_lhs p) (cp_rhs p) s = reassign_dirty (cp_lhs p) (cp_rhs p) s"
proof -
  obtain n r cur where p: "cp_lhs p = Identifier n [] r" "target_name p = n" "plain_name n"
    "memories (es_ctx s) n = None" "signals (es_ctx s) n = Some cur"
    using assms by (rule plain_assignE)
  have rd: "read_lhs (es_ctx s) (cp_lhs p) = Inr (Some cur)"
    using p by (simp add: read_identifier_def read_signal_def)
  have w: "lhs_width (es_ctx s) (cp_lhs p) = Inr (int (v_width cur))"
    using p by (simp add: identifier_name_def read_signal_def)
  have cp: "copy_whole_memory True (cp_lhs p) (cp_rhs p) s = None" "assign_pattern_to_memory True (cp_lhs p) (cp_rhs p) s = None"
    using p by (auto simp: copy_whole_memory_def assign_pattern_to_memory_def identifier_name_def split: expr.split)
  have cur: "signals (es_ctx s) (target_name p) = Some cur" using p by simp
  show ?thesis
    unfolding reassign_plain [OF assms cur] unfolding reassign_def rd cp w
    using write_now_plain [OF p(3-5), of r "cp_rhs p"] p
    by (cases "assign_value (es_ctx s) (cp_rhs p) (int (v_width cur))")
      (simp_all add: write_plain_ctx read_identifier_def read_signal_def target_changed_def)
qed

lemma full_pass_rank:
  assumes "\<forall>p \<in> set ps. plain_assign (es_ctx s) p" "single_driver ps" "ranked rank ps" "set qs \<subseteq> set ps"
    and "es_originals s = None" "holds_below rank ps k s" "run_continuous_assigns qs s = Inr (s', ch)"
  shows "es_originals s' = None \<and> es_nba s' = es_nba s \<and> same_shape (es_ctx s) (es_ctx s') \<and>
    (\<not> ch \<longrightarrow> s' = s \<and> (\<forall>p \<in> set qs. assign_holds (es_ctx s) p)) \<and>
    (\<forall>p \<in> set ps. (rank (target_name p) < k \<or> rank (target_name p) = k \<and> (p \<in> set qs \<or> assign_holds (es_ctx s) p))
      \<longrightarrow> assign_holds (es_ctx s') p)"
  using assms(1,4-7)
proof (induction qs arbitrary: s ch)
  case Nil
  then show ?case by (auto simp: holds_below_def)
next
  case (Cons q qs)
  have q: "q \<in> set ps" "set qs \<subseteq> set ps" "plain_assign (es_ctx s) q" using Cons.prems(1,2) by auto
  obtain s1 c c' where 1: "reassign_dirty (cp_lhs q) (cp_rhs q) s = Inr (s1, c)"
    "run_continuous_assigns qs s1 = Inr (s', c')" "ch = (c \<or> c')"
    using Cons.prems(5) by (auto simp: rbind_eq_Inr_iff rmap_eq_Inr_iff reassign_short [OF q(3)])
  note v = reassign_visit [OF q(3) Cons.prems(3) 1(1)]
  have inv: "pass_inv ps (es_ctx s) {} s"
    by (rule pass_inv_start) (use Cons.prems(3) in \<open>simp_all add: agree_on_def\<close>)
  have keep: "assign_holds (es_ctx s1) p"
    if "p \<in> set ps" "rank (target_name p) \<le> k" "p = q \<or> assign_holds (es_ctx s) p" for p
    using visit_keeps [OF inv Cons.prems(1) assms(2,3) Cons.prems(4) that(1,2) q(1) 1(1) that(3)] .
  have below: "holds_below rank ps k s1" using keep Cons.prems(4) by (simp add: holds_below_def)
  have plain: "\<forall>p \<in> set ps. plain_assign (es_ctx s1) p" using Cons.prems(1) plain_assign_shape [OF v(2)] by simp
  note ih = Cons.IH [OF plain q(2) v(1) below 1(2)]
  have nba: "es_nba s1 = es_nba s" by (rule reassign_nba [OF q(3) Cons.prems(3) 1(1)])
  have stay: "s' = s \<and> (\<forall>p \<in> set (q # qs). assign_holds (es_ctx s) p)" if "\<not> ch"
    using that 1(3) ih v(6) by auto
  have holds: "assign_holds (es_ctx s') p"
    if "p \<in> set ps" "rank (target_name p) < k \<or> rank (target_name p) = k \<and> (p \<in> set (q # qs) \<or> assign_holds (es_ctx s) p)" for p
    using that ih keep [of p] Cons.prems(4) by (auto simp: holds_below_def)
  show ?case using ih nba same_shape_trans [OF v(2)] stay holds by simp
qed

lemma bootstrap_rank:
  assumes "\<forall>p \<in> set ps. plain_assign (es_ctx s) p" "single_driver ps" "ranked rank ps"
    and "es_originals s = None" "holds_below rank ps k s" "bootstrap_assigns n ps s = Inr s'"
  shows "es_originals s' = None \<and> es_nba s' = es_nba s \<and> same_shape (es_ctx s) (es_ctx s') \<and> holds_below rank ps (k + n) s'"
  using assms(1,4-6)
proof (induction n arbitrary: s k)
  case 0
  then show ?case by simp
next
  case (Suc n)
  obtain s1 ch where 1: "run_continuous_assigns ps s = Inr (s1, ch)"
    "(if ch then bootstrap_assigns n ps s1 else Inr s1) = Inr s'"
    using Suc.prems(4) by (auto simp: rbind_eq_Inr_iff)
  note p = full_pass_rank [OF Suc.prems(1) assms(2,3) subset_refl Suc.prems(2,3) 1(1)]
  have below: "holds_below rank ps (Suc k) s1" using p by (simp add: holds_below_def less_Suc_eq)
  show ?case
  proof (cases ch)
    case True
    have plain: "\<forall>p \<in> set ps. plain_assign (es_ctx s1) p" using Suc.prems(1) p plain_assign_shape by blast
    have "bootstrap_assigns n ps s1 = Inr s'" using 1(2) True by simp
    from Suc.IH [OF plain _ below this] p show ?thesis using same_shape_trans [of "es_ctx s" "es_ctx s1"] by simp
  next
    case False
    then have "s1 = s" "s' = s" "\<forall>p \<in> set ps. assign_holds (es_ctx s) p" using p 1(2) by simp_all
    then show ?thesis using Suc.prems(2) by (simp add: holds_below_def)
  qed
qed

section \<open>A run\<close>

lemma bootstrap_settled:
  assumes "design_ok dc rank d" "settled h dc d es" "bootstrap_assigns (d_delta_limit d) (d_continuous d) es = Inr es'"
  shows "settled True dc d es'"
proof -
  have st: "same_shape dc (es_ctx es)" "es_originals es = None" using assms(2) by (simp_all add: settled_def)
  have ps: "\<forall>p \<in> set (d_continuous d). plain_assign (es_ctx es) p" "single_driver (d_continuous d)" "ranked rank (d_continuous d)"
    using assms(1) plain_assign_shape [OF st(1)] by (auto simp: design_ok_def)
  have "holds_below rank (d_continuous d) 0 es" by (simp add: holds_below_def)
  from bootstrap_rank [OF ps st(2) this assms(3)] have b: "es_originals es' = None" "es_nba es' = es_nba es"
    "same_shape (es_ctx es) (es_ctx es')" "holds_below rank (d_continuous d) (d_delta_limit d) es'" by simp_all
  have "\<forall>p \<in> set (d_continuous d). assign_holds (es_ctx es') p"
    using b(4) assms(1) by (auto simp: holds_below_def design_ok_def)
  then show ?thesis using b(1-3) assms(2) same_shape_trans by (auto simp: settled_def)
qed

lemma settle_dirty_keeps:
  assumes "design_ok dc rank d" "settled h dc d (sd_exec s)" "procs_ok dc d s" "settle_dirty d D s = Inr (s', D')"
  shows "settled False dc d (sd_exec s') \<and> procs_ok dc d s'"
proof -
  obtain es where es: "settle_assigns (d_delta_limit d) (d_continuous d) D (sd_exec s) = Inr (es, D')" "s' = s\<lparr>sd_exec := es\<rparr>"
    using assms(4) by (auto simp: settle_dirty_def rmap_eq_Inr_iff)
  have st: "same_shape dc (sd_ctx s)" "es_originals (sd_exec s) = None" using assms(2) by (simp_all add: settled_def)
  have "\<forall>p \<in> set (d_continuous d). plain_assign (sd_ctx s) p"
    using assms(1) plain_assign_shape [OF st(1)] by (auto simp: design_ok_def)
  from settle_nba [OF this st(2) es(1)] show ?thesis
    using assms(2,3) es(2) same_shape_trans [OF st(1)] procs_ok_cong [of s' s dc d] by (simp add: settled_def)
qed

lemma settled_weaken: "settled h dc d es \<Longrightarrow> settled False dc d es"
  by (simp add: settled_def)

lemma exec_procs_cong:
  "sd_exec s' = sd_exec s \<Longrightarrow> sd_queue s' = sd_queue s \<Longrightarrow> sd_waiting s' = sd_waiting s \<Longrightarrow>
     sd_generator s' = sd_generator s \<Longrightarrow>
     settled h dc d (sd_exec s') \<and> procs_ok dc d s' \<longleftrightarrow> settled h dc d (sd_exec s) \<and> procs_ok dc d s"
  by (simp add: procs_ok_def)

lemma schedule_start_ok:
  assumes "design_ok dc rank d" "procs_ok dc d s"
  shows "procs_ok dc d (schedule_start d s) \<and> sd_exec (schedule_start d s) = sd_exec s"
proof -
  have idle: "procs_ok dc d (fold (\<lambda>x. schedule_idle (i x) (p x)) xs s) \<and>
      sd_exec (fold (\<lambda>x. schedule_idle (i x) (p x)) xs s) = sd_exec s"
    if "procs_ok dc d s" "\<forall>x \<in> set xs. writes_ok dc d (p x)" for i :: "'a \<Rightarrow> nat" and p xs and s :: sched
    using that by (induction xs arbitrary: s) (auto simp: schedule_idle_def procs_ok_schedule)
  have init: "\<forall>q \<in> set (d_initial d). writes_ok dc d (InitialProcess q)"
    and tim: "\<forall>a \<in> set (d_timing d). writes_ok dc d (AlwaysProcess a)"
    using assms(1) by (auto simp: design_ok_def d_timing_def)
  show ?thesis
    unfolding schedule_start_def
    using idle [OF assms(2) init, of ip_id] idle [OF _ tim, of _ ap_id] by simp
qed


text \<open>Running triggered blocks, then the delta cycles, from sound lists.\<close>

lemma always_ok: "design_ok dc rank d \<Longrightarrow> set ps \<subseteq> AlwaysProcess ` set (d_always d) \<Longrightarrow> \<forall>p \<in> set ps. writes_ok dc d p"
  by (auto simp: design_ok_def)

lemma region_always:
  assumes "design_ok dc rank d" "settled h dc d (sd_exec s) \<and> procs_ok dc d s" "set ps \<subseteq> AlwaysProcess ` set (d_always d)"
    and "run_active_region d ps s = Inr (s', D)"
  shows "settled h dc d (sd_exec s') \<and> procs_ok dc d s'"
  using active_region_ok [OF assms(1) _ _ always_ok [OF assms(1,3)] assms(4)] assms(2) by blast

lemma triggered_keeps:
  assumes "settled h dc d (sd_exec s) \<and> procs_ok dc d s" "collect_triggered d D others s = Inr (ps, s')"
  shows "settled h dc d (sd_exec s') \<and> procs_ok dc d s'"
  using triggered_always(2-5) [OF assms(2)] assms(1) exec_procs_cong [of s' s h dc d] by blast

lemma bootstrap_combos_ok:
  assumes "design_ok dc rank d" "settled h dc d (sd_exec s) \<and> procs_ok dc d s" "bootstrap_combos d drives s = Inr s'"
  shows "settled h dc d (sd_exec s') \<and> procs_ok dc d s'"
proof -
  let ?start = "if start_procs d \<noteq> [] then run_active_region d (map AlwaysProcess (start_procs d)) s else Inr (s, {})"
  obtain s1 a1 where 1: "?start = Inr (s1, a1)" using assms(3) by (cases ?start) (auto simp: bootstrap_combos_def)
  have sub: "set (map AlwaysProcess (start_procs d)) \<subseteq> AlwaysProcess ` set (d_always d)"
    by (auto simp: start_procs_def d_combo_def)
  have s1: "settled h dc d (sd_exec s1) \<and> procs_ok dc d s1"
    using 1 assms(2) region_always [OF assms(1,2) sub] by (cases "start_procs d = []") auto
  let ?wake = "if drives = {} then Inr (s1, a1)
                else rbind (collect_triggered d drives drives (s1\<lparr>sd_prev := snapshot s1\<rparr>)) (\<lambda>(triggered, s).
                  (let woken = filter (starts_later d) triggered
                   in if woken = [] then Inr (s, a1)
                      else rmap (\<lambda>(s, more). (s, a1 \<union> more)) (run_active_region d woken s)))"
  have run: "rbind ?wake (\<lambda>(s, active). delta_cycles (d_delta_limit d) False d active s) = Inr s'"
    using assms(3) unfolding bootstrap_combos_def Let_def 1 rbind_simps prod.case .
  then obtain s2 a2 where 2: "?wake = Inr (s2, a2)" by (cases ?wake) auto
  have cycles: "delta_cycles (d_delta_limit d) False d a2 s2 = Inr s'" using run unfolding 2 rbind_simps prod.case .
  have s2: "settled h dc d (sd_exec s2) \<and> procs_ok dc d s2"
  proof (cases "drives = {}")
    case True
    then show ?thesis using 2 s1 by simp
  next
    case False
    let ?s = "s1\<lparr>sd_prev := snapshot s1\<rparr>"
    obtain ps s3 where 3: "collect_triggered d drives drives ?s = Inr (ps, s3)"
      using 2 False by (cases "collect_triggered d drives drives ?s") auto
    have "settled h dc d (sd_exec ?s) \<and> procs_ok dc d ?s" using s1 exec_procs_cong [of ?s s1 h dc d] by simp
    note s3 = triggered_keeps [OF this 3]
    have sub: "set (filter (starts_later d) ps) \<subseteq> AlwaysProcess ` set (d_always d)" using triggered_always(1) [OF 3] by auto
    have wake: "(if filter (starts_later d) ps = [] then Inr (s3, a1)
        else rmap (\<lambda>(s, more). (s, a1 \<union> more)) (run_active_region d (filter (starts_later d) ps) s3)) = Inr (s2, a2)"
      using 2 unfolding if_not_P [OF False] Let_def 3 rbind_simps prod.case .
    show ?thesis
    proof (cases "filter (starts_later d) ps = []")
      case True
      then show ?thesis using wake s3 by simp
    next
      case woken: False
      obtain s4 m where "run_active_region d (filter (starts_later d) ps) s3 = Inr (s4, m)" "s2 = s4"
        using wake [unfolded if_not_P [OF woken]] by (auto simp: rmap_eq_Inr_iff)
      then show ?thesis using region_always [OF assms(1) s3 sub] by simp
    qed
  qed
  show ?thesis using delta_cycles_ok [OF assms(1) _ _ cycles] s2 by blast
qed

lemma external_drives_ok:
  assumes "design_ok dc rank d" "settled False dc d (sd_exec s) \<and> procs_ok dc d s" "process_external_drives d s = Inr s'"
  shows "settled False dc d (sd_exec s') \<and> procs_ok dc d s'"
proof (cases "sd_last_run s")
  case None
  then show ?thesis using assms(2,3) by (simp add: process_external_drives_def)
next
  case (Some old)
  let ?mems = "Set.filter (\<lambda>name. memories (sd_ctx s) name \<noteq> None) (sd_pending s)"
  let ?dirty = "changed_since d old s \<union> ?mems"
  let ?s = "s\<lparr>sd_pending := sd_pending s - ?mems\<rparr>"
  have s: "settled False dc d (sd_exec ?s) \<and> procs_ok dc d ?s" using assms(2) exec_procs_cong [of ?s s False dc d] by simp
  let ?rest = "\<lambda>s1. (let all_dirty = ?mems \<union> changed_since d old s1
              in if all_dirty = {} then Inr s1
                 else rbind (collect_triggered d all_dirty all_dirty
                        (s1\<lparr>sd_prev := old, sd_edge_changed := {}, sd_triggered_seq := {}\<rparr>)) (\<lambda>(triggered, s).
                   rbind (if triggered \<noteq> [] then run_triggered d triggered s else Inr s) (\<lambda>s.
                     if sd_waiting s \<noteq> [] then check_event_waiting s else Inr s)))"
  have body: "(if ?dirty = {} then Inr ?s else rbind (settle_dirty d ?dirty ?s) (\<lambda>(s1, _). ?rest s1)) = Inr s'"
    using assms(3) Some unfolding process_external_drives_def Let_def by simp
  show ?thesis
  proof (cases "?dirty = {}")
    case True
    then show ?thesis using body s by simp
  next
    case False
    note body = body [unfolded if_not_P [OF False]]
    obtain s1 D1 where 1: "settle_dirty d ?dirty ?s = Inr (s1, D1)"
      using body by (cases "settle_dirty d ?dirty ?s") auto
    have s1: "settled False dc d (sd_exec s1) \<and> procs_ok dc d s1"
      using settle_dirty_keeps [OF assms(1) _ _ 1] s by blast
    have rest: "?rest s1 = Inr s'" using body [unfolded 1 rbind_simps prod.case] .
    let ?all = "?mems \<union> changed_since d old s1"
    show ?thesis
    proof (cases "?all = {}")
      case True
      then show ?thesis using rest s1 by simp
    next
      case more: False
      let ?s1 = "s1\<lparr>sd_prev := old, sd_edge_changed := {}, sd_triggered_seq := {}\<rparr>"
      note rest = rest [unfolded Let_def if_not_P [OF more]]
      obtain ps s2 where 2: "collect_triggered d ?all ?all ?s1 = Inr (ps, s2)"
        using rest by (cases "collect_triggered d ?all ?all ?s1") auto
      have "settled False dc d (sd_exec ?s1) \<and> procs_ok dc d ?s1" using s1 exec_procs_cong [of ?s1 s1 False dc d] by simp
      note s2 = triggered_keeps [OF this 2]
      note rest = rest [unfolded 2 rbind_simps prod.case]
      let ?run = "if ps \<noteq> [] then run_triggered d ps s2 else Inr s2"
      obtain s3 where 3: "?run = Inr s3" using rest by (cases ?run) auto
      have s3: "settled False dc d (sd_exec s3) \<and> procs_ok dc d s3"
      proof (cases "ps = []")
        case True
        then show ?thesis using 3 s2 by simp
      next
        case run: False
        obtain s4 a where "run_active_region d ps s2 = Inr (s4, a)" "delta_cycles (d_delta_limit d) False d a s4 = Inr s3"
          using 3 run by (auto simp: run_triggered_def rbind_eq_Inr_iff)
        then show ?thesis
          using region_always [OF assms(1) s2 triggered_always(1) [OF 2]] delta_cycles_ok [OF assms(1)] by blast
      qed
      have "(if sd_waiting s3 \<noteq> [] then check_event_waiting s3 else Inr s3) = Inr s'"
        using rest [unfolded 3 rbind_simps] .
      then show ?thesis using s3 check_waiting_ok by (cases "sd_waiting s3 = []") auto
    qed
  qed
qed

lemma bootstrap_run_ok:
  assumes "design_ok dc rank d" "settled False dc d (sd_exec s) \<and> procs_ok dc d s" "bootstrap_run d s = Inr s'"
  shows "settled True dc d (sd_exec s') \<and> procs_ok dc d s'"
proof -
  let ?first = "\<not> sd_bootstrapped s"
  let ?drives = "if ?first then sd_pending s else {}"
  let ?s = "if ?first then s\<lparr>sd_pending := {}\<rparr> else s"
  have s: "settled False dc d (sd_exec ?s) \<and> procs_ok dc d ?s"
    using assms(2) exec_procs_cong [of "s\<lparr>sd_pending := {}\<rparr>" s False dc d] by simp
  let ?settle = "if ?drives \<noteq> {} then settle_dirty d ?drives ?s else Inr (?s, {})"
  obtain s1 D where 1: "?settle = Inr (s1, D)"
    using assms(3) unfolding bootstrap_run_def Let_def by (cases ?settle) auto
  have s1: "settled False dc d (sd_exec s1) \<and> procs_ok dc d s1"
  proof (cases "?drives = {}")
    case True
    then have no: "\<not> (?drives \<noteq> {})" by blast
    have "s1 = ?s" using 1 unfolding if_not_P [OF no] by simp
    then show ?thesis using s by simp
  next
    case False
    have "settle_dirty d ?drives ?s = Inr (s1, D)" using 1 unfolding if_P [OF False] .
    then show ?thesis using settle_dirty_keeps [OF assms(1)] s by blast
  qed
  have rest: "rbind (bootstrap_assigns (d_delta_limit d) (d_continuous d) (sd_exec s1)) (\<lambda>es.
      if ?first then bootstrap_combos d D (s1\<lparr>sd_exec := es\<rparr>\<lparr>sd_bootstrapped := True\<rparr>) else Inr (s1\<lparr>sd_exec := es\<rparr>)) = Inr s'"
    using assms(3) unfolding bootstrap_run_def Let_def 1 rbind_simps prod.case .
  then obtain es where 2: "bootstrap_assigns (d_delta_limit d) (d_continuous d) (sd_exec s1) = Inr es"
    by (cases "bootstrap_assigns (d_delta_limit d) (d_continuous d) (sd_exec s1)") auto
  have es: "settled True dc d es" using bootstrap_settled [OF assms(1) _ 2] s1 by blast
  have ok: "procs_ok dc d (s1\<lparr>sd_exec := es\<rparr>)" "procs_ok dc d (s1\<lparr>sd_exec := es\<rparr>\<lparr>sd_bootstrapped := True\<rparr>)"
    using s1 by (simp_all add: procs_ok_def)
  note rest = rest [unfolded 2 rbind_simps]
  show ?thesis
  proof (cases ?first)
    case True
    let ?s1 = "s1\<lparr>sd_exec := es\<rparr>\<lparr>sd_bootstrapped := True\<rparr>"
    have "sd_exec ?s1 = es" by simp
    then have start: "settled True dc d (sd_exec ?s1) \<and> procs_ok dc d ?s1" using es ok(2) by metis
    show ?thesis by (rule bootstrap_combos_ok [OF assms(1) start rest [unfolded if_P [OF True]]])
  next
    case False
    have "s' = s1\<lparr>sd_exec := es\<rparr>" using rest [unfolded if_not_P [OF False]] by simp
    then show ?thesis using es ok(1) by simp
  qed
qed

lemma flush_ok:
  "settled h dc d (sd_exec s) \<and> procs_ok dc d s \<Longrightarrow>
     settled h dc d (sd_exec (flush_output s)) \<and> procs_ok dc d (flush_output s)"
  by (auto simp: flush_output_def collect_display_def Let_def settled_def procs_ok_def)

lemma run_ok:
  assumes "design_ok dc rank d" "settled False dc d (sd_exec s)" "procs_ok dc d s"
    and "run_sched fuel d max_time s = Some (Inr s')"
  shows "settled True dc d (sd_exec s') \<and> procs_ok dc d s'"
proof -
  let ?boot = "rbind (process_external_drives d (schedule_start d s)) (bootstrap_run d)"
  have s: "settled False dc d (sd_exec (schedule_start d s)) \<and> procs_ok dc d (schedule_start d s)"
    using schedule_start_ok [OF assms(1,3)] assms(2) by simp
  obtain s1 where 1: "?boot = Inr s1" using assms(4) by (cases ?boot) (auto simp: run_sched_def)
  then obtain s0 where 0: "process_external_drives d (schedule_start d s) = Inr s0" "bootstrap_run d s0 = Inr s1"
    by (auto simp: rbind_eq_Inr_iff)
  have s1: "settled True dc d (sd_exec s1) \<and> procs_ok dc d s1"
    using bootstrap_run_ok [OF assms(1) external_drives_ok [OF assms(1) s 0(1)] 0(2)] .
  obtain s2 where 2: "run_time_step fuel d max_time s1 = Some (Inr s2)"
    "s' = (flush_output s2)\<lparr>sd_last_run := Some (snapshot s2)\<rparr>"
    using assms(4) 1 by (auto simp: run_sched_def rmap_eq_Inr_iff)
  have "settled True dc d (sd_exec s2) \<and> procs_ok dc d s2" using loop_ok [OF assms(1) _ _ 2(1)] s1 by blast
  from flush_ok [OF this] show ?thesis using 2(2) by (simp add: procs_ok_def)
qed



section \<open>A concrete run\<close>

text \<open>A register clocked by a signal that rises at 5, and two assignments, declared against their dependency,
  neither of which holds at the start.\<close>

definition run_ctx :: eval_ctx where
  "run_ctx = \<lparr>signals = (\<lambda>s. if s = ''clk'' then Some (known 0 1) else if s = ''q'' then Some (known 6 4)
       else if s = ''y'' then Some (v_x 4) else if s = ''z'' then Some (v_x 4) else None),
     signal_signed = (\<lambda>s. False), signal_bases = (\<lambda>s. 0), memories = (\<lambda>s. None), memory_bases = (\<lambda>s. 0), ctx_time = 0\<rparr>"

definition run_design :: design where
  "run_design = make_design 4 run_ctx [''clk'', ''q'', ''y'', ''z'']
     [(step_name ''z'', BinaryOp BXor (step_name ''y'') (step_name ''q'')),
      (step_name ''y'', BinaryOp Add (step_name ''q'') (Literal (int_literal 1)))]
     [\<lparr>ab_body = NonblockingAssign (step_name ''q'') (step_name ''y''),
       ab_list = [SensitivityEdge Posedge (step_name ''clk'')], ab_type = SEQUENTIAL, ab_keyword = ''always_ff''\<rparr>]
     []"

definition run_start :: sched where
  "run_start = (initial_sched \<lparr>es_ctx = run_ctx, es_originals = None, es_nba = [], es_output = [], es_write_buffer = [],
       es_time = 0, es_limit = 10, es_files = (\<lambda>name. None)\<rparr>)
     \<lparr>sd_queue := schedule 5 (ClockToggle ''clk'' (known 1 1)) empty_queue\<rparr>"

definition run_rank :: "string \<Rightarrow> nat" where
  "run_rank n = (if n = ''z'' then 1 else 0)"

lemma run_start_ok: "design_ok run_ctx run_rank run_design" "procs_ok run_ctx run_design run_start"
proof -
  show "design_ok run_ctx run_rank run_design" by code_simp
  have q: "queue_ok (sd_queue run_start)" by (simp add: run_start_def schedule_ok)
  have ev: "queue_events (sd_queue run_start) = [(5, ClockToggle ''clk'' (known 1 1))]"
    by (simp add: run_start_def schedule_ok)
  have "writes_ok run_ctx run_design (ClockToggle ''clk'' (known 1 1))" by code_simp
  moreover have "sd_waiting run_start = []" "sd_generator run_start = (\<lambda>i. None)" by (simp_all add: run_start_def initial_sched_def)
  ultimately show "procs_ok run_ctx run_design run_start" using q ev by (simp add: procs_ok_def)
qed


end
