(* ===== verification/Propagation.thy ===== *)
theory Propagation
  imports Interpreter
begin

text \<open>
  Compiled processes (\<open>class CompiledProcess\<close> in \<open>sim/vm/compiler.py\<close>) and the plan for their continuous
  assignments, \<open>plan_continuous_order\<close> in \<open>sim/vm/propagation.py\<close>.

  Signal numbers are the non-negative indices that the compiler emits. The lists \<open>dependents\<close> and the
  counts \<open>pending\<close>, which the code fills in one loop over the readers, are given here for each index.
\<close>

section \<open>Compiled processes\<close>

datatype vm_process_type = CONTINUOUS | COMBINATIONAL | SEQUENTIAL | INITIAL

text \<open>\<open>edge_signals\<close> maps a signal to the name of its edge; \<open>vp_keyword\<close> is that of the source block.\<close>

record vm_process =
  vp_type :: vm_process_type
  vp_program :: program
  vp_sensitivity :: "nat set"
  vp_edges :: "(nat \<times> string) list"
  vp_has_timing :: bool
  vp_self_sens :: "nat set"
  vp_keyword :: string

section \<open>Pure programs\<close>

definition pure_ops :: "opcode set" where
  "pure_ops = {LOAD_SIG, LOAD_CONST, RESIZE, SIGN_EXT, ADD, SUB, MUL, DIV, MOD, POW, SDIV, SMOD, SPOW,
     BIT_AND, BIT_OR, BIT_XOR, BIT_XNOR, BIT_NOT, SHL, SHR, ASHL, ASHR, CMP_EQ, CMP_NE, CMP_LT, CMP_LE,
     CMP_GT, CMP_GE, CMP_CASE_EQ, CMP_CASE_NE, CMP_SLT, CMP_SLE, CMP_SGT, CMP_SGE, LOG_AND, LOG_OR, LOG_NOT,
     NEG, UPLUS, RED_AND, RED_OR, RED_XOR, RED_NAND, RED_NOR, RED_XNOR, BIT_SELECT, RANGE_SELECT,
     PART_SEL_UP, PART_SEL_DOWN, CONCAT, REPLICATE, TERNARY, STREAM_REVERSE, FUNC_CLOG2}"

definition signal_writes :: "opcode set" where
  "signal_writes = {STORE_SIG, STORE_BIT, STORE_RANGE, NBA_SIG, NBA_BIT, NBA_RANGE}"

abbreviation expression_part :: "program \<Rightarrow> program" where
  "expression_part prog \<equiv> butlast (butlast prog)"

definition loads :: "program \<Rightarrow> nat set" where
  "loads prog = set (map (\<lambda>(op, sid, _). nat sid) (filter (\<lambda>(op, sid, _). op = LOAD_SIG) prog))"

text \<open>The destination of an assignment that may be planned.\<close>

definition planned_target :: "vm_process \<Rightarrow> nat option" where
  "planned_target p =
     (let prog = vp_program p
      in if length prog < 3 \<or> fst (last prog) \<noteq> PROC_END \<or> fst (last (butlast prog)) \<noteq> STORE_SIG then None
         else if \<exists>(op, _, _) \<in> set (expression_part prog). op \<notin> pure_ops then None
         else if loads (expression_part prog) \<noteq> vp_sensitivity p then None
         else Some (nat (fst (snd (last (butlast prog))))))"

text \<open>The table \<open>writers\<close>, or \<open>None\<close> when an assignment cannot be planned or a signal has two writers.\<close>

fun find_writers :: "vm_process list \<Rightarrow> nat \<Rightarrow> (nat \<Rightarrow> nat option) \<Rightarrow> (nat \<Rightarrow> nat option) option" where
  "find_writers [] i w = Some w"
| "find_writers (p # ps) i w = (case planned_target p of
     None \<Rightarrow> None
   | Some dest \<Rightarrow> if w dest \<noteq> None then None else find_writers ps (Suc i) (w(dest \<mapsto> i)))"

definition touches_planned :: "(nat \<Rightarrow> nat option) \<Rightarrow> vm_process \<Rightarrow> bool" where
  "touches_planned w p \<longleftrightarrow>
     (\<exists>sid \<in> vp_sensitivity p \<union> fst ` set (vp_edges p). w sid \<noteq> None) \<or>
     (\<exists>(op, sid, _) \<in> set (vp_program p). op \<in> signal_writes \<and> w (nat sid) \<noteq> None)"

section \<open>The order\<close>

text \<open>The sources of an assignment among the assignments, one entry for each signal it reads.\<close>

definition sources :: "vm_process list \<Rightarrow> (nat \<Rightarrow> nat option) \<Rightarrow> nat \<Rightarrow> nat list" where
  "sources ps w j = List.map_filter w (sorted_list_of_set (vp_sensitivity (ps ! j)))"

definition dependents :: "vm_process list \<Rightarrow> (nat \<Rightarrow> nat option) \<Rightarrow> nat \<Rightarrow> nat list" where
  "dependents ps w i = concat (map (\<lambda>j. map (\<lambda>_. j) (filter (\<lambda>k. k = i) (sources ps w j))) [0..<length ps])"

record plan =
  pl_ready :: "nat list"
  pl_order :: "nat list"
  pl_pending :: "int list"
  pl_depth :: "nat list"

definition visit_child :: "nat \<Rightarrow> nat \<Rightarrow> plan \<Rightarrow> plan" where
  "visit_child i child pl =
     (let depth = (pl_depth pl)[child := max (pl_depth pl ! child) (pl_depth pl ! i + 1)];
          pending = (pl_pending pl)[child := pl_pending pl ! child - 1]
      in pl\<lparr>pl_depth := depth, pl_pending := pending,
            pl_ready := (if pending ! child = 0 then pl_ready pl @ [child] else pl_ready pl)\<rparr>)"

text \<open>The loop over \<open>ready\<close>; each turn handles one assignment, and \<open>n\<close> turns may still run.\<close>

fun plan_loop :: "nat \<Rightarrow> (nat \<Rightarrow> nat list) \<Rightarrow> plan \<Rightarrow> plan option" where
  "plan_loop n deps pl = (case pl_ready pl of
     [] \<Rightarrow> Some pl
   | i # ready \<Rightarrow> (case n of
       0 \<Rightarrow> None
     | Suc n \<Rightarrow> plan_loop n deps
         (fold (visit_child i) (deps i) (pl\<lparr>pl_ready := ready, pl_order := pl_order pl @ [i]\<rparr>))))"

declare plan_loop.simps [simp del]

definition plan_start :: "vm_process list \<Rightarrow> (nat \<Rightarrow> nat option) \<Rightarrow> plan" where
  "plan_start ps w =
     (let pending = map (\<lambda>j. int (length (sources ps w j))) [0..<length ps]
      in \<lparr>pl_ready = filter (\<lambda>j. pending ! j = 0) [0..<length ps], pl_order = [], pl_pending = pending,
          pl_depth = replicate (length ps) 1\<rparr>)"

definition continuous_part :: "vm_process list \<Rightarrow> vm_process list" where
  "continuous_part procs = filter (\<lambda>p. vp_type p = CONTINUOUS) procs"

definition plan_continuous_order :: "vm_process list \<Rightarrow> (nat list \<times> nat) option" where
  "plan_continuous_order procs =
     (let ps = continuous_part procs
      in if length ps < 2 \<or> (\<exists>p \<in> set procs. vp_has_timing p) then None
         else (case find_writers ps 0 (\<lambda>sid. None) of
             None \<Rightarrow> None
           | Some w \<Rightarrow>
               (if \<exists>p \<in> set procs. vp_type p \<noteq> CONTINUOUS \<and> touches_planned w p then None
                else (case plan_loop (length ps) (dependents ps w) (plan_start ps w) of
                    None \<Rightarrow> None
                  | Some pl \<Rightarrow>
                      (let max_depth = Max (set (pl_depth pl))
                       in if length (pl_order pl) \<noteq> length ps \<or> max_depth = 1 then None
                          else if \<not> (\<exists>p \<in> set ps. 1 < card (vp_sensitivity p) \<and> (\<exists>sid \<in> vp_sensitivity p. w sid \<noteq> None))
                          then None
                          else Some (pl_order pl, max_depth))))))"

end
