(* ===== verification/Propagation_Properties.thy ===== *)
theory Propagation_Properties
  imports Propagation
begin


section \<open>The loop\<close>

text \<open>
  The loop over a graph on the numbers below \<open>n\<close>, given by the list of sources of each. The invariant:
  what is in the order or ready is exactly what has all its sources in the order.
\<close>

definition children :: "nat \<Rightarrow> (nat \<Rightarrow> nat list) \<Rightarrow> nat \<Rightarrow> nat list" where
  "children n srcs i = filter (\<lambda>j. i \<in> set (srcs j)) [0..<n]"

definition graph_ok :: "nat \<Rightarrow> (nat \<Rightarrow> nat list) \<Rightarrow> bool" where
  "graph_ok n srcs \<longleftrightarrow> (\<forall>j<n. distinct (srcs j) \<and> set (srcs j) \<subseteq> {..<n})"

definition source_depth :: "(nat \<Rightarrow> nat list) \<Rightarrow> nat set \<Rightarrow> nat list \<Rightarrow> nat \<Rightarrow> nat" where
  "source_depth srcs A depth j = Max (insert 0 ((!) depth ` (set (srcs j) \<inter> A)))"

definition plan_inv :: "nat \<Rightarrow> (nat \<Rightarrow> nat list) \<Rightarrow> plan \<Rightarrow> bool" where
  "plan_inv n srcs pl \<longleftrightarrow>
     length (pl_pending pl) = n \<and> length (pl_depth pl) = n \<and>
     distinct (pl_order pl @ pl_ready pl) \<and> set (pl_order pl @ pl_ready pl) \<subseteq> {..<n} \<and>
     (\<forall>j<n. pl_pending pl ! j = int (card (set (srcs j) - set (pl_order pl)))) \<and>
     (\<forall>j<n. j \<in> set (pl_order pl @ pl_ready pl) \<longleftrightarrow> set (srcs j) \<subseteq> set (pl_order pl)) \<and>
     (\<forall>k<length (pl_order pl). set (srcs (pl_order pl ! k)) \<subseteq> set (take k (pl_order pl))) \<and>
     (\<forall>j<n. pl_depth pl ! j = Suc (source_depth srcs (set (pl_order pl)) (pl_depth pl) j))"

lemma visit_children:
  assumes "distinct cs" "set cs \<subseteq> {..<n}" "i \<notin> set cs" "length (pl_pending pl) = n" "length (pl_depth pl) = n"
  shows "pl_order (fold (visit_child i) cs pl) = pl_order pl \<and>
    pl_ready (fold (visit_child i) cs pl) = pl_ready pl @ filter (\<lambda>c. pl_pending pl ! c = 1) cs \<and>
    length (pl_pending (fold (visit_child i) cs pl)) = n \<and> length (pl_depth (fold (visit_child i) cs pl)) = n \<and>
    (\<forall>j<n. pl_pending (fold (visit_child i) cs pl) ! j = pl_pending pl ! j - (if j \<in> set cs then 1 else 0)) \<and>
    (\<forall>j<n. pl_depth (fold (visit_child i) cs pl) ! j =
       (if j \<in> set cs then max (pl_depth pl ! j) (Suc (pl_depth pl ! i)) else pl_depth pl ! j))"
  using assms
proof (induction cs arbitrary: pl)
  case Nil
  then show ?case by simp
next
  case (Cons c cs)
  let ?p = "visit_child i c pl"
  have c: "c < n" "c \<notin> set cs" "i \<noteq> c" using Cons.prems by auto
  have len: "length (pl_pending ?p) = n" "length (pl_depth ?p) = n"
    using Cons.prems(4,5) by (simp_all add: visit_child_def Let_def)
  have pend: "pl_pending ?p ! j = pl_pending pl ! j - (if j = c then 1 else 0)" if "j < n" for j
    using that c Cons.prems(4) by (simp add: visit_child_def Let_def nth_list_update)
  have depth: "pl_depth ?p ! j = (if j = c then max (pl_depth pl ! j) (Suc (pl_depth pl ! i)) else pl_depth pl ! j)" if "j < n" for j
    using that c Cons.prems(5) by (simp add: visit_child_def Let_def nth_list_update)
  have ready: "pl_ready ?p = pl_ready pl @ (if pl_pending pl ! c = 1 then [c] else [])" "pl_order ?p = pl_order pl"
    using c Cons.prems(4) by (simp_all add: visit_child_def Let_def)
  have "i < n \<Longrightarrow> pl_depth ?p ! i = pl_depth pl ! i" using depth c by simp
  moreover have "\<not> i < n \<Longrightarrow> pl_depth ?p ! i = pl_depth pl ! i"
    using c Cons.prems(5) by (simp add: visit_child_def Let_def)
  ultimately have di: "pl_depth ?p ! i = pl_depth pl ! i" by blast
  have "pl_pending ?p ! d = pl_pending pl ! d" if "d \<in> set cs" for d
    using pend [of d] that c Cons.prems(2) by auto
  then have "filter (\<lambda>d. pl_pending ?p ! d = 1) cs = filter (\<lambda>d. pl_pending pl ! d = 1) cs"
    by (intro filter_cong) simp_all
  then show ?case
    using Cons.IH [of ?p] Cons.prems c len pend depth ready di by (auto simp: nth_list_update)
qed

lemma source_depth_insert:
  assumes "finite A" "i \<notin> A"
  shows "source_depth srcs (insert i A) depth j =
    (if i \<in> set (srcs j) then max (source_depth srcs A depth j) (depth ! i) else source_depth srcs A depth j)"
proof -
  have fin: "finite ((!) depth ` (set (srcs j) \<inter> A))" by simp
  show ?thesis
  proof (cases "i \<in> set (srcs j)")
    case True
    then have "insert 0 ((!) depth ` (set (srcs j) \<inter> insert i A)) = insert (depth ! i) (insert 0 ((!) depth ` (set (srcs j) \<inter> A)))"
      by auto
    then show ?thesis using True fin by (simp add: source_depth_def max.commute)
  qed (simp add: source_depth_def)
qed

lemma source_depth_cong:
  assumes "\<And>k. k \<in> A \<Longrightarrow> depth' ! k = depth ! k"
  shows "source_depth srcs A depth' j = source_depth srcs A depth j"
proof -
  have "(!) depth' ` (set (srcs j) \<inter> A) = (!) depth ` (set (srcs j) \<inter> A)" using assms by (intro image_cong) auto
  then show ?thesis by (simp add: source_depth_def)
qed

lemma plan_step:
  assumes "graph_ok n srcs" "plan_inv n srcs pl" "pl_ready pl = i # ready"
  shows "plan_inv n srcs (fold (visit_child i) (children n srcs i) (pl\<lparr>pl_ready := ready, pl_order := pl_order pl @ [i]\<rparr>))"
proof -
  let ?q = "pl\<lparr>pl_ready := ready, pl_order := pl_order pl @ [i]\<rparr>"
  let ?cs = "children n srcs i"
  let ?r = "fold (visit_child i) ?cs ?q"
  let ?A = "set (pl_order pl)"
  have inv: "length (pl_pending pl) = n" "length (pl_depth pl) = n" "distinct (pl_order pl @ i # ready)"
    "set (pl_order pl @ i # ready) \<subseteq> {..<n}"
    and pend: "\<And>j. j < n \<Longrightarrow> pl_pending pl ! j = int (card (set (srcs j) - ?A))"
    and mem: "\<And>j. j < n \<Longrightarrow> j \<in> set (pl_order pl @ i # ready) \<longleftrightarrow> set (srcs j) \<subseteq> ?A"
    and topo: "\<forall>k<length (pl_order pl). set (srcs (pl_order pl ! k)) \<subseteq> set (take k (pl_order pl))"
    and depth: "\<And>j. j < n \<Longrightarrow> pl_depth pl ! j = Suc (source_depth srcs ?A (pl_depth pl) j)"
    using assms(2,3) by (simp_all add: plan_inv_def)
  have i: "i < n" "i \<notin> ?A" "set (srcs i) \<subseteq> ?A" using inv mem [of i] by auto
  have cs: "distinct ?cs" "set ?cs \<subseteq> {..<n}" "i \<notin> set ?cs" using i by (auto simp: children_def)
  have child: "c \<in> set ?cs \<longleftrightarrow> i \<in> set (srcs c)" if "c < n" for c using that by (simp add: children_def)
  have fresh: "c \<notin> ?A" "c \<noteq> i" "c \<notin> set ready" if "c \<in> set ?cs" for c
    using mem [of c] that i cs(2,3) by (auto simp: children_def)
  note v = visit_children [OF cs, of ?q]
  have r: "pl_order ?r = pl_order pl @ [i]" "pl_ready ?r = ready @ filter (\<lambda>c. pl_pending pl ! c = 1) ?cs"
    "length (pl_pending ?r) = n" "length (pl_depth ?r) = n"
    "\<And>j. j < n \<Longrightarrow> pl_pending ?r ! j = pl_pending pl ! j - (if j \<in> set ?cs then 1 else 0)"
    "\<And>j. j < n \<Longrightarrow> pl_depth ?r ! j =
       (if j \<in> set ?cs then max (pl_depth pl ! j) (Suc (pl_depth pl ! i)) else pl_depth pl ! j)"
    using v inv(1,2) by simp_all
  have card_step: "card (set (srcs j) - ?A) = card (set (srcs j) - insert i ?A) + (if j \<in> set ?cs then 1 else 0)" if "j < n" for j
  proof (cases "i \<in> set (srcs j)")
    case True
    then have split: "set (srcs j) - ?A = insert i (set (srcs j) - insert i ?A)" using i(2) by blast
    have "card (insert i (set (srcs j) - insert i ?A)) = card (set (srcs j) - insert i ?A) + 1" by simp
    then show ?thesis unfolding split using True child that by simp
  next
    case False
    then have "set (srcs j) - insert i ?A = set (srcs j) - ?A" by blast
    then show ?thesis using False child that by simp
  qed
  have pend': "pl_pending ?r ! j = int (card (set (srcs j) - insert i ?A))" if "j < n" for j
    using r(5) pend card_step that by simp
  have one: "pl_pending pl ! c = 1 \<longleftrightarrow> set (srcs c) \<subseteq> insert i ?A" if "c \<in> set ?cs" for c
  proof -
    have c: "c < n" using that cs(2) by auto
    have "pl_pending pl ! c = 1 \<longleftrightarrow> card (set (srcs c) - insert i ?A) = 0" using pend [OF c] card_step [OF c] that by simp
    then show ?thesis by auto
  qed
  have mem': "j \<in> set (pl_order ?r @ pl_ready ?r) \<longleftrightarrow> set (srcs j) \<subseteq> insert i ?A" if "j < n" for j
  proof (cases "j \<in> set ?cs")
    case True
    then show ?thesis using one fresh r(1,2) by auto
  next
    case False
    then have "i \<notin> set (srcs j)" using child that by simp
    then have "set (srcs j) \<subseteq> insert i ?A \<longleftrightarrow> set (srcs j) \<subseteq> ?A" by blast
    then show ?thesis using mem [OF that] False r(1,2) by auto
  qed
  have topo': "set (srcs (pl_order ?r ! k)) \<subseteq> set (take k (pl_order ?r))" if "k < length (pl_order ?r)" for k
  proof (cases "k < length (pl_order pl)")
    case True
    then show ?thesis using topo r(1) by (simp add: nth_append)
  next
    case False
    then show ?thesis using that r(1) i(3) by (simp add: nth_append)
  qed
  have keep: "pl_depth ?r ! k = pl_depth pl ! k" if "k \<in> insert i ?A" for k
  proof -
    have "k < n" "k \<notin> set ?cs" using that fresh(1,2) [of k] i(1) inv(4) by auto
    then show ?thesis using r(6) by simp
  qed
  have depth': "pl_depth ?r ! j = Suc (source_depth srcs (insert i ?A) (pl_depth ?r) j)" if "j < n" for j
  proof -
    have "source_depth srcs (insert i ?A) (pl_depth ?r) j = source_depth srcs (insert i ?A) (pl_depth pl) j"
      by (rule source_depth_cong [OF keep])
    also have "\<dots> = (if i \<in> set (srcs j) then max (source_depth srcs ?A (pl_depth pl) j) (pl_depth pl ! i)
        else source_depth srcs ?A (pl_depth pl) j)" by (rule source_depth_insert) (use i(2) in simp_all)
    finally show ?thesis using r(6) [OF that] depth [OF that] child [OF that] by simp
  qed
  have dist: "distinct (pl_order ?r @ pl_ready ?r)" using r(1,2) inv(3) cs(1) fresh i(2) by auto
  have bound: "set (pl_order ?r @ pl_ready ?r) \<subseteq> {..<n}" using r(1,2) inv(4) cs(2) by auto
  show ?thesis
    using r(1,3,4) dist bound pend' mem' topo' depth' by (simp add: plan_inv_def)
qed

lemma plan_loop_ok:
  assumes "graph_ok n srcs" "plan_inv n srcs pl" "n \<le> m + length (pl_order pl)"
  shows "\<exists>pl'. plan_loop m (children n srcs) pl = Some pl' \<and> plan_inv n srcs pl' \<and> pl_ready pl' = []"
  using assms(2,3)
proof (induction m arbitrary: pl)
  case 0
  have "distinct (pl_order pl @ pl_ready pl)" "set (pl_order pl @ pl_ready pl) \<subseteq> {..<n}"
    using 0(1) by (simp_all add: plan_inv_def)
  then have "length (pl_order pl @ pl_ready pl) \<le> n"
    using card_mono [of "{..<n}"] by (metis card_lessThan distinct_card finite_lessThan)
  then have "pl_ready pl = []" using 0(2) by (cases "pl_ready pl") simp_all
  then show ?case using 0(1) by (simp add: plan_loop.simps)
next
  case (Suc m)
  show ?case
  proof (cases "pl_ready pl")
    case Nil
    then show ?thesis using Suc.prems(1) by (simp add: plan_loop.simps)
  next
    case (Cons i ready)
    let ?q = "fold (visit_child i) (children n srcs i) (pl\<lparr>pl_ready := ready, pl_order := pl_order pl @ [i]\<rparr>)"
    note step = plan_step [OF assms(1) Suc.prems(1) Cons]
    have "pl_order (fold (visit_child i) cs q) = pl_order q" for cs q
      by (induction cs arbitrary: q) (simp_all add: visit_child_def Let_def)
    then have "n \<le> m + length (pl_order ?q)" using Suc.prems(2) by simp
    from Suc.IH [OF step this] show ?thesis using Cons by (simp add: plan_loop.simps [of "Suc m"])
  qed
qed


section \<open>Chains\<close>

text \<open>Dependency chains, the last reader first.\<close>

fun source_chain :: "(nat \<Rightarrow> nat list) \<Rightarrow> nat list \<Rightarrow> bool" where
  "source_chain srcs [] = False"
| "source_chain srcs [j] = True"
| "source_chain srcs (j # i # p) = (i \<in> set (srcs j) \<and> source_chain srcs (i # p))"

lemma chain_Cons: "source_chain srcs (j # p) \<longleftrightarrow> p = [] \<or> hd p \<in> set (srcs j) \<and> source_chain srcs p"
  by (cases p) auto

lemma depth_chain:
  assumes "graph_ok n srcs" "plan_inv n srcs pl" "k < length (pl_order pl)"
  shows "(\<exists>p. source_chain srcs p \<and> hd p = pl_order pl ! k \<and> set p \<subseteq> {..<n} \<and> length p = pl_depth pl ! (pl_order pl ! k)) \<and>
    (\<forall>p. source_chain srcs p \<and> hd p = pl_order pl ! k \<longrightarrow> length p \<le> pl_depth pl ! (pl_order pl ! k))"
  using assms(3)
proof (induction k rule: less_induct)
  case (less k)
  let ?j = "pl_order pl ! k" and ?A = "set (pl_order pl)" and ?d = "pl_depth pl"
  have jA: "?j \<in> ?A" using less.prems by simp
  then have j: "?j < n" using assms(2) by (auto simp: plan_inv_def)
  have depth: "?d ! ?j = Suc (source_depth srcs ?A ?d ?j)" using assms(2) j by (simp add: plan_inv_def)
  have before: "set (srcs ?j) \<subseteq> set (take k (pl_order pl))" using assms(2) less.prems by (simp add: plan_inv_def)
  have in_A: "set (srcs ?j) \<inter> ?A = set (srcs ?j)" using before set_take_subset [of k "pl_order pl"] by blast
  have earlier: "\<exists>m < k. m < length (pl_order pl) \<and> pl_order pl ! m = i" if "i \<in> set (srcs ?j)" for i
  proof -
    have "i \<in> set (take k (pl_order pl))" using before that by blast
    then show ?thesis using less.prems by (auto simp: in_set_conv_nth)
  qed
  have upper: "length p \<le> ?d ! ?j" if p: "source_chain srcs p" "hd p = ?j" for p
  proof -
    obtain q where q: "p = ?j # q" using p by (cases p) auto
    show ?thesis
    proof (cases "q = []")
      case True
      then show ?thesis using q depth by simp
    next
      case False
      then have i: "hd q \<in> set (srcs ?j)" "source_chain srcs q" using p q by (simp_all add: chain_Cons)
      obtain m where m: "m < k" "m < length (pl_order pl)" "pl_order pl ! m = hd q" using earlier [OF i(1)] by blast
      have "length q \<le> ?d ! hd q" using less.IH [OF m(1,2)] m(3) i(2) by simp
      also have "\<dots> \<le> source_depth srcs ?A ?d ?j"
        unfolding source_depth_def in_A using i(1) by (intro Max_ge) auto
      finally show ?thesis using q depth by simp
    qed
  qed
  have "\<exists>p. source_chain srcs p \<and> hd p = ?j \<and> set p \<subseteq> {..<n} \<and> length p = ?d ! ?j"
  proof (cases "srcs ?j = []")
    case True
    then have "?d ! ?j = 1" using depth by (simp add: source_depth_def)
    then show ?thesis using j by (intro exI [of _ "[?j]"]) simp
  next
    case False
    have "source_depth srcs ?A ?d ?j \<in> insert 0 ((!) ?d ` set (srcs ?j))"
      unfolding source_depth_def in_A by (rule Max_in) simp_all
    moreover have "0 < source_depth srcs ?A ?d ?j"
    proof -
      obtain i where i: "i \<in> set (srcs ?j)" using False by (cases "srcs ?j") auto
      then have "i < n" using assms(1) j by (auto simp: graph_ok_def)
      then have "0 < ?d ! i" using assms(2) by (simp add: plan_inv_def)
      also have "?d ! i \<le> source_depth srcs ?A ?d ?j"
        unfolding source_depth_def in_A using i by (intro Max_ge) auto
      finally show ?thesis .
    qed
    ultimately obtain i where i: "i \<in> set (srcs ?j)" "source_depth srcs ?A ?d ?j = ?d ! i" by auto
    obtain m where m: "m < k" "m < length (pl_order pl)" "pl_order pl ! m = i" using earlier [OF i(1)] by blast
    obtain p where p: "source_chain srcs p" "hd p = i" "set p \<subseteq> {..<n}" "length p = ?d ! i"
      using less.IH [OF m(1,2)] m(3) by blast
    have "source_chain srcs (?j # p)" using p i(1) by (simp add: chain_Cons)
    then show ?thesis using p j i(2) depth by (intro exI [of _ "?j # p"]) simp
  qed
  then show ?case using upper by blast
qed

section \<open>The table of writers\<close>

definition dest :: "vm_process list \<Rightarrow> nat \<Rightarrow> nat" where
  "dest ps i = the (planned_target (ps ! i))"

lemma find_writers_ok:
  "find_writers qs k w = Some w' \<Longrightarrow> (\<forall>sid i. w sid = Some i \<longrightarrow> i < k) \<Longrightarrow> (\<forall>sid sid' i. w sid = Some i \<and> w sid' = Some i \<longrightarrow> sid = sid') \<Longrightarrow>
     (\<forall>i < length qs. planned_target (qs ! i) \<noteq> None) \<and>
     (\<forall>sid i. w' sid = Some i \<longleftrightarrow> w sid = Some i \<or> k \<le> i \<and> i < k + length qs \<and> planned_target (qs ! (i - k)) = Some sid) \<and>
     (\<forall>sid sid' i. w' sid = Some i \<and> w' sid' = Some i \<longrightarrow> sid = sid')"
proof (induction qs arbitrary: k w)
  case Nil
  then show ?case by auto
next
  case (Cons q qs)
  obtain d where d: "planned_target q = Some d" "w d = None" "find_writers qs (Suc k) (w(d \<mapsto> k)) = Some w'"
    using Cons.prems(1) by (auto split: option.splits if_splits)
  have upd: "(w(d \<mapsto> k)) sid = Some i \<longleftrightarrow> w sid = Some i \<or> i = k \<and> sid = d" for sid i
    using d(2) by auto
  have 1: "\<forall>sid i. (w(d \<mapsto> k)) sid = Some i \<longrightarrow> i < Suc k"
    unfolding upd using Cons.prems(2) less_SucI by blast
  have 2: "\<forall>sid sid' i. (w(d \<mapsto> k)) sid = Some i \<and> (w(d \<mapsto> k)) sid' = Some i \<longrightarrow> sid = sid'"
    unfolding upd using Cons.prems(2,3) less_irrefl by blast
  note ih = Cons.IH [OF d(3) 1 2]
  have one: "\<forall>i < length (q # qs). planned_target ((q # qs) ! i) \<noteq> None"
    using conjunct1 [OF ih] d(1) by (simp add: nth_Cons split: nat.split)
  have two: "w' sid = Some i \<longleftrightarrow>
      w sid = Some i \<or> k \<le> i \<and> i < k + length (q # qs) \<and> planned_target ((q # qs) ! (i - k)) = Some sid" for sid i
  proof -
    have "w' sid = Some i \<longleftrightarrow> (w(d \<mapsto> k)) sid = Some i \<or>
        Suc k \<le> i \<and> i < Suc k + length qs \<and> planned_target (qs ! (i - Suc k)) = Some sid" using ih by blast
    moreover have "k \<le> i \<and> i < k + length (q # qs) \<and> planned_target ((q # qs) ! (i - k)) = Some sid \<longleftrightarrow>
        i = k \<and> sid = d \<or> Suc k \<le> i \<and> i < Suc k + length qs \<and> planned_target (qs ! (i - Suc k)) = Some sid"
    proof (cases "i = k")
      case True
      then show ?thesis using d(1) by auto
    next
      case False
      have "i - k = Suc (i - Suc k)" if "Suc k \<le> i" using that by simp
      then show ?thesis using False by auto
    qed
    ultimately show ?thesis unfolding upd by blast
  qed
  show ?case using one two ih by blast
qed


definition feeds :: "vm_process list \<Rightarrow> nat \<Rightarrow> nat \<Rightarrow> bool" where
  "feeds ps i j \<longleftrightarrow> dest ps i \<in> vp_sensitivity (ps ! j)"

lemma finite_sensitivity: "planned_target p = Some d \<Longrightarrow> finite (vp_sensitivity p)"
proof -
  assume p: "planned_target p = Some d"
  have "vp_sensitivity p = loads (expression_part (vp_program p))"
    using p by (simp add: planned_target_def Let_def split: if_splits)
  then show "finite (vp_sensitivity p)" by (simp add: loads_def)
qed

lemma set_map_filter: "set (List.map_filter f xs) = {y. \<exists>x \<in> set xs. f x = Some y}"
  by (induction xs) (auto simp: List.map_filter_simps split: option.split)

lemma writers_known:
  assumes "find_writers ps 0 (\<lambda>sid. None) = Some w"
  shows "\<forall>i < length ps. planned_target (ps ! i) = Some (dest ps i)"
    "\<And>sid i. w sid = Some i \<longleftrightarrow> i < length ps \<and> dest ps i = sid"
    "\<And>i j. i < length ps \<Longrightarrow> j < length ps \<Longrightarrow> dest ps i = dest ps j \<Longrightarrow> i = j"
proof -
  note w = find_writers_ok [OF assms, simplified]
  then show 1: "\<forall>i < length ps. planned_target (ps ! i) = Some (dest ps i)" by (auto simp: dest_def)
  then show 2: "\<And>sid i. w sid = Some i \<longleftrightarrow> i < length ps \<and> dest ps i = sid" using w by auto
  show "\<And>i j. i < length ps \<Longrightarrow> j < length ps \<Longrightarrow> dest ps i = dest ps j \<Longrightarrow> i = j"
    using 2 by (metis option.inject)
qed

lemma sources_feeds:
  assumes "find_writers ps 0 (\<lambda>sid. None) = Some w" "j < length ps"
  shows "set (sources ps w j) = {i. i < length ps \<and> feeds ps i j}" "distinct (sources ps w j)"
proof -
  note w = writers_known [OF assms(1)]
  have fin: "finite (vp_sensitivity (ps ! j))" using w(1) assms(2) finite_sensitivity by blast
  show "set (sources ps w j) = {i. i < length ps \<and> feeds ps i j}"
    using w(2) fin by (auto simp: sources_def set_map_filter feeds_def)
  have "distinct (List.map_filter w xs)" if "distinct xs" for xs
    using that
  proof (induction xs)
    case (Cons x xs)
    have "i \<notin> set (List.map_filter w xs)" if "w x = Some i" for i
      using that w(2) Cons.prems by (auto simp: set_map_filter)
    then show ?case using Cons by (auto simp: List.map_filter_simps split: option.split)
  qed (simp add: List.map_filter_simps)
  then show "distinct (sources ps w j)" by (simp add: sources_def)
qed

lemma dependents_children:
  assumes "find_writers ps 0 (\<lambda>sid. None) = Some w"
  shows "dependents ps w = children (length ps) (sources ps w)"
proof
  fix i
  have one: "filter (\<lambda>k. k = i) xs = (if i \<in> set xs then [i] else [])" if "distinct xs" for xs :: "nat list"
    using that by (induction xs) auto
  have "concat (map (\<lambda>j. map (\<lambda>_. j) (filter (\<lambda>k. k = i) (sources ps w j))) js) =
      filter (\<lambda>j. i \<in> set (sources ps w j)) js" if "set js \<subseteq> {..<length ps}" for js
    using that by (induction js) (auto simp: one [OF sources_feeds(2) [OF assms]])
  then show "dependents ps w i = children (length ps) (sources ps w) i"
    by (simp add: dependents_def children_def atLeast0LessThan)
qed

lemma plan_start_ok:
  assumes "find_writers ps 0 (\<lambda>sid. None) = Some w"
  shows "graph_ok (length ps) (sources ps w)" "plan_inv (length ps) (sources ps w) (plan_start ps w)"
proof -
  note s = sources_feeds [OF assms]
  show "graph_ok (length ps) (sources ps w)" using s by (auto simp: graph_ok_def)
  have "card (set (sources ps w j)) = length (sources ps w j)" if "j < length ps" for j
    using distinct_card s(2) that by blast
  then show "plan_inv (length ps) (sources ps w) (plan_start ps w)"
    by (auto simp: plan_inv_def plan_start_def Let_def source_depth_def)
qed

text \<open>A chain of assignments each of which reads what the next one writes.\<close>

fun feed_chain :: "vm_process list \<Rightarrow> nat list \<Rightarrow> bool" where
  "feed_chain ps [] = False"
| "feed_chain ps [j] = (j < length ps)"
| "feed_chain ps (j # i # p) = (j < length ps \<and> feeds ps i j \<and> feed_chain ps (i # p))"

lemma feed_chain_sources:
  assumes "find_writers ps 0 (\<lambda>sid. None) = Some w"
  shows "feed_chain ps p \<longleftrightarrow> source_chain (sources ps w) p \<and> set p \<subseteq> {..<length ps}"
proof (induction p rule: induct_list012 [case_names Nil One More])
  case (More j i p)
  then show ?case using sources_feeds(1) [OF assms, of j] by auto
qed simp_all


section \<open>The plan\<close>

lemma planE:
  assumes "plan_continuous_order procs = Some (order, depth)"
  obtains w pl where "find_writers (continuous_part procs) 0 (\<lambda>sid. None) = Some w"
    "plan_inv (length (continuous_part procs)) (sources (continuous_part procs) w) pl" "pl_order pl = order"
    "depth = Max (set (pl_depth pl))" "length order = length (continuous_part procs)" "continuous_part procs \<noteq> []"
    "\<forall>p \<in> set procs. vp_type p \<noteq> CONTINUOUS \<longrightarrow> \<not> touches_planned w p"
proof -
  let ?ps = "continuous_part procs"
  obtain w where w: "find_writers ?ps 0 (\<lambda>sid. None) = Some w" "2 \<le> length ?ps"
    "\<forall>p \<in> set procs. vp_type p \<noteq> CONTINUOUS \<longrightarrow> \<not> touches_planned w p"
    using assms by (auto simp: plan_continuous_order_def Let_def split: if_splits option.splits)
  note start = plan_start_ok [OF w(1)]
  obtain pl where pl: "plan_loop (length ?ps) (dependents ?ps w) (plan_start ?ps w) = Some pl"
    "plan_inv (length ?ps) (sources ?ps w) pl"
    using plan_loop_ok [OF start, of "length ?ps"] dependents_children [OF w(1)] by auto
  have "pl_order pl = order" "depth = Max (set (pl_depth pl))" "length order = length ?ps"
    using assms w(1) pl(1) by (auto simp: plan_continuous_order_def Let_def split: if_splits)
  moreover have "?ps \<noteq> []" using w(2) by auto
  ultimately show ?thesis using that w(1,3) pl(2) by blast
qed

text \<open>C13: The plan of the continuous assignments is sound. It lists every assignment exactly once, each after
  all the assignments whose targets it reads, and the second component is the length of the longest
  chain of assignments that feed each other.\<close>

theorem plan_is_sound:
  assumes "plan_continuous_order procs = Some (order, depth)"
  defines "ps \<equiv> continuous_part procs"
  shows "distinct order \<and> set order = {..<length ps} \<and>
    (\<forall>a < length order. \<forall>b < length order. feeds ps (order ! a) (order ! b) \<longrightarrow> a < b) \<and>
    (\<exists>p. feed_chain ps p \<and> length p = depth) \<and> (\<forall>p. feed_chain ps p \<longrightarrow> length p \<le> depth)"
proof -
  obtain w pl where w: "find_writers ps 0 (\<lambda>sid. None) = Some w" and inv: "plan_inv (length ps) (sources ps w) pl"
    and pl: "pl_order pl = order" "depth = Max (set (pl_depth pl))" "length order = length ps" "ps \<noteq> []"
    using planE [OF assms(1)] unfolding ps_def by metis
  have dist: "distinct order" "set order \<subseteq> {..<length ps}" using inv pl(1) by (auto simp: plan_inv_def)
  then have all: "set order = {..<length ps}"
    using pl(3) by (metis card_lessThan card_subset_eq distinct_card finite_lessThan)
  have before: "a < b" if ab: "a < length order" "b < length order" "feeds ps (order ! a) (order ! b)" for a b
  proof -
    have "order ! a \<in> set (sources ps w (order ! b))"
      using sources_feeds(1) [OF w] all ab nth_mem by blast
    moreover have "set (sources ps w (order ! b)) \<subseteq> set (take b order)" using inv ab(2) pl(1) by (simp add: plan_inv_def)
    ultimately have "order ! a \<in> set (take b order)" by blast
    then obtain c where "c < b" "order ! c = order ! a" using ab(2) by (auto simp: in_set_conv_nth)
    then show ?thesis using dist(1) ab nth_eq_iff_index_eq by fastforce
  qed
  have len: "length (pl_depth pl) = length ps" using inv by (simp add: plan_inv_def)
  have index: "\<exists>k < length order. order ! k = j" if "j < length ps" for j
    using all that by (metis in_set_conv_nth lessThan_iff)
  note chain = depth_chain [OF plan_start_ok(1) [OF w] inv, unfolded pl(1)] and feed = feed_chain_sources [OF w]
  have fin: "set (pl_depth pl) \<noteq> {}" using len pl(4) by auto
  have "depth \<in> set (pl_depth pl)" unfolding pl(2) using fin by simp
  then obtain j where j: "j < length ps" "pl_depth pl ! j = depth" using len by (auto simp: in_set_conv_nth)
  obtain k where k: "k < length order" "order ! k = j" using index [OF j(1)] by blast
  have ex: "\<exists>p. feed_chain ps p \<and> length p = depth" using chain [OF k(1)] k(2) j(2) feed by blast
  have "length p \<le> depth" if p: "feed_chain ps p" for p
  proof -
    have sp: "source_chain (sources ps w) p" "set p \<subseteq> {..<length ps}" using p feed by simp_all
    then have hd: "hd p < length ps" by (cases p) auto
    obtain k where k: "k < length order" "order ! k = hd p" using index [OF hd] by blast
    have "length p \<le> pl_depth pl ! hd p" using chain [OF k(1)] k(2) sp(1) by simp
    also have "\<dots> \<le> depth" unfolding pl(2) using hd len by (intro Max_ge) simp_all
    finally show ?thesis .
  qed
  then show ?thesis using dist(1) all before ex by blast
qed

section \<open>A concrete plan\<close>

text \<open>The assignments \<open>z = y ^ a\<close> and \<open>y = a + b\<close>, declared against their dependency; the signals are
  \<open>a\<close>, \<open>b\<close>, \<open>y\<close> and \<open>z\<close>.\<close>

definition vm_assign :: "opcode \<Rightarrow> nat \<Rightarrow> nat \<Rightarrow> nat \<Rightarrow> vm_process" where
  "vm_assign op l r t =
     \<lparr>vp_type = CONTINUOUS,
      vp_program = [(LOAD_SIG, int l, 0), (LOAD_SIG, int r, 0), (op, 0, 0), (STORE_SIG, int t, 0), (PROC_END, 0, 0)],
      vp_sensitivity = {l, r}, vp_edges = [], vp_has_timing = False, vp_self_sens = {}, vp_keyword = ''''\<rparr>"

definition chain_procs :: "vm_process list" where
  "chain_procs = [vm_assign BIT_XOR 2 0 3, vm_assign ADD 0 1 2]"

lemma chain_procs_plan: "plan_continuous_order chain_procs = Some ([1, 0], 2)"
  by code_simp

theorem plan_is_sound_witness:
  "plan_continuous_order chain_procs = Some ([1, 0], 2) \<and> \<not> feeds (continuous_part chain_procs) 0 1 \<and>
   (\<exists>p. feed_chain (continuous_part chain_procs) p \<and> length p = 2)"
proof -
  note sound = plan_is_sound [OF chain_procs_plan]
  have "\<not> feeds (continuous_part chain_procs) 0 1"
    using sound [THEN conjunct2, THEN conjunct2, THEN conjunct1, rule_format, of 1 0] by auto
  then show ?thesis using sound chain_procs_plan by blast
qed

end
