(* ===== verification/Vm_Scheduler.thy ===== *)
theory Vm_Scheduler
  imports Propagation Event_Queue
begin

text \<open>
  The scheduler of the VM engine, \<open>class VMScheduler\<close> in \<open>sim/vm/vm_scheduler.py\<close>, on its Python path: no
  Cython context and no process with timing controls, which the code hands to the reference executor.

  A process is its index in \<open>compiler.processes\<close>. The lists of signals and memories that the compiler and
  the interpreter share are those of \<open>machine\<close>. Python's order of iteration over a set of integers is not
  fixed by the language: it is the parameter \<open>vd_iter\<close>.
\<close>

section \<open>State\<close>

record vm_design =
  vd_processes :: "vm_process list"
  vd_delta_limit :: nat
  vd_markers :: "nat list"
  vd_monitors :: "(program \<times> nat set) list"
  vd_signal_map :: "string \<Rightarrow> nat option"
  vd_mem_map :: "string \<Rightarrow> nat option"
  vd_iter :: "nat set \<Rightarrow> nat list"

datatype vm_event = InitialEvent nat | ToggleEvent string val4

record vm_sched =
  vs_mach :: machine
  vs_time :: int
  vs_queue :: "vm_event event_queue"
  vs_prev_val :: "int list"
  vs_prev_mask :: "int list"
  vs_triggered :: "nat set"
  vs_pending :: "nat set"
  vs_pre_initial :: "(int list \<times> int list) option"
  vs_initial_dirty :: "nat set"
  vs_finish :: bool
  vs_display :: "(int \<times> val4 list) list"
  vs_monitor :: "(program \<times> nat set) option"
  vs_monitor_prev :: "nat \<Rightarrow> (int \<times> int) option"
  vs_own :: "nat \<Rightarrow> nat option"
  vs_bootstrapped :: bool
  vs_combo_bootstrapped :: bool
  vs_stopped :: bool

abbreviation vm_proc :: "vm_design \<Rightarrow> nat \<Rightarrow> vm_process" where
  "vm_proc d i \<equiv> vd_processes d ! i"

definition procs_of :: "vm_design \<Rightarrow> (vm_process \<Rightarrow> bool) \<Rightarrow> nat list" where
  "procs_of d P = filter (\<lambda>i. P (vm_proc d i)) [0..<length (vd_processes d)]"

definition cont_procs :: "vm_design \<Rightarrow> nat list" where
  "cont_procs d = procs_of d (\<lambda>p. vp_type p = CONTINUOUS)"

definition combo_procs :: "vm_design \<Rightarrow> nat list" where
  "combo_procs d = procs_of d (\<lambda>p. vp_type p = COMBINATIONAL \<and> \<not> vp_has_timing p)"

definition seq_procs :: "vm_design \<Rightarrow> nat list" where
  "seq_procs d = procs_of d (\<lambda>p. vp_type p = SEQUENTIAL \<and> \<not> vp_has_timing p)"

definition initial_procs :: "vm_design \<Rightarrow> nat list" where
  "initial_procs d = procs_of d (\<lambda>p. vp_type p = INITIAL)"

definition readers :: "vm_design \<Rightarrow> nat list \<Rightarrow> nat \<Rightarrow> nat list" where
  "readers d ps sid = filter (\<lambda>i. sid \<in> vp_sensitivity (vm_proc d i)) ps"

text \<open>The first occurrences, in order: what a loop collects that remembers what it has seen.\<close>

definition first_seen :: "nat list \<Rightarrow> nat list" where
  "first_seen xs = rev (remdups (rev xs))"

section \<open>Running programs\<close>

text \<open>A program may jump back \<open>loop_limit\<close> times, so that many turns suffice; \<open>True\<close> reports \<open>$finish\<close>.\<close>

definition exec_program :: "program \<Rightarrow> machine \<Rightarrow> (machine \<times> bool) res" where
  "exec_program prog m = (case execute ((loop_limit m + 1) * (length prog + 1)) prog m of
     Some (Halted m') \<Rightarrow> Inr (m', False)
   | Some (Raised e m') \<Rightarrow> if e = StopSimulation then Inr (m', True) else Inl e
   | _ \<Rightarrow> Inl Unmodelled)"

fun exec_programs :: "program list \<Rightarrow> machine \<Rightarrow> (machine \<times> bool) res" where
  "exec_programs [] m = Inr (m, False)"
| "exec_programs (p # ps) m =
     rbind (exec_program p m) (\<lambda>(m, stop). rmap (\<lambda>(m, stop'). (m, stop \<or> stop')) (exec_programs ps m))"

abbreviation programs :: "vm_design \<Rightarrow> nat list \<Rightarrow> program list" where
  "programs d ps \<equiv> map (\<lambda>i. vp_program (vm_proc d i)) ps"

definition clear_dirty :: "machine \<Rightarrow> machine" where
  "clear_dirty m = m\<lparr>dirty := {}\<rparr>"

section \<open>Continuous assignments\<close>

definition vm_run_continuous :: "vm_design \<Rightarrow> machine \<Rightarrow> machine res" where
  "vm_run_continuous d m = rmap fst (exec_programs (programs d (cont_procs d)) m)"

definition affected :: "vm_design \<Rightarrow> nat list \<Rightarrow> nat set \<Rightarrow> nat list" where
  "affected d ps changed = first_seen (concat (map (readers d ps) (vd_iter d changed)))"

definition vm_run_dirty :: "vm_design \<Rightarrow> nat set \<Rightarrow> machine \<Rightarrow> machine res" where
  "vm_run_dirty d changed m = rmap fst (exec_programs (programs d (affected d (cont_procs d) changed)) m)"

text \<open>\<open>_propagate_continuous\<close>: \<open>n\<close> passes may still run; the result holds all the names that changed.\<close>

fun vm_propagate :: "nat \<Rightarrow> vm_design \<Rightarrow> nat set \<Rightarrow> nat set \<Rightarrow> machine \<Rightarrow> (machine \<times> nat set) res" where
  "vm_propagate 0 d work changed m = Inr (m, changed)"
| "vm_propagate (Suc n) d work changed m =
     (if work = {} then Inr (m, changed)
      else rbind (vm_run_dirty d work (clear_dirty m)) (\<lambda>m. vm_propagate n d (dirty m) (changed \<union> dirty m) m))"

definition propagate_continuous :: "vm_design \<Rightarrow> nat set \<Rightarrow> vm_sched \<Rightarrow> (vm_sched \<times> nat set) res" where
  "propagate_continuous d changed s =
     rmap (\<lambda>(m, changed). (s\<lparr>vs_mach := m\<rparr>, changed)) (vm_propagate (vd_delta_limit d) d changed changed (vs_mach s))"

text \<open>The passes over all assignments, at most \<open>n\<close>, until neither a signal nor a memory changes.\<close>

fun vm_settle_all :: "nat \<Rightarrow> vm_design \<Rightarrow> machine \<Rightarrow> machine res" where
  "vm_settle_all 0 d m = Inr m"
| "vm_settle_all (Suc n) d m =
     rbind (vm_run_continuous d (clear_dirty m)) (\<lambda>m'.
       if sig_val m' = sig_val m \<and> sig_mask m' = sig_mask m \<and> dirty m' = {} then Inr m' else vm_settle_all n d m')"

section \<open>Processes\<close>

definition take_display :: "vm_sched \<Rightarrow> vm_sched" where
  "take_display s = s\<lparr>vs_display := vs_display s @ display_output (vs_mach s),
     vs_mach := (vs_mach s)\<lparr>display_output := []\<rparr>\<rparr>"

definition run_process_batch :: "vm_design \<Rightarrow> nat list \<Rightarrow> vm_sched \<Rightarrow> vm_sched res" where
  "run_process_batch d ps s =
     rmap (\<lambda>(m, stop). take_display (s\<lparr>vs_mach := m, vs_finish := vs_finish s \<or> stop\<rparr>))
       (exec_programs (programs d ps) (clear_dirty (vs_mach s)))"

record own_state =
  os_batch :: "nat list"
  os_own :: "nat \<Rightarrow> nat option"
  os_changed :: "nat set"

definition flush_batch :: "vm_design \<Rightarrow> own_state \<Rightarrow> vm_sched \<Rightarrow> (vm_sched \<times> own_state) res" where
  "flush_batch d os s =
     (if os_batch os = [] then Inr (s, os)
      else rmap (\<lambda>s. let D = dirty (vs_mach s) in
             (s, os\<lparr>os_batch := [], os_own := (\<lambda>sid. if sid \<in> D then None else os_own os sid),
                    os_changed := os_changed os \<union> D\<rparr>))
             (run_process_batch d (os_batch os) s))"

definition run_own :: "vm_design \<Rightarrow> nat \<Rightarrow> own_state \<Rightarrow> vm_sched \<Rightarrow> (vm_sched \<times> own_state) res" where
  "run_own d p os s =
     rmap (\<lambda>s. let D = dirty (vs_mach s) in
        (s, os\<lparr>os_own := (\<lambda>sid. if sid \<in> D
                   then (if sid \<in> vp_self_sens (vm_proc d p) \<and> sid \<notin> os_changed os then Some p else None)
                   else os_own os sid),
               os_changed := os_changed os \<union> D\<rparr>))
       (run_process_batch d [p] s)"

fun run_owned :: "vm_design \<Rightarrow> nat list \<Rightarrow> own_state \<Rightarrow> vm_sched \<Rightarrow> (vm_sched \<times> own_state) res" where
  "run_owned d [] os s = flush_batch d os s"
| "run_owned d (p # ps) os s =
     (if vp_self_sens (vm_proc d p) = {} then run_owned d ps (os\<lparr>os_batch := os_batch os @ [p]\<rparr>) s
      else rbind (flush_batch d os s) (\<lambda>(s, os).
           rbind (run_own d p os s) (\<lambda>(s, os). run_owned d ps os s)))"

definition run_process_list :: "vm_design \<Rightarrow> nat list \<Rightarrow> vm_sched \<Rightarrow> vm_sched res" where
  "run_process_list d ps s =
     (let s = s\<lparr>vs_mach := clear_dirty (vs_mach s), vs_own := (\<lambda>sid. None)\<rparr>
      in if \<forall>p \<in> set ps. vp_self_sens (vm_proc d p) = {} then run_process_batch d ps s
         else rmap (\<lambda>(s, os). s\<lparr>vs_mach := (vs_mach s)\<lparr>dirty := os_changed os\<rparr>, vs_own := os_own os\<rparr>)
                (run_owned d ps \<lparr>os_batch = [], os_own = (\<lambda>sid. None), os_changed = {}\<rparr> s))"

section \<open>Non-blocking updates\<close>

text \<open>\<open>_drain_interpreter_nba_queues\<close>: a signal counts as changed when it differs, a memory always.\<close>

definition drain_signal :: "nba_entry \<Rightarrow> machine \<times> nat set \<Rightarrow> machine \<times> nat set" where
  "drain_signal e = (\<lambda>(m, changed). case e of
     NbaPart sid msb lsb v \<Rightarrow>
       (let u = set_range (sig_value m sid) msb lsb v
        in if sig_val m ! sid \<noteq> v_val u \<or> sig_mask m ! sid \<noteq> v_mask u
           then (m\<lparr>sig_val := (sig_val m)[sid := v_val u], sig_mask := (sig_mask m)[sid := v_mask u]\<rparr>, insert sid changed)
           else (m, changed))
   | NbaWhole sid v \<Rightarrow>
       (if sig_val m ! sid \<noteq> v_val v \<or> sig_mask m ! sid \<noteq> v_mask v
        then (m\<lparr>sig_val := (sig_val m)[sid := v_val v], sig_mask := (sig_mask m)[sid := v_mask v]\<rparr>, insert sid changed)
        else (m, changed)))"

definition drain_memory ::
    "vm_design \<Rightarrow> nat \<times> int \<times> int \<times> int \<times> val4 \<Rightarrow> machine \<times> nat set \<Rightarrow> machine \<times> nat set" where
  "drain_memory d e = (\<lambda>(m, changed). case e of (mid, addr, msb, lsb, v) \<Rightarrow>
     if mid < length (mem_info m) then
       (case mem_info m ! mid of (ew, depth, base) \<Rightarrow>
          if 0 \<le> addr \<and> addr < int depth then
            (let flat = base + nat addr; wmask = width_mask ew;
                 current = mk_value (mem_val m ! flat AND wmask) ew (mem_mask m ! flat AND wmask);
                 updated = set_range current msb lsb v
             in (m\<lparr>mem_val := (mem_val m)[flat := v_val updated AND wmask AND NOT (v_mask updated)],
                    mem_mask := (mem_mask m)[flat := v_mask updated AND wmask]\<rparr>,
                 if mid < length (vd_markers d) then insert (vd_markers d ! mid) changed else changed))
          else (m, changed))
     else (m, changed))"

definition apply_nbas :: "vm_design \<Rightarrow> vm_sched \<Rightarrow> vm_sched \<times> nat set" where
  "apply_nbas d s =
     (let m = vs_mach s
      in if nba_queue m = [] \<and> nba_mem_queue m = [] then (s, {})
         else (let (m1, changed) = fold drain_signal (nba_queue m) (m, {});
                   (m2, changed) = fold (drain_memory d) (nba_mem_queue m) (m1, changed)
               in (s\<lparr>vs_mach := m2\<lparr>nba_queue := [], nba_mem_queue := []\<rparr>\<rparr>, changed)))"


section \<open>Triggered processes\<close>

text \<open>A process does not wake for a change that is its own, unless something else changed the signal too.\<close>

definition woken_by :: "vm_design \<Rightarrow> (nat \<Rightarrow> nat option) \<Rightarrow> nat set \<Rightarrow> nat list" where
  "woken_by d own changed =
     first_seen (concat (map (\<lambda>sid. filter (\<lambda>p. own sid \<noteq> Some p) (readers d (combo_procs d) sid)) (vd_iter d changed)))"

definition own_changes :: "nat set \<Rightarrow> vm_sched \<Rightarrow> nat \<Rightarrow> nat option" where
  "own_changes others s sid = (if sid \<in> others then None else vs_own s sid)"

definition combo_triggered :: "vm_design \<Rightarrow> nat set \<Rightarrow> nat set \<Rightarrow> vm_sched \<Rightarrow> nat list \<times> vm_sched" where
  "combo_triggered d changed others s =
     (woken_by d (own_changes others s) changed, s\<lparr>vs_own := (\<lambda>sid. None)\<rparr>)"

definition vm_edge :: "string \<Rightarrow> int \<Rightarrow> bool \<Rightarrow> int \<Rightarrow> bool \<Rightarrow> bool" where
  "vm_edge edge old_bit old_x new_bit new_x =
     (if edge = ''posedge'' then
        (\<not> new_x \<and> new_bit = 1 \<and> (old_x \<or> old_bit = 0)) \<or> (new_x \<and> \<not> old_x \<and> old_bit = 0)
      else if edge = ''negedge'' then
        (\<not> new_x \<and> new_bit = 0 \<and> (old_x \<or> old_bit = 1)) \<or> (new_x \<and> \<not> old_x \<and> old_bit = 1)
      else False)"

fun vm_edge_fired :: "vm_sched \<Rightarrow> (nat \<times> string) list \<Rightarrow> bool res" where
  "vm_edge_fired s [] = Inr False"
| "vm_edge_fired s ((sid, edge) # rest) =
     (if length (vs_prev_val s) \<le> sid \<or> length (vs_prev_mask s) \<le> sid \<or>
         length (sig_val (vs_mach s)) \<le> sid \<or> length (sig_mask (vs_mach s)) \<le> sid
      then Inl IndexError
      else if vm_edge edge (vs_prev_val s ! sid AND 1) (vs_prev_mask s ! sid AND 1 \<noteq> 0)
                (sig_val (vs_mach s) ! sid AND 1) (sig_mask (vs_mach s) ! sid AND 1 \<noteq> 0)
      then Inr True else vm_edge_fired s rest)"

fun seq_triggered :: "vm_design \<Rightarrow> nat list \<Rightarrow> vm_sched \<Rightarrow> (nat list \<times> vm_sched) res" where
  "seq_triggered d [] s = Inr ([], s)"
| "seq_triggered d (p # ps) s =
     (if p \<in> vs_triggered s then seq_triggered d ps s
      else rbind (vm_edge_fired s (vp_edges (vm_proc d p))) (\<lambda>fired.
        if fired then rmap (apfst (Cons p)) (seq_triggered d ps (s\<lparr>vs_triggered := insert p (vs_triggered s)\<rparr>))
        else seq_triggered d ps s))"

definition vm_collect_triggered :: "vm_design \<Rightarrow> nat set \<Rightarrow> nat set \<Rightarrow> vm_sched \<Rightarrow> (nat list \<times> vm_sched) res" where
  "vm_collect_triggered d changed others s =
     (let (combos, s) = combo_triggered d changed others s
      in rmap (apfst ((@) combos)) (seq_triggered d (seq_procs d) s))"

section \<open>Delta cycles\<close>

text \<open>The end of a delta cycle: non-blocking updates, then the continuous assignments.\<close>

definition after_processes :: "vm_design \<Rightarrow> vm_sched \<Rightarrow> (vm_sched \<times> nat set \<times> nat set) res" where
  "after_processes d s =
     (let (s, nba_dirty) = apply_nbas d s; changed = dirty (vs_mach s) \<union> nba_dirty
      in if changed = {} then Inr (s, changed, nba_dirty)
         else rmap (\<lambda>(s, changed). (s, changed \<union> dirty (vs_mach s), nba_dirty))
                (propagate_continuous d changed (s\<lparr>vs_mach := clear_dirty (vs_mach s)\<rparr>)))"

fun vm_delta_loop :: "nat \<Rightarrow> vm_design \<Rightarrow> nat set \<Rightarrow> nat set \<Rightarrow> vm_sched \<Rightarrow> vm_sched res" where
  "vm_delta_loop 0 d changed nba_dirty s = Inl RuntimeError"
| "vm_delta_loop (Suc n) d changed nba_dirty s =
     rbind (vm_collect_triggered d changed nba_dirty s) (\<lambda>(triggered, s).
       if triggered = [] then Inr s
       else rbind (run_process_list d triggered s) (\<lambda>s.
            rbind (after_processes d s) (\<lambda>(s, changed, nba_dirty). vm_delta_loop n d changed nba_dirty s)))"

text \<open>What follows events or drives: propagation, then delta cycles in which those changes are nobody's own.\<close>

definition vm_deltas :: "vm_design \<Rightarrow> nat set \<Rightarrow> vm_sched \<Rightarrow> vm_sched res" where
  "vm_deltas d changed s =
     rbind (propagate_continuous d changed s) (\<lambda>(s, changed).
       (let changed = changed \<union> dirty (vs_mach s)
        in vm_delta_loop (vd_delta_limit d) d changed changed s))"

section \<open>Monitors\<close>

definition read_sig :: "vm_sched \<Rightarrow> nat \<Rightarrow> int \<times> int" where
  "read_sig s sid = (sig_val (vs_mach s) ! sid, sig_mask (vs_mach s) ! sid)"

definition monitor_values :: "vm_sched \<Rightarrow> nat set \<Rightarrow> nat \<Rightarrow> (int \<times> int) option" where
  "monitor_values s sigs sid = (if sid \<in> sigs then Some (read_sig s sid) else None)"

definition check_monitor_activation :: "vm_design \<Rightarrow> vm_sched \<Rightarrow> vm_sched" where
  "check_monitor_activation d s =
     (let mid = active_monitor_id (vs_mach s)
      in if mid < 0 then s
         else (let s = (if nat mid < length (vd_monitors d)
                        then s\<lparr>vs_monitor := Some (vd_monitors d ! nat mid),
                               vs_monitor_prev := monitor_values s (snd (vd_monitors d ! nat mid))\<rparr>
                        else s)
               in s\<lparr>vs_mach := (vs_mach s)\<lparr>active_monitor_id := -1\<rparr>\<rparr>))"

definition fire_monitors :: "vm_design \<Rightarrow> vm_sched \<Rightarrow> vm_sched res" where
  "fire_monitors d s =
     (let s = check_monitor_activation d s
      in case vs_monitor s of
           None \<Rightarrow> Inr s
         | Some (prog, sigs) \<Rightarrow>
             (if \<forall>sid \<in> sigs. vs_monitor_prev s sid = Some (read_sig s sid) then Inr s
              else rmap (\<lambda>(m, stop). take_display (s\<lparr>vs_monitor_prev := monitor_values s sigs,
                       vs_mach := m\<lparr>dirty := dirty (vs_mach s)\<rparr>\<rparr>))
                     (exec_program prog (clear_dirty (vs_mach s)))))"

section \<open>Events\<close>

definition execute_initial :: "vm_design \<Rightarrow> nat \<Rightarrow> vm_sched \<Rightarrow> (vm_sched \<times> bool) res" where
  "execute_initial d p s =
     rmap (\<lambda>(m, stop). let s = take_display (s\<lparr>vs_mach := m\<rparr>)
             in (if stop then s\<lparr>vs_queue := clear_queue (vs_queue s)\<rparr> else s, stop))
       (exec_program (vp_program (vm_proc d p)) (clear_dirty (vs_mach s)))"

fun execute_event :: "vm_design \<Rightarrow> vm_event \<Rightarrow> vm_sched \<Rightarrow> (vm_sched \<times> bool) res" where
  "execute_event d (InitialEvent i) s =
     (if i < length (initial_procs d) then execute_initial d (initial_procs d ! i) s else Inl IndexError)"
| "execute_event d (ToggleEvent name v) s = (case vd_signal_map d name of
     None \<Rightarrow> Inr (s, False)
   | Some sid \<Rightarrow>
       (let m = vs_mach s
        in Inr (s\<lparr>vs_mach := m\<lparr>sig_val := (sig_val m)[sid := v_val v], sig_mask := (sig_mask m)[sid := v_mask v],
                               dirty := insert sid (dirty m)\<rparr>\<rparr>, False)))"

fun execute_events :: "vm_design \<Rightarrow> vm_event list \<Rightarrow> vm_sched \<Rightarrow> (vm_sched \<times> bool) res" where
  "execute_events d [] s = Inr (s, False)"
| "execute_events d (e # es) s =
     rbind (execute_event d e s) (\<lambda>(s, stop). if stop then Inr (s, True) else execute_events d es s)"

section \<open>A time step\<close>

definition take_snapshot :: "vm_sched \<Rightarrow> vm_sched" where
  "take_snapshot s = s\<lparr>vs_prev_val := sig_val (vs_mach s), vs_prev_mask := sig_mask (vs_mach s)\<rparr>"

definition vm_start_step :: "int \<Rightarrow> vm_sched \<Rightarrow> vm_sched" where
  "vm_start_step t s =
     (let s = s\<lparr>vs_time := t, vs_mach := (vs_mach s)\<lparr>m_time := t\<rparr>\<rparr>
      in (take_snapshot s)\<lparr>vs_triggered := {}\<rparr>)"

definition after_events :: "vm_design \<Rightarrow> vm_sched \<Rightarrow> vm_sched \<times> nat set" where
  "after_events d s =
     (let changed = dirty (vs_mach s); (s, nba_dirty) = apply_nbas d (s\<lparr>vs_mach := clear_dirty (vs_mach s)\<rparr>)
      in (s, changed \<union> nba_dirty))"

text \<open>
  One turn of \<open>_run_event_loop\<close>, or with \<open>single\<close> the step of \<open>run_step\<close>, which skips the delta cycles after
  an event that stops. The second component says whether the simulation goes on.
\<close>

definition vm_single_step :: "bool \<Rightarrow> vm_design \<Rightarrow> int \<Rightarrow> vm_sched \<Rightarrow> (vm_sched \<times> bool) res" where
  "vm_single_step single d t s =
     (let s = vm_start_step t s; (events, q) = pop_at t (vs_queue s)
      in rbind (execute_events d events (s\<lparr>vs_queue := q\<rparr>)) (\<lambda>(s, stop).
         (let (s, changed) = after_events d s
          in rbind (if changed = {} \<or> single \<and> stop then Inr s else vm_deltas d changed s) (\<lambda>s.
             rmap (\<lambda>s. if vs_finish s then (s\<lparr>vs_queue := clear_queue (vs_queue s)\<rparr>, False) else (s, \<not> stop))
               (fire_monitors d s)))))"

fun vm_event_loop :: "nat \<Rightarrow> vm_design \<Rightarrow> int \<Rightarrow> vm_sched \<Rightarrow> vm_sched res option" where
  "vm_event_loop fuel d max_time s = (case peek_time (vs_queue s) of
     None \<Rightarrow> Some (Inr s)
   | Some t \<Rightarrow>
       (if max_time < t then Some (Inr s)
        else (case fuel of
            0 \<Rightarrow> None
          | Suc fuel \<Rightarrow> (case vm_single_step False d t s of
              Inl e \<Rightarrow> Some (Inl e)
            | Inr (s, True) \<Rightarrow> vm_event_loop fuel d max_time s
            | Inr (s, False) \<Rightarrow> Some (Inr s)))))"

declare vm_event_loop.simps [simp del]

definition vm_run_step :: "vm_design \<Rightarrow> vm_sched \<Rightarrow> (vm_sched \<times> bool) res" where
  "vm_run_step d s = (case peek_time (vs_queue s) of None \<Rightarrow> Inr (s, False) | Some t \<Rightarrow> vm_single_step True d t s)"

section \<open>The start\<close>

fun run_initials :: "vm_design \<Rightarrow> nat list \<Rightarrow> vm_sched \<Rightarrow> (vm_sched \<times> bool) res" where
  "run_initials d [] s = Inr (s, False)"
| "run_initials d (p # ps) s =
     rbind (execute_initial d p s) (\<lambda>(s, stop). if stop then Inr (s, True) else run_initials d ps s)"

definition ensure_bootstrapped :: "vm_design \<Rightarrow> vm_sched \<Rightarrow> (vm_sched \<times> bool) res" where
  "ensure_bootstrapped d s =
     (if vs_bootstrapped s then Inr (s, vs_stopped s)
      else if \<exists>p \<in> set (vd_processes d). vp_has_timing p then Inl Unmodelled
      else rmap (\<lambda>(s, stop). if stop then (s\<lparr>vs_bootstrapped := True, vs_stopped := True\<rparr>, True)
                  else (s\<lparr>vs_initial_dirty := dirty (vs_mach s), vs_bootstrapped := True\<rparr>, vs_stopped s))
             (run_initials d (initial_procs d)
                (s\<lparr>vs_pre_initial := Some (sig_val (vs_mach s), sig_mask (vs_mach s))\<rparr>)))"

definition runs_at_start :: "vm_process \<Rightarrow> bool" where
  "runs_at_start p \<longleftrightarrow> vp_keyword p = ''always_comb'' \<or> vp_keyword p = ''always_latch''"

definition vm_start_procs :: "vm_design \<Rightarrow> nat list" where
  "vm_start_procs d = filter (\<lambda>p. runs_at_start (vm_proc d p)) (combo_procs d)"

text \<open>The rounds of \<open>_bootstrap_combos\<close>; \<open>first\<close> says that this is the first one.\<close>

fun bootstrap_rounds :: "nat \<Rightarrow> bool \<Rightarrow> vm_design \<Rightarrow> nat set \<Rightarrow> nat set \<Rightarrow> vm_sched \<Rightarrow> vm_sched res" where
  "bootstrap_rounds 0 first d changed driven s = Inl RuntimeError"
| "bootstrap_rounds (Suc n) first d changed driven s =
     (if changed = {} then Inr s
      else rbind (propagate_continuous d changed (s\<lparr>vs_mach := clear_dirty (vs_mach s)\<rparr>)) (\<lambda>(s, changed).
        (let changed = changed \<union> dirty (vs_mach s);
             driven = (if first then driven \<union> dirty (vs_mach s) else driven);
             (triggered, s) = combo_triggered d changed (if first then driven else {}) s;
             start = vm_start_procs d;
             triggered = (if first \<and> start \<noteq> []
               then filter (\<lambda>p. p \<notin> set start \<or> \<not> vp_sensitivity (vm_proc d p) \<inter> changed \<subseteq> driven) triggered
               else triggered)
         in if triggered = [] then Inr s
            else rbind (run_process_list d triggered s) (\<lambda>s.
              (let changed = dirty (vs_mach s); (s, nba_dirty) = apply_nbas d s;
                   s = s\<lparr>vs_own := own_changes nba_dirty s\<rparr>
               in bootstrap_rounds n False d (changed \<union> nba_dirty) driven s)))))"

definition vm_bootstrap_combos :: "vm_design \<Rightarrow> nat set \<Rightarrow> vm_sched \<Rightarrow> vm_sched res" where
  "vm_bootstrap_combos d drives s =
     (let start = vm_start_procs d
      in rbind (if start = [] then Inr (s, {})
                else rmap (\<lambda>s. let changed = dirty (vs_mach s); (s, nba_dirty) = apply_nbas d s in (s, changed \<union> nba_dirty))
                       (run_process_list d start s)) (\<lambda>(s, changed).
           rmap (\<lambda>s. s\<lparr>vs_mach := clear_dirty (vs_mach s)\<rparr>)
             (bootstrap_rounds (vd_delta_limit d) True d (changed \<union> drives) drives s)))"


text \<open>What the initial blocks changed counts as a change at time 0.\<close>

definition differing :: "int list \<times> int list \<Rightarrow> machine \<Rightarrow> nat set" where
  "differing old m = {sid \<in> {..<length (fst old)}. fst old ! sid \<noteq> sig_val m ! sid \<or> snd old ! sid \<noteq> sig_mask m ! sid}"

fun initial_rounds :: "nat \<Rightarrow> vm_design \<Rightarrow> nat set \<Rightarrow> nat set \<Rightarrow> vm_sched \<Rightarrow> vm_sched res" where
  "initial_rounds 0 d changed nba_dirty s = Inl RuntimeError"
| "initial_rounds (Suc n) d changed nba_dirty s =
     rbind (propagate_continuous d changed (s\<lparr>vs_mach := clear_dirty (vs_mach s)\<rparr>)) (\<lambda>(s, changed).
     rbind (vm_collect_triggered d (changed \<union> dirty (vs_mach s)) nba_dirty s) (\<lambda>(triggered, s).
       if triggered = [] then Inr s
       else rbind (run_process_list d triggered s) (\<lambda>s.
         (let changed = dirty (vs_mach s); (s, nba_dirty) = apply_nbas d s
          in if changed \<union> nba_dirty = {} then Inr s
             else initial_rounds n d (changed \<union> nba_dirty) nba_dirty s))))"

definition fire_initial_edges :: "vm_design \<Rightarrow> vm_sched \<Rightarrow> vm_sched res" where
  "fire_initial_edges d s = (case vs_pre_initial s of
     None \<Rightarrow> Inr s
   | Some old \<Rightarrow>
       (let changed = differing old (vs_mach s) \<union> vs_initial_dirty s;
            s = s\<lparr>vs_pre_initial := None, vs_initial_dirty := {}\<rparr>
        in if changed = {} then Inr s
           else rmap (\<lambda>s. s\<lparr>vs_mach := clear_dirty (vs_mach s)\<rparr>)
                  (initial_rounds (vd_delta_limit d) d changed changed
                     (s\<lparr>vs_prev_val := fst old, vs_prev_mask := snd old, vs_triggered := {}\<rparr>))))"

section \<open>Driving signals\<close>

definition snapshot_before_first_drive :: "vm_sched \<Rightarrow> vm_sched" where
  "snapshot_before_first_drive s =
     (if vs_pending s \<noteq> {} then s else (take_snapshot s)\<lparr>vs_triggered := {}\<rparr>)"

definition mark_driven :: "nat \<Rightarrow> vm_sched \<Rightarrow> vm_sched" where
  "mark_driven sid s =
     s\<lparr>vs_pending := insert sid (vs_pending s), vs_mach := (vs_mach s)\<lparr>dirty := insert sid (dirty (vs_mach s))\<rparr>\<rparr>"

definition mark_memory :: "vm_design \<Rightarrow> nat \<Rightarrow> vm_sched \<Rightarrow> vm_sched" where
  "mark_memory d mid s = (if mid < length (vd_markers d) then mark_driven (vd_markers d ! mid) s else s)"

definition drive_sid :: "nat \<Rightarrow> val4 + int \<Rightarrow> vm_sched \<Rightarrow> vm_sched" where
  "drive_sid sid value s =
     (let v = (case value of Inl v \<Rightarrow> v | Inr n \<Rightarrow> known n (sig_width (vs_mach s) ! sid));
          s = snapshot_before_first_drive s; m = vs_mach s
      in mark_driven sid (s\<lparr>vs_mach := m\<lparr>sig_val := (sig_val m)[sid := v_val v], sig_mask := (sig_mask m)[sid := v_mask v]\<rparr>\<rparr>))"

definition put_cell :: "nat \<Rightarrow> nat \<Rightarrow> val4 \<Rightarrow> machine \<Rightarrow> machine" where
  "put_cell flat ew v m =
     (let wmask = width_mask ew
      in m\<lparr>mem_val := (mem_val m)[flat := v_val v AND wmask AND NOT (v_mask v)],
           mem_mask := (mem_mask m)[flat := v_mask v AND wmask]\<rparr>)"

definition drive_element :: "vm_design \<Rightarrow> nat \<Rightarrow> int \<Rightarrow> val4 + int \<Rightarrow> vm_sched \<Rightarrow> vm_sched" where
  "drive_element d mid idx value s =
     (case mem_info (vs_mach s) ! mid of (ew, depth, base) \<Rightarrow>
        if \<not> (0 \<le> idx \<and> idx < int depth) then s
        else (let v = (case value of Inl v \<Rightarrow> v | Inr n \<Rightarrow> known n ew); s = snapshot_before_first_drive s
              in mark_memory d mid (s\<lparr>vs_mach := put_cell (base + nat idx) ew v (vs_mach s)\<rparr>)))"

text \<open>A value for a whole memory, element 0 in the low bits.\<close>

definition drive_memory :: "vm_design \<Rightarrow> nat \<Rightarrow> val4 + int \<Rightarrow> vm_sched \<Rightarrow> vm_sched" where
  "drive_memory d mid value s =
     (case mem_info (vs_mach s) ! mid of (ew, depth, base) \<Rightarrow>
        if depth = 0 then s
        else (let v = (case value of Inl v \<Rightarrow> if v_width v = depth * ew then v else resize v (depth * ew) | Inr n \<Rightarrow> known n (depth * ew));
                  s = snapshot_before_first_drive s;
                  put = (\<lambda>k. put_cell (base + k) ew (get_range v (int (k * ew + ew) - 1) (int (k * ew))))
              in mark_memory d mid (s\<lparr>vs_mach := fold put [0..<depth] (vs_mach s)\<rparr>)))"

text \<open>\<open>split_element name\<close> is the memory name and the text between the brackets of \<open>mem[3]\<close>.\<close>

definition split_element :: "string \<Rightarrow> (string \<times> string) option" where
  "split_element name =
     (if CHR ''['' \<in> set name \<and> last name = CHR '']''
      then Some (takeWhile (\<lambda>c. c \<noteq> CHR ''['') name, butlast (tl (dropWhile (\<lambda>c. c \<noteq> CHR ''['') name)))
      else None)"

definition vm_drive_signal :: "vm_design \<Rightarrow> string \<Rightarrow> val4 + int \<Rightarrow> vm_sched \<Rightarrow> vm_sched res" where
  "vm_drive_signal d name value s = (case vd_signal_map d name of
     Some sid \<Rightarrow> Inr (drive_sid sid value s)
   | None \<Rightarrow> (case split_element name of
       Some (mem, idx) \<Rightarrow> (case vd_mem_map d mem of
           None \<Rightarrow> Inr s
         | Some mid \<Rightarrow> rmap (\<lambda>i. drive_element d mid i value s) (py_int 10 idx))
     | None \<Rightarrow> (case vd_mem_map d name of
           Some mid \<Rightarrow> Inr (drive_memory d mid value s)
         | None \<Rightarrow> Inr s)))"

section \<open>\<open>settle\<close> and \<open>run\<close>\<close>

text \<open>The first cycle of \<open>settle\<close> runs the blocks that start by themselves, too.\<close>

definition settle_first :: "vm_design \<Rightarrow> nat list \<Rightarrow> nat list" where
  "settle_first d triggered = (let start = vm_start_procs d in start @ filter (\<lambda>p. p \<notin> set start) triggered)"

definition vm_settle_deltas :: "vm_design \<Rightarrow> bool \<Rightarrow> nat set \<Rightarrow> vm_sched \<Rightarrow> vm_sched res" where
  "vm_settle_deltas d bootstrap changed s =
     rbind (propagate_continuous d changed (s\<lparr>vs_mach := clear_dirty (vs_mach s)\<rparr>)) (\<lambda>(s, changed).
       (let changed = changed \<union> dirty (vs_mach s); nba_dirty = changed
        in case vd_delta_limit d of
             0 \<Rightarrow> Inl RuntimeError
           | Suc n \<Rightarrow>
               rbind (vm_collect_triggered d changed nba_dirty s) (\<lambda>(triggered, s).
                 (let triggered = (if bootstrap then settle_first d triggered else triggered)
                  in if triggered = [] then Inr s
                     else rbind (run_process_list d triggered s) (\<lambda>s.
                          rbind (after_processes d s) (\<lambda>(s, changed, nba_dirty). vm_delta_loop n d changed nba_dirty s))))))"

definition vm_settle :: "vm_design \<Rightarrow> vm_sched \<Rightarrow> vm_sched res" where
  "vm_settle d s =
     (let starting = \<not> vs_combo_bootstrapped s; bootstrap = starting \<and> combo_procs d \<noteq> [];
          s = s\<lparr>vs_combo_bootstrapped := True\<rparr>
      in if bootstrap \<and> vs_pending s = {} then vm_bootstrap_combos d {} s
         else if vs_pending s = {} then Inr s
         else (let s = (if starting then take_snapshot s else s); changed = vs_pending s;
                   (s, nba_dirty) = apply_nbas d (s\<lparr>vs_pending := {}\<rparr>)
               in vm_settle_deltas d bootstrap (changed \<union> nba_dirty) s))"

definition vm_bootstrap_run :: "vm_design \<Rightarrow> vm_sched \<Rightarrow> vm_sched res" where
  "vm_bootstrap_run d s =
     rbind (if vs_combo_bootstrapped s \<and> vs_pending s \<noteq> {} then vm_settle d s else Inr s) (\<lambda>s.
     rbind (if \<not> vs_combo_bootstrapped s \<and> vs_pending s \<noteq> {}
            then propagate_continuous d (vs_pending s) (s\<lparr>vs_pending := {}\<rparr>) else Inr (s, {})) (\<lambda>(s, boot_drives).
     rbind (vm_settle_all (vd_delta_limit d) d (vs_mach s)) (\<lambda>m.
     rbind (if vs_combo_bootstrapped s then Inr (s\<lparr>vs_mach := m\<rparr>)
            else vm_bootstrap_combos d (boot_drives \<union> vs_pending s)
                   (s\<lparr>vs_mach := m, vs_combo_bootstrapped := True, vs_pending := {}\<rparr>)) (\<lambda>s.
     rbind (fire_initial_edges d s) (\<lambda>s.
       (let s = check_monitor_activation d s
        in Inr (s\<lparr>vs_mach := clear_dirty (vs_mach s)\<rparr>)))))))"

definition vm_run_sched :: "nat \<Rightarrow> vm_design \<Rightarrow> int \<Rightarrow> vm_sched \<Rightarrow> vm_sched res option" where
  "vm_run_sched fuel d max_time s = (case ensure_bootstrapped d s of
     Inl e \<Rightarrow> Some (Inl e)
   | Inr (s, True) \<Rightarrow> Some (Inr s)
   | Inr (s, False) \<Rightarrow> (case vm_bootstrap_run d s of
       Inl e \<Rightarrow> Some (Inl e)
     | Inr s \<Rightarrow> map_option (rmap take_display) (vm_event_loop fuel d max_time s)))"

section \<open>Reading signals, and the state after elaboration\<close>

definition read_cell :: "machine \<Rightarrow> nat \<Rightarrow> nat \<Rightarrow> val4" where
  "read_cell m flat ew = mk_value (mem_val m ! flat) ew (mem_mask m ! flat)"

definition read_whole :: "machine \<Rightarrow> nat \<Rightarrow> val4" where
  "read_whole m mid = (case mem_info m ! mid of (ew, depth, base) \<Rightarrow>
     if depth = 0 then v_x 0
     else (let elems = map (\<lambda>k. read_cell m (base + k) ew) [0..<depth]
           in foldl (\<lambda>r e. v_concat r [e]) (last elems) (rev (butlast elems))))"

text \<open>A dotted name that is neither signal nor memory is read by the reference evaluator, \<open>dotted\<close>.\<close>

definition vm_read_signal :: "(string \<Rightarrow> val4 res) \<Rightarrow> vm_design \<Rightarrow> string \<Rightarrow> vm_sched \<Rightarrow> val4 res" where
  "vm_read_signal dotted d name s =
     (let m = vs_mach s; other = (if CHR ''.'' \<in> set name then dotted name else Inr (v_x 1))
      in case vd_signal_map d name of
           Some sid \<Rightarrow> Inr (sig_value m sid)
         | None \<Rightarrow>
             (if CHR ''['' \<in> set name then
                (case split_element name of
                   Some (mem, idx) \<Rightarrow> (case vd_mem_map d mem of
                       None \<Rightarrow> other
                     | Some mid \<Rightarrow> rbind (py_int 10 idx) (\<lambda>i. case mem_info m ! mid of (ew, depth, base) \<Rightarrow>
                         if 0 \<le> i \<and> i < int depth then Inr (read_cell m (base + nat i) ew) else other))
                 | None \<Rightarrow> other)
              else (case vd_mem_map d name of Some mid \<Rightarrow> Inr (read_whole m mid) | None \<Rightarrow> other)))"

definition vm_initial_sched :: "machine \<Rightarrow> vm_sched" where
  "vm_initial_sched m =
     \<lparr>vs_mach = m, vs_time = 0, vs_queue = empty_queue, vs_prev_val = [], vs_prev_mask = [], vs_triggered = {},
      vs_pending = {}, vs_pre_initial = None, vs_initial_dirty = {}, vs_finish = False, vs_display = [],
      vs_monitor = None, vs_monitor_prev = (\<lambda>sid. None), vs_own = (\<lambda>sid. None), vs_bootstrapped = False,
      vs_combo_bootstrapped = False, vs_stopped = False\<rparr>"

definition vm_elaborate :: "vm_design \<Rightarrow> machine \<Rightarrow> vm_sched res" where
  "vm_elaborate d m = rmap vm_initial_sched (vm_settle_all (vd_delta_limit d) d m)"

definition vm_schedule_at :: "int \<Rightarrow> vm_event \<Rightarrow> vm_sched \<Rightarrow> vm_sched" where
  "vm_schedule_at t e s = s\<lparr>vs_queue := schedule t e (vs_queue s)\<rparr>"

end
