(* ===== verification/Vm_Settled.thy ===== *)
theory Vm_Settled
  imports Propagation_Properties Vm_Scheduler Engine_Equiv Stack_Depth
begin

text \<open>
  The continuous assignments of the VM engine settle: the work list of \<open>_propagate_continuous\<close>, in whatever
  order the sets are iterated, and the single pass in the order of \<open>plan_continuous_order\<close> reach the same
  signals, and running any assignment again changes nothing.
\<close>

section \<open>Pure code\<close>

lemma pure_cases: "op \<in> pure_ops \<Longrightarrow> op \<in> {LOAD_SIG, LOAD_CONST, UPLUS, CONCAT} \<union> binary_ops \<union> unary_ops \<union> ternary_ops"
  unfolding pure_ops_def binary_ops_def unary_ops_def ternary_ops_def by (elim insertE emptyE) simp_all

lemma pure_direct: "op \<in> pure_ops \<Longrightarrow> op \<in> direct_ops \<longleftrightarrow> op \<in> {LOAD_SIG, LOAD_CONST, UPLUS, CONCAT}"
  unfolding pure_ops_def direct_ops_def by (elim insertE emptyE) simp_all

lemma pure_total:
  assumes "op \<in> pure_ops"
  shows "value_op m (op, a1, a2) st \<noteq> None"
proof (cases "op \<in> direct_ops")
  case True
  then have "op \<in> {LOAD_SIG, LOAD_CONST, UPLUS, CONCAT}" using pure_direct [OF assms] by simp
  then show ?thesis by (elim insertE emptyE) (simp_all add: value_op_def)
next
  case False
  then have "op \<in> binary_ops \<union> unary_ops \<union> ternary_ops" using pure_cases [OF assms] pure_direct [OF assms] by blast
  then show ?thesis
    unfolding value_op_computed [OF False] using fun_total(1) [of op] fun_total(2) [of op a1] fun_total(3) [of op]
    by (auto split: option.split)
qed

lemma not_stop:
  "as_signed v \<noteq> Inl StopSimulation" "py_trunc_div i j \<noteq> Inl StopSimulation" "sign_extend v w \<noteq> Inl StopSimulation"
  "stream_reverse v n \<noteq> Inl StopSimulation"
  by (auto simp: as_signed_def py_trunc_div_def sign_extend_def stream_reverse_def Let_def)

lemma rbind_eq_Inl_iff: "rbind m f = Inl e \<longleftrightarrow> m = Inl e \<or> (\<exists>x. m = Inr x \<and> f x = Inl e)"
  by (cases m) simp_all

lemma rmap_eq_Inl_iff: "rmap f m = Inl e \<longleftrightarrow> m = Inl e"
  by (cases m) simp_all

lemma signed_not_stop:
  "vm_sdiv a b \<noteq> Inl StopSimulation" "vm_smod a b \<noteq> Inl StopSimulation" "vm_spow a b \<noteq> Inl StopSimulation"
  "vm_signed_cmp a b c \<noteq> Inl StopSimulation"
  by (auto simp: vm_sdiv_def vm_smod_def vm_spow_def vm_signed_cmp_def rbind_eq_Inl_iff rmap_eq_Inl_iff not_stop)

lemma fun_not_stop:
  "binary_fun op = Some f \<Longrightarrow> f a b \<noteq> Inl StopSimulation"
  "unary_fun op a1 = Some g \<Longrightarrow> g a \<noteq> Inl StopSimulation"
  unfolding binary_fun_def unary_fun_def
  by (auto simp: signed_not_stop resize_op_def sign_ext_op_def not_stop split: if_splits)

lemma value_not_stop: "value_op m i st \<noteq> Some (Inl StopSimulation)"
proof -
  obtain op a1 a2 where i: "i = (op, a1, a2)" by (cases i)
  show ?thesis
  proof (cases "op \<in> direct_ops")
    case True
    then show ?thesis unfolding i direct_ops_def
      by (elim insertE emptyE) (auto simp: value_op_direct simp del: One_nat_def split: if_splits list.splits)
  next
    case False
    show ?thesis
      unfolding i value_op_computed [OF False]
      by (auto simp: rmap_eq_Inl_iff dest: fun_not_stop split: option.split list.split)
  qed
qed

lemma exec_list_not_stop: "exec_list m es st \<noteq> Inl StopSimulation"
proof (induction es arbitrary: st)
  case (Cons i es)
  show ?case
  proof (cases "value_op m i st")
    case (Some r)
    then show ?thesis using value_not_stop [of m i st] Cons by (auto simp: rbind_eq_Inl_iff)
  qed simp
qed simp

definition pure_code :: "program \<Rightarrow> bool" where
  "pure_code es \<longleftrightarrow> (\<forall>(op, a1, a2) \<in> set es. op \<in> pure_ops)"

lemma vm_run_exec_error:
  assumes "exec_list m es st = Inl e" "pure_code es"
  shows "vm_run (length es + fuel) (pre @ es @ post) \<lparr>c_pc = int (length pre), c_stack = st, c_iters = k, c_mach = m\<rparr>
    = Some (Raised e m)"
  using assms
proof (induction es arbitrary: st pre)
  case (Cons i es)
  obtain op a1 a2 where i: "i = (op, a1, a2)" by (cases i)
  have pure: "op \<in> pure_ops" "pure_code es" using Cons.prems(2) i by (auto simp: pure_code_def)
  obtain r where r: "value_op m i st = Some r" using pure_total [OF pure(1)] i by blast
  let ?c = "\<lparr>c_pc = int (length pre), c_stack = st, c_iters = k, c_mach = m\<rparr>"
  have at: "vm_step (pre @ (i # es) @ post) ?c = exec_instr i ?c" by (simp add: vm_step_def nth_append)
  show ?case
  proof (cases r)
    case (Inl e')
    have "\<not> control_op (fst i)" using value_op_not_control [OF r] .
    then have "exec_instr i ?c = Raised e' m" using r Inl i by (simp add: exec_instr_def control_op_def Let_def)
    moreover have "e' = e" using Cons.prems(1) r Inl by simp
    ultimately show ?thesis using at by simp
  next
    case (Inr t)
    have "exec_list m es t = Inl e" using Cons.prems(1) r Inr by simp
    from Cons.IH [OF this pure(2), of "pre @ [i]"]
    show ?thesis using at exec_instr_value [of m i ?c t] r Inr by (simp add: add.commute)
  qed
qed simp

section \<open>Planned programs\<close>

definition expr_code :: "vm_process \<Rightarrow> program" where
  "expr_code p = expression_part (vp_program p)"

definition store_arg :: "vm_process \<Rightarrow> int" where
  "store_arg p = fst (snd (last (butlast (vp_program p))))"

lemma planned_program:
  assumes "planned_target p = Some sid"
  obtains a2 b c where "vp_program p = expr_code p @ [(STORE_SIG, store_arg p, a2), (PROC_END, b, c)]"
    "nat (store_arg p) = sid" "pure_code (expr_code p)" "loads (expr_code p) = vp_sensitivity p"
proof -
  let ?prog = "vp_program p"
  have p: "3 \<le> length ?prog" "fst (last ?prog) = PROC_END" "fst (last (butlast ?prog)) = STORE_SIG"
    "pure_code (expr_code p)" "loads (expr_code p) = vp_sensitivity p" "nat (store_arg p) = sid"
    using assms unfolding planned_target_def Let_def expr_code_def store_arg_def pure_code_def
    by (auto split: if_splits)
  have ne: "?prog \<noteq> []" "butlast ?prog \<noteq> []" using p(1) by (cases ?prog; cases "tl ?prog"; simp)+
  have "?prog = expr_code p @ [last (butlast ?prog), last ?prog]"
    using append_butlast_last_id [OF ne(1)] append_butlast_last_id [OF ne(2)] unfolding expr_code_def
    by (metis append.assoc append_Cons append_Nil)
  moreover have "last (butlast ?prog) = (STORE_SIG, store_arg p, snd (snd (last (butlast ?prog))))"
    using p(3) by (simp add: store_arg_def prod_eq_iff)
  moreover have "last ?prog = (PROC_END, fst (snd (last ?prog)), snd (snd (last ?prog)))"
    using p(2) by (simp add: prod_eq_iff)
  ultimately show ?thesis using that p(4-6) by metis
qed

lemma three_more: "a + 3 \<le> (n :: nat) \<Longrightarrow> \<exists>k. n = a + Suc (Suc (Suc k))"
  by (rule exI [of _ "n - a - 3"]) simp

lemma exec_planned:
  assumes "planned_target p = Some sid"
  shows "exec_program (vp_program p) m = (case exec_list m (expr_code p) [] of
      Inl e \<Rightarrow> Inl e
    | Inr st \<Rightarrow> (case st of [] \<Rightarrow> Inl IndexError
        | v # _ \<Rightarrow> if valid_sig m (store_arg p) then Inr (store_sig m sid v, False) else Inl IndexError))"
proof -
  obtain a2 b c where p: "vp_program p = expr_code p @ [(STORE_SIG, store_arg p, a2), (PROC_END, b, c)]"
    "nat (store_arg p) = sid" "pure_code (expr_code p)" by (rule planned_program [OF assms])
  let ?es = "expr_code p" and ?fuel = "(loop_limit m + 1) * (length (vp_program p) + 1)"
  have "length ?es + 3 \<le> ?fuel" using p(1) by (cases "loop_limit m") auto
  then obtain k where k: "?fuel = length ?es + Suc (Suc (Suc k))" using three_more by blast
  have prog: "[] @ ?es @ [(STORE_SIG, store_arg p, a2), (PROC_END, b, c)] = vp_program p" using p(1) by simp
  have run: "execute ?fuel (vp_program p) m = vm_run (length ?es + Suc (Suc (Suc k)))
      ([] @ ?es @ [(STORE_SIG, store_arg p, a2), (PROC_END, b, c)])
      \<lparr>c_pc = int (length ([] :: program)), c_stack = [], c_iters = 0, c_mach = m\<rparr>"
    unfolding prog execute_def vm_init_def k by simp
  show ?thesis
  proof (cases "exec_list m ?es []")
    case (Inl e)
    then have "e \<noteq> StopSimulation" using exec_list_not_stop by metis
    moreover have "execute ?fuel (vp_program p) m = Some (Raised e m)"
      unfolding run by (rule vm_run_exec_error [OF Inl p(3)])
    ultimately show ?thesis using Inl by (simp add: exec_program_def)
  next
    case (Inr st)
    show ?thesis
      unfolding exec_program_def run vm_run_exec_list [OF Inr]
      using Inr p(2)
      by (cases st) (auto simp: vm_step_def exec_instr_def value_op_def store_op_def binary_fun_def unary_fun_def
          ternary_fun_def nth_append Let_def)
  qed
qed


section \<open>What an assignment depends on\<close>

text \<open>Machines that differ only in the signals outside \<open>S\<close>, and in what no pure program reads.\<close>

definition agree_sigs :: "nat set \<Rightarrow> machine \<Rightarrow> machine \<Rightarrow> bool" where
  "agree_sigs S m m' \<longleftrightarrow> const_pool m' = const_pool m \<and> sig_width m' = sig_width m \<and>
     length (sig_val m') = length (sig_val m) \<and> length (sig_mask m') = length (sig_mask m) \<and>
     loop_limit m' = loop_limit m \<and> (\<forall>sid \<in> S. sig_val m' ! sid = sig_val m ! sid \<and> sig_mask m' ! sid = sig_mask m ! sid)"

lemma agree_sigs_refl [simp]: "agree_sigs S m m"
  by (simp add: agree_sigs_def)

lemma agree_sigs_mono: "agree_sigs S m m' \<Longrightarrow> T \<subseteq> S \<Longrightarrow> agree_sigs T m m'"
  by (auto simp: agree_sigs_def)

lemma agree_sigs_trans: "agree_sigs S m m1 \<Longrightarrow> agree_sigs T m1 m2 \<Longrightarrow> agree_sigs (S \<inter> T) m m2"
  by (auto simp: agree_sigs_def)

lemma agree_sigs_sym: "agree_sigs S m m' \<Longrightarrow> agree_sigs S m' m"
  by (auto simp: agree_sigs_def)

lemma agree_value: "agree_sigs S m m' \<Longrightarrow> sid \<in> S \<Longrightarrow> sig_value m' sid = sig_value m sid"
  by (simp add: agree_sigs_def sig_value_def)

lemma agree_valid: "agree_sigs S m m' \<Longrightarrow> valid_sig m' a = valid_sig m a"
  by (simp add: agree_sigs_def valid_sig_def)

lemma value_op_agree:
  assumes "agree_sigs S m m'" "op \<in> pure_ops" "op = LOAD_SIG \<Longrightarrow> nat a1 \<in> S"
  shows "value_op m' (op, a1, a2) st = value_op m (op, a1, a2) st"
proof (cases "op \<in> direct_ops")
  case True
  then have "op \<in> {LOAD_SIG, LOAD_CONST, UPLUS, CONCAT}" using pure_direct [OF assms(2)] by simp
  then show ?thesis
  proof (elim insertE emptyE)
    assume op: "op = LOAD_SIG"
    then show ?thesis using agree_value [OF assms(1)] agree_valid [OF assms(1)] assms(3) by (simp add: value_op_def)
  qed (use assms(1) in \<open>simp_all add: value_op_def agree_sigs_def\<close>)
next
  case False
  show ?thesis unfolding value_op_computed [OF False] ..
qed

lemma loads_Cons: "loads (i # es) = (if fst i = LOAD_SIG then insert (nat (fst (snd i))) (loads es) else loads es)"
  by (cases i) (simp add: loads_def)

lemma exec_list_agree:
  assumes "agree_sigs (loads es) m m'" "pure_code es"
  shows "exec_list m' es st = exec_list m es st"
  using assms
proof (induction es arbitrary: st)
  case (Cons i es)
  obtain op a1 a2 where i: "i = (op, a1, a2)" by (cases i)
  have pure: "op \<in> pure_ops" "pure_code es" using Cons.prems(2) i by (auto simp: pure_code_def)
  have "loads es \<subseteq> loads (i # es)" by (auto simp: loads_Cons)
  then have ag: "agree_sigs (loads es) m m'" using agree_sigs_mono [OF Cons.prems(1)] by blast
  have "value_op m' i st = value_op m i st"
    unfolding i by (rule value_op_agree [OF Cons.prems(1) pure(1)]) (auto simp: i loads_Cons)
  moreover have "exec_list m' es = exec_list m es" using Cons.IH [OF ag pure(2)] by blast
  ultimately show ?case by (simp cong: option.case_cong)
qed simp

text \<open>The value that an assignment gives its target.\<close>

definition assigned_value :: "vm_process \<Rightarrow> machine \<Rightarrow> val4 res" where
  "assigned_value p m = (case exec_list m (expr_code p) [] of
     Inl e \<Rightarrow> Inl e
   | Inr st \<Rightarrow> (case st of [] \<Rightarrow> Inl IndexError
       | v # _ \<Rightarrow> if valid_sig m (store_arg p) then Inr v else Inl IndexError))"

lemma exec_assigned:
  assumes "planned_target p = Some sid"
  shows "exec_program (vp_program p) m = rmap (\<lambda>v. (store_sig m sid v, False)) (assigned_value p m)"
  unfolding exec_planned [OF assms] assigned_value_def by (auto split: sum.split list.split)

lemma assigned_agree:
  assumes "planned_target p = Some sid" "agree_sigs (vp_sensitivity p) m m'"
  shows "assigned_value p m' = assigned_value p m"
proof -
  obtain a2 b c where p: "pure_code (expr_code p)" "loads (expr_code p) = vp_sensitivity p"
    by (rule planned_program [OF assms(1)])
  have "exec_list m' (expr_code p) [] = exec_list m (expr_code p) []"
    using exec_list_agree [OF _ p(1)] assms(2) p(2) by simp
  then show ?thesis using agree_valid [OF assms(2)] by (simp add: assigned_value_def cong: sum.case_cong list.case_cong)
qed

lemma assigned_valid:
  assumes "planned_target p = Some sid" "assigned_value p m = Inr v"
  shows "sid < length (sig_val m)" "sid < length (sig_mask m)" "sid < length (sig_width m)"
proof -
  have "valid_sig m (store_arg p)" using assms(2) by (auto simp: assigned_value_def split: sum.splits list.splits if_splits)
  moreover have "nat (store_arg p) = sid" by (rule planned_program [OF assms(1)])
  ultimately show "sid < length (sig_val m)" "sid < length (sig_mask m)" "sid < length (sig_width m)"
    by (auto simp: valid_sig_def)
qed

lemma store_sig_agree: "agree_sigs (- {sid}) m (store_sig m sid v)"
  by (auto simp: store_sig_def set_signal_def agree_sigs_def Let_def nth_list_update)

lemma store_sig_dirty: "dirty (store_sig m sid v) \<subseteq> insert sid (dirty m)" "dirty m \<subseteq> dirty (store_sig m sid v)"
  "sid \<notin> dirty (store_sig m sid v) \<Longrightarrow> store_sig m sid v = m"
  by (auto simp: store_sig_def set_signal_def Let_def)

text \<open>An assignment holds when running it again changes nothing.\<close>

definition vm_holds :: "machine \<Rightarrow> vm_process \<Rightarrow> bool" where
  "vm_holds m p \<longleftrightarrow> exec_program (vp_program p) m = Inr (m, False)"

lemma store_sig_same:
  assumes "sid < length (sig_val m)" "sid < length (sig_mask m)"
  shows "store_sig m sid v = m \<longleftrightarrow>
    sig_val m ! sid = v_val v AND width_mask (sig_width m ! sid) AND NOT (v_mask v) \<and>
    sig_mask m ! sid = v_mask v AND width_mask (sig_width m ! sid)"
proof -
  have "sig_val (store_sig m sid v) ! sid = v_val v AND width_mask (sig_width m ! sid) AND NOT (v_mask v)"
    "sig_mask (store_sig m sid v) ! sid = v_mask v AND width_mask (sig_width m ! sid)"
    using assms by (simp_all add: store_sig_def set_signal_def Let_def)
  moreover have "store_sig m sid v = m" if "sig_val m ! sid = v_val v AND width_mask (sig_width m ! sid) AND NOT (v_mask v)"
    "sig_mask m ! sid = v_mask v AND width_mask (sig_width m ! sid)"
    using that by (simp add: store_sig_def set_signal_def Let_def)
  ultimately show ?thesis by metis
qed

lemma vm_holds_iff:
  assumes "planned_target p = Some sid"
  shows "vm_holds m p \<longleftrightarrow> (\<exists>v. assigned_value p m = Inr v \<and> store_sig m sid v = m)"
  unfolding vm_holds_def exec_assigned [OF assms] by (auto simp: rmap_eq_Inr_iff)

lemma vm_holds_agree:
  assumes "planned_target p = Some sid" "agree_sigs (insert sid (vp_sensitivity p)) m m'" "vm_holds m p"
  shows "vm_holds m' p"
proof -
  obtain v where v: "assigned_value p m = Inr v" "store_sig m sid v = m" using assms(3) vm_holds_iff [OF assms(1)] by blast
  note l = assigned_valid [OF assms(1) v(1)]
  have "assigned_value p m' = Inr v"
    using assigned_agree [OF assms(1) agree_sigs_mono [OF assms(2) subset_insertI]] v(1) by simp
  moreover have "store_sig m' sid v = m'"
    using v(2) l assms(2) store_sig_same [OF l(1,2)] store_sig_same [of sid m'] by (auto simp: agree_sigs_def)
  ultimately show ?thesis using vm_holds_iff [OF assms(1)] by blast
qed

text \<open>What running an assignment does.\<close>

lemma exec_assign:
  assumes "planned_target p = Some sid" "exec_program (vp_program p) m = Inr (m', stop)"
  shows "\<not> stop" "agree_sigs (- {sid}) m m'" "dirty m \<subseteq> dirty m'" "dirty m' \<subseteq> insert sid (dirty m)"
    "sid \<notin> dirty m' \<Longrightarrow> m' = m" "sid \<notin> vp_sensitivity p \<Longrightarrow> vm_holds m' p"
proof -
  obtain v where v: "assigned_value p m = Inr v" "m' = store_sig m sid v" "\<not> stop"
    using assms(2) unfolding exec_assigned [OF assms(1)] by (auto simp: rmap_eq_Inr_iff)
  show "\<not> stop" by (rule v(3))
  show ag: "agree_sigs (- {sid}) m m'" using v(2) store_sig_agree by simp
  show "dirty m \<subseteq> dirty m'" "dirty m' \<subseteq> insert sid (dirty m)" "sid \<notin> dirty m' \<Longrightarrow> m' = m"
    using v(2) store_sig_dirty by simp_all
  show "vm_holds m' p" if "sid \<notin> vp_sensitivity p"
  proof -
    have "agree_sigs (vp_sensitivity p) m m'" by (rule agree_sigs_mono [OF ag]) (use that in auto)
    then have a: "assigned_value p m' = Inr v" using assigned_agree [OF assms(1)] v(1) by simp
    have l: "sid < length (sig_val m)" "sid < length (sig_mask m)" using assigned_valid [OF assms(1) v(1)] by simp_all
    have l': "sid < length (sig_val m')" "sid < length (sig_mask m')" "sig_width m' = sig_width m"
      using l ag by (simp_all add: agree_sigs_def)
    have "store_sig m' sid v = m'"
      unfolding store_sig_same [OF l'(1,2)] using l l'(3) v(2) by (simp add: store_sig_def set_signal_def Let_def)
    then show ?thesis using vm_holds_iff [OF assms(1)] a by blast
  qed
qed


section \<open>Settled machines\<close>

text \<open>The continuous assignments \<open>ps\<close> with their targets, each one planned and with a target of its own.\<close>

definition targets :: "vm_process list \<Rightarrow> nat set" where
  "targets ps = dest ps ` {..<length ps}"

definition vm_settled :: "vm_process list \<Rightarrow> machine \<Rightarrow> bool" where
  "vm_settled ps m \<longleftrightarrow> (\<forall>p \<in> set ps. vm_holds m p)"

text \<open>A list of assignments in an order of the plan: every later one is read by no earlier one, nor by itself.\<close>

fun ordered :: "vm_process list \<Rightarrow> nat list \<Rightarrow> bool" where
  "ordered ps [] = True"
| "ordered ps (i # is) = (i < length ps \<and> (\<forall>j \<in> set (i # is). \<not> feeds ps j i \<and> (j \<noteq> i \<longrightarrow> dest ps j \<noteq> dest ps i)) \<and> ordered ps is)"

lemma ordered_pass:
  assumes "\<forall>i < length ps. planned_target (ps ! i) = Some (dest ps i)"
    and "exec_programs (map (\<lambda>i. vp_program (ps ! i)) is) m = Inr (m', stop)" "ordered ps is" "distinct is"
  shows "\<not> stop \<and> agree_sigs (- dest ps ` set is) m m' \<and> (\<forall>i \<in> set is. vm_holds m' (ps ! i))"
  using assms(2-4)
proof (induction "is" arbitrary: m stop)
  case Nil
  then show ?case by simp
next
  case (Cons i "is")
  have i: "i < length ps" "ordered ps is" "distinct is" "i \<notin> set is"
    "\<forall>j \<in> set (i # is). \<not> feeds ps j i \<and> (j \<noteq> i \<longrightarrow> dest ps j \<noteq> dest ps i)" using Cons.prems(2,3) by auto
  obtain m1 st1 st2 where 1: "exec_program (vp_program (ps ! i)) m = Inr (m1, st1)"
    "exec_programs (map (\<lambda>i. vp_program (ps ! i)) is) m1 = Inr (m', st2)" "stop = (st1 \<or> st2)"
    using Cons.prems(1) by (auto simp: rbind_eq_Inr_iff rmap_eq_Inr_iff)
  have t: "planned_target (ps ! i) = Some (dest ps i)" using assms(1) i(1) by simp
  note e = exec_assign [OF t 1(1)] and ih = Cons.IH [OF 1(2) i(2,3)]
  have "dest ps i \<notin> vp_sensitivity (ps ! i)" using i(5) by (simp add: feeds_def)
  then have h: "vm_holds m1 (ps ! i)" using e(6) by simp
  have "insert (dest ps i) (vp_sensitivity (ps ! i)) \<inter> dest ps ` set is = {}"
    using i(4,5) by (auto simp: feeds_def)
  then have "agree_sigs (insert (dest ps i) (vp_sensitivity (ps ! i))) m1 m'"
    using ih agree_sigs_mono [of "- dest ps ` set is" m1 m'] by blast
  then have "vm_holds m' (ps ! i)" using vm_holds_agree [OF t _ h] by blast
  moreover have "agree_sigs (- dest ps ` set (i # is)) m m'"
    using agree_sigs_trans [OF e(2), of "- dest ps ` set is" m'] ih by (rule_tac agree_sigs_mono) auto
  ultimately show ?case using 1(3) e(1) ih by simp
qed

text \<open>Machines that are settled and agree on all signals but the targets agree on all.\<close>

lemma settled_unique:
  assumes "\<forall>i < length ps. planned_target (ps ! i) = Some (dest ps i)"
    and "ordered ps is" "set is \<subseteq> {..<length ps}" "agree_sigs (- dest ps ` set is) m m'"
    and "\<forall>i \<in> set is. vm_holds m (ps ! i) \<and> vm_holds m' (ps ! i)"
  shows "agree_sigs UNIV m m'"
  using assms(2-5)
proof (induction "is")
  case Nil
  then show ?case by simp
next
  case (Cons i "is")
  let ?d = "dest ps i" and ?p = "ps ! i"
  have i: "i < length ps" "ordered ps is" "\<forall>j \<in> set (i # is). \<not> feeds ps j i" using Cons.prems(1) by auto
  have t: "planned_target ?p = Some ?d" using assms(1) i(1) by simp
  have sens: "agree_sigs (vp_sensitivity ?p) m m'"
    by (rule agree_sigs_mono [OF Cons.prems(3)]) (use i(3) in \<open>auto simp: feeds_def\<close>)
  obtain v where v: "assigned_value ?p m = Inr v" "store_sig m ?d v = m"
    using Cons.prems(4) vm_holds_iff [OF t] by auto
  obtain u where u: "assigned_value ?p m' = Inr u" "store_sig m' ?d u = m'"
    using Cons.prems(4) vm_holds_iff [OF t] by auto
  have "u = v" using assigned_agree [OF t sens] v(1) u(1) by simp
  then have "sig_val m' ! ?d = sig_val m ! ?d \<and> sig_mask m' ! ?d = sig_mask m ! ?d"
    using v(2) u(2) store_sig_same [OF assigned_valid(1,2) [OF t v(1)]] store_sig_same [OF assigned_valid(1,2) [OF t u(1)]]
      sens by (simp add: agree_sigs_def)
  then have "agree_sigs (- dest ps ` set is) m m'"
    using Cons.prems(3) by (auto simp: agree_sigs_def)
  then show ?case using Cons.IH [OF i(2)] Cons.prems(2,4) by simp
qed

lemma plan_ordered:
  assumes "plan_continuous_order procs = Some (order, depth)" "ps = continuous_part procs"
  shows "\<forall>i < length ps. planned_target (ps ! i) = Some (dest ps i)" "ordered ps order" "distinct order"
    "set order = {..<length ps}"
proof -
  note sound = plan_is_sound [OF assms(1)]
  obtain w where w: "find_writers ps 0 (\<lambda>sid. None) = Some w" by (rule planE [OF assms(1)]) (simp add: assms(2))
  show "\<forall>i < length ps. planned_target (ps ! i) = Some (dest ps i)" by (rule writers_known(1) [OF w])
  have inj: "\<And>i j. i < length ps \<Longrightarrow> j < length ps \<Longrightarrow> dest ps i = dest ps j \<Longrightarrow> i = j" by (rule writers_known(3) [OF w])
  show "distinct order" "set order = {..<length ps}" using sound assms(2) by simp_all
  have before: "a < b" if "a < length order" "b < length order" "feeds ps (order ! a) (order ! b)" for a b
    using sound assms(2) that by blast
  have "ordered ps (drop k order)" for k
  proof (induction "length order - k" arbitrary: k)
    case 0
    then show ?case by simp
  next
    case (Suc n)
    then have k: "k < length order" by simp
    have rest: "ordered ps (drop (Suc k) order)" using Suc by simp
    have "\<not> feeds ps j (order ! k) \<and> (j \<noteq> order ! k \<longrightarrow> dest ps j \<noteq> dest ps (order ! k))" if j: "j \<in> set (drop k order)" for j
    proof -
      obtain c where "c < length order - k" "j = order ! (k + c)" using j by (auto simp: in_set_conv_nth)
      then have c: "k + c < length order" "j = order ! (k + c)" by simp_all
      have "\<not> feeds ps j (order ! k)" using before [of "k + c" k] c k by auto
      moreover have "j < length ps" "order ! k < length ps" using c k nth_mem sound assms(2) by blast+
      ultimately show ?thesis using inj by blast
    qed
    moreover have "drop k order = order ! k # drop (Suc k) order" using k by (simp add: Cons_nth_drop_Suc)
    moreover have "order ! k < length ps" using k nth_mem sound assms(2) by blast
    ultimately show ?case using rest by simp
  qed
  from this [of 0] show "ordered ps order" by simp
qed

text \<open>C12: One pass in the planned order settles. Whatever the signals hold, running each continuous assignment
  once in the order of the plan leaves a machine in which running any of them again changes nothing, and
  changes no other signal.\<close>

theorem planned_pass_settles:
  assumes "plan_continuous_order procs = Some (order, depth)" "ps = continuous_part procs"
    and "exec_programs (map (\<lambda>i. vp_program (ps ! i)) order) m = Inr (m', stop)"
  shows "vm_settled ps m' \<and> agree_sigs (- targets ps) m m'"
proof -
  note o = plan_ordered [OF assms(1,2)]
  from ordered_pass [OF o(1) assms(3) o(2,3)] show ?thesis
    using o(4) by (auto simp: vm_settled_def targets_def in_set_conv_nth)
qed


section \<open>The work list\<close>

lemma plan_ranks:
  assumes "plan_continuous_order procs = Some (order, depth)" "ps = continuous_part procs"
  shows "\<exists>r. (\<forall>i < length ps. \<forall>j < length ps. feeds ps i j \<longrightarrow> r i < r j) \<and> (\<forall>i < length ps. 0 < r i \<and> r i \<le> depth)"
proof -
  obtain w pl where w: "find_writers ps 0 (\<lambda>sid. None) = Some w" and inv: "plan_inv (length ps) (sources ps w) pl"
    and pl: "pl_order pl = order" "depth = Max (set (pl_depth pl))"
    using planE [OF assms(1)] unfolding assms(2) by metis
  let ?r = "\<lambda>i. pl_depth pl ! i"
  have all: "set order = {..<length ps}" by (rule plan_ordered(4) [OF assms])
  have len: "length (pl_depth pl) = length ps" using inv by (simp add: plan_inv_def)
  have depth: "?r j = Suc (source_depth (sources ps w) (set order) (pl_depth pl) j)" if "j < length ps" for j
    using inv that pl(1) by (simp add: plan_inv_def)
  have 1: "?r i < ?r j" if ij: "i < length ps" "j < length ps" "feeds ps i j" for i j
  proof -
    have "i \<in> set (sources ps w j) \<inter> set order" using sources_feeds(1) [OF w ij(2)] ij all by auto
    then have "?r i \<le> source_depth (sources ps w) (set order) (pl_depth pl) j"
      unfolding source_depth_def by (intro Max_ge) auto
    then show ?thesis using depth [OF ij(2)] by simp
  qed
  have 2: "0 < ?r i \<and> ?r i \<le> depth" if i: "i < length ps" for i
  proof -
    have "?r i \<le> depth" unfolding pl(2) using len i by (intro Max_ge) simp_all
    then show ?thesis using depth [OF i] by simp
  qed
  show ?thesis using 1 2 by (intro exI [of _ ?r]) simp
qed

lemma first_seen_set [simp]: "set (first_seen xs) = set xs"
  by (simp add: first_seen_def)

text \<open>
  One pass: the assignments \<open>C\<close> have targets of their own and none reads its own target. If every
  assignment that is not in the list holds, or reads a changed signal, the same is true after the pass of all.
\<close>

definition own_targets :: "vm_process list \<Rightarrow> nat set \<Rightarrow> bool" where
  "own_targets ps C \<longleftrightarrow> (\<forall>i \<in> C. planned_target (ps ! i) = Some (dest ps i) \<and> \<not> feeds ps i i \<and>
     (\<forall>j \<in> C. dest ps i = dest ps j \<longrightarrow> i = j))"

lemma work_pass:
  assumes "own_targets ps C"
    and "exec_programs (map (\<lambda>i. vp_program (ps ! i)) is) m = Inr (m', stop)" "set is \<subseteq> C"
    and "\<forall>i \<in> C. i \<in> set is \<or> vp_sensitivity (ps ! i) \<inter> dirty m \<noteq> {} \<or> vm_holds m (ps ! i)"
  shows "(\<forall>i \<in> C. vp_sensitivity (ps ! i) \<inter> dirty m' = {} \<longrightarrow> vm_holds m' (ps ! i)) \<and>
    dirty m \<subseteq> dirty m' \<and> dirty m' \<subseteq> dirty m \<union> dest ps ` set is \<and> agree_sigs (- dest ps ` set is) m m'"
  using assms(2-4)
proof (induction "is" arbitrary: m stop)
  case Nil
  then show ?case by auto
next
  case (Cons i "is")
  obtain m1 st1 st2 where 1: "exec_program (vp_program (ps ! i)) m = Inr (m1, st1)"
    "exec_programs (map (\<lambda>i. vp_program (ps ! i)) is) m1 = Inr (m', st2)"
    using Cons.prems(1) by (auto simp: rbind_eq_Inr_iff rmap_eq_Inr_iff)
  have i: "i \<in> C" "set is \<subseteq> C" using Cons.prems(2) by simp_all
  then have t: "planned_target (ps ! i) = Some (dest ps i)" "dest ps i \<notin> vp_sensitivity (ps ! i)"
    using assms(1) by (auto simp: own_targets_def feeds_def)
  note e = exec_assign [OF t(1) 1(1)]
  have next': "j \<in> set is \<or> vp_sensitivity (ps ! j) \<inter> dirty m1 \<noteq> {} \<or> vm_holds m1 (ps ! j)" if j: "j \<in> C" for j
  proof (cases "j = i \<or> j \<in> set is \<or> vp_sensitivity (ps ! j) \<inter> dirty m \<noteq> {}")
    case True
    then show ?thesis using e(3,6) t(2) by auto
  next
    case False
    then have h: "vm_holds m (ps ! j)" using Cons.prems(3) j by auto
    have tj: "planned_target (ps ! j) = Some (dest ps j)" "dest ps j \<noteq> dest ps i"
      using assms(1) i(1) j False by (auto simp: own_targets_def)
    show ?thesis
    proof (cases "dest ps i \<in> dirty m1")
      case changed: True
      show ?thesis
      proof (cases "dest ps i \<in> vp_sensitivity (ps ! j)")
        case True
        then show ?thesis using changed by blast
      next
        case False
        have "agree_sigs (insert (dest ps j) (vp_sensitivity (ps ! j))) m m1"
          by (rule agree_sigs_mono [OF e(2)]) (use False tj(2) in auto)
        then show ?thesis using vm_holds_agree [OF tj(1) _ h] by blast
      qed
    next
      case False
      then show ?thesis using e(5) h by simp
    qed
  qed
  note ih = Cons.IH [OF 1(2) i(2)]
  have ih': "(\<forall>i \<in> C. vp_sensitivity (ps ! i) \<inter> dirty m' = {} \<longrightarrow> vm_holds m' (ps ! i)) \<and>
      dirty m1 \<subseteq> dirty m' \<and> dirty m' \<subseteq> dirty m1 \<union> dest ps ` set is \<and> agree_sigs (- dest ps ` set is) m1 m'"
    using ih next' by blast
  have "agree_sigs (- dest ps ` set (i # is)) m m'"
    using agree_sigs_trans [OF e(2), of "- dest ps ` set is" m'] ih' by (rule_tac agree_sigs_mono) auto
  then show ?case using ih' e(3,4) by auto
qed

definition iter_ok :: "vm_design \<Rightarrow> bool" where
  "iter_ok d \<longleftrightarrow> (\<forall>S. finite S \<longrightarrow> set (vd_iter d S) = S)"

lemma affected_set:
  assumes "iter_ok d" "finite work"
  shows "set (affected d (cont_procs d) work) =
    {i \<in> set (cont_procs d). vp_sensitivity (vm_proc d i) \<inter> work \<noteq> {}}"
  using assms by (auto simp: affected_def readers_def iter_ok_def)

lemma propagate_settles:
  assumes "own_targets (vd_processes d) (set (cont_procs d))" "iter_ok d"
    and rank: "\<And>i j. i \<in> set (cont_procs d) \<Longrightarrow> j \<in> set (cont_procs d) \<Longrightarrow> feeds (vd_processes d) i j \<Longrightarrow> r i < r j"
    "\<And>i. i \<in> set (cont_procs d) \<Longrightarrow> 0 < r i \<and> r i \<le> depth" and pos: "0 < depth"
    and "vm_propagate n d work changed m = Inr (m', changed')" "finite work" "depth \<le> n + k"
    and "\<forall>i \<in> set (cont_procs d). vp_sensitivity (vm_proc d i) \<inter> work = {} \<longrightarrow> vm_holds m (vm_proc d i)"
    and "0 < k \<longrightarrow> work \<subseteq> dest (vd_processes d) ` {i \<in> set (cont_procs d). k \<le> r i}"
  shows "(\<forall>i \<in> set (cont_procs d). vm_holds m' (vm_proc d i)) \<and>
    agree_sigs (- dest (vd_processes d) ` set (cont_procs d)) m m'"
  using assms(6-10)
proof (induction n arbitrary: work changed m k)
  case 0
  have "vp_sensitivity (vm_proc d i) \<inter> work = {}" if i: "i \<in> set (cont_procs d)" for i
  proof (rule ccontr)
    assume "vp_sensitivity (vm_proc d i) \<inter> work \<noteq> {}"
    moreover have "0 < k" using 0(3) pos by simp
    ultimately obtain j where j: "j \<in> set (cont_procs d)" "k \<le> r j" "feeds (vd_processes d) j i"
      using 0(5) by (auto simp: feeds_def)
    then have "depth < r i" using rank(1) [OF j(1) i j(3)] 0(3) by simp
    then show False using rank(2) [OF i] by simp
  qed
  then show ?case using 0(1,4) by simp
next
  case (Suc n)
  let ?C = "set (cont_procs d)" and ?ps = "vd_processes d"
  show ?case
  proof (cases "work = {}")
    case True
    then show ?thesis using Suc.prems(1,4) by simp
  next
    case False
    let ?m = "clear_dirty m"
    obtain m1 stop where 1: "exec_programs (programs d (affected d (cont_procs d) work)) ?m = Inr (m1, stop)"
      "vm_propagate n d (dirty m1) (changed \<union> dirty m1) m1 = Inr (m', changed')"
      using Suc.prems(1) False by (auto simp: vm_run_dirty_def rbind_eq_Inr_iff rmap_eq_Inr_iff)
    have aff: "set (affected d (cont_procs d) work) = {i \<in> ?C. vp_sensitivity (vm_proc d i) \<inter> work \<noteq> {}}"
      by (rule affected_set [OF assms(2) Suc.prems(2)])
    have clear: "dirty ?m = {}" "agree_sigs S m ?m" for S by (simp_all add: clear_dirty_def agree_sigs_def)
    have holds: "vm_holds ?m (vm_proc d i)" if "i \<in> ?C" "vm_holds m (vm_proc d i)" for i
      using vm_holds_agree [OF _ clear(2) that(2)] assms(1) that(1) by (auto simp: own_targets_def)
    have start: "\<forall>i \<in> ?C. i \<in> set (affected d (cont_procs d) work) \<or> vp_sensitivity (vm_proc d i) \<inter> dirty ?m \<noteq> {} \<or>
        vm_holds ?m (vm_proc d i)"
      using aff Suc.prems(4) holds by auto
    have sub: "set (affected d (cont_procs d) work) \<subseteq> ?C" using aff by auto
    note p = work_pass [OF assms(1) 1(1) sub start]
    have dirty1: "dirty m1 \<subseteq> dest ?ps ` set (affected d (cont_procs d) work)" using p clear(1) by simp
    have fin: "finite (dirty m1)" using finite_subset [OF dirty1] by simp
    have level: "Suc k \<le> r i" if ia: "i \<in> set (affected d (cont_procs d) work)" for i
    proof (cases "k = 0")
      case True
      then show ?thesis using rank(2) [of i] ia aff by simp
    next
      case False
      obtain sid where sid: "i \<in> ?C" "sid \<in> vp_sensitivity (vm_proc d i)" "sid \<in> work" using ia unfolding aff by blast
      then obtain j where j: "j \<in> ?C" "k \<le> r j" "sid = dest ?ps j" using Suc.prems(5) False by auto
      have "r j < r i" by (rule rank(1) [OF j(1) sid(1)]) (use sid(2) j(3) in \<open>simp add: feeds_def\<close>)
      then show ?thesis using j(2) by simp
    qed
    have "dirty m1 \<subseteq> dest ?ps ` {i \<in> ?C. Suc k \<le> r i}"
      using dirty1 level sub by blast
    moreover have "depth \<le> n + Suc k" using Suc.prems(3) by simp
    ultimately have ih: "(\<forall>i \<in> ?C. vm_holds m' (vm_proc d i)) \<and> agree_sigs (- dest ?ps ` ?C) m1 m'"
      using Suc.IH [OF 1(2) fin, of "Suc k"] p by blast
    have "agree_sigs (- dest ?ps ` ?C) m m1"
      using agree_sigs_trans [OF clear(2) [of UNIV], of "- dest ?ps ` set (affected d (cont_procs d) work)" m1] p sub
      by (rule_tac agree_sigs_mono) auto
    then show ?thesis using ih agree_sigs_trans [of _ m m1 _ m'] by (metis Int_absorb)
  qed
qed


section \<open>Both ways agree\<close>

lemma continuous_index:
  "continuous_part (vd_processes d) = map (vm_proc d) (cont_procs d)" "distinct (cont_procs d)"
proof -
  have "filter P xs = map ((!) xs) (filter (\<lambda>i. P (xs ! i)) [0..<length xs])" for P and xs :: "vm_process list"
    by (simp add: filter_map [unfolded o_def, symmetric] map_nth)
  then show "continuous_part (vd_processes d) = map (vm_proc d) (cont_procs d)"
    by (simp add: continuous_part_def cont_procs_def procs_of_def)
  show "distinct (cont_procs d)" by (simp add: cont_procs_def procs_of_def)
qed

lemma plan_propagation:
  assumes "plan_continuous_order (vd_processes d) = Some (order, depth)" "ps = continuous_part (vd_processes d)"
    and "iter_ok d" "depth \<le> vd_delta_limit d" "vm_propagate (vd_delta_limit d) d D changed m = Inr (m', changed')" "finite D"
    and "\<forall>p \<in> set ps. vp_sensitivity p \<inter> D = {} \<longrightarrow> vm_holds m p"
  shows "vm_settled ps m' \<and> agree_sigs (- targets ps) m m'"
proof -
  let ?c = "cont_procs d" and ?ps = "vd_processes d"
  note o = plan_ordered [OF assms(1,2)] and sound = plan_is_sound [OF assms(1), folded assms(2)]
  have ps: "ps = map (vm_proc d) ?c" using continuous_index(1) assms(2) by simp
  have at: "ps ! k = vm_proc d (?c ! k)" if "k < length ?c" for k using that ps by simp
  have dest: "dest ?ps (?c ! k) = dest ps k" if "k < length ?c" for k using at [OF that] by (simp add: dest_def)
  have feed: "feeds ?ps (?c ! i) (?c ! j) = feeds ps i j" if "i < length ?c" "j < length ?c" for i j
    using at [OF that(2)] dest [OF that(1)] by (simp add: feeds_def)
  obtain w where w: "find_writers ps 0 (\<lambda>sid. None) = Some w" by (rule planE [OF assms(1)]) (simp add: assms(2))
  have index: "\<exists>k < length ?c. ?c ! k = i" if "i \<in> set ?c" for i using that by (auto simp: in_set_conv_nth)
  have noself: "\<not> feeds ps k k" if "k < length ps" for k
  proof -
    have "k \<in> set order" using o(4) that by simp
    then obtain a where "a < length order" "order ! a = k" by (auto simp: in_set_conv_nth)
    then show ?thesis using sound by blast
  qed
  have own: "own_targets ?ps (set ?c)"
    unfolding own_targets_def
  proof (intro ballI conjI impI)
    fix i assume "i \<in> set ?c"
    then obtain k where k: "k < length ?c" "?c ! k = i" using index by blast
    then show "planned_target (?ps ! i) = Some (dest ?ps i)" "\<not> feeds ?ps i i"
      using o(1) dest [OF k(1)] at [OF k(1)] feed [OF k(1) k(1)] noself [of k] ps by auto
    fix j assume "j \<in> set ?c" and eq: "dest ?ps i = dest ?ps j"
    then obtain l where l: "l < length ?c" "?c ! l = j" using index by blast
    then show "i = j" using eq k dest writers_known(3) [OF w, of k l] ps by auto
  qed
  obtain r where r: "\<forall>i < length ps. \<forall>j < length ps. feeds ps i j \<longrightarrow> r i < r j"
    "\<forall>i < length ps. 0 < r i \<and> r i \<le> depth" using plan_ranks [OF assms(1,2)] by blast
  define pos where "pos i = (LEAST k. k < length ?c \<and> ?c ! k = i)" for i
  have pos: "pos i < length ?c" "?c ! pos i = i" if "i \<in> set ?c" for i
    using LeastI_ex [OF index [OF that]] by (simp_all add: pos_def)
  have 1: "r (pos i) < r (pos j)" if "i \<in> set ?c" "j \<in> set ?c" "feeds ?ps i j" for i j
    using r(1) feed [of "pos i" "pos j"] pos that ps by simp
  have 2: "0 < r (pos i) \<and> r (pos i) \<le> depth" if "i \<in> set ?c" for i
    using r(2) pos(1) [OF that] ps by simp
  have "ps \<noteq> []" by (rule planE [OF assms(1)]) (simp add: assms(2))
  then have "0 < length ps" by simp
  then have "0 < r 0 \<and> r 0 \<le> depth" using r(2) by blast
  then have depth: "0 < depth" by linarith
  have "(\<forall>i \<in> set ?c. vm_holds m' (vm_proc d i)) \<and> agree_sigs (- dest ?ps ` set ?c) m m'"
  proof (rule propagate_settles [OF own assms(3) 1 2 depth assms(5,6), where k = 0])
    show "depth \<le> vd_delta_limit d + 0" using assms(4) by simp
    show "\<forall>i \<in> set ?c. vp_sensitivity (vm_proc d i) \<inter> D = {} \<longrightarrow> vm_holds m (vm_proc d i)" using assms(7) ps by simp
  qed simp_all
  moreover have "dest ?ps ` set ?c = targets ps"
  proof -
    have "map (dest ?ps) ?c = map (dest ps) [0..<length ?c]" using dest by (intro nth_equalityI) simp_all
    then have "set (map (dest ?ps) ?c) = set (map (dest ps) [0..<length ?c])" by simp
    then show ?thesis using ps by (simp add: targets_def atLeast0LessThan)
  qed
  ultimately show ?thesis using ps by (simp add: vm_settled_def)
qed

text \<open>C11: The work list of the VM scheduler and the planned order agree. Start from a machine where every
  continuous assignment holds and change the signals of \<open>D\<close>, none of them a target. If there is a plan and
  \<open>delta_limit\<close> is at least its depth, then \<open>_propagate_continuous\<close>, whatever the order in which the sets are
  iterated, settles, and leaves the same signals as running each assignment once in the planned order.\<close>

theorem propagation_matches_plan:
  assumes "plan_continuous_order (vd_processes d) = Some (order, depth)" "ps = continuous_part (vd_processes d)"
    and "iter_ok d" "depth \<le> vd_delta_limit d"
    and "vm_settled ps m0" "agree_sigs (- D) m0 m" "D \<inter> targets ps = {}" "finite D"
    and "vm_propagate (vd_delta_limit d) d D changed m = Inr (m1, changed1)"
    and "exec_programs (map (\<lambda>i. vp_program (ps ! i)) order) m = Inr (m2, stop)"
  shows "vm_settled ps m1 \<and> sig_val m1 = sig_val m2 \<and> sig_mask m1 = sig_mask m2"
proof -
  note o = plan_ordered [OF assms(1,2)]
  have holds: "vm_holds m p" if p: "p \<in> set ps" "vp_sensitivity p \<inter> D = {}" for p
  proof -
    obtain i where i: "i < length ps" "p = ps ! i" using p(1) by (auto simp: in_set_conv_nth)
    then have t: "planned_target p = Some (dest ps i)" using o(1) by simp
    have "dest ps i \<notin> D" using assms(7) i(1) by (auto simp: targets_def)
    then have "agree_sigs (insert (dest ps i) (vp_sensitivity p)) m0 m"
      by (intro agree_sigs_mono [OF assms(6)]) (use p(2) in auto)
    then show ?thesis using vm_holds_agree [OF t] assms(5) p(1) by (simp add: vm_settled_def)
  qed
  have one: "vm_settled ps m1" "agree_sigs (- targets ps) m m1"
    using plan_propagation [OF assms(1-4,9,8)] holds by simp_all
  have two: "vm_settled ps m2" "agree_sigs (- targets ps) m m2"
  proof -
    from ordered_pass [OF o(1) assms(10) o(2,3)] show "vm_settled ps m2" "agree_sigs (- targets ps) m m2"
      using o(4) by (auto simp: vm_settled_def targets_def in_set_conv_nth)
  qed
  have t: "dest ps ` set order = targets ps" using o(4) by (simp add: targets_def)
  have "agree_sigs (- dest ps ` set order) m1 m2"
    unfolding t using agree_sigs_trans [OF agree_sigs_sym [OF one(2)] two(2)] by simp
  moreover have "\<forall>i \<in> set order. vm_holds m1 (ps ! i) \<and> vm_holds m2 (ps ! i)"
    using one(1) two(1) o(4) by (simp add: vm_settled_def)
  ultimately have "agree_sigs UNIV m1 m2" using settled_unique [OF o(1,2)] o(4) by simp
  then show ?thesis using one(1) by (auto simp: agree_sigs_def intro: nth_equalityI)
qed


section \<open>A concrete run\<close>

text \<open>The chain of two assignments; \<open>a\<close> changes from 3 to 200.\<close>

definition vm_chain :: vm_design where
  "vm_chain = \<lparr>vd_processes = chain_procs, vd_delta_limit = 4, vd_markers = [],
     vd_monitors = [], vd_signal_map = (\<lambda>n. None), vd_mem_map = (\<lambda>n. None), vd_iter = sorted_list_of_set\<rparr>"

definition vm_chain_machine :: "int list \<Rightarrow> machine" where
  "vm_chain_machine vs = \<lparr>sig_val = vs, sig_mask = [0, 0, 0, 0], sig_width = [8, 8, 8, 8], const_pool = [], nba_queue = [],
     nba_mem_queue = [], display_output = [], m_time = 0, dirty = {}, mem_val = [], mem_mask = [], mem_info = [],
     active_monitor_id = -1, loop_limit = 3\<rparr>"

lemma vm_chain_plan: "plan_continuous_order (vd_processes vm_chain) = Some ([1, 0], 2)"
  using chain_procs_plan by (simp add: vm_chain_def)

theorem planned_pass_settles_witness:
  "\<exists>m'. exec_programs (map (\<lambda>i. vp_program (continuous_part (vd_processes vm_chain) ! i)) [1, 0]) (vm_chain_machine [200, 5, 0, 0]) =
     Inr (m', False) \<and> vm_settled (continuous_part (vd_processes vm_chain)) m'"
proof -
  let ?run = "exec_programs (map (\<lambda>i. vp_program (continuous_part (vd_processes vm_chain) ! i)) [1, 0]) (vm_chain_machine [200, 5, 0, 0])"
  have "case ?run of Inr (m, stop) \<Rightarrow> \<not> stop \<and> sig_val m = [200, 5, 205, 5] | Inl e \<Rightarrow> False" by code_simp
  then obtain m' where m': "?run = Inr (m', False)" by (auto split: sum.splits)
  from planned_pass_settles [OF vm_chain_plan refl m'] show ?thesis using m' by blast
qed

theorem propagation_matches_plan_witness:
  "\<exists>m1 C m2. vm_propagate 4 vm_chain {0} {0} (vm_chain_machine [200, 5, 8, 11]) = Inr (m1, C) \<and>
     exec_programs (map (\<lambda>i. vp_program (continuous_part (vd_processes vm_chain) ! i)) [1, 0]) (vm_chain_machine [200, 5, 8, 11]) =
       Inr (m2, False) \<and> sig_val m1 = sig_val m2"
proof -
  let ?m = "vm_chain_machine [200, 5, 8, 11]" and ?ps = "continuous_part (vd_processes vm_chain)"
  let ?work = "vm_propagate (vd_delta_limit vm_chain) vm_chain {0} {0} ?m"
  let ?run = "exec_programs (map (\<lambda>i. vp_program (?ps ! i)) [1, 0]) ?m"
  have "case ?work of Inr (m, C) \<Rightarrow> True | Inl e \<Rightarrow> False" by code_simp
  then obtain m1 C where m1: "?work = Inr (m1, C)" by (auto split: sum.splits)
  have "case ?run of Inr (m, stop) \<Rightarrow> \<not> stop | Inl e \<Rightarrow> False" by code_simp
  then obtain m2 where m2: "?run = Inr (m2, False)" by (auto split: sum.splits)
  have "iter_ok vm_chain" by (simp add: iter_ok_def vm_chain_def)
  moreover have "vm_settled ?ps (vm_chain_machine [3, 5, 8, 11])" by code_simp
  moreover have "agree_sigs (- {0}) (vm_chain_machine [3, 5, 8, 11]) ?m"
    by (auto simp: agree_sigs_def vm_chain_machine_def nth_Cons' gr0_conv_Suc)
  moreover have "{0} \<inter> targets ?ps = {}" by code_simp
  ultimately show ?thesis
    using propagation_matches_plan [OF vm_chain_plan refl, of "vm_chain_machine [3, 5, 8, 11]" "{0}" ?m "{0}" m1 C m2 False] m1 m2
    by (simp add: vm_chain_def)
qed

end
