(* ===== verification/Vm_Differences.thy ===== *)
theory Vm_Differences
  imports Vm_Scheduler
begin

text \<open>
  Two designs on which the VM scheduler loses what its initial blocks do. In both the interpreter halts
  normally and no error is reported.
\<close>

section \<open>A non-blocking assignment in an initial block\<close>

text \<open>\<open>initial q <= 1;\<close> and nothing else: the update stays in the queue for ever.\<close>

definition vm_plain :: "vm_process_type \<Rightarrow> program \<Rightarrow> nat set \<Rightarrow> vm_process" where
  "vm_plain t prog sens = \<lparr>vp_type = t, vp_program = prog @ [(PROC_END, 0, 0)], vp_sensitivity = sens, vp_edges = [],
     vp_has_timing = False, vp_self_sens = {}, vp_keyword = ''always''\<rparr>"

definition vm_small :: "vm_process list \<Rightarrow> nat list \<Rightarrow> vm_design" where
  "vm_small ps markers = \<lparr>vd_processes = ps, vd_delta_limit = 5, vd_markers = markers, vd_monitors = [],
     vd_signal_map = (\<lambda>n. None), vd_mem_map = (\<lambda>n. None), vd_iter = sorted_list_of_set\<rparr>"

definition vm_small_machine :: machine where
  "vm_small_machine = \<lparr>sig_val = [0, 0], sig_mask = [255, 1], sig_width = [8, 1], const_pool = [known 5 8, known 0 8],
     nba_queue = [], nba_mem_queue = [], display_output = [], m_time = 0, dirty = {}, mem_val = [0], mem_mask = [255],
     mem_info = [(8, 1, 0)], active_monitor_id = -1, loop_limit = 3\<rparr>"

lemma initial_update_lost:
  "case vm_run_sched 5 (vm_small [vm_plain INITIAL [(LOAD_CONST, 0, 0), (NBA_SIG, 0, 0)] {}] []) 100
          (vm_initial_sched vm_small_machine) of
     Some (Inr s) \<Rightarrow> nba_queue (vs_mach s) = [NbaWhole 0 (known 5 8)] \<and> sig_mask (vs_mach s) ! 0 = 255
   | _ \<Rightarrow> False"
  by code_simp

section \<open>A memory written by the first of two initial blocks\<close>

text \<open>
  \<open>initial mem[0] = 5;\<close>, an empty initial block, and \<open>always @* y = mem[0];\<close>. The marker of the memory is
  signal 1. The block is woken only when the initial block that writes is the last one, as each initial
  block clears \<open>interpreter.dirty\<close> before it runs.
\<close>

definition mem_writer :: vm_process where
  "mem_writer = vm_plain INITIAL [(LOAD_CONST, 0, 0), (LOAD_CONST, 1, 0), (STORE_MEM, push_bit 16 1, 0)] {}"

definition mem_reader :: vm_process where
  "mem_reader = vm_plain COMBINATIONAL [(LOAD_CONST, 1, 0), (LOAD_MEM, 0, 0), (STORE_SIG, 0, 0)] {1}"

definition mem_result :: "vm_process list \<Rightarrow> (int \<times> int) option" where
  "mem_result initials =
     (case vm_run_sched 5 (vm_small (initials @ [mem_reader]) [1]) 100 (vm_initial_sched vm_small_machine) of
        Some (Inr s) \<Rightarrow> Some (read_sig s 0) | _ \<Rightarrow> None)"

lemma initial_memory_lost:
  "mem_result [mem_writer] = Some (5, 0)"
  "mem_result [vm_plain INITIAL [] {}, mem_writer] = Some (5, 0)"
  "mem_result [mem_writer, vm_plain INITIAL [] {}] = Some (0, 255)"
  by code_simp+

end
