(* ===== verification/Spec2Isabelle.thy ===== *)
theory Spec2Isabelle
  imports Signed_Divide Value_Properties Semantics_Properties Engine_Differences Vm_Halts
    Display_Properties Readmem_Properties Nonblocking_Properties Executor_Coroutine Executor_Differences
    Engine_Statement Event_Queue_Properties Scheduler_Settled Vm_Settled Vm_Differences
begin

text \<open>
  Verification of the simulation core of veriforge, \<open>src/src/veriforge\<close>.

  The program parses Verilog into a model (\<open>model/\<close>), elaborates it and simulates it. Its simulator has
  several engines. The reference engine walks the expression and statement trees (\<open>sim/evaluator.py\<close>,
  \<open>sim/executor.py\<close>); the VM engine compiles both to bytecode (\<open>sim/vm/compiler.py\<close>, \<open>sim/vm/opcodes.py\<close>)
  and interprets it (\<open>sim/vm/interpreter.py\<close>). All engines compute with one class of 4-state values
  (\<open>sim/value.py\<close>), and constant expressions, widths and signedness are decided in \<open>semantics.py\<close>.

  What is modelled, and where.

  \<^item> \<open>Prelude\<close>: the exceptions of the code (\<open>py_error\<close>), results \<open>'a res = py_error + 'a\<close> with \<open>rbind\<close> and
    \<open>rmap\<close>, Python's shifts and bit masks on unbounded integers.
  \<^item> \<open>Value4\<close>, \<open>Value4_Order\<close>, \<open>Value4_Bits\<close>, \<open>Value4_Spec\<close>: class \<open>Value\<close>; a value is the record \<open>val4\<close> with the
    fields \<open>val\<close>, \<open>mask\<close>, \<open>width\<close>. The specification side is \<open>Value4_Spec\<close> (well-formedness, bit view, the
    order of information) and \<open>Value_Words\<close> (\<open>'a word\<close>). \<open>Py_Text\<close> and \<open>Verilog_Literal\<close>: literals, printing.
  \<^item> \<open>Expr\<close>, \<open>Statement\<close>: the trees of \<open>model/expressions.py\<close> and \<open>model/statements.py\<close>.
  \<^item> \<open>Semantics\<close>: \<open>semantics.py\<close>, constant evaluation with parameters, \<open>expr_width\<close>, \<open>expr_signed\<close>.
  \<^item> \<open>Eval_Ops\<close>, \<open>Evaluator\<close>: \<open>ExpressionEvaluator.eval\<close>; the class \<open>EvalContext\<close> is the record \<open>eval_ctx\<close>.
  \<^item> \<open>Exec_Assign\<close>, \<open>Executor\<close>: class \<open>StatementExecutor\<close>; its attributes and the context are the record
    \<open>exec_state\<close>. An exception that ends a statement (\<open>StopExecution\<close>, \<open>SuspendExecution\<close>, \<open>DisableBlock\<close>, an
    error) is a value of \<open>completion\<close>; the generator \<open>execute_coroutine\<close> is a tree of type \<open>coroutine\<close>, whose
    \<open>Yield\<close> holds the function that resumes it.
  \<^item> \<open>Display_Format\<close>, \<open>Readmem\<close>: the text that \<open>$display\<close> prints and the files that \<open>$readmemh\<close> reads.
  \<^item> \<open>Opcodes\<close>, \<open>Interpreter\<close>: instructions, \<open>max_stack_depth\<close>, and the interpreter as a step function on
    \<open>machine\<close> and \<open>vm_config\<close>. \<open>Vm_Compiler\<close>: \<open>_compile_expr\<close> and what it calls, as a function of the part of
    the compiler's state that it changes, \<open>comp_state\<close>. \<open>Vm_Statement\<close>: \<open>_compile_stmt\<close>, assignment targets,
    \<open>_compile_case\<close>, system tasks, on the larger state \<open>stmt_comp\<close> (formats, monitors, memory files).

  \<^item> \<open>Heap_Queue\<close>, \<open>Event_Queue\<close>: \<open>EventQueue\<close> in \<open>sim/scheduler.py\<close> on the functions of \<open>heapq\<close>.
    \<open>Sensitivity\<close>: the free functions of that file, from \<open>_walk_expr_reads\<close> to \<open>_has_timing\<close>.
  \<^item> \<open>Continuous\<close>: the continuous assignments of class \<open>Scheduler\<close>, both forms of
    \<open>_run_dirty_continuous_assigns\<close>. \<open>Scheduler\<close>: processes, active region, triggering, delta cycles and one
    time step; the attributes that elaboration fixes are the record \<open>design\<close>, the others the record \<open>sched\<close>.
    \<open>Scheduler_Run\<close>: \<open>run\<close>, \<open>run_step\<close>, \<open>settle\<close>, \<open>drive_signal\<close>.
  \<^item> \<open>Propagation\<close>: \<open>plan_continuous_order\<close> of \<open>sim/vm/propagation.py\<close>, the order in which one pass over the
    compiled continuous assignments settles them. \<open>Vm_Scheduler\<close>: class \<open>VMScheduler\<close> of
    \<open>sim/vm/vm_scheduler.py\<close> on its pure Python path; what elaboration fixes is the record \<open>vm_design\<close>, the
    rest \<open>vm_sched\<close>. The order in which Python iterates over a set is the parameter \<open>vd_iter\<close> of the design.

  What the lemmas show.

  \<^item> Values: \<open>Value4_Bits\<close> gives the bits of every operation, \<open>Value4_Order\<close> that knowing more bits of the
    operands never changes a known bit of a result, \<open>Value_Words\<close> that on known values the operations are
    those of the machine word, \<open>Value_Properties\<close> slices, round trips and well-formedness.
  \<^item> Constants: parameter cycles are unknown, division truncates, powers keep the low bits.
  \<^item> Engines: \<open>Engine_Equiv\<close>, \<open>Engine_Binary\<close>, \<open>Engine_Control\<close>, \<open>Engine_Select\<close> and \<open>Engine_Agree\<close> prove, one kind of
    expression after the other, that the compiled code leaves on the stack what the evaluator returns;
    \<open>Stack_Depth\<close> that the stack never outgrows \<open>max_stack_depth\<close>; \<open>Vm_Halts\<close> that the interpreter stops.
    The predicate \<open>agree_expr\<close> names the expressions covered; \<open>Engine_Differences\<close> shows that the engines
    do differ on some of the others.
  \<^item> Engines, statements: \<open>Engine_Shape\<close> (what a run leaves alone), \<open>Engine_Steps\<close> (runs of code placed inside a
    larger program), \<open>Engine_Assign\<close>, \<open>Engine_Flow\<close>, \<open>Engine_Case\<close> and \<open>Engine_Statement\<close> prove that the code of
    a statement simulates the executor: same signals, memories and pending updates, same way of ending.
  \<^item> Statements: \<open>Executor_Coroutine\<close> relates the two executors, \<open>Nonblocking\<close> and \<open>Nonblocking_Properties\<close> show
    what makes clocked processes independent of their order, \<open>Executor_Differences\<close> shows on concrete
    states where assignments and case statements do not do what they should.
  \<^item> Scheduling: \<open>Event_Queue_Properties\<close> (delivery is a stable sort), \<open>Sensitivity_Properties\<close> (the names
    collected are all that an expression depends on), \<open>Continuous_Pass\<close> and \<open>Continuous_Settle\<close> (the two
    forms of a pass agree; visiting only what may have changed brings every assignment up to date),
    \<open>Scheduler_Time\<close> (no event and no waiting process is lost, time never goes back). The interfaces are
    locales: \<open>priority_queue\<close> and \<open>scheduling\<close> for the queue, \<open>scheduler_relation\<close> for what the operations of
    a time step keep.
  \<^item> Statements and scheduling together: \<open>Statement_Relation\<close> is the interface of everything a statement keeps,
    whichever executor runs it (locale \<open>statement_relation\<close>); \<open>Statement_Tracking\<close> instantiates it to the
    declared widths and to the record of changed names, \<open>Untimed\<close> says which expressions do not depend on
    the time, and \<open>Scheduler_Settled\<close> composes them with the passes: after any run of a design without
    combinational cycles every continuous assignment holds.
  \<^item> Scheduling in the VM: \<open>Propagation_Properties\<close> (a planned order visits every writer before its readers),
    \<open>Vm_Settled\<close> (one pass in that order reaches the fixed point, and waking only the affected assignments
    until nothing changes reaches the same one); \<open>Vm_Differences\<close> shows two things that the initial blocks
    of a design do in the reference scheduler and not in the VM.
  \<^item> Text: \<open>Display_Properties\<close> and \<open>Readmem_Properties\<close> (round trips, columns, bounds).

  Bounds and fuel. The interpreter runs under the code's own loop limit, and \<open>execute_halts\<close> proves
  that a run ends; the loops of the executor carry the number of iterations left before the limit, as
  the code counts them. The event loop of \<open>run\<close> need not end, so \<open>run_time_step\<close> has fuel, one unit for each
  time step, and \<open>None\<close> says that it was used up; delta cycles are bounded by \<open>delta_limit\<close>, as in the code. Everything else terminates on the structure of its input. Python's
  integers are unbounded, so they are \<open>int\<close>; the width of a value, which is never negative, is \<open>nat\<close>.

  Not modelled. Struct-typed signals, user functions and tasks, reals and \<open>$random\<close> in the engines: the
  definitions return \<open>Unmodelled\<close> for the calls and assume contexts without structs. Of the event-driven scheduler, the signals that \<open>elaborate\<close> declares,
  dump sessions and the callback after a step are left out. Of the scheduler of the VM, the native context of
  \<open>_interp_fast.pyx\<close>, timed processes (run by coroutines), batch runs and traces are left out. Elaboration, the waveform writer, the bus endpoints, the
  analysis passes, the preprocessor, refactoring, the Python front end and the fuzzer are listed in the
  manifest as not modelled. The Cython interpreter and the C emitters duplicate the engines in another
  language; the parser is built on a third-party parser generator.
\<close>

end
